(* ===== verification/Prelude.thy ===== *)
theory Prelude
  imports Main "HOL-Library.Word"
begin

text \<open>
  Shared vocabulary of the development: the machine types of the LP64 targets (amd64 is the
  default \<^verbatim>\<open>ARCH\<close> of the makefile), the ways a computation of the kernel can stop
  (\<^verbatim>\<open>Panic\<close> of \<^verbatim>\<open>src/kernel/panic.h\<close>, or an access the C code must not make),
  the two sequencing combinators every other theory is written with, C character arrays,
  and little-endian loads and stores on a byte memory.
\<close>

unbundle bit_operations_syntax

named_theorems result_simps \<open>sequencing of results and outcomes\<close>
named_theorems frame_simps \<open>what an operation leaves unchanged\<close>

section \<open>Machine types\<close>

type_synonym u8 = "8 word"
type_synonym u16 = "16 word"
type_synonym u32 = "32 word"
type_synonym u64 = "64 word"

text \<open>\<^verbatim>\<open>void *\<close> and every other pointer; \<^verbatim>\<open>NULL\<close> is 0.\<close>
type_synonym addr = "64 word"

abbreviation NULL :: addr where
  "NULL \<equiv> 0"

type_synonym memory = "addr \<Rightarrow> u8"

section \<open>How a computation stops\<close>

text \<open>\<^verbatim>\<open>PanicCode\<close> of \<^verbatim>\<open>src/kernel/panic.h\<close>.\<close>

datatype PanicCode =
    PANIC_TODO
  | PANIC_RAN_OUT_OF_MEMORY
  | PANIC_NULL_POINTER_DEREFERENCE
  | PANIC_UNINTENDED_CALL
  | PANIC_TRACE_OVERFLOW
  | PANIC_NOT_FOUND
  | PANIC_SEGMENTATION_FAULT
  | PANIC_DOUBLE_OPEN
  | PANIC_FD_NOT_FOUND
  | PANIC_INCORRECT_BOOTLOADER
  | PANIC_UNHANDLED_INTERRUPT
  | PANIC_OVERHEAT

text \<open>
  \<open>Panic c\<close> is a call of \<^verbatim>\<open>PanicImpl\<close>, which never returns. \<open>Fault\<close> is undefined
  behaviour of the C program: an access through a null or dangling pointer, an index outside
  the array it is used on, a signed overflow of a loop counter.
\<close>

datatype stop = Panic PanicCode | Fault

type_synonym 'a result = "stop + 'a"

text \<open>
  A computation with a loop over a linked structure may also not return:
  then its outcome is \<open>None\<close>.
\<close>

type_synonym 'a outcome = "(stop + 'a) option"

definition rbind :: "'a result \<Rightarrow> ('a \<Rightarrow> 'b result) \<Rightarrow> 'b result" where
  "rbind r f = (case r of Inl e \<Rightarrow> Inl e | Inr a \<Rightarrow> f a)"

definition obind :: "'a outcome \<Rightarrow> ('a \<Rightarrow> 'b outcome) \<Rightarrow> 'b outcome" where
  "obind m f = Option.bind m (\<lambda>r. case r of Inl e \<Rightarrow> Some (Inl e) | Inr a \<Rightarrow> f a)"

definition PanicIfNull :: "addr \<Rightarrow> unit result" where
  "PanicIfNull e = (if e = NULL then Inl (Panic PANIC_NULL_POINTER_DEREFERENCE) else Inr ())"

lemma rbind_simps [simp, result_simps]:
  "rbind (Inl e) f = Inl e"
  "rbind (Inr a) f = f a"
  by (simp_all add: rbind_def)

lemma rbind_Inr_iff [result_simps]:
  "rbind r f = Inr b \<longleftrightarrow> (\<exists>a. r = Inr a \<and> f a = Inr b)"
  by (cases r) auto

lemma rbind_Inl_iff [result_simps]:
  "rbind r f = Inl e \<longleftrightarrow> r = Inl e \<or> (\<exists>a. r = Inr a \<and> f a = Inl e)"
  by (cases r) auto

lemma obind_simps [simp, result_simps]:
  "obind None f = None"
  "obind (Some (Inl e)) f = Some (Inl e)"
  "obind (Some (Inr a)) f = f a"
  by (simp_all add: obind_def)

lemma obind_Inr_iff [result_simps]:
  "obind m f = Some (Inr b) \<longleftrightarrow> (\<exists>a. m = Some (Inr a) \<and> f a = Some (Inr b))"
proof (cases m)
  case (Some r)
  then show ?thesis by (cases r) auto
qed simp

lemma obind_Some_rbind [result_simps]:
  "obind (Some r) (\<lambda>a. Some (f a)) = Some (rbind r f)"
  by (cases r) simp_all

lemma obind_mono [partial_function_mono]:
  assumes "mono_option B" and "\<And>y. mono_option (C y)"
  shows "mono_option (\<lambda>f. obind (B f) (\<lambda>y. C y f))"
proof -
  have cont: "mono_option (\<lambda>f. case r of Inl e \<Rightarrow> Some (Inl e) | Inr a \<Rightarrow> C a f)" for r
    using assms(2) by (cases r) (simp_all add: option.const_mono)
  have "mono_option (\<lambda>f. Option.bind (B f)
          (\<lambda>r. case r of Inl e \<Rightarrow> Some (Inl e) | Inr a \<Rightarrow> C a f))"
    by (intro bind_mono assms(1) cont)
  then show ?thesis by (simp add: obind_def)
qed

lemma PanicIfNull_simps [simp]:
  "PanicIfNull NULL = Inl (Panic PANIC_NULL_POINTER_DEREFERENCE)"
  "p \<noteq> NULL \<Longrightarrow> PanicIfNull p = Inr ()"
  by (simp_all add: PanicIfNull_def)

lemma PanicIfNull_Inr_iff [result_simps]: "PanicIfNull p = Inr u \<longleftrightarrow> p \<noteq> NULL"
  by (simp add: PanicIfNull_def)

section \<open>Characters\<close>

text \<open>
  A \<^verbatim>\<open>char\<close> array is the list of its characters from the pointer to the end of the
  object, so a read past the object's end is visible as \<open>Fault\<close>. \<^verbatim>\<open>char\<close> is
  signed on the x86 targets.
\<close>

abbreviation NUL :: char where
  "NUL \<equiv> CHR 0x00"

definition byte_of :: "char \<Rightarrow> u8" where
  "byte_of c = of_nat (of_char c)"

definition char_of_byte :: "u8 \<Rightarrow> char" where
  "char_of_byte b = char_of (unat b)"

definition schar :: "char \<Rightarrow> int" where
  "schar c = sint (byte_of c)"

definition cget :: "string \<Rightarrow> nat \<Rightarrow> char result" where
  "cget s i = (if i < length s then Inr (s ! i) else Inl Fault)"

lemma cget_in [simp]: "i < length s \<Longrightarrow> cget s i = Inr (s ! i)"
  by (simp add: cget_def)

lemma cget_out [simp]: "length s \<le> i \<Longrightarrow> cget s i = Inl Fault"
  by (simp add: cget_def)

lemma unat_byte_of: "unat (byte_of c) = of_char c"
proof -
  have "(of_char c :: nat) < 256" by simp
  then show ?thesis by (simp add: byte_of_def unat_of_nat)
qed

lemma char_of_byte_of [simp]: "char_of_byte (byte_of c) = c"
  by (simp add: char_of_byte_def unat_byte_of)

lemma byte_of_char_of_byte [simp]: "byte_of (char_of_byte b) = b"
proof -
  have "unat b < 256" using unsigned_less [of b] by simp
  then show ?thesis by (simp add: char_of_byte_def byte_of_def)
qed

lemma byte_of_eq_iff [simp]: "byte_of a = byte_of b \<longleftrightarrow> a = b"
  by (metis char_of_byte_of)

lemma schar_eq_iff: "schar a = schar b \<longleftrightarrow> a = b"
  unfolding schar_def by (metis byte_of_eq_iff signed_word_eqI)

section \<open>Bytes and words\<close>

definition le_split :: "nat \<Rightarrow> 'a::len word \<Rightarrow> u8 list" where
  "le_split n w = map (\<lambda>i. ucast (drop_bit (8 * i) w)) [0..<n]"

fun le_join :: "u8 list \<Rightarrow> 'a::len word" where
  "le_join [] = 0"
| "le_join (b # bs) = ucast b OR push_bit 8 (le_join bs)"

definition load_bytes :: "memory \<Rightarrow> addr \<Rightarrow> nat \<Rightarrow> u8 list" where
  "load_bytes m a n = map (\<lambda>i. m (a + of_nat i)) [0..<n]"

definition store_bytes :: "memory \<Rightarrow> addr \<Rightarrow> u8 list \<Rightarrow> memory" where
  "store_bytes m a bs = (\<lambda>x. if unat (x - a) < length bs then bs ! unat (x - a) else m x)"

definition load64 :: "memory \<Rightarrow> addr \<Rightarrow> u64" where
  "load64 m a = le_join (load_bytes m a 8)"

definition store64 :: "memory \<Rightarrow> addr \<Rightarrow> u64 \<Rightarrow> memory" where
  "store64 m a v = store_bytes m a (le_split 8 v)"

lemma length_le_split [simp]: "length (le_split n w) = n"
  by (simp add: le_split_def)

lemma length_load_bytes [simp]: "length (load_bytes m a n) = n"
  by (simp add: load_bytes_def)

lemma bit_le_join:
  "bit (le_join bs :: 'a::len word) k \<longleftrightarrow>
     k < LENGTH('a) \<and> k div 8 < length bs \<and> bit (bs ! (k div 8)) (k mod 8)"
proof (induction bs arbitrary: k)
  case Nil
  then show ?case by simp
next
  case (Cons b bs)
  show ?case
  proof (cases "k < 8")
    case True
    then show ?thesis
      by (auto simp: bit_simps)
  next
    case False
    then have "k div 8 = Suc ((k - 8) div 8)" and "(k - 8) mod 8 = k mod 8"
      by (simp_all add: le_div_geq le_mod_geq)
    moreover have "\<not> bit b k"
      using False bit_imp_le_length [of b k] by auto
    ultimately show ?thesis using False Cons.IH [of "k - 8"]
      by (auto simp: bit_simps)
  qed
qed

lemma bit_word_of_nat: "bit (of_nat n :: 'a::len word) k \<longleftrightarrow> k < LENGTH('a) \<and> bit n k"
  by transfer (simp add: bit_take_bit_iff bit_of_nat_iff_bit)

lemma bit_less_nat: "bit (n :: nat) k \<Longrightarrow> n < 2 ^ b \<Longrightarrow> k < b"
  using bit_take_bit_iff [of b n k] by (simp add: take_bit_nat_eq_self)

lemma bit_ucast_u8: "bit (ucast w :: u8) k \<longleftrightarrow> k < 8 \<and> bit w k"
  by (simp add: bit_ucast_iff)

lemma bit_drop_bit_u8: "bit (drop_bit n w) k \<longleftrightarrow> bit w (n + k)" for w :: "'a::len word"
  by (simp add: bit_drop_bit_eq)

lemma le_join_split:
  assumes "LENGTH('a) \<le> 8 * n"
  shows "le_join (le_split n w) = (w :: 'a::len word)"
proof (rule bit_word_eqI)
  fix k assume "k < LENGTH('a)"
  moreover from this assms have "k div 8 < n" by auto
  moreover have "k mod 8 + 8 * (k div 8) = k" and "k mod 8 < 8" by simp_all
  ultimately show "bit (le_join (le_split n w) :: 'a word) k \<longleftrightarrow> bit w k"
    by (simp add: bit_le_join le_split_def bit_ucast_u8 bit_drop_bit_u8 add.commute del: len_of_numeral_defs)
qed

lemma load_store_same:
  assumes "length bs \<le> 2 ^ 64"
  shows "load_bytes (store_bytes m a bs) a (length bs) = bs"
proof (rule nth_equalityI)
  show "length (load_bytes (store_bytes m a bs) a (length bs)) = length bs" by simp
next
  fix i assume "i < length (load_bytes (store_bytes m a bs) a (length bs))"
  then have i: "i < length bs" by simp
  with assms have "unat (of_nat i :: addr) = i"
    by (simp add: unat_of_nat)
  with i show "load_bytes (store_bytes m a bs) a (length bs) ! i = bs ! i"
    by (simp add: load_bytes_def store_bytes_def)
qed

lemma load64_store64 [simp]: "load64 (store64 m a v) a = v"
proof -
  have "load_bytes (store_bytes m a (le_split 8 v)) a (length (le_split 8 v)) = le_split 8 v"
    by (rule load_store_same) simp
  then show ?thesis
    by (simp add: load64_def store64_def le_join_split)
qed

lemma store64_other: "8 \<le> unat (x - a) \<Longrightarrow> store64 m a v x = m x"
  by (simp add: store64_def store_bytes_def)

lemma load64_cong:
  "(\<And>i. i < 8 \<Longrightarrow> m (a + of_nat i) = m' (a + of_nat i)) \<Longrightarrow> load64 m a = load64 m' a"
  unfolding load64_def load_bytes_def by (rule arg_cong [where f = le_join]) (simp cong: map_cong)

end
