(* ===== verification/KString.thy ===== *)
theory KString
  imports Prelude
begin

text \<open>
  \<^verbatim>\<open>src/kernel/string.c\<close> without its one allocating routine: the comparison and length
  of C strings on character arrays, the bounded copy, and \<^verbatim>\<open>memset\<close> and
  \<^verbatim>\<open>memcpy\<close> on the byte memory. Each loop is a recursion over its index; the lemmas
  give the closed form every client uses.
\<close>

section \<open>Character arrays\<close>

text \<open>A \<^verbatim>\<open>const char *\<close> argument: \<open>None\<close> is \<^verbatim>\<open>NULL\<close>.\<close>
type_synonym cstr = "string option"

definition cset :: "string \<Rightarrow> nat \<Rightarrow> char \<Rightarrow> string result" where
  "cset s i c = (if i < length s then Inr (s[i := c]) else Inl Fault)"

lemma cset_in [simp]: "i < length s \<Longrightarrow> cset s i c = Inr (s[i := c])"
  by (simp add: cset_def)

function strncmp_loop :: "string \<Rightarrow> string \<Rightarrow> nat \<Rightarrow> nat \<Rightarrow> int result" where
  "strncmp_loop Lhs Rhs Len i =
     (if i < Len then
        rbind (cget Lhs i) (\<lambda>l. rbind (cget Rhs i) (\<lambda>r.
          if l \<noteq> r \<or> l = NUL then Inr (schar l - schar r)
          else strncmp_loop Lhs Rhs Len (Suc i)))
      else Inr 0)"
  by pat_completeness auto
termination by (relation "measure (\<lambda>(L, R, Len, i). Len - i)") auto

declare strncmp_loop.simps [simp del]

definition strncmp :: "cstr \<Rightarrow> cstr \<Rightarrow> nat \<Rightarrow> int result" where
  "strncmp Lhs Rhs Len =
     (case (Lhs, Rhs) of
        (Some l, Some r) \<Rightarrow> strncmp_loop l r Len 0
      | _ \<Rightarrow> Inl (Panic PANIC_NULL_POINTER_DEREFERENCE))"

function strnlen_loop :: "string \<Rightarrow> nat \<Rightarrow> nat \<Rightarrow> nat result" where
  "strnlen_loop A Len i =
     (if i < Len then
        rbind (cget A i) (\<lambda>c. if c \<noteq> NUL then strnlen_loop A Len (Suc i) else Inr i)
      else Inr Len)"
  by pat_completeness auto
termination by (relation "measure (\<lambda>(A, Len, i). Len - i)") auto

declare strnlen_loop.simps [simp del]

definition strnlen :: "cstr \<Rightarrow> nat \<Rightarrow> nat result" where
  "strnlen A Len =
     (case A of None \<Rightarrow> Inl (Panic PANIC_NULL_POINTER_DEREFERENCE)
      | Some a \<Rightarrow> strnlen_loop a Len 0)"

text \<open>\<^verbatim>\<open>strncpy\<close>: the copying loop, then the padding loop.\<close>

function strncpy_copy :: "string \<Rightarrow> string \<Rightarrow> nat \<Rightarrow> nat \<Rightarrow> (string \<times> nat) result" where
  "strncpy_copy Dst Src Len i =
     (if i < Len then
        rbind (cget Src i) (\<lambda>c.
          if c \<noteq> NUL then rbind (cset Dst i c) (\<lambda>D. strncpy_copy D Src Len (Suc i))
          else Inr (Dst, i))
      else Inr (Dst, i))"
  by pat_completeness auto
termination by (relation "measure (\<lambda>(D, S, Len, i). Len - i)") auto

function strncpy_pad :: "string \<Rightarrow> nat \<Rightarrow> nat \<Rightarrow> string result" where
  "strncpy_pad Dst Len i =
     (if i < Len then rbind (cset Dst i NUL) (\<lambda>D. strncpy_pad D Len (Suc i)) else Inr Dst)"
  by pat_completeness auto
termination by (relation "measure (\<lambda>(D, Len, i). Len - i)") auto

declare strncpy_copy.simps [simp del] strncpy_pad.simps [simp del]

definition strncpy :: "string \<Rightarrow> string \<Rightarrow> nat \<Rightarrow> string result" where
  "strncpy Dst Src Len = rbind (strncpy_copy Dst Src Len 0) (\<lambda>(D, i). strncpy_pad D Len i)"

section \<open>Memory\<close>

text \<open>
  \<^verbatim>\<open>memset\<close> counts with an \<^verbatim>\<open>int\<close> against a \<^verbatim>\<open>long\<close> length: a length
  of \<open>2\<^sup>3\<^sup>1\<close> or more overflows the counter.
\<close>

function memset_loop :: "addr \<Rightarrow> u8 \<Rightarrow> int \<Rightarrow> nat \<Rightarrow> memory \<Rightarrow> memory result" where
  "memset_loop base v l i m =
     (if int i < l then
        if 2 ^ 31 - 1 \<le> int i then Inl Fault
        else memset_loop base v l (Suc i) (m(base + of_nat i := v))
      else Inr m)"
  by pat_completeness auto
termination by (relation "measure (\<lambda>(base, v, l, i, m). nat (l - int i))") auto

declare memset_loop.simps [simp del]

definition memset :: "addr \<Rightarrow> int \<Rightarrow> int \<Rightarrow> memory \<Rightarrow> memory result" where
  "memset p v l m = rbind (PanicIfNull p) (\<lambda>_. memset_loop p (word_of_int v) l 0 m)"

function memcpy_loop :: "addr \<Rightarrow> addr \<Rightarrow> nat \<Rightarrow> nat \<Rightarrow> memory \<Rightarrow> memory" where
  "memcpy_loop Destination Source Len i m =
     (if i < Len then
        memcpy_loop Destination Source Len (Suc i)
          (m(Destination + of_nat i := m (Source + of_nat i)))
      else m)"
  by pat_completeness auto
termination by (relation "measure (\<lambda>(d, s, Len, i, m). Len - i)") auto

declare memcpy_loop.simps [simp del]

definition memcpy :: "addr \<Rightarrow> addr \<Rightarrow> nat \<Rightarrow> memory \<Rightarrow> memory result" where
  "memcpy Destination Source Len m =
     rbind (PanicIfNull Destination) (\<lambda>_. rbind (PanicIfNull Source) (\<lambda>_.
       Inr (memcpy_loop Destination Source Len 0 m)))"

section \<open>String comparison\<close>

text \<open>The reference: comparison by structural recursion.\<close>

fun cmp_ref :: "string \<Rightarrow> string \<Rightarrow> nat \<Rightarrow> int result" where
  "cmp_ref L R 0 = Inr 0"
| "cmp_ref (l # L) (r # R) (Suc n) =
     (if l \<noteq> r \<or> l = NUL then Inr (schar l - schar r) else cmp_ref L R n)"
| "cmp_ref _ _ (Suc n) = Inl Fault"

lemma strncmp_loop_ref: "strncmp_loop L R Len i = cmp_ref (drop i L) (drop i R) (Len - i)"
proof (induction L R Len i rule: strncmp_loop.induct)
  case (1 L R Len i)
  show ?case
  proof (cases "i < Len \<and> i < length L \<and> i < length R")
    case True
    then have "Len - i = Suc (Len - Suc i)" and "drop i L = L ! i # drop (Suc i) L"
      and "drop i R = R ! i # drop (Suc i) R"
      by (simp_all add: Cons_nth_drop_Suc Suc_diff_Suc)
    with True "1" show ?thesis
      by (auto simp: strncmp_loop.simps [of L R Len i])
  next
    case False
    show ?thesis
    proof (cases "i < Len")
      case True
      then obtain n where n: "Len - i = Suc n" by (cases "Len - i") auto
      from False True consider "length L \<le> i" | "i < length L" "length R \<le> i" by linarith
      then show ?thesis
      proof cases
        case 1
        with True n show ?thesis by (simp add: strncmp_loop.simps [of L R Len i])
      next
        case 2
        with True n show ?thesis
          by (cases "drop i L") (simp_all add: strncmp_loop.simps [of L R Len i])
      qed
    qed (simp add: strncmp_loop.simps [of L R Len i])
  qed
qed

text \<open>What a C string function sees of an array: the characters before the first NUL, at
  most \<open>n\<close>; the array can be read if it is long enough or terminated.\<close>

definition cprefix :: "nat \<Rightarrow> string \<Rightarrow> string" where
  "cprefix n s = takeWhile (\<lambda>c. c \<noteq> NUL) (take n s)"

definition readable :: "nat \<Rightarrow> string \<Rightarrow> bool" where
  "readable n s \<longleftrightarrow> n \<le> length s \<or> NUL \<in> set s"

lemma cprefix_simps [simp]:
  "cprefix 0 s = []"
  "cprefix n [] = []"
  "cprefix (Suc n) (c # s) = (if c = NUL then [] else c # cprefix n s)"
  by (simp_all add: cprefix_def)

lemma cmp_ref_total:
  "readable n L \<Longrightarrow> readable n R \<Longrightarrow>
     \<exists>v. cmp_ref L R n = Inr v \<and> cmp_ref R L n = Inr (- v) \<and> (v = 0 \<longleftrightarrow> cprefix n L = cprefix n R)"
proof (induction L R n rule: cmp_ref.induct)
  case (2 l L r R n)
  then show ?case
    by (cases "l = r") (auto simp: readable_def schar_eq_iff)
qed (auto simp: readable_def)

lemma strncmp_total:
  assumes "readable n L" and "readable n R"
  shows "\<exists>v. strncmp (Some L) (Some R) n = Inr v \<and> strncmp (Some R) (Some L) n = Inr (- v) \<and>
             (v = 0 \<longleftrightarrow> cprefix n L = cprefix n R)"
  using cmp_ref_total [OF assms] by (simp add: strncmp_def strncmp_loop_ref)

lemma cmp_ref_full:
  "length L = n \<Longrightarrow> length L' = n \<Longrightarrow> NUL \<notin> set L' \<Longrightarrow>
     \<exists>v. cmp_ref (L @ xs) (L' @ ys) n = Inr v \<and> (v = 0 \<longleftrightarrow> L = L')"
proof (induction L arbitrary: L' n)
  case (Cons a L)
  then obtain b M where "L' = b # M" and "length M = length L" by (cases L') auto
  with Cons show ?case by (auto simp: schar_eq_iff)
qed simp

text \<open>
  The form the path walker uses: comparing exactly \<open>n\<close> characters, one side free of NUL.
\<close>

lemma strncmp_eq:
  assumes "n \<le> length L" and "n \<le> length R" and "NUL \<notin> set (take n R)"
  shows "\<exists>v. strncmp (Some L) (Some R) n = Inr v \<and> (v = 0 \<longleftrightarrow> take n L = take n R)"
  using cmp_ref_full [of "take n L" n "take n R" "drop n L" "drop n R"] assms
  by (simp add: strncmp_def strncmp_loop_ref)

lemma strnlen_loop_closed:
  "i \<le> Len \<Longrightarrow> readable (Len - i) (drop i A) \<Longrightarrow>
     strnlen_loop A Len i = Inr (i + length (cprefix (Len - i) (drop i A)))"
proof (induction A Len i rule: strnlen_loop.induct)
  case (1 A Len i)
  show ?case
  proof (cases "i < Len")
    case True
    then have step: "Len - i = Suc (Len - Suc i)" by (simp add: Suc_diff_Suc)
    with "1.prems" have "i < length A" by (cases "i < length A") (auto simp: readable_def)
    then have split: "drop i A = A ! i # drop (Suc i) A" by (simp add: Cons_nth_drop_Suc)
    show ?thesis
    proof (cases "A ! i = NUL")
      case False
      with "1.prems" have "readable (Len - Suc i) (drop (Suc i) A)"
        unfolding step split by (auto simp: readable_def)
      with True False "1" step split \<open>i < length A\<close> show ?thesis
        by (simp add: strnlen_loop.simps [of A Len i])
    qed (use True step split \<open>i < length A\<close> in \<open>simp add: strnlen_loop.simps [of A Len i]\<close>)
  qed (use "1.prems" in \<open>subst strnlen_loop.simps, simp\<close>)
qed

lemma strnlen_eq: "readable Len A \<Longrightarrow> strnlen (Some A) Len = Inr (length (cprefix Len A))"
  using strnlen_loop_closed [of 0 Len A] by (simp add: strnlen_def)

section \<open>Memory routines in closed form\<close>

lemma unat_of_nat_addr: "n < 2 ^ 64 \<Longrightarrow> unat (of_nat n :: addr) = n"
  by (simp add: unat_of_nat)

lemma unat_offset_eq:
  fixes a base :: addr
  assumes "i < 2 ^ 64"
  shows "unat (a - base) = i \<longleftrightarrow> a = base + of_nat i"
proof
  assume "unat (a - base) = i"
  then have "of_nat i = a - base" using assms by (metis word_unat_eq_iff unat_of_nat_addr)
  then show "a = base + of_nat i" by simp
qed (use assms in \<open>simp add: unat_of_nat_addr\<close>)

lemma memset_loop_closed:
  assumes "0 \<le> l" and l: "l < 2 ^ 31"
  shows "int i \<le> l \<Longrightarrow> memset_loop base v l i m =
     Inr (\<lambda>a. if i \<le> unat (a - base) \<and> unat (a - base) < nat l then v else m a)"
  using assms
proof (induction base v l i m rule: memset_loop.induct)
  case (1 base v l i m)
  show ?case
  proof (cases "int i < l")
    case True
    then have i: "i < 2 ^ 64" and "\<not> 2 ^ 31 - 1 \<le> int i" using "1.prems" by auto
    have "i < nat l" using True by simp
    from True \<open>\<not> _\<close> "1" have "memset_loop base v l i m =
        Inr (\<lambda>a. if Suc i \<le> unat (a - base) \<and> unat (a - base) < nat l then v
                 else (m(base + of_nat i := v)) a)"
      by (simp add: memset_loop.simps [of base v l i m] del: fun_upd_apply)
    moreover have "(if Suc i \<le> unat (a - base) \<and> unat (a - base) < nat l then v
                 else (m(base + of_nat i := v)) a) =
        (if i \<le> unat (a - base) \<and> unat (a - base) < nat l then v else m a)" for a
      using unat_offset_eq [OF i, of a base] \<open>i < nat l\<close> by auto
    ultimately show ?thesis by presburger
  next
    case False
    with "1.prems" have "int i = l" by simp
    then show ?thesis by (subst memset_loop.simps) (auto simp: fun_eq_iff)
  qed
qed

lemma memset_eq:
  "p \<noteq> NULL \<Longrightarrow> l < 2 ^ 31 \<Longrightarrow>
     memset p v (int l) m = Inr (\<lambda>a. if unat (a - p) < l then word_of_int v else m a)"
  using memset_loop_closed [of "int l" 0 p "word_of_int v" m] by (simp add: memset_def)

lemma memcpy_loop_below:
  "i \<le> Len \<Longrightarrow> Len \<le> 2 ^ 64 \<Longrightarrow> Len \<le> unat (a - Destination) \<or> unat (a - Destination) < i \<Longrightarrow>
     memcpy_loop Destination Source Len i m a = m a"
proof (induction Destination Source Len i m rule: memcpy_loop.induct)
  case (1 d s Len i m)
  show ?case
  proof (cases "i < Len")
    case True
    with "1.prems" have "a \<noteq> d + of_nat i"
      using unat_offset_eq [of i a d] by auto
    then have "(m(d + of_nat i := m (s + of_nat i))) a = m a" by simp
    with True "1.prems" "1.IH" show ?thesis
      by (simp add: memcpy_loop.simps [of d s Len i m] del: fun_upd_apply)
        (metis less_SucI Suc_leI)
  qed (simp add: memcpy_loop.simps [of d s Len i m])
qed

text \<open>For blocks that do not overlap, \<^verbatim>\<open>memcpy\<close> copies.\<close>

definition disjoint_blocks :: "addr \<Rightarrow> addr \<Rightarrow> nat \<Rightarrow> bool" where
  "disjoint_blocks p q n \<longleftrightarrow> (\<forall>i < n. \<forall>j < n. p + of_nat i \<noteq> q + of_nat j)"

lemma memcpy_loop_closed:
  assumes "disjoint_blocks Destination Source Len" and "Len \<le> 2 ^ 64"
  shows "k < Len \<Longrightarrow> i \<le> k \<Longrightarrow>
    memcpy_loop Destination Source Len i m (Destination + of_nat k) = m (Source + of_nat k)"
  using assms
proof (induction Destination Source Len i m rule: memcpy_loop.induct)
  case (1 d s Len i m)
  then have "i < Len" by simp
  show ?case
  proof (cases "i = k")
    case True
    with \<open>i < Len\<close> "1.prems" have "unat ((d + of_nat k) - d) < Suc i"
      using unat_of_nat_addr [of k] by simp
    then have "memcpy_loop d s Len (Suc i) m' (d + of_nat k) = m' (d + of_nat k)" for m'
      using \<open>i < Len\<close> "1.prems" by (intro memcpy_loop_below) auto
    with \<open>i < Len\<close> True show ?thesis
      by (subst memcpy_loop.simps) simp
  next
    case False
    have "s + of_nat k \<noteq> d + of_nat i"
      using "1.prems" \<open>i < Len\<close> by (metis disjoint_blocks_def)
    moreover have "memcpy_loop d s Len (Suc i) (m(d + of_nat i := m (s + of_nat i))) (d + of_nat k)
        = (m(d + of_nat i := m (s + of_nat i))) (s + of_nat k)"
      using "1.IH" "1.prems" \<open>i < Len\<close> False by (simp del: fun_upd_apply)
    ultimately show ?thesis
      using \<open>i < Len\<close> by (simp add: memcpy_loop.simps [of d s Len i m])
  qed
qed

lemma memcpy_eq:
  assumes "Destination \<noteq> NULL" "Source \<noteq> NULL" "disjoint_blocks Destination Source Len" "Len \<le> 2 ^ 64"
  shows "\<exists>m'. memcpy Destination Source Len m = Inr m' \<and>
           load_bytes m' Destination Len = load_bytes m Source Len \<and>
           (\<forall>a. Len \<le> unat (a - Destination) \<longrightarrow> m' a = m a)"
  using assms memcpy_loop_below [of 0 Len _ Destination Source m]
  by (auto simp: memcpy_def load_bytes_def memcpy_loop_closed)

end
