(* ===== verification/PageAlloc.thy ===== *)
theory PageAlloc
  imports KString
begin

text \<open>
  The physical page allocator \<^verbatim>\<open>src/kernel/vmem/bitmap.c\<close> and the block allocator
  \<^verbatim>\<open>src/kernel/vmem/alloc.c\<close> on top of it. The state is the bitmap, the byte memory and
  the linker symbol \<^verbatim>\<open>MemoryStart\<close>, at which page 0 lies. Bitmap bytes outside the
  array are never read by the scans; a \<^verbatim>\<open>FreePage\<close> outside is a \<open>Fault\<close>.
\<close>

section \<open>State\<close>

record pgalloc =
  MemoryStart :: addr
  PageBitmap :: "nat \<Rightarrow> u8"
  mem :: memory

definition TOTAL_BITMAP :: nat where
  "TOTAL_BITMAP = 1024 * 1024"

definition PAGE_SIZE :: nat where
  "PAGE_SIZE = 4096"

section \<open>The bitmap\<close>

definition page_used :: "'a pgalloc_scheme \<Rightarrow> nat \<Rightarrow> bool" where
  "page_used s i \<longleftrightarrow> PageBitmap s (i div 8) AND push_bit (i mod 8) 1 \<noteq> 0"

definition set_page :: "nat \<Rightarrow> 'a pgalloc_scheme \<Rightarrow> 'a pgalloc_scheme" where
  "set_page i s = s\<lparr>PageBitmap :=
     (PageBitmap s)(i div 8 := PageBitmap s (i div 8) OR push_bit (i mod 8) 1)\<rparr>"

definition clear_page :: "nat \<Rightarrow> 'a pgalloc_scheme \<Rightarrow> 'a pgalloc_scheme" where
  "clear_page i s = s\<lparr>PageBitmap :=
     (PageBitmap s)(i div 8 := PageBitmap s (i div 8) AND NOT (push_bit (i mod 8) 1))\<rparr>"

function MStat_loop :: "'a pgalloc_scheme \<Rightarrow> nat \<Rightarrow> nat \<Rightarrow> nat" where
  "MStat_loop s i Free =
     (if i < TOTAL_BITMAP then MStat_loop s (Suc i) (if \<not> page_used s i then Free + 1 else Free)
      else Free)"
  by pat_completeness auto
termination by (relation "measure (\<lambda>(s, i, Free). TOTAL_BITMAP - i)") auto

definition MStat :: "'a pgalloc_scheme \<Rightarrow> nat" where
  "MStat s = MStat_loop s 0 0"

function GetFreePage_loop :: "'a pgalloc_scheme \<Rightarrow> nat \<Rightarrow> int \<times> 'a pgalloc_scheme" where
  "GetFreePage_loop s i =
     (if i < TOTAL_BITMAP then
        if \<not> page_used s i then (int i, set_page i s) else GetFreePage_loop s (Suc i)
      else (-1, s))"
  by pat_completeness auto
termination by (relation "measure (\<lambda>(s, i). TOTAL_BITMAP - i)") auto

declare MStat_loop.simps [simp del] GetFreePage_loop.simps [simp del]

definition GetFreePage :: "'a pgalloc_scheme \<Rightarrow> int \<times> 'a pgalloc_scheme" where
  "GetFreePage s = GetFreePage_loop s 0"

text \<open>
  \<^verbatim>\<open>PageIdx = (Addr - &MemoryStart) / PAGE_SIZE\<close> in \<^verbatim>\<open>uintptr_t\<close> arithmetic; the
  bitmap has \<^verbatim>\<open>TOTAL_BITMAP / 8\<close> bytes.
\<close>

definition FreePage :: "addr \<Rightarrow> 'a pgalloc_scheme \<Rightarrow> 'a pgalloc_scheme result" where
  "FreePage Page s =
     (let PageIdx = unat ((Page - MemoryStart s) div of_nat PAGE_SIZE)
      in if PageIdx < TOTAL_BITMAP then Inr (clear_page PageIdx s) else Inl Fault)"

text \<open>
  \<^verbatim>\<open>PageIdx * PAGE_SIZE\<close> is an \<^verbatim>\<open>int\<close> multiplication, sign-extended to
  \<^verbatim>\<open>uintptr_t\<close>: for the upper half of the page indices it wraps.
\<close>

definition page_offset :: "int \<Rightarrow> addr" where
  "page_offset PageIdx = scast (word_of_int (PageIdx * int PAGE_SIZE) :: u32)"

definition AllocatePage :: "'a pgalloc_scheme \<Rightarrow> (addr \<times> 'a pgalloc_scheme) result" where
  "AllocatePage s =
     (case GetFreePage s of (PageIdx, s1) \<Rightarrow>
        if PageIdx = -1 then Inl (Panic PANIC_RAN_OUT_OF_MEMORY)
        else let Page = MemoryStart s1 + page_offset PageIdx
             in rbind (memset Page 0 (int PAGE_SIZE) (mem s1)) (\<lambda>m. Inr (Page, s1\<lparr>mem := m\<rparr>)))"

section \<open>Blocks\<close>

text \<open>\<^verbatim>\<open>struct BlockHeader\<close> is two 8-byte words, \<^verbatim>\<open>Size\<close> and \<^verbatim>\<open>Next\<close>.\<close>

definition sizeof_BlockHeader :: u64 where
  "sizeof_BlockHeader = 16"

definition pages_for :: "u64 \<Rightarrow> nat" where
  "pages_for TotalSize = unat ((TotalSize + of_nat PAGE_SIZE - 1) div of_nat PAGE_SIZE)"

function free_pages :: "addr \<Rightarrow> nat \<Rightarrow> nat \<Rightarrow> 'a pgalloc_scheme \<Rightarrow> 'a pgalloc_scheme result" where
  "free_pages Start n i s =
     (if i < n then
        rbind (FreePage (Start + of_nat i * of_nat PAGE_SIZE) s) (\<lambda>s1. free_pages Start n (Suc i) s1)
      else Inr s)"
  by pat_completeness auto
termination by (relation "measure (\<lambda>(Start, n, i, s). n - i)") auto

function kalloc_rest :: "addr \<Rightarrow> nat \<Rightarrow> nat \<Rightarrow> 'a pgalloc_scheme \<Rightarrow> 'a pgalloc_scheme result" where
  "kalloc_rest Base PagesNeeded i s =
     (if i < PagesNeeded then
        rbind (AllocatePage s) (\<lambda>(NextPage, s1).
          if NextPage = NULL then
            rbind (free_pages Base i 0 s1) (\<lambda>_. Inl (Panic PANIC_RAN_OUT_OF_MEMORY))
          else kalloc_rest Base PagesNeeded (Suc i) s1)
      else Inr s)"
  by pat_completeness auto
termination by (relation "measure (\<lambda>(Base, n, i, s). n - i)") auto

declare free_pages.simps [simp del] kalloc_rest.simps [simp del]

definition kalloc :: "u64 \<Rightarrow> 'a pgalloc_scheme \<Rightarrow> (addr \<times> 'a pgalloc_scheme) result" where
  "kalloc Size s =
     (if Size = 0 then Inr (NULL, s)
      else
        let TotalSize = Size + sizeof_BlockHeader;
            PagesNeeded = pages_for TotalSize
        in rbind (AllocatePage s) (\<lambda>(Base, s1).
             if Base = NULL then Inl (Panic PANIC_RAN_OUT_OF_MEMORY)
             else
               let s2 = s1\<lparr>mem := store64 (store64 (mem s1) Base TotalSize) (Base + 8) NULL\<rparr>
               in rbind (kalloc_rest Base PagesNeeded 1 s2) (\<lambda>s3.
                    Inr (Base + sizeof_BlockHeader, s3))))"

definition kfree :: "addr \<Rightarrow> 'a pgalloc_scheme \<Rightarrow> 'a pgalloc_scheme result" where
  "kfree Base s =
     rbind (PanicIfNull Base) (\<lambda>_.
       let StartPage = Base - sizeof_BlockHeader;
           TotalSize = load64 (mem s) StartPage;
           PagesUsed = pages_for TotalSize
       in free_pages StartPage PagesUsed 0 s)"

section \<open>The bitmap as a set of pages\<close>

lemma page_used_bit: "page_used s i \<longleftrightarrow> bit (PageBitmap s (i div 8)) (i mod 8)"
  by (simp add: page_used_def bit_iff_and_push_bit_not_eq_0)

lemma same_page: "i div 8 = j div 8 \<Longrightarrow> i mod 8 = j mod 8 \<Longrightarrow> i = (j :: nat)"
  by (metis div_mult_mod_eq)

lemma bit_page_mask [simp]: "bit (2 ^ (i mod 8) :: u8) k \<longleftrightarrow> k = i mod 8"
  by (auto simp: bit_exp_iff)

lemma page_used_set_page [simp]: "page_used (set_page i s) j \<longleftrightarrow> j = i \<or> page_used s j"
  using same_page [of j i] by (auto simp: page_used_bit set_page_def bit_or_iff)

lemma page_used_clear_page [simp]: "page_used (clear_page i s) j \<longleftrightarrow> j \<noteq> i \<and> page_used s j"
  using same_page [of j i]
  by (auto simp: page_used_bit clear_page_def bit_and_iff bit_not_iff bit_imp_le_length)

lemma set_page_frame [simp, frame_simps]:
  "MemoryStart (set_page i s) = MemoryStart s" "mem (set_page i s) = mem s"
  "pgalloc.more (set_page i s) = pgalloc.more s"
  by (simp_all add: set_page_def)

lemma clear_page_frame [simp, frame_simps]:
  "MemoryStart (clear_page i s) = MemoryStart s" "mem (clear_page i s) = mem s"
  "pgalloc.more (clear_page i s) = pgalloc.more s"
  by (simp_all add: clear_page_def)

lemma page_used_mem_update [simp]: "page_used (s\<lparr>mem := m\<rparr>) i \<longleftrightarrow> page_used s i"
  by (simp add: page_used_def)

lemma clear_set_page [simp]:
  assumes "\<not> page_used s i" shows "clear_page i (set_page i s) = s"
proof -
  let ?w = "PageBitmap s (i div 8)" and ?m = "push_bit (i mod 8) 1 :: u8"
  have "\<not> bit ?w (i mod 8)"
    using assms by (simp add: page_used_bit)
  then have "(?w OR ?m) AND NOT ?m = ?w"
    by (intro bit_word_eqI) (auto simp: bit_or_iff bit_and_iff bit_not_iff)
  then show ?thesis
    by (simp add: clear_page_def set_page_def)
qed

text \<open>The first free page.\<close>

definition first_free :: "'a pgalloc_scheme \<Rightarrow> nat \<Rightarrow> bool" where
  "first_free s i \<longleftrightarrow> i < TOTAL_BITMAP \<and> \<not> page_used s i \<and> (\<forall>j < i. page_used s j)"

lemma GetFreePage_loop_free:
  "first_free s k \<Longrightarrow> i \<le> k \<Longrightarrow> GetFreePage_loop s i = (int k, set_page k s)"
proof (induction s i rule: GetFreePage_loop.induct)
  case (1 s i)
  then show ?case
    by (subst GetFreePage_loop.simps) (cases "i = k"; simp add: first_free_def)
qed

lemma GetFreePage_loop_full:
  "(\<And>k. i \<le> k \<Longrightarrow> k < TOTAL_BITMAP \<Longrightarrow> page_used s k) \<Longrightarrow> GetFreePage_loop s i = (-1, s)"
proof (induction s i rule: GetFreePage_loop.induct)
  case (1 s i)
  then show ?case by (subst GetFreePage_loop.simps) auto
qed

lemma GetFreePage_free: "first_free s k \<Longrightarrow> GetFreePage s = (int k, set_page k s)"
  by (simp add: GetFreePage_def GetFreePage_loop_free)

lemma GetFreePage_full:
  "(\<And>k. k < TOTAL_BITMAP \<Longrightarrow> page_used s k) \<Longrightarrow> GetFreePage s = (-1, s)"
  by (simp add: GetFreePage_def GetFreePage_loop_full)

lemma first_free_exists: "k < TOTAL_BITMAP \<Longrightarrow> \<not> page_used s k \<Longrightarrow> \<exists>i \<le> k. first_free s i"
proof (induction k rule: less_induct)
  case (less k)
  show ?case
  proof (cases "\<exists>j < k. \<not> page_used s j")
    case True
    then obtain j where "j < k" "\<not> page_used s j" by blast
    with less.IH [of j] less.prems show ?thesis by (meson le_trans less_imp_le less_trans)
  next
    case False
    with less.prems show ?thesis by (auto simp: first_free_def)
  qed
qed

lemma GetFreePage_cases:
  obtains (free) k where "first_free s k" "GetFreePage s = (int k, set_page k s)"
    | (full) "\<And>k. k < TOTAL_BITMAP \<Longrightarrow> page_used s k" "GetFreePage s = (-1, s)"
  using GetFreePage_free GetFreePage_full first_free_exists by metis

definition free_set :: "'a pgalloc_scheme \<Rightarrow> nat set" where
  "free_set s = {i. i < TOTAL_BITMAP \<and> \<not> page_used s i}"

lemma finite_free_set [simp]: "finite (free_set s)"
  by (simp add: free_set_def)

lemma MStat_loop_card:
  "MStat_loop s i n = n + card {k. i \<le> k \<and> k < TOTAL_BITMAP \<and> \<not> page_used s k}"
proof (induction s i n rule: MStat_loop.induct)
  case (1 s i n)
  show ?case
  proof (cases "i < TOTAL_BITMAP")
    case True
    let ?S = "\<lambda>i. {k. i \<le> k \<and> k < TOTAL_BITMAP \<and> \<not> page_used s k}"
    have "?S i = (if page_used s i then ?S (Suc i) else insert i (?S (Suc i)))"
      using True by (auto simp: Suc_le_eq le_less)
    moreover have "finite (?S (Suc i))" and "i \<notin> ?S (Suc i)" by auto
    ultimately show ?thesis
      using True "1" by (simp add: MStat_loop.simps [of s i n])
  next
    case False
    then show ?thesis by (simp add: MStat_loop.simps [of s i n])
  qed
qed

lemma MStat_card: "MStat s = card (free_set s)"
  by (simp add: MStat_def MStat_loop_card free_set_def)

section \<open>Page addresses\<close>

text \<open>
  The first \<open>2\<^sup>1\<^sup>9\<close> pages are those whose byte offset is a nonnegative \<^verbatim>\<open>int\<close>.
  The layout hypothesis places these two gigabytes inside the address space.
\<close>

definition LOW_PAGES :: nat where
  "LOW_PAGES = 2 ^ 19"

definition layout_ok :: "'a pgalloc_scheme \<Rightarrow> bool" where
  "layout_ok s \<longleftrightarrow> MemoryStart s \<noteq> NULL \<and> unat (MemoryStart s) + 2 ^ 31 < 2 ^ 64"

definition page_addr :: "'a pgalloc_scheme \<Rightarrow> nat \<Rightarrow> addr" where
  "page_addr s i = MemoryStart s + of_nat (4096 * i)"

definition in_page :: "'a pgalloc_scheme \<Rightarrow> nat \<Rightarrow> addr \<Rightarrow> bool" where
  "in_page s i a \<longleftrightarrow> unat (a - page_addr s i) < PAGE_SIZE"

lemma page_offset_eq:
  "page_offset k = word_of_int (signed_take_bit 31 (k * 4096))"
proof -
  have "sint (word_of_int j :: u32) = signed_take_bit 31 j" for j
    by (simp add: sint_uint unsigned_of_int signed_take_bit_take_bit)
  then show ?thesis
    by (simp only: page_offset_def PAGE_SIZE_def scast_eq of_nat_numeral)
qed

lemma unat_addr_add:
  fixes a :: addr
  assumes "unat a + n < 2 ^ 64"
  shows "unat (a + of_nat n) = unat a + n"
proof -
  have "unat (of_nat n :: addr) = n" using assms by (intro unat_of_nat_addr) simp
  then have "unat (a + of_nat n) = (unat a + n) mod 2 ^ 64"
    by (simp only: unat_word_ariths) simp
  with assms show ?thesis by simp
qed

lemma page_offset_low: "i < LOW_PAGES \<Longrightarrow> page_offset (int i) = of_nat (4096 * i)"
proof -
  assume "i < LOW_PAGES"
  then have "signed_take_bit 31 (int i * 4096) = int (4096 * i)"
    by (subst signed_take_bit_int_eq_self) (simp_all add: LOW_PAGES_def)
  then show ?thesis by (simp add: page_offset_eq)
qed

lemma page_offset_high:
  "LOW_PAGES \<le> i \<Longrightarrow> i < TOTAL_BITMAP \<Longrightarrow> page_offset (int i) = word_of_int (4096 * int i - 2 ^ 32)"
proof -
  assume "LOW_PAGES \<le> i" "i < TOTAL_BITMAP"
  then have "signed_take_bit 31 (int i * 4096) = 4096 * int i - 2 ^ 32"
    by (subst signed_take_bit_int_eq_self [symmetric, of 31 "4096 * int i - 2 ^ 32"])
      (auto simp: LOW_PAGES_def TOTAL_BITMAP_def signed_take_bit_eq_iff_take_bit_eq take_bit_eq_mod)
  then show ?thesis by (simp add: page_offset_eq)
qed

lemma unat_page_addr:
  "layout_ok s \<Longrightarrow> i \<le> LOW_PAGES \<Longrightarrow> unat (page_addr s i) = unat (MemoryStart s) + 4096 * i"
  unfolding page_addr_def by (rule unat_addr_add) (simp add: layout_ok_def LOW_PAGES_def)

lemma page_addr_frame [simp]:
  "page_addr (set_page j s) i = page_addr s i" "page_addr (clear_page j s) i = page_addr s i"
  "page_addr (s\<lparr>mem := m\<rparr>) i = page_addr s i"
  by (simp_all add: page_addr_def)

lemma layout_ok_frame [simp]:
  "layout_ok (set_page j s) = layout_ok s" "layout_ok (clear_page j s) = layout_ok s"
  "layout_ok (s\<lparr>mem := m\<rparr>) = layout_ok s"
  by (simp_all add: layout_ok_def)

lemma page_addr_not_null [simp]: "layout_ok s \<Longrightarrow> i \<le> LOW_PAGES \<Longrightarrow> page_addr s i \<noteq> NULL"
  using unat_page_addr [of s i] by (auto simp: layout_ok_def unat_eq_0)

lemma page_addr_inj:
  "layout_ok s \<Longrightarrow> i \<le> LOW_PAGES \<Longrightarrow> j \<le> LOW_PAGES \<Longrightarrow> page_addr s i = page_addr s j \<longleftrightarrow> i = j"
  by (metis add_left_cancel mult_left_cancel unat_page_addr zero_neq_numeral)

lemma page_addr_add: "page_addr s i + of_nat k * of_nat PAGE_SIZE = page_addr s (i + k)"
  by (simp add: page_addr_def PAGE_SIZE_def algebra_simps)

text \<open>An offset inside a page, read as an unsigned number.\<close>

lemma unat_in_page:
  assumes "layout_ok s" "i < LOW_PAGES" "k < PAGE_SIZE"
  shows "unat (page_addr s i + of_nat k) = unat (MemoryStart s) + 4096 * i + k"
proof -
  have "4096 * i + k < 2 ^ 31" using assms by (simp add: LOW_PAGES_def PAGE_SIZE_def)
  moreover have "unat (page_addr s i) = unat (MemoryStart s) + 4096 * i"
    using assms by (intro unat_page_addr) simp_all
  ultimately show ?thesis
    using assms(1) by (subst unat_addr_add) (simp_all add: layout_ok_def)
qed

lemma in_page_other:
  assumes "layout_ok s" "i < LOW_PAGES" "j < LOW_PAGES" "i \<noteq> j" "k < PAGE_SIZE"
  shows "\<not> in_page s j (page_addr s i + of_nat k)"
proof
  define n where "n = unat (page_addr s i + of_nat k - page_addr s j)"
  assume "in_page s j (page_addr s i + of_nat k)"
  then have n: "n < PAGE_SIZE" by (simp add: in_page_def n_def)
  moreover from n have "page_addr s i + of_nat k = page_addr s j + of_nat n"
    using unat_offset_eq [of n "page_addr s i + of_nat k" "page_addr s j"]
    by (simp add: n_def PAGE_SIZE_def)
  ultimately have "4096 * i + k = 4096 * j + n"
    using unat_in_page [OF assms(1,2,5)] unat_in_page [OF assms(1,3) n] by simp
  then have "(4096 * i + k) div 4096 = (4096 * j + n) div 4096" by simp
  with n assms(4,5) show False by (simp add: PAGE_SIZE_def)
qed

section \<open>Allocating and freeing one page\<close>

definition zero_page :: "'a pgalloc_scheme \<Rightarrow> nat \<Rightarrow> memory" where
  "zero_page s i = (\<lambda>a. if in_page s i a then 0 else mem s a)"

lemma AllocatePage_low:
  assumes "layout_ok s" "first_free s i" "i < LOW_PAGES"
  shows "AllocatePage s = Inr (page_addr s i, (set_page i s)\<lparr>mem := zero_page s i\<rparr>)"
proof -
  have "MemoryStart s + page_offset (int i) = page_addr s i"
    using assms(3) by (simp add: page_offset_low page_addr_def)
  moreover have "page_addr s i \<noteq> NULL" using assms by simp
  moreover have "memset (page_addr s i) 0 (int PAGE_SIZE) (mem s) = Inr (zero_page s i)"
    using \<open>page_addr s i \<noteq> NULL\<close>
    by (subst memset_eq) (auto simp: zero_page_def in_page_def PAGE_SIZE_def)
  ultimately show ?thesis
    using assms(2) by (simp add: AllocatePage_def GetFreePage_free)
qed

lemma AllocatePage_full:
  "(\<And>k. k < TOTAL_BITMAP \<Longrightarrow> page_used s k) \<Longrightarrow>
     AllocatePage s = Inl (Panic PANIC_RAN_OUT_OF_MEMORY)"
  by (simp add: AllocatePage_def GetFreePage_full)

lemma AllocatePage_Inr:
  assumes "AllocatePage s = Inr (p, s')"
  obtains i where "first_free s i" "p = MemoryStart s + page_offset (int i)" "p \<noteq> NULL"
    "s' = (set_page i s)\<lparr>mem := \<lambda>a. if unat (a - p) < PAGE_SIZE then 0 else mem s a\<rparr>"
proof (cases s rule: GetFreePage_cases)
  case (free k)
  let ?p = "MemoryStart s + page_offset (int k)"
  from free assms obtain m where m: "memset ?p 0 (int PAGE_SIZE) (mem s) = Inr m"
    and p: "p = ?p" and s': "s' = (set_page k s)\<lparr>mem := m\<rparr>"
    by (auto simp: AllocatePage_def Let_def rbind_Inr_iff)
  then have "?p \<noteq> NULL" by (auto simp: memset_def)
  then have "m = (\<lambda>a. if unat (a - ?p) < PAGE_SIZE then 0 else mem s a)"
    using m memset_eq [of ?p PAGE_SIZE 0 "mem s"] by (simp add: PAGE_SIZE_def cong: if_cong)
  with free(1) p s' \<open>?p \<noteq> NULL\<close> show ?thesis by (intro that [of k]) auto
next
  case full
  with assms show ?thesis by (simp add: AllocatePage_def)
qed

lemma FreePage_low:
  assumes "layout_ok s" "i < LOW_PAGES"
  shows "FreePage (page_addr s i) s = Inr (clear_page i s)"
proof -
  have "unat ((page_addr s i - MemoryStart s) div of_nat PAGE_SIZE) = i"
  proof -
    have "unat (of_nat (4096 * i) :: addr) = 4096 * i"
      using assms(2) by (intro unat_of_nat_addr) (simp add: LOW_PAGES_def)
    then show ?thesis by (simp add: page_addr_def unat_div PAGE_SIZE_def del: of_nat_mult)
  qed
  with assms show ?thesis
    by (simp add: FreePage_def LOW_PAGES_def TOTAL_BITMAP_def)
qed

section \<open>Blocks of consecutive pages\<close>

lemma PageBitmap_eqI:
  assumes "\<And>i. page_used s i \<longleftrightarrow> page_used t i"
  shows "PageBitmap s = PageBitmap t"
proof
  fix b
  show "PageBitmap s b = PageBitmap t b"
  proof (rule bit_word_eqI)
    fix n assume "n < LENGTH(8)"
    with assms [of "8 * b + n"] show "bit (PageBitmap s b) n \<longleftrightarrow> bit (PageBitmap t b) n"
      by (simp add: page_used_bit)
  qed
qed

lemma pages_for_nat: "unat T + 4095 < 2 ^ 64 \<Longrightarrow> pages_for T = (unat T + 4095) div 4096"
  using unat_addr_add [of T 4095] by (simp add: pages_for_def PAGE_SIZE_def unat_div add_diff_eq [symmetric])

lemma pages_for_single: "0 < unat T \<Longrightarrow> unat T \<le> PAGE_SIZE \<Longrightarrow> pages_for T = 1"
  by (subst pages_for_nat) (auto simp: PAGE_SIZE_def)

lemma in_page_frame [simp]:
  "in_page (set_page j s) i a = in_page s i a" "in_page (clear_page j s) i a = in_page s i a"
  "in_page (s\<lparr>mem := m\<rparr>) i a = in_page s i a"
  by (simp_all add: in_page_def)

text \<open>
  \<open>extends s s' P Q\<close>: \<open>s'\<close> has the pages of \<open>P\<close> in addition to those of \<open>s\<close>, the
  memory outside the pages of \<open>P\<close> is that of \<open>s\<close>, and nothing else changed.
\<close>

definition extends :: "'a pgalloc_scheme \<Rightarrow> 'a pgalloc_scheme \<Rightarrow> nat set \<Rightarrow> bool" where
  "extends s s' P \<longleftrightarrow>
     MemoryStart s' = MemoryStart s \<and> pgalloc.more s' = pgalloc.more s \<and>
     (\<forall>k. page_used s' k \<longleftrightarrow> page_used s k \<or> k \<in> P) \<and>
     (\<forall>a. (\<forall>k \<in> P. \<not> in_page s k a) \<longrightarrow> mem s' a = mem s a)"

lemma extends_refl [simp]: "extends s s {}"
  by (simp add: extends_def)

lemma extends_page_addr: "extends s s' P \<Longrightarrow> page_addr s' i = page_addr s i"
  by (simp add: extends_def page_addr_def)

lemma extends_layout_ok: "extends s s' P \<Longrightarrow> layout_ok s' = layout_ok s"
  by (simp add: extends_def layout_ok_def)

lemma extends_in_page: "extends s s' P \<Longrightarrow> in_page s' i a = in_page s i a"
  by (simp add: in_page_def extends_page_addr)

lemma extends_trans:
  assumes "extends s t P" "extends t u Q"
  shows "extends s u (P \<union> Q)"
  using assms extends_in_page [OF assms(1)] unfolding extends_def by auto

lemma extends_AllocatePage:
  "extends s ((set_page i s)\<lparr>mem := zero_page s i\<rparr>) {i}"
  by (auto simp: extends_def zero_page_def)

definition consecutive :: "'a pgalloc_scheme \<Rightarrow> nat \<Rightarrow> nat \<Rightarrow> bool" where
  "consecutive s b n \<longleftrightarrow>
     b + n \<le> LOW_PAGES \<and> (\<forall>k < b. page_used s k) \<and> (\<forall>k. b \<le> k \<and> k < b + n \<longrightarrow> \<not> page_used s k)"

lemma consecutive_first_free: "consecutive s b n \<Longrightarrow> 0 < n \<Longrightarrow> first_free s b"
  by (simp add: consecutive_def first_free_def LOW_PAGES_def TOTAL_BITMAP_def)

lemma kalloc_rest_consecutive:
  "layout_ok s \<Longrightarrow> i \<le> n \<Longrightarrow> consecutive s (b + i) (n - i) \<Longrightarrow>
     \<exists>s'. kalloc_rest Base n i s = Inr s' \<and> extends s s' {b + i..<b + n}"
proof (induction Base n i s rule: kalloc_rest.induct)
  case (1 Base n i s)
  show ?case
  proof (cases "i < n")
    case True
    let ?s = "(set_page (b + i) s)\<lparr>mem := zero_page s (b + i)\<rparr>"
    have low: "b + i < LOW_PAGES" using True "1.prems"(3) by (simp add: consecutive_def)
    have alloc: "AllocatePage s = Inr (page_addr s (b + i), ?s)"
      using "1.prems" True low by (intro AllocatePage_low consecutive_first_free) auto
    have "consecutive ?s (b + Suc i) (n - Suc i)"
      using "1.prems"(3) True by (auto simp: consecutive_def less_Suc_eq)
    moreover have "page_addr s (b + i) \<noteq> NULL" using "1.prems"(1) low by simp
    ultimately obtain s' where "kalloc_rest Base n (Suc i) ?s = Inr s'" "extends ?s s' {b + Suc i..<b + n}"
      using "1.IH" [OF True, where xa = ?s] "1.prems" True by auto
    moreover from this have "extends s s' ({b + i} \<union> {b + Suc i..<b + n})"
      by (intro extends_trans [OF extends_AllocatePage])
    moreover have "{b + i} \<union> {b + Suc i..<b + n} = {b + i..<b + n}"
      using True by auto
    ultimately show ?thesis
      using True alloc low "1.prems"(1) by (simp add: kalloc_rest.simps [of Base n i s])
  qed (use "1.prems"(2) in \<open>subst kalloc_rest.simps, simp\<close>)
qed

text \<open>
  \<open>kalloc\<close> on a consecutive run of free pages takes exactly that run, records the size
  in front of the block, and clears the payload.
\<close>

lemma page_zero_after_header:
  assumes "layout_ok s" "b < LOW_PAGES"
  shows "load64 (store64 (store64 m (page_addr s b) T) (page_addr s b + 8) v) (page_addr s b) = T"
proof -
  have "load64 (store64 (store64 m (page_addr s b) T) (page_addr s b + 8) v) (page_addr s b)
      = load64 (store64 m (page_addr s b) T) (page_addr s b)"
  proof (rule load64_cong, rule store64_other)
    fix i :: nat assume "i < 8"
    show "8 \<le> unat (page_addr s b + of_nat i - (page_addr s b + 8))"
    proof (rule ccontr)
      define k where "k = unat (page_addr s b + of_nat i - (page_addr s b + 8))"
      assume "\<not> 8 \<le> unat (page_addr s b + of_nat i - (page_addr s b + 8))"
      then have "k < 8" by (simp add: k_def)
      with k_def have "page_addr s b + of_nat i = page_addr s b + 8 + of_nat k"
        using unat_offset_eq [of k "page_addr s b + of_nat i" "page_addr s b + 8"] by simp
      then have "(of_nat i :: addr) = of_nat (8 + k)" by simp
      then have "unat (of_nat i :: addr) = unat (of_nat (8 + k) :: addr)" by simp
      with \<open>i < 8\<close> \<open>k < 8\<close> show False by (simp add: unat_of_nat_addr del: of_nat_add)
    qed
  qed
  then show ?thesis by simp
qed

lemma header_in_page:
  assumes "\<not> in_page s b a" "layout_ok s" "b < LOW_PAGES"
  shows "store64 (store64 m (page_addr s b) T) (page_addr s b + 8) v a = m a"
proof -
  have far: "PAGE_SIZE \<le> unat (a - page_addr s b)" using assms(1) by (simp add: in_page_def)
  have "unat (a - page_addr s b - 8) = unat (a - page_addr s b) - 8"
    by (subst unat_sub) (use far in \<open>simp_all add: PAGE_SIZE_def word_le_nat_alt\<close>)
  with far show ?thesis
    by (subst store64_other, simp_all add: PAGE_SIZE_def diff_diff_eq [symmetric])
      (subst store64_other, simp_all add: PAGE_SIZE_def)
qed

lemma kalloc_consecutive:
  assumes "layout_ok s" "Size \<noteq> 0" "unat Size + 4111 < 2 ^ 64"
    and "consecutive s b n" "n = pages_for (Size + 16)"
  shows "\<exists>s'. kalloc Size s = Inr (page_addr s b + 16, s') \<and> extends s s' {b..<b + n} \<and>
              load64 (mem s') (page_addr s b) = Size + 16"
proof -
  have T: "unat (Size + 16) = unat Size + 16"
    using unat_addr_add [of Size 16] assms(3) by simp
  then have n: "n = (unat Size + 4111) div 4096"
    using assms(3,5) pages_for_nat [of "Size + 16"] by simp
  moreover have "0 < unat Size" using assms(2) by (simp add: unat_gt_0)
  ultimately have "0 < n" by (simp add: div_greater_zero_iff)
  with assms(4) have b: "b < LOW_PAGES" by (simp add: consecutive_def)
  let ?p = "page_addr s b"
  let ?s1 = "(set_page b s)\<lparr>mem := zero_page s b\<rparr>"
  let ?s2 = "?s1\<lparr>mem := store64 (store64 (zero_page s b) ?p (Size + 16)) (?p + 8) NULL\<rparr>"
  have alloc: "AllocatePage s = Inr (?p, ?s1)"
    using assms(1,4) \<open>0 < n\<close> b by (intro AllocatePage_low consecutive_first_free) auto
  have "consecutive ?s2 (b + 1) (n - 1)"
    using assms(4) \<open>0 < n\<close> by (auto simp: consecutive_def less_Suc_eq)
  then obtain s' where rest: "kalloc_rest ?p n 1 ?s2 = Inr s'" and ext: "extends ?s2 s' {b + 1..<b + n}"
    using kalloc_rest_consecutive [of ?s2 1 n b ?p] assms(1) \<open>0 < n\<close> by auto
  have "extends s ?s2 {b}"
    using header_in_page [OF _ assms(1) b] by (auto simp: extends_def zero_page_def)
  then have "extends s s' ({b} \<union> {b + 1..<b + n})"
    using ext by (rule extends_trans)
  moreover have "{b} \<union> {b + 1..<b + n} = {b..<b + n}" using \<open>0 < n\<close> by auto
  moreover have "load64 (mem s') ?p = load64 (mem ?s2) ?p"
  proof (rule load64_cong)
    fix i :: nat assume "i < 8"
    then have "\<not> in_page s k (?p + of_nat i)" if "k \<in> {b + 1..<b + n}" for k
      using that assms(1,4) b by (intro in_page_other) (auto simp: consecutive_def PAGE_SIZE_def)
    with ext show "mem s' (?p + of_nat i) = mem ?s2 (?p + of_nat i)"
      by (simp add: extends_def)
  qed
  moreover have "load64 (mem ?s2) ?p = Size + 16"
    using page_zero_after_header [OF assms(1) b] by simp
  moreover have "kalloc Size s = Inr (?p + 16, s')"
    using assms(1,2,5) b rest alloc by (simp add: kalloc_def Let_def sizeof_BlockHeader_def)
  ultimately show ?thesis by simp
qed

lemma free_pages_block:
  "layout_ok s \<Longrightarrow> i \<le> n \<Longrightarrow> b + n \<le> LOW_PAGES \<Longrightarrow> Start = page_addr s b \<Longrightarrow>
     \<exists>s'. free_pages Start n i s = Inr s' \<and> MemoryStart s' = MemoryStart s \<and>
       pgalloc.more s' = pgalloc.more s \<and> mem s' = mem s \<and>
       (\<forall>k. page_used s' k \<longleftrightarrow> page_used s k \<and> \<not> (b + i \<le> k \<and> k < b + n))"
proof (induction Start n i s rule: free_pages.induct)
  case (1 Start n i s)
  show ?case
  proof (cases "i < n")
    case True
    have free: "FreePage (Start + of_nat i * of_nat PAGE_SIZE) s = Inr (clear_page (b + i) s)"
      using "1.prems" True by (simp add: page_addr_add FreePage_low)
    from "1.IH" [OF True, of "clear_page (b + i) s"] "1.prems" True
    obtain s' where s': "free_pages Start n (Suc i) (clear_page (b + i) s) = Inr s'"
      "MemoryStart s' = MemoryStart s" "pgalloc.more s' = pgalloc.more s" "mem s' = mem s"
      "\<forall>k. page_used s' k \<longleftrightarrow> (k \<noteq> b + i \<and> page_used s k) \<and> \<not> (b + Suc i \<le> k \<and> k < b + n)"
      by auto
    moreover have "b + i \<le> k \<and> k < b + n \<longleftrightarrow> k = b + i \<or> (b + Suc i \<le> k \<and> k < b + n)" for k
      using True by auto
    ultimately have "\<forall>k. page_used s' k \<longleftrightarrow> page_used s k \<and> \<not> (b + i \<le> k \<and> k < b + n)"
      by blast
    with s' True free show ?thesis by (simp add: free_pages.simps [of Start n i s])
  qed (use "1.prems" in \<open>subst free_pages.simps, auto\<close>)
qed

lemma kfree_block:
  assumes "layout_ok s" "b + pages_for (load64 (mem s) (page_addr s b)) \<le> LOW_PAGES" "b < LOW_PAGES"
  shows "\<exists>s'. kfree (page_addr s b + 16) s = Inr s' \<and> MemoryStart s' = MemoryStart s \<and>
       pgalloc.more s' = pgalloc.more s \<and> mem s' = mem s \<and>
       (\<forall>k. page_used s' k \<longleftrightarrow>
          page_used s k \<and> \<not> (b \<le> k \<and> k < b + pages_for (load64 (mem s) (page_addr s b))))"
proof -
  have "unat (page_addr s b + of_nat 16) = unat (MemoryStart s) + 4096 * b + 16"
    using assms by (intro unat_in_page) (simp_all add: PAGE_SIZE_def)
  then have "unat (page_addr s b + 16) \<noteq> 0" by simp
  then have "page_addr s b + 16 \<noteq> NULL" by (rule contrapos_nn) (simp only: unsigned_0)
  then show ?thesis
    using free_pages_block [OF assms(1) _ assms(2) refl, of 0]
    by (simp add: kfree_def sizeof_BlockHeader_def Let_def)
qed

section \<open>What every successful allocation keeps\<close>

lemma AllocatePage_frame:
  assumes "AllocatePage s = Inr (p, s')"
  obtains i where "first_free s i" "p \<noteq> NULL" "MemoryStart s' = MemoryStart s"
    "pgalloc.more s' = pgalloc.more s" "\<And>k. page_used s' k \<longleftrightarrow> k = i \<or> page_used s k"
    "free_set s' = free_set s - {i}"
  using assms by (rule AllocatePage_Inr) (auto simp: free_set_def intro: that)

lemma kalloc_rest_frame:
  "kalloc_rest Base n i s = Inr s' \<Longrightarrow> i \<le> n \<Longrightarrow>
     MemoryStart s' = MemoryStart s \<and> pgalloc.more s' = pgalloc.more s \<and>
     (\<forall>k. page_used s k \<longrightarrow> page_used s' k) \<and>
     card (free_set s') + (n - i) = card (free_set s)"
proof (induction Base n i s rule: kalloc_rest.induct)
  case (1 Base n i s)
  show ?case
  proof (cases "i < n")
    case True
    with "1.prems" obtain p s1 where alloc: "AllocatePage s = Inr (p, s1)" and "p \<noteq> NULL"
      and rest: "kalloc_rest Base n (Suc i) s1 = Inr s'"
      by (auto simp: kalloc_rest.simps [of Base n i s] rbind_Inr_iff split: if_splits)
    from alloc obtain k where k: "first_free s k" "MemoryStart s1 = MemoryStart s"
      "pgalloc.more s1 = pgalloc.more s" "\<And>j. page_used s1 j \<longleftrightarrow> j = k \<or> page_used s j"
      "free_set s1 = free_set s - {k}"
      by (rule AllocatePage_frame) blast
    moreover have "k \<in> free_set s" using k(1) by (simp add: free_set_def first_free_def)
    then have "card (free_set s) = Suc (card (free_set s1))"
      unfolding k(5) by (simp only: card_Suc_Diff1 [OF finite_free_set])
    moreover have "MemoryStart s' = MemoryStart s1 \<and> pgalloc.more s' = pgalloc.more s1 \<and>
        (\<forall>j. page_used s1 j \<longrightarrow> page_used s' j) \<and>
        card (free_set s') + (n - Suc i) = card (free_set s1)"
      by (rule "1.IH" [OF True, where x = p and xa = s1]) (use \<open>p \<noteq> NULL\<close> rest True in auto)
    moreover have "n - i = Suc (n - Suc i)" using True by simp
    ultimately show ?thesis by simp
  next
    case False
    with "1.prems" have "s' = s" "i = n" by (simp_all add: kalloc_rest.simps [of Base n i s])
    then show ?thesis by simp
  qed
qed

lemma kalloc_frame:
  assumes "kalloc Size s = Inr (p, s')" "Size \<noteq> 0"
  shows "MemoryStart s' = MemoryStart s \<and> pgalloc.more s' = pgalloc.more s \<and>
     (\<forall>k. page_used s k \<longrightarrow> page_used s' k) \<and>
     card (free_set s') + max 1 (pages_for (Size + 16)) = card (free_set s) \<and>
     (\<exists>i. first_free s i \<and> p = MemoryStart s + page_offset (int i) + 16)"
proof -
  from assms obtain Base s1 where alloc: "AllocatePage s = Inr (Base, s1)" and "Base \<noteq> NULL"
    and rest: "kalloc_rest Base (pages_for (Size + 16)) 1
      (s1\<lparr>mem := store64 (store64 (mem s1) Base (Size + 16)) (Base + 8) NULL\<rparr>) = Inr s'"
    and p: "p = Base + 16"
    by (auto simp: kalloc_def Let_def sizeof_BlockHeader_def rbind_Inr_iff split: if_splits)
  from alloc obtain i where i: "first_free s i" "Base = MemoryStart s + page_offset (int i)"
    "s1 = (set_page i s)\<lparr>mem := \<lambda>a. if unat (a - Base) < PAGE_SIZE then 0 else mem s a\<rparr>"
    by (rule AllocatePage_Inr) blast
  let ?s2 = "s1\<lparr>mem := store64 (store64 (mem s1) Base (Size + 16)) (Base + 8) NULL\<rparr>"
  have fs: "free_set ?s2 = free_set s - {i}" and "i \<in> free_set s"
    using i(1) by (auto simp: i(3) free_set_def first_free_def)
  then have card: "card (free_set s) = Suc (card (free_set ?s2))"
    unfolding fs by (simp only: card_Suc_Diff1 [OF finite_free_set])
  show ?thesis
  proof (cases "pages_for (Size + 16) = 0")
    case True
    with rest have "s' = ?s2" by (simp add: kalloc_rest.simps)
    with True card i p show ?thesis by auto
  next
    case False
    with kalloc_rest_frame [OF rest] card i p show ?thesis by auto
  qed
qed

lemma kalloc_more [frame_simps]:
  "kalloc Size s = Inr (p, s') \<Longrightarrow> pgalloc.more s' = pgalloc.more s"
  by (cases "Size = 0") (auto simp: kalloc_frame, simp add: kalloc_def)

lemma free_pages_frame:
  "free_pages Start n i s = Inr s' \<Longrightarrow>
     MemoryStart s' = MemoryStart s \<and> pgalloc.more s' = pgalloc.more s \<and> mem s' = mem s"
proof (induction Start n i s rule: free_pages.induct)
  case (1 Start n i s)
  show ?case
  proof (cases "i < n")
    case True
    with "1.prems" obtain s1 where f: "FreePage (Start + of_nat i * of_nat PAGE_SIZE) s = Inr s1"
      and rest: "free_pages Start n (Suc i) s1 = Inr s'"
      by (auto simp: free_pages.simps [of Start n i s] rbind_Inr_iff)
    with "1.IH" [OF True rest] show ?thesis
      by (auto simp: FreePage_def Let_def split: if_splits)
  qed (use "1.prems" in \<open>simp add: free_pages.simps [of Start n i s]\<close>)
qed

lemma kfree_frame:
  "kfree p s = Inr s' \<Longrightarrow>
     MemoryStart s' = MemoryStart s \<and> pgalloc.more s' = pgalloc.more s \<and> mem s' = mem s"
  by (auto simp: kfree_def Let_def rbind_Inr_iff dest: free_pages_frame)

section \<open>The interface to the typed heaps\<close>

text \<open>
  The clients (VNodes, tasks, descriptors) allocate blocks that fit one page together with
  their header. \<open>live\<close> is the set of payload pointers of such blocks, \<open>room s n\<close> says
  that \<open>n\<close> more can be had.
\<close>

locale block_store =
  fixes alloc :: "u64 \<Rightarrow> 's \<Rightarrow> (addr \<times> 's) result"
    and free :: "addr \<Rightarrow> 's \<Rightarrow> 's result"
    and live :: "'s \<Rightarrow> addr set"
    and good :: "'s \<Rightarrow> bool"
    and room :: "'s \<Rightarrow> nat \<Rightarrow> bool"
    and small :: "u64 \<Rightarrow> bool"
  assumes alloc_ok: "good s \<Longrightarrow> room s (Suc n) \<Longrightarrow> small Size \<Longrightarrow>
      \<exists>p s'. alloc Size s = Inr (p, s') \<and> p \<noteq> NULL \<and> p \<notin> live s \<and>
        live s' = insert p (live s) \<and> good s' \<and> room s' n"
    and free_ok: "good s \<Longrightarrow> p \<in> live s \<Longrightarrow>
      \<exists>s'. free p s = Inr s' \<and> live s' = live s - {p} \<and> good s' \<and> (room s n \<longrightarrow> room s' (Suc n))"
begin

lemma alloc_Inr:
  assumes "good s" "room s (Suc n)" "small Size" "alloc Size s = Inr (p, s')"
  shows "p \<noteq> NULL \<and> p \<notin> live s \<and> live s' = insert p (live s) \<and> good s' \<and> room s' n"
  using alloc_ok [OF assms(1-3)] assms(4) by auto

lemma free_Inr:
  assumes "good s" "p \<in> live s" "free p s = Inr s'"
  shows "live s' = live s - {p} \<and> good s'"
  using free_ok [OF assms(1,2)] assms(3) by auto

lemma alloc_twice_distinct:
  assumes "good s" "room s (Suc (Suc n))" "small a" "small b"
  shows "\<exists>p q s1 s2. alloc a s = Inr (p, s1) \<and> alloc b s1 = Inr (q, s2) \<and> p \<noteq> q \<and>
           live s2 = insert q (insert p (live s)) \<and> good s2 \<and> room s2 n"
  using alloc_ok [OF assms(1,2,3)] alloc_ok [OF _ _ assms(4)] by (metis insertI1)

lemma alloc_free_live:
  assumes "good s" "room s (Suc n)" "small Size"
  shows "\<exists>p s1 s2. alloc Size s = Inr (p, s1) \<and> free p s1 = Inr s2 \<and> live s2 = live s \<and>
           good s2 \<and> room s2 (Suc n)"
proof -
  from alloc_ok [OF assms] obtain p s1 where p: "alloc Size s = Inr (p, s1)" "p \<notin> live s"
    "live s1 = insert p (live s)" "good s1" "room s1 n" by blast
  with free_ok [of s1 p n] show ?thesis by auto
qed

end

definition small_size :: "u64 \<Rightarrow> bool" where
  "small_size Size \<longleftrightarrow> 0 < unat Size \<and> unat Size + 16 \<le> PAGE_SIZE"

definition low_room :: "'a pgalloc_scheme \<Rightarrow> nat \<Rightarrow> bool" where
  "low_room s n \<longleftrightarrow> n \<le> card {i. i < LOW_PAGES \<and> \<not> page_used s i}"

definition small_block :: "'a pgalloc_scheme \<Rightarrow> nat \<Rightarrow> bool" where
  "small_block s i \<longleftrightarrow> i < LOW_PAGES \<and> page_used s i \<and>
     0 < unat (load64 (mem s) (page_addr s i)) \<and> unat (load64 (mem s) (page_addr s i)) \<le> PAGE_SIZE"

definition live_blocks :: "'a pgalloc_scheme \<Rightarrow> addr set" where
  "live_blocks s = (\<lambda>i. page_addr s i + 16) ` {i. small_block s i}"

lemma low_room_first_free:
  assumes "low_room s (Suc n)"
  obtains i where "first_free s i" "i < LOW_PAGES"
proof -
  from assms obtain k where "k < LOW_PAGES" "\<not> page_used s k"
    unfolding low_room_def by (metis (mono_tags, lifting) Collect_empty_eq card.empty not_less_eq_eq le0)
  with first_free_exists [of k s] that show ?thesis
    by (auto simp: LOW_PAGES_def TOTAL_BITMAP_def)
qed

lemma extends_header:
  assumes "layout_ok s" "extends s s' {i}" "i < LOW_PAGES" "j < LOW_PAGES" "j \<noteq> i"
  shows "load64 (mem s') (page_addr s' j) = load64 (mem s) (page_addr s j)"
  unfolding extends_page_addr [OF assms(2)]
proof (rule load64_cong)
  fix k :: nat assume "k < 8"
  with assms have "\<not> in_page s i (page_addr s j + of_nat k)"
    by (intro in_page_other) (auto simp: PAGE_SIZE_def)
  with assms(2) show "mem s' (page_addr s j + of_nat k) = mem s (page_addr s j + of_nat k)"
    by (simp add: extends_def)
qed

lemma kalloc_small:
  assumes "layout_ok s" "low_room s (Suc n)" "small_size Size"
  shows "\<exists>i s'. kalloc Size s = Inr (page_addr s i + 16, s') \<and> first_free s i \<and> i < LOW_PAGES \<and>
           extends s s' {i} \<and> load64 (mem s') (page_addr s i) = Size + 16"
proof -
  from assms(2) obtain i where i: "first_free s i" "i < LOW_PAGES" by (rule low_room_first_free)
  then have "consecutive s i 1"
    by (auto simp: consecutive_def first_free_def less_Suc_eq_le le_antisym)
  moreover have "unat (Size + 16) = unat Size + 16"
    using assms(3) by (intro unat_addr_add [of Size 16, simplified]) (simp add: small_size_def PAGE_SIZE_def)
  then have one: "pages_for (Size + 16) = 1"
    using assms(3) by (simp add: pages_for_single small_size_def)
  moreover have "Size \<noteq> 0" "unat Size + 4111 < 2 ^ 64"
    using assms(3) by (auto simp: small_size_def PAGE_SIZE_def)
  ultimately obtain s' where "kalloc Size s = Inr (page_addr s i + 16, s')"
    "extends s s' {i..<i + 1}" "load64 (mem s') (page_addr s i) = Size + 16"
    using kalloc_consecutive [OF assms(1) _ _ _ one [symmetric], of i] by blast
  with i show ?thesis by auto
qed

interpretation kblk: block_store kalloc kfree live_blocks layout_ok low_room small_size
proof
  fix s :: "'a pgalloc_scheme" and n Size
  assume s: "layout_ok s" "low_room s (Suc n)" "small_size Size"
  from kalloc_small [OF this] obtain i s' where k: "kalloc Size s = Inr (page_addr s i + 16, s')"
    "first_free s i" "i < LOW_PAGES" "extends s s' {i}" "load64 (mem s') (page_addr s i) = Size + 16"
    by blast
  have size: "unat (Size + 16) = unat Size + 16"
    using s(3) by (intro unat_addr_add [of Size 16, simplified]) (simp add: small_size_def PAGE_SIZE_def)
  have used: "page_used s' j \<longleftrightarrow> page_used s j \<or> j = i" for j
    using k(4) by (simp add: extends_def)
  have blocks: "small_block s' j \<longleftrightarrow> j = i \<or> small_block s j" for j
  proof (cases "j = i")
    case True
    with k size s(3) used show ?thesis
      by (simp add: small_block_def extends_page_addr small_size_def)
  next
    case False
    with extends_header [OF s(1) k(4,3)] used show ?thesis
      by (cases "j < LOW_PAGES") (simp_all add: small_block_def)
  qed
  have "page_addr s i + 16 \<noteq> NULL"
  proof -
    have "unat (page_addr s i + of_nat 16) = unat (MemoryStart s) + 4096 * i + 16"
      using s k by (intro unat_in_page) (simp_all add: PAGE_SIZE_def)
    then have "unat (page_addr s i + 16) \<noteq> 0" by simp
    then show ?thesis by (rule contrapos_nn) (simp only: unsigned_0)
  qed
  moreover have "page_addr s i + 16 \<notin> live_blocks s"
    using k s(1) by (auto simp: live_blocks_def small_block_def page_addr_inj first_free_def)
  moreover have "live_blocks s' = insert (page_addr s i + 16) (live_blocks s)"
    by (auto simp: live_blocks_def blocks extends_page_addr [OF k(4)])
  moreover have "layout_ok s'" using s(1) k(4) by (simp add: extends_layout_ok)
  moreover have "low_room s' n"
  proof -
    have "{j. j < LOW_PAGES \<and> \<not> page_used s' j} = {j. j < LOW_PAGES \<and> \<not> page_used s j} - {i}"
      using used by auto
    then have "card {j. j < LOW_PAGES \<and> \<not> page_used s j} \<le> Suc (card {j. j < LOW_PAGES \<and> \<not> page_used s' j})"
      by (simp add: card_Diff_singleton_if) arith
    with s(2) show ?thesis unfolding low_room_def by linarith
  qed
  ultimately show "\<exists>p s'. kalloc Size s = Inr (p, s') \<and> p \<noteq> NULL \<and> p \<notin> live_blocks s \<and>
        live_blocks s' = insert p (live_blocks s) \<and> layout_ok s' \<and> low_room s' n"
    using k(1) by blast
next
  fix s :: "'a pgalloc_scheme" and p n
  assume s: "layout_ok s" "p \<in> live_blocks s"
  then obtain i where i: "small_block s i" "p = page_addr s i + 16" "i < LOW_PAGES"
    by (auto simp: live_blocks_def small_block_def)
  then have one: "pages_for (load64 (mem s) (page_addr s i)) = 1"
    by (simp add: small_block_def pages_for_single)
  have "i + 1 \<le> LOW_PAGES" using i(3) by simp
  with kfree_block [OF s(1) _ i(3), unfolded one] obtain s' where f1: "kfree p s = Inr s'"
    "MemoryStart s' = MemoryStart s" "mem s' = mem s"
    "\<forall>k. page_used s' k \<longleftrightarrow> page_used s k \<and> \<not> (i \<le> k \<and> k < i + 1)"
    unfolding i(2) by blast
  have "page_used s' k \<longleftrightarrow> page_used s k \<and> k \<noteq> i" for k
    using f1(4) by (cases "k = i") (auto simp: less_Suc_eq_le)
  with f1(1-3) have f: "kfree p s = Inr s'" "MemoryStart s' = MemoryStart s" "mem s' = mem s"
    "\<forall>k. page_used s' k \<longleftrightarrow> page_used s k \<and> k \<noteq> i"
    by blast+
  have addr: "page_addr s' j = page_addr s j" for j using f(2) by (simp add: page_addr_def)
  have blocks: "{j. small_block s' j} = {j. small_block s j} - {i}"
    using f(3,4) by (auto simp: small_block_def addr)
  have "inj_on (\<lambda>j. page_addr s j + 16) {j. small_block s j}"
  proof (rule inj_onI)
    fix j k assume "j \<in> {j. small_block s j}" "k \<in> {j. small_block s j}"
      and "page_addr s j + 16 = page_addr s k + 16"
    then have "j < LOW_PAGES" "k < LOW_PAGES" "page_addr s j = page_addr s k"
      by (simp_all add: small_block_def)
    then show "j = k" using page_addr_inj [OF s(1), of j k] by simp
  qed
  then have "live_blocks s' = live_blocks s - {p}"
    unfolding live_blocks_def addr blocks i(2)
    by (subst inj_on_image_set_diff) (use i(1) in auto)
  moreover have "layout_ok s'" using s(1) f(2) by (simp add: layout_ok_def)
  moreover have "low_room s' (Suc n)" if "low_room s n"
  proof -
    have "{j. j < LOW_PAGES \<and> \<not> page_used s' j} = insert i {j. j < LOW_PAGES \<and> \<not> page_used s j}"
      using f(4) i(3) by auto
    moreover have "i \<notin> {j. j < LOW_PAGES \<and> \<not> page_used s j}"
      using i(1) by (simp add: small_block_def)
    ultimately show ?thesis using that by (simp add: low_room_def)
  qed
  ultimately show "\<exists>s'. kfree p s = Inr s' \<and> live_blocks s' = live_blocks s - {p} \<and> layout_ok s' \<and>
      (low_room s n \<longrightarrow> low_room s' (Suc n))"
    using f(1) by blast
qed

section \<open>Properties\<close>

text \<open>The state of the witnesses: 2 MiB below page 0, every page free.\<close>

definition fresh_pages :: pgalloc where
  "fresh_pages = \<lparr>MemoryStart = 0x200000, PageBitmap = \<lambda>_. 0, mem = \<lambda>_. 0\<rparr>"

lemma fresh_pages_free [simp]: "\<not> page_used fresh_pages i"
  by (simp add: page_used_bit fresh_pages_def)

lemma fresh_pages_layout [simp]: "layout_ok fresh_pages"
  by (simp add: layout_ok_def fresh_pages_def)

lemma fresh_pages_consecutive [simp]: "consecutive fresh_pages 0 n \<longleftrightarrow> n \<le> LOW_PAGES"
  by (simp add: consecutive_def)

text \<open>\<^verbatim>\<open>GetFreePage\<close> is first fit: it returns the lowest free page and marks that page
  and no other, or returns -1 and changes nothing exactly when every page is in use.\<close>

theorem GetFreePage_first_fit:
  "case GetFreePage s of (r, s') \<Rightarrow>
     (if \<exists>k < TOTAL_BITMAP. \<not> page_used s k
      then \<exists>i. r = int i \<and> first_free s i \<and> (\<forall>k. page_used s' k \<longleftrightarrow> k = i \<or> page_used s k) \<and>
             MStat s' + 1 = MStat s
      else r = -1 \<and> s' = s \<and> MStat s = 0)"
proof (cases s rule: GetFreePage_cases)
  case (free i)
  have "free_set (set_page i s) = free_set s - {i}" "i \<in> free_set s"
    using free(1) by (auto simp: free_set_def first_free_def)
  then have "MStat (set_page i s) + 1 = MStat s"
    unfolding MStat_card by (simp only: card_Suc_Diff1 [OF finite_free_set] Suc_eq_plus1 [symmetric])
  with free show ?thesis by (auto simp: first_free_def)
next
  case full
  then have "free_set s = {}" by (auto simp: free_set_def)
  with full show ?thesis by (auto simp: MStat_card)
qed

text \<open>Page conservation: a successful \<^verbatim>\<open>kalloc\<close> of a nonzero size uses up exactly the
  pages its size and header need (as \<^verbatim>\<open>MStat\<close> counts them), never takes a page back from
  anyone, and its block starts on a page that was free.\<close>

theorem kalloc_accounts_pages:
  assumes "kalloc Size s = Inr (p, s')" and "Size \<noteq> 0"
  shows "MStat s' + max 1 (pages_for (Size + sizeof_BlockHeader)) = MStat s \<and>
         (\<forall>k. page_used s k \<longrightarrow> page_used s' k) \<and>
         (\<exists>i. first_free s i \<and> p = MemoryStart s + page_offset (int i) + sizeof_BlockHeader)"
  using kalloc_frame [OF assms] by (simp add: MStat_card sizeof_BlockHeader_def)

theorem kalloc_accounts_pages_witness:
  "\<exists>p s'. kalloc 8000 fresh_pages = Inr (p, s') \<and> MStat s' + 2 = MStat fresh_pages"
proof -
  have two: "pages_for (8000 + 16) = 2" by (simp add: pages_for_def PAGE_SIZE_def)
  then have "consecutive fresh_pages 0 (pages_for (8000 + 16))" by (simp add: LOW_PAGES_def)
  then obtain s' where k: "kalloc 8000 fresh_pages = Inr (page_addr fresh_pages 0 + 16, s')"
    using kalloc_consecutive [of fresh_pages 8000 0] by auto
  from kalloc_accounts_pages [OF k] two show ?thesis
    using k by (simp add: sizeof_BlockHeader_def)
qed



text \<open>C38. The upper half of the page indices: \<^verbatim>\<open>PageIdx * PAGE_SIZE\<close> overflows \<^verbatim>\<open>int\<close>,
  so from page \<open>2\<^sup>1\<^sup>9\<close> on the returned address is 4 GiB below the page's place, and giving
  that address back to \<^verbatim>\<open>FreePage\<close> indexes the bitmap out of bounds.\<close>

theorem AllocatePage_upper_half:
  assumes "first_free s i" "LOW_PAGES \<le> i" "AllocatePage s = Inr (p, s')"
  shows "p = page_addr s i - 2 ^ 32 \<and> FreePage p s' = Inl Fault"
proof -
  have i: "i < TOTAL_BITMAP" using assms(1) by (simp add: first_free_def)
  have s': "MemoryStart s' = MemoryStart s" "p = MemoryStart s + page_offset (int i)"
  proof -
    from assms(3) obtain k where "first_free s k" "p = MemoryStart s + page_offset (int k)"
      "s' = (set_page k s)\<lparr>mem := \<lambda>a. if unat (a - p) < PAGE_SIZE then 0 else mem s a\<rparr>"
      by (rule AllocatePage_Inr) blast
    moreover from this(1) assms(1) have "k = i"
      by (meson first_free_def linorder_neqE_nat)
    ultimately show "MemoryStart s' = MemoryStart s" "p = MemoryStart s + page_offset (int i)"
      by simp_all
  qed
  define d where "d = 4294967296 - 4096 * i"
  have d: "0 < d" "d \<le> 2 ^ 31" "4096 * int i - 4294967296 = - int d"
    using assms(2) i by (simp_all add: d_def LOW_PAGES_def TOTAL_BITMAP_def of_nat_diff)
  have off: "page_offset (int i) = - of_nat d"
    using page_offset_high [OF assms(2) i] d(3) by simp
  have "p = page_addr s i - 2 ^ 32"
  proof -
    have "d + 4096 * i = 4294967296" using d(3) by simp
    then have "of_nat d + of_nat (4096 * i) = (4294967296 :: addr)"
      by (metis of_nat_add of_nat_numeral)
    moreover have "- x = y - z" if "x + y = z" for x y z :: addr
      using that by (simp add: that [symmetric])
    ultimately have "- of_nat d = of_nat (4096 * i) - (4294967296 :: addr)" by blast
    with off s'(2) show ?thesis by (simp add: page_addr_def algebra_simps)
  qed
  moreover have "FreePage p s' = Inl Fault"
  proof -
    have "of_nat d + of_nat (2 ^ 64 - d) = (of_nat (2 ^ 64) :: addr)"
      using d(2) by (simp only: flip: of_nat_add) simp
    then have "- of_nat d = (of_nat (2 ^ 64 - d) :: addr)"
      by (simp add: minus_unique)
    moreover have "2 ^ 64 - d < 2 ^ 64" using d(1) by simp
    ultimately have "unat (- of_nat d :: addr) = 2 ^ 64 - d"
      by (simp only: unat_of_nat_addr)
    then have "TOTAL_BITMAP \<le> unat ((p - MemoryStart s') div of_nat PAGE_SIZE)"
      using d(2) by (simp add: s' off unat_div PAGE_SIZE_def TOTAL_BITMAP_def div_le_mono)
    then show ?thesis by (simp add: FreePage_def Let_def)
  qed
  ultimately show ?thesis ..
qed

definition low_half_full :: pgalloc where
  "low_half_full = \<lparr>MemoryStart = 0x200000,
     PageBitmap = \<lambda>i. if i < 65536 then 0xFF else 0, mem = \<lambda>_. 0\<rparr>"

theorem AllocatePage_upper_half_witness:
  "\<exists>p s'. AllocatePage low_half_full = Inr (p, s') \<and> p = 0xFFFFFFFF80200000 \<and> FreePage p s' = Inl Fault"
proof -
  have "page_used low_half_full k \<longleftrightarrow> k < LOW_PAGES" for k
  proof -
    have "bit (255 :: u8) (k mod 8)"
      using bit_mask_iff [of 8 "k mod 8", where 'a = u8] by (simp add: mask_eq_exp_minus_1)
    then show ?thesis by (auto simp: page_used_bit low_half_full_def LOW_PAGES_def)
  qed
  then have ff: "first_free low_half_full LOW_PAGES"
    by (simp add: first_free_def LOW_PAGES_def TOTAL_BITMAP_def)
  have off: "page_offset (int LOW_PAGES) = 0xFFFFFFFF80000000"
    by (subst page_offset_high) (simp_all add: LOW_PAGES_def TOTAL_BITMAP_def)
  have start: "MemoryStart low_half_full = 0x200000" by (simp add: low_half_full_def)
  have "AllocatePage low_half_full \<noteq> Inl e" for e
    by (simp add: AllocatePage_def GetFreePage_free [OF ff] Let_def rbind_Inl_iff off start memset_eq
      PAGE_SIZE_def memset_eq [of _ 4096, simplified])
  then obtain p s' where a: "AllocatePage low_half_full = Inr (p, s')"
    by (metis old.sum.exhaust surj_pair)
  from AllocatePage_upper_half [OF ff order_refl a] have "FreePage p s' = Inl Fault"
    "p = page_addr low_half_full LOW_PAGES - 2 ^ 32" by blast+
  moreover from this(2) have "p = 0xFFFFFFFF80200000"
    by (simp add: page_addr_def LOW_PAGES_def start)
  ultimately show ?thesis using a by blast
qed

text \<open>C39. Fragmentation: if the second free page does not follow the first, a two-page
  \<^verbatim>\<open>kalloc\<close> still returns one block starting at the first, so the foreign page in between
  lies inside the block; and \<^verbatim>\<open>kfree\<close> frees the foreign page and leaks its own second
  page.\<close>

theorem kalloc_fragmented:
  assumes "layout_ok s" "unat Size + 4111 < 2 ^ 64" "pages_for (Size + sizeof_BlockHeader) = 2"
    and "first_free s i" "page_used s (i + 1)" "i + 1 < j" "j < LOW_PAGES"
    and "\<not> page_used s j" "\<forall>k. i < k \<and> k < j \<longrightarrow> page_used s k"
  shows "\<exists>p s1 s2. kalloc Size s = Inr (p, s1) \<and>
           unat (page_addr s (i + 1) - p) < unat Size \<and> page_used s1 j \<and>
           kfree p s1 = Inr s2 \<and> \<not> page_used s2 (i + 1) \<and> page_used s2 j"
proof -
  let ?p = "page_addr s i"
  let ?s1 = "(set_page i s)\<lparr>mem := zero_page s i\<rparr>"
  let ?s2 = "?s1\<lparr>mem := store64 (store64 (zero_page s i) ?p (Size + 16)) (?p + 8) NULL\<rparr>"
  let ?s3 = "(set_page j ?s2)\<lparr>mem := zero_page ?s2 j\<rparr>"
  have two: "pages_for (Size + 16) = 2" using assms(3) by (simp add: sizeof_BlockHeader_def)
  have T: "unat (Size + 16) = unat Size + 16"
    using unat_addr_add [of Size 16] assms(2) by simp
  then have big: "4080 < unat Size"
    using two pages_for_nat [of "Size + 16"] assms(2) by simp
  have i: "i < LOW_PAGES" using assms(6,7) by simp
  have a1: "AllocatePage s = Inr (?p, ?s1)" using assms(1,4) i by (rule AllocatePage_low)
  have "page_used ?s2 k" if "k < j" for k
    using assms(4,9) that by (cases k i rule: linorder_cases) (simp_all add: first_free_def)
  then have "first_free ?s2 j"
    using assms(6-8) by (simp add: first_free_def LOW_PAGES_def TOTAL_BITMAP_def)
  then have a2: "AllocatePage ?s2 = Inr (page_addr s j, ?s3)"
    using AllocatePage_low [of ?s2 j] assms(1,7) by simp
  have "kalloc_rest ?p 2 1 ?s2 = Inr ?s3"
    using a2 assms(1,7) by (simp add: kalloc_rest.simps numeral_2_eq_2)
  then have k: "kalloc Size s = Inr (?p + 16, ?s3)"
    using a1 two big assms(1) i by (auto simp: kalloc_def Let_def sizeof_BlockHeader_def)
  have "load64 (mem ?s3) ?p = load64 (mem ?s2) ?p"
  proof (rule load64_cong)
    fix k :: nat assume "k < 8"
    then have "\<not> in_page s j (?p + of_nat k)"
      using assms(1,6,7) i by (intro in_page_other) (auto simp: PAGE_SIZE_def)
    then show "mem ?s3 (?p + of_nat k) = mem ?s2 (?p + of_nat k)" by (simp add: zero_page_def)
  qed
  then have hdr: "load64 (mem ?s3) (page_addr ?s3 i) = Size + 16"
    using page_zero_after_header [OF assms(1) i] by simp
  have "i + 2 \<le> LOW_PAGES" using assms(6,7) by simp
  with kfree_block [of ?s3 i, unfolded hdr two] assms(1) i obtain s2 where
    f: "kfree (?p + 16) ?s3 = Inr s2"
      "\<forall>k. page_used s2 k \<longleftrightarrow> page_used ?s3 k \<and> \<not> (i \<le> k \<and> k < i + 2)"
    by auto
  have "unat (page_addr s (i + 1) - (?p + 16)) < unat Size"
    using big by (simp add: page_addr_def)
  with k f assms(6) show ?thesis by auto
qed

definition fragmented_pages :: pgalloc where
  "fragmented_pages = set_page 1 fresh_pages"

theorem kalloc_fragmented_witness:
  "\<exists>p s1 s2. kalloc 8000 fragmented_pages = Inr (p, s1) \<and> kfree p s1 = Inr s2 \<and>
     page_used fragmented_pages 1 \<and> \<not> page_used s2 1"
proof -
  have "pages_for (8000 + sizeof_BlockHeader) = 2"
    by (simp add: pages_for_def PAGE_SIZE_def sizeof_BlockHeader_def)
  then show ?thesis
    using kalloc_fragmented [of fragmented_pages 8000 0 2]
    by (auto simp: fragmented_pages_def first_free_def TOTAL_BITMAP_def LOW_PAGES_def)
qed

end
