(* ===== verification/Kernel.thy ===== *)
theory Kernel
  imports PageAlloc
begin

text \<open>
  The global state of the kernel and the accesses to it the components share:
  \<^verbatim>\<open>VNode\<close> of \<^verbatim>\<open>src/kernel/vfs/vnode.h\<close> as a record, the global variables
  of \<^verbatim>\<open>src/kernel\<close> as a record over the page allocator's, and the serial line as
  the characters it has sent and those still to come.

  VNodes live in a typed heap \<open>nodes\<close> over the addresses \<^verbatim>\<open>kalloc\<close> returns: an
  access outside it (null, never allocated, freed) is a \<open>Fault\<close>. Every other object (tasks,
  descriptors, terminal flags, buffers) lives in the byte memory with the LP64 layout of its
  \<^verbatim>\<open>struct\<close>. The functions a VNode points to are the constructors of a datatype.
\<close>

section \<open>VNodes\<close>

type_synonym VNodeFlags = u32

definition VFS_WRITE :: VNodeFlags where "VFS_WRITE = 0x01"
definition VFS_READ :: VNodeFlags where "VFS_READ = 0x02"
definition VFS_SYSTEM :: VNodeFlags where "VFS_SYSTEM = 0x08"
definition VFS_LINK :: VNodeFlags where "VFS_LINK = 0x10"
definition VFS_OPENED :: VNodeFlags where "VFS_OPENED = 0x40"
definition VFS_ONDISK :: VNodeFlags where "VFS_ONDISK = 0x80"
definition VFS_DELETE :: VNodeFlags where "VFS_DELETE = 0x100"

definition has_flag :: "VNodeFlags \<Rightarrow> VNodeFlags \<Rightarrow> bool" where
  "has_flag Flags f \<longleftrightarrow> Flags AND f \<noteq> 0"

datatype VNodeReadFunction =
  DefaultReadFunction | NullReadFunction | SerialReadFunction | RandomReadFunction | TaskReadFunction

datatype VNodeWriteFunction =
  DefaultWriteFunction | NullWriteFunction | SerialWriteFunction | RandomWriteFunction | TaskWriteFunction

datatype VNodeConstructFunction = DefaultConstructChildrenFunction
datatype VNodeFunction = DefaultDestroyChildrenFunction
datatype VNodeFindFunction = DefaultRelativeFindFunction

text \<open>
  \<^verbatim>\<open>VNodeString\<close> is a pointer and a length; the pointer is the text from it to the end
  of its object.
\<close>

record VNodeString =
  Name :: string
  Length :: nat

record VNodeTime =
  Year :: "7 word"
  Day :: "5 word"
  Month :: "4 word"

record VNode =
  Name :: VNodeString
  Parent :: addr
  FirstChild :: addr
  Next :: addr
  Previous :: addr
  Link :: addr
  DriverData :: addr
  ReadFunction :: VNodeReadFunction
  WriteFunction :: VNodeWriteFunction
  ConstructChildren :: VNodeConstructFunction
  DestroyChildren :: VNodeFunction
  RelativeFind :: VNodeFindFunction
  Created :: VNodeTime
  LastModified :: VNodeTime
  LastAccessed :: VNodeTime
  Flags :: VNodeFlags
  FileOffset :: "64 word"

definition sizeof_VNode :: u64 where
  "sizeof_VNode = 128"

section \<open>The global variables\<close>

text \<open>
  \<open>Root\<close> and \<open>ScratchProc\<close> are the addresses of the two objects of static storage;
  \<open>Current\<close> is the counter of \<^verbatim>\<open>CreateEntry\<close>, \<open>ProgramIdentifier\<close> that of
  \<^verbatim>\<open>SchedulerCreateProc\<close>, \<open>counter\<close> that of \<^verbatim>\<open>mix_entropy\<close>.
  \<open>tx\<close> is what \<^verbatim>\<open>SerialPut\<close> has sent, \<open>rx\<close> what \<^verbatim>\<open>SerialRead\<close> will
  receive.
\<close>

record kernel = pgalloc +
  nodes :: "addr \<Rightarrow> VNode option"
  Root :: addr
  CurrentProc :: addr
  Proc :: addr
  SelfProc :: addr
  ScratchProc :: addr
  Ticks :: u64
  Current :: u64
  ProgramIdentifier :: u64
  rng_state :: u32
  counter :: u32
  tx :: string
  rx :: string

section \<open>Accesses\<close>

definition node :: "addr \<Rightarrow> kernel \<Rightarrow> VNode result" where
  "node p s = (if p = NULL then Inl Fault else case nodes s p of None \<Rightarrow> Inl Fault | Some n \<Rightarrow> Inr n)"

definition set_node :: "addr \<Rightarrow> (VNode \<Rightarrow> VNode) \<Rightarrow> kernel \<Rightarrow> kernel result" where
  "set_node p f s = rbind (node p s) (\<lambda>n. Inr (s\<lparr>nodes := (nodes s)(p \<mapsto> f n)\<rparr>))"

definition SerialPut :: "char \<Rightarrow> kernel \<Rightarrow> kernel" where
  "SerialPut c s = s\<lparr>tx := tx s @ [c]\<rparr>"

text \<open>\<^verbatim>\<open>SerialRead\<close> waits for input: with none to come it does not return.\<close>

definition SerialRead :: "kernel \<Rightarrow> (char \<times> kernel) outcome" where
  "SerialRead s = (case rx s of [] \<Rightarrow> None | c # cs \<Rightarrow> Some (Inr (c, s\<lparr>rx := cs\<rparr>)))"

definition is_node :: "kernel \<Rightarrow> addr \<Rightarrow> bool" where
  "is_node s p \<longleftrightarrow> p \<noteq> NULL \<and> nodes s p \<noteq> None"

abbreviation the_node :: "kernel \<Rightarrow> addr \<Rightarrow> VNode" where
  "the_node s p \<equiv> the (nodes s p)"

lemma node_is [simp]: "is_node s p \<Longrightarrow> node p s = Inr (the_node s p)"
  by (auto simp: is_node_def node_def)

lemma node_not [simp]: "\<not> is_node s p \<Longrightarrow> node p s = Inl Fault"
  by (auto simp: is_node_def node_def split: option.split)

lemma node_Inr_iff [result_simps]: "node p s = Inr n \<longleftrightarrow> is_node s p \<and> nodes s p = Some n"
  by (cases "is_node s p") (auto simp: is_node_def)

lemma not_is_node_NULL [simp]: "\<not> is_node s NULL"
  by (simp add: is_node_def)

lemma set_node_is [simp]:
  "is_node s p \<Longrightarrow> set_node p f s = Inr (s\<lparr>nodes := (nodes s)(p \<mapsto> f (the_node s p))\<rparr>)"
  by (simp add: set_node_def)

lemma set_node_not [simp]: "\<not> is_node s p \<Longrightarrow> set_node p f s = Inl Fault"
  by (simp add: set_node_def)

lemma set_node_Inr_iff [result_simps]:
  "set_node p f s = Inr s' \<longleftrightarrow> is_node s p \<and> s' = s\<lparr>nodes := (nodes s)(p \<mapsto> f (the_node s p))\<rparr>"
  by (cases "is_node s p") auto

lemma is_node_upd [simp]:
  "is_node (s\<lparr>nodes := m(p \<mapsto> n)\<rparr>) q \<longleftrightarrow> q \<noteq> NULL \<and> (q = p \<or> is_node (s\<lparr>nodes := m\<rparr>) q)"
  "is_node (s\<lparr>nodes := m(p := None)\<rparr>) q \<longleftrightarrow> q \<noteq> p \<and> is_node (s\<lparr>nodes := m\<rparr>) q"
  "is_node (s\<lparr>nodes := nodes s\<rparr>) q = is_node s q"
  by (auto simp: is_node_def)

lemma is_node_frame [simp]:
  "is_node (s\<lparr>mem := m\<rparr>) = is_node s"
  "is_node (s\<lparr>Current := v0\<rparr>) = is_node s"
  "is_node (s\<lparr>CurrentProc := v1\<rparr>) = is_node s"
  "is_node (s\<lparr>Proc := v2\<rparr>) = is_node s"
  "is_node (s\<lparr>SelfProc := v3\<rparr>) = is_node s"
  "is_node (s\<lparr>Ticks := v4\<rparr>) = is_node s"
  "is_node (s\<lparr>ProgramIdentifier := v5\<rparr>) = is_node s"
  "is_node (s\<lparr>rng_state := v6\<rparr>) = is_node s"
  "is_node (s\<lparr>counter := v7\<rparr>) = is_node s"
  "is_node (s\<lparr>tx := v8\<rparr>) = is_node s"
  "is_node (s\<lparr>rx := v9\<rparr>) = is_node s"
  by (simp_all add: is_node_def fun_eq_iff)

lemma kalloc_kernel_frame [frame_simps]:
  fixes s :: kernel
  assumes "kalloc Size s = Inr (p, s')"
  shows "nodes s' = nodes s" "Root s' = Root s" "CurrentProc s' = CurrentProc s" "Proc s' = Proc s"
    "SelfProc s' = SelfProc s" "ScratchProc s' = ScratchProc s" "Ticks s' = Ticks s"
    "Current s' = Current s" "ProgramIdentifier s' = ProgramIdentifier s"
    "rng_state s' = rng_state s" "counter s' = counter s" "tx s' = tx s" "rx s' = rx s"
  using kalloc_more [OF assms] by (cases s; cases s'; simp)+

lemma kfree_kernel_frame [frame_simps]:
  fixes s :: kernel
  assumes "kfree p s = Inr s'"
  shows "nodes s' = nodes s" "Root s' = Root s" "CurrentProc s' = CurrentProc s" "Proc s' = Proc s"
    "SelfProc s' = SelfProc s" "ScratchProc s' = ScratchProc s" "Ticks s' = Ticks s"
    "Current s' = Current s" "ProgramIdentifier s' = ProgramIdentifier s"
    "rng_state s' = rng_state s" "counter s' = counter s" "tx s' = tx s" "rx s' = rx s"
    "mem s' = mem s" "MemoryStart s' = MemoryStart s"
  using kfree_frame [OF assms] by (cases s; cases s'; simp)+

section \<open>Words inside live blocks\<close>

text \<open>
  Objects other than VNodes are words at fixed offsets of a live block (at most 4080 payload
  bytes) or of a static object, which lies below \<open>MemoryStart\<close>.
\<close>

lemma load64_store64_apart:
  assumes "unat a + 8 \<le> 2 ^ 64" "unat b + 8 \<le> 2 ^ 64" "unat a + 8 \<le> unat b \<or> unat b + 8 \<le> unat a"
  shows "load64 (store64 m a v) b = load64 m b"
proof (rule load64_cong)
  fix k :: nat assume "k < 8"
  have "8 \<le> unat (b + of_nat k - a)"
  proof (rule ccontr)
    define t where "t = unat (b + of_nat k - a)"
    assume "\<not> 8 \<le> unat (b + of_nat k - a)"
    then have t: "t < 8" by (simp add: t_def)
    have "b + of_nat k = a + of_nat t" by (simp add: t_def)
    then have "unat (b + of_nat k) = unat (a + of_nat t)" by simp
    then have "unat b + k = unat a + t"
      using assms(1,2) t \<open>k < 8\<close> unat_addr_add [of b "of_nat k"] unat_addr_add [of a "of_nat t"]
      by (simp add: unat_of_nat_addr)
    with assms(3) t \<open>k < 8\<close> show False by linarith
  qed
  then show "store64 m a v (b + of_nat k) = m (b + of_nat k)" by (rule store64_other)
qed

lemma live_blockE:
  assumes "layout_ok s" "p \<in> live_blocks s"
  obtains i where "p = page_addr s i + 16" "i < LOW_PAGES" "small_block s i"
    "\<And>x. x < 4080 \<Longrightarrow> unat (p + of_nat x) = unat (MemoryStart s) + 4096 * i + 16 + x"
    "unat (MemoryStart s) + 4096 * i + 4096 < 2 ^ 64"
proof -
  from assms(2) obtain i where i: "p = page_addr s i + 16" "small_block s i"
    by (auto simp: live_blocks_def)
  then have low: "i < LOW_PAGES" by (simp add: small_block_def)
  have "unat (p + of_nat x) = unat (MemoryStart s) + 4096 * i + 16 + x" if "x < 4080" for x
    using unat_in_page [OF assms(1) low, of "16 + x"] that i(1) by (simp add: PAGE_SIZE_def add.assoc)
  moreover have "unat (MemoryStart s) + 4096 * i + 4096 < 2 ^ 64"
    using assms(1) low by (simp add: layout_ok_def LOW_PAGES_def)
  ultimately show thesis using that i low by blast
qed

lemma word_apart:
  assumes "layout_ok s" "p \<in> live_blocks s" "q \<in> live_blocks s" "x + 8 \<le> 4080" "y + 8 \<le> 4080"
    and "p \<noteq> q \<or> x + 8 \<le> y \<or> y + 8 \<le> x"
  shows "load64 (store64 m (p + of_nat x) v) (q + of_nat y) = load64 m (q + of_nat y)"
proof -
  obtain i where i: "p = page_addr s i + 16" "unat (MemoryStart s) + 4096 * i + 4096 < 2 ^ 64"
    and all_i: "\<And>x. x < 4080 \<Longrightarrow> unat (p + of_nat x) = unat (MemoryStart s) + 4096 * i + 16 + x"
    using live_blockE [OF assms(1,2)] by metis
  have ui: "unat (p + of_nat x) = unat (MemoryStart s) + 4096 * i + 16 + x"
    using assms(4) by (intro all_i) simp
  obtain j where j: "q = page_addr s j + 16" "unat (MemoryStart s) + 4096 * j + 4096 < 2 ^ 64"
    and all_j: "\<And>x. x < 4080 \<Longrightarrow> unat (q + of_nat x) = unat (MemoryStart s) + 4096 * j + 16 + x"
    using live_blockE [OF assms(1,3)] by metis
  have uj: "unat (q + of_nat y) = unat (MemoryStart s) + 4096 * j + 16 + y"
    using assms(5) by (intro all_j) simp
  have "i \<noteq> j \<or> x + 8 \<le> y \<or> y + 8 \<le> x" using assms(6) i(1) j(1) by auto
  then have "unat (p + of_nat x) + 8 \<le> unat (q + of_nat y) \<or> unat (q + of_nat y) + 8 \<le> unat (p + of_nat x)"
    unfolding ui uj using assms(4,5) by (cases "i < j"; cases "j < i") auto
  then show ?thesis
    using i(2) j(2) ui uj assms(4,5) by (intro load64_store64_apart) simp_all
qed

lemma live_blocks_cong:
  assumes "MemoryStart t = MemoryStart s" "PageBitmap t = PageBitmap s"
    and "\<And>j. j < LOW_PAGES \<Longrightarrow> load64 (mem t) (page_addr s j) = load64 (mem s) (page_addr s j)"
  shows "live_blocks t = live_blocks s"
proof -
  have "page_addr t j = page_addr s j" "page_used t j = page_used s j" for j
    using assms(1,2) by (simp_all add: page_addr_def page_used_def)
  with assms(3) have "small_block t j = small_block s j" for j
    by (auto simp: small_block_def)
  with \<open>\<And>j. page_addr t j = page_addr s j\<close> show ?thesis by (simp add: live_blocks_def)
qed

lemma live_blocks_store [simp]:
  assumes "layout_ok s" "p \<in> live_blocks s" "x + 8 \<le> 4080"
  shows "live_blocks (s\<lparr>mem := store64 (mem s) (p + of_nat x) v\<rparr>) = live_blocks s"
proof (rule live_blocks_cong)
  fix j assume j: "j < LOW_PAGES"
  obtain i where i: "p = page_addr s i + 16" "unat (MemoryStart s) + 4096 * i + 4096 < 2 ^ 64"
    and all: "\<And>x. x < 4080 \<Longrightarrow> unat (p + of_nat x) = unat (MemoryStart s) + 4096 * i + 16 + x"
    using live_blockE [OF assms(1,2)] by metis
  have ui: "unat (p + of_nat x) = unat (MemoryStart s) + 4096 * i + 16 + x"
    using assms(3) by (intro all) simp
  have uj: "unat (page_addr s j) = unat (MemoryStart s) + 4096 * j"
    using unat_in_page [OF assms(1) j, of 0] by (simp add: PAGE_SIZE_def)
  have "unat (MemoryStart s) + 4096 * j + 4096 < 2 ^ 64"
    using assms(1) j by (simp add: layout_ok_def LOW_PAGES_def)
  moreover have "unat (p + of_nat x) + 8 \<le> unat (page_addr s j) \<or> unat (page_addr s j) + 8 \<le> unat (p + of_nat x)"
    unfolding ui uj using assms(3) by (cases "i < j"; cases "j < i") auto
  ultimately show "load64 (mem (s\<lparr>mem := store64 (mem s) (p + of_nat x) v\<rparr>)) (page_addr s j) =
      load64 (mem s) (page_addr s j)"
    using i(2) ui uj assms(3) by (simp add: load64_store64_apart)
qed simp_all

lemma kalloc_word:
  assumes "layout_ok s" "low_room s (Suc n)" "small_size Size" "kalloc Size s = Inr (p, s')"
    and "q \<in> live_blocks s" "x + 8 \<le> 4080"
  shows "load64 (mem s') (q + of_nat x) = load64 (mem s) (q + of_nat x)"
proof -
  from kalloc_small [OF assms(1-3)] assms(4) obtain i where i: "first_free s i" "i < LOW_PAGES"
    "extends s s' {i}" by auto
  from assms(5) obtain j where j: "q = page_addr s j + 16" "small_block s j" by (auto simp: live_blocks_def)
  then have ne: "j \<noteq> i" "j < LOW_PAGES" using i(1) by (auto simp: small_block_def first_free_def)
  show ?thesis
  proof (rule load64_cong)
    fix k :: nat assume "k < 8"
    have "q + of_nat x + of_nat k = page_addr s j + of_nat (16 + x + k)" by (simp add: j(1) add.assoc)
    moreover have "\<not> in_page s i (page_addr s j + of_nat (16 + x + k))"
      using assms(1,6) ne i(2) \<open>k < 8\<close> by (intro in_page_other) (auto simp: PAGE_SIZE_def)
    ultimately show "mem s' (q + of_nat x + of_nat k) = mem s (q + of_nat x + of_nat k)"
      using i(3) by (simp add: extends_def add.assoc)
  qed
qed

lemma live_word_not_null:
  assumes "layout_ok s" "p \<in> live_blocks s" "x < 4080"
  shows "p + of_nat x \<noteq> NULL"
proof -
  obtain i where all: "\<And>x. x < 4080 \<Longrightarrow> unat (p + of_nat x) = unat (MemoryStart s) + 4096 * i + 16 + x"
    using live_blockE [OF assms(1,2)] by metis
  have "unat (p + of_nat x) = unat (MemoryStart s) + 4096 * i + 16 + x" using assms(3) by (rule all)
  then have "0 < unat (p + of_nat x)" by linarith
  then show ?thesis by (simp only: unat_gt_0 not_False_eq_True)
qed

text \<open>Static objects.\<close>

definition static_object :: "'a pgalloc_scheme \<Rightarrow> addr \<Rightarrow> nat \<Rightarrow> bool" where
  "static_object s a n \<longleftrightarrow> a \<noteq> NULL \<and> unat a + n \<le> unat (MemoryStart s)"

lemma alloc_frame [simp]:
  fixes s :: kernel
  shows
    "live_blocks (s\<lparr>Current := v0\<rparr>) = live_blocks s" "layout_ok (s\<lparr>Current := v0\<rparr>) = layout_ok s"
    "low_room (s\<lparr>Current := v0\<rparr>) = low_room s"
    "live_blocks (s\<lparr>CurrentProc := v1\<rparr>) = live_blocks s" "layout_ok (s\<lparr>CurrentProc := v1\<rparr>) = layout_ok s"
    "low_room (s\<lparr>CurrentProc := v1\<rparr>) = low_room s"
    "live_blocks (s\<lparr>Proc := v2\<rparr>) = live_blocks s" "layout_ok (s\<lparr>Proc := v2\<rparr>) = layout_ok s"
    "low_room (s\<lparr>Proc := v2\<rparr>) = low_room s"
    "live_blocks (s\<lparr>SelfProc := v3\<rparr>) = live_blocks s" "layout_ok (s\<lparr>SelfProc := v3\<rparr>) = layout_ok s"
    "low_room (s\<lparr>SelfProc := v3\<rparr>) = low_room s"
    "live_blocks (s\<lparr>Ticks := v4\<rparr>) = live_blocks s" "layout_ok (s\<lparr>Ticks := v4\<rparr>) = layout_ok s"
    "low_room (s\<lparr>Ticks := v4\<rparr>) = low_room s"
    "live_blocks (s\<lparr>ProgramIdentifier := v5\<rparr>) = live_blocks s" "layout_ok (s\<lparr>ProgramIdentifier := v5\<rparr>) = layout_ok s"
    "low_room (s\<lparr>ProgramIdentifier := v5\<rparr>) = low_room s"
    "live_blocks (s\<lparr>rng_state := v6\<rparr>) = live_blocks s" "layout_ok (s\<lparr>rng_state := v6\<rparr>) = layout_ok s"
    "low_room (s\<lparr>rng_state := v6\<rparr>) = low_room s"
    "live_blocks (s\<lparr>counter := v7\<rparr>) = live_blocks s" "layout_ok (s\<lparr>counter := v7\<rparr>) = layout_ok s"
    "low_room (s\<lparr>counter := v7\<rparr>) = low_room s"
    "live_blocks (s\<lparr>tx := v8\<rparr>) = live_blocks s" "layout_ok (s\<lparr>tx := v8\<rparr>) = layout_ok s"
    "low_room (s\<lparr>tx := v8\<rparr>) = low_room s"
    "live_blocks (s\<lparr>rx := v9\<rparr>) = live_blocks s" "layout_ok (s\<lparr>rx := v9\<rparr>) = layout_ok s"
    "low_room (s\<lparr>rx := v9\<rparr>) = low_room s"
    "live_blocks (s\<lparr>nodes := v10\<rparr>) = live_blocks s" "layout_ok (s\<lparr>nodes := v10\<rparr>) = layout_ok s"
    "low_room (s\<lparr>nodes := v10\<rparr>) = low_room s"
  by (simp_all add: live_blocks_def layout_ok_def low_room_def small_block_def page_used_def
    page_addr_def fun_eq_iff)

text \<open>
  The heap as the kernel uses it: every node is the root or a live block, the root is not a
  block, and \<open>n\<close> more blocks can be had.
\<close>

definition heap_ok :: "kernel \<Rightarrow> nat \<Rightarrow> bool" where
  "heap_ok s n \<longleftrightarrow> layout_ok s \<and> low_room s n \<and> static_object s (Root s) 128 \<and>
     (\<forall>a. is_node s a \<longrightarrow> a = Root s \<or> a \<in> live_blocks s)"

lemma live_not_static:
  assumes "layout_ok s" "p \<in> live_blocks s" "static_object s a n"
  shows "p \<noteq> a"
proof
  assume "p = a"
  obtain i where "unat (p + of_nat 0) = unat (MemoryStart s) + 4096 * i + 16 + 0"
    using live_blockE [OF assms(1,2)] by (metis zero_less_numeral)
  with assms(3) \<open>p = a\<close> show False by (simp add: static_object_def)
qed

lemma heap_ok_alloc:
  assumes "heap_ok s (Suc n)" "small_size Size"
  shows "\<exists>p s'. kalloc Size s = Inr (p, s') \<and> p \<noteq> NULL \<and> p \<notin> live_blocks s \<and> \<not> is_node s p \<and>
     p \<in> live_blocks s' \<and> live_blocks s' = insert p (live_blocks s) \<and> heap_ok s' n"
proof -
  from assms(1) have ok: "layout_ok s" "low_room s (Suc n)" by (simp_all add: heap_ok_def)
  from kblk.alloc_ok [OF this assms(2)] obtain p s' where k: "kalloc Size s = Inr (p, s')"
    and p: "p \<noteq> NULL" "p \<notin> live_blocks s" "live_blocks s' = insert p (live_blocks s)"
      "layout_ok s'" "low_room s' n" by blast
  note fr = kalloc_kernel_frame [OF k]
  from kalloc_small [OF ok assms(2)] k have ms: "MemoryStart s' = MemoryStart s"
    by (auto simp: extends_def)
  then have root: "static_object s' (Root s') 128"
    using assms(1) fr(2) by (simp add: heap_ok_def static_object_def)
  then have "p \<noteq> Root s'" using live_not_static p(3,4) by blast
  then have "\<not> is_node s p" using assms(1) p(2) fr(2) by (auto simp: heap_ok_def)
  moreover have "heap_ok s' n"
    using assms(1) fr(1,2) p root by (auto simp: heap_ok_def is_node_def)
  ultimately show ?thesis using k p by blast
qed

end
