(* ===== verification/VNodeTree.thy ===== *)
theory VNodeTree
  imports Kernel
begin

text \<open>
  The tree of virtual nodes, \<^verbatim>\<open>src/kernel/vfs/vnode.c\<close>: creation and deletion, the
  child and sibling links, the listing and the default path lookup. Walks along
  \<^verbatim>\<open>Next\<close> are partial functions whose value \<open>None\<close> is a walk that does not end;
  the lemmas show that on well-formed sibling chains they do.
\<close>

section \<open>Operations on one node\<close>

datatype SeekType = SEEK_SET | SEEK_CUR | SEEK_END | SEEK_OTHER int

definition VNodeSeek :: "addr \<Rightarrow> 64 word \<Rightarrow> SeekType \<Rightarrow> kernel \<Rightarrow> kernel result" where
  "VNodeSeek Node Offset Type s =
     (case Type of
        SEEK_SET \<Rightarrow> set_node Node (\<lambda>n. n\<lparr>FileOffset := Offset\<rparr>) s
      | SEEK_CUR \<Rightarrow> set_node Node (\<lambda>n. n\<lparr>FileOffset := FileOffset n + Offset\<rparr>) s
      | SEEK_END \<Rightarrow> Inl (Panic PANIC_TODO)
      | SEEK_OTHER _ \<Rightarrow> Inr s)"

text \<open>\<^verbatim>\<open>sizeof(DefaultName)\<close> is the size of a pointer.\<close>

definition DefaultName :: VNodeString where
  "DefaultName = \<lparr>VNodeString.Name = ''~UnknownVNode'' @ [NUL], Length = 8\<rparr>"

definition default_node :: "VNode \<Rightarrow> VNode" where
  "default_node n = n\<lparr>ReadFunction := DefaultReadFunction, WriteFunction := DefaultWriteFunction,
     DestroyChildren := DefaultDestroyChildrenFunction,
     ConstructChildren := DefaultConstructChildrenFunction,
     RelativeFind := DefaultRelativeFindFunction, Name := DefaultName,
     Link := NULL, Parent := NULL, Next := NULL, Previous := NULL, FirstChild := NULL,
     DriverData := NULL\<rparr>"

definition VNodeDefault :: "addr \<Rightarrow> kernel \<Rightarrow> kernel result" where
  "VNodeDefault Node s = rbind (PanicIfNull Node) (\<lambda>_. set_node Node default_node s)"

text \<open>A VNode of zero bytes; its function pointers are set before anything reads them.\<close>

definition zero_time :: VNodeTime where
  "zero_time = \<lparr>Year = 0, Day = 0, Month = 0\<rparr>"

definition zero_node :: VNode where
  "zero_node = \<lparr>Name = \<lparr>VNodeString.Name = [], Length = 0\<rparr>, Parent = NULL, FirstChild = NULL, Next = NULL,
     Previous = NULL, Link = NULL, DriverData = NULL, ReadFunction = DefaultReadFunction,
     WriteFunction = DefaultWriteFunction, ConstructChildren = DefaultConstructChildrenFunction,
     DestroyChildren = DefaultDestroyChildrenFunction, RelativeFind = DefaultRelativeFindFunction,
     Created = zero_time, LastModified = zero_time, LastAccessed = zero_time, Flags = 0,
     FileOffset = 0\<rparr>"

definition NewVNode :: "VNodeFlags \<Rightarrow> kernel \<Rightarrow> (addr \<times> kernel) result" where
  "NewVNode Fl s =
     rbind (kalloc sizeof_VNode s) (\<lambda>(NewNode, s1).
       let s2 = s1\<lparr>nodes := (nodes s1)(NewNode \<mapsto> zero_node)\<rparr>
       in rbind (set_node NewNode (\<lambda>n. n\<lparr>Flags := Fl\<rparr>) s2) (\<lambda>s3.
          rbind (set_node NewNode (\<lambda>n. n\<lparr>FileOffset := 0\<rparr>) s3) (\<lambda>s4.
          rbind (VNodeDefault NewNode s4) (\<lambda>s5. Inr (NewNode, s5)))))"

definition RootVNode :: "kernel \<Rightarrow> addr" where
  "RootVNode s = Root s"

section \<open>Links\<close>

definition RegisterChildVNode :: "addr \<Rightarrow> addr \<Rightarrow> kernel \<Rightarrow> kernel result" where
  "RegisterChildVNode P Child s =
     rbind (PanicIfNull P) (\<lambda>_. rbind (PanicIfNull Child) (\<lambda>_.
     rbind (node P s) (\<lambda>p.
     rbind (if FirstChild p \<noteq> NULL then set_node (FirstChild p) (\<lambda>n. n\<lparr>Previous := Child\<rparr>) s
            else Inr s) (\<lambda>s1.
     rbind (node P s1) (\<lambda>p1.
     rbind (set_node Child (\<lambda>n. n\<lparr>Next := FirstChild p1\<rparr>) s1) (\<lambda>s2.
     set_node P (\<lambda>n. n\<lparr>FirstChild := Child\<rparr>) s2))))))"

definition RegisterSiblingVNode :: "addr \<Rightarrow> addr \<Rightarrow> kernel \<Rightarrow> kernel result" where
  "RegisterSiblingVNode Base Child s =
     rbind (PanicIfNull Base) (\<lambda>_. rbind (PanicIfNull Child) (\<lambda>_.
     rbind (node Base s) (\<lambda>b.
     rbind (if Next b \<noteq> NULL then set_node (Next b) (\<lambda>n. n\<lparr>Previous := Child\<rparr>) s
            else Inr s) (\<lambda>s1.
     rbind (node Base s1) (\<lambda>b1.
     rbind (set_node Child (\<lambda>n. n\<lparr>Next := Next b1\<rparr>) s1) (\<lambda>s2.
     set_node Base (\<lambda>n. n\<lparr>Next := Child\<rparr>) s2))))))"

definition UnregisterVNode :: "addr \<Rightarrow> kernel \<Rightarrow> kernel result" where
  "UnregisterVNode Node s =
     rbind (PanicIfNull Node) (\<lambda>_.
     rbind (node Node s) (\<lambda>n0.
     rbind (if Previous n0 \<noteq> NULL then set_node (Previous n0) (\<lambda>q. q\<lparr>Next := Next n0\<rparr>) s
            else Inr s) (\<lambda>s1.
     rbind (node Node s1) (\<lambda>n1.
     rbind (if Next n1 \<noteq> NULL then set_node (Next n1) (\<lambda>q. q\<lparr>Previous := Previous n1\<rparr>) s1
            else Inr s1) (\<lambda>s2.
     rbind (node Node s2) (\<lambda>n2.
     rbind (if Parent n2 \<noteq> NULL then
              rbind (node (Parent n2) s2) (\<lambda>p.
                if FirstChild p = Node then set_node (Parent n2) (\<lambda>q. q\<lparr>FirstChild := Next n2\<rparr>) s2
                else Inr s2)
            else Inr s2) (\<lambda>s3.
     rbind (set_node Node (\<lambda>q. q\<lparr>Next := NULL\<rparr>) s3) (\<lambda>s4.
     rbind (set_node Node (\<lambda>q. q\<lparr>Previous := NULL\<rparr>) s4) (\<lambda>s5.
     set_node Node (\<lambda>q. q\<lparr>Parent := NULL\<rparr>) s5)))))))))"

section \<open>Deletion and listing\<close>

text \<open>
  \<^verbatim>\<open>DeleteVNode\<close>: the pair of the function (\<open>Inl Node\<close>) and its loop over the
  children (\<open>Inr Child\<close>). \<^verbatim>\<open>kfree\<close> takes the node out of the heap.
\<close>

partial_function (option) delete_walk :: "addr + addr \<Rightarrow> kernel \<Rightarrow> kernel outcome" where
  "delete_walk x s =
     (case x of
        Inl Node \<Rightarrow>
          obind (Some (PanicIfNull Node)) (\<lambda>_.
          obind (Some (node Node s)) (\<lambda>n.
          obind (delete_walk (Inr (FirstChild n)) s) (\<lambda>s1.
          Some (rbind (kfree Node s1) (\<lambda>s2. Inr (s2\<lparr>nodes := (nodes s2)(Node := None)\<rparr>))))))
      | Inr Child \<Rightarrow>
          if Child = NULL then Some (Inr s)
          else obind (Some (node Child s)) (\<lambda>c.
               obind (delete_walk (Inl Child) s) (\<lambda>s1.
               delete_walk (Inr (Next c)) s1)))"

definition DeleteVNode :: "addr \<Rightarrow> kernel \<Rightarrow> kernel outcome" where
  "DeleteVNode Node s = delete_walk (Inl Node) s"

fun put_chars :: "string \<Rightarrow> kernel \<Rightarrow> kernel" where
  "put_chars [] s = s"
| "put_chars (c # cs) s = put_chars cs (SerialPut c s)"

function put_name :: "VNodeString \<Rightarrow> nat \<Rightarrow> kernel \<Rightarrow> kernel result" where
  "put_name n i s =
     (if i < Length n then
        rbind (cget (VNodeString.Name n) i) (\<lambda>c. put_name n (Suc i) (SerialPut c s))
      else Inr s)"
  by pat_completeness auto
termination by (relation "measure (\<lambda>(n, i, s). Length n - i)") auto

declare put_name.simps [simp del]

partial_function (option) VNListTree :: "addr \<Rightarrow> int \<Rightarrow> kernel \<Rightarrow> kernel outcome" where
  "VNListTree Base Depth s =
     (if Base = NULL then Some (Inr s)
      else
        let s1 = put_chars (replicate (nat (Depth - 1)) CHR '' '') s
        in obind (Some (node Base s1)) (\<lambda>b.
           obind (Some (put_name (Name b) 0 s1)) (\<lambda>s2.
           let s3 = SerialPut CHR 0x0A (SerialPut CHR 0x0D s2)
           in obind (if FirstChild b \<noteq> NULL then VNListTree (FirstChild b) (Depth + 1) s3
                     else Some (Inr s3)) (\<lambda>s4.
              VNListTree (Next b) Depth s4))))"

section \<open>Path lookup\<close>

text \<open>\<^verbatim>\<open>TempBuffer\<close> of 128 characters: a component is cut after 127.\<close>

function scan_component :: "string \<Rightarrow> nat \<Rightarrow> nat \<Rightarrow> string \<Rightarrow> string result" where
  "scan_component Path Len i Temp =
     (if i + length Temp < Len then
        rbind (cget Path (i + length Temp)) (\<lambda>c.
          if c \<noteq> CHR ''/'' \<and> length Temp < 127 then scan_component Path Len i (Temp @ [c])
          else Inr Temp)
      else Inr Temp)"
  by pat_completeness auto
termination by (relation "measure (\<lambda>(Path, Len, i, Temp). Len - (i + length Temp))") auto

declare scan_component.simps [simp del]

text \<open>\<^verbatim>\<open>TempLength == n && !strncmp(TempBuffer, "...", n)\<close>.\<close>

definition keyword :: "string \<Rightarrow> string \<Rightarrow> bool result" where
  "keyword w Temp =
     (if length Temp = length w then
        rbind (strncmp (Some (Temp @ [NUL])) (Some (w @ [NUL])) (length w)) (\<lambda>r. Inr (r = 0))
      else Inr False)"

definition call_ConstructChildren :: "VNodeConstructFunction \<Rightarrow> addr \<Rightarrow> nat \<Rightarrow> kernel \<Rightarrow> kernel result" where
  "call_ConstructChildren f Node MaxDepth s =
     (case f of DefaultConstructChildrenFunction \<Rightarrow>
        rbind (PanicIfNull Node) (\<lambda>_. Inl (Panic PANIC_UNINTENDED_CALL)))"

definition call_DestroyChildren :: "VNodeFunction \<Rightarrow> addr \<Rightarrow> kernel \<Rightarrow> kernel result" where
  "call_DestroyChildren f Node s =
     (case f of DefaultDestroyChildrenFunction \<Rightarrow>
        rbind (PanicIfNull Node) (\<lambda>_. Inl (Panic PANIC_UNINTENDED_CALL)))"

partial_function (option) last_sibling :: "addr \<Rightarrow> kernel \<Rightarrow> addr outcome" where
  "last_sibling Last s =
     obind (Some (node Last s)) (\<lambda>l. if Next l \<noteq> NULL then last_sibling (Next l) s else Some (Inr Last))"

partial_function (option) find_child :: "string \<Rightarrow> addr \<Rightarrow> kernel \<Rightarrow> addr outcome" where
  "find_child Temp Child s =
     (if Child = NULL then Some (Inl (Panic PANIC_NOT_FOUND))
      else obind (Some (node Child s)) (\<lambda>c.
           obind (Some (if length Temp = Length (Name c) then
                          rbind (strncmp (Some (VNodeString.Name (Name c))) (Some (Temp @ [NUL])) (length Temp))
                            (\<lambda>r. Inr (r = 0))
                        else Inr False)) (\<lambda>b.
           if b then Some (Inr Child) else find_child Temp (Next c) s)))"

definition find_step :: "string \<Rightarrow> addr \<Rightarrow> kernel \<Rightarrow> addr outcome" where
  "find_step Temp CurrentNode s =
     obind (Some (keyword ''~parent'' Temp)) (\<lambda>parent.
     obind (Some (keyword ''~self'' Temp)) (\<lambda>self.
     obind (Some (keyword ''~next'' Temp)) (\<lambda>nxt.
     obind (Some (keyword ''~previous'' Temp)) (\<lambda>previous.
     obind (Some (keyword ''~first'' Temp)) (\<lambda>first.
     obind (Some (keyword ''~last'' Temp)) (\<lambda>last.
       if Temp = ''..'' \<or> parent then
         if CurrentNode \<noteq> RootVNode s then Some (rbind (node CurrentNode s) (\<lambda>n. Inr (Parent n)))
         else Some (Inr CurrentNode)
       else if Temp = ''.'' \<or> self then Some (Inr CurrentNode)
       else obind (Some (node CurrentNode s)) (\<lambda>n.
         if nxt then
           if Next n = NULL then Some (Inl (Panic PANIC_NOT_FOUND)) else Some (Inr (Next n))
         else if previous then
           if Previous n = NULL then Some (Inl (Panic PANIC_NOT_FOUND)) else Some (Inr (Previous n))
         else if first then
           if FirstChild n = NULL then Some (Inl (Panic PANIC_NOT_FOUND)) else Some (Inr (FirstChild n))
         else if last then
           if FirstChild n = NULL then Some (Inl (Panic PANIC_NOT_FOUND))
           else last_sibling (FirstChild n) s
         else
           obind (Some (if has_flag (Flags n) VFS_ONDISK
                        then call_ConstructChildren (ConstructChildren n) CurrentNode 1 s
                        else Inr s)) (\<lambda>s1.
           obind (Some (node CurrentNode s1)) (\<lambda>n1.
             find_child Temp (FirstChild n1) s1)))))))))"

partial_function (option) find_walk :: "string \<Rightarrow> nat \<Rightarrow> nat \<Rightarrow> addr \<Rightarrow> kernel \<Rightarrow> addr outcome" where
  "find_walk Path Len i CurrentNode s =
     (if i < Len then
        obind (Some (PanicIfNull CurrentNode)) (\<lambda>_.
        obind (Some (cget Path i)) (\<lambda>c.
          if c = CHR ''/'' then find_walk Path Len (i + 1) CurrentNode s
          else obind (Some (scan_component Path Len i [])) (\<lambda>Temp.
            if length Temp = 0 then find_walk Path Len (i + length Temp) CurrentNode s
            else obind (find_step Temp CurrentNode s) (\<lambda>Found.
              find_walk Path Len (i + length Temp) Found s))))
      else Some (Inr CurrentNode))"

definition DefaultRelativeFind :: "addr \<Rightarrow> cstr \<Rightarrow> nat \<Rightarrow> kernel \<Rightarrow> addr outcome" where
  "DefaultRelativeFind Base RelativePath Len s =
     obind (Some (PanicIfNull Base)) (\<lambda>_.
       case RelativePath of
         None \<Rightarrow> Some (Inl (Panic PANIC_NULL_POINTER_DEREFERENCE))
       | Some Path \<Rightarrow>
           obind (Some (if 0 < Len then rbind (cget Path 0) (\<lambda>c. Inr (c = CHR ''/'')) else Inr False)) (\<lambda>abs.
           obind (if abs then find_walk Path Len 1 (RootVNode s) s else find_walk Path Len 0 Base s)
             (\<lambda>CurrentNode.
           obind (Some (node CurrentNode s)) (\<lambda>n.
             if has_flag (Flags n) VFS_LINK then Some (Inr (Link n)) else Some (Inr CurrentNode)))))"

definition call_RelativeFind :: "VNodeFindFunction \<Rightarrow> addr \<Rightarrow> cstr \<Rightarrow> nat \<Rightarrow> kernel \<Rightarrow> addr outcome" where
  "call_RelativeFind f Base RelativePath Len s =
     (case f of DefaultRelativeFindFunction \<Rightarrow> DefaultRelativeFind Base RelativePath Len s)"

section \<open>Sibling chains\<close>

fun chain :: "kernel \<Rightarrow> addr \<Rightarrow> addr list \<Rightarrow> bool" where
  "chain s p [] \<longleftrightarrow> p = NULL"
| "chain s p (x # xs) \<longleftrightarrow> p = x \<and> is_node s x \<and> chain s (Next (the_node s x)) xs"

definition node_name :: "VNode \<Rightarrow> string" where
  "node_name n = take (Length (Name n)) (VNodeString.Name (Name n))"

definition name_ok :: "VNode \<Rightarrow> bool" where
  "name_ok n \<longleftrightarrow> Length (Name n) \<le> length (VNodeString.Name (Name n))"

lemma chain_cong:
  "(\<And>x. x \<in> set xs \<Longrightarrow> is_node t x = is_node s x \<and> Next (the_node t x) = Next (the_node s x)) \<Longrightarrow>
     chain t p xs = chain s p xs"
  by (induction xs arbitrary: p) auto

lemma chain_nodes: "chain s p xs \<Longrightarrow> x \<in> set xs \<Longrightarrow> is_node s x"
  by (induction xs arbitrary: p) auto

lemma chain_unique: "chain s p xs \<Longrightarrow> chain s p ys \<Longrightarrow> xs = ys"
proof (induction xs arbitrary: p ys)
  case Nil
  then show ?case by (cases ys) auto
next
  case (Cons x xs)
  then show ?case by (cases ys) auto
qed

lemma chain_head: "chain s p xs \<Longrightarrow> p \<noteq> NULL \<Longrightarrow> \<exists>ys. xs = p # ys"
  by (cases xs) auto

lemma strncmp_name:
  assumes "name_ok n" "NUL \<notin> set Temp" "length Temp = Length (Name n)"
  shows "\<exists>v. strncmp (Some (VNodeString.Name (Name n))) (Some (Temp @ [NUL])) (length Temp) = Inr v \<and>
             (v = 0 \<longleftrightarrow> node_name n = Temp)"
  using strncmp_eq [of "length Temp" "VNodeString.Name (Name n)" "Temp @ [NUL]"] assms
  by (simp add: name_ok_def node_name_def)

lemma keyword_eq [simp]: "NUL \<notin> set w \<Longrightarrow> keyword w Temp = Inr (Temp = w)"
  using strncmp_eq [of "length w" "Temp @ [NUL]" "w @ [NUL]"] by (auto simp: keyword_def)

lemma node_name_length: "name_ok n \<Longrightarrow> length (node_name n) = Length (Name n)"
  by (simp add: name_ok_def node_name_def)

lemma find_child_chain:
  "chain s p xs \<Longrightarrow> (\<And>x. x \<in> set xs \<Longrightarrow> name_ok (the_node s x)) \<Longrightarrow> NUL \<notin> set Temp \<Longrightarrow>
     find_child Temp p s =
       Some (case find (\<lambda>x. node_name (the_node s x) = Temp) xs of
               None \<Rightarrow> Inl (Panic PANIC_NOT_FOUND) | Some x \<Rightarrow> Inr x)"
proof (induction xs arbitrary: p)
  case Nil
  then show ?case by (simp add: find_child.simps)
next
  case (Cons x xs)
  let ?n = "the_node s x"
  from Cons.prems have p: "p = x" "is_node s x" "x \<noteq> NULL" and ok: "name_ok ?n"
    by (auto simp: is_node_def)
  have rest: "find_child Temp (Next ?n) s =
       Some (case find (\<lambda>x. node_name (the_node s x) = Temp) xs of
               None \<Rightarrow> Inl (Panic PANIC_NOT_FOUND) | Some x \<Rightarrow> Inr x)"
    using Cons by simp
  show ?case
  proof (cases "length Temp = Length (Name ?n)")
    case True
    with strncmp_name [OF ok Cons.prems(3)] p rest show ?thesis
      by (auto simp: find_child.simps [of Temp x])
  next
    case False
    then have "node_name ?n \<noteq> Temp" using node_name_length [OF ok] by auto
    with False p rest show ?thesis by (simp add: find_child.simps [of Temp x])
  qed
qed

lemma last_sibling_chain: "chain s p (x # xs) \<Longrightarrow> last_sibling p s = Some (Inr (last (x # xs)))"
proof (induction xs arbitrary: p x)
  case Nil
  then show ?case by (simp add: last_sibling.simps)
next
  case (Cons y xs)
  then have "y \<noteq> NULL" "p = x" by auto
  with Cons show ?case by (simp add: last_sibling.simps [of x])
qed

section \<open>Paths as lists of components\<close>

text \<open>
  The specification: a path is split at every slash, empty segments vanish, a segment longer
  than the buffer is cut into pieces of 127, and the pieces are followed from left to right.
\<close>

fun segments :: "string \<Rightarrow> string list" where
  "segments [] = [[]]"
| "segments (c # cs) =
     (if c = CHR ''/'' then [] # segments cs
      else case segments cs of [] \<Rightarrow> [[c]] | h # t \<Rightarrow> (c # h) # t)"

function pieces :: "string \<Rightarrow> string list" where
  "pieces cs = (if cs = [] then [] else take 127 cs # pieces (drop 127 cs))"
  by pat_completeness auto
termination by (relation "measure length") auto

declare pieces.simps [simp del]

definition components :: "string \<Rightarrow> string list" where
  "components p = concat (map pieces (segments p))"

fun resolve :: "string list \<Rightarrow> addr \<Rightarrow> kernel \<Rightarrow> addr outcome" where
  "resolve [] cur s = Some (Inr cur)"
| "resolve (t # ts) cur s =
     obind (Some (PanicIfNull cur)) (\<lambda>_. obind (find_step t cur s) (\<lambda>found. resolve ts found s))"

lemma pieces_Nil [simp]: "pieces [] = []"
  by (simp add: pieces.simps)

lemma pieces_Cons: "cs \<noteq> [] \<Longrightarrow> pieces cs = take 127 cs # pieces (drop 127 cs)"
  by (subst pieces.simps) simp

lemma segments_not_Nil [simp]: "segments p \<noteq> []"
  by (induction p) (auto split: list.split)

lemma segments_append:
  "CHR ''/'' \<notin> set u \<Longrightarrow> segments (u @ p) = (u @ hd (segments p)) # tl (segments p)"
proof (induction u)
  case Nil
  then show ?case by simp
next
  case (Cons c u)
  then show ?case by auto
qed

lemma components_Nil [simp]: "components [] = []"
  by (simp add: components_def)

lemma components_slash [simp]: "components (CHR ''/'' # p) = components p"
  by (simp add: components_def)

lemma components_segment:
  assumes "CHR ''/'' \<notin> set u" "p = [] \<or> hd p = CHR ''/''"
  shows "components (u @ p) = pieces u @ components p"
proof (cases p)
  case Nil
  with assms(1) segments_append [of u "[]"] show ?thesis by (simp add: components_def)
next
  case (Cons c q)
  with assms(2) have "p = CHR ''/'' # q" by simp
  with assms(1) show ?thesis by (simp add: components_def segments_append)
qed

lemma components_token:
  assumes "p \<noteq> []" "hd p \<noteq> CHR ''/''" "t = take 127 (takeWhile (\<lambda>c. c \<noteq> CHR ''/'') p)"
  shows "t \<noteq> [] \<and> length t \<le> length p \<and> components p = t # components (drop (length t) p)"
proof -
  let ?u = "takeWhile (\<lambda>c. c \<noteq> CHR ''/'') p" and ?r = "dropWhile (\<lambda>c. c \<noteq> CHR ''/'') p"
  have u: "CHR ''/'' \<notin> set ?u" by (auto dest: set_takeWhileD)
  then have du: "CHR ''/'' \<notin> set (drop 127 ?u)" by (blast dest: in_set_dropD)
  have r: "?r = [] \<or> hd ?r = CHR ''/''" using hd_dropWhile by blast
  have ne: "?u \<noteq> []" using assms(1,2) by (cases p) auto
  have p: "p = ?u @ ?r" by simp
  have "components p = pieces ?u @ components ?r"
    by (subst p) (rule components_segment [OF u r])
  also have "\<dots> = t # (pieces (drop 127 ?u) @ components ?r)"
    using ne assms(3) by (simp add: pieces_Cons)
  also have "pieces (drop 127 ?u) @ components ?r = components (drop 127 ?u @ ?r)"
    by (simp add: components_segment [OF du r])
  also have "drop 127 ?u @ ?r = drop (length t) p"
    unfolding assms(3) by (subst (4) p) (simp add: min_def del: takeWhile_dropWhile_id)
  finally show ?thesis
    using ne assms(3) by (auto simp: length_takeWhile_le min.coboundedI1)
qed

lemma scan_component_closed:
  "Len \<le> length Path \<Longrightarrow> scan_component Path Len i Temp =
    Inr (Temp @ take (127 - length Temp)
          (takeWhile (\<lambda>c. c \<noteq> CHR ''/'') (drop (i + length Temp) (take Len Path))))"
proof (induction Path Len i Temp rule: scan_component.induct)
  case (1 Path Len i Temp)
  let ?k = "i + length Temp"
  show ?case
  proof (cases "?k < Len")
    case True
    with "1.prems" have split: "drop ?k (take Len Path) = Path ! ?k # drop (Suc ?k) (take Len Path)"
      using Cons_nth_drop_Suc [of ?k "take Len Path"] by simp
    show ?thesis
    proof (cases "Path ! ?k \<noteq> CHR ''/'' \<and> length Temp < 127")
      case go: True
      then have "127 - length Temp = Suc (126 - length Temp)" by linarith
      with True go "1" split show ?thesis
        by (simp add: scan_component.simps [of Path Len i Temp])
    next
      case False
      with True split "1.prems" show ?thesis by (auto simp: scan_component.simps [of Path Len i Temp])
    qed
  next
    case False
    then show ?thesis by (simp add: scan_component.simps [of Path Len i Temp])
  qed
qed

text \<open>After the last component, a slash that follows it checks the node it led to.\<close>

definition trailing_check :: "string \<Rightarrow> addr \<Rightarrow> addr outcome" where
  "trailing_check p x =
     (if p \<noteq> [] \<and> last p = CHR ''/'' then Some (rbind (PanicIfNull x) (\<lambda>_. Inr x)) else Some (Inr x))"

lemma obind_assoc [simp]: "obind (obind m f) g = obind m (\<lambda>x. obind (f x) g)"
  by (simp add: obind_def Option.bind_assoc) (auto simp: option.case_eq_if sum.case_eq_if
      intro!: arg_cong [where f = "Option.bind m"])

lemma components_empty: "components p = [] \<Longrightarrow> c \<in> set p \<Longrightarrow> c = CHR ''/''"
proof (induction p)
  case (Cons d p)
  have "d = CHR ''/''"
  proof (rule ccontr)
    assume "d \<noteq> CHR ''/''"
    with Cons.prems(1) show False using components_token [of "d # p"] by simp
  qed
  with Cons show ?case by auto
qed simp

lemma components_token_last:
  assumes "hd p \<noteq> CHR ''/''" "t = take 127 (takeWhile (\<lambda>c. c \<noteq> CHR ''/'') p)" "p \<noteq> []"
  shows "(drop (length t) p \<noteq> [] \<and> last (drop (length t) p) = CHR ''/'') =
         (p \<noteq> [] \<and> last p = CHR ''/'')"
proof (cases "drop (length t) p = []")
  case True
  then have "length p \<le> length t" by simp
  then have "length p \<le> length (takeWhile (\<lambda>c. c \<noteq> CHR ''/'') p)" unfolding assms(2) by simp
  then have "takeWhile (\<lambda>c. c \<noteq> CHR ''/'') p = p" by (subst takeWhile_eq_take) (rule take_all)
  then have "\<forall>c \<in> set p. c \<noteq> CHR ''/''" by (simp add: takeWhile_eq_all_conv)
  then have "last p \<noteq> CHR ''/''" using assms(3) by simp
  with True show ?thesis by simp
next
  case False
  then show ?thesis using assms(3) by (simp add: last_drop)
qed

lemma find_walk_resolve:
  "Len \<le> length Path \<Longrightarrow>
     find_walk Path Len i cur s =
       obind (resolve (components (drop i (take Len Path))) cur s) (trailing_check (drop i (take Len Path)))"
proof (induction "Len - i" arbitrary: i cur rule: less_induct)
  case less
  let ?p = "drop i (take Len Path)"
  show ?case
  proof (cases "i < Len")
    case False
    then show ?thesis by (simp add: find_walk.simps [of Path Len i] trailing_check_def)
  next
    case True
    with less.prems have split: "?p = Path ! i # drop (Suc i) (take Len Path)"
      using Cons_nth_drop_Suc [of i "take Len Path"] by simp
    show ?thesis
    proof (cases "cur = NULL")
      case null: True
      show ?thesis
      proof (cases "components ?p")
        case (Cons t ts)
        with True null show ?thesis by (simp add: find_walk.simps [of Path Len i])
      next
        case Nil
        from split have ne: "?p \<noteq> []" by simp
        with Nil have "last ?p = CHR ''/''" using components_empty last_in_set by blast
        with True null Nil split show ?thesis
          by (simp add: find_walk.simps [of Path Len i] trailing_check_def)
      qed
    next
      case nonnull: False
      show ?thesis
      proof (cases "Path ! i = CHR ''/''")
        case slash: True
        have "find_walk Path Len (Suc i) cur s = obind (resolve (components (drop (Suc i) (take Len Path))) cur s)
            (trailing_check (drop (Suc i) (take Len Path)))"
          using less True by simp
        moreover have "obind (resolve (components (drop (Suc i) (take Len Path))) cur s)
            (trailing_check (drop (Suc i) (take Len Path))) =
          obind (resolve (components ?p) cur s) (trailing_check ?p)"
          using slash nonnull unfolding split
          by (cases "drop (Suc i) (take Len Path)") (simp_all add: trailing_check_def [abs_def])
        ultimately show ?thesis
          using True nonnull slash less.prems by (simp add: find_walk.simps [of Path Len i])
      next
        case False
        define t where "t = take 127 (takeWhile (\<lambda>c. c \<noteq> CHR ''/'') ?p)"
        have t: "t \<noteq> []" "components ?p = t # components (drop (length t) ?p)"
          using components_token [OF _ _ t_def] split False by auto
        have scan: "scan_component Path Len i [] = Inr t"
          using scan_component_closed [OF less.prems, of i "[]"] by (simp add: t_def)
        have "Len - (i + length t) < Len - i" using t(1) True by (cases t) simp_all
        from less.hyps [OF this less.prems] have walk: "find_walk Path Len (i + length t) found s =
          obind (resolve (components (drop (length t) ?p)) found s) (trailing_check (drop (length t) ?p))" for found
          by (simp add: add.commute)
        have "trailing_check (drop (length t) ?p) = trailing_check ?p"
          using components_token_last [OF _ t_def] split False
          by (simp add: trailing_check_def [abs_def])
        with scan walk show ?thesis
          using True nonnull False less.prems t(1) unfolding t(2)
          by (simp add: find_walk.simps [of Path Len i])
      qed
    qed
  qed
qed

section \<open>Trees of nodes\<close>

text \<open>The abstract tree, and when the heap represents it.\<close>

datatype vtree = VTree (root_of: addr) (children: "vtree list")

fun nodes_of :: "vtree \<Rightarrow> addr list" where
  "nodes_of (VTree a ts) = a # concat (map nodes_of ts)"

fun repr :: "kernel \<Rightarrow> vtree \<Rightarrow> bool" where
  "repr s (VTree a ts) \<longleftrightarrow>
     is_node s a \<and> chain s (FirstChild (the_node s a)) (map root_of ts) \<and> (\<forall>t \<in> set ts. repr s t)"

text \<open>Looking up a list of names in the tree.\<close>

fun lookup :: "kernel \<Rightarrow> vtree \<Rightarrow> string list \<Rightarrow> vtree option" where
  "lookup s t [] = Some t"
| "lookup s (VTree a ts) (w # ws) =
     (case find (\<lambda>t. node_name (the_node s (root_of t)) = w) ts of
        None \<Rightarrow> None
      | Some t \<Rightarrow> lookup s t ws)"

definition special_words :: "string list" where
  "special_words = [''.'', ''..'', ''~parent'', ''~self'', ''~next'', ''~previous'', ''~first'', ''~last'']"

definition plain_word :: "string \<Rightarrow> bool" where
  "plain_word w \<longleftrightarrow> w \<notin> set special_words \<and> NUL \<notin> set w"

definition regular :: "VNode \<Rightarrow> bool" where
  "regular n \<longleftrightarrow> name_ok n \<and> \<not> has_flag (Flags n) VFS_ONDISK"

lemma root_in_nodes_of [simp]: "root_of t \<in> set (nodes_of t)"
  by (cases t) simp

lemma repr_root: "repr s t \<Longrightarrow> is_node s (root_of t)"
  by (cases t) simp

lemma repr_nodes: "repr s t \<Longrightarrow> a \<in> set (nodes_of t) \<Longrightarrow> is_node s a"
  by (induction t) auto

lemma repr_cong:
  "(\<And>a. a \<in> set (nodes_of t) \<Longrightarrow> nodes s' a = nodes s a) \<Longrightarrow> repr s' t = repr s t"
proof (induction t)
  case (VTree a ts)
  have sub: "repr s' t = repr s t" if "t \<in> set ts" for t
  proof (rule VTree.IH [OF that])
    fix b assume "b \<in> set (nodes_of t)"
    with that VTree.prems [of b] show "nodes s' b = nodes s b" by auto
  qed
  have "nodes s' x = nodes s x" if "x \<in> set (map root_of ts)" for x
    using VTree.prems that by (auto intro: root_in_nodes_of)
  then have "chain s' p (map root_of ts) = chain s p (map root_of ts)" for p
    by (intro chain_cong) (simp add: is_node_def)
  with sub VTree.prems [of a] show ?case by (simp add: is_node_def)
qed

lemma find_map_root:
  "find (\<lambda>x. node_name (the_node s x) = w) (map root_of ts) =
     map_option root_of (find (\<lambda>t. node_name (the_node s (root_of t)) = w) ts)"
  by (induction ts) auto

lemma find_Some_in: "find P xs = Some x \<Longrightarrow> x \<in> set xs \<and> P x"
  by (induction xs) (auto split: if_splits)

lemma find_step_plain:
  assumes "plain_word w" "is_node s a" "\<not> has_flag (Flags (the_node s a)) VFS_ONDISK"
  shows "find_step w a s = find_child w (FirstChild (the_node s a)) s"
  using assms by (simp add: find_step_def plain_word_def special_words_def)

lemma resolve_tree:
  "repr s t \<Longrightarrow> (\<And>a. a \<in> set (nodes_of t) \<Longrightarrow> regular (the_node s a)) \<Longrightarrow> list_all plain_word ws \<Longrightarrow>
     resolve ws (root_of t) s =
       Some (case lookup s t ws of None \<Rightarrow> Inl (Panic PANIC_NOT_FOUND) | Some u \<Rightarrow> Inr (root_of u))"
proof (induction ws arbitrary: t)
  case Nil
  then show ?case by simp
next
  case (Cons w ws)
  obtain a ts where t: "t = VTree a ts" by (cases t)
  with Cons.prems have a: "is_node s a" "a \<noteq> NULL" "regular (the_node s a)"
    and ch: "chain s (FirstChild (the_node s a)) (map root_of ts)"
    by (auto simp: is_node_def)
  have names: "name_ok (the_node s x)" if "x \<in> set (map root_of ts)" for x
    using that Cons.prems(2) [of x] t by (auto simp: regular_def intro: root_in_nodes_of)
  have step: "find_step w a s = Some (case find (\<lambda>t. node_name (the_node s (root_of t)) = w) ts of
      None \<Rightarrow> Inl (Panic PANIC_NOT_FOUND) | Some u \<Rightarrow> Inr (root_of u))"
    using find_step_plain [of w s a] find_child_chain [OF ch names] a Cons.prems(3)
    by (auto simp: regular_def plain_word_def find_map_root split: option.split)
  show ?case
  proof (cases "find (\<lambda>t. node_name (the_node s (root_of t)) = w) ts")
    case None
    with step a t show ?thesis by simp
  next
    case (Some u)
    then have u: "u \<in> set ts" using find_Some_in by fast
    with t Cons.prems have "repr s u" "\<And>b. b \<in> set (nodes_of u) \<Longrightarrow> regular (the_node s b)" by auto
    with Cons.IH [of u] Cons.prems(3) Some step a t show ?thesis by simp
  qed
qed

lemma lookup_repr: "lookup s t ws = Some u \<Longrightarrow> repr s t \<Longrightarrow> repr s u \<and> set (nodes_of u) \<subseteq> set (nodes_of t)"
proof (induction s t ws rule: lookup.induct)
  case (2 s a ts w ws)
  then show ?case
    by (auto split: option.splits dest!: find_Some_in)
qed simp

text \<open>The tree below the node a path starts from.\<close>

definition start_of :: "string \<Rightarrow> addr \<Rightarrow> kernel \<Rightarrow> addr" where
  "start_of p Base s = (if p \<noteq> [] \<and> hd p = CHR ''/'' then RootVNode s else Base)"

definition follow_link :: "kernel \<Rightarrow> addr \<Rightarrow> addr result" where
  "follow_link s x =
     rbind (node x s) (\<lambda>n. Inr (if has_flag (Flags n) VFS_LINK then Link n else x))"

lemma follow_link_obind [simp]:
  "obind (Some (node x s)) (\<lambda>n. if has_flag (Flags n) VFS_LINK then Some (Inr (Link n)) else Some (Inr x)) =
     Some (follow_link s x)"
  by (cases "node x s") (simp_all add: follow_link_def)

lemma find_resolve:
  assumes "Base \<noteq> NULL" "Root s \<noteq> NULL" "Len \<le> length Path" "p = take Len Path"
  shows "DefaultRelativeFind Base (Some Path) Len s =
     obind (obind (resolve (components p) (start_of p Base s) s) (trailing_check p))
       (\<lambda>x. Some (follow_link s x))"
proof (cases "p \<noteq> [] \<and> hd p = CHR ''/''")
  case True
  then obtain q where p: "p = CHR ''/'' # q" by (cases p) auto
  with assms(3,4) have len: "0 < Len" "cget Path 0 = Inr CHR ''/''" and q: "drop 1 (take Len Path) = q"
    by (cases Path; cases Len; simp)+
  have "obind (resolve (components q) (Root s) s) (trailing_check q) =
        obind (resolve (components p) (Root s) s) (trailing_check p)"
    using assms(2) p by (cases q) (simp_all add: trailing_check_def [abs_def])
  with find_walk_resolve [OF assms(3), of 1 "Root s" s] q
  have "find_walk Path Len 1 (Root s) s = obind (resolve (components p) (Root s) s) (trailing_check p)"
    by simp
  with len True assms(1) show ?thesis
    by (simp add: DefaultRelativeFind_def start_of_def RootVNode_def del: obind_assoc)
next
  case False
  then have "(if 0 < Len then rbind (cget Path 0) (\<lambda>c. Inr (c = CHR ''/'')) else Inr False) = Inr False"
    using assms(3,4) by (cases Path; cases Len) auto
  moreover have "find_walk Path Len 0 Base s = obind (resolve (components p) Base s) (trailing_check p)"
    using find_walk_resolve [OF assms(3), of 0 Base s] assms(4) by simp
  ultimately show ?thesis
    using False assms(1) by (auto simp add: DefaultRelativeFind_def start_of_def simp del: obind_assoc)
qed

text \<open>A kernel state with a root directory and no other node, for the witnesses.\<close>

definition root_node :: VNode where
  "root_node = zero_node\<lparr>Name := \<lparr>VNodeString.Name = ''root'' @ [NUL], Length = 4\<rparr>\<rparr>"

definition root_only :: kernel where
  "root_only = pgalloc.extend fresh_pages
     \<lparr>nodes = [0x1000 \<mapsto> root_node], Root = 0x1000, CurrentProc = NULL, Proc = NULL,
      SelfProc = NULL, ScratchProc = 0x3000, Ticks = 0, Current = 0, ProgramIdentifier = 0,
      rng_state = 0xDEADBEEF, counter = 0, tx = [], rx = []\<rparr>"

lemma root_only_simps [simp]:
  "nodes root_only = [0x1000 \<mapsto> root_node]" "Root root_only = 0x1000"
  "is_node root_only p \<longleftrightarrow> p = 0x1000"
  by (auto simp: root_only_def pgalloc.defs is_node_def)

text \<open>Path lookup is the left-to-right resolution of the path's components, from the root
  for an absolute path, for every path, heap and node: components are cut after 127
  characters, repeated slashes do not matter, and only the node reached last has its link
  followed.\<close>

theorem DefaultRelativeFind_resolve:
  assumes "Base \<noteq> NULL" "Root s \<noteq> NULL" "Len \<le> length Path" "p = take Len Path"
  shows "DefaultRelativeFind Base (Some Path) Len s =
     obind (obind (resolve (components p) (start_of p Base s) s) (trailing_check p))
       (\<lambda>x. Some (follow_link s x))"
  using assms by (rule find_resolve)

theorem DefaultRelativeFind_resolve_witness:
  "DefaultRelativeFind 0x1000 (Some ''/./'') 3 root_only = Some (Inr 0x1000)"
proof -
  have "components ''/./'' = [''.'']"
    by (simp add: components_def pieces_Cons)
  then show ?thesis
    using DefaultRelativeFind_resolve [where Base = "0x1000" and s = root_only and Len = 3 and Path = "''/./''"]
    by (simp add: start_of_def RootVNode_def find_step_def trailing_check_def follow_link_def
      root_node_def zero_node_def has_flag_def)
qed

lemma find_tree:
  assumes "repr s t" "root_of t = start_of p Base s" "Base \<noteq> NULL" "Root s \<noteq> NULL"
    and "Len \<le> length Path" "p = take Len Path"
    and "\<forall>a \<in> set (nodes_of t). regular (the_node s a)" "list_all plain_word (components p)"
  shows "DefaultRelativeFind Base (Some Path) Len s =
     Some (case lookup s t (components p) of
             None \<Rightarrow> Inl (Panic PANIC_NOT_FOUND)
           | Some u \<Rightarrow> Inr (if has_flag (Flags (the_node s (root_of u))) VFS_LINK
                           then Link (the_node s (root_of u)) else root_of u))"
proof -
  have res: "resolve (components p) (start_of p Base s) s =
      Some (case lookup s t (components p) of None \<Rightarrow> Inl (Panic PANIC_NOT_FOUND) | Some u \<Rightarrow> Inr (root_of u))"
    using resolve_tree [of s t "components p"] assms by simp
  show ?thesis
  proof (cases "lookup s t (components p)")
    case None
    with res find_resolve [OF assms(3-6)] show ?thesis by simp
  next
    case (Some u)
    with lookup_repr [OF _ assms(1)] have u: "is_node s (root_of u)" by (simp add: repr_root)
    then have "root_of u \<noteq> NULL" by (simp add: is_node_def)
    then have "trailing_check p (root_of u) = Some (Inr (root_of u))"
      by (simp add: trailing_check_def)
    with res Some u find_resolve [OF assms(3-6)] show ?thesis
      by (simp add: follow_link_def)
  qed
qed

text \<open>C3. In a heap that represents a tree of regular nodes, looking up plain names finds
  exactly the node the tree has under those names and panics with
  \<^verbatim>\<open>PANIC_NOT_FOUND\<close> when there is none; the walk always returns.\<close>

theorem DefaultRelativeFind_tree:
  assumes "repr s t" "root_of t = start_of p Base s" "Base \<noteq> NULL" "Root s \<noteq> NULL"
    and "Len \<le> length Path" "p = take Len Path"
    and "\<forall>a \<in> set (nodes_of t). regular (the_node s a)" "list_all plain_word (components p)"
  shows "DefaultRelativeFind Base (Some Path) Len s =
     Some (case lookup s t (components p) of
             None \<Rightarrow> Inl (Panic PANIC_NOT_FOUND)
           | Some u \<Rightarrow> Inr (if has_flag (Flags (the_node s (root_of u))) VFS_LINK
                           then Link (the_node s (root_of u)) else root_of u))"
  using assms by (rule find_tree)

theorem DefaultRelativeFind_tree_witness:
  "DefaultRelativeFind 0x1000 (Some ''dev'') 3 root_only = Some (Inl (Panic PANIC_NOT_FOUND))"
proof -
  have "components ''dev'' = [''dev'']"
    by (simp add: components_def pieces_Cons)
  moreover have "repr root_only (VTree 0x1000 [])"
    by (simp add: root_node_def zero_node_def)
  ultimately show ?thesis
    using DefaultRelativeFind_tree [where s = root_only and t = "VTree 0x1000 []" and Base = "0x1000"
      and Len = 3 and Path = "''dev''"]
    by (simp add: start_of_def plain_word_def special_words_def regular_def name_ok_def
      root_node_def zero_node_def has_flag_def)
qed

section \<open>Registering and unregistering\<close>

text \<open>The back links of a chain: \<open>prev\<close> is what its first node points back to.\<close>

fun linked :: "kernel \<Rightarrow> addr \<Rightarrow> addr list \<Rightarrow> bool" where
  "linked s prev [] \<longleftrightarrow> True"
| "linked s prev (x # xs) \<longleftrightarrow> Previous (the_node s x) = prev \<and> linked s x xs"

lemma linked_cong:
  "(\<And>x. x \<in> set xs \<Longrightarrow> Previous (the_node t x) = Previous (the_node s x)) \<Longrightarrow>
     linked t prev xs = linked s prev xs"
  by (induction xs arbitrary: prev) auto

text \<open>What changes in the heap, in one equation.\<close>

lemma RegisterChildVNode_Inr:
  assumes "is_node s P" "is_node s c" "P \<noteq> c" "h = FirstChild (the_node s P)" "h \<notin> {P, c}"
    and "h \<noteq> NULL \<longrightarrow> is_node s h"
  shows "RegisterChildVNode P c s = Inr (s\<lparr>nodes :=
     ((if h \<noteq> NULL then (nodes s)(h \<mapsto> (the_node s h)\<lparr>Previous := c\<rparr>) else nodes s)
        (c \<mapsto> (the_node s c)\<lparr>Next := h\<rparr>, P \<mapsto> (the_node s P)\<lparr>FirstChild := c\<rparr>))\<rparr>)"
proof -
  have "P \<noteq> NULL" "c \<noteq> NULL" using assms by (auto simp: is_node_def)
  then show ?thesis
    using assms by (cases "h = NULL") (auto simp: RegisterChildVNode_def)
qed

lemma chain_unchanged:
  "(\<And>x. x \<in> set xs \<Longrightarrow> nodes t x \<noteq> None \<and> Next (the_node t x) = Next (the_node s x)) \<Longrightarrow>
     chain s p xs \<Longrightarrow> chain t p xs"
  by (induction xs arbitrary: p) (auto simp: is_node_def)

lemma RegisterChildVNode_front:
  assumes "is_node s P" "is_node s c" "P \<noteq> c" "P \<notin> set xs" "c \<notin> set xs" "distinct xs"
    and "chain s (FirstChild (the_node s P)) xs" "linked s q xs"
  shows "\<exists>s'. RegisterChildVNode P c s = Inr s' \<and>
     chain s' (FirstChild (the_node s' P)) (c # xs) \<and>
     linked s' (Previous (the_node s c)) (c # xs) \<and>
     nodes s' c = Some ((the_node s c)\<lparr>Next := FirstChild (the_node s P)\<rparr>) \<and>
     nodes s' P = Some ((the_node s P)\<lparr>FirstChild := c\<rparr>) \<and>
     (\<forall>x. x \<notin> {P, c} \<longrightarrow> nodes s' x = (if x \<noteq> NULL \<and> x = FirstChild (the_node s P)
        then Some ((the_node s x)\<lparr>Previous := c\<rparr>) else nodes s x)) \<and>
     Root s' = Root s \<and> pgalloc.truncate s' = pgalloc.truncate s"
proof -
  let ?h = "FirstChild (the_node s P)"
  have h: "?h \<notin> {P, c}"
  proof (cases xs)
    case Nil
    with assms(1,2,7) show ?thesis by (auto simp: is_node_def)
  next
    case (Cons x ys)
    with assms(4,5,7) show ?thesis by auto
  qed
  have "?h \<noteq> NULL \<longrightarrow> is_node s ?h"
    using assms(7) by (cases xs) auto
  note reg = RegisterChildVNode_Inr [OF assms(1-3) refl h this]
  obtain s' where s': "RegisterChildVNode P c s = Inr s'" using reg by blast
  have nodes': "nodes s' = (if ?h \<noteq> NULL then (nodes s)(?h \<mapsto> (the_node s ?h)\<lparr>Previous := c\<rparr>) else nodes s)
      (c \<mapsto> (the_node s c)\<lparr>Next := ?h\<rparr>, P \<mapsto> (the_node s P)\<lparr>FirstChild := c\<rparr>)"
    and rest: "Root s' = Root s" "pgalloc.truncate s' = pgalloc.truncate s"
    using reg unfolding s' by (auto simp: pgalloc.defs)
  have c: "nodes s' c = Some ((the_node s c)\<lparr>Next := ?h\<rparr>)" and P: "nodes s' P = Some ((the_node s P)\<lparr>FirstChild := c\<rparr>)"
    and other: "\<And>x. x \<notin> {P, c} \<Longrightarrow> nodes s' x = (if x \<noteq> NULL \<and> x = ?h
        then Some ((the_node s x)\<lparr>Previous := c\<rparr>) else nodes s x)"
    using assms(3) by (auto simp: nodes')
  have "chain s' ?h xs"
  proof (rule chain_unchanged [OF _ assms(7)])
    fix x assume x: "x \<in> set xs"
    then have "x \<notin> {P, c}" using assms(4,5) by auto
    with other [OF this] chain_nodes [OF assms(7) x]
    show "nodes s' x \<noteq> None \<and> Next (the_node s' x) = Next (the_node s x)"
      by (auto simp: is_node_def)
  qed
  moreover have "is_node s' c" using assms(2) c by (auto simp: is_node_def)
  ultimately have ch: "chain s' (FirstChild (the_node s' P)) (c # xs)" using P c by simp
  have "linked s' c xs"
  proof (cases xs)
    case (Cons x ys)
    have "x = ?h" "x \<noteq> NULL" "x \<notin> {P, c}" using assms(4,5,7) Cons by (auto simp: is_node_def)
    then have "Previous (the_node s' x) = c" using other [of x] by simp
    moreover have "linked s' x ys"
    proof -
      have "Previous (the_node s' y) = Previous (the_node s y)" if "y \<in> set ys" for y
      proof -
        have "y \<notin> {P, c}" "y \<noteq> ?h" using that assms(4,5,6) Cons \<open>x = ?h\<close> by auto
        with other [of y] show ?thesis by simp
      qed
      then show ?thesis using assms(8) Cons linked_cong [of ys s' s x] by simp
    qed
    ultimately show ?thesis using Cons by simp
  qed simp
  then have "linked s' (Previous (the_node s c)) (c # xs)" using c by simp
  with s' ch c P other rest show ?thesis by auto
qed

section \<open>A directory as an interface\<close>

text \<open>
  What the clients of a directory rely on: entering a fresh entry in front succeeds and keeps
  the names, and looking a name up finds the newest entry that has it.
\<close>

locale directory =
  fixes holds :: "'s \<Rightarrow> 'e list \<Rightarrow> bool"
    and fresh :: "'s \<Rightarrow> 'e \<Rightarrow> 'e list \<Rightarrow> bool"
    and enter :: "'e \<Rightarrow> 's \<Rightarrow> 's result"
    and name_of :: "'s \<Rightarrow> 'e \<Rightarrow> 'n"
    and key :: "'n \<Rightarrow> bool"
    and look :: "'n \<Rightarrow> 's \<Rightarrow> 'e outcome"
  assumes enter_ok: "holds s xs \<Longrightarrow> fresh s e xs \<Longrightarrow>
      \<exists>s'. enter e s = Inr s' \<and> holds s' (e # xs) \<and>
        (\<forall>x. name_of s' x = name_of s x) \<and>
        (\<forall>x. x \<noteq> e \<longrightarrow> fresh s x xs \<longrightarrow> fresh s' x (e # xs))"
    and look_ok: "holds s xs \<Longrightarrow> key n \<Longrightarrow>
      look n s = Some (case find (\<lambda>x. name_of s x = n) xs of
        None \<Rightarrow> Inl (Panic PANIC_NOT_FOUND) | Some x \<Rightarrow> Inr x)"
begin

fun enter_all :: "'e list \<Rightarrow> 's \<Rightarrow> 's result" where
  "enter_all [] s = Inr s"
| "enter_all (e # es) s = rbind (enter e s) (enter_all es)"

lemma look_enter:
  assumes "holds s xs" "fresh s e xs" "enter e s = Inr s'" "key n"
  shows "look n s' = (if name_of s e = n then Some (Inr e) else look n s)"
proof -
  from enter_ok [OF assms(1,2)] assms(3)
  have "holds s' (e # xs)" "\<And>x. name_of s' x = name_of s x" by auto
  with look_ok [OF this(1) assms(4)] look_ok [OF assms(1,4)] show ?thesis by simp
qed

lemma enter_all_ok:
  "holds s xs \<Longrightarrow> distinct es \<Longrightarrow> (\<And>e. e \<in> set es \<Longrightarrow> fresh s e xs) \<Longrightarrow>
     \<exists>s'. enter_all es s = Inr s' \<and> holds s' (rev es @ xs) \<and> (\<forall>x. name_of s' x = name_of s x)"
proof (induction es arbitrary: s xs)
  case (Cons e es)
  from enter_ok [OF Cons.prems(1), of e] Cons.prems(3)
  obtain s1 where s1: "enter e s = Inr s1" "holds s1 (e # xs)" "\<forall>x. name_of s1 x = name_of s x"
    "\<forall>x. x \<noteq> e \<longrightarrow> fresh s x xs \<longrightarrow> fresh s1 x (e # xs)" by auto
  have "fresh s1 x (e # xs)" if "x \<in> set es" for x
  proof -
    have "x \<noteq> e" using that Cons.prems(2) by auto
    with s1(4) Cons.prems(3) that show ?thesis by simp
  qed
  with Cons.IH [of s1 "e # xs"] Cons.prems(2) s1 show ?case by auto
qed simp

lemma look_enter_all:
  assumes "holds s []" "distinct es" "\<And>e. e \<in> set es \<Longrightarrow> fresh s e []" "key n"
  shows "\<exists>s'. enter_all es s = Inr s' \<and>
     look n s' = Some (case find (\<lambda>x. name_of s x = n) (rev es) of
        None \<Rightarrow> Inl (Panic PANIC_NOT_FOUND) | Some x \<Rightarrow> Inr x)"
proof -
  from enter_all_ok [OF assms(1-3)]
  obtain s' where "enter_all es s = Inr s'" "holds s' (rev es)" "\<forall>x. name_of s' x = name_of s x" by auto
  with look_ok [OF this(2) assms(4)] show ?thesis by simp
qed

end

definition dir_at :: "addr \<Rightarrow> kernel \<Rightarrow> addr list \<Rightarrow> bool" where
  "dir_at P s xs \<longleftrightarrow> is_node s P \<and> \<not> has_flag (Flags (the_node s P)) VFS_ONDISK \<and>
     P \<notin> set xs \<and> distinct xs \<and> chain s (FirstChild (the_node s P)) xs \<and> linked s NULL xs \<and>
     (\<forall>x \<in> set xs. name_ok (the_node s x))"

definition fresh_for :: "addr \<Rightarrow> kernel \<Rightarrow> addr \<Rightarrow> addr list \<Rightarrow> bool" where
  "fresh_for P s e xs \<longleftrightarrow> is_node s e \<and> e \<noteq> P \<and> e \<notin> set xs \<and>
     Previous (the_node s e) = NULL \<and> name_ok (the_node s e)"

lemma name_ok_frame [simp]:
  "name_ok (n\<lparr>Next := q\<rparr>) = name_ok n" "name_ok (n\<lparr>Previous := q\<rparr>) = name_ok n"
  "name_ok (n\<lparr>FirstChild := q\<rparr>) = name_ok n" "name_ok (n\<lparr>Flags := f\<rparr>) = name_ok n"
  "node_name (n\<lparr>Next := q\<rparr>) = node_name n" "node_name (n\<lparr>Previous := q\<rparr>) = node_name n"
  "node_name (n\<lparr>FirstChild := q\<rparr>) = node_name n" "node_name (n\<lparr>Flags := f\<rparr>) = node_name n"
  by (simp_all add: name_ok_def node_name_def)

lemma RegisterChildVNode_dir:
  assumes "dir_at P s xs" "fresh_for P s e xs"
  shows "\<exists>s'. RegisterChildVNode P e s = Inr s' \<and> dir_at P s' (e # xs) \<and>
     (\<forall>x. node_name (the_node s' x) = node_name (the_node s x)) \<and>
     (\<forall>x. x \<noteq> e \<longrightarrow> fresh_for P s x xs \<longrightarrow> fresh_for P s' x (e # xs)) \<and>
     Root s' = Root s \<and> pgalloc.truncate s' = pgalloc.truncate s"
proof -
  let ?h = "FirstChild (the_node s P)"
  from assms have ok: "is_node s P" "is_node s e" "P \<noteq> e" "P \<notin> set xs" "e \<notin> set xs" "distinct xs"
    "chain s ?h xs" "linked s NULL xs"
    by (auto simp: dir_at_def fresh_for_def)
  from RegisterChildVNode_front [OF ok] obtain s' where s': "RegisterChildVNode P e s = Inr s'"
    and ch: "chain s' (FirstChild (the_node s' P)) (e # xs)"
    and links: "linked s' (Previous (the_node s e)) (e # xs)"
    and e: "nodes s' e = Some ((the_node s e)\<lparr>Next := ?h\<rparr>)"
    and P: "nodes s' P = Some ((the_node s P)\<lparr>FirstChild := e\<rparr>)"
    and all: "\<forall>x. x \<notin> {P, e} \<longrightarrow> nodes s' x = (if x \<noteq> NULL \<and> x = ?h
        then Some ((the_node s x)\<lparr>Previous := e\<rparr>) else nodes s x)"
    and rest: "Root s' = Root s" "pgalloc.truncate s' = pgalloc.truncate s"
    by blast
  note other = all [rule_format]
  have names: "node_name (the_node s' x) = node_name (the_node s x) \<and>
      name_ok (the_node s' x) = name_ok (the_node s x)" for x
    using e P other [of x] by (cases "x \<in> {P, e}") auto
  have hx: "?h = NULL \<or> ?h \<in> set xs" using ok(7) by (cases xs) auto
  have "dir_at P s' (e # xs)"
    using assms ok ch links P names by (auto simp: dir_at_def fresh_for_def is_node_def)
  moreover have "fresh_for P s' x (e # xs)" if "x \<noteq> e" "fresh_for P s x xs" for x
    using that hx other [of x] names [of x] by (auto simp: fresh_for_def is_node_def)
  ultimately show ?thesis using s' names rest by blast
qed

interpretation child_dir: directory "dir_at P" "fresh_for P" "RegisterChildVNode P"
  "\<lambda>s x. node_name (the_node s x)" plain_word "\<lambda>w. find_step w P" for P
proof
  fix s xs e assume "dir_at P s xs" "fresh_for P s e xs"
  from RegisterChildVNode_dir [OF this]
  show "\<exists>s'. RegisterChildVNode P e s = Inr s' \<and> dir_at P s' (e # xs) \<and>
     (\<forall>x. node_name (the_node s' x) = node_name (the_node s x)) \<and>
     (\<forall>x. x \<noteq> e \<longrightarrow> fresh_for P s x xs \<longrightarrow> fresh_for P s' x (e # xs))" by blast
next
  fix s xs n assume "dir_at P s xs" "plain_word n"
  then show "find_step n P s = Some (case find (\<lambda>x. node_name (the_node s x) = n) xs of
        None \<Rightarrow> Inl (Panic PANIC_NOT_FOUND) | Some x \<Rightarrow> Inr x)"
    using find_step_plain [of n s P] find_child_chain [of s _ xs n]
    by (simp add: dir_at_def plain_word_def)
qed

definition two_nodes :: kernel where
  "two_nodes = root_only\<lparr>nodes := [0x1000 \<mapsto> root_node, 0x2000 \<mapsto> root_node]\<rparr>"

lemma two_nodes_dir: "dir_at 0x1000 two_nodes []" "fresh_for 0x1000 two_nodes 0x2000 []"
  by (simp_all add: two_nodes_def dir_at_def fresh_for_def is_node_def root_node_def zero_node_def
    has_flag_def name_ok_def)

lemma components_word:
  assumes "w \<noteq> []" "CHR ''/'' \<notin> set w" "length w \<le> 127"
  shows "components w = [w]"
  using components_segment [of w "[]"] assms by (simp add: pieces_Cons)

text \<open>C11. Directories behave as an association list: registering a fresh child succeeds,
  keeps the children a doubly linked list with the new node in front, and afterwards the
  child's name finds the child while every other plain name finds what it found before.\<close>

theorem RegisterChildVNode_lookup:
  assumes "dir_at P s xs" "fresh_for P s c xs" "plain_word w"
  shows "\<exists>s'. RegisterChildVNode P c s = Inr s' \<and> dir_at P s' (c # xs) \<and>
     find_step w P s' =
       (if node_name (the_node s c) = w then Some (Inr c) else find_step w P s)"
  using RegisterChildVNode_dir [OF assms(1,2)] child_dir.look_enter [OF assms(1,2) _ assms(3)] by blast

theorem RegisterChildVNode_lookup_witness:
  "\<exists>s'. RegisterChildVNode 0x1000 0x2000 two_nodes = Inr s' \<and>
     find_step ''root'' 0x1000 s' = Some (Inr 0x2000)"
  using RegisterChildVNode_lookup [OF two_nodes_dir, of "''root''"]
  by (auto simp: plain_word_def special_words_def two_nodes_def node_name_def root_node_def)

text \<open>No lookup leaves a registered child upwards: its \<^verbatim>\<open>Parent\<close> is still null, so
  \<^verbatim>\<open>".."\<close> from it ends in an access through the null pointer.\<close>

theorem parent_of_registered_child:
  assumes "dir_at P s xs" "fresh_for P s c xs" "Parent (the_node s c) = NULL" "c \<noteq> Root s" "Root s \<noteq> NULL"
  shows "\<exists>s'. RegisterChildVNode P c s = Inr s' \<and>
     DefaultRelativeFind c (Some ''..'') 2 s' = Some (Inl Fault) \<and>
     DefaultRelativeFind c (Some ''../x'') 4 s' =
       Some (Inl (Panic PANIC_NULL_POINTER_DEREFERENCE))"
proof -
  from assms(1,2) have ok: "is_node s P" "is_node s c" "P \<noteq> c" "P \<notin> set xs" "c \<notin> set xs" "distinct xs"
    "chain s (FirstChild (the_node s P)) xs" "linked s NULL xs"
    by (auto simp: dir_at_def fresh_for_def)
  from RegisterChildVNode_front [OF ok] obtain s' where s': "RegisterChildVNode P c s = Inr s'"
    and c: "nodes s' c = Some ((the_node s c)\<lparr>Next := FirstChild (the_node s P)\<rparr>)"
    and root: "Root s' = Root s" by blast
  have cn: "c \<noteq> NULL" using ok(2) by (auto simp: is_node_def)
  with c assms(3,4) root have up: "find_step ''..'' c s' = Some (Inr NULL)"
    by (simp add: find_step_def RootVNode_def is_node_def)
  have "components ''..'' = [''..'']" "components ''../x'' = [''..'', ''x'']"
    by (simp_all add: components_def pieces_Cons)
  then have "DefaultRelativeFind c (Some ''..'') 2 s' = Some (Inl Fault)"
    "DefaultRelativeFind c (Some ''../x'') 4 s' = Some (Inl (Panic PANIC_NULL_POINTER_DEREFERENCE))"
    using cn up root assms(5) find_resolve [of c s' 2 "''..''"] find_resolve [of c s' 4 "''../x''"]
    by (simp_all add: start_of_def trailing_check_def follow_link_def)
  with s' show ?thesis by blast
qed

theorem parent_of_registered_child_witness:
  "\<exists>s'. RegisterChildVNode 0x1000 0x2000 two_nodes = Inr s' \<and>
     DefaultRelativeFind 0x2000 (Some ''..'') 2 s' = Some (Inl Fault)"
  using parent_of_registered_child [OF two_nodes_dir]
  by (auto simp: two_nodes_def root_node_def zero_node_def)

lemma UnregisterVNode_Inr:
  assumes "is_node s n" "Parent (the_node s n) = NULL"
    and "p = Previous (the_node s n)" "q = Next (the_node s n)"
    and "p \<noteq> NULL \<longrightarrow> is_node s p" "q \<noteq> NULL \<longrightarrow> is_node s q" "p \<noteq> n" "q \<noteq> n" "p = q \<longrightarrow> p = NULL"
  shows "UnregisterVNode n s = Inr (s\<lparr>nodes :=
     (\<lambda>x. if x = n then Some ((the_node s n)\<lparr>Next := NULL, Previous := NULL, Parent := NULL\<rparr>)
          else if x \<noteq> NULL \<and> x = p then Some ((the_node s p)\<lparr>Next := q\<rparr>)
          else if x \<noteq> NULL \<and> x = q then Some ((the_node s q)\<lparr>Previous := p\<rparr>)
          else nodes s x)\<rparr>)"
proof -
  have "n \<noteq> NULL" using assms(1) by (auto simp: is_node_def)
  then show ?thesis
    using assms by (cases "p = NULL"; cases "q = NULL")
      (auto simp: UnregisterVNode_def fun_eq_iff intro!: arg_cong [where f = "\<lambda>m. s\<lparr>nodes := m\<rparr>"])
qed

text \<open>Chains in pieces.\<close>

fun segment :: "kernel \<Rightarrow> addr \<Rightarrow> addr list \<Rightarrow> addr \<Rightarrow> bool" where
  "segment s p [] e \<longleftrightarrow> p = e"
| "segment s p (x # xs) e \<longleftrightarrow> p = x \<and> is_node s x \<and> segment s (Next (the_node s x)) xs e"

lemma chain_segment: "chain s p xs = segment s p xs NULL"
  by (induction xs arbitrary: p) auto

lemma segment_append [simp]: "segment s p (xs @ ys) e \<longleftrightarrow> (\<exists>m. segment s p xs m \<and> segment s m ys e)"
  by (induction xs arbitrary: p) auto

lemma segment_unchanged:
  "(\<And>x. x \<in> set xs \<Longrightarrow> is_node t x \<and> Next (the_node t x) = Next (the_node s x)) \<Longrightarrow>
     segment s p xs e \<Longrightarrow> segment t p xs e"
  by (induction xs arbitrary: p) auto

lemma linked_append [simp]:
  "linked s prev (xs @ ys) \<longleftrightarrow> linked s prev xs \<and> linked s (last (prev # xs)) ys"
  by (induction xs arbitrary: prev) auto

lemma Unregister_around:
  assumes "dir_at P s (ys @ n # zs)" "Parent (the_node s n) = NULL"
  shows "\<exists>s'. UnregisterVNode n s = Inr s' \<and>
     nodes s' n = Some ((the_node s n)\<lparr>Next := NULL, Previous := NULL, Parent := NULL\<rparr>) \<and>
     (ys \<noteq> [] \<longrightarrow> nodes s' (last ys) = Some ((the_node s (last ys))\<lparr>Next := Next (the_node s n)\<rparr>)) \<and>
     (zs \<noteq> [] \<longrightarrow> nodes s' (hd zs) = Some ((the_node s (hd zs))\<lparr>Previous := Previous (the_node s n)\<rparr>)) \<and>
     (\<forall>x. x \<noteq> n \<and> (ys = [] \<or> x \<noteq> last ys) \<and> (zs = [] \<or> x \<noteq> hd zs) \<longrightarrow> nodes s' x = nodes s x) \<and>
     Previous (the_node s n) = (if ys = [] then NULL else last ys) \<and>
     Next (the_node s n) = (if zs = [] then NULL else hd zs)"
proof -
  let ?p = "Previous (the_node s n)" and ?q = "Next (the_node s n)"
  from assms(1) have d: "distinct (ys @ n # zs)" and ch: "chain s (FirstChild (the_node s P)) (ys @ n # zs)"
    and ln: "linked s NULL (ys @ n # zs)"
    by (auto simp: dir_at_def)
  have p: "?p = (if ys = [] then NULL else last ys)" using ln by simp
  have q: "?q = (if zs = [] then NULL else hd zs)"
    using ch by (cases zs) (auto simp: chain_segment)
  have nd: "is_node s x" if "x \<in> set (ys @ n # zs)" for x
    using chain_nodes [OF ch that] .
  have P1: "?p \<noteq> NULL \<longrightarrow> is_node s ?p" "?q \<noteq> NULL \<longrightarrow> is_node s ?q"
    unfolding p q by (auto intro!: nd)
  have apart: "last ys \<noteq> hd zs" if "ys \<noteq> []" "zs \<noteq> []"
    using that d by (simp add: disjoint_iff) (metis last_in_set hd_in_set)
  then have P2: "?p \<noteq> n" "?q \<noteq> n" "?p = ?q \<longrightarrow> ?p = NULL"
    unfolding p q using d nd [of n] last_in_set [of ys] hd_in_set [of zs] by (auto simp: is_node_def)
  have "last ys \<noteq> NULL" if "ys \<noteq> []" using nd [of "last ys"] that by (auto simp: is_node_def)
  moreover have "hd zs \<noteq> NULL" if "zs \<noteq> []" using nd [of "hd zs"] that by (auto simp: is_node_def)
  moreover note UnregisterVNode_Inr [OF nd assms(2) refl refl P1 P2]
  moreover note apart
  moreover have "last ys \<noteq> n" if "ys \<noteq> []" using that d last_in_set [of ys] by auto
  moreover have "hd zs \<noteq> n" if "zs \<noteq> []" using that d hd_in_set [of zs] by auto
  ultimately show ?thesis unfolding p q by auto
qed

text \<open>Unregistering a child other than the first takes exactly it out of the directory,
  which stays a doubly linked list of the others in order.\<close>

theorem UnregisterVNode_inner:
  assumes "dir_at P s (ys @ n # zs)" "Parent (the_node s n) = NULL" "ys \<noteq> []"
  shows "\<exists>s'. UnregisterVNode n s = Inr s' \<and> dir_at P s' (ys @ zs) \<and>
     Next (the_node s' n) = NULL \<and> Previous (the_node s' n) = NULL"
proof -
  from assms(3) obtain us p where ys: "ys = us @ [p]" by (cases ys rule: rev_cases) auto
  from Unregister_around [OF assms(1,2)] assms(3) obtain s' where
    s': "UnregisterVNode n s = Inr s'" and
    n: "nodes s' n = Some ((the_node s n)\<lparr>Next := NULL, Previous := NULL, Parent := NULL\<rparr>)" and
    p: "nodes s' p = Some ((the_node s p)\<lparr>Next := Next (the_node s n)\<rparr>)" and
    q: "zs \<noteq> [] \<Longrightarrow> nodes s' (hd zs) = Some ((the_node s (hd zs))\<lparr>Previous := p\<rparr>)" and
    other: "\<forall>x. x \<noteq> n \<and> x \<noteq> p \<and> (zs = [] \<or> x \<noteq> hd zs) \<longrightarrow> nodes s' x = nodes s x"
    unfolding ys by auto
  from assms(1) have d: "distinct (us @ p # n # zs)" "P \<notin> set (us @ p # n # zs)"
    and ch: "chain s (FirstChild (the_node s P)) (us @ p # n # zs)"
    and ln: "linked s NULL (us @ p # n # zs)"
    and P: "is_node s P" "\<not> has_flag (Flags (the_node s P)) VFS_ONDISK"
    and nm: "\<forall>x \<in> set (us @ p # n # zs). name_ok (the_node s x)"
    by (auto simp: dir_at_def ys)
  have P': "nodes s' P = nodes s P" using other d(2) by auto
  have us: "nodes s' x = nodes s x" if "x \<in> set us" for x
    using other that d(1) by (cases zs) auto
  have zs: "is_node s' x \<and> Next (the_node s' x) = Next (the_node s x)" if "x \<in> set zs" for x
  proof (cases "x = hd zs")
    case True
    moreover from that have "zs \<noteq> []" by auto
    ultimately show ?thesis using q that chain_nodes [OF ch, of x] by (auto simp: is_node_def)
  next
    case False
    with other that d(1) chain_nodes [OF ch, of x] show ?thesis by (auto simp: is_node_def)
  qed
  have seg: "segment s (FirstChild (the_node s P)) us p" "segment s (Next (the_node s n)) zs NULL"
    using ch by (auto simp: chain_segment)
  have "segment s' (FirstChild (the_node s P)) us p"
    using us chain_nodes [OF ch] by (intro segment_unchanged [OF _ seg(1)]) (simp add: is_node_def)
  moreover have "segment s' (Next (the_node s n)) zs NULL"
    using zs by (rule segment_unchanged [OF _ seg(2)])
  moreover have "is_node s' p" using p chain_nodes [OF ch, of p] by (auto simp: is_node_def)
  ultimately have "chain s' (FirstChild (the_node s' P)) (ys @ zs)"
    using p P' by (auto simp: chain_segment ys)
  moreover have "linked s' NULL (ys @ zs)"
  proof -
    have "linked s' NULL us" using ln us linked_cong [of us s' s NULL] by simp
    moreover have "Previous (the_node s' p) = last (NULL # us)" using ln p by simp
    moreover have "linked s' p zs"
    proof (cases zs)
      case (Cons z rest)
      have "Previous (the_node s' x) = Previous (the_node s x)" if "x \<in> set rest" for x
        using other that d(1) Cons by auto
      with linked_cong [of rest s' s z] ln q Cons show ?thesis by simp
    qed simp
    ultimately show ?thesis by (simp add: ys)
  qed
  moreover have "name_ok (the_node s' x)" if "x \<in> set (ys @ zs)" for x
  proof -
    have ok: "name_ok (the_node s x)" using nm that by (auto simp: ys)
    from that consider "x \<in> set us" | "x = p" | "x = hd zs" "zs \<noteq> []" | "x \<in> set zs" "x \<noteq> hd zs"
      unfolding ys by (cases "zs = []") auto
    then show ?thesis
    proof cases
      case 4
      then have "x \<noteq> n \<and> x \<noteq> p" using d(1) by auto
      with 4 other ok show ?thesis by simp
    qed (use ok us p q in simp_all)
  qed
  ultimately show ?thesis
    using s' n d P P' by (auto simp: dir_at_def ys is_node_def)
qed

definition three_siblings :: kernel where
  "three_siblings = root_only\<lparr>nodes := [0x1000 \<mapsto> root_node\<lparr>FirstChild := 0x2000\<rparr>,
     0x2000 \<mapsto> zero_node\<lparr>Next := 0x4000\<rparr>,
     0x4000 \<mapsto> zero_node\<lparr>Previous := 0x2000, Next := 0x5000\<rparr>,
     0x5000 \<mapsto> zero_node\<lparr>Previous := 0x4000\<rparr>]\<rparr>"

lemma three_siblings_dir: "dir_at 0x1000 three_siblings [0x2000, 0x4000, 0x5000]"
  by (simp add: three_siblings_def dir_at_def is_node_def root_node_def zero_node_def has_flag_def name_ok_def)

theorem UnregisterVNode_inner_witness:
  "\<exists>s'. UnregisterVNode 0x4000 three_siblings = Inr s' \<and> dir_at 0x1000 s' [0x2000, 0x5000]"
  using UnregisterVNode_inner [of "0x1000" three_siblings "[0x2000]" "0x4000" "[0x5000]"] three_siblings_dir
  by (auto simp: three_siblings_def zero_node_def)

text \<open>Unregistering the first child does the opposite of what it is for: since the child
  has no \<^verbatim>\<open>Parent\<close>, the parent still points to it, and all other children drop out of
  the directory.\<close>

theorem UnregisterVNode_first:
  assumes "dir_at P s (n # zs)" "Parent (the_node s n) = NULL"
  shows "\<exists>s'. UnregisterVNode n s = Inr s' \<and> dir_at P s' [n]"
proof -
  from Unregister_around [where ys = "[]", simplified, OF assms] obtain s' where
    s': "UnregisterVNode n s = Inr s'" and
    n: "nodes s' n = Some ((the_node s n)\<lparr>Next := NULL, Previous := NULL, Parent := NULL\<rparr>)" and
    other: "\<forall>x. x \<noteq> n \<and> (zs = [] \<or> x \<noteq> hd zs) \<longrightarrow> nodes s' x = nodes s x"
    by auto
  have "P \<notin> set (n # zs)" using assms(1) by (simp add: dir_at_def)
  then have "nodes s' P = nodes s P" using other by (cases zs) auto
  with s' n assms(1) show ?thesis
    by (auto simp: dir_at_def is_node_def name_ok_def)
qed

theorem UnregisterVNode_first_witness:
  "\<exists>s'. UnregisterVNode 0x2000 three_siblings = Inr s' \<and> dir_at 0x1000 s' [0x2000]"
  using UnregisterVNode_first [OF three_siblings_dir] by (simp add: three_siblings_def zero_node_def)

section \<open>Creation\<close>

lemma small_VNode [simp]: "small_size sizeof_VNode"
  by (simp add: small_size_def sizeof_VNode_def PAGE_SIZE_def)

definition new_node :: "VNodeFlags \<Rightarrow> VNode" where
  "new_node Fl = default_node (zero_node\<lparr>Flags := Fl\<rparr>)"

lemma NewVNode_Inr:
  assumes "layout_ok s" "low_room s (Suc n)"
  shows "\<exists>p s1. NewVNode Fl s = Inr (p, s1\<lparr>nodes := (nodes s)(p \<mapsto> new_node Fl)\<rparr>) \<and>
     kalloc sizeof_VNode s = Inr (p, s1) \<and>
     p \<noteq> NULL \<and> p \<notin> live_blocks s \<and> live_blocks s1 = insert p (live_blocks s) \<and>
     layout_ok s1 \<and> low_room s1 n"
proof -
  from kblk.alloc_ok [OF assms small_VNode] obtain p s1 where a: "kalloc sizeof_VNode s = Inr (p, s1)"
    and p: "p \<noteq> NULL" "p \<notin> live_blocks s" "live_blocks s1 = insert p (live_blocks s)"
      "layout_ok s1" "low_room s1 n" by blast
  from kalloc_kernel_frame(1) [OF a] have "nodes s1 = nodes s" .
  with a p have "NewVNode Fl s = Inr (p, s1\<lparr>nodes := (nodes s)(p \<mapsto> new_node Fl)\<rparr>)"
    by (simp add: NewVNode_def VNodeDefault_def new_node_def zero_node_def Let_def)
  with a p show ?thesis by blast
qed

text \<open>With a free page left, \<^verbatim>\<open>NewVNode\<close> returns an address that was not in use,
  where it leaves a node without links whose functions are the defaults; no other node
  changes.\<close>

theorem NewVNode_fresh:
  assumes "layout_ok s" "low_room s (Suc n)" "\<forall>a. is_node s a \<longrightarrow> a = Root s \<or> a \<in> live_blocks s"
    and "Root s \<notin> (\<lambda>i. page_addr s i + 16) ` {..<LOW_PAGES}"
  shows "\<exists>p s'. NewVNode Fl s = Inr (p, s') \<and> p \<noteq> NULL \<and> \<not> is_node s p \<and>
     live_blocks s' = insert p (live_blocks s) \<and> low_room s' n \<and>
     nodes s' = (nodes s)(p \<mapsto> new_node Fl) \<and>
     Flags (the_node s' p) = Fl \<and> FirstChild (the_node s' p) = NULL \<and> Next (the_node s' p) = NULL \<and>
     Parent (the_node s' p) = NULL \<and> ReadFunction (the_node s' p) = DefaultReadFunction"
proof -
  from NewVNode_Inr [OF assms(1,2)] obtain p s1 where
    new: "NewVNode Fl s = Inr (p, s1\<lparr>nodes := (nodes s)(p \<mapsto> new_node Fl)\<rparr>)" and
    a: "kalloc sizeof_VNode s = Inr (p, s1)" and
    p: "p \<noteq> NULL" "p \<notin> live_blocks s" "live_blocks s1 = insert p (live_blocks s)" "low_room s1 n"
    by blast
  obtain i where "p = page_addr s i + 16" "i < LOW_PAGES"
    using kalloc_small [OF assms(1,2) small_VNode] a by auto
  with assms(4) have "p \<noteq> Root s" by (metis imageI lessThan_iff)
  with assms(3) p(2) have "\<not> is_node s p" by auto
  with new p show ?thesis by (auto simp: new_node_def default_node_def zero_node_def)
qed

lemma root_only_pages [simp]:
  "layout_ok root_only" "page_addr root_only i = 0x200000 + of_nat (4096 * i)" "\<not> page_used root_only i"
  using fresh_pages_layout
  by (simp_all add: layout_ok_def page_addr_def page_used_def root_only_def pgalloc.defs fresh_pages_def)

lemma root_only_live [simp]: "live_blocks root_only = {}" "low_room root_only n \<longleftrightarrow> n \<le> LOW_PAGES"
  by (simp_all add: live_blocks_def small_block_def low_room_def)

lemma root_only_no_page: "0x1000 \<notin> (\<lambda>i. page_addr root_only i + 16) ` {..<LOW_PAGES}"
proof
  assume "0x1000 \<in> (\<lambda>i. page_addr root_only i + 16) ` {..<LOW_PAGES}"
  then obtain i where i: "i < LOW_PAGES" "(0x1000 :: addr) = page_addr root_only i + of_nat 16" by auto
  have "unat (page_addr root_only i + of_nat 16) = unat (MemoryStart root_only) + 4096 * i + 16"
    using i(1) by (intro unat_in_page) (simp_all add: PAGE_SIZE_def)
  moreover have "MemoryStart root_only = 0x200000"
    by (simp add: root_only_def pgalloc.defs fresh_pages_def)
  ultimately have "unat (page_addr root_only i + of_nat 16) = unat (0x200000 :: addr) + 4096 * i + 16"
    by (simp only:)
  then have "unat (0x1000 :: addr) = unat (0x200000 :: addr) + 4096 * i + 16"
    by (simp only: i(2) [symmetric])
  then show False by simp
qed

theorem NewVNode_fresh_witness:
  "\<exists>p s'. NewVNode VFS_READ root_only = Inr (p, s') \<and> Flags (the_node s' p) = VFS_READ"
  using NewVNode_fresh [of root_only 0 VFS_READ] root_only_no_page
  by (auto simp: LOW_PAGES_def)

section \<open>Deleting a tree\<close>

lemma kfree_live:
  fixes s :: kernel
  assumes "layout_ok s" "a \<in> live_blocks s"
  shows "\<exists>s'. kfree a s = Inr s' \<and> live_blocks s' = live_blocks s - {a} \<and> layout_ok s' \<and> nodes s' = nodes s"
proof -
  from kblk.free_ok [OF assms, of 0] obtain s' where "kfree a s = Inr s'"
    "live_blocks s' = live_blocks s - {a}" "layout_ok s'" by blast
  with kfree_kernel_frame(1) [of a s s'] show ?thesis by blast
qed

definition deleted :: "kernel \<Rightarrow> addr set \<Rightarrow> kernel \<Rightarrow> bool" where
  "deleted s A s' \<longleftrightarrow> layout_ok s' \<and> live_blocks s' = live_blocks s - A \<and>
     (\<forall>x. nodes s' x = (if x \<in> A then None else nodes s x))"

lemma deleted_trans: "deleted s A t \<Longrightarrow> deleted t B u \<Longrightarrow> deleted s (A \<union> B) u"
  by (auto simp: deleted_def)

lemma delete_forest:
  assumes "\<And>t s. t \<in> set ts \<Longrightarrow> layout_ok s \<Longrightarrow> repr s t \<Longrightarrow> distinct (nodes_of t) \<Longrightarrow>
        set (nodes_of t) \<subseteq> live_blocks s \<Longrightarrow>
        \<exists>s'. delete_walk (Inl (root_of t)) s = Some (Inr s') \<and> deleted s (set (nodes_of t)) s'"
    and "layout_ok s" "chain s p (map root_of ts)" "\<forall>t \<in> set ts. repr s t"
    and "distinct (concat (map nodes_of ts))" "set (concat (map nodes_of ts)) \<subseteq> live_blocks s"
  shows "\<exists>s'. delete_walk (Inr p) s = Some (Inr s') \<and> deleted s (set (concat (map nodes_of ts))) s'"
  using assms
proof (induction ts arbitrary: p s)
  case Nil
  then show ?case by (simp add: delete_walk.simps deleted_def)
next
  case (Cons t ts)
  let ?a = "root_of t"
  from Cons.prems have p: "p = ?a" "is_node s ?a" "?a \<noteq> NULL"
    and rest: "chain s (Next (the_node s ?a)) (map root_of ts)"
    by (auto simp: is_node_def)
  have "\<exists>s1. delete_walk (Inl ?a) s = Some (Inr s1) \<and> deleted s (set (nodes_of t)) s1"
    using Cons.prems(2,4-6) by (intro Cons.prems(1)) auto
  then obtain s1 where s1: "delete_walk (Inl ?a) s = Some (Inr s1)" "deleted s (set (nodes_of t)) s1"
    by blast
  have apart: "set (nodes_of t) \<inter> set (nodes_of u) = {}" if "u \<in> set ts" for u
    using Cons.prems(5) that by auto
  then have same: "nodes s1 x = nodes s x" if "x \<in> set (nodes_of u)" "u \<in> set ts" for x u
    using s1(2) that by (auto simp: deleted_def)
  have "\<exists>s'. delete_walk (Inr (Next (the_node s ?a))) s1 = Some (Inr s') \<and>
      deleted s1 (set (concat (map nodes_of ts))) s'"
  proof (rule Cons.IH)
    show "layout_ok s1" using s1(2) by (simp add: deleted_def)
    show "chain s1 (Next (the_node s ?a)) (map root_of ts)"
    proof (rule chain_unchanged [OF _ rest])
      fix x assume x: "x \<in> set (map root_of ts)"
      then have "nodes s1 x = nodes s x" using same by (auto intro: root_in_nodes_of)
      with chain_nodes [OF rest x]
      show "nodes s1 x \<noteq> None \<and> Next (the_node s1 x) = Next (the_node s x)" by (simp add: is_node_def)
    qed
    show "\<forall>t \<in> set ts. repr s1 t"
      using same Cons.prems(4) repr_cong by (metis list.set_intros(2))
    show "set (concat (map nodes_of ts)) \<subseteq> live_blocks s1"
      using s1(2) Cons.prems(5,6) by (auto simp: deleted_def)
  qed (use Cons.prems(1,5) in auto)
  then obtain s' where s': "delete_walk (Inr (Next (the_node s ?a))) s1 = Some (Inr s')"
    "deleted s1 (set (concat (map nodes_of ts))) s'" by blast
  have "delete_walk (Inr p) s = Some (Inr s')"
    using s1(1) s'(1) p by (simp add: delete_walk.simps [of "Inr ?a"])
  with deleted_trans [OF s1(2) s'(2)] show ?case by simp
qed

lemma delete_tree:
  "layout_ok s \<Longrightarrow> repr s t \<Longrightarrow> distinct (nodes_of t) \<Longrightarrow> set (nodes_of t) \<subseteq> live_blocks s \<Longrightarrow>
     \<exists>s'. delete_walk (Inl (root_of t)) s = Some (Inr s') \<and> deleted s (set (nodes_of t)) s'"
proof (induction t arbitrary: s)
  case (VTree a ts)
  let ?C = "set (concat (map nodes_of ts))"
  from VTree.prems have a: "is_node s a" "a \<noteq> NULL" and an: "a \<notin> ?C" by (auto simp: is_node_def)
  obtain s1 where s1: "delete_walk (Inr (FirstChild (the_node s a))) s = Some (Inr s1)" "deleted s ?C s1"
    using delete_forest [of ts s "FirstChild (the_node s a)"] VTree by auto
  from s1(2) an VTree.prems(4) have "layout_ok s1" "a \<in> live_blocks s1"
    by (auto simp: deleted_def)
  from kfree_live [OF this] obtain s2 where s2: "kfree a s1 = Inr s2"
    "live_blocks s2 = live_blocks s1 - {a}" "layout_ok s2" "nodes s2 = nodes s1" by blast
  have "delete_walk (Inl a) s = Some (Inr (s2\<lparr>nodes := (nodes s2)(a := None)\<rparr>))"
    using a s1(1) s2(1) by (simp add: delete_walk.simps [of "Inl a"])
  moreover have "deleted s (insert a ?C) (s2\<lparr>nodes := (nodes s2)(a := None)\<rparr>)"
    using s1(2) s2 by (auto simp: deleted_def)
  ultimately show ?case by simp
qed

text \<open>C12. \<^verbatim>\<open>DeleteVNode\<close> of the root of a tree whose nodes are all live blocks returns,
  and it frees exactly the nodes of that tree: each is gone, its block is free again, and
  every other node and block is as before.\<close>

theorem DeleteVNode_tree:
  assumes "layout_ok s" "repr s t" "distinct (nodes_of t)" "set (nodes_of t) \<subseteq> live_blocks s"
  shows "\<exists>s'. DeleteVNode (root_of t) s = Some (Inr s') \<and>
     live_blocks s' = live_blocks s - set (nodes_of t) \<and>
     (\<forall>x. nodes s' x = (if x \<in> set (nodes_of t) then None else nodes s x))"
  using delete_tree [OF assms] by (auto simp: DeleteVNode_def deleted_def)

theorem DeleteVNode_tree_witness:
  "\<exists>p s1 s2. NewVNode VFS_READ root_only = Inr (p, s1) \<and> DeleteVNode p s1 = Some (Inr s2) \<and>
     live_blocks s2 = {} \<and> nodes s2 p = None"
proof -
  obtain p s0 where p: "NewVNode VFS_READ root_only = Inr (p, s0\<lparr>nodes := (nodes root_only)(p \<mapsto> new_node VFS_READ)\<rparr>)"
    "p \<noteq> NULL" "live_blocks s0 = {p}" "layout_ok s0"
    using NewVNode_Inr [of root_only 0 VFS_READ] by (auto simp: LOW_PAGES_def)
  let ?s1 = "s0\<lparr>nodes := (nodes root_only)(p \<mapsto> new_node VFS_READ)\<rparr>"
  have "repr ?s1 (VTree p [])" using p(2) by (simp add: new_node_def default_node_def)
  with DeleteVNode_tree [of ?s1 "VTree p []"] p show ?thesis by auto
qed

section \<open>Listing a forest\<close>

text \<open>The text of a forest: every node on a line of its own, indented below its parent.\<close>

fun listing :: "kernel \<Rightarrow> nat \<Rightarrow> vtree \<Rightarrow> string" where
  "listing s d (VTree a ts) =
     replicate (d - 1) CHR '' '' @ node_name (the_node s a) @ [CHR 0x0D, CHR 0x0A] @
     concat (map (listing s (Suc d)) ts)"

lemma put_chars_eq [simp]: "put_chars cs s = s\<lparr>tx := tx s @ cs\<rparr>"
  by (induction cs arbitrary: s) (simp_all add: SerialPut_def)

lemma put_name_eq:
  "Length n \<le> length (VNodeString.Name n) \<Longrightarrow>
     put_name n i s = Inr (s\<lparr>tx := tx s @ drop i (take (Length n) (VNodeString.Name n))\<rparr>)"
proof (induction n i s rule: put_name.induct)
  case (1 n i s)
  show ?case
  proof (cases "i < Length n")
    case True
    with "1" show ?thesis
      using Cons_nth_drop_Suc [of i "take (Length n) (VNodeString.Name n)"]
      by (simp add: put_name.simps [of n i s] SerialPut_def)
  qed (simp add: put_name.simps [of n i s])
qed

lemma put_node_name: "name_ok n \<Longrightarrow> put_name (Name n) 0 s = Inr (s\<lparr>tx := tx s @ node_name n\<rparr>)"
  by (simp add: put_name_eq name_ok_def node_name_def)

lemma tx_same [simp]: "s\<lparr>tx := tx s\<rparr> = s" for s :: kernel
  by simp

lemma chain_tx [simp]: "chain (s\<lparr>tx := x\<rparr>) p xs = chain s p xs"
  by (rule chain_cong) simp

lemma repr_tx [simp]: "repr (s\<lparr>tx := x\<rparr>) t = repr s t"
  by (rule repr_cong) simp

lemma listing_tx [simp]: "listing (s\<lparr>tx := x\<rparr>) = listing s"
proof (intro ext)
  fix d t show "listing (s\<lparr>tx := x\<rparr>) d t = listing s d t"
    by (induction t arbitrary: d) (simp cong: map_cong)
qed

lemma list_tree:
  "chain s p (map root_of ts) \<Longrightarrow> (\<And>t. t \<in> set ts \<Longrightarrow> repr s t) \<Longrightarrow>
     (\<And>a t. t \<in> set ts \<Longrightarrow> a \<in> set (nodes_of t) \<Longrightarrow> name_ok (the_node s a)) \<Longrightarrow> 0 < d \<Longrightarrow>
     VNListTree p (int d) s = Some (Inr (s\<lparr>tx := tx s @ concat (map (listing s d) ts)\<rparr>))"
proof (induction "size_list size ts" arbitrary: ts p d s rule: less_induct)
  case less
  show ?case
  proof (cases ts)
    case Nil
    with less.prems(1) show ?thesis by (simp add: VNListTree.simps)
  next
    case (Cons t us)
    obtain a cs where t: "t = VTree a cs" by (cases t)
    with less.prems(1) Cons have p: "p = a" "is_node s a" "a \<noteq> NULL"
      and rest: "chain s (Next (the_node s a)) (map root_of us)"
      by (auto simp: is_node_def)
    from less.prems(2) [of t] t Cons have ch: "chain s (FirstChild (the_node s a)) (map root_of cs)"
      and sub: "\<And>u. u \<in> set cs \<Longrightarrow> repr s u" by auto
    have nm: "name_ok (the_node s a)" using less.prems(3) [of t a] t Cons by simp
    let ?out = "tx s @ replicate (d - 1) CHR '' '' @ node_name (the_node s a) @ [CHR 0x0D, CHR 0x0A]"
    let ?s3 = "s\<lparr>tx := ?out\<rparr>"
    let ?s4 = "s\<lparr>tx := ?out @ concat (map (listing s (Suc d)) cs)\<rparr>"
    have kids: "(if FirstChild (the_node s a) \<noteq> NULL then VNListTree (FirstChild (the_node s a)) (int d + 1) ?s3
        else Some (Inr ?s3)) = Some (Inr ?s4)"
    proof (cases "FirstChild (the_node s a) = NULL")
      case True
      with ch have "cs = []" by (cases cs) auto
      with True show ?thesis by simp
    next
      case False
      have "VNListTree (FirstChild (the_node s a)) (int (Suc d)) ?s3 =
          Some (Inr (?s3\<lparr>tx := tx ?s3 @ concat (map (listing ?s3 (Suc d)) cs)\<rparr>))"
        using less.prems(3) [of t] Cons t ch sub by (intro less.hyps) auto
      with False show ?thesis by (simp add: add.commute)
    qed
    have sib: "VNListTree (Next (the_node s a)) (int d) ?s4 =
        Some (Inr (?s4\<lparr>tx := tx ?s4 @ concat (map (listing ?s4 d) us)\<rparr>))"
      using less.prems(2-4) Cons rest by (intro less.hyps) auto
    have "nat (int d - 1) = d - 1" by simp
    with p nm kids sib show ?thesis
      by (cases "FirstChild (the_node s a) = NULL")
        (simp_all add: VNListTree.simps [of a] put_node_name SerialPut_def Let_def Cons t)
  qed
qed

text \<open>\<^verbatim>\<open>VNListTree\<close> on a well-formed forest returns after sending exactly its
  listing and changes nothing else.\<close>

theorem VNListTree_listing:
  assumes "chain s p (map root_of ts)" "\<forall>t \<in> set ts. repr s t" "0 < d"
    and "\<forall>t \<in> set ts. \<forall>a \<in> set (nodes_of t). name_ok (the_node s a)"
  shows "VNListTree p (int d) s = Some (Inr (s\<lparr>tx := tx s @ concat (map (listing s d) ts)\<rparr>))"
  using assms by (intro list_tree) auto

theorem VNListTree_listing_witness:
  "\<exists>s'. VNListTree 0x1000 1 root_only = Some (Inr s') \<and> tx s' = ''root'' @ [CHR 0x0D, CHR 0x0A]"
proof -
  have "tx root_only = []" by (simp add: root_only_def pgalloc.defs)
  then show ?thesis
    using VNListTree_listing [of root_only "0x1000" "[VTree 0x1000 []]" 1]
    by (simp add: root_node_def zero_node_def name_ok_def node_name_def)
qed

end
