(* ===== verification/Devices.thy ===== *)
theory Devices
  imports VNodeTree
begin

text \<open>
  The devices of \<^verbatim>\<open>src/kernel/vfs/dev\<close> (\<^verbatim>\<open>null.c\<close>, \<^verbatim>\<open>random.c\<close>,
  \<^verbatim>\<open>serial.c\<close>), the read and write functions of task nodes
  (\<^verbatim>\<open>src/kernel/sched/core.c\<close>), the calls through a node's function pointers, and
  \<^verbatim>\<open>VFSCreateDevices\<close> of \<^verbatim>\<open>src/kernel/vfs/vdev.c\<close>. Sizes are 64-bit words, the
  returned \<^verbatim>\<open>int\<close> is a 32-bit word, buffers are addresses in the byte memory.
\<close>

section \<open>Null\<close>

definition int_of :: "u64 \<Rightarrow> u32" where
  "int_of w = ucast w"

definition NullRead :: "addr \<Rightarrow> u64 \<Rightarrow> u64 \<Rightarrow> addr \<Rightarrow> kernel \<Rightarrow> (u32 \<times> kernel) result" where
  "NullRead Buf Size Elements Node s =
     rbind (PanicIfNull Buf) (\<lambda>_. rbind (PanicIfNull Node) (\<lambda>_.
     let Bytes = Size * Elements
     in rbind (memset Buf 0 (sint Bytes) (mem s)) (\<lambda>m. Inr (int_of Elements, s\<lparr>mem := m\<rparr>))))"

definition NullWrite :: "addr \<Rightarrow> u64 \<Rightarrow> u64 \<Rightarrow> addr \<Rightarrow> kernel \<Rightarrow> (u32 \<times> kernel) result" where
  "NullWrite Buf Size Elements Node s =
     rbind (PanicIfNull Buf) (\<lambda>_. rbind (PanicIfNull Node) (\<lambda>_. Inr (int_of Elements, s)))"

section \<open>Random\<close>

definition xorshift :: "u32 \<Rightarrow> u32" where
  "xorshift x0 =
     (let x1 = x0 XOR push_bit 13 x0;
          x2 = x1 XOR drop_bit 17 x1
      in x2 XOR push_bit 5 x2)"

definition xorshift32 :: "kernel \<Rightarrow> u32 \<times> kernel" where
  "xorshift32 s = (let x = xorshift (rng_state s) in (x, s\<lparr>rng_state := x\<rparr>))"

definition mix_entropy :: "kernel \<Rightarrow> kernel" where
  "mix_entropy s =
     s\<lparr>rng_state := rng_state s XOR (counter s XOR ucast (Ticks s)), counter := counter s + 1\<rparr>"

definition put_byte :: "addr \<Rightarrow> u8 \<Rightarrow> kernel \<Rightarrow> kernel" where
  "put_byte a b s = s\<lparr>mem := (mem s)(a := b)\<rparr>"

function random_read_loop :: "addr \<Rightarrow> nat \<Rightarrow> nat \<Rightarrow> kernel \<Rightarrow> kernel" where
  "random_read_loop byte_buf Bytes i s =
     (if i < Bytes then
        if i AND 3 = 0 then
          (case xorshift32 s of (r, s1) \<Rightarrow>
             let s2 = put_byte (byte_buf + of_nat i) (ucast (r AND 0xFF)) s1;
                 s3 = put_byte (byte_buf + of_nat (i + 1)) (ucast (drop_bit 8 r AND 0xFF)) s2;
                 s4 = put_byte (byte_buf + of_nat (i + 2)) (ucast (drop_bit 16 r AND 0xFF)) s3;
                 s5 = put_byte (byte_buf + of_nat (i + 3)) (ucast (drop_bit 24 r AND 0xFF)) s4
             in random_read_loop byte_buf Bytes (Suc i) s5)
        else random_read_loop byte_buf Bytes (Suc i) s
      else s)"
  by pat_completeness auto
termination by (relation "measure (\<lambda>(b, Bytes, i, s). Bytes - i)") auto

declare random_read_loop.simps [simp del]

definition RandomRead :: "addr \<Rightarrow> u64 \<Rightarrow> u64 \<Rightarrow> addr \<Rightarrow> kernel \<Rightarrow> (u32 \<times> kernel) result" where
  "RandomRead Buf Size Elements Node s =
     rbind (PanicIfNull Buf) (\<lambda>_. rbind (PanicIfNull Node) (\<lambda>_.
     let Bytes = Size * Elements
     in Inr (int_of Elements, random_read_loop Buf (unat Bytes) 0 (mix_entropy s))))"

text \<open>Shifting an \<^verbatim>\<open>int\<close> by 32 or more is undefined.\<close>

function random_write_loop :: "addr \<Rightarrow> nat \<Rightarrow> nat \<Rightarrow> kernel \<Rightarrow> kernel result" where
  "random_write_loop byte_buf Bytes i s =
     (if i < Bytes then
        let shift = (i AND 31) * 8
        in if 32 \<le> shift then Inl Fault
           else random_write_loop byte_buf Bytes (Suc i)
                  (s\<lparr>rng_state := rng_state s XOR push_bit shift (ucast (mem s (byte_buf + of_nat i)))\<rparr>)
      else Inr s)"
  by pat_completeness auto
termination by (relation "measure (\<lambda>(b, Bytes, i, s). Bytes - i)") auto

declare random_write_loop.simps [simp del]

definition RandomWrite :: "addr \<Rightarrow> u64 \<Rightarrow> u64 \<Rightarrow> addr \<Rightarrow> kernel \<Rightarrow> (u32 \<times> kernel) result" where
  "RandomWrite Buf Size Elements Node s =
     rbind (PanicIfNull Buf) (\<lambda>_. rbind (PanicIfNull Node) (\<lambda>_.
     let Bytes = Size * Elements
     in rbind (random_write_loop Buf (unat Bytes) 0 s) (\<lambda>s1. Inr (int_of Elements, s1))))"

section \<open>Task nodes\<close>

definition sizeof_Task :: u64 where
  "sizeof_Task = 232"

definition TaskWrite :: "addr \<Rightarrow> u64 \<Rightarrow> u64 \<Rightarrow> addr \<Rightarrow> kernel \<Rightarrow> (u32 \<times> kernel) result" where
  "TaskWrite Buf Size Elements Self s =
     (let Bytes = Size * Elements
      in if Bytes > sizeof_Task then Inl (Panic PANIC_SEGMENTATION_FAULT)
         else rbind (node Self s) (\<lambda>n.
              rbind (memcpy (DriverData n) Buf (unat Bytes) (mem s)) (\<lambda>m.
              Inr (int_of Bytes, s\<lparr>mem := m\<rparr>))))"

definition TaskRead :: "addr \<Rightarrow> u64 \<Rightarrow> u64 \<Rightarrow> addr \<Rightarrow> kernel \<Rightarrow> (u32 \<times> kernel) result" where
  "TaskRead Buf Size Elements Self s =
     (let Bytes = Size * Elements
      in if Bytes > sizeof_Task then Inl (Panic PANIC_SEGMENTATION_FAULT)
         else rbind (node Self s) (\<lambda>n.
              rbind (memcpy Buf (DriverData n) (unat Bytes) (mem s)) (\<lambda>m.
              Inr (int_of Bytes, s\<lparr>mem := m\<rparr>))))"

section \<open>Serial\<close>

type_synonym TTYFlags = u64

definition TTY_RAW :: TTYFlags where "TTY_RAW = 1"
definition TTY_COOKED :: TTYFlags where "TTY_COOKED = 2"
definition TTY_ECHO :: TTYFlags where "TTY_ECHO = 4"
definition TTY_CRNL :: TTYFlags where "TTY_CRNL = 8"
definition TTY_NLCR :: TTYFlags where "TTY_NLCR = 16"

definition tty :: "VNode \<Rightarrow> TTYFlags \<Rightarrow> kernel \<Rightarrow> bool" where
  "tty n f s \<longleftrightarrow> load64 (mem s) (DriverData n) AND f \<noteq> 0"

text \<open>Sending one character, with the line feed translation of the node.\<close>

definition serial_write_char :: "VNode \<Rightarrow> char \<Rightarrow> kernel \<Rightarrow> kernel" where
  "serial_write_char n chr s =
     SerialPut chr (if chr = CHR 0x0A \<and> tty n TTY_NLCR s then SerialPut CHR 0x0D s else s)"

function serial_write_loop :: "VNode \<Rightarrow> addr \<Rightarrow> nat \<Rightarrow> nat \<Rightarrow> kernel \<Rightarrow> kernel" where
  "serial_write_loop n Buf Bytes i s =
     (if i < Bytes then
        serial_write_loop n Buf Bytes (Suc i)
          (serial_write_char n (char_of_byte (mem s (Buf + of_nat i))) s)
      else s)"
  by pat_completeness auto
termination by (relation "measure (\<lambda>(n, b, Bytes, i, s). Bytes - i)") auto

declare serial_write_loop.simps [simp del]

definition SerialWrite :: "addr \<Rightarrow> u64 \<Rightarrow> u64 \<Rightarrow> addr \<Rightarrow> kernel \<Rightarrow> (u32 \<times> kernel) result" where
  "SerialWrite Buf Size Elements Node s =
     rbind (PanicIfNull Buf) (\<lambda>_. rbind (PanicIfNull Node) (\<lambda>_.
     rbind (node Node s) (\<lambda>n.
     let Bytes = Size * Elements
     in Inr (int_of Bytes, serial_write_loop n Buf (unat Bytes) 0 s))))"

text \<open>
  \<^verbatim>\<open>Node->WriteFunction(&chr, 1, 1, Node)\<close>, the call with a local character for
  its buffer.
\<close>

definition write_char :: "char \<Rightarrow> addr \<Rightarrow> kernel \<Rightarrow> kernel result" where
  "write_char chr Node s =
     rbind (node Node s) (\<lambda>n.
       case WriteFunction n of
         DefaultWriteFunction \<Rightarrow> Inl (Panic PANIC_UNINTENDED_CALL)
       | NullWriteFunction \<Rightarrow> Inr s
       | SerialWriteFunction \<Rightarrow> Inr (serial_write_char n chr s)
       | RandomWriteFunction \<Rightarrow> Inr (s\<lparr>rng_state := rng_state s XOR ucast (byte_of chr)\<rparr>)
       | TaskWriteFunction \<Rightarrow>
           rbind (PanicIfNull (DriverData n)) (\<lambda>_. Inr (put_byte (DriverData n) (byte_of chr) s)))"

partial_function (option) serial_read_loop ::
  "addr \<Rightarrow> u64 \<Rightarrow> addr \<Rightarrow> u64 \<Rightarrow> kernel \<Rightarrow> (u64 \<times> kernel) outcome" where
  "serial_read_loop ByteBuf Bytes Node i s =
     (if i < Bytes then
        obind (SerialRead s) (\<lambda>r.
        let chr0 = fst r; s1 = snd r
        in obind (Some (node Node s1)) (\<lambda>n.
        let chr = (if chr0 = CHR 0x0D \<and> tty n TTY_CRNL s1 then CHR 0x0A else chr0)
        in obind (Some (if tty n TTY_ECHO s1 then write_char chr Node s1 else Inr s1)) (\<lambda>s2.
        obind (Some (node Node s2)) (\<lambda>n2.
          if \<not> tty n2 TTY_RAW s2 \<and> chr = CHR 0x08 \<and> 0 < i then
            serial_read_loop ByteBuf Bytes Node (i - 2 + 1) (put_byte (ByteBuf + (i - 2)) 0 s2)
          else if chr = CHR 0x0A \<and> tty n2 TTY_COOKED s2 then Some (Inr (i, s2))
          else serial_read_loop ByteBuf Bytes Node (i + 1) (put_byte (ByteBuf + i) (byte_of chr) s2)))))
      else Some (Inr (i, s)))"

definition SerialReadFn :: "addr \<Rightarrow> u64 \<Rightarrow> u64 \<Rightarrow> addr \<Rightarrow> kernel \<Rightarrow> (u32 \<times> kernel) outcome" where
  "SerialReadFn Buf Size Elements Node s =
     obind (Some (PanicIfNull Buf)) (\<lambda>_. obind (Some (PanicIfNull Node)) (\<lambda>_.
     obind (serial_read_loop Buf (Size * Elements) Node 0 s) (\<lambda>r.
       if Size = 0 then Some (Inl Fault) else Some (Inr (int_of (fst r div Size), snd r)))))"

section \<open>Calls through a node\<close>

definition call_ReadFunction ::
  "VNodeReadFunction \<Rightarrow> addr \<Rightarrow> u64 \<Rightarrow> u64 \<Rightarrow> addr \<Rightarrow> kernel \<Rightarrow> (u32 \<times> kernel) outcome" where
  "call_ReadFunction f Buf Size Elements Node s =
     (case f of
        DefaultReadFunction \<Rightarrow> Some (rbind (PanicIfNull Buf) (\<lambda>_. rbind (PanicIfNull Node) (\<lambda>_.
          Inl (Panic PANIC_UNINTENDED_CALL))))
      | NullReadFunction \<Rightarrow> Some (NullRead Buf Size Elements Node s)
      | SerialReadFunction \<Rightarrow> SerialReadFn Buf Size Elements Node s
      | RandomReadFunction \<Rightarrow> Some (RandomRead Buf Size Elements Node s)
      | TaskReadFunction \<Rightarrow> Some (TaskRead Buf Size Elements Node s))"

definition call_WriteFunction ::
  "VNodeWriteFunction \<Rightarrow> addr \<Rightarrow> u64 \<Rightarrow> u64 \<Rightarrow> addr \<Rightarrow> kernel \<Rightarrow> (u32 \<times> kernel) result" where
  "call_WriteFunction f Buf Size Elements Node s =
     (case f of
        DefaultWriteFunction \<Rightarrow> rbind (PanicIfNull Buf) (\<lambda>_. rbind (PanicIfNull Node) (\<lambda>_.
          Inl (Panic PANIC_UNINTENDED_CALL)))
      | NullWriteFunction \<Rightarrow> NullWrite Buf Size Elements Node s
      | SerialWriteFunction \<Rightarrow> SerialWrite Buf Size Elements Node s
      | RandomWriteFunction \<Rightarrow> RandomWrite Buf Size Elements Node s
      | TaskWriteFunction \<Rightarrow> TaskWrite Buf Size Elements Node s)"

section \<open>Creating the devices\<close>

definition set_name :: "addr \<Rightarrow> string \<Rightarrow> nat \<Rightarrow> kernel \<Rightarrow> kernel result" where
  "set_name p str len s =
     set_node p (\<lambda>n. n\<lparr>Name := \<lparr>VNodeString.Name = str, Length = len\<rparr>\<rparr>) s"

definition set_functions :: "addr \<Rightarrow> VNodeReadFunction \<Rightarrow> VNodeWriteFunction \<Rightarrow> kernel \<Rightarrow> kernel result" where
  "set_functions p r w s = set_node p (\<lambda>n. n\<lparr>ReadFunction := r, WriteFunction := w\<rparr>) s"

definition CreateNullDevice :: "cstr \<Rightarrow> nat \<Rightarrow> addr \<Rightarrow> kernel \<Rightarrow> (addr \<times> kernel) result" where
  "CreateNullDevice Nm NameLength Devices s =
     (case Nm of None \<Rightarrow> Inl (Panic PANIC_NULL_POINTER_DEREFERENCE)
      | Some str \<Rightarrow> rbind (PanicIfNull Devices) (\<lambda>_.
          rbind (NewVNode (VFS_WRITE OR VFS_READ) s) (\<lambda>(New, s1).
          rbind (set_name New str NameLength s1) (\<lambda>s2.
          rbind (set_functions New NullReadFunction NullWriteFunction s2) (\<lambda>s3.
          rbind (RegisterChildVNode Devices New s3) (\<lambda>s4. Inr (New, s4)))))))"

definition CreateRandomDevice :: "cstr \<Rightarrow> nat \<Rightarrow> addr \<Rightarrow> kernel \<Rightarrow> (addr \<times> kernel) result" where
  "CreateRandomDevice Nm NameLength Devices s =
     (case Nm of None \<Rightarrow> Inl (Panic PANIC_NULL_POINTER_DEREFERENCE)
      | Some str \<Rightarrow> rbind (PanicIfNull Devices) (\<lambda>_.
          rbind (NewVNode (VFS_WRITE OR VFS_READ) s) (\<lambda>(New, s1).
          rbind (set_name New str NameLength s1) (\<lambda>s2.
          rbind (set_functions New RandomReadFunction RandomWriteFunction s2) (\<lambda>s3.
          rbind (RegisterChildVNode Devices New s3) (\<lambda>s4. Inr (New, s4)))))))"

fun write_chars :: "string \<Rightarrow> addr \<Rightarrow> kernel \<Rightarrow> kernel result" where
  "write_chars [] Node s = Inr s"
| "write_chars (c # cs) Node s = rbind (write_char c Node s) (write_chars cs Node)"

definition serial_banner :: string where
  "serial_banner = '' [Info] Created Serial Virtual Node'' @ [CHR 0x0D, CHR 0x0A]"

definition CreateSerialDevice :: "cstr \<Rightarrow> nat \<Rightarrow> addr \<Rightarrow> kernel \<Rightarrow> (addr \<times> kernel) result" where
  "CreateSerialDevice Nm NameLength Devices s =
     (case Nm of None \<Rightarrow> Inl (Panic PANIC_NULL_POINTER_DEREFERENCE)
      | Some str \<Rightarrow> rbind (PanicIfNull Devices) (\<lambda>_.
          rbind (NewVNode (VFS_WRITE OR VFS_READ) s) (\<lambda>(New, s1).
          rbind (set_name New str NameLength s1) (\<lambda>s2.
          rbind (set_functions New SerialReadFunction SerialWriteFunction s2) (\<lambda>s3.
          rbind (kalloc 8 s3) (\<lambda>(flags, s4).
          rbind (set_node New (\<lambda>n. n\<lparr>DriverData := flags\<rparr>) s4) (\<lambda>s5.
          let s6 = s5\<lparr>mem := store64 (mem s5) flags (TTY_COOKED OR TTY_ECHO OR TTY_NLCR OR TTY_CRNL)\<rparr>
          in rbind (RegisterChildVNode Devices New s6) (\<lambda>s7.
             rbind (write_chars serial_banner New s7) (\<lambda>s8. Inr (New, s8))))))))))"

definition VFSCreateDevices :: "kernel \<Rightarrow> kernel result" where
  "VFSCreateDevices s =
     rbind (VNodeDefault (RootVNode s) s) (\<lambda>s1.
     rbind (set_name (RootVNode s1) (''root'' @ [NUL]) 4 s1) (\<lambda>s2.
     rbind (NewVNode VFS_SYSTEM s2) (\<lambda>(Node, s3).
     rbind (RegisterChildVNode (RootVNode s3) Node s3) (\<lambda>s4.
     rbind (set_name Node (''dev'' @ [NUL]) 3 s4) (\<lambda>s5.
     rbind (NewVNode VFS_SYSTEM s5) (\<lambda>(Sys, s6).
     rbind (RegisterChildVNode (RootVNode s6) Sys s6) (\<lambda>s7.
     rbind (set_name Sys (''sys'' @ [NUL]) 3 s7) (\<lambda>s8.
     rbind (CreateNullDevice (Some (''null'' @ [NUL])) 4 Node s8) (\<lambda>(_, s9).
     rbind (CreateSerialDevice (Some (''tty0'' @ [NUL])) 4 Node s9) (\<lambda>(_, s10).
     rbind (CreateRandomDevice (Some (''random'' @ [NUL])) 6 Node s10) (\<lambda>(_, s11).
     rbind (NewVNode VFS_SYSTEM s11) (\<lambda>(Mnt, s12).
     rbind (set_name Mnt (''mnt'' @ [NUL]) 3 s12) (\<lambda>s13.
     RegisterChildVNode (RootVNode s13) Mnt s13)))))))))))))"

section \<open>The random device\<close>

text \<open>The generator is a permutation of the 32-bit words, with zero as its fixed point.\<close>

definition xorshift_inv :: "u32 \<Rightarrow> u32" where
  "xorshift_inv y =
     (let u = (\<lambda>k z. z XOR push_bit k z);
          d = (\<lambda>k z. z XOR drop_bit k z);
          x2 = u 5 (u 10 (u 20 y));
          x1 = d 17 x2
      in u 13 (u 26 x1))"

lemma shift_fold:
  "(z XOR push_bit k z) XOR push_bit k (z XOR push_bit k z) = z XOR push_bit (2 * k) z"
  "(z XOR drop_bit k z) XOR drop_bit k (z XOR drop_bit k z) = z XOR drop_bit (2 * k) z" for z :: u32
  by (simp_all add: push_bit_xor drop_bit_xor mult_2 drop_bit_drop_bit xor.assoc)

lemma shift_swap:
  "(z XOR push_bit k z) XOR push_bit l (z XOR push_bit k z) =
   (z XOR push_bit l z) XOR push_bit k (z XOR push_bit l z)" for z :: u32
  by (simp add: push_bit_xor add.commute xor.assoc xor.left_commute)

definition lshift :: "nat \<Rightarrow> u32 \<Rightarrow> u32" where
  "lshift k z = z XOR push_bit k z"

definition rshift :: "nat \<Rightarrow> u32 \<Rightarrow> u32" where
  "rshift k z = z XOR drop_bit k z"

lemma lshift_rules:
  "lshift k (lshift k z) = lshift (2 * k) z" "lshift k (lshift l z) = lshift l (lshift k z)"
  "32 \<le> k \<Longrightarrow> lshift k z = z" "rshift k (rshift k z) = rshift (2 * k) z" "32 \<le> k \<Longrightarrow> rshift k z = z"
  using shift_fold [of z k] shift_swap [of z l k]
  by (simp_all add: lshift_def rshift_def)

lemma xorshift_shifts: "xorshift x = lshift 5 (rshift 17 (lshift 13 x))"
  by (simp add: xorshift_def lshift_def rshift_def Let_def)

lemma xorshift_inv_shifts:
  "xorshift_inv y = lshift 13 (lshift 26 (rshift 17 (lshift 5 (lshift 10 (lshift 20 y)))))"
  by (simp add: xorshift_inv_def lshift_def rshift_def Let_def)

text \<open>The generator step is a permutation of the 32-bit words: the inverse below undoes
  it on both sides, so no output is unreachable and a nonzero state stays nonzero.\<close>

theorem xorshift_bij:
  "xorshift_inv (xorshift x) = x \<and> xorshift (xorshift_inv x) = x \<and> (xorshift x = 0) = (x = 0)"
proof -
  have five: "lshift 5 (lshift 10 (lshift 20 (lshift 5 z))) = z" for z
  proof -
    have "lshift 5 (lshift 10 (lshift 20 (lshift 5 z))) = lshift 20 (lshift 10 (lshift 5 (lshift 5 z)))"
      by (metis lshift_rules(2))
    then show ?thesis by (simp add: lshift_rules(1,3))
  qed
  have thirteen: "lshift 13 (lshift 26 (lshift 13 z)) = z" for z
  proof -
    have "lshift 13 (lshift 26 (lshift 13 z)) = lshift 26 (lshift 13 (lshift 13 z))"
      by (metis lshift_rules(2))
    then show ?thesis by (simp add: lshift_rules(1,3))
  qed
  have "lshift 5 (lshift 5 (lshift 10 (lshift 20 z))) = z" "lshift 13 (lshift 13 (lshift 26 z)) = z" for z
    by (simp_all add: lshift_rules(1,3))
  moreover have "rshift 17 (rshift 17 z) = z" for z by (simp add: lshift_rules(4,5))
  ultimately have inv: "xorshift_inv (xorshift x) = x" "xorshift (xorshift_inv x) = x" for x
    using five thirteen by (simp_all add: xorshift_shifts xorshift_inv_shifts)
  moreover have "xorshift 0 = 0" by (simp add: xorshift_def)
  ultimately show ?thesis by metis
qed

text \<open>The loop in steps of one generated word.\<close>

definition word_step :: "addr \<Rightarrow> nat \<Rightarrow> kernel \<Rightarrow> kernel" where
  "word_step Buf j s =
     s\<lparr>rng_state := xorshift (rng_state s),
       mem := store_bytes (mem s) (Buf + of_nat (4 * j)) (le_split 4 (xorshift (rng_state s)))\<rparr>"

lemma and_3_mod: "i AND 3 = i mod 4" for i :: nat
  using take_bit_eq_mask [of 2 i] by (simp add: take_bit_eq_mod mask_eq_exp_minus_1)

lemma ucast_and_ff: "ucast (w AND 0xFF) = (ucast w :: u8)" for w :: u32
proof -
  have "(0xFF :: u32) = mask 8" by (simp add: mask_eq_exp_minus_1)
  show ?thesis unfolding \<open>0xFF = mask 8\<close> by (rule bit_word_eqI) (auto simp: bit_simps)
qed

lemma random_loop_skip:
  "\<not> i mod 4 = 0 \<Longrightarrow> random_read_loop Buf Bytes i s = random_read_loop Buf Bytes (Suc i) s"
  by (cases "i < Bytes") (simp_all add: random_read_loop.simps [of Buf Bytes i] and_3_mod,
    simp add: random_read_loop.simps)

lemma four_puts:
  assumes "4 * j + 4 \<le> 2 ^ 64"
  shows "put_byte (Buf + of_nat (4 * j + 3)) (ucast (drop_bit 24 r))
          (put_byte (Buf + of_nat (4 * j + 2)) (ucast (drop_bit 16 r))
          (put_byte (Buf + of_nat (4 * j + 1)) (ucast (drop_bit 8 r))
          (put_byte (Buf + of_nat (4 * j)) (ucast r) s))) =
         s\<lparr>mem := store_bytes (mem s) (Buf + of_nat (4 * j)) (le_split 4 (r :: u32))\<rparr>"
proof -
  let ?a = "Buf + of_nat (4 * j)"
  have off: "x = Buf + of_nat (4 * j + t) \<longleftrightarrow> unat (x - ?a) = t" if "t < 4" for x t
    using unat_offset_eq [of t x ?a] that by (simp add: add.assoc)
  have split: "le_split 4 r = [ucast r, ucast (drop_bit 8 r), ucast (drop_bit 16 r), ucast (drop_bit 24 r)]"
    by (simp add: le_split_def upt_rec)
  have "((((mem s)(?a := ucast r))(Buf + of_nat (4 * j + 1) := ucast (drop_bit 8 r)))
      (Buf + of_nat (4 * j + 2) := ucast (drop_bit 16 r)))
      (Buf + of_nat (4 * j + 3) := ucast (drop_bit 24 r)) = store_bytes (mem s) ?a (le_split 4 r)"
  proof
    fix x
    show "(((((mem s)(?a := ucast r))(Buf + of_nat (4 * j + 1) := ucast (drop_bit 8 r)))
      (Buf + of_nat (4 * j + 2) := ucast (drop_bit 16 r)))
      (Buf + of_nat (4 * j + 3) := ucast (drop_bit 24 r))) x = store_bytes (mem s) ?a (le_split 4 r) x"
      using off [of 0 x] off [of 1 x] off [of 2 x] off [of 3 x]
      unfolding split store_bytes_def fun_upd_apply
      by (simp add: numeral_eq_Suc less_Suc_eq nth_Cons')
  qed
  then show ?thesis by (simp add: put_byte_def)
qed

lemma random_loop_word:
  assumes "4 * j < Bytes" "4 * j + 4 \<le> 2 ^ 64"
  shows "random_read_loop Buf Bytes (4 * j) s = random_read_loop Buf Bytes (4 * Suc j) (word_step Buf j s)"
proof -
  have four: "4 * Suc j = Suc (Suc (Suc (Suc (4 * j))))" by simp
  have "random_read_loop Buf Bytes (4 * j) s = random_read_loop Buf Bytes (Suc (4 * j)) (word_step Buf j s)"
    using assms(1) four_puts [OF assms(2)]
    by (subst random_read_loop.simps) (simp add: and_3_mod xorshift32_def Let_def ucast_and_ff word_step_def)
  also have "\<dots> = random_read_loop Buf Bytes (4 * Suc j) (word_step Buf j s)"
    unfolding four by (simp add: random_loop_skip [of "Suc (4 * j)"] random_loop_skip [of "Suc (Suc (4 * j))"]
      random_loop_skip [of "Suc (Suc (Suc (4 * j)))"] mod_Suc)
  finally show ?thesis .
qed

lemma random_loop_closed:
  "Bytes \<le> 4 * (j + n) \<Longrightarrow> 4 * (j + n) < Bytes + 4 \<Longrightarrow> 4 * (j + n) \<le> 2 ^ 64 \<Longrightarrow>
     mem (random_read_loop Buf Bytes (4 * j) s) a =
       (let k = unat (a - Buf) in
        if 4 * j \<le> k \<and> k < 4 * (j + n)
        then ucast (drop_bit (8 * (k mod 4)) ((xorshift ^^ Suc (k div 4 - j)) (rng_state s)))
        else mem s a)"
proof (induction n arbitrary: j s)
  case 0
  then show ?case by (auto simp: random_read_loop.simps Let_def)
next
  case (Suc n)
  let ?k = "unat (a - Buf)"
  from Suc.prems have "4 * j < Bytes" "4 * j + 4 \<le> 2 ^ 64" by simp_all
  then have step: "random_read_loop Buf Bytes (4 * j) s = random_read_loop Buf Bytes (4 * Suc j) (word_step Buf j s)"
    by (rule random_loop_word)
  have ih: "mem (random_read_loop Buf Bytes (4 * Suc j) (word_step Buf j s)) a =
      (if 4 * Suc j \<le> ?k \<and> ?k < 4 * (j + Suc n)
       then ucast (drop_bit (8 * (?k mod 4)) ((xorshift ^^ Suc (?k div 4 - Suc j)) (xorshift (rng_state s))))
       else mem (word_step Buf j s) a)"
    using Suc.IH [of "Suc j" "word_step Buf j s"] Suc.prems by (simp add: Let_def word_step_def)
  have here: "mem (word_step Buf j s) a =
      (if 4 * j \<le> ?k \<and> ?k < 4 * j + 4 then ucast (drop_bit (8 * (?k mod 4)) (xorshift (rng_state s))) else mem s a)"
  proof -
    let ?l = "unat (a - (Buf + of_nat (4 * j)))"
    have key: "?l = t \<longleftrightarrow> ?k = 4 * j + t" if "t < 4" for t
      using unat_offset_eq [of t a "Buf + of_nat (4 * j)"] unat_offset_eq [of "4 * j + t" a Buf] that Suc.prems
      by (simp add: add.assoc)
    have "?l < 4 \<longleftrightarrow> 4 * j \<le> ?k \<and> ?k < 4 * j + 4"
    proof
      assume "?l < 4"
      with key [OF this] show "4 * j \<le> ?k \<and> ?k < 4 * j + 4" by linarith
    next
      assume "4 * j \<le> ?k \<and> ?k < 4 * j + 4"
      then have "?k - 4 * j < 4" "?k = 4 * j + (?k - 4 * j)" by linarith+
      with key [OF this(1)] show "?l < 4" by metis
    qed
    moreover have "?l = ?k mod 4" if "?l < 4"
    proof -
      from key [OF that] have "?k = 4 * j + ?l" by blast
      then have "?k mod 4 = (4 * j + ?l) mod 4" by metis
      with that show ?thesis by simp
    qed
    ultimately show ?thesis by (simp add: word_step_def store_bytes_def le_split_def)
  qed
  show ?case
  proof (cases "4 * Suc j \<le> ?k")
    case True
    then have "Suc j \<le> ?k div 4" by (simp add: less_eq_div_iff_mult_less_eq mult.commute)
    then have "?k div 4 - j = Suc (?k div 4 - Suc j)" by simp
    with True step ih here show ?thesis by (simp add: Let_def funpow_swap1)
  next
    case False
    then have "?k div 4 < Suc j" by (simp add: div_less_iff_less_mult mult.commute)
    then have "?k div 4 - j = 0" by simp
    with False step ih here show ?thesis by (auto simp: Let_def)
  qed
qed

text \<open>
  \<^verbatim>\<open>RandomRead\<close> fills the buffer with the successive outputs of the generator,
  four little-endian bytes each, and always whole words: when the size is not a multiple of
  four it writes up to three bytes beyond the buffer. No byte further on changes.
\<close>

theorem RandomRead_words:
  assumes "Buf \<noteq> NULL" "Node \<noteq> NULL" "Bytes = unat (Size * Elements)" "Bytes + 3 < 2 ^ 64"
  shows "\<exists>s'. RandomRead Buf Size Elements Node s = Inr (int_of Elements, s') \<and>
     (\<forall>a. let k = unat (a - Buf) in mem s' a =
        (if k < 4 * ((Bytes + 3) div 4)
         then ucast (drop_bit (8 * (k mod 4)) ((xorshift ^^ Suc (k div 4)) (rng_state (mix_entropy s))))
         else mem s a))"
proof -
  let ?s' = "random_read_loop Buf Bytes (4 * 0) (mix_entropy s)"
  have "mem ?s' a = (let k = unat (a - Buf) in
      if 4 * 0 \<le> k \<and> k < 4 * (0 + (Bytes + 3) div 4)
      then ucast (drop_bit (8 * (k mod 4)) ((xorshift ^^ Suc (k div 4 - 0)) (rng_state (mix_entropy s))))
      else mem (mix_entropy s) a)" for a
    using assms(4) by (intro random_loop_closed) auto
  then show ?thesis
    using assms(1-3) by (simp add: RandomRead_def Let_def mix_entropy_def)
qed

theorem RandomRead_words_witness:
  "\<exists>s'. RandomRead 0x8000 1 5 0x9000 root_only = Inr (5, s') \<and>
     mem s' 0x8007 = ucast (drop_bit 24 (xorshift (xorshift (rng_state (mix_entropy root_only)))))"
proof -
  from RandomRead_words [of "0x8000" "0x9000" 5 1 5 root_only] obtain s' where
    "RandomRead 0x8000 1 5 0x9000 root_only = Inr (int_of 5, s')"
    "mem s' 0x8007 = ucast (drop_bit 24 ((xorshift ^^ Suc 1) (rng_state (mix_entropy root_only))))"
    by (auto simp: Let_def dest!: spec [of _ "0x8007"])
  then show ?thesis by (simp add: int_of_def)
qed

text \<open>\<^verbatim>\<open>RandomWrite\<close> mixes at most four bytes: from the fifth on it shifts a
  32-bit value by 32 bits or more, which is undefined.\<close>

theorem RandomWrite_fifth_byte:
  assumes "Buf \<noteq> NULL" "Node \<noteq> NULL"
  shows "RandomWrite Buf Size Elements Node s = Inl Fault \<longleftrightarrow> 4 < unat (Size * Elements)"
proof -
  have loop: "random_write_loop Buf Bytes i s = Inl Fault \<longleftrightarrow> i < Bytes \<and> 4 < Bytes" if "i \<le> 4" for Bytes i s
    using that
  proof (induction Buf Bytes i s rule: random_write_loop.induct)
    case (1 Buf Bytes i s)
    have "i AND 31 = i"
      using take_bit_eq_mask [of 5 i] "1.prems" by (simp add: take_bit_eq_mod mask_eq_exp_minus_1)
    with "1.prems" "1.IH" show ?case
      unfolding random_write_loop.simps [of Buf Bytes i s]
      by (cases "i = 4") (auto simp: Let_def)
  qed
  show ?thesis
    using assms loop [of 0 "unat (Size * Elements)" s]
    by (cases "random_write_loop Buf (unat (Size * Elements)) 0 s") (auto simp: RandomWrite_def Let_def)
qed

theorem RandomWrite_fifth_byte_witness:
  "RandomWrite 0x8000 1 5 0x9000 root_only = Inl Fault"
  using RandomWrite_fifth_byte [of "0x8000" "0x9000" 1 5 root_only] by simp

section \<open>The serial device\<close>

text \<open>A terminal node as \<^verbatim>\<open>CreateSerialDevice\<close> leaves it.\<close>

definition default_tty :: "kernel \<Rightarrow> addr \<Rightarrow> bool" where
  "default_tty s Node \<longleftrightarrow> is_node s Node \<and> WriteFunction (the_node s Node) = SerialWriteFunction \<and>
     load64 (mem s) (DriverData (the_node s Node)) = TTY_COOKED OR TTY_ECHO OR TTY_NLCR OR TTY_CRNL"

definition flags_outside :: "kernel \<Rightarrow> addr \<Rightarrow> addr \<Rightarrow> nat \<Rightarrow> bool" where
  "flags_outside s Node Buf n \<longleftrightarrow>
     (\<forall>k < 8. n \<le> unat (DriverData (the_node s Node) + of_nat k - Buf))"

lemma default_tty_flags:
  assumes "default_tty s Node"
  shows "tty (the_node s Node) TTY_COOKED s" "tty (the_node s Node) TTY_ECHO s"
    "tty (the_node s Node) TTY_NLCR s" "tty (the_node s Node) TTY_CRNL s" "\<not> tty (the_node s Node) TTY_RAW s"
  using assms by (simp_all add: default_tty_def tty_def TTY_RAW_def TTY_COOKED_def TTY_ECHO_def
    TTY_NLCR_def TTY_CRNL_def)

lemma tty_frame [simp]:
  "tty n f (s\<lparr>tx := t\<rparr>) = tty n f s" "tty n f (s\<lparr>rx := r\<rparr>) = tty n f s"
  by (simp_all add: tty_def)

lemma default_tty_frame [simp]:
  "default_tty (s\<lparr>tx := t\<rparr>) Node = default_tty s Node" "default_tty (s\<lparr>rx := r\<rparr>) Node = default_tty s Node"
  "flags_outside (s\<lparr>tx := t\<rparr>) Node Buf n = flags_outside s Node Buf n"
  "flags_outside (s\<lparr>rx := r\<rparr>) Node Buf n = flags_outside s Node Buf n"
  "flags_outside (s\<lparr>mem := m\<rparr>) Node Buf n = flags_outside s Node Buf n"
  by (simp_all add: default_tty_def flags_outside_def)

lemma default_tty_put:
  assumes "default_tty s Node" "flags_outside s Node Buf n" "i < n" "n \<le> 2 ^ 64"
  shows "default_tty (s\<lparr>mem := (mem s)(Buf + of_nat i := b)\<rparr>) Node"
proof -
  let ?d = "DriverData (the_node s Node)"
  have "load64 ((mem s)(Buf + of_nat i := b)) ?d = load64 (mem s) ?d"
  proof (rule load64_cong)
    fix k :: nat assume "k < 8"
    with assms(2) have "n \<le> unat (?d + of_nat k - Buf)" by (simp add: flags_outside_def)
    then have "unat (?d + of_nat k - Buf) \<noteq> i" using assms(3) by simp
    then have "?d + of_nat k \<noteq> Buf + of_nat i"
      using unat_offset_eq [of i "?d + of_nat k" Buf] assms(3,4) by simp
    then show "((mem s)(Buf + of_nat i := b)) (?d + of_nat k) = mem s (?d + of_nat k)" by simp
  qed
  with assms(1) show ?thesis by (simp add: default_tty_def)
qed

definition ordinary :: "char \<Rightarrow> bool" where
  "ordinary c \<longleftrightarrow> c \<notin> {CHR 0x0D, CHR 0x0A, CHR 0x08}"

lemma read_ordinary:
  assumes "default_tty s Node" "i < Bytes" "rx s = c # cs" "ordinary c"
  shows "serial_read_loop Buf Bytes Node i s =
     serial_read_loop Buf Bytes Node (i + 1)
       (s\<lparr>rx := cs, tx := tx s @ [c], mem := (mem s)(Buf + i := byte_of c)\<rparr>)"
proof -
  have n: "is_node s Node" "WriteFunction (the_node s Node) = SerialWriteFunction"
    using assms(1) by (simp_all add: default_tty_def)
  with assms default_tty_flags [OF assms(1)] show ?thesis
    by (simp add: serial_read_loop.simps [of Buf Bytes Node i] SerialRead_def write_char_def
      serial_write_char_def SerialPut_def ordinary_def put_byte_def Let_def)
qed

lemma read_newline:
  assumes "default_tty s Node" "i < Bytes" "rx s = c # cs" "c \<in> {CHR 0x0D, CHR 0x0A}"
  shows "serial_read_loop Buf Bytes Node i s =
     Some (Inr (i, s\<lparr>rx := cs, tx := tx s @ [CHR 0x0D, CHR 0x0A]\<rparr>))"
proof -
  have n: "is_node s Node" "WriteFunction (the_node s Node) = SerialWriteFunction"
    using assms(1) by (simp_all add: default_tty_def)
  with assms default_tty_flags [OF assms(1)] show ?thesis
    by (auto simp add: serial_read_loop.simps [of Buf Bytes Node i] SerialRead_def write_char_def
      serial_write_char_def SerialPut_def put_byte_def Let_def)
qed

lemma read_backspace:
  assumes "default_tty s Node" "i < Bytes" "rx s = CHR 0x08 # cs" "0 < i"
  shows "serial_read_loop Buf Bytes Node i s =
     serial_read_loop Buf Bytes Node (i - 1)
       (s\<lparr>rx := cs, tx := tx s @ [CHR 0x08], mem := (mem s)(Buf + (i - 2) := 0)\<rparr>)"
proof -
  have n: "is_node s Node" "WriteFunction (the_node s Node) = SerialWriteFunction"
    using assms(1) by (simp_all add: default_tty_def)
  with assms default_tty_flags [OF assms(1)] show ?thesis
    by (simp add: serial_read_loop.simps [of Buf Bytes Node i] SerialRead_def write_char_def
      serial_write_char_def SerialPut_def put_byte_def Let_def)
qed

lemma read_line:
  "default_tty s Node \<Longrightarrow> flags_outside s Node Buf n \<Longrightarrow> n < 2 ^ 64 \<Longrightarrow> i + length cs < n \<Longrightarrow>
     rx s = cs @ c # rest \<Longrightarrow> list_all ordinary cs \<Longrightarrow> c \<in> {CHR 0x0D, CHR 0x0A} \<Longrightarrow>
     \<exists>s'. serial_read_loop Buf (of_nat n) Node (of_nat i) s = Some (Inr (of_nat (i + length cs), s')) \<and>
        rx s' = rest \<and> tx s' = tx s @ cs @ [CHR 0x0D, CHR 0x0A] \<and>
        (\<forall>a. let k = unat (a - Buf) in
           mem s' a = (if i \<le> k \<and> k < i + length cs then byte_of (cs ! (k - i)) else mem s a))"
proof (induction cs arbitrary: i s)
  case Nil
  have "(of_nat i :: u64) < of_nat n"
    using Nil.prems(3,4) by (simp add: word_less_nat_alt unat_of_nat_addr)
  from read_newline [OF Nil.prems(1) this, of c rest] Nil.prems(5,7) show ?case by (auto simp: Let_def)
next
  case (Cons d cs)
  let ?s1 = "s\<lparr>rx := cs @ c # rest, tx := tx s @ [d], mem := (mem s)(Buf + of_nat i := byte_of d)\<rparr>"
  have less: "(of_nat i :: u64) < of_nat n"
    using Cons.prems(3,4) by (simp add: word_less_nat_alt unat_of_nat_addr)
  have step: "serial_read_loop Buf (of_nat n) Node (of_nat i) s =
      serial_read_loop Buf (of_nat n) Node (of_nat (Suc i)) ?s1"
    using read_ordinary [OF Cons.prems(1) less, of d "cs @ c # rest"] Cons.prems(5,6)
    by (simp add: add.commute)
  have "default_tty ?s1 Node"
    using default_tty_put [OF Cons.prems(1,2), of i "byte_of d"] Cons.prems(3,4)
    by (simp add: default_tty_def)
  from Cons.IH [of ?s1 "Suc i", OF this] Cons.prems obtain s' where
    s': "serial_read_loop Buf (of_nat n) Node (of_nat (Suc i)) ?s1 = Some (Inr (of_nat (Suc i + length cs), s'))"
    "rx s' = rest" "tx s' = tx s @ d # cs @ [CHR 0x0D, CHR 0x0A]"
    and m: "\<And>a. mem s' a = (if Suc i \<le> unat (a - Buf) \<and> unat (a - Buf) < Suc i + length cs
        then byte_of (cs ! (unat (a - Buf) - Suc i)) else mem ?s1 a)"
    by (auto simp: Let_def)
  have "mem s' a = (if i \<le> unat (a - Buf) \<and> unat (a - Buf) < i + length (d # cs)
      then byte_of ((d # cs) ! (unat (a - Buf) - i)) else mem s a)" for a
    using unat_offset_eq [of i a Buf] Cons.prems(3,4) unfolding m by (auto simp: nth_Cons')
  with s' step show ?case by (auto simp: Let_def)
qed

text \<open>
  A cooked read of a line that fits: the buffer receives exactly the characters before
  the carriage return or line feed, their number is returned, the line is echoed with CR LF,
  and what follows it stays in the input.
\<close>

theorem SerialRead_line:
  assumes "default_tty s Node" "flags_outside s Node Buf n" "Buf \<noteq> NULL"
    and "length cs < n" "n < 2 ^ 31" "rx s = cs @ c # rest" "list_all ordinary cs"
    and "c \<in> {CHR 0x0D, CHR 0x0A}"
  shows "\<exists>s'. SerialReadFn Buf 1 (of_nat n) Node s = Some (Inr (of_nat (length cs), s')) \<and>
     rx s' = rest \<and> tx s' = tx s @ cs @ [CHR 0x0D, CHR 0x0A] \<and>
     load_bytes (mem s') Buf (length cs) = map byte_of cs"
proof -
  from assms(5) have "n < 2 ^ 64" by (rule less_trans) simp
  with read_line [of s Node Buf n 0 cs c rest] assms obtain s' where
    s': "serial_read_loop Buf (of_nat n) Node 0 s = Some (Inr (of_nat (length cs), s'))"
    "rx s' = rest" "tx s' = tx s @ cs @ [CHR 0x0D, CHR 0x0A]" and
    m: "\<And>a. mem s' a = (if unat (a - Buf) < length cs then byte_of (cs ! unat (a - Buf)) else mem s a)"
    by (auto simp: Let_def)
  have "Node \<noteq> NULL" using assms(1) by (auto simp: default_tty_def)
  moreover have "length cs < 2 ^ 32" "length cs < 2 ^ 64" using assms(4,5) \<open>n < 2 ^ 64\<close> by simp_all
  ultimately have "SerialReadFn Buf 1 (of_nat n) Node s = Some (Inr (of_nat (length cs), s'))"
    using s'(1) assms(3) by (simp add: SerialReadFn_def int_of_def unsigned_of_nat take_bit_nat_eq_self)
  moreover have "load_bytes (mem s') Buf (length cs) = map byte_of cs"
  proof (rule nth_equalityI)
    fix i assume "i < length (load_bytes (mem s') Buf (length cs))"
    with assms(4) \<open>n < 2 ^ 64\<close> show "load_bytes (mem s') Buf (length cs) ! i = map byte_of cs ! i"
      by (simp add: load_bytes_def m unat_of_nat_addr)
  qed simp
  ultimately show ?thesis using s'(2,3) by blast
qed

definition tty_kernel :: "string \<Rightarrow> kernel" where
  "tty_kernel input = root_only\<lparr>
     nodes := [0x5000 \<mapsto> zero_node\<lparr>DriverData := 0xA000, WriteFunction := SerialWriteFunction\<rparr>],
     mem := store64 (\<lambda>_. 0) 0xA000 (TTY_COOKED OR TTY_ECHO OR TTY_NLCR OR TTY_CRNL), rx := input\<rparr>"

lemma tty_kernel_ok: "default_tty (tty_kernel input) 0x5000" "rx (tty_kernel input) = input"
  "n \<le> 256 \<Longrightarrow> flags_outside (tty_kernel input) 0x5000 0x8000 n"
proof -
  show "default_tty (tty_kernel input) 0x5000" "rx (tty_kernel input) = input"
    by (simp_all add: default_tty_def tty_kernel_def is_node_def zero_node_def)
  show "flags_outside (tty_kernel input) 0x5000 0x8000 n" if "n \<le> 256"
    unfolding flags_outside_def
  proof (intro allI impI)
    fix k :: nat assume "k < 8"
    then have "unat (of_nat (0x2000 + k) :: addr) = 0x2000 + k" by (intro unat_of_nat_addr) simp
    with that show "n \<le> unat (DriverData (the_node (tty_kernel input) 0x5000) + of_nat k - 0x8000)"
      by (simp add: tty_kernel_def zero_node_def add.commute)
  qed
qed

theorem SerialRead_line_witness:
  "\<exists>s'. SerialReadFn 0x8000 1 15 0x5000 (tty_kernel (''ls'' @ [CHR 0x0D])) = Some (Inr (2, s')) \<and>
     load_bytes (mem s') 0x8000 2 = [108, 115]"
proof -
  have "\<exists>s'. SerialReadFn 0x8000 1 (of_nat 15) 0x5000 (tty_kernel (''ls'' @ [CHR 0x0D])) =
      Some (Inr (of_nat (length ''ls''), s')) \<and> load_bytes (mem s') 0x8000 (length ''ls'') = map byte_of ''ls''"
    using SerialRead_line [of "tty_kernel (''ls'' @ [CHR 0x0D])" "0x5000" "0x8000" 15 "''ls''" "CHR 0x0D" "[]"]
      tty_kernel_ok by (auto simp: ordinary_def)
  then show ?thesis by (simp add: byte_of_def numeral_2_eq_2)
qed

text \<open>
  The erase character: typed after the first character of a line it writes a zero to the
  byte before the buffer and leaves the character in place; typed after the second it
  zeroes the first one, and the second stays to be counted.
\<close>

theorem SerialRead_backspace:
  assumes "default_tty s Node" "flags_outside s Node Buf 2" "flags_outside s Node (Buf - 1) 1" "Buf \<noteq> NULL"
    and "ordinary c" "ordinary d" "3 \<le> n"
  shows "(rx s = [c, CHR 0x08, CHR 0x0D] \<longrightarrow>
      (\<exists>s'. SerialReadFn Buf 1 n Node s = Some (Inr (0, s')) \<and>
        mem s' (Buf - 1) = 0 \<and> mem s' Buf = byte_of c)) \<and>
    (rx s = [c, d, CHR 0x08, CHR 0x0D] \<longrightarrow>
      (\<exists>s'. SerialReadFn Buf 1 n Node s = Some (Inr (1, s')) \<and>
        mem s' Buf = 0 \<and> mem s' (Buf + 1) = byte_of d))"
proof (intro conjI impI)
  have n: "0 < n" "1 < n" "2 < n" and node: "Node \<noteq> NULL"
    using assms(1,7) by (auto simp: default_tty_def word_less_nat_alt word_le_nat_alt)
  let ?s1 = "\<lambda>r. s\<lparr>rx := r, tx := tx s @ [c], mem := (mem s)(Buf := byte_of c)\<rparr>"
  have t1: "default_tty (?s1 r) Node" for r
    using default_tty_put [OF assms(1,2), of 0 "byte_of c"] by (simp add: default_tty_def)
  {
    assume rx: "rx s = [c, CHR 0x08, CHR 0x0D]"
    let ?s2 = "s\<lparr>rx := [CHR 0x0D], tx := tx s @ [c, CHR 0x08], mem := (mem s)(Buf := byte_of c, Buf - 1 := 0)\<rparr>"
    have "default_tty ?s2 Node"
      using default_tty_put [OF t1, of "[]" "Buf - 1" 1 0 0] assms(3) by (simp add: default_tty_def flags_outside_def)
    from read_newline [OF this n(1), of "CHR 0x0D" "[]" Buf]
      read_backspace [OF t1 n(2), of "[CHR 0x08, CHR 0x0D]" "[CHR 0x0D]" Buf]
      read_ordinary [OF assms(1) n(1) rx assms(5), of Buf]
    show "\<exists>s'. SerialReadFn Buf 1 n Node s = Some (Inr (0, s')) \<and> mem s' (Buf - 1) = 0 \<and> mem s' Buf = byte_of c"
      using assms(4) node by (simp add: SerialReadFn_def int_of_def)
  next
    assume rx: "rx s = [c, d, CHR 0x08, CHR 0x0D]"
    let ?s2 = "\<lambda>r. s\<lparr>rx := r, tx := tx s @ [c, d], mem := (mem s)(Buf := byte_of c, Buf + 1 := byte_of d)\<rparr>"
    have t2: "default_tty (?s2 r) Node" for r
      using default_tty_put [OF t1, of "[]" Buf 2 1 "byte_of d"] assms(2) by (simp add: default_tty_def flags_outside_def)
    have t3: "default_tty (s\<lparr>rx := [CHR 0x0D], tx := tx s @ [c, d, CHR 0x08],
        mem := (mem s)(Buf := 0, Buf + 1 := byte_of d)\<rparr>) Node"
      using default_tty_put [OF t2, of "[]" Buf 2 0 0] assms(2)
      by (simp add: default_tty_def flags_outside_def fun_upd_twist)
    from read_newline [OF t3 n(2), of "CHR 0x0D" "[]" Buf]
      read_backspace [OF t2 n(3), of "[CHR 0x08, CHR 0x0D]" "[CHR 0x0D]" Buf]
      read_ordinary [OF t1 n(2), of "[d, CHR 0x08, CHR 0x0D]" d "[CHR 0x08, CHR 0x0D]" Buf]
      read_ordinary [OF assms(1) n(1) rx assms(5), of Buf]
    show "\<exists>s'. SerialReadFn Buf 1 n Node s = Some (Inr (1, s')) \<and> mem s' Buf = 0 \<and> mem s' (Buf + 1) = byte_of d"
      using assms(4,6) node by (simp add: SerialReadFn_def int_of_def fun_upd_twist)
  }
qed

theorem SerialRead_backspace_witness:
  "\<exists>s'. SerialReadFn 0x8000 1 15 0x5000 (tty_kernel [CHR ''x'', CHR 0x08, CHR 0x0D]) = Some (Inr (0, s')) \<and>
     mem s' 0x7FFF = 0 \<and> mem s' 0x8000 = byte_of CHR ''x''"
proof -
  have "flags_outside (tty_kernel input) 0x5000 (0x8000 - 1) 1" for input
    unfolding flags_outside_def
  proof (intro allI impI)
    fix k :: nat assume "k < 8"
    then have "unat (of_nat (0x2001 + k) :: addr) = 0x2001 + k" by (intro unat_of_nat_addr) simp
    then show "1 \<le> unat (DriverData (the_node (tty_kernel input) 0x5000) + of_nat k - (0x8000 - 1))"
      by (simp add: tty_kernel_def zero_node_def add.commute)
  qed
  with SerialRead_backspace [of "tty_kernel [CHR ''x'', CHR 0x08, CHR 0x0D]" "0x5000" "0x8000" "CHR ''x''" "CHR ''x''" 15]
    tty_kernel_ok show ?thesis by (simp add: ordinary_def)
qed

end
