(* ===== verification/VFD.thy ===== *)
theory VFD
  imports Devices
begin

text \<open>
  File descriptors, \<^verbatim>\<open>src/kernel/vfs/vfd.c\<close>. The descriptors of a task are a singly
  linked list of heap blocks whose head, \<^verbatim>\<open>Files\<close>, is embedded in the task; both
  structures are laid out in the byte memory. The lemmas relate the list to a finite map
  from descriptors to nodes.
\<close>

section \<open>Layout\<close>

text \<open>\<^verbatim>\<open>_FileDescriptor\<close>: \<^verbatim>\<open>Reference\<close> at 0, \<^verbatim>\<open>Next\<close> at 8,
  \<^verbatim>\<open>FileIndex\<close> at 16. \<^verbatim>\<open>Task\<close>: 24 registers, \<^verbatim>\<open>ProgramIdentifier\<close> at 192,
  \<^verbatim>\<open>Files\<close> at 200, \<^verbatim>\<open>BaseDir\<close> at 224.\<close>

definition fd_Reference :: nat where "fd_Reference = 0"
definition fd_Next :: nat where "fd_Next = 8"
definition fd_FileIndex :: nat where "fd_FileIndex = 16"
definition task_ProgramIdentifier :: nat where "task_ProgramIdentifier = 192"
definition task_Files :: nat where "task_Files = 200"
definition task_BaseDir :: nat where "task_BaseDir = 224"

lemmas offsets = fd_Reference_def fd_Next_def fd_FileIndex_def task_ProgramIdentifier_def
  task_Files_def task_BaseDir_def

definition ld :: "addr \<Rightarrow> nat \<Rightarrow> kernel \<Rightarrow> u64 result" where
  "ld p x s = (if p = NULL then Inl Fault else Inr (load64 (mem s) (p + of_nat x)))"

definition st :: "addr \<Rightarrow> nat \<Rightarrow> u64 \<Rightarrow> kernel \<Rightarrow> kernel result" where
  "st p x v s = (if p = NULL then Inl Fault else Inr (s\<lparr>mem := store64 (mem s) (p + of_nat x) v\<rparr>))"

text \<open>\<^verbatim>\<open>(Task *)CurrentProc->DriverData\<close> and the address of its \<^verbatim>\<open>Files\<close>.\<close>

definition current_task :: "kernel \<Rightarrow> addr result" where
  "current_task s = rbind (node (CurrentProc s) s) (\<lambda>n. Inr (DriverData n))"

definition files :: "kernel \<Rightarrow> addr result" where
  "files s = rbind (current_task s) (\<lambda>t. if t = NULL then Inl Fault else Inr (t + of_nat task_Files))"

section \<open>Operations\<close>

partial_function (option) findb_loop :: "addr \<Rightarrow> u64 \<Rightarrow> kernel \<Rightarrow> addr outcome" where
  "findb_loop Desc Index s =
     obind (Some (ld Desc fd_Next s)) (\<lambda>nx.
       if nx \<noteq> NULL then
         obind (Some (ld nx fd_FileIndex s)) (\<lambda>ix.
           if ix = Index then Some (Inr Desc) else findb_loop nx Index s)
       else Some (Inl (Panic PANIC_FD_NOT_FOUND)))"

definition findb :: "u64 \<Rightarrow> kernel \<Rightarrow> addr outcome" where
  "findb Index s = obind (Some (files s)) (\<lambda>Desc. findb_loop Desc Index s)"

partial_function (option) findfd_loop :: "addr \<Rightarrow> u64 \<Rightarrow> kernel \<Rightarrow> addr outcome" where
  "findfd_loop Desc Index s =
     (if Desc \<noteq> NULL then
        obind (Some (ld Desc fd_FileIndex s)) (\<lambda>ix.
          if ix = Index then Some (Inr Desc)
          else obind (Some (ld Desc fd_Next s)) (\<lambda>nx. findfd_loop nx Index s))
      else Some (Inl (Panic PANIC_FD_NOT_FOUND)))"

definition findfd :: "u64 \<Rightarrow> kernel \<Rightarrow> addr outcome" where
  "findfd Index s = obind (Some (files s)) (\<lambda>Desc. findfd_loop Desc Index s)"

partial_function (option) last_desc :: "addr \<Rightarrow> kernel \<Rightarrow> addr outcome" where
  "last_desc Desc s =
     obind (Some (ld Desc fd_Next s)) (\<lambda>nx. if nx \<noteq> NULL then last_desc nx s else Some (Inr Desc))"

text \<open>The list's end gets the new descriptor.\<close>

definition append_desc :: "addr \<Rightarrow> kernel \<Rightarrow> kernel outcome" where
  "append_desc FileDesc s =
     obind (Some (files s)) (\<lambda>F.
     obind (Some (ld F fd_Next s)) (\<lambda>nx.
       if nx = NULL then Some (st F fd_Next FileDesc s)
       else obind (last_desc F s) (\<lambda>Desc. Some (st Desc fd_Next FileDesc s))))"

definition CreateEntry :: "addr \<Rightarrow> kernel \<Rightarrow> (u64 \<times> kernel) outcome" where
  "CreateEntry Node s =
     obind (Some (set_node Node (\<lambda>n. n\<lparr>Flags := Flags n OR VFS_OPENED\<rparr>) s)) (\<lambda>s1.
     obind (Some (kalloc 24 s1)) (\<lambda>(FileDesc, s2).
     obind (Some (st FileDesc fd_Reference Node s2)) (\<lambda>s3.
     obind (Some (st FileDesc fd_FileIndex (Current s3) s3)) (\<lambda>s4.
     obind (Some (st FileDesc fd_Next NULL s4)) (\<lambda>s5.
     obind (append_desc FileDesc s5) (\<lambda>s6.
     Some (Inr (Current s6, s6\<lparr>Current := Current s6 + 1\<rparr>))))))))"

text \<open>\<^verbatim>\<open>open\<close> and the other calls; \<^verbatim>\<open>fd_\<close> distinguishes them from HOL's names.\<close>

definition fd_open :: "cstr \<Rightarrow> VNodeFlags \<Rightarrow> kernel \<Rightarrow> (u64 \<times> kernel) outcome" where
  "fd_open PathFromRoot Fl s =
     (case PathFromRoot of
        None \<Rightarrow> Some (Inl (Panic PANIC_NULL_POINTER_DEREFERENCE))
      | Some Path \<Rightarrow>
          obind (Some (node (RootVNode s) s)) (\<lambda>r.
          obind (Some (strnlen (Some Path) 256)) (\<lambda>len.
          obind (call_RelativeFind (RelativeFind r) (RootVNode s) (Some Path) len s) (\<lambda>Node.
          obind (Some (PanicIfNull Node)) (\<lambda>_.
          obind (Some (node Node s)) (\<lambda>n.
            if has_flag (Flags n) VFS_OPENED then Some (Inl (Panic PANIC_DOUBLE_OPEN))
            else CreateEntry Node s))))))"

definition fd_close :: "u64 \<Rightarrow> kernel \<Rightarrow> kernel outcome" where
  "fd_close fd s =
     obind (findb fd s) (\<lambda>Before.
     obind (Some (ld Before fd_Next s)) (\<lambda>Target.
     obind (Some (ld Target fd_Next s)) (\<lambda>nx.
     obind (Some (st Before fd_Next nx s)) (\<lambda>s1.
     obind (Some (ld Target fd_Reference s1)) (\<lambda>ref.
     obind (Some (set_node ref (\<lambda>n. n\<lparr>Flags := Flags n AND NOT VFS_OPENED\<rparr>) s1)) (\<lambda>s2.
     obind (Some (ld Target fd_Reference s2)) (\<lambda>ref2.
     obind (Some (node ref2 s2)) (\<lambda>n.
     obind (if has_flag (Flags n) VFS_DELETE then DeleteVNode ref2 s2 else Some (Inr s2)) (\<lambda>s3.
     Some (kfree Target s3))))))))))"

definition fd_lseek :: "u64 \<Rightarrow> 64 word \<Rightarrow> SeekType \<Rightarrow> kernel \<Rightarrow> (64 word \<times> kernel) outcome" where
  "fd_lseek fd Offset Whence s =
     obind (findfd fd s) (\<lambda>File.
     obind (Some (ld File fd_Reference s)) (\<lambda>ref.
     obind (Some (VNodeSeek ref Offset Whence s)) (\<lambda>s1.
     obind (Some (ld File fd_Reference s1)) (\<lambda>ref1.
     Some (rbind (node ref1 s1) (\<lambda>n. Inr (FileOffset n, s1)))))))"

text \<open>The \<^verbatim>\<open>int\<close> of the node's function is returned as an \<^verbatim>\<open>unsigned long\<close>.\<close>

definition fd_write :: "u64 \<Rightarrow> addr \<Rightarrow> u64 \<Rightarrow> kernel \<Rightarrow> (u64 \<times> kernel) outcome" where
  "fd_write fd Buf Count s =
     obind (Some (PanicIfNull Buf)) (\<lambda>_.
     obind (findfd fd s) (\<lambda>File.
     obind (Some (ld File fd_Reference s)) (\<lambda>ref.
     obind (Some (node ref s)) (\<lambda>n.
     obind (Some (call_WriteFunction (WriteFunction n) Buf Count 1 ref s)) (\<lambda>(r, s1).
     Some (Inr (scast r, s1)))))))"

definition fd_read :: "u64 \<Rightarrow> addr \<Rightarrow> u64 \<Rightarrow> kernel \<Rightarrow> (u64 \<times> kernel) outcome" where
  "fd_read fd Buf Count s =
     obind (Some (PanicIfNull Buf)) (\<lambda>_.
     obind (findfd fd s) (\<lambda>File.
     obind (Some (ld File fd_Reference s)) (\<lambda>ref.
     obind (Some (node ref s)) (\<lambda>n.
     obind (call_ReadFunction (ReadFunction n) Buf Count 1 ref s) (\<lambda>(r, s1).
     Some (Inr (scast r, s1)))))))"

definition chdir :: "cstr \<Rightarrow> kernel \<Rightarrow> kernel outcome" where
  "chdir path s =
     obind (Some (current_task s)) (\<lambda>t.
     obind (Some (node (RootVNode s) s)) (\<lambda>r.
     obind (Some (ld t task_BaseDir s)) (\<lambda>base.
     obind (Some (strnlen path 256)) (\<lambda>len.
     obind (call_RelativeFind (RelativeFind r) base path len s) (\<lambda>found.
     Some (st t task_BaseDir found s))))))"

definition cdir :: "kernel \<Rightarrow> addr result" where
  "cdir s = rbind (current_task s) (\<lambda>t. ld t task_BaseDir s)"

section \<open>Words of tasks and descriptors\<close>

definition word_at :: "kernel \<Rightarrow> addr \<Rightarrow> nat \<Rightarrow> u64" where
  "word_at s p x = load64 (mem s) (p + of_nat x)"

definition set_word :: "addr \<Rightarrow> nat \<Rightarrow> u64 \<Rightarrow> kernel \<Rightarrow> kernel" where
  "set_word p x v s = s\<lparr>mem := store64 (mem s) (p + of_nat x) v\<rparr>"

lemma ld_word [simp]: "p \<noteq> NULL \<Longrightarrow> ld p x s = Inr (word_at s p x)" "ld NULL x s = Inl Fault"
  by (simp_all add: ld_def word_at_def)

lemma st_word [simp]: "p \<noteq> NULL \<Longrightarrow> st p x v s = Inr (set_word p x v s)" "st NULL x v s = Inl Fault"
  by (simp_all add: st_def set_word_def)

lemma set_word_frame [simp, frame_simps]:
  "nodes (set_word p x v s) = nodes s" "Root (set_word p x v s) = Root s"
  "CurrentProc (set_word p x v s) = CurrentProc s" "Current (set_word p x v s) = Current s"
  "Proc (set_word p x v s) = Proc s" "SelfProc (set_word p x v s) = SelfProc s"
  "ScratchProc (set_word p x v s) = ScratchProc s" "ProgramIdentifier (set_word p x v s) = ProgramIdentifier s"
  "tx (set_word p x v s) = tx s" "rx (set_word p x v s) = rx s" "Ticks (set_word p x v s) = Ticks s"
  "MemoryStart (set_word p x v s) = MemoryStart s" "PageBitmap (set_word p x v s) = PageBitmap s"
  "layout_ok (set_word p x v s) = layout_ok s" "low_room (set_word p x v s) = low_room s"
  "is_node (set_word p x v s) = is_node s"
  by (simp_all add: set_word_def low_room_def page_used_def fun_eq_iff)

lemma live_set_word [simp]:
  "layout_ok s \<Longrightarrow> p \<in> live_blocks s \<Longrightarrow> x + 8 \<le> 4080 \<Longrightarrow> live_blocks (set_word p x v s) = live_blocks s"
  by (simp add: set_word_def)

lemma heap_ok_set_word [simp]:
  "p \<in> live_blocks s \<Longrightarrow> x + 8 \<le> 4080 \<Longrightarrow> heap_ok s n \<Longrightarrow> heap_ok (set_word p x v s) n"
  by (simp add: heap_ok_def static_object_def)

lemma word_set_same [simp]: "word_at (set_word p x v s) p x = v"
  by (simp add: word_at_def set_word_def)

lemma word_set_other:
  "layout_ok s \<Longrightarrow> p \<in> live_blocks s \<Longrightarrow> q \<in> live_blocks s \<Longrightarrow> x + 8 \<le> 4080 \<Longrightarrow> y + 8 \<le> 4080 \<Longrightarrow>
     p \<noteq> q \<or> x + 8 \<le> y \<or> y + 8 \<le> x \<Longrightarrow> word_at (set_word p x v s) q y = word_at s q y"
  by (simp add: word_at_def set_word_def word_apart)

lemma word_at_frame [simp]:
  "word_at (s\<lparr>nodes := m\<rparr>) = word_at s" "word_at (s\<lparr>Current := c\<rparr>) = word_at s"
  by (simp_all add: word_at_def fun_eq_iff)

lemma live_not_null: "layout_ok s \<Longrightarrow> p \<in> live_blocks s \<Longrightarrow> p \<noteq> NULL"
  using live_word_not_null [of s p 0] by simp

section \<open>The descriptor list\<close>

text \<open>One entry: the block, the descriptor number, the node.\<close>

type_synonym entry = "addr \<times> u64 \<times> addr"

fun fd_list :: "kernel \<Rightarrow> addr \<Rightarrow> entry list \<Rightarrow> bool" where
  "fd_list s p [] \<longleftrightarrow> p = NULL"
| "fd_list s p ((d, ix, r) # ds) \<longleftrightarrow> p = d \<and> d \<in> live_blocks s \<and>
     word_at s d fd_FileIndex = ix \<and> word_at s d fd_Reference = r \<and> fd_list s (word_at s d fd_Next) ds"

lemma fd_list_ref: "fd_list s p ds \<Longrightarrow> (d, ix, r) \<in> set ds \<Longrightarrow> word_at s d fd_Reference = r"
  by (induction ds arbitrary: p) auto

definition files_next :: nat where "files_next = task_Files + fd_Next"
definition files_index :: nat where "files_index = task_Files + fd_FileIndex"

definition fd_table :: "kernel \<Rightarrow> addr \<Rightarrow> entry list \<Rightarrow> bool" where
  "fd_table s T ds \<longleftrightarrow>
     layout_ok s \<and> is_node s (CurrentProc s) \<and> DriverData (the_node s (CurrentProc s)) = T \<and>
     T \<in> live_blocks s \<and> word_at s T files_index = - 1 \<and> fd_list s (word_at s T files_next) ds \<and>
     distinct (T # map fst ds) \<and> distinct (map (fst \<circ> snd) ds) \<and>
     (\<forall>(d, ix, r) \<in> set ds. ix < Current s)"

text \<open>What the table means: a partial map from descriptors to nodes.\<close>

definition fd_map :: "entry list \<Rightarrow> u64 \<Rightarrow> addr option" where
  "fd_map ds = map_of (map snd ds)"

lemma fd_list_live: "fd_list s p ds \<Longrightarrow> (d, ix, r) \<in> set ds \<Longrightarrow> d \<in> live_blocks s"
  by (induction ds arbitrary: p) auto

lemma files_offsets [simp]:
  "files_next \<le> 4072" "files_index \<le> 4072" "fd_Next \<le> 4072" "fd_FileIndex \<le> 4072"
  "fd_Reference \<le> 4072" "task_BaseDir \<le> 4072" "task_ProgramIdentifier \<le> 4072"
  by (simp_all add: files_next_def files_index_def offsets)

lemma files_word:
  "word_at s (T + of_nat task_Files) fd_Next = word_at s T files_next"
  "word_at s (T + of_nat task_Files) fd_FileIndex = word_at s T files_index"
  "set_word (T + of_nat task_Files) fd_Next v s = set_word T files_next v s"
  by (simp_all add: word_at_def set_word_def files_next_def files_index_def add.assoc)

lemma files_not_null:
  "layout_ok s \<Longrightarrow> T \<in> live_blocks s \<Longrightarrow> T + of_nat task_Files \<noteq> NULL"
  by (rule live_word_not_null) (simp_all add: offsets)

lemma fd_table_files:
  assumes "fd_table s T ds"
  shows "files s = Inr (T + of_nat task_Files)" "T + of_nat task_Files \<noteq> NULL"
  using assms files_not_null [of s T] live_not_null [of s T]
  by (simp_all add: fd_table_def files_def current_task_def)

section \<open>Searching the list\<close>

lemma findfd_loop_list:
  "layout_ok s \<Longrightarrow> fd_list s p ds \<Longrightarrow>
     findfd_loop p ix s = Some (case find (\<lambda>e. fst (snd e) = ix) ds of
        None \<Rightarrow> Inl (Panic PANIC_FD_NOT_FOUND) | Some e \<Rightarrow> Inr (fst e))"
proof (induction ds arbitrary: p)
  case Nil
  then show ?case by (simp add: findfd_loop.simps)
next
  case (Cons e ds)
  obtain d i r where e: "e = (d, i, r)" by (cases e)
  with Cons.prems have "d \<noteq> NULL" using live_not_null [of s d] by simp
  with Cons e show ?case by (simp add: findfd_loop.simps [of d])
qed

fun before :: "addr \<Rightarrow> u64 \<Rightarrow> entry list \<Rightarrow> addr option" where
  "before prev ix [] = None"
| "before prev ix ((d, i, r) # ds) = (if i = ix then Some prev else before d ix ds)"

lemma findb_loop_list:
  "layout_ok s \<Longrightarrow> Desc \<noteq> NULL \<Longrightarrow> fd_list s (word_at s Desc fd_Next) ds \<Longrightarrow>
     findb_loop Desc ix s = Some (case before Desc ix ds of
        None \<Rightarrow> Inl (Panic PANIC_FD_NOT_FOUND) | Some b \<Rightarrow> Inr b)"
proof (induction ds arbitrary: Desc)
  case Nil
  then show ?case by (simp add: findb_loop.simps)
next
  case (Cons e ds)
  obtain d i r where e: "e = (d, i, r)" by (cases e)
  with Cons.prems have "d \<noteq> NULL" using live_not_null [of s d] by simp
  with Cons e show ?case by (simp add: findb_loop.simps [of Desc])
qed

lemma last_desc_list:
  "layout_ok s \<Longrightarrow> Desc \<noteq> NULL \<Longrightarrow> fd_list s (word_at s Desc fd_Next) ds \<Longrightarrow>
     last_desc Desc s = Some (Inr (last (Desc # map fst ds)))"
proof (induction ds arbitrary: Desc)
  case Nil
  then show ?case by (simp add: last_desc.simps)
next
  case (Cons e ds)
  obtain d i r where e: "e = (d, i, r)" by (cases e)
  with Cons.prems have "d \<noteq> NULL" using live_not_null [of s d] by simp
  with Cons e show ?case by (simp add: last_desc.simps [of Desc])
qed

section \<open>Changing the list\<close>

fun fd_seg :: "kernel \<Rightarrow> addr \<Rightarrow> entry list \<Rightarrow> addr \<Rightarrow> bool" where
  "fd_seg s p [] e \<longleftrightarrow> p = e"
| "fd_seg s p ((d, ix, r) # ds) e \<longleftrightarrow> p = d \<and> d \<in> live_blocks s \<and>
     word_at s d fd_FileIndex = ix \<and> word_at s d fd_Reference = r \<and> fd_seg s (word_at s d fd_Next) ds e"

lemma fd_list_seg: "fd_list s p ds = fd_seg s p ds NULL"
  by (induction ds arbitrary: p) auto

lemma fd_seg_append [simp]: "fd_seg s p (us @ vs) e \<longleftrightarrow> (\<exists>m. fd_seg s p us m \<and> fd_seg s m vs e)"
  by (induction us arbitrary: p) auto

lemma fd_seg_unchanged:
  "(\<And>d x. d \<in> fst ` set ds \<Longrightarrow> x \<in> {fd_Reference, fd_Next, fd_FileIndex} \<Longrightarrow>
      d \<in> live_blocks s \<Longrightarrow> d \<in> live_blocks t \<and> word_at t d x = word_at s d x) \<Longrightarrow>
     fd_seg s p ds e \<Longrightarrow> fd_seg t p ds e"
proof (induction ds arbitrary: p)
  case (Cons c ds)
  obtain d i r where c: "c = (d, i, r)" by (cases c)
  with Cons.prems(2) have "d \<in> live_blocks s" by simp
  with Cons.prems(1) [of d fd_FileIndex] Cons.prems(1) [of d fd_Reference] Cons.prems(1) [of d fd_Next] c
  have "d \<in> live_blocks t" "word_at t d fd_FileIndex = word_at s d fd_FileIndex"
    "word_at t d fd_Reference = word_at s d fd_Reference" "word_at t d fd_Next = word_at s d fd_Next"
    by simp_all
  moreover have "fd_seg t (word_at s d fd_Next) ds e"
    using Cons.prems c by (intro Cons.IH) auto
  ultimately show ?case using Cons.prems(2) c by simp
qed simp

lemma fd_seg_set_word:
  assumes "fd_seg s p ds e" "layout_ok s" "b \<in> live_blocks s" "x + 8 \<le> 4080" "b \<notin> fst ` set ds"
  shows "fd_seg (set_word b x v s) p ds e"
proof (rule fd_seg_unchanged [OF _ assms(1)])
  fix d y assume "d \<in> fst ` set ds" "y \<in> {fd_Reference, fd_Next, fd_FileIndex}" "d \<in> live_blocks s"
  moreover from this(1) have "b \<noteq> d" using assms(5) by auto
  moreover from calculation(2) have "y + 8 \<le> 4080" by (auto simp: offsets)
  ultimately show "d \<in> live_blocks (set_word b x v s) \<and> word_at (set_word b x v s) d y = word_at s d y"
    using assms(2-4) word_set_other [of s b d x y v] by simp
qed

text \<open>Where the link to the rest of the list is stored.\<close>

definition link_block :: "addr \<Rightarrow> entry list \<Rightarrow> addr" where
  "link_block T us = (if us = [] then T else fst (last us))"

definition link_offset :: "entry list \<Rightarrow> nat" where
  "link_offset us = (if us = [] then files_next else fd_Next)"

definition link_desc :: "addr \<Rightarrow> entry list \<Rightarrow> addr" where
  "link_desc T us = (if us = [] then T + of_nat task_Files else fst (last us))"

lemma link_desc_word [simp]:
  "word_at s (link_desc T us) fd_Next = word_at s (link_block T us) (link_offset us)"
  "set_word (link_desc T us) fd_Next v s = set_word (link_block T us) (link_offset us) v s"
  by (simp_all add: link_desc_def link_block_def link_offset_def files_word)

lemma link_offset_small [simp]: "link_offset us \<le> 4072"
  by (simp add: link_offset_def)

lemma link_block_live:
  "T \<in> live_blocks s \<Longrightarrow> fd_seg s p us e \<Longrightarrow> link_block T us \<in> live_blocks s"
  by (cases us rule: rev_cases) (auto simp: link_block_def)

lemma link_desc_not_null:
  "layout_ok s \<Longrightarrow> T \<in> live_blocks s \<Longrightarrow> fd_seg s p us e \<Longrightarrow> link_desc T us \<noteq> NULL"
  using files_not_null [of s T] live_not_null [of s "link_block T us"] link_block_live [of T s p us e]
  by (auto simp: link_desc_def link_block_def)

lemma relink:
  assumes "layout_ok s" "T \<in> live_blocks s" "fd_seg s (word_at s T files_next) us m" "distinct (T # map fst us)"
    and "t = set_word (link_block T us) (link_offset us) v s" "fd_seg t v vs NULL"
  shows "fd_list t (word_at t T files_next) (us @ vs)"
proof (cases us rule: rev_cases)
  case Nil
  with assms(5,6) show ?thesis by (simp add: link_block_def link_offset_def fd_list_seg)
next
  case (snoc ws l)
  obtain d i r where l: "l = (d, i, r)" by (cases l)
  from assms(3) snoc l have d: "d \<in> live_blocks s" "word_at s d fd_FileIndex = i" "word_at s d fd_Reference = r"
    and ws: "fd_seg s (word_at s T files_next) ws d" by auto
  have t: "t = set_word d fd_Next v s" using assms(5) snoc l by (simp add: link_block_def link_offset_def)
  have "d \<noteq> T" "d \<notin> fst ` set ws" using assms(4) snoc l by auto
  then have "word_at t T files_next = word_at s T files_next"
    unfolding t using assms(1,2) d(1) by (intro word_set_other) simp_all
  moreover have "fd_seg t (word_at s T files_next) ws d"
    unfolding t using assms(1) d(1) ws \<open>d \<notin> fst ` set ws\<close> by (intro fd_seg_set_word) simp_all
  moreover have "word_at t d fd_FileIndex = i" "word_at t d fd_Reference = r"
    unfolding t using assms(1) d word_set_other [of s d d fd_Next]
    by (simp_all add: fd_Next_def fd_FileIndex_def fd_Reference_def)
  moreover have "word_at t d fd_Next = v" "d \<in> live_blocks t" unfolding t using assms(1) d(1) by simp_all
  ultimately show ?thesis using assms(6) snoc l by (auto simp: fd_list_seg)
qed

section \<open>Opening\<close>

lemma heap_ok_Current [simp]: "heap_ok (s\<lparr>Current := c\<rparr>) n = heap_ok s n"
  by (simp add: heap_ok_def static_object_def)

lemma fd_list_Current [simp]: "fd_list (s\<lparr>Current := c\<rparr>) p ds = fd_list s p ds"
  by (induction ds arbitrary: p) auto

lemma fd_table_seg:
  "fd_table s T (us @ vs) \<Longrightarrow> \<exists>m. fd_seg s (word_at s T files_next) us m \<and> fd_seg s m vs NULL"
  by (simp add: fd_table_def fd_list_seg)

lemma word_less_succ: "c < - 1 \<Longrightarrow> c < c + 1" for c :: u64
proof -
  assume "c < - 1"
  then have "unat c < unat (- 1 :: u64)" by (simp add: word_less_nat_alt)
  then have "unat c + unat (1 :: u64) < 2 ^ 64" by (simp add: unsigned_minus_1_eq_mask mask_eq_exp_minus_1)
  then show "c < c + 1" using unat_addr_add [of c 1] by (simp add: word_less_nat_alt)
qed

lemma fd_list_frame:
  assumes "fd_list s p ds" "live_blocks s \<subseteq> live_blocks t"
    and "\<And>q x. q \<in> live_blocks s \<Longrightarrow> x \<le> 4072 \<Longrightarrow> word_at t q x = word_at s q x"
  shows "fd_list t p ds"
  unfolding fd_list_seg
proof (rule fd_seg_unchanged)
  show "fd_seg s p ds NULL" using assms(1) by (simp add: fd_list_seg)
next
  fix d x assume "x \<in> {fd_Reference, fd_Next, fd_FileIndex}" "d \<in> live_blocks s"
  moreover from this(1) have "x \<le> 4072" by auto
  ultimately show "d \<in> live_blocks t \<and> word_at t d x = word_at s d x" using assms(2,3) by auto
qed

lemma CreateEntry_ok:
  assumes "fd_table s T ds" "heap_ok s (Suc n)" "is_node s N" "Current s < - 1"
  shows "\<exists>p s'. CreateEntry N s = Some (Inr (Current s, s')) \<and>
     fd_table s' T (ds @ [(p, Current s, N)]) \<and>
     nodes s' = (nodes s)(N \<mapsto> (the_node s N)\<lparr>Flags := Flags (the_node s N) OR VFS_OPENED\<rparr>) \<and>
     Current s' = Current s + 1 \<and> heap_ok s' n \<and> p \<notin> live_blocks s \<and>
     live_blocks s' = insert p (live_blocks s) \<and> Root s' = Root s \<and> CurrentProc s' = CurrentProc s"
proof -
  let ?f = "(the_node s N)\<lparr>Flags := Flags (the_node s N) OR VFS_OPENED\<rparr>"
  let ?s1 = "s\<lparr>nodes := (nodes s)(N \<mapsto> ?f)\<rparr>"
  from assms(1) have ok: "layout_ok s" "T \<in> live_blocks s" "word_at s T files_index = - 1"
    "fd_list s (word_at s T files_next) ds" "distinct (T # map fst ds)" "distinct (map (fst \<circ> snd) ds)"
    "\<And>d ix r. (d, ix, r) \<in> set ds \<Longrightarrow> ix < Current s"
    and cur: "is_node s (CurrentProc s)" "DriverData (the_node s (CurrentProc s)) = T"
    by (auto simp: fd_table_def)
  have "heap_ok ?s1 (Suc n)" using assms(2,3) by (auto simp: heap_ok_def is_node_def static_object_def)
  moreover have small: "small_size 24" by (simp add: small_size_def PAGE_SIZE_def)
  ultimately obtain p s2 where k: "kalloc 24 ?s1 = Inr (p, s2)" and p: "p \<noteq> NULL" "p \<notin> live_blocks s"
    "live_blocks s2 = insert p (live_blocks s)" "heap_ok s2 n"
    using heap_ok_alloc [of ?s1 n 24] by auto
  note fr = kalloc_kernel_frame [OF k]
  have lay: "layout_ok s2" using p(4) by (simp add: heap_ok_def)
  have words: "word_at s2 q x = word_at s q x" if "q \<in> live_blocks s" "x \<le> 4072" for q x
    using kalloc_word [of ?s1 n 24 p s2 q x] ok(1) assms(2) k small that
    by (simp add: word_at_def heap_ok_def)
  let ?s5 = "set_word p fd_Next NULL (set_word p fd_FileIndex (Current s) (set_word p fd_Reference N s2))"
  have live5: "live_blocks ?s5 = insert p (live_blocks s)" "layout_ok ?s5" using p(3) lay by simp_all
  have words5: "word_at ?s5 q x = word_at s q x" if "q \<in> live_blocks s" "x \<le> 4072" for q x
  proof -
    have "p \<noteq> q" using that p(2) by auto
    with that p(3) lay words [OF that] show ?thesis by (simp add: word_set_other)
  qed
  have pw: "word_at ?s5 p fd_Next = NULL" "word_at ?s5 p fd_FileIndex = Current s" "word_at ?s5 p fd_Reference = N"
    using p(3) lay by (simp_all add: word_set_other fd_Next_def fd_FileIndex_def fd_Reference_def)
  have list5: "fd_list ?s5 (word_at ?s5 T files_next) ds"
    unfolding words5 [OF ok(2) files_offsets(1)]
  proof (rule fd_list_frame [OF ok(4)])
    show "live_blocks s \<subseteq> live_blocks ?s5" using live5(1) by blast
  qed (rule words5)
  have files5: "files ?s5 = Inr (T + of_nat task_Files)" "T + of_nat task_Files \<noteq> NULL"
    using fr(1,3) cur ok(1,2) files_not_null [of s T] live_not_null [of s T] assms(3)
    by (auto simp: files_def current_task_def is_node_def)
  let ?s6 = "set_word (link_block T ds) (link_offset ds) p ?s5"
  have link: "append_desc p ?s5 = Some (Inr ?s6)"
  proof (cases ds)
    case Nil
    with list5 have "word_at ?s5 T files_next = NULL" by simp
    with files5 Nil show ?thesis by (simp add: append_desc_def files_word link_block_def link_offset_def)
  next
    case (Cons e es)
    obtain d i r where e: "e = (d, i, r)" by (cases e)
    with list5 Cons have "word_at ?s5 T files_next = d" "d \<noteq> NULL"
      using live_not_null [OF live5(2), of d] by auto
    moreover have "last_desc (T + of_nat task_Files) ?s5 = Some (Inr (link_desc T ds))"
      using last_desc_list [OF live5(2) files5(2), of ds] list5 Cons
      by (simp add: files_word link_desc_def last_map)
    moreover have "link_desc T ds \<noteq> NULL"
      using link_desc_not_null [OF live5(2), of T "word_at ?s5 T files_next" ds NULL] list5 live5(1) ok(2)
      by (simp add: fd_list_seg)
    ultimately show ?thesis using files5 by (simp add: append_desc_def files_word)
  qed
  have "CreateEntry N s = Some (Inr (Current s, ?s6\<lparr>Current := Current s + 1\<rparr>))"
    using assms(3) k p(1) fr(8) by (simp add: CreateEntry_def link)
  moreover have "fd_table (?s6\<lparr>Current := Current s + 1\<rparr>) T (ds @ [(p, Current s, N)])"
  proof -
    have T: "T \<in> live_blocks ?s5" "T \<noteq> p" using live5(1) ok(2) p(2) by auto
    have dist: "distinct (T # map fst ds)" using ok(5) .
    have seg: "fd_seg ?s5 (word_at ?s5 T files_next) ds NULL" using list5 by (simp add: fd_list_seg)
    have lb: "link_block T ds \<in> live_blocks ?s5" "link_block T ds \<noteq> p"
    proof -
      have "fd_seg s (word_at s T files_next) ds NULL" using ok(4) by (simp add: fd_list_seg)
      from link_block_live [OF ok(2) this] have "link_block T ds \<in> live_blocks s" .
      with p(2) live5(1) show "link_block T ds \<in> live_blocks ?s5" "link_block T ds \<noteq> p" by auto
    qed
    have pw6: "word_at ?s6 p x = word_at ?s5 p x" if "x \<le> 4072" for x
      using lb live5 that by (simp add: word_set_other)
    have "fd_seg ?s6 p [(p, Current s, N)] NULL"
      using pw pw6 live5 lb by simp
    from relink [OF live5(2) T(1) seg dist refl this]
    have "fd_list ?s6 (word_at ?s6 T files_next) (ds @ [(p, Current s, N)])" .
    moreover have "word_at ?s6 T files_index = - 1"
    proof -
      have "word_at ?s6 T files_index = word_at ?s5 T files_index"
        using lb live5 T by (intro word_set_other) (auto simp: link_block_def link_offset_def files_next_def
          files_index_def offsets)
      with words5 [OF ok(2)] ok(3) show ?thesis by simp
    qed
    moreover have "p \<notin> fst ` set ds"
      using fd_list_live [OF ok(4)] p(2) by auto
    moreover have "Current s \<notin> set (map (fst \<circ> snd) ds)" using ok(7) by fastforce
    moreover have "Current s < Current s + 1"
      using assms(4) by (rule word_less_succ)
    moreover have "ix < Current s + 1" if "(d, ix, r) \<in> set ds" for d ix r
      using ok(7) [OF that] \<open>Current s < Current s + 1\<close> by (rule less_trans)
    ultimately show ?thesis
      using T lb live5 cur fr(1,3) ok(6) dist assms(3)
      by (auto simp: fd_table_def is_node_def)
  qed
  moreover have "link_block T ds \<in> live_blocks ?s5"
    using link_block_live [OF ok(2), of "word_at s T files_next" ds NULL] ok(4) live5(1)
    by (simp add: fd_list_seg)
  moreover from this have "heap_ok (?s6\<lparr>Current := Current s + 1\<rparr>) n" "live_blocks ?s6 = insert p (live_blocks s)"
    using p(3,4) lay live5 by simp_all
  ultimately show ?thesis using p fr by auto
qed

section \<open>Closing\<close>

lemma before_split:
  "ix \<notin> set (map (fst \<circ> snd) us) \<Longrightarrow>
     before prev ix (us @ (d, ix, r) # vs) = Some (if us = [] then prev else fst (last us))"
  by (induction us arbitrary: prev) auto

lemma before_None: "ix \<notin> set (map (fst \<circ> snd) ds) \<Longrightarrow> before prev ix ds = None"
  by (induction ds arbitrary: prev) auto

lemma findb_missing:
  assumes "fd_table s T ds" "ix \<notin> set (map (fst \<circ> snd) ds)"
  shows "findb ix s = Some (Inl (Panic PANIC_FD_NOT_FOUND))"
  using fd_table_files [OF assms(1)] findb_loop_list [of s "T + of_nat task_Files" ds ix] assms
    before_None [OF assms(2)]
  by (simp add: findb_def fd_table_def files_word)

lemma findb_at:
  assumes "fd_table s T (us @ (d, ix, r) # vs)"
  shows "findb ix s = Some (Inr (link_desc T us))"
proof -
  have "ix \<notin> set (map (fst \<circ> snd) us)" using assms by (auto simp: fd_table_def)
  from before_split [OF this, of "T + of_nat task_Files" d r vs] show ?thesis
    using fd_table_files [OF assms(1)] findb_loop_list [of s "T + of_nat task_Files" "us @ (d, ix, r) # vs" ix] assms
    by (simp add: findb_def fd_table_def files_word link_desc_def)
qed

lemma fd_list_kfree:
  assumes "fd_list s p ds" "mem t = mem s" "live_blocks t = live_blocks s - {d}" "d \<notin> fst ` set ds"
  shows "fd_list t p ds"
  unfolding fd_list_seg
proof (rule fd_seg_unchanged)
  show "fd_seg s p ds NULL" using assms(1) by (simp add: fd_list_seg)
next
  fix c x assume "c \<in> fst ` set ds" "c \<in> live_blocks s"
  with assms(2-4) show "c \<in> live_blocks t \<and> word_at t c x = word_at s c x"
    by (auto simp: word_at_def)
qed

lemma unlink:
  assumes "fd_table s T (us @ (d, ix, r) # vs)"
    and "t = set_word (link_block T us) (link_offset us) (word_at s d fd_Next) s"
  shows "fd_list t (word_at t T files_next) (us @ vs)" "link_block T us \<in> live_blocks s"
    "layout_ok t" "live_blocks t = live_blocks s" "word_at t d fd_Reference = r" "word_at t T files_index = - 1"
proof -
  from assms(1) have ok: "layout_ok s" "T \<in> live_blocks s" "word_at s T files_index = - 1"
    "fd_list s (word_at s T files_next) (us @ (d, ix, r) # vs)" "distinct (T # map fst (us @ (d, ix, r) # vs))"
    by (simp_all add: fd_table_def)
  from ok(4) have seg: "fd_seg s (word_at s T files_next) us d" "d \<in> live_blocks s"
    "word_at s d fd_Reference = r" "fd_seg s (word_at s d fd_Next) vs NULL"
    by (auto simp: fd_list_seg)
  show lb: "link_block T us \<in> live_blocks s" using link_block_live [OF ok(2) seg(1)] .
  then show "layout_ok t" "live_blocks t = live_blocks s" using ok(1) by (simp_all add: assms(2))
  have dist: "distinct (T # map fst us)" "link_block T us \<notin> fst ` set vs" "link_block T us \<noteq> d"
    using ok(5) by (cases us rule: rev_cases; auto simp: link_block_def)+
  have "fd_seg t (word_at s d fd_Next) vs NULL"
    unfolding assms(2) using ok(1) lb dist(2) seg(4) by (intro fd_seg_set_word) simp_all
  from relink [OF ok(1,2) seg(1) dist(1) assms(2) this]
  show "fd_list t (word_at t T files_next) (us @ vs)" .
  show "word_at t d fd_Reference = r"
    unfolding assms(2) using ok(1) lb seg dist(3) by (subst word_set_other) simp_all
  show "word_at t T files_index = - 1"
    unfolding assms(2) using ok lb
    by (subst word_set_other) (auto simp: link_block_def link_offset_def files_next_def files_index_def offsets)
qed

lemma fd_close_ok:
  assumes "fd_table s T (us @ (d, ix, r) # vs)" "is_node s r" "\<not> has_flag (Flags (the_node s r)) VFS_DELETE"
  shows "\<exists>s'. fd_close ix s = Some (Inr s') \<and> fd_table s' T (us @ vs) \<and>
     nodes s' = (nodes s)(r \<mapsto> (the_node s r)\<lparr>Flags := Flags (the_node s r) AND NOT VFS_OPENED\<rparr>) \<and>
     live_blocks s' = live_blocks s - {d} \<and> Current s' = Current s \<and> Root s' = Root s \<and>
     CurrentProc s' = CurrentProc s \<and> Proc s' = Proc s \<and>
     mem s' = mem (set_word (link_block T us) (link_offset us) (word_at s d fd_Next) s)"
proof -
  let ?f = "(the_node s r)\<lparr>Flags := Flags (the_node s r) AND NOT VFS_OPENED\<rparr>"
  let ?t = "set_word (link_block T us) (link_offset us) (word_at s d fd_Next) s"
  let ?u = "?t\<lparr>nodes := (nodes s)(r \<mapsto> ?f)\<rparr>"
  note un = unlink [OF assms(1) refl]
  from assms(1) have ok: "layout_ok s" "T \<in> live_blocks s" "distinct (T # map fst (us @ (d, ix, r) # vs))"
    "fd_list s (word_at s T files_next) (us @ (d, ix, r) # vs)" "distinct (map (fst \<circ> snd) (us @ (d, ix, r) # vs))"
    "\<forall>(d, ix, r) \<in> set (us @ (d, ix, r) # vs). ix < Current s"
    "is_node s (CurrentProc s)" "DriverData (the_node s (CurrentProc s)) = T"
    by (simp_all add: fd_table_def)
  from ok(4) have d: "d \<in> live_blocks s" "word_at s (link_block T us) (link_offset us) = d"
    by (cases us rule: rev_cases; auto simp: fd_list_seg link_block_def link_offset_def)+
  have dn: "d \<noteq> NULL" using live_not_null [OF ok(1) d(1)] .
  have "fd_seg s (word_at s T files_next) us d" using ok(4) by (auto simp: fd_list_seg)
  from link_desc_not_null [OF ok(1,2) this] have ln: "link_desc T us \<noteq> NULL" .
  obtain s' where s': "kfree d ?u = Inr s'" "live_blocks s' = live_blocks s - {d}" "layout_ok s'"
    "nodes s' = (nodes s)(r \<mapsto> ?f)"
    using kfree_live [of ?u d] un(3,4) d(1) by auto
  note fr = kfree_kernel_frame [OF s'(1)]
  have keep: "\<not> has_flag (Flags ?f) VFS_DELETE"
  proof -
    have "(VFS_DELETE AND NOT VFS_OPENED) = VFS_DELETE" by (simp add: VFS_DELETE_def VFS_OPENED_def)
    then have "(Flags (the_node s r) AND NOT VFS_OPENED) AND VFS_DELETE = Flags (the_node s r) AND VFS_DELETE"
      by (metis and.assoc and.commute)
    with assms(3) show ?thesis by (simp add: has_flag_def)
  qed
  have "r \<noteq> NULL" using assms(2) by (auto simp: is_node_def)
  then have "fd_close ix s = Some (Inr s')"
    using findb_at [OF assms(1)] ln dn d(2) un(5) assms(2) keep s'(1)
    by (simp add: fd_close_def)
  moreover have "fd_table s' T (us @ vs)"
  proof -
    have "d \<notin> fst ` set (us @ vs)" "T \<noteq> d" using ok(3) by auto
    moreover have "mem s' = mem ?t" using fr(14) by simp
    moreover from this have w: "word_at s' = word_at ?t" by (intro ext) (simp only: word_at_def)
    moreover have "fd_list s' (word_at ?t T files_next) (us @ vs)"
      using un(4) s'(2) fr(14) calculation(1) by (intro fd_list_kfree [OF un(1)]) simp_all
    ultimately show ?thesis
      using s' fr ok un(6) assms(2) by (auto simp: fd_table_def is_node_def)
  qed
  ultimately show ?thesis using s' fr by auto
qed

section \<open>The descriptor table as an interface\<close>

text \<open>
  What the callers of \<^verbatim>\<open>open\<close>, \<^verbatim>\<open>read\<close>/\<^verbatim>\<open>write\<close> and \<^verbatim>\<open>close\<close> rely on:
  a finite map from handles to objects.
\<close>

locale handle_table =
  fixes holds :: "'s \<Rightarrow> ('h \<Rightarrow> 'v option) \<Rightarrow> bool"
    and addable :: "'s \<Rightarrow> 'v \<Rightarrow> bool"
    and handle :: "'h \<Rightarrow> bool"
    and add :: "'v \<Rightarrow> 's \<Rightarrow> ('h \<times> 's) outcome"
    and get :: "'h \<Rightarrow> 's \<Rightarrow> 'v outcome"
    and remove :: "'h \<Rightarrow> 's \<Rightarrow> 's outcome"
  assumes add_ok: "holds s m \<Longrightarrow> addable s v \<Longrightarrow>
      \<exists>h s'. add v s = Some (Inr (h, s')) \<and> handle h \<and> m h = None \<and> holds s' (m(h \<mapsto> v))"
    and get_ok: "holds s m \<Longrightarrow> handle h \<Longrightarrow> get h s = Some (case m h of
        None \<Rightarrow> Inl (Panic PANIC_FD_NOT_FOUND) | Some v \<Rightarrow> Inr v)"
    and remove_ok: "holds s m \<Longrightarrow> m h = Some v \<Longrightarrow>
      \<exists>s'. remove h s = Some (Inr s') \<and> holds s' (m(h := None))"
    and remove_missing: "holds s m \<Longrightarrow> m h = None \<Longrightarrow>
      remove h s = Some (Inl (Panic PANIC_FD_NOT_FOUND))"
begin

lemma add_get:
  assumes "holds s m" "addable s v" "add v s = Some (Inr (h, s'))"
  shows "get h s' = Some (Inr v) \<and>
    (\<forall>k. k \<noteq> h \<longrightarrow> handle k \<longrightarrow> get k s' = get k s)"
proof -
  from add_ok [OF assms(1,2)] assms(3) have h: "handle h" "holds s' (m(h \<mapsto> v))" by auto
  from get_ok [OF h(2,1)] get_ok [OF h(2)] get_ok [OF assms(1)] show ?thesis by simp
qed

lemma add_remove:
  assumes "holds s m" "addable s v"
  shows "\<exists>h s1 s2. add v s = Some (Inr (h, s1)) \<and> remove h s1 = Some (Inr s2) \<and> holds s2 m \<and>
     get h s2 = Some (Inl (Panic PANIC_FD_NOT_FOUND)) \<and>
     remove h s2 = Some (Inl (Panic PANIC_FD_NOT_FOUND))"
proof -
  from add_ok [OF assms] obtain h s1 where h: "add v s = Some (Inr (h, s1))" "handle h" "m h = None"
    "holds s1 (m(h \<mapsto> v))" by blast
  from remove_ok [OF h(4), of h v] obtain s2 where s2: "remove h s1 = Some (Inr s2)"
    "holds s2 ((m(h \<mapsto> v))(h := None))" by auto
  moreover have "(m(h \<mapsto> v))(h := None) = m" using h(3) by auto
  ultimately have "holds s2 m" by simp
  with h s2 get_ok [OF this h(2)] remove_missing [OF this h(3)] show ?thesis by auto
qed

end

definition fd_node :: "u64 \<Rightarrow> kernel \<Rightarrow> addr outcome" where
  "fd_node fd s = obind (findfd fd s) (\<lambda>File. Some (ld File fd_Reference s))"

definition closable :: "kernel \<Rightarrow> addr \<Rightarrow> bool" where
  "closable s r \<longleftrightarrow> is_node s r \<and> \<not> has_flag (Flags (the_node s r)) VFS_DELETE"

definition fds_hold :: "addr \<Rightarrow> kernel \<Rightarrow> (u64 \<Rightarrow> addr option) \<Rightarrow> bool" where
  "fds_hold T s m \<longleftrightarrow>
     (\<exists>ds. fd_table s T ds \<and> m = fd_map ds \<and> (\<forall>(d, ix, r) \<in> set ds. closable s r))"

definition openable :: "kernel \<Rightarrow> addr \<Rightarrow> bool" where
  "openable s N \<longleftrightarrow> heap_ok s 1 \<and> closable s N \<and> Current s < - 1"

lemma fd_map_append: "ix \<notin> set (map (fst \<circ> snd) us) \<Longrightarrow> fd_map (us @ [(d, ix, r)]) = (fd_map us)(ix \<mapsto> r)"
  by (induction us) (auto simp: fd_map_def fun_eq_iff)

lemma fd_map_find:
  "fd_map ds ix = map_option (snd \<circ> snd) (find (\<lambda>e. fst (snd e) = ix) ds)"
  by (induction ds) (auto simp: fd_map_def)

lemma fd_map_split:
  assumes "fd_map ds ix = Some r"
  obtains us d vs where "ds = us @ (d, ix, r) # vs"
proof -
  from assms have "(ix, r) \<in> snd ` set ds" by (auto simp: fd_map_def dest!: map_of_SomeD)
  then obtain d where "(d, ix, r) \<in> set ds" by auto
  with that split_list show thesis by metis
qed

lemma fd_map_None: "fd_map ds ix = None \<longleftrightarrow> ix \<notin> set (map (fst \<circ> snd) ds)"
  by (simp add: fd_map_def map_of_eq_None_iff image_image)

lemma fd_map_remove:
  "distinct (map (fst \<circ> snd) (us @ (d, ix, r) # vs)) \<Longrightarrow> fd_map (us @ vs) = (fd_map (us @ (d, ix, r) # vs))(ix := None)"
proof (induction us)
  case Nil
  then have "fd_map vs ix = None" by (simp add: fd_map_None)
  then show ?case by (auto simp: fd_map_def)
next
  case (Cons e us)
  then have "fst (snd e) \<noteq> ix" by auto
  with Cons show ?case by (auto simp: fd_map_def fun_eq_iff)
qed

lemma findfd_eq:
  assumes "fd_table s T ds" "fd \<noteq> - 1"
  shows "case fd_map ds fd of
      None \<Rightarrow> findfd fd s = Some (Inl (Panic PANIC_FD_NOT_FOUND))
    | Some r \<Rightarrow> \<exists>d. findfd fd s = Some (Inr d) \<and> d \<noteq> NULL \<and> word_at s d fd_Reference = r \<and>
        (d, fd, r) \<in> set ds"
proof -
  from assms(1) have ok: "layout_ok s" "fd_list s (word_at s T files_next) ds" "word_at s T files_index = - 1"
    by (simp_all add: fd_table_def)
  have find: "findfd fd s = Some (case find (\<lambda>e. fst (snd e) = fd) ds of
        None \<Rightarrow> Inl (Panic PANIC_FD_NOT_FOUND) | Some e \<Rightarrow> Inr (fst e))"
    using fd_table_files [OF assms(1)] findfd_loop_list [OF ok(1,2), of fd] ok(3) assms(2)
    by (simp add: findfd_def findfd_loop.simps [of "T + of_nat task_Files"] files_word)
  show ?thesis
  proof (cases "find (\<lambda>e. fst (snd e) = fd) ds")
    case (Some e)
    obtain d i r where e: "e = (d, i, r)" by (cases e)
    from find_Some_in [OF Some] e have mem: "(d, i, r) \<in> set ds" "i = fd" by auto
    from fd_list_ref [OF ok(2) mem(1)] live_not_null [OF ok(1) fd_list_live [OF ok(2) mem(1)]]
    show ?thesis using find Some e mem by (simp add: fd_map_find)
  qed (simp add: find fd_map_find)
qed

lemma fd_node_eq:
  assumes "fd_table s T ds" "fd \<noteq> - 1"
  shows "fd_node fd s = Some (case fd_map ds fd of
     None \<Rightarrow> Inl (Panic PANIC_FD_NOT_FOUND) | Some r \<Rightarrow> Inr r)"
  using findfd_eq [OF assms] by (auto simp: fd_node_def split: option.splits)

lemma closable_flags:
  assumes "closable s r" "nodes t = (nodes s)(x \<mapsto> (the_node s x)\<lparr>Flags := f\<rparr>)" "is_node s x"
    and "f = Flags (the_node s x) OR VFS_OPENED \<or> f = Flags (the_node s x) AND NOT VFS_OPENED"
  shows "closable t r"
proof -
  have "VFS_OPENED AND VFS_DELETE = 0" "NOT VFS_OPENED AND VFS_DELETE = VFS_DELETE"
    by (simp_all add: VFS_DELETE_def VFS_OPENED_def)
  then have "f AND VFS_DELETE = Flags (the_node s x) AND VFS_DELETE"
    using assms(4) by (auto simp: bit.conj_disj_distrib2 and.assoc)
  with assms(1-3) show ?thesis by (auto simp: closable_def has_flag_def is_node_def)
qed

interpretation fdt: handle_table "fds_hold T" openable "\<lambda>fd. fd \<noteq> - 1" CreateEntry fd_node fd_close for T
proof
  fix s m N assume h: "fds_hold T s m" and a: "openable s N"
  then obtain ds where ds: "fd_table s T ds" "m = fd_map ds" "\<forall>(d, ix, r) \<in> set ds. closable s r"
    by (auto simp: fds_hold_def)
  have N: "is_node s N" "heap_ok s (Suc 0)" "Current s < - 1" using a by (simp_all add: openable_def closable_def)
  from CreateEntry_ok [OF ds(1) N(2,1,3)] obtain p s' where
    c: "CreateEntry N s = Some (Inr (Current s, s'))" "fd_table s' T (ds @ [(p, Current s, N)])"
    "nodes s' = (nodes s)(N \<mapsto> (the_node s N)\<lparr>Flags := Flags (the_node s N) OR VFS_OPENED\<rparr>)"
    by blast
  have fresh: "Current s \<notin> set (map (fst \<circ> snd) ds)" using ds(1) by (fastforce simp: fd_table_def)
  have "closable s' r" if "(d, ix, r) \<in> set (ds @ [(p, Current s, N)])" for d ix r
    using that ds(3) a closable_flags [OF _ c(3) N(1)] by (auto simp: openable_def)
  then have "fds_hold T s' (m(Current s \<mapsto> N))"
    unfolding fds_hold_def using c(2) ds(2) fd_map_append [OF fresh] by (intro exI [of _ "ds @ [(p, Current s, N)]"]) auto
  moreover have "m (Current s) = None" using fresh ds(2) by (simp add: fd_map_None)
  ultimately show "\<exists>h s'. CreateEntry N s = Some (Inr (h, s')) \<and> h \<noteq> - 1 \<and> m h = None \<and> fds_hold T s' (m(h \<mapsto> N))"
    using c(1) N(3) by auto
next
  fix s m and h :: u64 assume "fds_hold T s m" "h \<noteq> - 1"
  then show "fd_node h s = Some (case m h of None \<Rightarrow> Inl (Panic PANIC_FD_NOT_FOUND) | Some v \<Rightarrow> Inr v)"
    using fd_node_eq by (auto simp: fds_hold_def)
next
  fix s m h v assume h: "fds_hold T s m" and v: "m h = Some v"
  then obtain ds where ds: "fd_table s T ds" "m = fd_map ds" "\<forall>(d, ix, r) \<in> set ds. closable s r"
    by (auto simp: fds_hold_def)
  with v obtain us d vs where split: "ds = us @ (d, h, v) # vs" by (auto elim: fd_map_split)
  with ds(3) have cl: "is_node s v" "\<not> has_flag (Flags (the_node s v)) VFS_DELETE" by (auto simp: closable_def)
  from fd_close_ok [OF ds(1) [unfolded split] cl] obtain s' where
    c: "fd_close h s = Some (Inr s')" "fd_table s' T (us @ vs)"
    "nodes s' = (nodes s)(v \<mapsto> (the_node s v)\<lparr>Flags := Flags (the_node s v) AND NOT VFS_OPENED\<rparr>)" by blast
  have "fd_map (us @ vs) = m(h := None)"
    using fd_map_remove [of us d h v vs] ds(1,2) split by (simp add: fd_table_def)
  moreover have "closable s' r" if "(d, ix, r) \<in> set (us @ vs)" for d ix r
  proof -
    have "closable s r" using that ds(3) split by fastforce
    then show ?thesis using closable_flags [OF _ c(3) cl(1)] by blast
  qed
  ultimately have "fds_hold T s' (m(h := None))" 
    unfolding fds_hold_def using c(2) by (intro exI [of _ "us @ vs"]) auto
  with c(1) show "\<exists>s'. fd_close h s = Some (Inr s') \<and> fds_hold T s' (m(h := None))" by blast
next
  fix s m h assume "fds_hold T s m" "m h = None"
  then show "fd_close h s = Some (Inl (Panic PANIC_FD_NOT_FOUND))"
    using findb_missing by (auto simp: fds_hold_def fd_map_None fd_close_def)
qed

section \<open>A task for the witnesses\<close>

lemma zero_less_minus_one [simp]: "0 < (- 1 :: u64)"
  by (simp add: word_greater_zero_iff)

text \<open>The root node doubles as the running process; its task is the block of page 0.\<close>

definition task_kernel :: kernel where
  "task_kernel = root_only\<lparr>PageBitmap := (\<lambda>i. if i = 0 then 1 else 0),
     mem := store64 (store64 (\<lambda>_. 0) 0x200000 248) 0x2000E8 (- 1),
     nodes := [0x1000 \<mapsto> root_node\<lparr>DriverData := 0x200010\<rparr>], CurrentProc := 0x1000\<rparr>"

lemma load64_zero [simp]: "load64 (\<lambda>_. 0) a = 0"
  by (rule bit_word_eqI) (simp add: load64_def bit_le_join load_bytes_def)

lemma task_kernel_pages:
  "MemoryStart task_kernel = 0x200000" "layout_ok task_kernel" "page_used task_kernel i \<longleftrightarrow> i = 0"
  "page_addr task_kernel 0 = 0x200000" "Root task_kernel = 0x1000" "CurrentProc task_kernel = 0x1000"
  "Current task_kernel = 0" "nodes task_kernel = [0x1000 \<mapsto> root_node\<lparr>DriverData := 0x200010\<rparr>]"
proof -
  show "MemoryStart task_kernel = 0x200000" "Root task_kernel = 0x1000" "CurrentProc task_kernel = 0x1000"
    "Current task_kernel = 0" "nodes task_kernel = [0x1000 \<mapsto> root_node\<lparr>DriverData := 0x200010\<rparr>]"
    by (simp_all add: task_kernel_def root_only_def pgalloc.defs fresh_pages_def)
  then show "layout_ok task_kernel" "page_addr task_kernel 0 = 0x200000"
    by (simp_all add: layout_ok_def page_addr_def)
  show "page_used task_kernel i \<longleftrightarrow> i = 0"
    by (auto simp: page_used_bit task_kernel_def bit_1_iff)
qed

lemma task_kernel_live: "live_blocks task_kernel = {0x200010}"
proof -
  have "load64 (mem task_kernel) 0x200000 = 248"
    by (simp add: task_kernel_def load64_store64_apart)
  then have "small_block task_kernel i \<longleftrightarrow> i = 0" for i
    by (auto simp: small_block_def task_kernel_pages LOW_PAGES_def PAGE_SIZE_def)
  then show ?thesis by (simp add: live_blocks_def task_kernel_pages)
qed

lemma task_kernel_table: "fd_table task_kernel 0x200010 []"
  using task_kernel_live
  by (simp add: fd_table_def task_kernel_pages is_node_def word_at_def files_index_def files_next_def offsets)
    (simp add: task_kernel_def load64_store64_apart)

lemma task_kernel_heap: "heap_ok task_kernel 5"
proof -
  have "{1..5} \<subseteq> {i. i < LOW_PAGES \<and> \<not> page_used task_kernel i}"
    by (auto simp: task_kernel_pages LOW_PAGES_def)
  from card_mono [OF _ this] have "low_room task_kernel 5" by (simp add: low_room_def)
  then show ?thesis
    by (simp add: heap_ok_def task_kernel_pages static_object_def is_node_def)
qed

text \<open>
  C14. \<^verbatim>\<open>open\<close> on a path that leads to a closed node returns the next descriptor number,
  which was not in the table, appends it with that node and marks the node open, all other
  nodes and descriptors unchanged; on an open node it panics with
  \<^verbatim>\<open>PANIC_DOUBLE_OPEN\<close>.
\<close>

theorem fd_open_node:
  assumes "fd_table s T ds" "heap_ok s (Suc n)" "Current s < - 1" "is_node s (Root s)"
    and "readable 256 Path" "is_node s N"
    and "DefaultRelativeFind (Root s) (Some Path) (length (cprefix 256 Path)) s = Some (Inr N)"
  shows "if has_flag (Flags (the_node s N)) VFS_OPENED
    then fd_open (Some Path) Fl s = Some (Inl (Panic PANIC_DOUBLE_OPEN))
    else \<exists>p s'. fd_open (Some Path) Fl s = Some (Inr (Current s, s')) \<and>
      fd_map ds (Current s) = None \<and> fd_table s' T (ds @ [(p, Current s, N)]) \<and>
      has_flag (Flags (the_node s' N)) VFS_OPENED \<and> Current s' = Current s + 1 \<and>
      (\<forall>x. x \<noteq> N \<longrightarrow> nodes s' x = nodes s x)"
proof -
  have N: "N \<noteq> NULL" using assms(6) by (auto simp: is_node_def)
  have go: "fd_open (Some Path) Fl s =
      (if has_flag (Flags (the_node s N)) VFS_OPENED then Some (Inl (Panic PANIC_DOUBLE_OPEN))
       else CreateEntry N s)"
    using assms(4-7) N
    by (cases "RelativeFind (the_node s (Root s))")
      (simp add: fd_open_def RootVNode_def strnlen_eq call_RelativeFind_def)
  have fresh: "fd_map ds (Current s) = None"
    using assms(1) by (fastforce simp: fd_table_def fd_map_None)
  have "has_flag (Flags (the_node s N) OR VFS_OPENED) VFS_OPENED"
    by (simp add: has_flag_def VFS_OPENED_def bit.conj_disj_distrib2)
  with CreateEntry_ok [OF assms(1,2,6,3)] go fresh show ?thesis by auto
qed

lemma find_slash: "DefaultRelativeFind 0x1000 (Some (''/'' @ [NUL])) 1 task_kernel = Some (Inr 0x1000)"
  using find_resolve [of "0x1000" task_kernel 1 "''/'' @ [NUL]" "''/''"]
  by (simp add: task_kernel_pages start_of_def RootVNode_def trailing_check_def follow_link_def is_node_def
    root_node_def zero_node_def has_flag_def)

lemma slash_prefix: "readable 256 (''/'' @ [NUL])" "length (cprefix 256 (''/'' @ [NUL])) = 1"
  by (simp_all add: readable_def cprefix_def)

theorem fd_open_node_witness:
  "\<exists>s'. fd_open (Some (''/'' @ [NUL])) 0 task_kernel = Some (Inr (0, s')) \<and> Current s' = 1"
proof -
  have "heap_ok task_kernel (Suc 4)" using task_kernel_heap by simp
  from fd_open_node [OF task_kernel_table this, of "''/'' @ [NUL]" "0x1000" 0] find_slash slash_prefix
  show ?thesis
    by (auto simp: task_kernel_pages is_node_def root_node_def zero_node_def has_flag_def)
qed

text \<open>
  C7. Opening a node and closing the descriptor restores the descriptor table: the
  descriptor is no longer found, closing it again panics, and every other descriptor leads
  to the node it led to before.
\<close>

theorem CreateEntry_close:
  assumes "fds_hold T s m" "openable s N"
  shows "\<exists>fd s1 s2. CreateEntry N s = Some (Inr (fd, s1)) \<and> fd_close fd s1 = Some (Inr s2) \<and>
     fds_hold T s2 m \<and> fd_node fd s2 = Some (Inl (Panic PANIC_FD_NOT_FOUND)) \<and>
     fd_close fd s2 = Some (Inl (Panic PANIC_FD_NOT_FOUND)) \<and>
     (\<forall>k. k \<noteq> - 1 \<longrightarrow> fd_node k s2 = fd_node k s)"
proof -
  from fdt.add_remove [OF assms] obtain fd s1 s2 where r: "CreateEntry N s = Some (Inr (fd, s1))"
    "fd_close fd s1 = Some (Inr s2)" "fds_hold T s2 m"
    "fd_node fd s2 = Some (Inl (Panic PANIC_FD_NOT_FOUND))"
    "fd_close fd s2 = Some (Inl (Panic PANIC_FD_NOT_FOUND))" by blast
  with fdt.get_ok [OF r(3)] fdt.get_ok [OF assms(1)] show ?thesis by auto
qed

lemma task_kernel_holds: "fds_hold 0x200010 task_kernel Map.empty" "openable task_kernel 0x1000"
proof -
  show "fds_hold 0x200010 task_kernel Map.empty"
    unfolding fds_hold_def using task_kernel_table by (intro exI [of _ "[]"]) (simp add: fd_map_def)
  have "heap_ok task_kernel 1" using task_kernel_heap by (simp add: heap_ok_def low_room_def)
  then show "openable task_kernel 0x1000"
    by (simp add: openable_def closable_def task_kernel_pages is_node_def root_node_def zero_node_def has_flag_def)
qed

theorem CreateEntry_close_witness:
  "\<exists>fd s1 s2. CreateEntry 0x1000 task_kernel = Some (Inr (fd, s1)) \<and> fd_close fd s1 = Some (Inr s2) \<and>
     fds_hold 0x200010 s2 Map.empty"
  using CreateEntry_close [OF task_kernel_holds] by blast

text \<open>
  Input and output through a descriptor is that of the node the table gives for it:
  \<^verbatim>\<open>write\<close> and \<^verbatim>\<open>read\<close> call the node's function with element count one and widen its
  result with the sign, \<^verbatim>\<open>lseek\<close> moves the node's offset; without an entry all three
  panic.
\<close>

theorem fd_io_through_table:
  assumes "fds_hold T s m" "fd \<noteq> - 1" "Buf \<noteq> NULL"
  shows "case m fd of
      None \<Rightarrow> fd_write fd Buf Count s = Some (Inl (Panic PANIC_FD_NOT_FOUND)) \<and>
              fd_read fd Buf Count s = Some (Inl (Panic PANIC_FD_NOT_FOUND)) \<and>
              fd_lseek fd Off SEEK_SET s = Some (Inl (Panic PANIC_FD_NOT_FOUND))
    | Some r \<Rightarrow>
        fd_write fd Buf Count s =
          Some (rbind (call_WriteFunction (WriteFunction (the_node s r)) Buf Count 1 r s) (\<lambda>(n, s'). Inr (scast n, s'))) \<and>
        fd_read fd Buf Count s =
          obind (call_ReadFunction (ReadFunction (the_node s r)) Buf Count 1 r s) (\<lambda>(n, s'). Some (Inr (scast n, s'))) \<and>
        fd_lseek fd Off SEEK_SET s =
          Some (Inr (Off, s\<lparr>nodes := (nodes s)(r \<mapsto> (the_node s r)\<lparr>FileOffset := Off\<rparr>)\<rparr>))"
proof -
  from assms(1) obtain ds where ds: "fd_table s T ds" "m = fd_map ds" "\<forall>(d, ix, r) \<in> set ds. closable s r"
    by (auto simp: fds_hold_def)
  show ?thesis
  proof (cases "m fd")
    case None
    with findfd_eq [OF ds(1) assms(2)] ds(2) assms(3) show ?thesis
      by (simp add: fd_write_def fd_read_def fd_lseek_def)
  next
    case (Some r)
    with findfd_eq [OF ds(1) assms(2)] ds(2) obtain File where
      f: "findfd fd s = Some (Inr File)" "File \<noteq> NULL" "word_at s File fd_Reference = r" "(File, fd, r) \<in> set ds"
      by auto
    with ds(3) have r: "is_node s r" "r \<noteq> NULL" by (auto simp: closable_def is_node_def)
    from f(1-3) Some r assms(3) show ?thesis
      by (simp add: fd_write_def fd_read_def fd_lseek_def VNodeSeek_def case_prod_unfold
        flip: obind_Some_rbind)
  qed
qed

theorem fd_io_through_table_witness:
  "fd_write 7 0x8000 1 task_kernel = Some (Inl (Panic PANIC_FD_NOT_FOUND))"
  using fd_io_through_table [OF task_kernel_holds(1), of 7 "0x8000" 1] by simp

end
