(* ===== verification/UlString.thy ===== *)
theory UlString
  imports Kernel
begin

text \<open>
  \<^verbatim>\<open>UlToString\<close> of \<^verbatim>\<open>src/kernel/string.c\<close>: the decimal text of a number in a new block.
  The digits are produced from the least significant one; the loop that is to reverse them
  runs over the whole text and so exchanges every inner pair twice.
\<close>

section \<open>The routine\<close>

text \<open>\<^verbatim>\<open>sizeof(Number) * 3\<close> is 24, the block has \<^verbatim>\<open>sizeof(Number) * 8\<close> bytes.\<close>

function ul_digits :: "addr \<Rightarrow> nat \<Rightarrow> nat \<Rightarrow> memory \<Rightarrow> nat \<times> memory" where
  "ul_digits String Number i m =
     (if i < 24 then
        let m1 = m(String + of_nat i := of_nat (Number mod 10) + 48);
            Number1 = Number div 10
        in if Number1 = 0 then (i, m1) else ul_digits String Number1 (Suc i) m1
      else (i, m))"
  by pat_completeness auto
termination by (relation "measure (\<lambda>(S, N, i, m). 24 - i)") auto

function ul_reverse :: "addr \<Rightarrow> nat \<Rightarrow> nat \<Rightarrow> memory \<Rightarrow> memory" where
  "ul_reverse String i j m =
     (if j < i then
        let Temporary = m (String + of_nat j);
            m1 = m(String + of_nat j := m (String + of_nat (i - j)));
            m2 = m1(String + of_nat (i - j) := Temporary)
        in ul_reverse String i (Suc j) m2
      else m)"
  by pat_completeness auto
termination by (relation "measure (\<lambda>(S, i, j, m). i - j)") auto

declare ul_digits.simps [simp del] ul_reverse.simps [simp del]

definition UlToString :: "u64 \<Rightarrow> 'a pgalloc_scheme \<Rightarrow> (addr \<times> 'a pgalloc_scheme) result" where
  "UlToString Number s =
     rbind (kalloc 64 s) (\<lambda>(String, s1).
       case ul_digits String (unat Number) 0 (mem s1) of (i, m) \<Rightarrow>
         Inr (String, s1\<lparr>mem := ul_reverse String i 0 m\<rparr>))"

section \<open>Decimal digits\<close>

function digits :: "nat \<Rightarrow> nat list" where
  "digits n = n mod 10 # (if n div 10 = 0 then [] else digits (n div 10))"
  by pat_completeness auto
termination by (relation "measure id") auto

declare digits.simps [simp del]

definition digit_byte :: "nat \<Rightarrow> u8" where
  "digit_byte d = of_nat d + 48"

text \<open>First and last exchanged.\<close>

definition exchange_ends :: "'a list \<Rightarrow> 'a list" where
  "exchange_ends xs = xs[0 := last xs, length xs - 1 := hd xs]"

lemma digits_not_Nil [simp]: "digits n \<noteq> []"
  by (subst digits.simps) simp

lemma digits_bound: "n < 10 ^ k \<Longrightarrow> 0 < k \<Longrightarrow> length (digits n) \<le> k"
proof (induction n arbitrary: k rule: digits.induct)
  case (1 n)
  show ?case
  proof (cases "n div 10 = 0")
    case True
    with "1.prems" show ?thesis by (subst digits.simps) simp
  next
    case False
    with "1.prems" obtain l where k: "k = Suc l" "0 < l" by (cases k; cases "k - 1") auto
    with "1.prems" have "n div 10 < 10 ^ l" by (simp add: less_mult_imp_div_less mult.commute)
    with "1.IH" [OF False this k(2)] False k(1) show ?thesis by (subst digits.simps) simp
  qed
qed

lemma digits_value: "foldr (\<lambda>d v. d + 10 * v) (digits n) 0 = n"
proof (induction n rule: digits.induct)
  case (1 n)
  then show ?case by (subst digits.simps) auto
qed

lemma digits_less: "d \<in> set (digits n) \<Longrightarrow> d < 10"
proof (induction n rule: digits.induct)
  case (1 n)
  then show ?case by (subst (asm) (2) digits.simps) (auto split: if_splits)
qed

lemma digits_inj: "digits m = digits n \<Longrightarrow> m = n"
  by (metis digits_value)

section \<open>The loops\<close>

lemma store_bytes_Cons:
  assumes "length bs < 2 ^ 64"
  shows "store_bytes (m(a := b)) (a + 1) bs = store_bytes m a (b # bs)"
proof
  fix x
  show "store_bytes (m(a := b)) (a + 1) bs x = store_bytes m a (b # bs) x"
  proof (cases "x = a")
    case True
    have "unat (a - (a + 1)) = 2 ^ 64 - 1" by (simp add: unsigned_minus_1_eq_mask mask_eq_exp_minus_1)
    moreover have "length bs \<le> 2 ^ 64 - 1" using assms by simp
    ultimately have "\<not> unat (x - (a + 1)) < length bs" unfolding True by (simp only: not_less)
    with True show ?thesis by (simp add: store_bytes_def)
  next
    case False
    then have "0 < unat (x - a)" by (simp add: unat_gt_0)
    then obtain k where k: "unat (x - a) = Suc k" by (cases "unat (x - a)") auto
    have "unat (x - a) < 2 ^ 64" using unsigned_less [of "x - a"] by simp
    then have small: "Suc k < 2 ^ 64" "k < 2 ^ 64" using k by simp_all
    moreover have "x = a + of_nat (Suc k)"
      using unat_offset_eq [OF small(1), of x a] k by simp
    ultimately have "unat (x - (a + 1)) = k"
      using unat_offset_eq [of k x "a + 1"] by (simp add: add.assoc)
    with False k show ?thesis by (simp add: store_bytes_def)
  qed
qed

lemma ul_digits_closed:
  "i + length (digits n) \<le> 24 \<Longrightarrow>
     ul_digits a n i m = (i + length (digits n) - 1, store_bytes m (a + of_nat i) (map digit_byte (digits n)))"
proof (induction n arbitrary: i m rule: digits.induct)
  case (1 n)
  have i: "i < 24" using "1.prems" by (cases "digits n") simp_all
  let ?m1 = "m(a + of_nat i := of_nat (n mod 10) + 48)"
  show ?case
  proof (cases "n div 10 = 0")
    case True
    then have "digits n = [n mod 10]" by (subst digits.simps) simp
    with i True show ?thesis
      using store_bytes_Cons [of "[]" m "a + of_nat i"]
      by (simp add: ul_digits.simps [of a n i m] Let_def store_bytes_def fun_upd_def flip: digit_byte_def)
  next
    case False
    then have d: "digits n = n mod 10 # digits (n div 10)" by (subst digits.simps) simp
    have "Suc i + length (digits (n div 10)) \<le> 24" using "1.prems" d by simp
    from "1.IH" [OF False this] have "ul_digits a (n div 10) (Suc i) ?m1 =
        (Suc i + length (digits (n div 10)) - 1,
         store_bytes ?m1 (a + of_nat (Suc i)) (map digit_byte (digits (n div 10))))"
      by blast
    moreover have "ul_digits a n i m = ul_digits a (n div 10) (Suc i) ?m1"
      using i False by (simp add: ul_digits.simps [of a n i m] Let_def)
    moreover have "a + of_nat (Suc i) = a + of_nat i + 1" by simp
    moreover have "store_bytes ?m1 (a + of_nat i + 1) (map digit_byte (digits (n div 10))) =
        store_bytes m (a + of_nat i) (map digit_byte (digits n))"
      unfolding d list.map digit_byte_def [of "n mod 10"] using \<open>Suc i + _ \<le> 24\<close> by (intro store_bytes_Cons) simp
    ultimately show ?thesis by (simp add: d add.assoc add.commute [of 1])
  qed
qed

text \<open>The second loop on lists.\<close>

function swap_loop :: "nat \<Rightarrow> nat \<Rightarrow> 'a list \<Rightarrow> 'a list" where
  "swap_loop i j xs = (if j < i then swap_loop i (Suc j) (xs[j := xs ! (i - j), i - j := xs ! j]) else xs)"
  by pat_completeness auto
termination by (relation "measure (\<lambda>(i, j, xs). i - j)") auto

declare swap_loop.simps [simp del]

lemma store_bytes_nth:
  "k < length bs \<Longrightarrow> k < 2 ^ 64 \<Longrightarrow> store_bytes m a bs (a + of_nat k) = bs ! k"
  by (simp add: store_bytes_def unat_of_nat_addr)

lemma store_bytes_update:
  assumes "k < length bs" "length bs \<le> 2 ^ 64"
  shows "(store_bytes m a bs)(a + of_nat k := b) = store_bytes m a (bs[k := b])"
proof
  fix x
  have "x = a + of_nat k \<longleftrightarrow> unat (x - a) = k" using unat_offset_eq [of k x a] assms by simp
  then show "((store_bytes m a bs)(a + of_nat k := b)) x = store_bytes m a (bs[k := b]) x"
    using assms by (auto simp: store_bytes_def nth_list_update)
qed

lemma ul_reverse_swap:
  "i < length bs \<Longrightarrow> length bs \<le> 2 ^ 64 \<Longrightarrow> ul_reverse a i j (store_bytes m a bs) = store_bytes m a (swap_loop i j bs)"
proof (induction i j bs rule: swap_loop.induct)
  case (1 i j bs)
  show ?case
  proof (cases "j < i")
    case True
    then have "j < length bs" "i - j < length bs" "j < 2 ^ 64" "i - j < 2 ^ 64" using "1.prems" by simp_all
    with True "1" show ?thesis
      by (simp add: ul_reverse.simps [of a i j] swap_loop.simps [of i j] Let_def store_bytes_nth store_bytes_update del: of_nat_diff)
  qed (simp add: ul_reverse.simps [of a i j] swap_loop.simps [of i j])
qed

lemma swap_loop_nth:
  "length xs = Suc i \<Longrightarrow> j \<le> i \<Longrightarrow> length ys = Suc i \<Longrightarrow>
     (\<And>k. k \<le> i \<Longrightarrow> xs ! k = (if (k < j) \<noteq> (i - k < j) then ys ! (i - k) else ys ! k)) \<Longrightarrow>
     swap_loop i j xs = map (\<lambda>k. if (k < i) \<noteq> (i - k < i) then ys ! (i - k) else ys ! k) [0..<Suc i]"
proof (induction i j xs rule: swap_loop.induct)
  case (1 i j xs)
  show ?case
  proof (cases "j < i")
    case False
    with "1.prems" have "j = i" by simp
    then have "xs = map (\<lambda>k. if (k < i) \<noteq> (i - k < i) then ys ! (i - k) else ys ! k) [0..<Suc i]"
      using "1.prems"(1,4) by (intro nth_equalityI) (auto simp del: upt_Suc)
    with False show ?thesis by (subst swap_loop.simps) (simp del: upt_Suc)
  next
    case True
    let ?zs = "xs[j := xs ! (i - j), i - j := xs ! j]"
    have xj: "xs ! j = (if i - j < j then ys ! (i - j) else ys ! j)" "xs ! (i - j) = (if i - j < j then ys ! j else ys ! (i - j))"
      using True "1.prems"(4) [of j] "1.prems"(4) [of "i - j"] by auto
    have "swap_loop i (Suc j) ?zs = map (\<lambda>k. if (k < i) \<noteq> (i - k < i) then ys ! (i - k) else ys ! k) [0..<Suc i]"
    proof (rule "1.IH" [OF True])
      fix k assume k: "k \<le> i"
      consider "k = i - j" | "k = j" "k \<noteq> i - j" | "k \<noteq> j" "k \<noteq> i - j" by blast
      then show "?zs ! k = (if (k < Suc j) \<noteq> (i - k < Suc j) then ys ! (i - k) else ys ! k)"
      proof cases
        case 1
        with True "1.prems"(1) xj show ?thesis by (cases "i - j = j") auto
      next
        case 2
        with True "1.prems"(1) xj show ?thesis by auto
      next
        case 3
        then have "(k < Suc j) = (k < j)" "(i - k < Suc j) = (i - k < j)" using k True by auto
        with 3 "1.prems"(1,4) k show ?thesis by simp
      qed
    qed (use True "1.prems" in simp_all)
    with True show ?thesis by (subst swap_loop.simps) simp
  qed
qed

lemma swap_loop_ends: "ys \<noteq> [] \<Longrightarrow> swap_loop (length ys - 1) 0 ys = exchange_ends ys"
proof -
  assume "ys \<noteq> []"
  then have len: "length ys = Suc (length ys - 1)" by (cases ys) auto
  let ?i = "length ys - 1"
  have "swap_loop ?i 0 ys = map (\<lambda>k. if (k < ?i) \<noteq> (?i - k < ?i) then ys ! (?i - k) else ys ! k) [0..<Suc ?i]"
    using len by (intro swap_loop_nth) auto
  also have "\<dots> = exchange_ends ys"
    using len \<open>ys \<noteq> []\<close>
    by (intro nth_equalityI) (auto simp: exchange_ends_def nth_list_update last_conv_nth hd_conv_nth simp del: upt_Suc)
  finally show ?thesis .
qed

lemma exchange_twice: "exchange_ends (exchange_ends ys) = ys"
  by (cases "ys = []", simp add: exchange_ends_def, intro nth_equalityI)
    (auto simp: exchange_ends_def nth_list_update last_conv_nth hd_conv_nth)

lemma length_exchange [simp]: "length (exchange_ends ys) = length ys"
  by (simp add: exchange_ends_def)

section \<open>The text in memory\<close>

lemma kalloc_payload_zero:
  assumes "layout_ok s" "low_room s (Suc n)" "small_size Size" "kalloc Size s = Inr (p, s')" "x < 4080"
  shows "mem s' (p + of_nat x) = 0"
proof -
  from kalloc_small [OF assms(1-3)] assms(4) obtain i where i: "p = page_addr s i + 16"
    "first_free s i" "i < LOW_PAGES" by auto
  have "unat (Size + 16) = unat Size + 16"
    using assms(3) by (intro unat_addr_add [of Size 16, simplified]) (simp add: small_size_def PAGE_SIZE_def)
  then have "pages_for (Size + 16) = 1" "Size \<noteq> 0"
    using assms(3) by (auto simp: pages_for_single small_size_def)
  then have s': "mem s' = store64 (store64 (zero_page s i) (page_addr s i) (Size + 16)) (page_addr s i + 8) NULL"
    using assms(1,4) i AllocatePage_low [OF assms(1) i(2,3)]
    by (auto simp: kalloc_def Let_def sizeof_BlockHeader_def kalloc_rest.simps [of _ "Suc 0" "Suc 0"])
  let ?a = "page_addr s i + of_nat (16 + x)"
  have a: "p + of_nat x = ?a" by (simp add: i(1) add.assoc)
  have x: "unat (of_nat (16 + x) :: addr) = 16 + x" "unat (of_nat (8 + x) :: addr) = 8 + x"
    using assms(5) by (simp_all add: unat_of_nat_addr del: of_nat_add)
  have "?a - page_addr s i = of_nat (16 + x)" "?a - (page_addr s i + 8) = of_nat (8 + x)" by simp_all
  then have "8 \<le> unat (?a - page_addr s i)" "8 \<le> unat (?a - (page_addr s i + 8))"
    "in_page s i ?a"
    using x assms(5) by (simp_all add: in_page_def PAGE_SIZE_def del: of_nat_add)
  then show ?thesis unfolding s' a by (simp only: store64_other) (simp add: zero_page_def)
qed

lemma length_digits_u64: "length (digits (unat (N :: u64))) \<le> 20"
proof (rule digits_bound)
  have "unat N < 2 ^ 64" using unsigned_less [of N] by simp
  then show "unat N < 10 ^ 20" by simp
qed simp

lemma UlToString_eq:
  assumes "kalloc 64 s = Inr (p, s1)"
  shows "UlToString N s = Inr (p, s1\<lparr>mem :=
     store_bytes (mem s1) p (map digit_byte (exchange_ends (digits (unat N))))\<rparr>)"
proof -
  let ?ds = "digits (unat N)" and ?bs = "map digit_byte (digits (unat N))"
  have len: "length ?ds \<le> 20" by (rule length_digits_u64)
  have "ul_digits p (unat N) 0 (mem s1) = (length ?ds - 1, store_bytes (mem s1) p ?bs)"
    using ul_digits_closed [of 0 "unat N" p "mem s1"] len by simp
  moreover have "ul_reverse p (length ?ds - 1) 0 (store_bytes (mem s1) p ?bs) =
      store_bytes (mem s1) p (swap_loop (length ?bs - 1) 0 ?bs)"
    using len by (simp add: ul_reverse_swap)
  moreover have "swap_loop (length ?bs - 1) 0 ?bs = exchange_ends ?bs"
    by (rule swap_loop_ends) simp
  moreover have "exchange_ends ?bs = map digit_byte (exchange_ends ?ds)"
    by (simp add: exchange_ends_def map_update last_map hd_map)
  ultimately show ?thesis by (simp add: UlToString_def assms)
qed

text \<open>Reading back the text and its terminator.\<close>

lemma UlToString_bytes:
  assumes "layout_ok s" "low_room s (Suc n)" "kalloc 64 s = Inr (p, s1)" "UlToString N s = Inr (q, s2)"
  shows "q = p" "load_bytes (mem s2) p (length (digits (unat N))) = map digit_byte (exchange_ends (digits (unat N)))"
    "mem s2 (p + of_nat (length (digits (unat N)))) = 0"
proof -
  let ?bs = "map digit_byte (exchange_ends (digits (unat N)))"
  have e: "q = p" "s2 = s1\<lparr>mem := store_bytes (mem s1) p ?bs\<rparr>"
    using UlToString_eq [OF assms(3), of N] assms(4) by auto
  show "q = p" by (rule e)
  have len: "length (digits (unat N)) \<le> 20" by (rule length_digits_u64)
  then have "length ?bs \<le> 2 ^ 64" by simp
  then have "load_bytes (store_bytes (mem s1) p ?bs) p (length ?bs) = ?bs" by (rule load_store_same)
  then show "load_bytes (mem s2) p (length (digits (unat N))) = ?bs" by (simp add: e)
  have "small_size 64" by (simp add: small_size_def PAGE_SIZE_def)
  then have "mem s1 (p + of_nat (length (digits (unat N)))) = 0"
    using kalloc_payload_zero [OF assms(1,2) _ assms(3)] len by simp
  then show "mem s2 (p + of_nat (length (digits (unat N)))) = 0"
    using len by (simp add: e store_bytes_def unat_of_nat_addr)
qed

lemma unat_digit_byte: "d < 10 \<Longrightarrow> unat (digit_byte d) = d + 48"
  by (simp add: digit_byte_def unat_word_ariths unat_of_nat)

lemma exchange_short: "length ds \<le> 3 \<Longrightarrow> exchange_ends ds = rev ds"
  by (cases ds; cases "tl ds"; cases "tl (tl ds)") (auto simp: exchange_ends_def)

lemma exchange_ends_set:
  assumes "d \<in> set (exchange_ends ds)" "ds \<noteq> []"
  shows "d \<in> set ds"
proof -
  have "set (exchange_ends ds) \<subseteq> insert (hd ds) (insert (last ds) (set ds))"
    using set_update_subset_insert [of ds 0 "last ds"]
      set_update_subset_insert [of "ds[0 := last ds]" "length ds - 1" "hd ds"]
    unfolding exchange_ends_def by blast
  with assms show ?thesis by auto
qed

lemma map_digit_byte_inj:
  assumes "map digit_byte xs = map digit_byte ys" "\<forall>d \<in> set xs. d < 10" "\<forall>d \<in> set ys. d < 10"
  shows "xs = ys"
  using assms by (induction xs ys rule: list_induct2') (auto dest!: arg_cong [where f = unat] simp: unat_digit_byte)

section \<open>Properties\<close>

text \<open>\<^verbatim>\<open>UlToString\<close> leaves, in a new block, the decimal digits of the number from
  the least significant one with only the first and the last exchanged, and a terminator; up to
  999 that is the number in decimal (1234 comes out as ''1324''), and the text always tells two
  numbers apart.\<close>

theorem UlToString_text:
  assumes "layout_ok s" "low_room s (Suc n)"
  shows "\<exists>p s'. UlToString N s = Inr (p, s') \<and>
      load_bytes (mem s') p (length (digits (unat N))) = map digit_byte (exchange_ends (digits (unat N))) \<and>
      mem s' (p + of_nat (length (digits (unat N)))) = 0 \<and>
      (unat N < 1000 \<longrightarrow> exchange_ends (digits (unat N)) = rev (digits (unat N))) \<and>
      (\<forall>M. map digit_byte (exchange_ends (digits M)) = map digit_byte (exchange_ends (digits (unat N)))
            \<longrightarrow> M = unat N)"
proof -
  have "small_size 64" by (simp add: small_size_def PAGE_SIZE_def)
  with kalloc_small [OF assms] obtain p s1 where k: "kalloc 64 s = Inr (p, s1)" by blast
  obtain s' where u: "UlToString N s = Inr (p, s')" using UlToString_eq [OF k] by blast
  have "exchange_ends (digits (unat N)) = rev (digits (unat N))" if "unat N < 1000"
    using digits_bound [of "unat N" 3] that by (intro exchange_short) simp
  moreover have "M = unat N"
    if "map digit_byte (exchange_ends (digits M)) = map digit_byte (exchange_ends (digits (unat N)))" for M
  proof -
    have "\<forall>d \<in> set (exchange_ends (digits x)). d < 10" for x
      using exchange_ends_set [OF _ digits_not_Nil] digits_less by blast
    with that have "exchange_ends (digits M) = exchange_ends (digits (unat N))" by (intro map_digit_byte_inj)
    then show ?thesis by (metis exchange_twice digits_inj)
  qed
  ultimately show ?thesis using u UlToString_bytes [OF assms k u] by blast
qed

theorem UlToString_text_witness:
  "\<exists>p s'. UlToString 1234 fresh_pages = Inr (p, s') \<and> load_bytes (mem s') p 4 = [0x31, 0x33, 0x32, 0x34] \<and>
     mem s' (p + 4) = 0"
proof -
  have "low_room fresh_pages (Suc 0)" by (simp add: low_room_def LOW_PAGES_def)
  moreover have d: "digits 1234 = [4, 3, 2, 1]" by (simp add: digits.simps)
  then have "map digit_byte (exchange_ends (digits 1234)) = [0x31, 0x33, 0x32, 0x34]"
    by (simp add: exchange_ends_def digit_byte_def)
  moreover have "length (digits 1234) = 4" using d by simp
  ultimately show ?thesis using UlToString_text [OF fresh_pages_layout, of 0 1234] by fastforce
qed

end
