(* ===== verification/Sched.thy ===== *)
theory Sched
  imports VFD UlString
begin

text \<open>
  The scheduler, \<^verbatim>\<open>src/kernel/sched/core.c\<close>. Processes are the children of the node
  \<^verbatim>\<open>/proc\<close>; one of the children, \<^verbatim>\<open>self\<close>, is a link to the running one. The
  trap code stores the interrupted registers in \<^verbatim>\<open>ScratchProc\<close>, calls
  \<^verbatim>\<open>CommitProcessSave\<close> and \<^verbatim>\<open>CommitNextProcess\<close>, and restores the registers
  from \<^verbatim>\<open>ScratchProc\<close> (\<^verbatim>\<open>src/amd64/sched/switch.s\<close>). The acknowledgement of the
  interrupt controller and the interrupt flag have no counterpart in the state.
\<close>

section \<open>Saving, choosing, loading\<close>

definition sizeof_TaskRegisters :: u64 where
  "sizeof_TaskRegisters = 192"

definition CommitProcessSave :: "kernel \<Rightarrow> kernel result" where
  "CommitProcessSave s =
     (if CurrentProc s \<noteq> NULL then
        rbind (node (CurrentProc s) s) (\<lambda>n.
        rbind (call_WriteFunction (WriteFunction n) (ScratchProc s) 1 sizeof_TaskRegisters (CurrentProc s) s)
          (\<lambda>(_, s1). Inr s1))
      else Inr s)"

definition CommitProcessLoad :: "kernel \<Rightarrow> kernel outcome" where
  "CommitProcessLoad s =
     (if CurrentProc s \<noteq> NULL then
        obind (Some (node (CurrentProc s) s)) (\<lambda>n.
        obind (call_ReadFunction (ReadFunction n) (ScratchProc s) 1 sizeof_TaskRegisters (CurrentProc s) s)
          (\<lambda>(_, s1). Some (Inr s1)))
      else Some (Inr s))"

text \<open>The \<^verbatim>\<open>do\<close> loop of \<^verbatim>\<open>CommitNextProcess\<close>.\<close>

definition next_in_list :: "kernel \<Rightarrow> addr result" where
  "next_in_list s =
     rbind (if CurrentProc s = NULL then Inr NULL else rbind (node (CurrentProc s) s) (\<lambda>c. Inr (Next c))) (\<lambda>nx.
       if nx = NULL then rbind (node (Proc s) s) (\<lambda>p. Inr (FirstChild p)) else Inr nx)"

partial_function (option) next_process :: "kernel \<Rightarrow> kernel outcome" where
  "next_process s =
     obind (Some (next_in_list s)) (\<lambda>c.
       if c = SelfProc s then next_process (s\<lparr>CurrentProc := c\<rparr>)
       else Some (Inr (s\<lparr>CurrentProc := c\<rparr>)))"

definition CommitNextProcess :: "kernel \<Rightarrow> kernel outcome" where
  "CommitNextProcess s =
     obind (next_process (s\<lparr>Ticks := Ticks s + 1\<rparr>)) (\<lambda>s1.
     obind (Some (set_node (SelfProc s1) (\<lambda>n. n\<lparr>Link := CurrentProc s1\<rparr>) s1)) (\<lambda>s2.
     CommitProcessLoad s2))"

text \<open>The two calls of the timer trap.\<close>

definition timer_trap :: "kernel \<Rightarrow> kernel outcome" where
  "timer_trap s = obind (Some (CommitProcessSave s)) CommitNextProcess"

section \<open>Creating processes\<close>

definition ProcDir :: string where
  "ProcDir = ''proc'' @ [NUL]"

definition SchedulerCreateProcDir :: "kernel \<Rightarrow> kernel result" where
  "SchedulerCreateProcDir s =
     rbind (NewVNode (VFS_SYSTEM OR VFS_READ OR VFS_WRITE) s) (\<lambda>(P, s1).
     rbind (set_name P ProcDir 4 s1) (\<lambda>s2.
     rbind (RegisterChildVNode (RootVNode s2) P s2) (\<lambda>s3.
     rbind (NewVNode VFS_SYSTEM s3) (\<lambda>(Self, s4).
     rbind (set_name Self (''self'' @ [NUL]) 4 s4) (\<lambda>s5.
     RegisterChildVNode P Self (s5\<lparr>SelfProc := Self\<rparr>))))))"

text \<open>The text in a block of \<^verbatim>\<open>UlToString\<close>.\<close>

definition block_text :: "addr \<Rightarrow> nat \<Rightarrow> kernel \<Rightarrow> string" where
  "block_text p n s = map char_of_byte (load_bytes (mem s) p n)"

definition register_bytes :: "u64 list \<Rightarrow> u8 list" where
  "register_bytes Registers = concat (map (le_split 8) Registers)"

text \<open>\<^verbatim>\<open>InitialState\<close>, passed by value, is the list of its 24 registers.\<close>

definition SchedulerCreateProc :: "u64 list \<Rightarrow> kernel \<Rightarrow> (addr \<times> kernel) outcome" where
  "SchedulerCreateProc InitialState s =
     obind (Some (node (RootVNode s) s)) (\<lambda>r.
     obind (call_RelativeFind (RelativeFind r) (RootVNode s) (Some ProcDir) 4 s) (\<lambda>found.
     let s0 = s\<lparr>Proc := found\<rparr> in
     obind (Some (NewVNode (VFS_SYSTEM OR VFS_READ OR VFS_WRITE) s0)) (\<lambda>(New, s1).
     obind (Some (kalloc sizeof_Task s1)) (\<lambda>(T, s2).
     obind (Some (set_node New (\<lambda>n. n\<lparr>DriverData := T\<rparr>) s2)) (\<lambda>s3.
     obind (Some (set_functions New TaskReadFunction TaskWriteFunction s3)) (\<lambda>s4.
     obind (Some (UlToString (ProgramIdentifier s4) s4)) (\<lambda>(str, s5).
     let text = block_text str 64 s5 in
     obind (Some (strnlen (Some text) 32)) (\<lambda>len.
     obind (Some (set_name New text len s5)) (\<lambda>s6.
     obind (Some (PanicIfNull T)) (\<lambda>_.
     let s7 = s6\<lparr>mem := store_bytes (mem s6) T (register_bytes InitialState)\<rparr> in
     obind (Some (st T task_ProgramIdentifier (ProgramIdentifier s7) s7)) (\<lambda>s8.
     let s9 = s8\<lparr>ProgramIdentifier := ProgramIdentifier s8 + 1\<rparr> in
     obind (Some (st T files_index (- 1) s9)) (\<lambda>s10.
     obind (Some (st T files_next NULL s10)) (\<lambda>s11.
     obind (Some (st T (task_Files + fd_Reference) NULL s11)) (\<lambda>s12.
     obind (Some (st T task_BaseDir (RootVNode s12) s12)) (\<lambda>s13.
     obind (Some (RegisterChildVNode (Proc s13) New s13)) (\<lambda>s14.
     Some (Inr (New, s14))))))))))))))))))"

definition SchedulerInitialise :: "kernel \<Rightarrow> kernel outcome" where
  "SchedulerInitialise s =
     obind (Some (SchedulerCreateProcDir s)) (\<lambda>s1.
     obind (SchedulerCreateProc (replicate 24 0) s1) (\<lambda>(New, s2).
     Some (Inr (s2\<lparr>CurrentProc := New\<rparr>))))"

section \<open>Ending a process\<close>

partial_function (option) process_before :: "addr \<Rightarrow> kernel \<Rightarrow> addr outcome" where
  "process_before Prev s =
     (if Prev \<noteq> NULL then
        obind (Some (node Prev s)) (\<lambda>p.
          if Next p \<noteq> CurrentProc s then process_before (Next p) s else Some (Inr Prev))
      else Some (Inr NULL))"

text \<open>
  The loop over the descriptors. \<^verbatim>\<open>close\<close> frees the block \<open>Desc\<close>, and
  \<^verbatim>\<open>Desc->Next\<close> is read afterwards: \<^verbatim>\<open>kfree\<close> leaves the bytes as they are.
\<close>

partial_function (option) close_all :: "addr \<Rightarrow> kernel \<Rightarrow> kernel outcome" where
  "close_all Desc s =
     (if Desc \<noteq> NULL then
        obind (Some (ld Desc fd_FileIndex s)) (\<lambda>ix.
        obind (fd_close ix s) (\<lambda>s1.
        obind (Some (ld Desc fd_Next s1)) (\<lambda>nx. close_all nx s1)))
      else Some (Inr s))"

text \<open>\<^verbatim>\<open>SchedulerExit\<close> up to its last statement, the endless loop the next timer
  interrupt leaves.\<close>

definition SchedulerExit :: "kernel \<Rightarrow> kernel outcome" where
  "SchedulerExit s =
     obind (Some (node (Proc s) s)) (\<lambda>p.
     obind (if FirstChild p = CurrentProc s then
              Some (rbind (node (CurrentProc s) s) (\<lambda>c. set_node (Proc s) (\<lambda>q. q\<lparr>FirstChild := Next c\<rparr>) s))
            else
              obind (process_before (FirstChild p) s) (\<lambda>Prev.
                if Prev \<noteq> NULL then
                  Some (rbind (node (CurrentProc s) s) (\<lambda>c. set_node Prev (\<lambda>q. q\<lparr>Next := Next c\<rparr>) s))
                else Some (Inr s))) (\<lambda>s1.
     obind (Some (current_task s1)) (\<lambda>Tsk.
     obind (Some (ld Tsk files_next s1)) (\<lambda>Desc.
     obind (close_all Desc s1) (\<lambda>s2.
     obind (Some (node (CurrentProc s2) s2)) (\<lambda>c.
     obind (Some (kfree (DriverData c) s2)) (\<lambda>s3.
     obind (Some (UnregisterVNode (CurrentProc s3) s3)) (\<lambda>s4.
     obind (DeleteVNode (CurrentProc s4) s4) (\<lambda>s5.
     Some (Inr (s5\<lparr>CurrentProc := NULL\<rparr>)))))))))))"

section \<open>Choosing the next process\<close>

lemma next_process_ahead:
  "chain s q vs \<Longrightarrow> filter (\<lambda>x. x \<noteq> SelfProc s) vs = y # ys \<Longrightarrow> is_node s (CurrentProc s) \<Longrightarrow>
     Next (the_node s (CurrentProc s)) = q \<Longrightarrow> next_process s = Some (Inr (s\<lparr>CurrentProc := y\<rparr>))"
proof (induction vs arbitrary: s q)
  case (Cons v vs)
  let ?t = "s\<lparr>CurrentProc := v\<rparr>"
  from Cons.prems have v: "q = v" "is_node s v" "v \<noteq> NULL" "chain s (Next (the_node s v)) vs"
    by (auto simp: is_node_def)
  have cur: "CurrentProc s \<noteq> NULL" using Cons.prems(3) by (auto simp: is_node_def)
  have step: "next_process s = (if v = SelfProc s then next_process ?t else Some (Inr ?t))"
    using Cons.prems(3,4) v cur by (simp add: next_process.simps [of s] next_in_list_def)
  show ?case
  proof (cases "v = SelfProc s")
    case True
    have "chain ?t x vs = chain s x vs" for x by (rule chain_cong) simp
    with v(2,4) Cons.prems(2) True have "next_process ?t = Some (Inr (?t\<lparr>CurrentProc := y\<rparr>))"
      by (intro Cons.IH) simp_all
    with step True show ?thesis by simp
  qed (use step Cons.prems(2) in simp)
qed simp

lemma next_process_wrap:
  "chain s q vs \<Longrightarrow> filter (\<lambda>x. x \<noteq> SelfProc s) vs = [] \<Longrightarrow> is_node s (CurrentProc s) \<Longrightarrow>
     Next (the_node s (CurrentProc s)) = q \<Longrightarrow> is_node s (Proc s) \<Longrightarrow>
     chain s (FirstChild (the_node s (Proc s))) xs \<Longrightarrow> filter (\<lambda>x. x \<noteq> SelfProc s) xs = y # ys \<Longrightarrow>
     next_process s = Some (Inr (s\<lparr>CurrentProc := y\<rparr>))"
proof (induction vs arbitrary: s q)
  case Nil
  from Nil.prems(6,7) obtain x zs where xs: "xs = x # zs" "is_node s x" "x \<noteq> NULL"
    "FirstChild (the_node s (Proc s)) = x" "chain s (Next (the_node s x)) zs"
    by (cases xs) (auto simp: is_node_def)
  let ?t = "s\<lparr>CurrentProc := x\<rparr>"
  have "CurrentProc s \<noteq> NULL" using Nil.prems(3) by (auto simp: is_node_def)
  with Nil.prems xs have step: "next_process s = (if x = SelfProc s then next_process ?t else Some (Inr ?t))"
    by (simp add: next_process.simps [of s] next_in_list_def)
  show ?case
  proof (cases "x = SelfProc s")
    case True
    have "chain ?t x zs = chain s x zs" for x by (rule chain_cong) simp
    with xs True Nil.prems(7) have "next_process ?t = Some (Inr (?t\<lparr>CurrentProc := y\<rparr>))"
      by (intro next_process_ahead [of _ "Next (the_node s x)" zs]) simp_all
    with step True show ?thesis by simp
  qed (use step xs(1) Nil.prems(7) in simp)
next
  case (Cons v vs)
  let ?t = "s\<lparr>CurrentProc := v\<rparr>"
  from Cons.prems(1,2,4) have v: "q = v" "v = SelfProc s" "is_node s v" "v \<noteq> NULL" "chain s (Next (the_node s v)) vs"
    by (auto simp: is_node_def split: if_splits)
  have "CurrentProc s \<noteq> NULL" using Cons.prems(3) by (auto simp: is_node_def)
  with Cons.prems(3,4) v(1,3,4) have step: "next_process s = (if v = SelfProc s then next_process ?t else Some (Inr ?t))"
    by (simp add: next_process.simps [of s] next_in_list_def)
  have "chain ?t x zs = chain s x zs" for x zs by (rule chain_cong) simp
  with v Cons.prems have "next_process ?t = Some (Inr (?t\<lparr>CurrentProc := y\<rparr>))"
    by (intro Cons.IH) simp_all
  with step v(2) show ?case by simp
qed

section \<open>Rings of runnable processes\<close>

text \<open>
  What the trap code relies on: a step that moves the head of the ring to its end. Everything
  about fairness follows from that.
\<close>

fun run_steps :: "('s \<Rightarrow> 's outcome) \<Rightarrow> nat \<Rightarrow> 's \<Rightarrow> 's outcome" where
  "run_steps step 0 s = Some (Inr s)"
| "run_steps step (Suc k) s = obind (step s) (run_steps step k)"

locale round_robin =
  fixes step :: "'s \<Rightarrow> 's outcome"
    and ring :: "'s \<Rightarrow> 'p list \<Rightarrow> bool"
  assumes step_ring: "ring s (p # ps) \<Longrightarrow> \<exists>s'. step s = Some (Inr s') \<and> ring s' (ps @ [p])"
begin

lemma run_ring: "ring s ps \<Longrightarrow> ps \<noteq> [] \<Longrightarrow> \<exists>s'. run_steps step k s = Some (Inr s') \<and> ring s' (rotate k ps)"
proof (induction k arbitrary: s ps)
  case (Suc k)
  then obtain p qs where ps: "ps = p # qs" by (cases ps) auto
  with step_ring Suc.prems(1) obtain s1 where s1: "step s = Some (Inr s1)" "ring s1 (qs @ [p])" by blast
  have "rotate (Suc k) ps = rotate k (qs @ [p])" by (simp add: ps rotate1_rotate_swap)
  moreover have "\<exists>s'. run_steps step k s1 = Some (Inr s') \<and> ring s' (rotate k (qs @ [p]))"
    by (rule Suc.IH [OF s1(2)]) simp
  ultimately show ?case using s1(1) by simp
qed simp

lemma full_round: "ring s ps \<Longrightarrow> ps \<noteq> [] \<Longrightarrow> \<exists>s'. run_steps step (length ps) s = Some (Inr s') \<and> ring s' ps"
  using run_ring [of s ps "length ps"] by simp

lemma every_turn:
  assumes "ring s ps" "p \<in> set ps"
  shows "\<exists>k s' qs. k < length ps \<and> run_steps step k s = Some (Inr s') \<and> ring s' (p # qs)"
proof -
  from assms(2) obtain us vs where ps: "ps = us @ p # vs" by (auto simp: in_set_conv_decomp)
  have "rotate (length us) ps = p # vs @ us" by (simp add: ps rotate_append)
  moreover have "ps \<noteq> []" using ps by simp
  ultimately obtain s' where "run_steps step (length us) s = Some (Inr s')" "ring s' (p # vs @ us)"
    using run_ring [OF assms(1), of "length us"] by auto
  moreover have "length us < length ps" by (simp add: ps)
  ultimately show ?thesis by blast
qed

end

section \<open>The ring of the process directory\<close>

definition task_node :: "kernel \<Rightarrow> addr \<Rightarrow> bool" where
  "task_node s p \<longleftrightarrow> is_node s p \<and> ReadFunction (the_node s p) = TaskReadFunction \<and>
     WriteFunction (the_node s p) = TaskWriteFunction \<and> DriverData (the_node s p) \<noteq> NULL"

definition task_areas :: "kernel \<Rightarrow> addr list \<Rightarrow> bool" where
  "task_areas s ps \<longleftrightarrow> ScratchProc s \<noteq> NULL \<and>
     (\<forall>p \<in> set ps. disjoint_blocks (ScratchProc s) (DriverData (the_node s p)) 192) \<and>
     (\<forall>p \<in> set ps. \<forall>q \<in> set ps. p \<noteq> q \<longrightarrow>
        disjoint_blocks (DriverData (the_node s p)) (DriverData (the_node s q)) 192)"

text \<open>
  The children of \<^verbatim>\<open>/proc\<close> are \<open>us @ c # vs\<close> with \<open>c\<close> the running process; the
  ring is what follows \<open>c\<close> around the list, without \<^verbatim>\<open>self\<close>.
\<close>

definition proc_ring :: "kernel \<Rightarrow> addr list \<Rightarrow> bool" where
  "proc_ring s ps \<longleftrightarrow>
     (\<exists>us c vs. is_node s (Proc s) \<and> chain s (FirstChild (the_node s (Proc s))) (us @ c # vs) \<and>
        distinct (us @ c # vs) \<and> CurrentProc s = c \<and> c \<noteq> SelfProc s \<and> SelfProc s \<in> set (us @ vs) \<and>
        ps = c # filter (\<lambda>x. x \<noteq> SelfProc s) (vs @ us)) \<and>
     (\<forall>p \<in> set ps. task_node s p) \<and> task_areas s ps"

text \<open>The registers a process was interrupted with, and those the trap code restores.\<close>

definition saved_registers :: "kernel \<Rightarrow> addr \<Rightarrow> u8 list" where
  "saved_registers s p = load_bytes (mem s) (DriverData (the_node s p)) 192"

definition trap_registers :: "kernel \<Rightarrow> u8 list" where
  "trap_registers s = load_bytes (mem s) (ScratchProc s) 192"

lemma disjoint_blocks_sym: "disjoint_blocks p q n = disjoint_blocks q p n"
  by (metis disjoint_blocks_def)

lemma load_bytes_outside:
  assumes "\<forall>a. n \<le> unat (a - p) \<longrightarrow> m' a = m a" "disjoint_blocks p q n" "n \<le> 2 ^ 64"
  shows "load_bytes m' q n = load_bytes m q n"
  unfolding load_bytes_def
proof (rule map_cong [OF refl])
  fix i assume "i \<in> set [0..<n]"
  then have i: "i < n" by simp
  have "n \<le> unat (q + of_nat i - p)"
  proof (rule ccontr)
    assume "\<not> n \<le> unat (q + of_nat i - p)"
    then have j: "unat (q + of_nat i - p) < n" by simp
    moreover have "p + of_nat (unat (q + of_nat i - p)) = q + of_nat i" by simp
    ultimately show False using assms(2) i unfolding disjoint_blocks_def by metis
  qed
  with assms(1) show "m' (q + of_nat i) = m (q + of_nat i)" by blast
qed

lemma CommitProcessSave_ok:
  assumes "task_node s p" "CurrentProc s = p" "ScratchProc s \<noteq> NULL"
    "disjoint_blocks (ScratchProc s) (DriverData (the_node s p)) 192"
  shows "\<exists>m. CommitProcessSave s = Inr (s\<lparr>mem := m\<rparr>) \<and>
     load_bytes m (DriverData (the_node s p)) 192 = load_bytes (mem s) (ScratchProc s) 192 \<and>
     (\<forall>a. 192 \<le> unat (a - DriverData (the_node s p)) \<longrightarrow> m a = mem s a)"
proof -
  from assms memcpy_eq [of "DriverData (the_node s p)" "ScratchProc s" 192 "mem s"]
  obtain m where m: "memcpy (DriverData (the_node s p)) (ScratchProc s) 192 (mem s) = Inr m"
    "load_bytes m (DriverData (the_node s p)) 192 = load_bytes (mem s) (ScratchProc s) 192"
    "\<forall>a. 192 \<le> unat (a - DriverData (the_node s p)) \<longrightarrow> m a = mem s a"
    by (auto simp: task_node_def disjoint_blocks_sym)
  moreover have "p \<noteq> NULL" using assms(1) by (auto simp: task_node_def is_node_def)
  ultimately show ?thesis using assms
    by (auto simp: CommitProcessSave_def task_node_def call_WriteFunction_def TaskWrite_def
      sizeof_TaskRegisters_def sizeof_Task_def)
qed

lemma CommitProcessLoad_ok:
  assumes "task_node s p" "CurrentProc s = p" "ScratchProc s \<noteq> NULL"
    "disjoint_blocks (ScratchProc s) (DriverData (the_node s p)) 192"
  shows "\<exists>m. CommitProcessLoad s = Some (Inr (s\<lparr>mem := m\<rparr>)) \<and>
     load_bytes m (ScratchProc s) 192 = load_bytes (mem s) (DriverData (the_node s p)) 192 \<and>
     (\<forall>a. 192 \<le> unat (a - ScratchProc s) \<longrightarrow> m a = mem s a)"
proof -
  from assms memcpy_eq [of "ScratchProc s" "DriverData (the_node s p)" 192 "mem s"]
  obtain m where m: "memcpy (ScratchProc s) (DriverData (the_node s p)) 192 (mem s) = Inr m"
    "load_bytes m (ScratchProc s) 192 = load_bytes (mem s) (DriverData (the_node s p)) 192"
    "\<forall>a. 192 \<le> unat (a - ScratchProc s) \<longrightarrow> m a = mem s a"
    by (auto simp: task_node_def)
  moreover have "p \<noteq> NULL" using assms(1) by (auto simp: task_node_def is_node_def)
  ultimately show ?thesis using assms
    by (auto simp: CommitProcessLoad_def task_node_def call_ReadFunction_def TaskRead_def
      sizeof_TaskRegisters_def sizeof_Task_def)
qed

lemma chain_Link [simp]:
  "is_node s p \<Longrightarrow> chain (s\<lparr>nodes := (nodes s)(p \<mapsto> (the_node s p)\<lparr>Link := l\<rparr>)\<rparr>) q xs = chain s q xs"
  by (rule chain_cong) (auto simp: is_node_def)

lemma chain_fields [simp]:
  "chain (s\<lparr>mem := m\<rparr>) q xs = chain s q xs" "chain (s\<lparr>CurrentProc := c\<rparr>) q xs = chain s q xs"
  "chain (s\<lparr>Ticks := t\<rparr>) q xs = chain s q xs"
  by (rule chain_cong; simp)+

lemma ring_next:
  assumes "proc_ring s (p # ps)"
  shows "next_process s = Some (Inr (s\<lparr>CurrentProc := hd (ps @ [p])\<rparr>))"
proof -
  from assms obtain us vs where r: "is_node s (Proc s)" "chain s (FirstChild (the_node s (Proc s))) (us @ p # vs)"
    "CurrentProc s = p" "p \<noteq> SelfProc s" "ps = filter (\<lambda>x. x \<noteq> SelfProc s) (vs @ us)"
    by (auto simp: proc_ring_def)
  from r(2) have c: "is_node s p" "chain s (Next (the_node s p)) vs" by (auto simp: chain_segment)
  show ?thesis
  proof (cases "filter (\<lambda>x. x \<noteq> SelfProc s) vs")
    case (Cons y ys)
    with c r(3,5) show ?thesis by (subst next_process_ahead [OF c(2) Cons]) simp_all
  next
    case Nil
    have "filter (\<lambda>x. x \<noteq> SelfProc s) (us @ p # vs) = ps @ [p]" using r(4,5) Nil by simp
    moreover obtain y ys where y: "ps @ [p] = y # ys" by (cases "ps @ [p]") auto
    ultimately have "filter (\<lambda>x. x \<noteq> SelfProc s) (us @ p # vs) = y # ys" by simp
    from next_process_wrap [OF c(2) Nil _ _ r(1,2) this] c(1) r(3) y show ?thesis by simp
  qed
qed

text \<open>The ring of the next process.\<close>

lemma ring_rotated:
  assumes "proc_ring s (p # ps)" "q = hd (ps @ [p])"
    and "is_node t (Proc t)" "Proc t = Proc s" "SelfProc t = SelfProc s" "CurrentProc t = q"
    and "chain t (FirstChild (the_node t (Proc t))) = chain s (FirstChild (the_node s (Proc s)))"
    and "ScratchProc t = ScratchProc s"
    and "\<And>x. task_node t x = task_node s x" "\<And>x. DriverData (the_node t x) = DriverData (the_node s x)"
  shows "proc_ring t (ps @ [p])"
proof -
  let ?f = "filter (\<lambda>x. x \<noteq> SelfProc s)"
  from assms(1) obtain us vs where r: "chain s (FirstChild (the_node s (Proc s))) (us @ p # vs)"
    "distinct (us @ p # vs)" "p \<noteq> SelfProc s" "SelfProc s \<in> set (us @ vs)" "ps = ?f (vs @ us)"
    and tn: "\<forall>x \<in> set (p # ps). task_node s x" and ta: "task_areas s (p # ps)"
    by (auto simp: proc_ring_def)
  have "\<exists>us' vs'. us @ p # vs = us' @ q # vs' \<and> q \<noteq> SelfProc s \<and> ps @ [p] = q # ?f (vs' @ us')"
  proof (cases ps)
    case Nil
    then show ?thesis using r(3,5) assms(2) by (intro exI [of _ us] exI [of _ vs]) simp
  next
    case (Cons y ys)
    then have q: "q = y" using assms(2) by simp
    show ?thesis
    proof (cases "?f vs")
      case (Cons z zs)
      then obtain v1 v2 where v: "vs = v1 @ z # v2" "?f v1 = []" "z \<noteq> SelfProc s" "zs = ?f v2"
        by (auto simp: filter_eq_Cons_iff)
      have "q = z" using q \<open>ps = y # ys\<close> r(5) Cons by simp
      with v r(3,5) show ?thesis
        by (intro exI [of _ "us @ p # v1"] exI [of _ v2]) simp
    next
      case Nil
      with r(5) \<open>ps = y # ys\<close> have "?f us = y # ys" by simp
      then obtain u1 u2 where u: "us = u1 @ y # u2" "?f u1 = []" "y \<noteq> SelfProc s" "ys = ?f u2"
        by (auto simp: filter_eq_Cons_iff)
      with Nil q r(3,5) show ?thesis
        by (intro exI [of _ u1] exI [of _ "u2 @ p # vs"]) simp
    qed
  qed
  then obtain us' vs' where n: "us @ p # vs = us' @ q # vs'" "q \<noteq> SelfProc s" "ps @ [p] = q # ?f (vs' @ us')"
    by blast
  have "SelfProc s \<in> set (us @ p # vs)" using r(4) by auto
  then have "SelfProc s \<in> set (us' @ vs')" using n(2) unfolding n(1) by auto
  moreover have "task_areas t (ps @ [p])" using ta assms(8,10) by (auto simp: task_areas_def)
  moreover have "chain t (FirstChild (the_node t (Proc t))) (us' @ q # vs')" "distinct (us' @ q # vs')"
    using r(1,2) by (simp_all only: assms(7) n(1))
  moreover have "\<forall>x \<in> set (ps @ [p]). task_node t x" using tn assms(9) by auto
  moreover have "ps @ [p] = q # filter (\<lambda>x. x \<noteq> SelfProc t) (vs' @ us')" "q \<noteq> SelfProc t"
    using n(2,3) assms(5) by simp_all
  ultimately show ?thesis
    unfolding proc_ring_def using assms(3-6) by metis
qed

lemma timer_trap_ok:
  assumes "proc_ring s (p # ps)"
  shows "\<exists>s'. timer_trap s = Some (Inr s') \<and> proc_ring s' (ps @ [p]) \<and> Ticks s' = Ticks s + 1 \<and>
     Link (the_node s' (SelfProc s')) = hd (ps @ [p]) \<and>
     saved_registers s' p = trap_registers s \<and>
     (\<forall>q \<in> set ps - {p}. saved_registers s' q = saved_registers s q) \<and>
     trap_registers s' = saved_registers s' (hd (ps @ [p]))"
proof -
  let ?q = "hd (ps @ [p])"
  from assms have tn: "task_node s x" if "x \<in> set (p # ps)" for x using that by (auto simp: proc_ring_def)
  from assms have ta: "task_areas s (p # ps)" and cur: "CurrentProc s = p" and
    nodes: "is_node s (Proc s)" "is_node s (SelfProc s)" "p \<noteq> SelfProc s"
    by (auto simp: proc_ring_def dest: chain_nodes)
  have q: "?q \<in> set (p # ps)" by (cases ps) auto
  have s0: "ScratchProc s \<noteq> NULL" using ta by (simp add: task_areas_def)
  have sc: "disjoint_blocks (ScratchProc s) (DriverData (the_node s x)) 192"
    if "x \<in> set (p # ps)" for x using ta that by (auto simp: task_areas_def)
  obtain m where save: "CommitProcessSave s = Inr (s\<lparr>mem := m\<rparr>)"
    "load_bytes m (DriverData (the_node s p)) 192 = trap_registers s"
    "\<forall>a. 192 \<le> unat (a - DriverData (the_node s p)) \<longrightarrow> m a = mem s a"
    using CommitProcessSave_ok [OF tn cur s0 sc] by (auto simp: trap_registers_def)
  let ?s0 = "s\<lparr>mem := m, Ticks := Ticks s + 1\<rparr>"
  have "proc_ring ?s0 (p # ps)"
    using assms by (simp add: proc_ring_def task_node_def task_areas_def)
  from ring_next [OF this] have nx: "next_process ?s0 = Some (Inr (?s0\<lparr>CurrentProc := ?q\<rparr>))" .
  let ?N = "(nodes s)(SelfProc s \<mapsto> (the_node s (SelfProc s))\<lparr>Link := ?q\<rparr>)"
  let ?s1 = "s\<lparr>mem := m, nodes := ?N, CurrentProc := ?q, Ticks := Ticks s + 1\<rparr>"
  have s1: "?s0\<lparr>CurrentProc := ?q, nodes := ?N\<rparr> = ?s1" by simp
  have same: "task_node ?s1 x = task_node s x" "DriverData (the_node ?s1 x) = DriverData (the_node s x)" for x
    using nodes(2) by (auto simp: task_node_def is_node_def)
  have "ScratchProc ?s1 \<noteq> NULL" using s0 by simp
  moreover have "disjoint_blocks (ScratchProc ?s1) (DriverData (the_node ?s1 ?q)) 192"
    using sc [OF q] same(2) by simp
  moreover have "task_node ?s1 ?q" using tn [OF q] same(1) by simp
  ultimately obtain m' where load: "CommitProcessLoad ?s1 = Some (Inr (?s1\<lparr>mem := m'\<rparr>))"
    "load_bytes m' (ScratchProc s) 192 = load_bytes m (DriverData (the_node s ?q)) 192"
    "\<forall>a. 192 \<le> unat (a - ScratchProc s) \<longrightarrow> m' a = m a"
    using CommitProcessLoad_ok [of ?s1 ?q] same(2) [of ?q] by auto
  let ?s2 = "?s1\<lparr>mem := m'\<rparr>"
  have "timer_trap s = CommitProcessLoad (?s0\<lparr>CurrentProc := ?q, nodes := ?N\<rparr>)"
    using save(1) nx nodes(2) by (simp add: timer_trap_def CommitNextProcess_def)
  also have "\<dots> = Some (Inr ?s2)" unfolding s1 by (rule load(1))
  finally have "timer_trap s = Some (Inr ?s2)" .
  moreover have "proc_ring ?s2 (ps @ [p])"
  proof (rule ring_rotated [OF assms refl])
    show "chain ?s2 (FirstChild (the_node ?s2 (Proc ?s2))) = chain s (FirstChild (the_node s (Proc s)))"
      using nodes(2) by (intro ext, subst chain_cong [of _ _ s]) (auto simp: is_node_def)
  qed (use same nodes in \<open>auto simp: task_node_def is_node_def\<close>)
  moreover have keep: "saved_registers ?s2 x = load_bytes m (DriverData (the_node s x)) 192" if "x \<in> set (p # ps)" for x
    using load_bytes_outside [OF load(3) sc [OF that]] same(2) [of x]
    by (simp add: saved_registers_def)
  moreover have "saved_registers ?s2 p = trap_registers s" using keep [of p] save(2) by simp
  moreover have "saved_registers ?s2 x = saved_registers s x" if "x \<in> set ps - {p}" for x
  proof -
    have "disjoint_blocks (DriverData (the_node s p)) (DriverData (the_node s x)) 192"
      using ta that by (auto simp: task_areas_def)
    from load_bytes_outside [OF save(3) this] keep [of x] that show ?thesis
      by (simp add: saved_registers_def)
  qed
  moreover have "trap_registers ?s2 = saved_registers ?s2 ?q"
    using keep [OF q] load(2) by (simp add: trap_registers_def)
  ultimately show ?thesis by (intro exI [of _ ?s2]) simp
qed

interpretation cpu: round_robin timer_trap proc_ring
  using timer_trap_ok by unfold_locales blast

text \<open>With nothing but \<^verbatim>\<open>self\<close> in the directory, the search goes round for ever.\<close>

definition only_self :: "kernel \<Rightarrow> bool" where
  "only_self s \<longleftrightarrow> is_node s (Proc s) \<and> FirstChild (the_node s (Proc s)) = SelfProc s \<and>
     is_node s (SelfProc s) \<and> Next (the_node s (SelfProc s)) = NULL \<and>
     CurrentProc s \<in> {NULL, SelfProc s}"

lemma only_self_step: "only_self s \<Longrightarrow> next_in_list s = Inr (SelfProc s) \<and> only_self (s\<lparr>CurrentProc := SelfProc s\<rparr>)"
  by (auto simp: only_self_def next_in_list_def)

lemma next_process_only_self: "only_self s \<Longrightarrow> next_process s = None"
proof -
  have "\<not> only_self s" if "next_process s = Some y" for s y
  proof (rule next_process.raw_induct [where P = "\<lambda>s y. \<not> only_self s", OF _ that])
    fix f s y
    assume IH: "\<And>s y. f s = Some y \<Longrightarrow> \<not> only_self s"
      and body: "obind (Some (next_in_list s)) (\<lambda>c. if c = SelfProc s then f (s\<lparr>CurrentProc := c\<rparr>)
        else Some (Inr (s\<lparr>CurrentProc := c\<rparr>))) = Some y"
    show "\<not> only_self s"
    proof
      assume "only_self s"
      with only_self_step have n: "next_in_list s = Inr (SelfProc s)" "only_self (s\<lparr>CurrentProc := SelfProc s\<rparr>)"
        by blast+
      with body have "f (s\<lparr>CurrentProc := SelfProc s\<rparr>) = Some y" by simp
      with IH n(2) show False by blast
    qed
  qed
  then show "only_self s \<Longrightarrow> next_process s = None" by (cases "next_process s") auto
qed

section \<open>Properties of the ring\<close>

lemma disjoint_blocks_apart:
  assumes "unat p + n \<le> unat q \<or> unat q + n \<le> unat p" "unat p + n \<le> 2 ^ 64" "unat q + n \<le> 2 ^ 64"
  shows "disjoint_blocks p q n"
  unfolding disjoint_blocks_def
proof (intro allI impI notI)
  fix i j assume ij: "i < n" "j < n" and "p + of_nat i = q + of_nat j"
  then have "unat (p + of_nat i) = unat (q + of_nat j)" by simp
  then have "unat p + i = unat q + j"
    using ij assms(2,3) unat_addr_add [of p "of_nat i"] unat_addr_add [of q "of_nat j"]
    by (simp add: unat_of_nat_addr)
  with assms(1) ij show False by linarith
qed

text \<open>Two processes with \<^verbatim>\<open>self\<close> between them, the first one running.\<close>

definition two_processes :: kernel where
  "two_processes = root_only\<lparr>
     nodes := [0x1000 \<mapsto> root_node\<lparr>FirstChild := 0x2000\<rparr>,
       0x2000 \<mapsto> root_node\<lparr>Next := 0x3000, ReadFunction := TaskReadFunction,
                  WriteFunction := TaskWriteFunction, DriverData := 0x8000\<rparr>,
       0x3000 \<mapsto> root_node\<lparr>Next := 0x4000\<rparr>,
       0x4000 \<mapsto> root_node\<lparr>ReadFunction := TaskReadFunction,
                  WriteFunction := TaskWriteFunction, DriverData := 0x9000\<rparr>],
     CurrentProc := 0x2000, Proc := 0x1000, SelfProc := 0x3000, ScratchProc := 0x7000\<rparr>"

lemma two_processes_simps [simp]:
  "Proc two_processes = 0x1000" "CurrentProc two_processes = 0x2000" "SelfProc two_processes = 0x3000"
  "ScratchProc two_processes = 0x7000"
  "is_node two_processes p \<longleftrightarrow> p \<in> {0x1000, 0x2000, 0x3000, 0x4000}"
  "FirstChild (the_node two_processes 0x1000) = 0x2000"
  "Next (the_node two_processes 0x2000) = 0x3000" "Next (the_node two_processes 0x3000) = 0x4000"
  "Next (the_node two_processes 0x4000) = NULL"
  "DriverData (the_node two_processes 0x2000) = 0x8000" "DriverData (the_node two_processes 0x4000) = 0x9000"
  "task_node two_processes 0x2000" "task_node two_processes 0x4000"
  by (auto simp: two_processes_def is_node_def task_node_def root_node_def zero_node_def)

lemma two_processes_ring: "proc_ring two_processes [0x2000, 0x4000]"
proof -
  have "task_areas two_processes [0x2000, 0x4000]"
    by (auto simp: task_areas_def intro!: disjoint_blocks_apart)
  moreover have "chain two_processes 0x2000 ([] @ 0x2000 # [0x3000, 0x4000])" by simp
  ultimately show ?thesis
    unfolding proc_ring_def
    by (intro conjI exI [of _ "[]"] exI [of _ "0x2000"] exI [of _ "[0x3000, 0x4000]"]) simp_all
qed

text \<open>C4. A timer trap with at least one runnable process switches to the next one in ring
  order, \<^verbatim>\<open>self\<close> skipped: the interrupted registers become the saved ones of the process
  that ran, nobody else's change, the registers to restore are the saved ones of the process
  that runs next, \<^verbatim>\<open>/proc/self\<close> points to it, and the ring is ready for the next trap.\<close>

theorem timer_trap_switch:
  assumes "proc_ring s (p # ps)"
  shows "\<exists>s'. timer_trap s = Some (Inr s') \<and> proc_ring s' (ps @ [p]) \<and>
     CurrentProc s' = hd (ps @ [p]) \<and> Ticks s' = Ticks s + 1 \<and>
     Link (the_node s' (SelfProc s')) = CurrentProc s' \<and>
     saved_registers s' p = trap_registers s \<and>
     (\<forall>q \<in> set ps - {p}. saved_registers s' q = saved_registers s q) \<and>
     trap_registers s' = saved_registers s' (CurrentProc s')"
proof -
  from timer_trap_ok [OF assms] obtain s' where s': "timer_trap s = Some (Inr s')" "proc_ring s' (ps @ [p])"
    "Ticks s' = Ticks s + 1" "Link (the_node s' (SelfProc s')) = hd (ps @ [p])"
    "saved_registers s' p = trap_registers s" "trap_registers s' = saved_registers s' (hd (ps @ [p]))"
    "\<forall>q \<in> set ps - {p}. saved_registers s' q = saved_registers s q" by blast
  moreover from s'(2) have "CurrentProc s' = hd (ps @ [p])" by (auto simp: proc_ring_def)
  ultimately show ?thesis by auto
qed

theorem timer_trap_switch_witness:
  "\<exists>s'. timer_trap two_processes = Some (Inr s') \<and> CurrentProc s' = 0x4000 \<and> proc_ring s' [0x4000, 0x2000]"
  using timer_trap_switch [OF two_processes_ring] by auto

text \<open>C13. The scheduler is fair: every process of the ring runs within one round, after
  fewer traps than there are processes, and a full round returns to the same ring.\<close>

theorem scheduler_fair:
  assumes "proc_ring s ps" "p \<in> set ps"
  shows "(\<exists>k s'. k < length ps \<and> run_steps timer_trap k s = Some (Inr s') \<and> CurrentProc s' = p) \<and>
     (\<exists>s'. run_steps timer_trap (length ps) s = Some (Inr s') \<and> proc_ring s' ps)"
proof -
  from cpu.every_turn [OF assms] obtain k s' qs where "k < length ps"
    "run_steps timer_trap k s = Some (Inr s')" "proc_ring s' (p # qs)" by blast
  moreover from this(3) have "CurrentProc s' = p" by (auto simp: proc_ring_def)
  moreover have "ps \<noteq> []" using assms(2) by auto
  ultimately show ?thesis using cpu.full_round [OF assms(1)] by blast
qed

theorem scheduler_fair_witness:
  "\<exists>k s'. k < 2 \<and> run_steps timer_trap k two_processes = Some (Inr s') \<and> CurrentProc s' = 0x4000"
  using scheduler_fair [OF two_processes_ring, of "0x4000"] by (simp add: numeral_2_eq_2)

text \<open>C40. When only \<^verbatim>\<open>self\<close> is left in the process directory, as after the last process
  has ended, the next timer trap does not return.\<close>

theorem timer_trap_hangs:
  assumes "only_self s" "CurrentProc s = NULL"
  shows "timer_trap s = None"
proof -
  have "only_self (s\<lparr>Ticks := Ticks s + 1\<rparr>)" using assms(1) by (simp add: only_self_def)
  then show ?thesis
    using assms(2) next_process_only_self by (simp add: timer_trap_def CommitProcessSave_def CommitNextProcess_def)
qed

theorem timer_trap_hangs_witness:
  "timer_trap (two_processes\<lparr>nodes := [0x1000 \<mapsto> root_node\<lparr>FirstChild := 0x3000\<rparr>, 0x3000 \<mapsto> root_node],
     CurrentProc := NULL\<rparr>) = None"
  by (rule timer_trap_hangs) (simp_all add: only_self_def two_processes_def is_node_def root_node_def zero_node_def)

section \<open>Ending a process\<close>

text \<open>The nodes after the descriptors on the nodes of \<open>R\<close> have been closed.\<close>

definition closed_node :: "bool \<Rightarrow> VNode \<Rightarrow> VNode" where
  "closed_node b n = (if b then n\<lparr>Flags := Flags n AND NOT VFS_OPENED\<rparr> else n)"

lemma closed_node_simps [simp]:
  "Name (closed_node b n) = Name n" "Next (closed_node b n) = Next n" "Previous (closed_node b n) = Previous n"
  "FirstChild (closed_node b n) = FirstChild n" "Parent (closed_node b n) = Parent n"
  "DriverData (closed_node b n) = DriverData n" "closed_node False n = n"
  "Flags (closed_node b n) = (if b then Flags n AND NOT VFS_OPENED else Flags n)"
  by (simp_all add: closed_node_def)

definition closed_nodes :: "addr set \<Rightarrow> (addr \<Rightarrow> VNode option) \<Rightarrow> addr \<Rightarrow> VNode option" where
  "closed_nodes R ns = (\<lambda>x. map_option (closed_node (x \<in> R)) (ns x))"

lemma closed_nodes_insert:
  "ns r = Some n \<Longrightarrow> closed_nodes R (ns(r \<mapsto> n\<lparr>Flags := Flags n AND NOT VFS_OPENED\<rparr>)) = closed_nodes (insert r R) ns"
  by (auto simp: closed_nodes_def closed_node_def fun_eq_iff and.assoc)

lemma close_all_ok:
  assumes "fd_table s T ds" "\<forall>(d, ix, r) \<in> set ds. closable s r" "p = word_at s T files_next"
  shows "\<exists>s'. close_all p s = Some (Inr s') \<and> layout_ok s' \<and> T \<in> live_blocks s' \<and>
     nodes s' = closed_nodes ((snd \<circ> snd) ` set ds) (nodes s) \<and>
     live_blocks s' = live_blocks s - fst ` set ds \<and>
     CurrentProc s' = CurrentProc s \<and> Proc s' = Proc s \<and> Root s' = Root s"
  using assms
proof (induction ds arbitrary: s p)
  case Nil
  then have "p = NULL" by (simp add: fd_table_def)
  with Nil.prems(1) show ?case
    by (auto simp: close_all.simps fd_table_def closed_nodes_def closed_node_def [abs_def] fun_eq_iff option.map_ident)
next
  case (Cons e ds)
  obtain d ix r where e: "e = (d, ix, r)" by (cases e)
  have c: "closable s r" using Cons.prems(2) e by auto
  then have r: "is_node s r" "\<not> has_flag (Flags (the_node s r)) VFS_DELETE" by (auto simp: closable_def)
  have tab: "fd_table s T ([] @ (d, ix, r) # ds)" using Cons.prems(1) e by simp
  obtain s1 where s1: "fd_close ix s = Some (Inr s1)" "fd_table s1 T ds"
    "nodes s1 = (nodes s)(r \<mapsto> (the_node s r)\<lparr>Flags := Flags (the_node s r) AND NOT VFS_OPENED\<rparr>)"
    "live_blocks s1 = live_blocks s - {d}" "CurrentProc s1 = CurrentProc s" "Proc s1 = Proc s" "Root s1 = Root s"
    "mem s1 = mem (set_word T files_next (word_at s d fd_Next) s)"
    using fd_close_ok [OF tab r] by (auto simp: link_block_def link_offset_def)
  have d: "layout_ok s" "T \<in> live_blocks s" "d \<in> live_blocks s" "T \<noteq> d" "p = d" "word_at s d fd_FileIndex = ix"
    using tab Cons.prems(3) by (auto simp: fd_table_def)
  have "d \<noteq> NULL" by (rule live_not_null [OF d(1,3)])
  have "word_at s1 x y = word_at (set_word T files_next (word_at s d fd_Next) s) x y" for x y
    by (simp only: word_at_def s1(8))
  then have w: "word_at s1 T files_next = word_at s d fd_Next" "word_at s1 d fd_Next = word_at s d fd_Next"
    using d by (simp_all add: word_set_other)
  have "\<forall>(d, ix, r) \<in> set ds. closable s1 r"
    using Cons.prems(2) closable_flags [OF _ s1(3) r(1)] e by fastforce
  from Cons.IH [OF s1(2) this refl] w obtain s' where s': "close_all (word_at s d fd_Next) s1 = Some (Inr s')"
    "layout_ok s'" "T \<in> live_blocks s'" "nodes s' = closed_nodes ((snd \<circ> snd) ` set ds) (nodes s1)"
    "live_blocks s' = live_blocks s1 - fst ` set ds"
    "CurrentProc s' = CurrentProc s1" "Proc s' = Proc s1" "Root s' = Root s1" by auto
  have "close_all p s = Some (Inr s')"
    using s'(1) s1(1) d \<open>d \<noteq> NULL\<close> w(2) by (simp add: close_all.simps [of d])
  moreover have "nodes s' = closed_nodes ((snd \<circ> snd) ` set (e # ds)) (nodes s)"
    using r(1) closed_nodes_insert [of "nodes s" r "the_node s r"] by (auto simp: s'(4) s1(3) e is_node_def)
  ultimately show ?case using s' s1 e by auto
qed

lemma process_before_last:
  "segment s p us (CurrentProc s) \<Longrightarrow> us \<noteq> [] \<Longrightarrow> CurrentProc s \<notin> set us \<Longrightarrow>
     process_before p s = Some (Inr (last us))"
proof (induction us arbitrary: p)
  case (Cons u us)
  then have u: "p = u" "is_node s u" "u \<noteq> NULL" "segment s (Next (the_node s u)) us (CurrentProc s)"
    by (auto simp: is_node_def)
  show ?case
  proof (cases us)
    case Nil
    with u show ?thesis by (simp add: process_before.simps [of u])
  next
    case (Cons v ws)
    then have "Next (the_node s u) \<noteq> CurrentProc s" using u(4) Cons.prems(3) by auto
    moreover have "process_before (Next (the_node s u)) s = Some (Inr (last us))"
      using Cons.IH [OF u(4)] Cons.prems(3) Cons by auto
    ultimately show ?thesis using u Cons by (simp add: process_before.simps [of u])
  qed
qed simp

text \<open>A directory after the child \<open>c\<close> has been bypassed, in terms of the fields.\<close>

lemma dir_at_bypass:
  assumes "dir_at P s (us @ c # vs)" "q = (if vs = [] then NULL else hd vs)" "p = (if us = [] then NULL else last us)"
    and "\<And>x. x \<noteq> c \<Longrightarrow> is_node s x \<Longrightarrow> is_node t x \<and> Name (the_node t x) = Name (the_node s x) \<and>
       (has_flag (Flags (the_node t x)) VFS_ONDISK \<longleftrightarrow> has_flag (Flags (the_node s x)) VFS_ONDISK) \<and>
       Next (the_node t x) = (if us \<noteq> [] \<and> x = p then q else Next (the_node s x)) \<and>
       Previous (the_node t x) = (if vs \<noteq> [] \<and> x = q then p else Previous (the_node s x)) \<and>
       FirstChild (the_node t x) = (if us = [] \<and> x = P then q else FirstChild (the_node s x))"
  shows "dir_at P t (us @ vs)"
proof -
  have nd: "\<forall>x \<in> set (us @ c # vs). is_node s x"
    using assms(1) chain_nodes unfolding dir_at_def by blast
  from assms(1) have P: "is_node s P" "P \<noteq> c" "P \<notin> set us" "P \<notin> set vs" "\<not> has_flag (Flags (the_node s P)) VFS_ONDISK"
    and d: "distinct us" "distinct vs" "c \<notin> set us" "c \<notin> set vs" "set us \<inter> set vs = {}"
    and ch: "segment s (FirstChild (the_node s P)) us c" "chain s (Next (the_node s c)) vs"
    and ln: "linked s NULL us" "linked s c vs" and nm: "\<forall>x \<in> set (us @ c # vs). name_ok (the_node s x)"
    by (auto simp: dir_at_def chain_segment)
  have fc: "chain t (FirstChild (the_node t P)) (us @ vs)"
  proof -
    have "q = Next (the_node s c)" using ch(2) assms(2) by (cases vs) auto
    moreover have "chain t q vs" if "chain s q vs"
    proof (rule chain_unchanged [OF _ that])
      fix x assume x: "x \<in> set vs"
      then have "x \<noteq> c" "is_node s x" using d(4) nd by auto
      moreover from x have "\<not> (us \<noteq> [] \<and> x = p)" using d(5) assms(3) last_in_set by auto
      ultimately show "nodes t x \<noteq> None \<and> Next (the_node t x) = Next (the_node s x)"
        using assms(4) [of x] by (auto simp: is_node_def)
    qed
    ultimately have vs: "chain t q vs" using ch(2) by simp
    show ?thesis
    proof (cases us rule: rev_cases)
      case Nil
      with vs assms(4) [of P] P show ?thesis by simp
    next
      case (snoc us0 l)
      with ch(1) have seg: "segment s (FirstChild (the_node s P)) us0 l" by auto
      have "segment t (FirstChild (the_node s P)) us0 l"
      proof (rule segment_unchanged [OF _ seg])
        fix x assume x: "x \<in> set us0"
        with d(1,3) snoc have "x \<noteq> c" "x \<noteq> l" by auto
        with x assms(3) snoc nd assms(4) [of x] show "is_node t x \<and> Next (the_node t x) = Next (the_node s x)" by auto
      qed
      moreover have "is_node t l" "Next (the_node t l) = q" using assms(3) snoc d nd assms(4) [of l] by auto
      moreover have "FirstChild (the_node t P) = FirstChild (the_node s P)" using assms(4) [of P] P snoc by simp
      ultimately show ?thesis using vs snoc by (simp add: chain_segment)
    qed
  qed
  have "linked t NULL us"
  proof -
    have "Previous (the_node t x) = Previous (the_node s x)" if x: "x \<in> set us" for x
    proof -
      from x d(3,5) have "x \<noteq> c" "vs \<noteq> [] \<longrightarrow> x \<noteq> hd vs" by (auto simp: disjoint_iff)
      with x assms(2) assms(4) [of x] nd show ?thesis by auto
    qed
    then show ?thesis using ln(1) linked_cong by blast
  qed
  moreover have "linked t (last (NULL # us)) vs"
  proof (cases vs)
    case (Cons v ws)
    then have "Previous (the_node t v) = p" using assms(2) assms(4) [of v] d nd by auto
    moreover have "Previous (the_node t x) = Previous (the_node s x)" if x: "x \<in> set ws" for x
    proof -
      from x d(2,4) Cons have "x \<noteq> c" "x \<noteq> v" by auto
      with x Cons assms(2) assms(4) [of x] nd show ?thesis by auto
    qed
    then have "linked t v ws" using ln(2) Cons linked_cong [of ws t s v] by simp
    ultimately show ?thesis using Cons assms(3) by (simp split: if_splits)
  qed simp
  ultimately have "linked t NULL (us @ vs)" by simp
  moreover have "name_ok (the_node t x)" if x: "x \<in> set (us @ vs)" for x
  proof -
    from x d(3,4) have "x \<noteq> c" by auto
    moreover have "is_node s x" "name_ok (the_node s x)" using x nm nd by auto
    ultimately show ?thesis using assms(4) [of x] by (simp add: name_ok_def)
  qed
  ultimately show ?thesis using P d fc assms(4) [of P] by (auto simp: dir_at_def)
qed

lemma fd_list_nodes [simp]: "fd_list (s\<lparr>nodes := m\<rparr>) p ds = fd_list s p ds"
  by (induction ds arbitrary: p) auto

lemma fd_table_nodes:
  assumes "fd_table s T ds" "is_node (s\<lparr>nodes := m\<rparr>) (CurrentProc s)"
    "DriverData (the_node (s\<lparr>nodes := m\<rparr>) (CurrentProc s)) = DriverData (the_node s (CurrentProc s))"
  shows "fd_table (s\<lparr>nodes := m\<rparr>) T ds"
  using assms by (simp add: fd_table_def)

text \<open>The first part of \<^verbatim>\<open>SchedulerExit\<close>: the predecessor in \<^verbatim>\<open>/proc\<close>, or
  \<^verbatim>\<open>/proc\<close> itself, is made to skip the running process.\<close>

definition skipped :: "kernel \<Rightarrow> addr list \<Rightarrow> addr \<Rightarrow> VNode option" where
  "skipped s us =
     (let q = Next (the_node s (CurrentProc s))
      in if us = [] then (nodes s)(Proc s \<mapsto> (the_node s (Proc s))\<lparr>FirstChild := q\<rparr>)
         else (nodes s)(last us \<mapsto> (the_node s (last us))\<lparr>Next := q\<rparr>))"

lemma SchedulerExit_skip:
  assumes "dir_at (Proc s) s (us @ CurrentProc s # vs)"
  shows "SchedulerExit s =
     obind (Some (current_task (s\<lparr>nodes := skipped s us\<rparr>))) (\<lambda>Tsk.
     obind (Some (ld Tsk files_next (s\<lparr>nodes := skipped s us\<rparr>))) (\<lambda>Desc.
     obind (close_all Desc (s\<lparr>nodes := skipped s us\<rparr>)) (\<lambda>s2.
     obind (Some (node (CurrentProc s2) s2)) (\<lambda>c.
     obind (Some (kfree (DriverData c) s2)) (\<lambda>s3.
     obind (Some (UnregisterVNode (CurrentProc s3) s3)) (\<lambda>s4.
     obind (DeleteVNode (CurrentProc s4) s4) (\<lambda>s5.
     Some (Inr (s5\<lparr>CurrentProc := NULL\<rparr>)))))))))"
proof -
  let ?c = "CurrentProc s" and ?P = "Proc s"
  from assms have d: "is_node s ?P" "segment s (FirstChild (the_node s ?P)) us ?c" "?c \<notin> set us" "is_node s ?c"
    by (auto simp: dir_at_def chain_segment)
  show ?thesis
  proof (cases us rule: rev_cases)
    case Nil
    with d show ?thesis by (simp add: SchedulerExit_def skipped_def Let_def)
  next
    case (snoc us0 l)
    then have l: "is_node s l" "l \<noteq> NULL" using d(2) by (auto simp: is_node_def)
    have "f \<in> set xs" if "segment s f xs e" "xs \<noteq> []" for f xs e using that by (cases xs) auto
    from this [OF d(2)] have "FirstChild (the_node s ?P) \<noteq> ?c" using d(3) snoc by auto
    moreover have "process_before (FirstChild (the_node s ?P)) s = Some (Inr l)"
      using process_before_last [OF d(2)] d(3) snoc by simp
    ultimately show ?thesis using d snoc l by (simp add: SchedulerExit_def skipped_def Let_def)
  qed
qed

text \<open>The rest, on the nodes in which the process is skipped.\<close>

lemma SchedulerExit_ok:
  assumes dir: "dir_at (Proc s) s (us @ c # vs)" and c: "CurrentProc s = c"
    "Parent (the_node s c) = NULL" "FirstChild (the_node s c) = NULL" "c \<in> live_blocks s"
    and tab: "fd_table s T ds" "\<forall>(d, ix, r) \<in> set ds. closable s r" "T \<noteq> c" "c \<notin> fst ` set ds"
  shows "\<exists>s'. SchedulerExit s = Some (Inr s') \<and> CurrentProc s' = NULL \<and> Proc s' = Proc s \<and>
     dir_at (Proc s) s' (us @ vs) \<and> nodes s' c = None \<and>
     live_blocks s' = live_blocks s - insert c (insert T (fst ` set ds)) \<and>
     (\<forall>(d, ix, r) \<in> set ds. r \<noteq> c \<longrightarrow> \<not> has_flag (Flags (the_node s' r)) VFS_OPENED)"
proof -
  let ?P = "Proc s" and ?N = "skipped s us" and ?R = "(snd \<circ> snd) ` set ds"
  let ?n = "the_node s c"
  let ?p = "if us = [] then NULL else last us" and ?q = "if vs = [] then NULL else hd vs"
  define s1 where "s1 = s\<lparr>nodes := ?N\<rparr>"
  from dir have P: "is_node s ?P" "?P \<noteq> c" "?P \<notin> set us" "?P \<notin> set vs"
    and dd: "distinct (us @ c # vs)" and ch: "chain s (FirstChild (the_node s ?P)) (us @ c # vs)"
    and ln: "linked s NULL (us @ c # vs)" by (auto simp: dir_at_def)
  have nd: "\<forall>x \<in> set (us @ c # vs). is_node s x" using chain_nodes [OF ch] by blast
  have q: "Next ?n = ?q" using ch by (cases vs) (auto simp: chain_segment)
  have p: "Previous ?n = ?p" using ln by simp
  have hl: "us \<noteq> [] \<Longrightarrow> last us \<in> set us" "vs \<noteq> [] \<Longrightarrow> hd vs \<in> set vs" by simp_all
  have pq: "us \<noteq> [] \<Longrightarrow> last us \<noteq> c \<and> is_node s (last us)" "vs \<noteq> [] \<Longrightarrow> hd vs \<noteq> c \<and> is_node s (hd vs)"
    using dd nd hl by auto
  have "set us \<inter> set vs = {}" using dd by simp
  then have pq': "us \<noteq> [] \<Longrightarrow> vs \<noteq> [] \<Longrightarrow> last us \<noteq> hd vs" "vs \<noteq> [] \<Longrightarrow> hd vs \<noteq> ?P" "us \<noteq> [] \<Longrightarrow> last us \<noteq> ?P"
    using hl P(3,4) by (metis disjoint_iff)+
  have N: "?N x = (if us = [] \<and> x = ?P then Some ((the_node s ?P)\<lparr>FirstChild := ?q\<rparr>)
      else if us \<noteq> [] \<and> x = last us then Some ((the_node s x)\<lparr>Next := ?q\<rparr>) else nodes s x)" for x
    by (simp add: skipped_def c(1) q)
  have Nc: "?N c = nodes s c" using P pq N by auto
  have 1: "fd_table s1 T ds" unfolding s1_def
    using tab(1) Nc nd c(1) by (intro fd_table_nodes) (auto simp: is_node_def)
  have 2: "\<forall>(d, ix, r) \<in> set ds. closable s1 r"
  proof -
    have "closable s1 r" if "closable s r" for r
      using that N [of r] pq P(1) by (auto simp: closable_def s1_def is_node_def)
    with tab(2) show ?thesis by auto
  qed
  obtain s2 where s2: "close_all (word_at s1 T files_next) s1 = Some (Inr s2)" "layout_ok s2" "T \<in> live_blocks s2"
    "nodes s2 = closed_nodes ?R ?N" "live_blocks s2 = live_blocks s1 - fst ` set ds"
    "CurrentProc s2 = c" "Proc s2 = ?P" "Root s2 = Root s"
    using close_all_ok [OF 1 2 refl] by (auto simp: s1_def c(1))
  obtain s3 where s3: "kfree T s2 = Inr s3" "live_blocks s3 = live_blocks s2 - {T}" "layout_ok s3"
    "nodes s3 = closed_nodes ?R ?N"
    using kfree_live [OF s2(2,3)] s2(4) by auto
  note fr3 = kfree_kernel_frame [OF s3(1)]
  let ?f = "\<lambda>x. closed_node (x \<in> ?R)"
  have is3: "is_node s3 x = is_node s x" "is_node s2 x = is_node s x" for x
    using N [of x] pq(1) P(1) s3(4) s2(4) by (auto simp: is_node_def closed_nodes_def)
  have n3: "the_node s3 x = ?f x (the (?N x))" "the_node s2 x = ?f x (the (?N x))" if "is_node s x" for x
    using that N [of x] pq(1) P(1) s3(4) s2(4) by (auto simp: is_node_def closed_nodes_def)
  have cn: "is_node s c" using nd by simp
  have c3: "the_node s3 c = ?f c ?n" "the_node s2 c = ?f c ?n" using n3 [OF cn] Nc by simp_all
  have unreg: "UnregisterVNode c s3 = Inr (s3\<lparr>nodes :=
     (\<lambda>x. if x = c then Some ((the_node s3 c)\<lparr>Next := NULL, Previous := NULL, Parent := NULL\<rparr>)
          else if x \<noteq> NULL \<and> x = ?p then Some ((the_node s3 ?p)\<lparr>Next := ?q\<rparr>)
          else if x \<noteq> NULL \<and> x = ?q then Some ((the_node s3 ?q)\<lparr>Previous := ?p\<rparr>)
          else nodes s3 x)\<rparr>)" (is "_ = Inr (s3\<lparr>nodes := ?U\<rparr>)")
  proof (rule UnregisterVNode_Inr)
    show "is_node s3 c" using is3 cn by simp
    show "?p \<noteq> NULL \<longrightarrow> is_node s3 ?p" "?q \<noteq> NULL \<longrightarrow> is_node s3 ?q" using pq is3 by auto
    show "?p \<noteq> c" "?q \<noteq> c" using pq cn by (auto simp: is_node_def)
    show "?p = ?q \<longrightarrow> ?p = NULL" using pq' nd hl by auto
  qed (use c3 c(2) p q in simp_all)
  define s4 where "s4 = s3\<lparr>nodes := ?U\<rparr>"
  have "repr s4 (VTree c [])" using c3 c(3) cn by (auto simp: s4_def is_node_def)
  moreover have "layout_ok s4" "set (nodes_of (VTree c [])) \<subseteq> live_blocks s4"
    using s3(2,3) s2(5) c(4) tab(3,4) by (auto simp: s4_def s1_def)
  ultimately obtain s5 where s5: "DeleteVNode c s4 = Some (Inr s5)" "deleted s4 {c} s5"
    using delete_tree [of s4 "VTree c []"] by (auto simp: DeleteVNode_def)
  let ?t = "s5\<lparr>CurrentProc := NULL\<rparr>"
  have d3: "DriverData (the_node s2 c) = T" using c3 tab(1) c(1) by (auto simp: fd_table_def)
  have task: "current_task s1 = Inr T" "T \<noteq> NULL"
    using 1 live_not_null by (auto simp: fd_table_def current_task_def s1_def)
  have run: "SchedulerExit s = Some (Inr ?t)"
    using SchedulerExit_skip [of s us vs] dir c(1) task s2(1,6) s3(1) unreg s5(1) d3 cn is3(2) fr3
    by (simp add: s1_def [symmetric] s4_def [symmetric])
      (simp add: s4_def)
  have nt: "nodes ?t x = (if x = c then None else ?U x)" for x
    using s5(2) by (simp add: deleted_def s4_def)
  have od: "has_flag (f AND NOT VFS_OPENED) VFS_ONDISK \<longleftrightarrow> has_flag f VFS_ONDISK" for f
  proof -
    have "NOT VFS_OPENED AND VFS_ONDISK = VFS_ONDISK" by (simp add: VFS_OPENED_def VFS_ONDISK_def)
    then show ?thesis by (simp add: has_flag_def and.assoc)
  qed
  have fields: "is_node ?t x \<and> Name (the_node ?t x) = Name (the_node s x) \<and>
       Flags (the_node ?t x) = Flags (?f x (the_node s x)) \<and>
       Next (the_node ?t x) = (if us \<noteq> [] \<and> x = ?p then ?q else Next (the_node s x)) \<and>
       Previous (the_node ?t x) = (if vs \<noteq> [] \<and> x = ?q then ?p else Previous (the_node s x)) \<and>
       FirstChild (the_node ?t x) = (if us = [] \<and> x = ?P then ?q else FirstChild (the_node s x))"
    if x: "x \<noteq> c" "is_node s x" for x
  proof -
    have "x \<noteq> NULL" using x(2) by (auto simp: is_node_def)
    moreover obtain m where m: "nodes s3 x = Some m" using is3(1) [of x] x(2) by (auto simp: is_node_def)
    moreover from this have m': "m = ?f x (the (?N x))" using n3(1) [OF x(2)] by simp
    ultimately show ?thesis
      using x(1) nt [of x] N [of x] pq pq' P(1) x(2)
      by (cases "us = []"; cases "vs = []"; cases "x = ?p"; cases "x = ?q") (simp_all add: is_node_def)
  qed
  have dir': "dir_at ?P ?t (us @ vs)"
    using fields od by (intro dir_at_bypass [OF dir refl refl]) simp
  have live: "live_blocks ?t = live_blocks s - insert c (insert T (fst ` set ds))"
    using s5(2) s3(2) s2(5) by (auto simp: deleted_def s4_def s1_def)
  have shut: "\<not> has_flag (Flags (the_node ?t r)) VFS_OPENED" if "(d, ix, r) \<in> set ds" "r \<noteq> c" for d ix r
  proof -
    have "is_node s r" "r \<in> ?R" using tab(2) that by (force simp: closable_def)+
    with fields [of r] that show ?thesis by (simp add: has_flag_def and.assoc)
  qed
  have "Proc ?t = ?P"
  proof -
    have "is_node s4 c" "c \<noteq> NULL" "FirstChild (the_node s4 c) = NULL"
      using c3 c(3) cn by (auto simp: s4_def is_node_def)
    with s5(1) obtain s5' where "kfree c s4 = Inr s5'" "s5 = s5'\<lparr>nodes := (nodes s5')(c := None)\<rparr>"
      by (auto simp: DeleteVNode_def delete_walk.simps [of "Inl c"] delete_walk.simps [of "Inr 0"] rbind_Inr_iff)
    with kfree_kernel_frame(4) [of c s4 s5'] show ?thesis using fr3(4) s2(7) by (simp add: s4_def)
  qed
  moreover have "CurrentProc ?t = NULL" by simp
  moreover have "nodes ?t c = None" by (simp only: nt if_True simp_thms)
  moreover have "\<forall>(d, ix, r) \<in> set ds. r \<noteq> c \<longrightarrow> \<not> has_flag (Flags (the_node ?t r)) VFS_OPENED"
    using shut by blast
  ultimately show ?thesis using run dir' live by blast
qed

text \<open>C32. \<^verbatim>\<open>SchedulerExit\<close> takes exactly the running process out of \<^verbatim>\<open>/proc\<close>, which
  stays a doubly linked directory of the others in order, closes every descriptor of the process
  so that the nodes can be opened again, and frees the node, the task and the descriptors and
  nothing else; no process is left running.\<close>

theorem SchedulerExit_frees:
  assumes "dir_at (Proc s) s (us @ c # vs)" "CurrentProc s = c"
    "Parent (the_node s c) = NULL" "FirstChild (the_node s c) = NULL" "c \<in> live_blocks s"
    and "fd_table s T ds" "\<forall>(d, ix, r) \<in> set ds. closable s r" "T \<noteq> c" "c \<notin> fst ` set ds"
  shows "\<exists>s'. SchedulerExit s = Some (Inr s') \<and> CurrentProc s' = NULL \<and> Proc s' = Proc s \<and>
     dir_at (Proc s) s' (us @ vs) \<and> nodes s' c = None \<and>
     live_blocks s' = live_blocks s - insert c (insert T (fst ` set ds)) \<and>
     (\<forall>(d, ix, r) \<in> set ds. r \<noteq> c \<longrightarrow> \<not> has_flag (Flags (the_node s' r)) VFS_OPENED)"
  using assms by (rule SchedulerExit_ok)

text \<open>One process, its task the block of page 0 and its node that of page 1.\<close>

definition exit_kernel :: kernel where
  "exit_kernel = task_kernel\<lparr>PageBitmap := (\<lambda>i. if i = 0 then 3 else 0),
     mem := store64 (mem task_kernel) 0x201000 144,
     nodes := [0x1000 \<mapsto> root_node\<lparr>FirstChild := 0x201010\<rparr>, 0x201010 \<mapsto> root_node\<lparr>DriverData := 0x200010\<rparr>],
     CurrentProc := 0x201010, Proc := 0x1000\<rparr>"

lemma exit_kernel_pages:
  "MemoryStart exit_kernel = 0x200000" "layout_ok exit_kernel" "page_used exit_kernel i \<longleftrightarrow> i < 2"
proof -
  show "MemoryStart exit_kernel = 0x200000" by (simp add: exit_kernel_def task_kernel_pages)
  then show "layout_ok exit_kernel" by (simp add: layout_ok_def)
  have "(3 :: u8) = mask 2" by (simp add: mask_eq_exp_minus_1)
  then have b: "bit (3 :: u8) k \<longleftrightarrow> k < 2" for k by (simp only: bit_mask_iff) auto
  have "PageBitmap exit_kernel = (\<lambda>i. if i = 0 then 3 else 0)" by (simp add: exit_kernel_def)
  then have "page_used exit_kernel i \<longleftrightarrow> i div 8 = 0 \<and> i mod 8 < 2" 
    by (cases "i div 8 = 0") (simp_all only: page_used_bit b if_True if_False simp_thms, simp)
  then show "page_used exit_kernel i \<longleftrightarrow> i < 2" by presburger
qed

lemma exit_kernel_live: "live_blocks exit_kernel = {0x200010, 0x201010}"
proof -
  have "load64 (mem exit_kernel) 0x200000 = 248" "load64 (mem exit_kernel) 0x201000 = 144"
    by (simp_all add: exit_kernel_def task_kernel_def load64_store64_apart)
  then have "small_block exit_kernel i \<longleftrightarrow> i = 0 \<or> i = 1" for i
    using less_2_cases_iff [of i]
    by (auto simp: small_block_def exit_kernel_pages LOW_PAGES_def PAGE_SIZE_def page_addr_def)
  then have "{i. small_block exit_kernel i} = {0, 1}" by auto
  then show ?thesis by (simp add: live_blocks_def page_addr_def exit_kernel_pages)
qed

theorem SchedulerExit_frees_witness:
  "\<exists>s'. SchedulerExit exit_kernel = Some (Inr s') \<and> live_blocks s' = {} \<and> dir_at 0x1000 s' []"
proof -
  have f: "nodes exit_kernel = [0x1000 \<mapsto> root_node\<lparr>FirstChild := 0x201010\<rparr>, 0x201010 \<mapsto> root_node\<lparr>DriverData := 0x200010\<rparr>]"
    "Proc exit_kernel = 0x1000" "CurrentProc exit_kernel = 0x201010" by (simp_all add: exit_kernel_def)
  have "word_at exit_kernel 0x200010 files_index = - 1" "word_at exit_kernel 0x200010 files_next = NULL"
    by (simp_all add: word_at_def files_index_def files_next_def offsets exit_kernel_def task_kernel_def load64_store64_apart)
  then have "fd_table exit_kernel 0x200010 []"
    by (simp add: fd_table_def exit_kernel_pages exit_kernel_live is_node_def f)
  moreover have "dir_at 0x1000 exit_kernel ([] @ 0x201010 # [])"
    by (simp add: dir_at_def is_node_def f has_flag_def name_ok_def root_node_def zero_node_def)
  ultimately obtain s' where "SchedulerExit exit_kernel = Some (Inr s')" "dir_at 0x1000 s' []"
    "live_blocks s' = live_blocks exit_kernel - {0x201010, 0x200010}"
    using SchedulerExit_frees [of exit_kernel "[]" "0x201010" "[]" "0x200010" "[]"] f
    by (auto simp: exit_kernel_live root_node_def zero_node_def)
  then show ?thesis by (auto simp: exit_kernel_live)
qed

end
