(* ===== verification/Bytes.thy ===== *)
theory Bytes
  imports KString
begin

text \<open>
  Packed structures in byte buffers: little-endian fields read and written at an offset. An
  access that is not inside the buffer is a \<open>Fault\<close>. Byte devices, the drivers' view of a disk,
  are three operations on a state of their own, with the laws a disk keeps.
\<close>

section \<open>Fields of a buffer\<close>

definition get_bytes :: "u8 list \<Rightarrow> nat \<Rightarrow> nat \<Rightarrow> u8 list result" where
  "get_bytes bs off n = (if off + n \<le> length bs then Inr (take n (drop off bs)) else Inl Fault)"

definition get8 :: "u8 list \<Rightarrow> nat \<Rightarrow> u8 result" where
  "get8 bs off = rbind (get_bytes bs off 1) (\<lambda>b. Inr (hd b))"

definition get16 :: "u8 list \<Rightarrow> nat \<Rightarrow> u16 result" where
  "get16 bs off = rbind (get_bytes bs off 2) (\<lambda>b. Inr (le_join b))"

definition get32 :: "u8 list \<Rightarrow> nat \<Rightarrow> u32 result" where
  "get32 bs off = rbind (get_bytes bs off 4) (\<lambda>b. Inr (le_join b))"

definition put_bytes :: "u8 list \<Rightarrow> nat \<Rightarrow> u8 list \<Rightarrow> u8 list result" where
  "put_bytes bs off v =
     (if off + length v \<le> length bs then Inr (take off bs @ v @ drop (off + length v) bs) else Inl Fault)"

definition put32 :: "u8 list \<Rightarrow> nat \<Rightarrow> u32 \<Rightarrow> u8 list result" where
  "put32 bs off v = put_bytes bs off (le_split 4 v)"

lemma get_bytes_in [simp]: "off + n \<le> length bs \<Longrightarrow> get_bytes bs off n = Inr (take n (drop off bs))"
  by (simp add: get_bytes_def)

lemma put_bytes_in [simp]:
  "off + length v \<le> length bs \<Longrightarrow> put_bytes bs off v = Inr (take off bs @ v @ drop (off + length v) bs)"
  by (simp add: put_bytes_def)

lemma put_bytes_length: "put_bytes bs off v = Inr bs' \<Longrightarrow> length bs' = length bs"
  by (auto simp: put_bytes_def split: if_splits)

lemma nth_splice:
  "off + length v \<le> length bs \<Longrightarrow> i < length bs \<Longrightarrow>
     (take off bs @ v @ drop (off + length v) bs) ! i = (if off \<le> i \<and> i < off + length v then v ! (i - off) else bs ! i)"
  by (auto simp: nth_append min_def)

lemma put_bytes_nth:
  "put_bytes bs off v = Inr bs' \<Longrightarrow> i < length bs \<Longrightarrow>
     bs' ! i = (if off \<le> i \<and> i < off + length v then v ! (i - off) else bs ! i)"
  by (auto simp: put_bytes_def nth_splice simp del: take_append drop_append split: if_splits)

lemma take_drop_nth: "off + n \<le> length bs \<Longrightarrow> take n (drop off bs) = map (\<lambda>i. bs ! (off + i)) [0..<n]"
  by (intro nth_equalityI) simp_all

lemma get_put_same:
  "put_bytes bs off v = Inr bs' \<Longrightarrow> n = length v \<Longrightarrow> get_bytes bs' off n = Inr v"
  by (auto simp: put_bytes_def split: if_splits)

lemma get_put_other:
  assumes "put_bytes bs off v = Inr bs'" "off' + n \<le> off \<or> off + length v \<le> off'"
  shows "get_bytes bs' off' n = get_bytes bs off' n"
proof (cases "off' + n \<le> length bs")
  case True
  have len: "length bs' = length bs" using put_bytes_length [OF assms(1)] .
  have "bs' ! (off' + i) = bs ! (off' + i)" if "i < n" for i
    using put_bytes_nth [OF assms(1), of "off' + i"] that True assms(2) by auto
  then have "take n (drop off' bs') = take n (drop off' bs)"
    using True len by (simp add: take_drop_nth)
  with True len show ?thesis by simp
next
  case False
  then show ?thesis using put_bytes_length [OF assms(1)] by (simp add: get_bytes_def)
qed

lemma get32_put32: "put32 bs off v = Inr bs' \<Longrightarrow> get32 bs' off = Inr v"
  using get_put_same [of bs off "le_split 4 v" bs' 4] by (simp add: put32_def get32_def le_join_split)

lemma get32_put32_other:
  "put32 bs off v = Inr bs' \<Longrightarrow> off' + 4 \<le> off \<or> off + 4 \<le> off' \<Longrightarrow> get32 bs' off' = get32 bs off'"
  using get_put_other [of bs off "le_split 4 v" bs' off' 4] by (simp add: put32_def get32_def)

lemma get32_in: "off + 4 \<le> length bs \<Longrightarrow> get32 bs off = Inr (le_join (take 4 (drop off bs)))"
  by (simp add: get32_def)

section \<open>Byte devices\<close>

text \<open>
  What a client of a drive node uses: \<^verbatim>\<open>FileOffset\<close> and \<^verbatim>\<open>ReadFunction\<close>, resp.
  \<^verbatim>\<open>WriteFunction\<close>, together (\<open>dread\<close>, \<open>dwrite\<close>), and the console (\<open>dprint\<close>).
  A read delivers what is in the buffer afterwards. The laws are for transfers below 64 KiB: a
  sector is at most 65535 bytes.
\<close>

record 'd drive =
  dread :: "u64 \<Rightarrow> nat \<Rightarrow> 'd \<Rightarrow> (u8 list \<times> 'd) outcome"
  dwrite :: "u64 \<Rightarrow> u8 list \<Rightarrow> 'd \<Rightarrow> 'd outcome"
  dprint :: "string \<Rightarrow> 'd \<Rightarrow> 'd"

definition replace_range :: "(nat \<Rightarrow> u8) \<Rightarrow> nat \<Rightarrow> u8 list \<Rightarrow> nat \<Rightarrow> u8" where
  "replace_range c off bs = (\<lambda>a. if off \<le> a \<and> a < off + length bs then bs ! (a - off) else c a)"

definition range_of :: "(nat \<Rightarrow> u8) \<Rightarrow> nat \<Rightarrow> nat \<Rightarrow> u8 list" where
  "range_of c off n = map (\<lambda>i. c (off + i)) [0..<n]"

lemma length_range_of [simp]: "length (range_of c off n) = n"
  by (simp add: range_of_def)

lemma range_of_nth [simp]: "i < n \<Longrightarrow> range_of c off n ! i = c (off + i)"
  by (simp add: range_of_def)

lemma range_replace_same [simp]: "n = length bs \<Longrightarrow> range_of (replace_range c off bs) off n = bs"
  by (intro nth_equalityI) (simp_all add: replace_range_def)

lemma range_replace_other:
  "off' + n \<le> off \<or> off + length bs \<le> off' \<Longrightarrow> range_of (replace_range c off bs) off' n = range_of c off' n"
  by (intro nth_equalityI) (auto simp: replace_range_def)

locale byte_device =
  fixes D :: "'d drive"
    and good :: "'d \<Rightarrow> bool"
    and content :: "'d \<Rightarrow> nat \<Rightarrow> u8"
    and capacity :: "'d \<Rightarrow> nat"
  assumes read_ok: "good d \<Longrightarrow> 0 < n \<Longrightarrow> n < 65536 \<Longrightarrow> unat off + n \<le> capacity d \<Longrightarrow>
      \<exists>d'. dread D off n d = Some (Inr (range_of (content d) (unat off) n, d')) \<and>
           good d' \<and> content d' = content d \<and> capacity d' = capacity d"
    and write_ok: "good d \<Longrightarrow> bs \<noteq> [] \<Longrightarrow> length bs < 65536 \<Longrightarrow> unat off + length bs \<le> capacity d \<Longrightarrow>
      \<exists>d'. dwrite D off bs d = Some (Inr d') \<and> good d' \<and>
           content d' = replace_range (content d) (unat off) bs \<and> capacity d' = capacity d"
    and print_ok: "good d \<Longrightarrow> good (dprint D str d) \<and> content (dprint D str d) = content d \<and>
           capacity (dprint D str d) = capacity d"
begin

lemma write_then_read:
  assumes "good d" "bs \<noteq> []" "length bs < 65536" "unat off + length bs \<le> capacity d" "dwrite D off bs d = Some (Inr d')"
  shows "\<exists>d''. dread D off (length bs) d' = Some (Inr (bs, d''))"
proof -
  from write_ok [OF assms(1-4)] assms(5) have d': "good d'" "capacity d' = capacity d"
    "content d' = replace_range (content d) (unat off) bs" by auto
  with read_ok [of d' "length bs" off] assms(2-4) show ?thesis by auto
qed

end

section \<open>Storing in parts\<close>

lemma store_bytes_append:
  assumes "length xs + length ys \<le> 2 ^ 64"
  shows "store_bytes (store_bytes m a xs) (a + of_nat (length xs)) ys = store_bytes m a (xs @ ys)"
proof
  fix x
  let ?u = "unat (x - a)" and ?v = "unat (x - (a + of_nat (length xs)))"
  show "store_bytes (store_bytes m a xs) (a + of_nat (length xs)) ys x = store_bytes m a (xs @ ys) x"
  proof (cases "ys = []")
    case False
    then have len: "length xs < 2 ^ 64" using assms by (cases ys) auto
    then have l: "unat (of_nat (length xs) :: addr) = length xs" by (rule unat_of_nat_addr)
    have e: "x - (a + of_nat (length xs)) = (x - a) - of_nat (length xs)" by simp
    show ?thesis
    proof (cases "length xs \<le> ?u")
      case True
      then have "?v = ?u - length xs" unfolding e using l by (subst unat_sub) (simp_all add: word_le_nat_alt)
      then show ?thesis using True by (auto simp: store_bytes_def nth_append)
    next
      case False
      have "?v = ?u + 2 ^ 64 - length xs"
        unfolding e using False l len unat_sub_if_size [of "x - a" "of_nat (length xs)"]
        by (simp add: word_le_nat_alt word_size)
      then have "length ys \<le> ?v" using assms by linarith
      then show ?thesis using False by (simp add: store_bytes_def nth_append)
    qed
  qed (simp add: store_bytes_def)
qed

end
