(* ===== verification/Ports.thy ===== *)
theory Ports
  imports Bytes
begin

text \<open>
  The port instructions of \<^verbatim>\<open>src/amd64/io.h\<close>. What answers at a port is hardware: its
  state and its reactions are a parameter \<open>bus\<close> of every driver. \<^verbatim>\<open>Delay\<close> of the
  architecture is in it too, as time passing is visible only through the hardware.
\<close>

record 'h bus =
  inb :: "u16 \<Rightarrow> 'h \<Rightarrow> u8 \<times> 'h"
  outb :: "u16 \<Rightarrow> u8 \<Rightarrow> 'h \<Rightarrow> 'h"
  inw :: "u16 \<Rightarrow> 'h \<Rightarrow> u16 \<times> 'h"
  outw :: "u16 \<Rightarrow> u16 \<Rightarrow> 'h \<Rightarrow> 'h"
  inl :: "u16 \<Rightarrow> 'h \<Rightarrow> u32 \<times> 'h"
  outl :: "u16 \<Rightarrow> u32 \<Rightarrow> 'h \<Rightarrow> 'h"
  delay :: "nat \<Rightarrow> 'h \<Rightarrow> 'h"

text \<open>The string instructions: \<^verbatim>\<open>rep insw\<close>, \<^verbatim>\<open>rep insl\<close> and
  \<^verbatim>\<open>rep outsw\<close>, with the direction flag clear.\<close>

fun insw :: "'h bus \<Rightarrow> u16 \<Rightarrow> addr \<Rightarrow> nat \<Rightarrow> memory \<Rightarrow> 'h \<Rightarrow> memory \<times> 'h" where
  "insw B port a 0 m h = (m, h)"
| "insw B port a (Suc n) m h =
     (let (w, h1) = inw B port h in insw B port (a + 2) n (store_bytes m a (le_split 2 w)) h1)"

fun insl :: "'h bus \<Rightarrow> u16 \<Rightarrow> nat \<Rightarrow> 'h \<Rightarrow> u8 list \<times> 'h" where
  "insl B port 0 h = ([], h)"
| "insl B port (Suc n) h =
     (let (w, h1) = inl B port h; (bs, h2) = insl B port n h1 in (le_split 4 w @ bs, h2))"

fun outsw :: "'h bus \<Rightarrow> u16 \<Rightarrow> addr \<Rightarrow> nat \<Rightarrow> memory \<Rightarrow> 'h \<Rightarrow> 'h" where
  "outsw B port a 0 m h = h"
| "outsw B port a (Suc n) m h = outsw B port (a + 2) n m (outw B port (le_join (load_bytes m a 2)) h)"

text \<open>The words that \<^verbatim>\<open>rep outsw\<close> sends, and the bytes \<^verbatim>\<open>rep insw\<close> stores.\<close>

definition words_at :: "memory \<Rightarrow> addr \<Rightarrow> nat \<Rightarrow> u16 list" where
  "words_at m a n = map (\<lambda>i. le_join (load_bytes m (a + 2 * of_nat i) 2)) [0..<n]"

lemma length_words_at [simp]: "length (words_at m a n) = n"
  by (simp add: words_at_def)

lemma words_at_Suc: "words_at m a (Suc n) = le_join (load_bytes m a 2) # words_at m (a + 2) n"
  by (rule nth_equalityI)
    (auto simp: words_at_def nth_Cons algebra_simps simp del: upt_Suc split: nat.splits)

lemma length_insl [simp]: "length (fst (insl B port n h)) = 4 * n"
  by (induction n arbitrary: h) (auto split: prod.splits, metis fst_conv)

end
