(* ===== verification/Ps2.thy ===== *)
theory Ps2
  imports Devices Ports
begin

text \<open>
  The PS/2 module, \<^verbatim>\<open>src/modules/ps2\<close>: the controller's handshakes, the decoding of
  scan codes and mouse packets, detection and initialisation of both devices, and the read
  functions of their nodes. The controller is the bus parameter. \<^verbatim>\<open>ArchCli\<close> and
  \<^verbatim>\<open>ArchSti\<close> clear and set \<open>interrupts\<close>. A wait that never ends is \<open>None\<close>.
\<close>

section \<open>State\<close>

text \<open>What \<^verbatim>\<open>Init\<close> registers below \<^verbatim>\<open>/dev\<close>: the node's name, its read
  function, and the terminal flags of the keyboard.\<close>

datatype ps2_node = ps2_keyboard_node string TTYFlags | ps2_mouse_node string

record 'h ps2 =
  hw :: 'h
  packet_data :: "u8 list"
  packet_index :: u8
  packet_size :: u8
  shifted :: u32
  ctrl :: u32
  interrupts :: bool
  console :: string
  created :: "ps2_node list"

record ps2_mouse_packet =
  flags :: u8
  x_movement :: u16
  y_movement :: u16
  z_movement :: u8
  buttons :: u8

definition keyboard_map :: "u8 list" where
  "keyboard_map =
     [0x0, 27, 49, 50, 51, 52, 53, 54, 55, 56, 57, 48, 45, 61, 8, 9,
      113, 119, 101, 114, 116, 121, 117, 105, 111, 112, 91, 93, 10, 0x80, 97, 115,
      100, 102, 103, 104, 106, 107, 108, 59, 39, 96, 0x0, 92, 122, 120, 99, 118,
      98, 110, 109, 44, 46, 47, 0x81, 42, 0x81, 32, 0x80, 0x82, 0x83, 0x84, 0x85, 0x86,
      0x87, 0x88, 0x89, 0x8a, 0x8b, 0x8c, 0x8d, 0x8e, 0x8f, 0x90, 45, 0x91, 53, 0x92, 43, 0x93,
      0x94, 0x95, 0x96, 0x97, 10, 0x81, 92, 0x98, 0x99] @ replicate 167 0"

definition keyboard_map_shifted :: "u8 list" where
  "keyboard_map_shifted =
     [0x0, 27, 33, 34, 35, 36, 37, 94, 38, 42, 40, 41, 95, 43, 8, 9,
      81, 87, 69, 82, 84, 89, 85, 73, 79, 80, 123, 125, 10, 0x80, 65, 83,
      68, 70, 71, 72, 74, 75, 76, 58, 64, 96, 0x0, 124, 90, 88, 67, 86,
      66, 78, 77, 60, 62, 63, 0x81, 42, 0x81, 32, 0x80, 0x82, 0x83, 0x84, 0x85, 0x86,
      0x87, 0x88, 0x89, 0x8a, 0x8b, 0x8c, 47, 55, 0x8f, 0x90, 45, 0x91, 53, 0x92, 43, 0x93,
      0x94, 0x95, 0x96, 0x97, 10, 0x81, 92, 0x98, 0x99] @ replicate 167 0"

section \<open>The controller\<close>

definition ArchCli :: "'h ps2 \<Rightarrow> 'h ps2" where "ArchCli s = s\<lparr>interrupts := False\<rparr>"
definition ArchSti :: "'h ps2 \<Rightarrow> 'h ps2" where "ArchSti s = s\<lparr>interrupts := True\<rparr>"

definition port_in :: "'h bus \<Rightarrow> u16 \<Rightarrow> 'h ps2 \<Rightarrow> u8 \<times> 'h ps2" where
  "port_in B port s = (let (v, h) = inb B port (hw s) in (v, s\<lparr>hw := h\<rparr>))"

definition port_out :: "'h bus \<Rightarrow> u16 \<Rightarrow> u8 \<Rightarrow> 'h ps2 \<Rightarrow> 'h ps2" where
  "port_out B port v s = s\<lparr>hw := outb B port v (hw s)\<rparr>"

definition spin :: "'h bus \<Rightarrow> nat \<Rightarrow> 'h ps2 \<Rightarrow> 'h ps2" where
  "spin B n s = s\<lparr>hw := delay B n (hw s)\<rparr>"

definition ps2_read_status :: "'h bus \<Rightarrow> 'h ps2 \<Rightarrow> u8 \<times> 'h ps2" where
  "ps2_read_status B s = port_in B 0x64 s"

definition PS2_STATUS_OUTPUT_FULL :: u8 where "PS2_STATUS_OUTPUT_FULL = 1"
definition PS2_STATUS_INPUT_FULL :: u8 where "PS2_STATUS_INPUT_FULL = 2"

text \<open>The waiting loops: until the bit of the status is as wanted.\<close>

partial_function (option) await :: "'h bus \<Rightarrow> u8 \<Rightarrow> bool \<Rightarrow> 'h ps2 \<Rightarrow> 'h ps2 option" where
  "await B bits want s =
     (let r = ps2_read_status B s
      in if (fst r AND bits \<noteq> 0) = want then Some (snd r) else await B bits want (snd r))"

definition ps2_read_data :: "'h bus \<Rightarrow> 'h ps2 \<Rightarrow> (u8 \<times> 'h ps2) option" where
  "ps2_read_data B s = Option.bind (await B PS2_STATUS_OUTPUT_FULL True s) (\<lambda>s1. Some (port_in B 0x60 s1))"

definition ps2_write_data :: "'h bus \<Rightarrow> u8 \<Rightarrow> 'h ps2 \<Rightarrow> 'h ps2 option" where
  "ps2_write_data B data s = Option.bind (await B PS2_STATUS_INPUT_FULL False s) (\<lambda>s1. Some (port_out B 0x60 data s1))"

definition ps2_write_command :: "'h bus \<Rightarrow> u8 \<Rightarrow> 'h ps2 \<Rightarrow> 'h ps2 option" where
  "ps2_write_command B command s =
     Option.bind (await B PS2_STATUS_INPUT_FULL False s) (\<lambda>s1. Some (port_out B 0x64 command s1))"

fun wait_output_loop :: "'h bus \<Rightarrow> nat \<Rightarrow> 'h ps2 \<Rightarrow> bool \<times> 'h ps2" where
  "wait_output_loop B 0 s = (False, s)"
| "wait_output_loop B (Suc n) s =
     (let (v, s1) = ps2_read_status B s
      in if v AND PS2_STATUS_OUTPUT_FULL \<noteq> 0 then (True, s1) else wait_output_loop B n s1)"

definition ps2_wait_output :: "'h bus \<Rightarrow> 'h ps2 \<Rightarrow> bool \<times> 'h ps2" where
  "ps2_wait_output B s = wait_output_loop B 10000 s"

definition ps2_wait_input :: "'h bus \<Rightarrow> 'h ps2 \<Rightarrow> (bool \<times> 'h ps2) option" where
  "ps2_wait_input B s = Option.bind (await B PS2_STATUS_INPUT_FULL False s) (\<lambda>s1. Some (True, s1))"

text \<open>A wait for output that gives up with \<open>False\<close>, then a byte.\<close>

definition if_output :: "'h bus \<Rightarrow> 'h ps2 \<Rightarrow> (u8 \<Rightarrow> 'h ps2 \<Rightarrow> (bool \<times> 'h ps2) option) \<Rightarrow> (bool \<times> 'h ps2) option" where
  "if_output B s f =
     (let (ready, s1) = ps2_wait_output B s
      in if \<not> ready then Some (False, s1) else Option.bind (ps2_read_data B s1) (\<lambda>(v, s2). f v s2))"

definition ps2_send_device_command :: "'h bus \<Rightarrow> u8 \<Rightarrow> u8 \<Rightarrow> 'h ps2 \<Rightarrow> (bool \<times> 'h ps2) option" where
  "ps2_send_device_command B port command s =
     Option.bind (if port = 2 then ps2_write_command B 0xD4 s else Some s) (\<lambda>s1.
     Option.bind (ps2_write_data B command s1) (\<lambda>s2.
       if_output B s2 (\<lambda>response s3. Some (response = 0xFA, s3))))"

section \<open>The mouse\<close>

definition ps2_mouse_present :: "'h bus \<Rightarrow> 'h ps2 \<Rightarrow> (bool \<times> 'h ps2) option" where
  "ps2_mouse_present B s =
     Option.bind (ps2_write_command B 0xA8 s) (\<lambda>s1.
     Option.bind (ps2_write_command B 0x20 (spin B 10000 s1)) (\<lambda>s2.
     let (ready, s3) = ps2_wait_output B s2
     in if \<not> ready then Some (False, s3)
        else
          Option.bind (ps2_write_command B 0x20 s3) (\<lambda>s4.
          Option.bind (ps2_read_data B s4) (\<lambda>(config0, s5).
          let config = config0 OR 0x20
          in Option.bind (ps2_write_command B 0x60 s5) (\<lambda>s6.
             Option.bind (ps2_write_data B config s6) (\<lambda>s7.
               if config AND 0x20 = 0 then Some (False, s7)
               else
                 Option.bind (ps2_write_command B 0xA9 s7) (\<lambda>s8.
                 if_output B s8 (\<lambda>test_result s9.
                   if test_result \<noteq> 0 then Some (False, s9)
                   else
                     Option.bind (ps2_send_device_command B 2 0xF2 s9) (\<lambda>(acked, s10).
                       if \<not> acked then Some (False, s10)
                       else if_output B s10 (\<lambda>id1 s11.
                         let (more, s12) = ps2_wait_output B s11
                         in Option.bind (if more then Option.bind (ps2_read_data B s12) (\<lambda>(id2, s13). Some s13) else Some s12)
                              (\<lambda>s14. Some (id1 \<in> {0x00, 0x03, 0x04}, s14))))))))))))"

definition ps2_initialize_mouse :: "'h bus \<Rightarrow> 'h ps2 \<Rightarrow> 'h ps2 option" where
  "ps2_initialize_mouse B s =
     Option.bind (ps2_write_command B 0xA8 s) (\<lambda>s1.
     Option.bind (ps2_send_device_command B 2 0xFF (spin B 10000 s1)) (\<lambda>(_, s2).
     Option.bind (ps2_send_device_command B 2 0xF4 (spin B 100000 s2)) (\<lambda>(_, s3).
     Option.bind (ps2_send_device_command B 2 0xF3 (spin B 10000 s3)) (\<lambda>(_, s4).
     Option.bind (ps2_send_device_command B 2 100 s4) (\<lambda>(_, s5). Some s5)))))"

text \<open>The packet that the bytes of \<^verbatim>\<open>packet_data\<close> make.\<close>

definition decode_packet :: "u8 list \<Rightarrow> ps2_mouse_packet" where
  "decode_packet d =
     (let f = d ! 0;
          x = (if bit f 6 then 0 else ucast (d ! 1)) :: u16;
          y = (if bit f 7 then 0 else ucast (d ! 2)) :: u16
      in \<lparr>flags = f, x_movement = (if bit f 4 then x OR 0xFF00 else x),
          y_movement = (if bit f 5 then y OR 0xFF00 else y), z_movement = 0,
          buttons = (if bit f 0 then 1 else 0) OR (if bit f 1 then 2 else 0) OR (if bit f 2 then 4 else 0)\<rparr>)"

definition ps2_read_mouse_packet :: "'h bus \<Rightarrow> 'h ps2 \<Rightarrow> (ps2_mouse_packet option \<times> 'h ps2) outcome" where
  "ps2_read_mouse_packet B s =
     (let s0 = ArchCli s; (v, s1) = ps2_read_status B s0
      in if v AND PS2_STATUS_OUTPUT_FULL = 0 then Some (Inr (None, s1))
         else
           let (status, s2) = ps2_read_status B s1
           in if \<not> bit status 5 then Some (Inr (None, s2))
              else
                Option.bind (ps2_read_data B s2) (\<lambda>(data, s3).
                  if packet_index s3 = 0 \<and> \<not> bit data 3 then Some (Inr (None, s3\<lparr>packet_index := 0\<rparr>))
                  else if length (packet_data s3) \<le> unat (packet_index s3) then Some (Inl Fault)
                  else
                    let s4 = s3\<lparr>packet_data := (packet_data s3)[unat (packet_index s3) := data],
                                packet_index := packet_index s3 + 1\<rparr>
                    in if packet_size s4 \<le> packet_index s4
                       then Some (Inr (Some (decode_packet (packet_data s4)), s4\<lparr>packet_index := 0\<rparr>))
                       else Some (Inr (None, ArchSti s4))))"

text \<open>\<^verbatim>\<open>int8_t\<close> of a 16-bit value; the coordinates are integers.\<close>

definition ps2_mouse_fetch :: "'h bus \<Rightarrow> int \<Rightarrow> int \<Rightarrow> u8 \<Rightarrow> 'h ps2 \<Rightarrow> ((int \<times> int \<times> u8) \<times> 'h ps2) outcome" where
  "ps2_mouse_fetch B mx my btn s =
     obind (ps2_read_mouse_packet B s) (\<lambda>(p, s1).
       case p of None \<Rightarrow> Some (Inr ((mx, my, btn), s1))
       | Some packet \<Rightarrow>
           let delta_x = sint (ucast (x_movement packet) :: u8); delta_y = sint (ucast (y_movement packet) :: u8)
           in Some (Inr ((mx + delta_x, my - delta_y, buttons packet), s1)))"

definition packet_bytes :: "ps2_mouse_packet \<Rightarrow> u8 list" where
  "packet_bytes p = [flags p, 0] @ le_split 2 (x_movement p) @ le_split 2 (y_movement p) @ [z_movement p, buttons p]"

definition ps2_mouse_read ::
  "'h bus \<Rightarrow> addr \<Rightarrow> u64 \<Rightarrow> u64 \<Rightarrow> addr \<Rightarrow> memory \<Rightarrow> 'h ps2 \<Rightarrow> ((u32 \<times> memory) \<times> 'h ps2) outcome" where
  "ps2_mouse_read B Buf Sz Elements Node m s =
     obind (Some (PanicIfNull Buf)) (\<lambda>_. obind (Some (PanicIfNull Node)) (\<lambda>_.
     obind (ps2_read_mouse_packet B s) (\<lambda>(p, s1).
       case p of None \<Rightarrow> Some (Inr ((0, m), s1))
       | Some packet \<Rightarrow>
           let n = min (unat (Sz * Elements)) 8
           in if Sz = 0 then Some (Inl Fault)
              else Some (Inr ((of_nat (n div unat Sz), store_bytes m Buf (take n (packet_bytes packet))), s1)))))"

section \<open>The keyboard\<close>

definition map_key :: "u32 \<Rightarrow> u32 \<Rightarrow> u8 \<Rightarrow> u8" where
  "map_key shift_key ctrl_key scancode =
     (let key = (if shift_key \<noteq> 0 then keyboard_map_shifted else keyboard_map) ! unat scancode
      in if ctrl_key \<noteq> 0 then
           if 97 \<le> key \<and> key \<le> 122 then key - 97 + 1
           else if 65 \<le> key \<and> key \<le> 90 then key - 65 + 1
           else key
         else key)"

definition ps2_keyboard_fetch :: "'h bus \<Rightarrow> 'h ps2 \<Rightarrow> (u8 \<times> bool) \<times> 'h ps2" where
  "ps2_keyboard_fetch B s =
     (let (v, s1) = port_in B 0x64 (ArchCli s)
      in if v AND 0x01 = 0 then ((0, False), ArchSti s1)
         else
           let (status, s2) = port_in B 0x64 s1
           in if bit status 5 then let (_, s3) = port_in B 0x60 s2 in ((0, False), ArchSti s3)
              else
                let (scancode, s3) = port_in B 0x60 s2; s4 = ArchSti s3
                in if scancode = 0x2a \<or> scancode = 0x36 then ((0, False), s4\<lparr>shifted := 1\<rparr>)
                   else if scancode = 0xaa \<or> scancode = 0xb6 then ((0, False), s4\<lparr>shifted := 0\<rparr>)
                   else if scancode = 0x1d then ((0, False), s4\<lparr>ctrl := 1\<rparr>)
                   else if scancode = 0x9d then ((0, False), s4\<lparr>ctrl := 0\<rparr>)
                   else if scancode AND 0x80 \<noteq> 0 then ((0, False), s4)
                   else if 128 \<le> scancode then ((0, False), s4)
                   else ((map_key (shifted s4) (ctrl s4) scancode, True), s4))"

partial_function (option) ps2_getchar :: "'h bus \<Rightarrow> 'h ps2 \<Rightarrow> (u8 \<times> 'h ps2) option" where
  "ps2_getchar B s =
     (let r = ps2_keyboard_fetch B s
      in if snd (fst r) then Some (fst (fst r), snd r) else ps2_getchar B (snd r))"

partial_function (option) drain_output :: "'h bus \<Rightarrow> 'h ps2 \<Rightarrow> 'h ps2 option" where
  "drain_output B s =
     (let r = ps2_wait_output B s
      in if fst r then Option.bind (ps2_read_data B (snd r)) (\<lambda>d. drain_output B (snd d)) else Some (snd r))"

definition hex_digit :: "nat \<Rightarrow> char" where
  "hex_digit n = ''0123456789abcdef'' ! n"

definition hex_byte :: "u8 \<Rightarrow> string" where
  "hex_byte v = (if v < 16 then [hex_digit (unat v)] else [hex_digit (unat v div 16), hex_digit (unat v mod 16)])"

definition ps2_initialize_keyboard :: "'h bus \<Rightarrow> 'h ps2 \<Rightarrow> 'h ps2 option" where
  "ps2_initialize_keyboard B s =
     Option.bind (ps2_write_command B 0xAE s) (\<lambda>s1.
     Option.bind (ps2_write_data B 0xFF (spin B 10000 s1)) (\<lambda>s2.
     let (ready, s3) = ps2_wait_output B (spin B 100000 s2)
     in if \<not> ready then Some s3
        else
          Option.bind (ps2_read_data B s3) (\<lambda>(reset_response, s4).
            if reset_response \<noteq> 0xAA \<and> reset_response \<noteq> 0xFA
            then Some (s4\<lparr>console := console s4 @ '' [Error] Keyboard reset failed: 0x'' @ hex_byte reset_response @ [CHR 0x0A]\<rparr>)
            else
              Option.bind (drain_output B s4) (\<lambda>s5.
              Option.bind (ps2_write_data B 0xF0 s5) (\<lambda>s6.
              Option.bind (ps2_write_data B 0x02 s6) (\<lambda>s7.
              Option.bind (ps2_write_data B 0xF4 (spin B 10000 s7)) (\<lambda>s8.
              Option.bind (ps2_write_data B 0xF3 (spin B 10000 s8)) (\<lambda>s9.
              Option.bind (ps2_write_data B 0x20 s9) (\<lambda>s10. Some (spin B 10000 s10))))))))))"

partial_function (option) flush_output :: "'h bus \<Rightarrow> 'h ps2 \<Rightarrow> 'h ps2 option" where
  "flush_output B s =
     (let r = ps2_read_status B s
      in if fst r AND PS2_STATUS_OUTPUT_FULL \<noteq> 0
         then Option.bind (ps2_read_data B (snd r)) (\<lambda>d. flush_output B (snd d)) else Some (snd r))"

definition ps2_keyboard_present :: "'h bus \<Rightarrow> 'h ps2 \<Rightarrow> (bool \<times> 'h ps2) option" where
  "ps2_keyboard_present B s =
     Option.bind (flush_output B s) (\<lambda>s1.
     Option.bind (ps2_write_data B 0xEE s1) (\<lambda>s2.
       if_output B s2 (\<lambda>response s3.
         if response \<noteq> 0xEE then Some (False, s3)
         else
           Option.bind (ps2_write_data B 0xFF s3) (\<lambda>s4.
             if_output B s4 (\<lambda>ack s5.
               if ack \<noteq> 0xFA then Some (False, s5)
               else if_output B s5 (\<lambda>reset_code s6. Some (reset_code = 0xAA, s6)))))))"

text \<open>
  The read function of the keyboard's node. \<open>echo\<close> is \<^verbatim>\<open>Node->WriteFunction\<close> on one
  character. The index is unsigned: a backspace at index 1 makes it wrap, and the store that
  follows is outside the buffer.
\<close>

partial_function (option) keyboard_read_loop ::
  "'h bus \<Rightarrow> (u8 \<Rightarrow> 'h ps2 \<Rightarrow> 'h ps2 result) \<Rightarrow> TTYFlags \<Rightarrow> addr \<Rightarrow> u64 \<Rightarrow> u64 \<Rightarrow> memory \<Rightarrow> 'h ps2 \<Rightarrow>
     ((u64 \<times> memory) \<times> 'h ps2) outcome" where
  "keyboard_read_loop B echo fl Buf Bytes i m s =
     (if i < Bytes then
        Option.bind (ps2_getchar B s) (\<lambda>r.
          let chr = (if fst r = 13 \<and> fl AND TTY_CRNL \<noteq> 0 then 10 else fst r)
          in obind (Some (if fl AND TTY_ECHO \<noteq> 0 then echo chr (snd r) else Inr (snd r))) (\<lambda>s2.
             if fl AND TTY_RAW = 0 \<and> chr = 8 \<and> 0 < i then
               if i = 1 then Some (Inl Fault)
               else keyboard_read_loop B echo fl Buf Bytes (i - 2 + 1) (m(Buf + (i - 2) := 0)) s2
             else if chr = 10 \<and> fl AND TTY_COOKED \<noteq> 0 then Some (Inr ((i, m(Buf + i := chr)), s2))
             else keyboard_read_loop B echo fl Buf Bytes (i + 1) (m(Buf + i := chr)) s2))
      else Some (Inr ((i, m), s)))"

definition ps2_keyboard_read ::
  "'h bus \<Rightarrow> (u8 \<Rightarrow> 'h ps2 \<Rightarrow> 'h ps2 result) \<Rightarrow> TTYFlags \<Rightarrow> addr \<Rightarrow> u64 \<Rightarrow> u64 \<Rightarrow> addr \<Rightarrow> memory \<Rightarrow> 'h ps2 \<Rightarrow>
     ((u32 \<times> memory) \<times> 'h ps2) outcome" where
  "ps2_keyboard_read B echo fl Buf Sz Elements Node m s =
     obind (Some (PanicIfNull Buf)) (\<lambda>_. obind (Some (PanicIfNull Node)) (\<lambda>_.
     obind (keyboard_read_loop B echo fl Buf (Sz * Elements) 0 m s) (\<lambda>((i, m1), s1).
       if Sz = 0 then Some (Inl Fault) else Some (Inr ((ucast (i div Sz), m1), s1)))))"

section \<open>Loading the module\<close>

definition Init :: "'h bus \<Rightarrow> 'h ps2 \<Rightarrow> 'h ps2 option" where
  "Init B s =
     Option.bind (ps2_keyboard_present B (ArchCli s)) (\<lambda>(kbd, s1).
     Option.bind (if kbd then
          Option.bind (ps2_initialize_keyboard B s1) (\<lambda>s2.
            Some (s2\<lparr>created := created s2 @ [ps2_keyboard_node ''ps2_kbd'' (TTY_COOKED OR TTY_ECHO OR TTY_NLCR OR TTY_CRNL)]\<rparr>))
        else Some s1) (\<lambda>s3.
     Option.bind (ps2_mouse_present B s3) (\<lambda>(mouse, s4).
     Option.bind (if mouse then
          Option.bind (ps2_initialize_mouse B s4) (\<lambda>s5.
            Some (s5\<lparr>created := created s5 @ [ps2_mouse_node ''ps2_mouse'']\<rparr>))
        else Some s4) (\<lambda>s6. Some (ArchSti s6)))))"

section \<open>The keyboard as a decoder of scan codes\<close>

text \<open>A controller with bytes of the keyboard, resp. of the mouse, pending.\<close>

definition pending_bus :: "'h bus \<Rightarrow> ('h \<Rightarrow> u8 list) \<Rightarrow> bool \<Rightarrow> bool" where
  "pending_bus B pend mouse \<longleftrightarrow>
     (\<forall>h. pend h \<noteq> [] \<longrightarrow>
        (\<exists>v h'. inb B 0x64 h = (v, h') \<and> bit v 0 \<and> bit v 5 = mouse \<and> pend h' = pend h) \<and>
        (\<exists>h'. inb B 0x60 h = (hd (pend h), h') \<and> pend h' = tl (pend h)))"

fun next_key :: "u32 \<Rightarrow> u32 \<Rightarrow> u8 list \<Rightarrow> (u8 \<times> u32 \<times> u32 \<times> u8 list) option" where
  "next_key sh ct [] = None"
| "next_key sh ct (c # cs) =
     (if c = 0x2a \<or> c = 0x36 then next_key 1 ct cs
      else if c = 0xaa \<or> c = 0xb6 then next_key 0 ct cs
      else if c = 0x1d then next_key sh 1 cs
      else if c = 0x9d then next_key sh 0 cs
      else if bit c 7 then next_key sh ct cs
      else Some (map_key sh ct c, sh, ct, cs))"

lemma status_bits:
  "(v AND PS2_STATUS_OUTPUT_FULL = 0) = (\<not> bit v 0)" "(v AND 1 = 0) = (\<not> bit v 0)"
  "(v AND 0x80 = 0) = (\<not> bit v 7)" "(128 \<le> v) = bit v 7" for v :: u8
proof -
  show o: "(v AND 1 = 0) = (\<not> bit v 0)" by (simp add: and_one_eq bit_0 even_iff_mod_2_eq_zero)
  then show "(v AND PS2_STATUS_OUTPUT_FULL = 0) = (\<not> bit v 0)" by (simp only: PS2_STATUS_OUTPUT_FULL_def)
  have p: "(0x80 :: u8) = 2 ^ 7" by simp
  show "(v AND 0x80 = 0) = (\<not> bit v 7)" by (simp only: p and_exp_eq_0_iff_not_bit)
  have "bit v 7 = bit (unat v) 7" by (simp add: bit_unsigned_iff)
  also have "\<dots> = odd (unat v div 128)" by (simp add: bit_iff_odd)
  also have "\<dots> = (128 \<le> unat v)"
  proof -
    have "unat v < 256" using unsigned_less [of v] by simp
    then have "unat v div 128 = (if 128 \<le> unat v then 1 else 0)" by auto
    then show ?thesis by simp
  qed
  finally show "(128 \<le> v) = bit v 7" by (simp add: word_le_nat_alt)
qed

lemma pending_status:
  assumes "pending_bus B pend mouse" "pend h \<noteq> []"
  obtains v h' where "inb B 0x64 h = (v, h')" "bit v 0" "bit v 5 = mouse" "pend h' = pend h"
  using assms unfolding pending_bus_def by blast

lemma pending_data:
  assumes "pending_bus B pend mouse" "pend h = c # cs"
  obtains h' where "inb B 0x60 h = (c, h')" "pend h' = cs"
  using assms unfolding pending_bus_def by (metis list.distinct(1) list.sel(1,3))

lemma ps2_keyboard_fetch_pending:
  assumes "pending_bus B pend False" "pend (hw s) = c # cs"
  shows "\<exists>s'. pend (hw s') = cs \<and> interrupts s' \<and>
     (if c = 0x2a \<or> c = 0x36 then ps2_keyboard_fetch B s = ((0, False), s') \<and> shifted s' = 1 \<and> ctrl s' = ctrl s
      else if c = 0xaa \<or> c = 0xb6 then ps2_keyboard_fetch B s = ((0, False), s') \<and> shifted s' = 0 \<and> ctrl s' = ctrl s
      else if c = 0x1d then ps2_keyboard_fetch B s = ((0, False), s') \<and> shifted s' = shifted s \<and> ctrl s' = 1
      else if c = 0x9d then ps2_keyboard_fetch B s = ((0, False), s') \<and> shifted s' = shifted s \<and> ctrl s' = 0
      else if bit c 7 then ps2_keyboard_fetch B s = ((0, False), s') \<and> shifted s' = shifted s \<and> ctrl s' = ctrl s
      else ps2_keyboard_fetch B s = ((map_key (shifted s) (ctrl s) c, True), s') \<and> shifted s' = shifted s \<and> ctrl s' = ctrl s)"
proof -
  obtain v h1 where 1: "inb B 0x64 (hw s) = (v, h1)" "bit v 0" "\<not> bit v 5" "pend h1 = c # cs"
    using pending_status [OF assms(1), of "hw s"] assms(2) by auto
  obtain w h2 where 2: "inb B 0x64 h1 = (w, h2)" "bit w 0" "\<not> bit w 5" "pend h2 = c # cs"
    using pending_status [OF assms(1), of h1] 1(4) by auto
  obtain h3 where 3: "inb B 0x60 h2 = (c, h3)" "pend h3 = cs"
    using pending_data [OF assms(1) 2(4)] by auto
  show ?thesis
    using 1 2 3 by (intro exI [of _ "snd (ps2_keyboard_fetch B s)"])
      (simp add: ps2_keyboard_fetch_def port_in_def ArchCli_def ArchSti_def status_bits)
qed

lemma ps2_getchar_next:
  assumes "pending_bus B pend False" "next_key (shifted s) (ctrl s) (pend (hw s)) = Some (k, sh, ct, rest)"
  shows "\<exists>s'. ps2_getchar B s = Some (k, s') \<and> shifted s' = sh \<and> ctrl s' = ct \<and> pend (hw s') = rest \<and> interrupts s'"
  using assms(2)
proof (induction "pend (hw s)" arbitrary: s)
  case (Cons c cs)
  from ps2_keyboard_fetch_pending [OF assms(1) Cons.hyps(2) [symmetric]] obtain s' where s': "pend (hw s') = cs" "interrupts s'"
    "if c = 0x2a \<or> c = 0x36 then ps2_keyboard_fetch B s = ((0, False), s') \<and> shifted s' = 1 \<and> ctrl s' = ctrl s
      else if c = 0xaa \<or> c = 0xb6 then ps2_keyboard_fetch B s = ((0, False), s') \<and> shifted s' = 0 \<and> ctrl s' = ctrl s
      else if c = 0x1d then ps2_keyboard_fetch B s = ((0, False), s') \<and> shifted s' = shifted s \<and> ctrl s' = 1
      else if c = 0x9d then ps2_keyboard_fetch B s = ((0, False), s') \<and> shifted s' = shifted s \<and> ctrl s' = 0
      else if bit c 7 then ps2_keyboard_fetch B s = ((0, False), s') \<and> shifted s' = shifted s \<and> ctrl s' = ctrl s
      else ps2_keyboard_fetch B s = ((map_key (shifted s) (ctrl s) c, True), s') \<and> shifted s' = shifted s \<and> ctrl s' = ctrl s"
    by blast
  have p: "pend (hw s) = c # cs" using Cons.hyps(2) by simp
  show ?case
  proof (cases "snd (fst (ps2_keyboard_fetch B s))")
    case True
    then have "ps2_keyboard_fetch B s = ((map_key (shifted s) (ctrl s) c, True), s')" "shifted s' = shifted s" "ctrl s' = ctrl s"
      "next_key (shifted s) (ctrl s) (pend (hw s)) = Some (map_key (shifted s) (ctrl s) c, shifted s, ctrl s, cs)"
      using s'(3) p by (auto split: if_splits)
    then show ?thesis using Cons.prems s'(1,2) by (subst ps2_getchar.simps) simp
  next
    case False
    then have f: "ps2_keyboard_fetch B s = ((0, False), s')"
      "next_key (shifted s) (ctrl s) (pend (hw s)) = next_key (shifted s') (ctrl s') (pend (hw s'))"
      using s'(1,3) p by (auto split: if_splits)
    then have "ps2_getchar B s = ps2_getchar B s'" by (subst ps2_getchar.simps) simp
    moreover have "cs = pend (hw s')" using s'(1) by simp
    ultimately show ?thesis using Cons.hyps(1) [of s'] f(2) Cons.prems by simp
  qed
qed simp

text \<open>A controller that is the list of its pending bytes.\<close>

definition queue_bus :: "bool \<Rightarrow> u8 list bus" where
  "queue_bus mouse = \<lparr>inb = \<lambda>p h. if p = 0x64 then (if h = [] then 0 else if mouse then 0x21 else 1, h)
       else (case h of [] \<Rightarrow> (0, []) | c # cs \<Rightarrow> (c, cs)),
     outb = \<lambda>p v h. h, inw = \<lambda>p h. (0, h), outw = \<lambda>p v h. h, inl = \<lambda>p h. (0, h), outl = \<lambda>p v h. h, delay = \<lambda>n h. h\<rparr>"

lemma queue_bus_pending: "pending_bus (queue_bus mouse) (\<lambda>h. h) mouse"
proof -
  have "bit (0x21 :: u8) 0" "bit (0x21 :: u8) 5" by (simp_all add: bit_iff_odd)
  then show ?thesis by (auto simp: pending_bus_def queue_bus_def split: list.split)
qed

definition example_ps2 :: "u8 list \<Rightarrow> u8 list ps2" where
  "example_ps2 q = \<lparr>hw = q, packet_data = replicate 4 0, packet_index = 0, packet_size = 3, shifted = 0, ctrl = 0,
     interrupts = True, console = '''', created = []\<rparr>"

text \<open>
  C31. \<^verbatim>\<open>ps2_getchar\<close> returns the key of the first code that is one, in the state of the
  shift and control keys that the codes before it leave: it consumes make and break codes of the
  modifiers and the break codes of other keys, and leaves the rest of the codes pending and the
  interrupts enabled.
\<close>

theorem ps2_getchar_decodes:
  assumes "pending_bus B pend False" "next_key (shifted s) (ctrl s) (pend (hw s)) = Some (k, sh, ct, rest)"
  shows "\<exists>s'. ps2_getchar B s = Some (k, s') \<and> shifted s' = sh \<and> ctrl s' = ct \<and> pend (hw s') = rest \<and> interrupts s'"
  by (rule ps2_getchar_next [OF assms])

theorem ps2_getchar_decodes_witness:
  "\<exists>s'. ps2_getchar (queue_bus False) (example_ps2 [0x2a, 0x9e, 0x1e, 0xaa]) = Some (65, s') \<and> hw s' = [0xaa]"
proof -
  have "bit (0x9e :: u8) 7" "\<not> bit (0x1e :: u8) 7" by (simp_all add: bit_iff_odd)
  then have "next_key 0 0 [0x2a, 0x9e, 0x1e, 0xaa] = Some (65, 1, 0, [0xaa])"
    by (simp add: map_key_def keyboard_map_shifted_def)
  then show ?thesis
    using ps2_getchar_decodes [OF queue_bus_pending, of "example_ps2 [0x2a, 0x9e, 0x1e, 0xaa]"]
    by (auto simp: example_ps2_def)
qed

section \<open>Reading the keyboard's node\<close>

text \<open>
  The node \<^verbatim>\<open>Init\<close> creates has the flags of a terminal with echo, and the write
  function that \<^verbatim>\<open>NewVNode\<close> gives every node.
\<close>

definition keyboard_flags :: TTYFlags where
  "keyboard_flags = TTY_COOKED OR TTY_ECHO OR TTY_NLCR OR TTY_CRNL"

definition default_echo :: "kernel \<Rightarrow> addr \<Rightarrow> addr \<Rightarrow> u8 \<Rightarrow> 'h ps2 \<Rightarrow> 'h ps2 result" where
  "default_echo k chr_at Node c s = rbind (call_WriteFunction DefaultWriteFunction chr_at 1 1 Node k) (\<lambda>_. Inr s)"

lemma keyboard_flags_bits:
  "keyboard_flags AND TTY_ECHO \<noteq> 0" "keyboard_flags AND TTY_RAW = 0" "keyboard_flags AND TTY_COOKED \<noteq> 0"
  by (simp_all add: keyboard_flags_def TTY_COOKED_def TTY_ECHO_def TTY_NLCR_def TTY_CRNL_def TTY_RAW_def)

text \<open>
  The first key read from the keyboard's node panics: the flags ask for an echo, and the
  node's write function is the default one, which is not to be called.
\<close>

theorem ps2_keyboard_read_panics:
  assumes "pending_bus B pend False" "next_key (shifted s) (ctrl s) (pend (hw s)) = Some (key, sh, ct, rest)"
    and "Buf \<noteq> NULL" "Node \<noteq> NULL" "chr_at \<noteq> NULL" "0 < Sz * Elements"
  shows "ps2_keyboard_read B (default_echo k chr_at Node) keyboard_flags Buf Sz Elements Node m s =
    Some (Inl (Panic PANIC_UNINTENDED_CALL))"
proof -
  obtain s' where "ps2_getchar B s = Some (key, s')" using ps2_getchar_next [OF assms(1,2)] by blast
  then have "keyboard_read_loop B (default_echo k chr_at Node) keyboard_flags Buf (Sz * Elements) 0 m s =
      Some (Inl (Panic PANIC_UNINTENDED_CALL))"
    using assms keyboard_flags_bits
    by (subst keyboard_read_loop.simps) (simp add: default_echo_def call_WriteFunction_def)
  then show ?thesis using assms by (simp add: ps2_keyboard_read_def)
qed

theorem ps2_keyboard_read_panics_witness:
  "\<forall>k m. ps2_keyboard_read (queue_bus False) (default_echo k 0x2000 0x1000) keyboard_flags 0x3000 1 1 0x1000 m
      (example_ps2 [0x1e]) = Some (Inl (Panic PANIC_UNINTENDED_CALL))"
proof (intro allI)
  fix k m
  have "\<not> bit (0x1e :: u8) 7" by (simp add: bit_iff_odd)
  then have "next_key 0 0 [0x1e] = Some (97, 0, 0, [])" by (simp add: map_key_def keyboard_map_def)
  then show "ps2_keyboard_read (queue_bus False) (default_echo k 0x2000 0x1000) keyboard_flags 0x3000 1 1 0x1000 m
      (example_ps2 [0x1e]) = Some (Inl (Panic PANIC_UNINTENDED_CALL))"
    using ps2_keyboard_read_panics [OF queue_bus_pending, of "example_ps2 [0x1e]" 97 0 0 "[]" "0x3000" "0x1000" "0x2000" 1 1 k m]
    by (simp add: example_ps2_def)
qed

text \<open>
  In any mode but raw, a backspace as the second key stores outside the buffer: the unsigned
  index has become \<open>2\<^sup>6\<^sup>4 - 1\<close>.
\<close>

theorem ps2_keyboard_read_backspace:
  assumes "pending_bus B pend False" "next_key (shifted s) (ctrl s) (pend (hw s)) = Some (k1, sh, ct, cs)"
    and "next_key sh ct cs = Some (8, sh', ct', rest)" "k1 \<notin> {8, 10, 13}" "fl AND TTY_RAW = 0"
    and "Buf \<noteq> NULL" "Node \<noteq> NULL" "1 < Sz * Elements"
  shows "ps2_keyboard_read B (\<lambda>c s. Inr s) fl Buf Sz Elements Node m s = Some (Inl Fault)"
proof -
  obtain s1 where 1: "ps2_getchar B s = Some (k1, s1)" "shifted s1 = sh" "ctrl s1 = ct" "pend (hw s1) = cs"
    using ps2_getchar_next [OF assms(1,2)] by blast
  obtain s2 where 2: "ps2_getchar B s1 = Some (8, s2)"
    using ps2_getchar_next [OF assms(1), of s1] assms(3) 1 by auto
  have B: "0 < Sz * Elements" using assms(8) by (simp add: word_less_nat_alt)
  have "keyboard_read_loop B (\<lambda>c s. Inr s) fl Buf (Sz * Elements) 1 (m(Buf := k1)) s1 = Some (Inl Fault)"
    using 2 assms(5,8) by (subst keyboard_read_loop.simps) simp
  then have "keyboard_read_loop B (\<lambda>c s. Inr s) fl Buf (Sz * Elements) 0 m s = Some (Inl Fault)"
    using 1(1) B assms(4) by (subst keyboard_read_loop.simps) simp
  then show ?thesis using assms(6,7) by (simp add: ps2_keyboard_read_def)
qed

theorem ps2_keyboard_read_backspace_witness:
  "ps2_keyboard_read (queue_bus False) (\<lambda>c s. Inr s) TTY_COOKED 0x3000 4 1 0x1000 (\<lambda>a. 0) (example_ps2 [0x1e, 0x0e]) =
    Some (Inl Fault)"
proof -
  have b: "\<not> bit (0x1e :: u8) 7" "\<not> bit (0x0e :: u8) 7" by (simp_all add: bit_iff_odd)
  have "next_key 0 0 [0x1e, 0x0e] = Some (97, 0, 0, [0x0e])" "next_key 0 0 [0x0e] = Some (8, 0, 0, [])"
    using b by (simp_all add: map_key_def keyboard_map_def)
  then show ?thesis
    using ps2_keyboard_read_backspace [OF queue_bus_pending, of "example_ps2 [0x1e, 0x0e]" 97 0 0 "[0x0e]" 0 0 "[]"
        TTY_COOKED "0x3000" "0x1000" 4 1 "\<lambda>a. 0"]
    by (simp add: example_ps2_def TTY_COOKED_def TTY_RAW_def)
qed

section \<open>Mouse packets\<close>

definition mouse_ready :: "'h ps2 \<Rightarrow> bool" where
  "mouse_ready s \<longleftrightarrow> length (packet_data s) = 4 \<and> packet_size s = 3 \<and> packet_index s < 3"



lemma ps2_read_data_pending:
  assumes "pending_bus B pend mouse" "pend (hw s) = c # cs"
  shows "\<exists>h'. ps2_read_data B s = Some (c, s\<lparr>hw := h'\<rparr>) \<and> pend h' = cs"
proof -
  obtain v h1 where 1: "inb B 0x64 (hw s) = (v, h1)" "bit v 0" "pend h1 = c # cs"
    by (rule pending_status [OF assms(1), of "hw s"]) (use assms(2) in auto)
  obtain h2 where 2: "inb B 0x60 h1 = (c, h2)" "pend h2 = cs" using pending_data [OF assms(1) 1(3)] by auto
  have "await B PS2_STATUS_OUTPUT_FULL True s = Some (s\<lparr>hw := h1\<rparr>)"
    using 1 by (subst await.simps) (simp add: ps2_read_status_def port_in_def status_bits)
  then show ?thesis using 2 by (intro exI [of _ h2]) (simp add: ps2_read_data_def port_in_def)
qed

lemma mouse_byte:
  assumes bus: "pending_bus B pend True" and ready: "mouse_ready s" and byte: "pend (hw s) = c # cs"
    and sync: "packet_index s = 0 \<Longrightarrow> bit c 3"
  defines "d \<equiv> (packet_data s)[unat (packet_index s) := c]"
  shows "\<exists>h'. pend h' = cs \<and> ps2_read_mouse_packet B s = Some (Inr (if packet_index s = 2
      then (Some (decode_packet d), s\<lparr>hw := h', packet_data := d, packet_index := 0, interrupts := False\<rparr>)
      else (None, s\<lparr>hw := h', packet_data := d, packet_index := packet_index s + 1, interrupts := True\<rparr>)))"
proof -
  obtain v h1 where 1: "inb B 0x64 (hw s) = (v, h1)" "bit v 0" "pend h1 = c # cs"
    by (rule pending_status [OF bus, of "hw s"]) (use byte in auto)
  obtain w h2 where 2: "inb B 0x64 h1 = (w, h2)" "bit w 5" "pend h2 = c # cs"
    by (rule pending_status [OF bus, of h1]) (use 1(3) in auto)
  obtain h3 where 3: "ps2_read_data B (s\<lparr>interrupts := False, hw := h2\<rparr>) = Some (c, s\<lparr>interrupts := False, hw := h3\<rparr>)" "pend h3 = cs"
    using ps2_read_data_pending [OF bus, of "s\<lparr>interrupts := False, hw := h2\<rparr>"] 2(3) by auto
  have lt: "unat (packet_index s) < 3" using ready by (simp add: mouse_ready_def word_less_nat_alt)
  have le: "(3 \<le> packet_index s + 1) = (packet_index s = 2)"
    using lt by (auto simp: word_le_nat_alt word_unat_eq_iff unat_word_ariths)
  have sy: "\<not> (packet_index s = 0 \<and> \<not> bit c 3)" using sync by blast
  show ?thesis
    using 1 2 3 sy lt ready le
    by (intro exI [of _ h3]) (auto simp: ps2_read_mouse_packet_def ps2_read_status_def port_in_def ArchCli_def ArchSti_def
        status_bits mouse_ready_def d_def Let_def)
qed

text \<open>A movement: nine bits in two's complement, none of the eight if the overflow bit is set.\<close>

definition movement :: "bool \<Rightarrow> bool \<Rightarrow> u8 \<Rightarrow> int" where
  "movement negative overflow b = (if overflow then 0 else uint b) - (if negative then 256 else 0)"

lemma movement_word:
  "sint (if neg then (if ovf then 0 else ucast b) OR 0xFF00 else (if ovf then 0 else ucast b :: u16)) = movement neg ovf b"
proof -
  have b: "uint b < 256" "0 \<le> uint b" using unsigned_less [of b] by simp_all
  let ?x = "if ovf then 0 else ucast b :: u16"
  have x: "uint ?x = (if ovf then 0 else uint b)"
    using b by (simp add: unsigned_ucast_eq take_bit_int_eq_self)
  have disj: "?x AND 0xFF00 = 0"
  proof (rule bit_word_eqI)
    fix k
    have "bit (0xFF00 :: u16) k \<longleftrightarrow> 8 \<le> k \<and> k < 16"
    proof -
      have "(0xFF00 :: u16) = push_bit 8 (mask 8)" by (simp add: mask_eq_exp_minus_1)
      then show ?thesis by (simp only: bit_push_bit_iff bit_mask_iff) auto
    qed
    then show "bit (?x AND 0xFF00) k = bit (0 :: u16) k"
      by (auto simp: bit_and_iff bit_ucast_iff dest: bit_imp_le_length)
  qed
  then have "?x OR 0xFF00 = ?x + 0xFF00" by (rule disjunctive_add_eq_or [symmetric])
  then have "uint (?x OR 0xFF00) = uint ?x + 0xFF00"
    using x b by (simp add: uint_word_ariths)
  then show ?thesis
  proof -
    have "(98048 + uint b) mod 65536 = ((32512 + uint b) + 65536) mod 65536" by simp
    also have "\<dots> = 32512 + uint b" unfolding mod_add_self2 using b by (intro mod_pos_pos_trivial) simp_all
    finally have "(98048 + uint b) mod 65536 = 32512 + uint b" .
    then have "signed_take_bit 15 (uint b + 0xFF00) = uint b - 256" "signed_take_bit 15 (uint b) = uint b"
      "signed_take_bit 15 (0xFF00 :: int) = - 256"
      using b by (simp_all add: signed_take_bit_eq_take_bit_shift take_bit_eq_mod)
    then show ?thesis using x \<open>uint (?x OR 0xFF00) = uint ?x + 0xFF00\<close>
      by (simp add: movement_def sint_uint split: if_splits)
  qed
qed

text \<open>
  Three bytes of the mouse, the first with its sync bit set, are one packet: the movements
  are nine-bit numbers in two's complement, or 0 on overflow before the sign is extended, the
  buttons are the low three bits, and collecting starts again. After the packet the interrupts
  stay disabled.
\<close>

theorem ps2_mouse_packet_decodes:
  assumes "pending_bus B pend True" "mouse_ready s" "packet_index s = 0" "pend (hw s) = [f, x, y] @ rest" "bit f 3"
  shows "\<exists>s1 s2 s3 p. ps2_read_mouse_packet B s = Some (Inr (None, s1)) \<and>
     ps2_read_mouse_packet B s1 = Some (Inr (None, s2)) \<and> ps2_read_mouse_packet B s2 = Some (Inr (Some p, s3)) \<and>
     sint (x_movement p) = movement (bit f 4) (bit f 6) x \<and> sint (y_movement p) = movement (bit f 5) (bit f 7) y \<and>
     (\<forall>k < 3. bit (buttons p) k = bit f k) \<and>
     packet_index s3 = 0 \<and> pend (hw s3) = rest \<and> interrupts s1 \<and> interrupts s2 \<and> \<not> interrupts s3"
proof -
  obtain a b c e where d: "packet_data s = [a, b, c, e]"
    using assms(2) by (auto simp: mouse_ready_def numeral_eq_Suc length_Suc_conv)
  obtain h1 where 1: "pend h1 = [x, y] @ rest" "ps2_read_mouse_packet B s =
      Some (Inr (None, s\<lparr>hw := h1, packet_data := [f, b, c, e], packet_index := 1, interrupts := True\<rparr>))"
    using mouse_byte [OF assms(1,2), of f "[x, y] @ rest"] assms(3-5) d by auto
  let ?s1 = "s\<lparr>hw := h1, packet_data := [f, b, c, e], packet_index := 1, interrupts := True\<rparr>"
  have r1: "mouse_ready ?s1" using assms(2) d by (simp add: mouse_ready_def)
  obtain h2 where 2: "pend h2 = y # rest" "ps2_read_mouse_packet B ?s1 =
      Some (Inr (None, s\<lparr>hw := h2, packet_data := [f, x, c, e], packet_index := 2, interrupts := True\<rparr>))"
    using mouse_byte [OF assms(1) r1, of x "y # rest"] 1(1) by auto
  let ?s2 = "s\<lparr>hw := h2, packet_data := [f, x, c, e], packet_index := 2, interrupts := True\<rparr>"
  have r2: "mouse_ready ?s2" using assms(2) d by (simp add: mouse_ready_def)
  obtain h3 where 3: "pend h3 = rest" "ps2_read_mouse_packet B ?s2 =
      Some (Inr (Some (decode_packet [f, x, y, e]), s\<lparr>hw := h3, packet_data := [f, x, y, e], packet_index := 0, interrupts := False\<rparr>))"
    using mouse_byte [OF assms(1) r2, of y rest] 2(1) by auto
  have "sint (x_movement (decode_packet [f, x, y, e])) = movement (bit f 4) (bit f 6) x"
    "sint (y_movement (decode_packet [f, x, y, e])) = movement (bit f 5) (bit f 7) y"
    using movement_word [of "bit f 4" "bit f 6" x] movement_word [of "bit f 5" "bit f 7" y]
    by (simp_all add: decode_packet_def Let_def cong: if_cong)
  moreover have "bit (buttons (decode_packet [f, x, y, e])) k = bit f k" if "k < 3" for k
  proof -
    have "k = 0 \<or> k = 1 \<or> k = 2" using that by arith
    then show ?thesis by (auto simp: decode_packet_def Let_def bit_or_iff bit_iff_odd)
  qed
  ultimately show ?thesis using 1(2) 2(2) 3 by auto
qed

theorem ps2_mouse_packet_decodes_witness:
  "\<exists>s1 s2 s3 p. ps2_read_mouse_packet (queue_bus True) s2 = Some (Inr (Some p, s3)) \<and>
     ps2_read_mouse_packet (queue_bus True) s1 = Some (Inr (None, s2)) \<and>
     sint (x_movement p) = - 2 \<and> sint (y_movement p) = 3 \<and> \<not> interrupts s3"
proof -
  have b: "bit (0x19 :: u8) 3" "bit (0x19 :: u8) 4" "\<not> bit (0x19 :: u8) 5" "\<not> bit (0x19 :: u8) 6" "\<not> bit (0x19 :: u8) 7"
    by (simp_all add: bit_iff_odd)
  have "mouse_ready (example_ps2 [0x19, 0xFE, 3])" by (simp add: mouse_ready_def example_ps2_def)
  from ps2_mouse_packet_decodes [OF queue_bus_pending this _ _ b(1), of "0xFE" 3 "[]"] b
  show ?thesis by (fastforce simp: example_ps2_def movement_def)
qed

end
