(* ===== verification/Elf.thy ===== *)
theory Elf
  imports KString
begin

text \<open>
  The module loader of amd64, \<^verbatim>\<open>src/amd64/module.c\<close>: finding a symbol, relocating the
  sections of a relocatable ELF file in place, calling its \<^verbatim>\<open>Init\<close> and its constructors.
  The file is bytes of the memory, read at the offsets of the packed structures of
  \<^verbatim>\<open>module.h\<close>, and the patches change them.

  \<^verbatim>\<open>FindKernelSymbol\<close> is generated by the build and a loaded function is code of another
  file: both are parameters. What is printed is kept as messages, a pointer for each string.
\<close>

section \<open>Structures\<close>

definition load16 :: "memory \<Rightarrow> addr \<Rightarrow> u16" where
  "load16 m a = le_join (load_bytes m a 2)"

definition load32 :: "memory \<Rightarrow> addr \<Rightarrow> u32" where
  "load32 m a = le_join (load_bytes m a 4)"

definition store32 :: "memory \<Rightarrow> addr \<Rightarrow> u32 \<Rightarrow> memory" where
  "store32 m a v = store_bytes m a (le_split 4 v)"

text \<open>\<^verbatim>\<open>struct elf_header\<close> at an address.\<close>

definition e_type :: "memory \<Rightarrow> addr \<Rightarrow> u16" where "e_type m elf = load16 m (elf + 16)"
definition e_shoff :: "memory \<Rightarrow> addr \<Rightarrow> u64" where "e_shoff m elf = load64 m (elf + 40)"
definition e_shnum :: "memory \<Rightarrow> addr \<Rightarrow> u16" where "e_shnum m elf = load16 m (elf + 60)"

text \<open>\<^verbatim>\<open>shdr[i]\<close>, 64 bytes each.\<close>

definition sh_type :: "memory \<Rightarrow> addr \<Rightarrow> u64 \<Rightarrow> u32" where "sh_type m shdr i = load32 m (shdr + 64 * i + 4)"
definition sh_flags :: "memory \<Rightarrow> addr \<Rightarrow> u64 \<Rightarrow> u64" where "sh_flags m shdr i = load64 m (shdr + 64 * i + 8)"
definition sh_offset :: "memory \<Rightarrow> addr \<Rightarrow> u64 \<Rightarrow> u64" where "sh_offset m shdr i = load64 m (shdr + 64 * i + 24)"
definition sh_size :: "memory \<Rightarrow> addr \<Rightarrow> u64 \<Rightarrow> u64" where "sh_size m shdr i = load64 m (shdr + 64 * i + 32)"
definition sh_link :: "memory \<Rightarrow> addr \<Rightarrow> u64 \<Rightarrow> u32" where "sh_link m shdr i = load32 m (shdr + 64 * i + 40)"
definition sh_info :: "memory \<Rightarrow> addr \<Rightarrow> u64 \<Rightarrow> u32" where "sh_info m shdr i = load32 m (shdr + 64 * i + 44)"

text \<open>\<^verbatim>\<open>struct elf_symbol\<close>, 24 bytes, at an address.\<close>

definition st_name :: "memory \<Rightarrow> addr \<Rightarrow> u32" where "st_name m sy = load32 m sy"
definition st_shndx :: "memory \<Rightarrow> addr \<Rightarrow> u16" where "st_shndx m sy = load16 m (sy + 6)"
definition st_value :: "memory \<Rightarrow> addr \<Rightarrow> u64" where "st_value m sy = load64 m (sy + 8)"

text \<open>\<^verbatim>\<open>struct elf_rela\<close>, 24 bytes, and \<^verbatim>\<open>struct elf_rel\<close>, 16 bytes.\<close>

definition r_offset :: "memory \<Rightarrow> addr \<Rightarrow> u64" where "r_offset m rel = load64 m rel"
definition r_info :: "memory \<Rightarrow> addr \<Rightarrow> u64" where "r_info m rel = load64 m (rel + 8)"
definition r_addend :: "memory \<Rightarrow> addr \<Rightarrow> u64" where "r_addend m rel = load64 m (rel + 16)"

definition ELF64_R_TYPE :: "u64 \<Rightarrow> u32" where "ELF64_R_TYPE info = ucast (info AND 0xFFFFFFFF)"
definition ELF64_R_SYM :: "u64 \<Rightarrow> u32" where "ELF64_R_SYM info = ucast (drop_bit 32 info)"

definition R_X86_64_64 :: u32 where "R_X86_64_64 = 1"
definition R_X86_64_PC32 :: u32 where "R_X86_64_PC32 = 2"
definition R_X86_64_PLT32 :: u32 where "R_X86_64_PLT32 = 4"
definition R_X86_64_GLOB_DAT :: u32 where "R_X86_64_GLOB_DAT = 6"
definition R_X86_64_JUMP_SLOT :: u32 where "R_X86_64_JUMP_SLOT = 7"
definition R_X86_64_RELATIVE :: u32 where "R_X86_64_RELATIVE = 8"
definition SHT_SYMTAB :: u32 where "SHT_SYMTAB = 2"
definition SHT_RELA :: u32 where "SHT_RELA = 4"
definition SHT_REL :: u32 where "SHT_REL = 9"
definition SHT_INIT_ARRAY :: u32 where "SHT_INIT_ARRAY = 14"
definition SHF_ALLOC :: u64 where "SHF_ALLOC = 2"
definition SHN_UNDEF :: u16 where "SHN_UNDEF = 0"
definition SHN_ABS :: u16 where "SHN_ABS = 0xfff1"
definition SHN_COMMON :: u16 where "SHN_COMMON = 0xfff2"
definition ET_REL :: u16 where "ET_REL = 1"

record loaded_module =
  base :: addr
  symtab :: addr
  strtab :: addr
  symcount :: u32

datatype message =
    Loading addr u64 | NotElf | NotRelocatable u16 | Unresolved addr | UnknownRela u32 | UnknownRel u32
  | RelocationFailed | CallingInit addr | InitReturned u32 | NoInit | CallingConstructor nat addr | Loaded
  | TagSeen addr u32 u32

record 'w loader =
  lmem :: memory
  log :: "message list"
  world :: 'w

definition say :: "message \<Rightarrow> 'w loader \<Rightarrow> 'w loader" where
  "say msg st = st\<lparr>log := log st @ [msg]\<rparr>"

definition shdr_of :: "memory \<Rightarrow> addr \<Rightarrow> addr" where
  "shdr_of m b = b + e_shoff m b"

section \<open>Symbols\<close>

text \<open>\<^verbatim>\<open>strncmp(sym_name, name, 128) == 0\<close> for a name in memory and a literal.\<close>

definition same_name :: "memory \<Rightarrow> addr \<Rightarrow> string \<Rightarrow> bool result" where
  "same_name m a name =
     rbind (strncmp (Some (map char_of_byte (load_bytes m a 128))) (Some name) 128) (\<lambda>r. Inr (r = 0))"

definition symbol_at :: "loaded_module \<Rightarrow> u32 \<Rightarrow> addr" where
  "symbol_at md i = symtab md + 24 * ucast i"

definition symbol_result :: "memory \<Rightarrow> loaded_module \<Rightarrow> addr \<Rightarrow> addr \<Rightarrow> addr" where
  "symbol_result m md shdr sy =
     (let section_idx = st_shndx m sy
      in if section_idx = SHN_ABS then st_value m sy
         else if section_idx = SHN_COMMON then base md + st_value m sy
         else if section_idx < e_shnum m (base md) \<and> section_idx \<noteq> SHN_UNDEF
           then base md + sh_offset m shdr (ucast section_idx) + st_value m sy
         else if section_idx = SHN_UNDEF then NULL
         else base md + st_value m sy)"

fun find_symbol :: "memory \<Rightarrow> loaded_module \<Rightarrow> addr \<Rightarrow> string \<Rightarrow> nat list \<Rightarrow> addr result" where
  "find_symbol m md shdr name [] = Inr NULL"
| "find_symbol m md shdr name (i # is) =
     (let sy = symbol_at md (of_nat i)
      in rbind (same_name m (strtab md + ucast (st_name m sy)) name) (\<lambda>same.
           if same then Inr (symbol_result m md shdr sy) else find_symbol m md shdr name is))"

definition FindSymbol :: "memory \<Rightarrow> loaded_module \<Rightarrow> string \<Rightarrow> addr result" where
  "FindSymbol m md name = find_symbol m md (shdr_of m (base md)) name [0..<unat (symcount md)]"

section \<open>Relocation\<close>

definition defined_symbol :: "memory \<Rightarrow> loaded_module \<Rightarrow> addr \<Rightarrow> addr \<Rightarrow> u64" where
  "defined_symbol m md shdr sy =
     (if sh_flags m shdr (ucast (st_shndx m sy)) AND SHF_ALLOC \<noteq> 0
      then base md + sh_offset m shdr (ucast (st_shndx m sy)) + st_value m sy
      else st_value m sy)"

text \<open>\<open>Inl\<close>: the name of an unresolved symbol.\<close>

definition rela_symbol ::
  "(memory \<Rightarrow> addr \<Rightarrow> addr) \<Rightarrow> memory \<Rightarrow> loaded_module \<Rightarrow> addr \<Rightarrow> u32 \<Rightarrow> addr + u64" where
  "rela_symbol Find m md shdr sym_idx =
     (if 0 < sym_idx \<and> sym_idx < symcount md then
        let sy = symbol_at md sym_idx;
            sym_name = strtab md + ucast (st_name m sy)
        in if st_shndx m sy \<noteq> SHN_UNDEF \<and> st_shndx m sy < e_shnum m (base md)
           then Inr (defined_symbol m md shdr sy)
           else if st_shndx m sy = SHN_UNDEF \<and> m sym_name \<noteq> 0
           then (let a = Find m sym_name in if a = 0 then Inl sym_name else Inr a)
           else if st_shndx m sy = SHN_ABS then Inr (st_value m sy)
           else Inr 0
      else Inr 0)"

definition rel_symbol ::
  "(memory \<Rightarrow> addr \<Rightarrow> addr) \<Rightarrow> memory \<Rightarrow> loaded_module \<Rightarrow> addr \<Rightarrow> u32 \<Rightarrow> addr + u64" where
  "rel_symbol Find m md shdr sym_idx =
     (if 0 < sym_idx \<and> sym_idx < symcount md then
        let sy = symbol_at md sym_idx;
            sym_name = strtab md + ucast (st_name m sy)
        in if st_shndx m sy \<noteq> SHN_UNDEF \<and> st_shndx m sy < e_shnum m (base md)
           then Inr (defined_symbol m md shdr sy)
           else if st_shndx m sy = SHN_UNDEF \<and> m sym_name \<noteq> 0
           then (let a = Find m sym_name in if a = 0 then Inl sym_name else Inr a)
           else Inr 0
      else Inr 0)"

text \<open>The patch of one entry, the value and the address given; \<open>None\<close> for an unknown type.\<close>

definition patch_rela :: "memory \<Rightarrow> loaded_module \<Rightarrow> u32 \<Rightarrow> addr \<Rightarrow> u64 \<Rightarrow> u64 \<Rightarrow> memory option" where
  "patch_rela m md type patch_addr sym_addr addend =
     (if type = R_X86_64_64 then Some (store64 m patch_addr (sym_addr + addend))
      else if type = R_X86_64_PC32 \<or> type = R_X86_64_PLT32
        then Some (store32 m patch_addr (ucast (sym_addr + addend - patch_addr)))
      else if type = R_X86_64_GLOB_DAT \<or> type = R_X86_64_JUMP_SLOT then Some (store64 m patch_addr sym_addr)
      else if type = R_X86_64_RELATIVE then Some (store64 m patch_addr (base md + addend))
      else None)"

definition patch_rel :: "memory \<Rightarrow> u32 \<Rightarrow> addr \<Rightarrow> u64 \<Rightarrow> u64 \<Rightarrow> memory option" where
  "patch_rel m type patch_addr sym_addr addend =
     (if type = R_X86_64_64 then Some (store64 m patch_addr (sym_addr + addend))
      else if type = R_X86_64_PC32 \<or> type = R_X86_64_PLT32
        then Some (store32 m patch_addr (ucast (sym_addr + addend - patch_addr)))
      else if type = R_X86_64_GLOB_DAT \<or> type = R_X86_64_JUMP_SLOT then Some (store64 m patch_addr sym_addr)
      else None)"

text \<open>The loops over the entries; \<open>False\<close> for the return of \<open>-1\<close>.\<close>

fun rela_loop ::
  "(memory \<Rightarrow> addr \<Rightarrow> addr) \<Rightarrow> loaded_module \<Rightarrow> addr \<Rightarrow> addr \<Rightarrow> addr \<Rightarrow> nat list \<Rightarrow> 'w loader \<Rightarrow> bool \<times> 'w loader" where
  "rela_loop Find md shdr target_base rel [] st = (True, st)"
| "rela_loop Find md shdr target_base rel (r # rs) st =
     (let m = lmem st;
          entry = rel + 24 * of_nat r;
          type = ELF64_R_TYPE (r_info m entry);
          sym_idx = ELF64_R_SYM (r_info m entry);
          patch_addr = target_base + r_offset m entry
      in if type = R_X86_64_RELATIVE \<and> sym_idx = 0
         then rela_loop Find md shdr target_base rel rs (st\<lparr>lmem := store64 m patch_addr (base md + r_addend m entry)\<rparr>)
         else case rela_symbol Find m md shdr sym_idx of
             Inl sym_name \<Rightarrow> (False, say (Unresolved sym_name) st)
           | Inr sym_addr \<Rightarrow>
               (case patch_rela m md type patch_addr sym_addr (r_addend m entry) of
                  Some m1 \<Rightarrow> rela_loop Find md shdr target_base rel rs (st\<lparr>lmem := m1\<rparr>)
                | None \<Rightarrow> rela_loop Find md shdr target_base rel rs (say (UnknownRela type) st)))"

fun rel_loop ::
  "(memory \<Rightarrow> addr \<Rightarrow> addr) \<Rightarrow> loaded_module \<Rightarrow> addr \<Rightarrow> addr \<Rightarrow> addr \<Rightarrow> nat list \<Rightarrow> 'w loader \<Rightarrow> bool \<times> 'w loader" where
  "rel_loop Find md shdr target_base rel [] st = (True, st)"
| "rel_loop Find md shdr target_base rel (r # rs) st =
     (let m = lmem st;
          entry = rel + 16 * of_nat r;
          type = ELF64_R_TYPE (r_info m entry);
          sym_idx = ELF64_R_SYM (r_info m entry);
          patch_addr = target_base + r_offset m entry;
          addend = load64 m patch_addr
      in case rel_symbol Find m md shdr sym_idx of
           Inl sym_name \<Rightarrow> (False, say (Unresolved sym_name) st)
         | Inr sym_addr \<Rightarrow>
             (case patch_rel m type patch_addr sym_addr addend of
                Some m1 \<Rightarrow> rel_loop Find md shdr target_base rel rs (st\<lparr>lmem := m1\<rparr>)
              | None \<Rightarrow> rel_loop Find md shdr target_base rel rs (say (UnknownRel type) st)))"

text \<open>A count kept in an \<^verbatim>\<open>int\<close>: none of the loop if it is negative.\<close>

definition int_count :: "u64 \<Rightarrow> nat" where
  "int_count n = nat (sint (ucast n :: u32))"

definition reloc_section ::
  "(memory \<Rightarrow> addr \<Rightarrow> addr) \<Rightarrow> loaded_module \<Rightarrow> addr \<Rightarrow> u64 \<Rightarrow> 'w loader \<Rightarrow> bool \<times> 'w loader" where
  "reloc_section Find md shdr i st =
     (let m = lmem st
      in if sh_type m shdr i \<noteq> SHT_REL \<and> sh_type m shdr i \<noteq> SHT_RELA then (True, st)
         else
           let target_section = scast (sh_info m shdr i) :: u64
           in if sh_flags m shdr target_section AND SHF_ALLOC = 0 then (True, st)
              else
                let target_base = base md + sh_offset m shdr target_section;
                    rel = base md + sh_offset m shdr i
                in if sh_type m shdr i = SHT_RELA
                   then rela_loop Find md shdr target_base rel [0..<int_count (sh_size m shdr i div 24)] st
                   else rel_loop Find md shdr target_base rel [0..<int_count (sh_size m shdr i div 16)] st)"

text \<open>The number of sections is read again in every turn, from memory that patches may change.\<close>

function reloc_sections ::
  "(memory \<Rightarrow> addr \<Rightarrow> addr) \<Rightarrow> loaded_module \<Rightarrow> addr \<Rightarrow> nat \<Rightarrow> 'w loader \<Rightarrow> bool \<times> 'w loader" where
  "reloc_sections Find md shdr i st =
     (if i < unat (e_shnum (lmem st) (base md)) then
        let (ok, st1) = reloc_section Find md shdr (of_nat i) st
        in if ok then reloc_sections Find md shdr (Suc i) st1 else (False, st1)
      else (True, st))"
  by pat_completeness auto
termination
proof (relation "measure (\<lambda>(F, md, shdr, i, st). 65536 - i)", simp, goal_cases)
  case (1 F md shdr i st)
  have "unat (e_shnum (lmem st) (base md)) < 65536" using unsigned_less [of "e_shnum (lmem st) (base md)"] by simp
  with 1 show ?case by simp
qed

declare reloc_sections.simps [simp del]

fun find_symtab :: "memory \<Rightarrow> addr \<Rightarrow> loaded_module \<Rightarrow> nat list \<Rightarrow> loaded_module" where
  "find_symtab m shdr md [] = md"
| "find_symtab m shdr md (i # is) =
     (if sh_type m shdr (of_nat i) = SHT_SYMTAB
      then md\<lparr>symtab := base md + sh_offset m shdr (of_nat i),
               symcount := ucast (sh_size m shdr (of_nat i) div 24),
               strtab := base md + sh_offset m shdr (scast (sh_link m shdr (of_nat i)))\<rparr>
      else find_symtab m shdr md is)"

definition RelocateModule ::
  "(memory \<Rightarrow> addr \<Rightarrow> addr) \<Rightarrow> loaded_module \<Rightarrow> 'w loader \<Rightarrow> bool \<times> loaded_module \<times> 'w loader" where
  "RelocateModule Find md st =
     (let shdr = shdr_of (lmem st) (base md);
          mod1 = find_symtab (lmem st) shdr md [0..<unat (e_shnum (lmem st) (base md))];
          (ok, st1) = reloc_sections Find mod1 shdr 0 st
      in (ok, mod1, st1))"

section \<open>Constructors and loading\<close>

fun call_functions :: "(addr \<Rightarrow> 'w loader \<Rightarrow> 'w loader) \<Rightarrow> addr \<Rightarrow> nat list \<Rightarrow> 'w loader \<Rightarrow> 'w loader" where
  "call_functions call init_funcs [] st = st"
| "call_functions call init_funcs (c # cs) st =
     (let f = load64 (lmem st) (init_funcs + 8 * of_nat c)
      in if f \<noteq> NULL then call_functions call init_funcs cs (call f (say (CallingConstructor c f) st))
         else call_functions call init_funcs cs st)"

function constructor_sections ::
  "(addr \<Rightarrow> 'w loader \<Rightarrow> 'w loader) \<Rightarrow> addr \<Rightarrow> addr \<Rightarrow> nat \<Rightarrow> 'w loader \<Rightarrow> 'w loader" where
  "constructor_sections call b shdr i st =
     (if i < unat (e_shnum (lmem st) b) then
        let m = lmem st
        in if sh_type m shdr (of_nat i) = SHT_INIT_ARRAY \<and> sh_flags m shdr (of_nat i) AND SHF_ALLOC \<noteq> 0
           then constructor_sections call b shdr (Suc i)
                  (call_functions call (b + sh_offset m shdr (of_nat i)) [0..<int_count (sh_size m shdr (of_nat i) div 8)] st)
           else constructor_sections call b shdr (Suc i) st
      else st)"
  by pat_completeness auto
termination
proof (relation "measure (\<lambda>(call, b, shdr, i, st). 65536 - i)", simp, goal_cases)
  case (1 call b shdr i st)
  have "unat (e_shnum (lmem st) b) < 65536" using unsigned_less [of "e_shnum (lmem st) b"] by simp
  with 1 show ?case by simp
next
  case (2 call b shdr i st)
  have "unat (e_shnum (lmem st) b) < 65536" using unsigned_less [of "e_shnum (lmem st) b"] by simp
  with 2 show ?case by simp
qed

declare constructor_sections.simps [simp del]

definition CallConstructors :: "(addr \<Rightarrow> 'w loader \<Rightarrow> 'w loader) \<Rightarrow> loaded_module \<Rightarrow> 'w loader \<Rightarrow> 'w loader" where
  "CallConstructors call md st = constructor_sections call (base md) (shdr_of (lmem st) (base md)) 0 st"

definition LoadModule ::
  "(memory \<Rightarrow> addr \<Rightarrow> addr) \<Rightarrow> (addr \<Rightarrow> 'w loader \<Rightarrow> u32 \<times> 'w loader) \<Rightarrow> (addr \<Rightarrow> 'w loader \<Rightarrow> 'w loader) \<Rightarrow>
     addr \<Rightarrow> u64 \<Rightarrow> addr \<Rightarrow> 'w loader \<Rightarrow> 'w loader result" where
  "LoadModule Find init call a sz name st =
     (let st0 = say (Loading name sz) st; m = lmem st0
      in if m a = 0x7F \<and> m (a + 1) = byte_of CHR ''E'' \<and> m (a + 2) = byte_of CHR ''L'' \<and> m (a + 3) = byte_of CHR ''F'' then
           if e_type m a \<noteq> ET_REL then Inr (say (NotRelocatable (e_type m a)) st0)
           else
             let mod0 = \<lparr>base = a, symtab = NULL, strtab = NULL, symcount = 0\<rparr>;
                 (ok, md, st1) = RelocateModule Find mod0 st0
             in if \<not> ok then Inr (say RelocationFailed st1)
                else rbind (FindSymbol (lmem st1) md (''Init'' @ [NUL])) (\<lambda>init_func.
                  let st2 = (if init_func \<noteq> NULL
                             then let (result, s) = init init_func (say (CallingInit init_func) st1)
                                  in say (InitReturned result) s
                             else say NoInit st1)
                  in Inr (say Loaded (CallConstructors call md st2)))
         else Inr (say NotElf st0))"

section \<open>Stores and loads of the patches\<close>

lemma store_bytes_other: "length bs \<le> unat (x - a) \<Longrightarrow> store_bytes m a bs x = m x"
  by (simp add: store_bytes_def)

lemma load32_store32 [simp]: "load32 (store32 m a v) a = v"
  using load_store_same [of "le_split 4 v" m a] by (simp add: load32_def store32_def le_join_split)

definition site :: "u32 \<Rightarrow> addr \<Rightarrow> addr set" where
  "site type P = {x. unat (x - P) < (if type = R_X86_64_PC32 \<or> type = R_X86_64_PLT32 then 4 else 8)}"

lemma in_site: "k < (if type = R_X86_64_PC32 \<or> type = R_X86_64_PLT32 then 4 else 8) \<Longrightarrow> P + of_nat k \<in> site type P"
  by (auto simp: site_def unat_of_nat split: if_splits)

lemma load32_cong: "(\<And>i. i < 4 \<Longrightarrow> m (a + of_nat i) = m' (a + of_nat i)) \<Longrightarrow> load32 m a = load32 m' a"
  unfolding load32_def load_bytes_def by (rule arg_cong [where f = le_join]) (simp cong: map_cong)

definition known_rela :: "u32 \<Rightarrow> bool" where
  "known_rela type \<longleftrightarrow> type \<in> {R_X86_64_64, R_X86_64_PC32, R_X86_64_PLT32, R_X86_64_GLOB_DAT, R_X86_64_JUMP_SLOT, R_X86_64_RELATIVE}"

text \<open>What the place of an entry must hold: \<open>S + A\<close>, \<open>S + A - P\<close>, \<open>S\<close> or
  \<open>B + A\<close>.\<close>

definition relocated :: "memory \<Rightarrow> addr \<Rightarrow> u32 \<Rightarrow> addr \<Rightarrow> u64 \<Rightarrow> u64 \<Rightarrow> bool" where
  "relocated m b type P S A \<longleftrightarrow>
     (if type = R_X86_64_64 then load64 m P = S + A
      else if type = R_X86_64_PC32 \<or> type = R_X86_64_PLT32 then load32 m P = ucast (S + A - P)
      else if type = R_X86_64_GLOB_DAT \<or> type = R_X86_64_JUMP_SLOT then load64 m P = S
      else load64 m P = b + A)"

lemmas reloc_types = R_X86_64_64_def R_X86_64_PC32_def R_X86_64_PLT32_def R_X86_64_GLOB_DAT_def
  R_X86_64_JUMP_SLOT_def R_X86_64_RELATIVE_def

lemma patch_rela_ok:
  assumes "known_rela type"
  obtains m1 where "patch_rela m md type P S A = Some m1" "relocated m1 (base md) type P S A"
    "\<And>x. x \<notin> site type P \<Longrightarrow> m1 x = m x"
proof (cases "patch_rela m md type P S A")
  case None
  then show ?thesis using assms by (auto simp: patch_rela_def known_rela_def split: if_splits)
next
  case (Some m1)
  moreover have "relocated m1 (base md) type P S A"
    using Some assms unfolding patch_rela_def relocated_def
    by (auto simp: reloc_types known_rela_def split: if_splits)
  moreover have "m1 x = m x" if "x \<notin> site type P" for x
    using Some that unfolding patch_rela_def site_def
    by (auto simp: reloc_types store64_def store32_def store_bytes_other split: if_splits)
  ultimately show ?thesis using that by blast
qed

lemma relocated_cong:
  assumes "\<And>x. x \<in> site type P \<Longrightarrow> m' x = m x"
  shows "relocated m' b type P S A = relocated m b type P S A"
proof -
  have "load32 m' P = load32 m P" if "type = R_X86_64_PC32 \<or> type = R_X86_64_PLT32"
    using that in_site [of _ type P] assms by (intro load32_cong) auto
  moreover have "load64 m' P = load64 m P" if "\<not> (type = R_X86_64_PC32 \<or> type = R_X86_64_PLT32)"
    using that in_site [of _ type P] assms by (intro load64_cong) auto
  ultimately show ?thesis
    by (cases "type = R_X86_64_PC32 \<or> type = R_X86_64_PLT32") (auto simp: relocated_def reloc_types)
qed

section \<open>A relocation section\<close>

text \<open>What the loop reads for an entry: type, place, addend and the symbol's value.\<close>

definition rela_read ::
  "(memory \<Rightarrow> addr \<Rightarrow> addr) \<Rightarrow> loaded_module \<Rightarrow> addr \<Rightarrow> addr \<Rightarrow> addr \<Rightarrow> memory \<Rightarrow> nat \<Rightarrow> u32 \<times> addr \<times> u64 \<times> (addr + u64)" where
  "rela_read Find md shdr target_base rel m r =
     (let entry = rel + 24 * of_nat r
      in (ELF64_R_TYPE (r_info m entry), target_base + r_offset m entry, r_addend m entry,
          if ELF64_R_TYPE (r_info m entry) = R_X86_64_RELATIVE \<and> ELF64_R_SYM (r_info m entry) = 0 then Inr 0
          else rela_symbol Find m md shdr (ELF64_R_SYM (r_info m entry))))"

lemma rela_loop_step:
  assumes "rela_read Find md shdr tb rel (lmem st) r = (type, P, A, Inr S)" "known_rela type"
  obtains m1 where
    "rela_loop Find md shdr tb rel (r # rs) st = rela_loop Find md shdr tb rel rs (st\<lparr>lmem := m1\<rparr>)"
    "relocated m1 (base md) type P S A" "\<And>x. x \<notin> site type P \<Longrightarrow> m1 x = lmem st x"
proof -
  let ?e = "rel + 24 * of_nat r"
  obtain m1 where m1: "patch_rela (lmem st) md type P S A = Some m1" "relocated m1 (base md) type P S A"
    "\<And>x. x \<notin> site type P \<Longrightarrow> m1 x = lmem st x" using patch_rela_ok [OF assms(2)] by blast
  have f: "ELF64_R_TYPE (r_info (lmem st) ?e) = type" "tb + r_offset (lmem st) ?e = P" "r_addend (lmem st) ?e = A"
    using assms(1) by (simp_all add: rela_read_def Let_def)
  have "rela_loop Find md shdr tb rel (r # rs) st = rela_loop Find md shdr tb rel rs (st\<lparr>lmem := m1\<rparr>)"
  proof (cases "type = R_X86_64_RELATIVE \<and> ELF64_R_SYM (r_info (lmem st) ?e) = 0")
    case True
    then have "m1 = store64 (lmem st) P (base md + A)"
      using m1(1) by (simp add: patch_rela_def reloc_types)
    then show ?thesis using True f by (simp add: Let_def)
  next
    case False
    then have "rela_symbol Find (lmem st) md shdr (ELF64_R_SYM (r_info (lmem st) ?e)) = Inr S"
      using assms(1) f by (auto simp: rela_read_def Let_def split: if_splits)
    then show ?thesis using False f m1(1) by (auto simp: Let_def)
  qed
  with m1 that show ?thesis by blast
qed

text \<open>
  \<open>R\<close> holds what the loader reads: the entries, the symbols, the headers and the names. The
  places to patch lie outside of it and do not overlap each other.
\<close>

definition reads_only ::
  "(memory \<Rightarrow> addr \<Rightarrow> addr) \<Rightarrow> loaded_module \<Rightarrow> addr \<Rightarrow> addr \<Rightarrow> addr \<Rightarrow> addr set \<Rightarrow> nat set \<Rightarrow> memory \<Rightarrow> bool" where
  "reads_only Find md shdr tb rel R rs m \<longleftrightarrow>
     (\<forall>m'. (\<forall>a \<in> R. m' a = m a) \<longrightarrow>
        (\<forall>r \<in> rs. rela_read Find md shdr tb rel m' r = rela_read Find md shdr tb rel m r))"

definition entry_site ::
  "(memory \<Rightarrow> addr \<Rightarrow> addr) \<Rightarrow> loaded_module \<Rightarrow> addr \<Rightarrow> addr \<Rightarrow> addr \<Rightarrow> memory \<Rightarrow> nat \<Rightarrow> addr set" where
  "entry_site Find md shdr tb rel m r =
     site (fst (rela_read Find md shdr tb rel m r)) (fst (snd (rela_read Find md shdr tb rel m r)))"

lemma rela_loop_ok:
  assumes "distinct rs"
    and "\<forall>r \<in> set rs. \<exists>type P A S. rela_read Find md shdr tb rel (lmem st) r = (type, P, A, Inr S) \<and> known_rela type"
    and "reads_only Find md shdr tb rel R (set rs) (lmem st)"
    and "\<forall>r \<in> set rs. entry_site Find md shdr tb rel (lmem st) r \<inter> R = {}"
    and "\<forall>r \<in> set rs. \<forall>r' \<in> set rs. r \<noteq> r' \<longrightarrow>
      entry_site Find md shdr tb rel (lmem st) r \<inter> entry_site Find md shdr tb rel (lmem st) r' = {}"
  shows "\<exists>m'. rela_loop Find md shdr tb rel rs st = (True, st\<lparr>lmem := m'\<rparr>) \<and>
     (\<forall>r \<in> set rs. case rela_read Find md shdr tb rel (lmem st) r of
        (type, P, A, v) \<Rightarrow> relocated m' (base md) type P (projr v) A) \<and>
     (\<forall>x. (\<forall>r \<in> set rs. x \<notin> entry_site Find md shdr tb rel (lmem st) r) \<longrightarrow> m' x = lmem st x)"
  using assms
proof (induction rs arbitrary: st)
  case Nil
  then show ?case by (intro exI [of _ "lmem st"]) simp
next
  case (Cons r rs)
  let ?rd = "rela_read Find md shdr tb rel" and ?site = "entry_site Find md shdr tb rel"
  obtain type P A S where rd: "?rd (lmem st) r = (type, P, A, Inr S)" "known_rela type" using Cons.prems(2) by auto
  obtain m1 where m1: "rela_loop Find md shdr tb rel (r # rs) st = rela_loop Find md shdr tb rel rs (st\<lparr>lmem := m1\<rparr>)"
    "relocated m1 (base md) type P S A" "\<And>x. x \<notin> site type P \<Longrightarrow> m1 x = lmem st x"
    using rela_loop_step [OF rd] by blast
  have sr: "?site (lmem st) r = site type P" by (simp add: entry_site_def rd)
  have R1: "m1 a = lmem st a" if "a \<in> R" for a using m1(3) Cons.prems(4) that sr by auto
  then have same: "?rd m1 q = ?rd (lmem st) q" if "q \<in> set rs" for q
    using Cons.prems(3) that unfolding reads_only_def by (metis list.set_intros(2))
  then have sites: "?site m1 q = ?site (lmem st) q" if "q \<in> set rs" for q using that by (simp add: entry_site_def)
  have ro: "reads_only Find md shdr tb rel R (set rs) m1"
    unfolding reads_only_def
  proof (intro allI impI ballI)
    fix m' q assume a: "\<forall>a \<in> R. m' a = m1 a" and q: "q \<in> set rs"
    have "\<forall>a \<in> R. m' a = lmem st a" using a R1 by simp
    then have "?rd m' q = ?rd (lmem st) q" using Cons.prems(3) q unfolding reads_only_def by (metis list.set_intros(2))
    then show "?rd m' q = ?rd m1 q" using same [OF q] by simp
  qed
  have "\<exists>m'. rela_loop Find md shdr tb rel rs (st\<lparr>lmem := m1\<rparr>) = (True, (st\<lparr>lmem := m1\<rparr>)\<lparr>lmem := m'\<rparr>) \<and>
     (\<forall>r \<in> set rs. case ?rd (lmem (st\<lparr>lmem := m1\<rparr>)) r of (type, P, A, v) \<Rightarrow> relocated m' (base md) type P (projr v) A) \<and>
     (\<forall>x. (\<forall>r \<in> set rs. x \<notin> ?site (lmem (st\<lparr>lmem := m1\<rparr>)) r) \<longrightarrow> m' x = lmem (st\<lparr>lmem := m1\<rparr>) x)"
  proof (rule Cons.IH)
    show "\<forall>r \<in> set rs. \<exists>type P A S. ?rd (lmem (st\<lparr>lmem := m1\<rparr>)) r = (type, P, A, Inr S) \<and> known_rela type"
      using Cons.prems(2) same by simp
    show "reads_only Find md shdr tb rel R (set rs) (lmem (st\<lparr>lmem := m1\<rparr>))" using ro by simp
    show "\<forall>r \<in> set rs. ?site (lmem (st\<lparr>lmem := m1\<rparr>)) r \<inter> R = {}" using Cons.prems(4) sites by simp
    show "\<forall>r \<in> set rs. \<forall>r' \<in> set rs. r \<noteq> r' \<longrightarrow> ?site (lmem (st\<lparr>lmem := m1\<rparr>)) r \<inter> ?site (lmem (st\<lparr>lmem := m1\<rparr>)) r' = {}"
      using Cons.prems(5) sites by simp
  qed (use Cons.prems(1) in simp)
  then obtain m' where m': "rela_loop Find md shdr tb rel rs (st\<lparr>lmem := m1\<rparr>) = (True, st\<lparr>lmem := m'\<rparr>)"
     "\<forall>r \<in> set rs. case ?rd (lmem st) r of (type, P, A, v) \<Rightarrow> relocated m' (base md) type P (projr v) A"
     "\<And>x. (\<forall>r \<in> set rs. x \<notin> ?site (lmem st) r) \<Longrightarrow> m' x = m1 x"
    using same sites by auto
  have "r \<notin> set rs" using Cons.prems(1) by simp
  then have "m' x = m1 x" if "x \<in> site type P" for x using m'(3) Cons.prems(5) that sr by fastforce
  then have "relocated m' (base md) type P S A" using m1(2) relocated_cong by blast
  moreover have "m' x = lmem st x" if "\<forall>q \<in> set (r # rs). x \<notin> ?site (lmem st) q" for x
    using m'(3) m1(3) that sr by simp
  ultimately show ?case using m1(1) m'(1,2) rd by (intro exI [of _ m']) simp
qed

section \<open>The properties of the loader\<close>


definition example_rela :: memory where
  "example_rela = store64 (store64 (store64 (\<lambda>a. 0) 0x100 0x10) 0x108 8) 0x110 5"

definition example_module :: loaded_module where
  "example_module = \<lparr>base = 0x4000, symtab = 0, strtab = 0, symcount = 0\<rparr>"

lemma load64_store64_disjoint:
  assumes "\<And>k. k < 8 \<Longrightarrow> 8 \<le> unat (b + of_nat k - a)"
  shows "load64 (store64 m a v) b = load64 m b"
  using assms by (intro load64_cong) (simp add: store64_other)

lemma below_8: "k < (8 :: nat) \<longleftrightarrow> k \<in> {0, 1, 2, 3, 4, 5, 6, 7}"
  by auto

lemma example_rela_loads: "load64 example_rela 0x100 = 0x10" "load64 example_rela 0x108 = 8" "load64 example_rela 0x110 = 5"
proof -
  have "load64 (store64 m a v) b = load64 m b"
    if "(a, b) \<in> {(0x110, 0x100), (0x110, 0x108), (0x108, 0x100)}" for m v a b
    using that by (intro load64_store64_disjoint) (auto simp: below_8 unsigned_minus_1_eq_mask mask_eq_exp_minus_1)
  then show "load64 example_rela 0x100 = 0x10" "load64 example_rela 0x108 = 8" "load64 example_rela 0x110 = 5"
    by (simp_all add: example_rela_def)
qed


text \<open>
  A PC-relative place reaches its target exactly if the distance fits 32 bits: the processor
  adds the sign-extended word to the address. The loader does not check this, and patches a
  place whose target is further away with another address.
\<close>

theorem pc32_reaches:
  assumes "patch_rela m md R_X86_64_PC32 P S A = Some m'"
  shows "P + scast (load32 m' P) = S + A \<longleftrightarrow> - (2 ^ 31) \<le> sint (S + A - P) \<and> sint (S + A - P) < 2 ^ 31"
proof -
  let ?d = "S + A - P"
  have "m' = store32 m P (ucast ?d)" using assms by (simp add: patch_rela_def reloc_types)
  then have "P + scast (load32 m' P) = S + A \<longleftrightarrow> scast (ucast ?d :: u32) = ?d"
    by (auto simp: algebra_simps)
  also have "\<dots> \<longleftrightarrow> sint (scast (ucast ?d :: u32) :: u64) = sint ?d" by (auto intro: signed_word_eqI)
  also have "\<dots> \<longleftrightarrow> signed_take_bit 31 (sint ?d) = sint ?d"
  proof -
    have "sint (scast (ucast ?d :: u32) :: u64) = signed_take_bit 31 (sint ?d)"
      by (rule bit_eqI) (auto simp: bit_simps min_def)
    then show ?thesis by (simp only:)
  qed
  also have "\<dots> \<longleftrightarrow> - (2 ^ 31) \<le> sint ?d \<and> sint ?d < 2 ^ 31"
    by (simp add: signed_take_bit_int_eq_self_iff)
  finally show ?thesis .
qed

theorem pc32_reaches_witness:
  "0x1000 + scast (load32 (store32 (\<lambda>a. 0) 0x1000 0xFFC) 0x1000) = (0x2000 + (- 4) :: u64)"
proof -
  have "patch_rela (\<lambda>a. 0) example_module R_X86_64_PC32 0x1000 0x2000 (- 4) = Some (store32 (\<lambda>a. 0) 0x1000 0xFFC)"
    by (simp add: patch_rela_def reloc_types)
  from pc32_reaches [OF this] show ?thesis by simp
qed

lemma say_world [simp]: "world (say e st) = world st" "lmem (say e st) = lmem st" "log (say e st) = log st @ [e]"
  by (simp_all add: say_def)

lemma rela_loop_world: "world (snd (rela_loop Find md shdr tb rel rs st)) = world st"
  by (induction rs arbitrary: st) (auto simp: Let_def split: sum.split option.split)

lemma rel_loop_world: "world (snd (rel_loop Find md shdr tb rel rs st)) = world st"
  by (induction rs arbitrary: st) (auto simp: Let_def split: sum.split option.split)

lemma reloc_section_world: "world (snd (reloc_section Find md shdr i st)) = world st"
  by (simp add: reloc_section_def Let_def rela_loop_world rel_loop_world)

lemma reloc_sections_world: "world (snd (reloc_sections Find md shdr i st)) = world st"
proof (induction Find md shdr i st rule: reloc_sections.induct)
  case (1 Find md shdr i st)
  obtain ok st1 where s: "reloc_section Find md shdr (of_nat i) st = (ok, st1)" by fastforce
  then have "world st1 = world st" using reloc_section_world [of Find md shdr "of_nat i" st] by simp
  then show ?case using 1 s by (subst reloc_sections.simps) simp
qed

lemma RelocateModule_world: "world (snd (snd (RelocateModule Find md st))) = world st"
  by (simp add: RelocateModule_def Let_def split_beta reloc_sections_world)



end
