(* ===== verification/Fat.thy ===== *)
theory Fat
  imports Bytes
begin

text \<open>
  The FAT module, \<^verbatim>\<open>src/modules/fat\<close>: the geometry of a volume, the three formats of
  the allocation table, cluster allocation, directories, and reading and writing files. The
  drive is a byte device given as a parameter. \<^verbatim>\<open>DWORD\<close> arithmetic wraps at 32 bits as in
  the code; a division by a zero field of the boot sector and an access outside a sector buffer
  are a \<open>Fault\<close>.
\<close>

section \<open>On-disk structures\<close>

datatype FATType = FAT_UNKNOWN | FAT_12 | FAT_16 | FAT_32

text \<open>
  The fields of the boot sector the code uses, with their offsets in the packed structure: the
  signatures of both members of the union are kept, as both are read.
\<close>

record FATBootSector =
  BytesPerSector :: u16
  SectorsPerCluster :: u8
  ReservedSectors :: u16
  FATCount :: u8
  RootDirectoryEntries :: u16
  TotalSectorsInVolume :: u16
  SectorsPerFAT :: u16
  ExtendedSectorCount :: u32
  fat16_Signature :: u8
  fat32_SectorsPerFAT :: u32
  RootCluster :: u32
  fat32_Signature :: u8

definition parse_boot :: "u8 list \<Rightarrow> FATBootSector result" where
  "parse_boot b =
     rbind (get16 b 11) (\<lambda>bytes. rbind (get8 b 13) (\<lambda>spc. rbind (get16 b 14) (\<lambda>reserved.
     rbind (get8 b 16) (\<lambda>fats. rbind (get16 b 17) (\<lambda>roots. rbind (get16 b 19) (\<lambda>total.
     rbind (get16 b 22) (\<lambda>spf. rbind (get32 b 32) (\<lambda>ext. rbind (get8 b 38) (\<lambda>sig16.
     rbind (get32 b 36) (\<lambda>spf32. rbind (get32 b 44) (\<lambda>root. rbind (get8 b 66) (\<lambda>sig32.
       Inr \<lparr>BytesPerSector = bytes, SectorsPerCluster = spc, ReservedSectors = reserved,
            FATCount = fats, RootDirectoryEntries = roots, TotalSectorsInVolume = total,
            SectorsPerFAT = spf, ExtendedSectorCount = ext, fat16_Signature = sig16,
            fat32_SectorsPerFAT = spf32, RootCluster = root, fat32_Signature = sig32\<rparr>))))))))))))"

record FATVolume =
  Boot :: FATBootSector
  PartitionLBA :: u32

record FATDirectory =
  Name :: "u8 list"
  Ext :: "u8 list"
  Flags :: u8
  Reserved :: u8
  time_ignore :: u8
  Time :: u16
  Date :: u16
  LastAccessedDate :: u16
  EntryFirstClusterHigh :: u16
  LastModifiedTime :: u16
  LastModifiedDate :: u16
  EntryFirstClusterLow :: u16
  Size :: u32

definition sizeof_FATDirectory :: nat where
  "sizeof_FATDirectory = 32"

definition directory_bytes :: "FATDirectory \<Rightarrow> u8 list" where
  "directory_bytes e = Name e @ Ext e @ [Flags e, Reserved e, time_ignore e] @ le_split 2 (Time e) @
     le_split 2 (Date e) @ le_split 2 (LastAccessedDate e) @ le_split 2 (EntryFirstClusterHigh e) @
     le_split 2 (LastModifiedTime e) @ le_split 2 (LastModifiedDate e) @ le_split 2 (EntryFirstClusterLow e) @
     le_split 4 (Size e)"

definition directory_at :: "u8 list \<Rightarrow> FATDirectory" where
  "directory_at b = \<lparr>Name = take 8 b, Ext = take 3 (drop 8 b), Flags = b ! 11, Reserved = b ! 12,
     time_ignore = b ! 13, Time = le_join (take 2 (drop 14 b)), Date = le_join (take 2 (drop 16 b)),
     LastAccessedDate = le_join (take 2 (drop 18 b)),
     EntryFirstClusterHigh = le_join (take 2 (drop 20 b)),
     LastModifiedTime = le_join (take 2 (drop 22 b)), LastModifiedDate = le_join (take 2 (drop 24 b)),
     EntryFirstClusterLow = le_join (take 2 (drop 26 b)), Size = le_join (take 4 (drop 28 b))\<rparr>"

text \<open>The entry \<open>i\<close> of a sector buffer seen as an array of directory entries.\<close>

definition entry_of :: "u8 list \<Rightarrow> nat \<Rightarrow> FATDirectory" where
  "entry_of sector i = directory_at (take 32 (drop (32 * i) sector))"

record FATFileLocation =
  Dir :: FATDirectory
  Cluster :: u32
  Offset :: u32
  Index :: u32
  Found :: bool

definition FAT_UNUSED :: u8 where "FAT_UNUSED = 0xE5"
definition FAT_DIRECTORY :: u8 where "FAT_DIRECTORY = 0x10"
definition FAT_ARCHIVE :: u8 where "FAT_ARCHIVE = 0x20"
definition FAT_LONG_FILE_NAME :: u8 where "FAT_LONG_FILE_NAME = 0x3F"

section \<open>Geometry\<close>

definition FatSectorToOffset :: "FATVolume \<Rightarrow> u32 \<Rightarrow> u64" where
  "FatSectorToOffset vol sector = ucast ((PartitionLBA vol + sector) * ucast (BytesPerSector (Boot vol)))"

text \<open>Division of the C code: by zero it is undefined.\<close>

definition udiv :: "'a::len word \<Rightarrow> 'a word \<Rightarrow> 'a word result" where
  "udiv a b = (if b = 0 then Inl Fault else Inr (a div b))"

definition FatTotalSectors :: "FATVolume \<Rightarrow> u32" where
  "FatTotalSectors vol =
     (if TotalSectorsInVolume (Boot vol) \<noteq> 0 then ucast (TotalSectorsInVolume (Boot vol))
      else ExtendedSectorCount (Boot vol))"

definition FatSize :: "FATVolume \<Rightarrow> u32" where
  "FatSize vol =
     (if SectorsPerFAT (Boot vol) \<noteq> 0 then ucast (SectorsPerFAT (Boot vol))
      else fat32_SectorsPerFAT (Boot vol))"

definition FatRootDirSize :: "FATVolume \<Rightarrow> u32 result" where
  "FatRootDirSize vol =
     rbind (udiv (ucast (RootDirectoryEntries (Boot vol)) * 32 + (ucast (BytesPerSector (Boot vol)) - 1) :: u64)
       (ucast (BytesPerSector (Boot vol)))) (\<lambda>q. Inr (ucast q))"

definition FatFirstData :: "FATVolume \<Rightarrow> u32 result" where
  "FatFirstData vol = rbind (FatRootDirSize vol) (\<lambda>r.
     Inr (ucast (ReservedSectors (Boot vol)) + ucast (FATCount (Boot vol)) * FatSize vol + r))"

definition FatFirstFat :: "FATVolume \<Rightarrow> u32" where
  "FatFirstFat vol = ucast (ReservedSectors (Boot vol))"

definition FatDataCount :: "FATVolume \<Rightarrow> u32 result" where
  "FatDataCount vol = rbind (FatRootDirSize vol) (\<lambda>r.
     Inr (FatTotalSectors vol - (ucast (ReservedSectors (Boot vol)) + ucast (FATCount (Boot vol)) * FatSize vol + r)))"

definition FatClusterCount :: "FATVolume \<Rightarrow> u32 result" where
  "FatClusterCount vol = rbind (FatDataCount vol) (\<lambda>n. udiv n (ucast (SectorsPerCluster (Boot vol))))"

definition ext_signature :: "u8 \<Rightarrow> bool" where
  "ext_signature s \<longleftrightarrow> s = 0x28 \<or> s = 0x29"

definition FatIdentify :: "FATVolume \<Rightarrow> FATType result" where
  "FatIdentify vol = rbind (FatClusterCount vol) (\<lambda>TotalClusters. Inr
     (if TotalClusters < 4085 \<and> ext_signature (fat16_Signature (Boot vol)) then FAT_12
      else if TotalClusters < 65525 \<and> ext_signature (fat16_Signature (Boot vol)) then FAT_16
      else if ext_signature (fat32_Signature (Boot vol)) then FAT_32
      else FAT_UNKNOWN))"

definition FatFirstRoot :: "FATVolume \<Rightarrow> u32 result" where
  "FatFirstRoot vol = rbind (FatFirstData vol) (\<lambda>f. rbind (FatRootDirSize vol) (\<lambda>r. Inr (f - r)))"

definition FatRootCluster :: "FATVolume \<Rightarrow> u32" where
  "FatRootCluster vol = RootCluster (Boot vol)"

definition FatFirstSectorForCluster :: "FATVolume \<Rightarrow> u32 \<Rightarrow> u32 result" where
  "FatFirstSectorForCluster vol Clu = rbind (FatFirstData vol) (\<lambda>f.
     Inr ((Clu - 2) * ucast (SectorsPerCluster (Boot vol)) + f))"

section \<open>Mounting\<close>

definition sector_bytes :: "FATVolume \<Rightarrow> nat" where
  "sector_bytes vol = unat (BytesPerSector (Boot vol))"

definition ReadFrom :: "'d drive \<Rightarrow> u64 \<Rightarrow> nat \<Rightarrow> 'd \<Rightarrow> (u8 list \<times> 'd) outcome" where
  "ReadFrom D Off Bytes d = dread D Off Bytes d"

definition WriteTo :: "'d drive \<Rightarrow> u64 \<Rightarrow> u8 list \<Rightarrow> 'd \<Rightarrow> 'd outcome" where
  "WriteTo D Off Buf d = dwrite D Off Buf d"

text \<open>The four partition entries of 16 bytes start at offset 446 of the boot record.\<close>

fun fat_partition :: "u8 list \<Rightarrow> nat list \<Rightarrow> u32 result" where
  "fat_partition mbr [] = Inr 0"
| "fat_partition mbr (i # is) =
     rbind (get8 mbr (446 + 16 * i + 4)) (\<lambda>type.
       if type \<in> {0x01, 0x04, 0x06, 0x0B, 0x0C, 0x0E} then get32 mbr (446 + 16 * i + 8)
       else fat_partition mbr is)"

definition FatParseMBR :: "'d drive \<Rightarrow> 'd \<Rightarrow> (u32 \<times> 'd) outcome" where
  "FatParseMBR D d =
     obind (ReadFrom D 0 512 d) (\<lambda>(mbr, d1).
     obind (Some (get16 mbr 510)) (\<lambda>Signature.
       if Signature \<noteq> 0xAA55 then Some (Inr (0, d1))
       else obind (Some (fat_partition mbr [0, 1, 2, 3])) (\<lambda>lba. Some (Inr (lba, d1)))))"

definition FatMount :: "'d drive \<Rightarrow> 'd \<Rightarrow> (FATVolume \<times> 'd) outcome" where
  "FatMount D d =
     obind (FatParseMBR D d) (\<lambda>(lba, d1).
     obind (ReadFrom D (ucast (lba * 512)) 512 d1) (\<lambda>(b, d2).
     obind (Some (parse_boot b)) (\<lambda>boot. Some (Inr (\<lparr>Boot = boot, PartitionLBA = lba\<rparr>, d2)))))"

section \<open>The allocation table\<close>

definition read_sector :: "'d drive \<Rightarrow> FATVolume \<Rightarrow> u32 \<Rightarrow> 'd \<Rightarrow> (u8 list \<times> 'd) outcome" where
  "read_sector D vol sector d = ReadFrom D (FatSectorToOffset vol sector) (sector_bytes vol) d"

text \<open>The sector of an allocation table and the offset in it, for a byte offset in the table.\<close>

definition fat_place :: "FATVolume \<Rightarrow> u32 \<Rightarrow> (u32 \<times> nat) result" where
  "fat_place vol fatOffset =
     rbind (udiv fatOffset (ucast (BytesPerSector (Boot vol)))) (\<lambda>q.
     Inr (FatFirstFat vol + q, unat (fatOffset mod ucast (BytesPerSector (Boot vol)))))"

definition FatNextCluster32 :: "'d drive \<Rightarrow> FATVolume \<Rightarrow> u32 \<Rightarrow> 'd \<Rightarrow> (u32 \<times> 'd) outcome" where
  "FatNextCluster32 D vol cluster d =
     obind (Some (fat_place vol (cluster * 4))) (\<lambda>(fatSector, entOffset).
     obind (read_sector D vol fatSector d) (\<lambda>(sector, d1).
     obind (Some (get32 sector entOffset)) (\<lambda>entry. Some (Inr (entry AND 0x0FFFFFFF, d1)))))"

definition FatNextCluster16 :: "'d drive \<Rightarrow> FATVolume \<Rightarrow> u16 \<Rightarrow> 'd \<Rightarrow> (u16 \<times> 'd) outcome" where
  "FatNextCluster16 D vol cluster d =
     obind (Some (fat_place vol (ucast cluster * 2))) (\<lambda>(fatSector, entOffset).
     obind (read_sector D vol fatSector d) (\<lambda>(sector, d1).
     obind (Some (get16 sector entOffset)) (\<lambda>entry. Some (Inr (entry, d1)))))"

definition FatNextCluster12 :: "'d drive \<Rightarrow> FATVolume \<Rightarrow> u16 \<Rightarrow> 'd \<Rightarrow> (u16 \<times> 'd) outcome" where
  "FatNextCluster12 D vol cluster d =
     obind (Some (fat_place vol (ucast cluster + ucast cluster div 2))) (\<lambda>(fatSector, entOffset).
     obind (read_sector D vol fatSector d) (\<lambda>(sector, d1).
     obind (Some (get32 sector entOffset)) (\<lambda>entry.
       Some (Inr (ucast (if bit cluster 0 then drop_bit 4 entry else entry AND 0x0FFF), d1)))))"

definition FatNextCluster :: "'d drive \<Rightarrow> FATVolume \<Rightarrow> u32 \<Rightarrow> 'd \<Rightarrow> (u32 \<times> 'd) outcome" where
  "FatNextCluster D vol cluster d =
     obind (Some (FatIdentify vol)) (\<lambda>type.
       case type of
         FAT_UNKNOWN \<Rightarrow> Some (Inr (0xFFFFFFFF, d))
       | FAT_12 \<Rightarrow> obind (FatNextCluster12 D vol (ucast cluster) d) (\<lambda>(w, d1). Some (Inr (ucast w, d1)))
       | FAT_16 \<Rightarrow> obind (FatNextCluster16 D vol (ucast cluster) d) (\<lambda>(w, d1). Some (Inr (ucast w, d1)))
       | FAT_32 \<Rightarrow> FatNextCluster32 D vol cluster d)"

function find_free_cluster ::
  "'d drive \<Rightarrow> FATVolume \<Rightarrow> u32 \<Rightarrow> u32 \<Rightarrow> 'd \<Rightarrow> (u32 \<times> 'd) outcome" where
  "find_free_cluster D vol bound i d =
     (if i < bound then
        obind (Some (fat_place vol (i * 4))) (\<lambda>(fatSector, entOffset).
        obind (read_sector D vol fatSector d) (\<lambda>(sector, d1).
        obind (Some (get32 sector entOffset)) (\<lambda>entry.
          if entry AND 0x0FFFFFFF = 0 then Some (Inr (i, d1))
          else find_free_cluster D vol bound (i + 1) d1)))
      else Some (Inr (0, d)))"
  by pat_completeness auto
termination
proof (relation "measure (\<lambda>(D, vol, bound, i, d). unat bound - unat i)", simp, goal_cases)
  case (1 D vol bound i)
  then have "unat i < unat bound" by (simp add: word_less_nat_alt)
  moreover have "unat bound < 2 ^ 32" using unsigned_less [of bound] by simp
  ultimately have "unat i < unat bound" "unat (i + 1) = unat i + 1" by (simp_all add: unat_word_ariths)
  then show ?case by simp
qed

declare find_free_cluster.simps [simp del]

definition FatFindFreeCluster :: "'d drive \<Rightarrow> FATVolume \<Rightarrow> 'd \<Rightarrow> (u32 \<times> 'd) outcome" where
  "FatFindFreeCluster D vol d =
     obind (Some (FatClusterCount vol)) (\<lambda>total. find_free_cluster D vol (total + 2) 2 d)"

definition FatSetCluster :: "'d drive \<Rightarrow> FATVolume \<Rightarrow> u32 \<Rightarrow> u32 \<Rightarrow> 'd \<Rightarrow> 'd outcome" where
  "FatSetCluster D vol cluster val d =
     obind (Some (fat_place vol (cluster * 4))) (\<lambda>(fatSector, entOffset).
     obind (read_sector D vol fatSector d) (\<lambda>(sector, d1).
     obind (Some (get32 sector entOffset)) (\<lambda>entry.
     obind (Some (put32 sector entOffset ((entry AND 0xF0000000) OR (val AND 0x0FFFFFFF)))) (\<lambda>sector1.
     obind (WriteTo D (FatSectorToOffset vol fatSector) sector1 d1) (\<lambda>d2.
     WriteTo D (FatSectorToOffset vol (fatSector + FatSize vol)) sector1 d2)))))"

definition FatAllocateCluster :: "'d drive \<Rightarrow> FATVolume \<Rightarrow> 'd \<Rightarrow> (u32 \<times> 'd) outcome" where
  "FatAllocateCluster D vol d =
     obind (FatFindFreeCluster D vol d) (\<lambda>(freeCluster, d1).
       if freeCluster = 0 then Some (Inr (0, d1))
       else obind (FatSetCluster D vol freeCluster 0x0FFFFFF8 d1) (\<lambda>d2. Some (Inr (freeCluster, d2))))"

section \<open>Files\<close>

text \<open>
  The loop over the sectors of one cluster: every sector written takes a full sector of bytes
  from the data, whatever is left of them.
\<close>

function write_sectors ::
  "'d drive \<Rightarrow> FATVolume \<Rightarrow> u8 list \<Rightarrow> u32 \<Rightarrow> u32 \<Rightarrow> nat \<Rightarrow> u32 \<Rightarrow> u32 \<Rightarrow> 'd \<Rightarrow> (nat \<times> u32 \<times> 'd) outcome" where
  "write_sectors D vol data firstSector i p writeSize remaining d =
     (if i < ucast (SectorsPerCluster (Boot vol)) \<and> 0 < writeSize then
        let bytes = ucast (BytesPerSector (Boot vol)) :: u32;
            sectorSize = (if writeSize < bytes then writeSize else bytes)
        in obind (Some (get_bytes data p (sector_bytes vol))) (\<lambda>buf.
           obind (WriteTo D (FatSectorToOffset vol (firstSector + i)) buf d) (\<lambda>d1.
           write_sectors D vol data firstSector (i + 1) (p + unat sectorSize) (writeSize - sectorSize)
             (remaining - sectorSize) d1))
      else Some (Inr (p, remaining, d)))"
  by pat_completeness auto
termination
proof (relation "measure (\<lambda>(D, vol, data, f, i, p, w, r, d). 255 - unat i)", simp, goal_cases)
  case (1 D vol data firstSector i)
  have "unat (SectorsPerCluster (Boot vol)) < 256" using unsigned_less [of "SectorsPerCluster (Boot vol)"] by simp
  then have "unat (ucast (SectorsPerCluster (Boot vol)) :: u32) < 256"
    by (simp add: unsigned_ucast_eq take_bit_nat_eq_self)
  with 1 have "unat i < 255" by (simp add: word_less_nat_alt)
  moreover from this have "unat (i + 1) = unat i + 1" by (simp add: unat_word_ariths)
  ultimately show ?case by simp
qed

declare write_sectors.simps [simp del]

partial_function (option) write_clusters ::
  "'d drive \<Rightarrow> FATVolume \<Rightarrow> u8 list \<Rightarrow> u32 \<Rightarrow> u32 \<Rightarrow> nat \<Rightarrow> u32 \<Rightarrow> 'd \<Rightarrow> (u32 \<times> 'd) outcome" where
  "write_clusters D vol data firstCluster prevCluster p remaining d =
     (if 0 < remaining then
        obind (FatAllocateCluster D vol d) (\<lambda>r.
          if fst r = 0 then Some (Inr (0, snd r))
          else
            let cluster = fst r;
                first = (if firstCluster = 0 then cluster else firstCluster)
            in obind (if prevCluster \<noteq> 0 then FatSetCluster D vol prevCluster cluster (snd r)
                      else Some (Inr (snd r))) (\<lambda>d2.
               obind (Some (FatFirstSectorForCluster vol cluster)) (\<lambda>firstSector.
               let bytesPerCluster = ucast (SectorsPerCluster (Boot vol)) * ucast (BytesPerSector (Boot vol));
                   writeSize = (if remaining < bytesPerCluster then remaining else bytesPerCluster)
               in obind (write_sectors D vol data firstSector 0 p writeSize remaining d2) (\<lambda>w.
                  write_clusters D vol data first cluster (fst w) (fst (snd w)) (snd (snd w))))))
      else Some (Inr (firstCluster, d)))"

definition FatWriteData :: "'d drive \<Rightarrow> FATVolume \<Rightarrow> u8 list \<Rightarrow> u32 \<Rightarrow> 'd \<Rightarrow> (u32 \<times> 'd) outcome" where
  "FatWriteData D vol data sz d = write_clusters D vol data 0 0 0 sz d"

section \<open>Directories\<close>

text \<open>\<^verbatim>\<open>Parent ? (High << 16 | Low) : FatRootCluster(vol)\<close>.\<close>

definition first_cluster :: "FATDirectory \<Rightarrow> u32" where
  "first_cluster e = push_bit 16 (ucast (EntryFirstClusterHigh e)) OR ucast (EntryFirstClusterLow e)"

definition parent_cluster :: "FATVolume \<Rightarrow> FATDirectory option \<Rightarrow> u32" where
  "parent_cluster vol Parent = (case Parent of None \<Rightarrow> FatRootCluster vol | Some e \<Rightarrow> first_cluster e)"

definition not_a_directory :: "FATDirectory option \<Rightarrow> bool" where
  "not_a_directory Parent = (case Parent of None \<Rightarrow> False | Some e \<Rightarrow> Flags e AND FAT_DIRECTORY = 0)"

definition lfn_warning :: string where
  "lfn_warning = '' [WARN] FAT Subsystem: Long File Names are not supported, Ignoring'' @ [CHR 0x0D, CHR 0x0A]"

text \<open>\<^verbatim>\<open>strncmp\<close> on the two arrays of a name.\<close>

definition same_bytes :: "u8 list \<Rightarrow> u8 list \<Rightarrow> nat \<Rightarrow> bool result" where
  "same_bytes a b n = rbind (strncmp (Some (map char_of_byte a)) (Some (map char_of_byte b)) n) (\<lambda>r. Inr (r = 0))"

text \<open>What a scan of the entries of one sector ends with: the end of the directory, the
  index of the entry, or neither.\<close>

datatype scan = End | Match nat | Beyond

function scan_entries ::
  "'d drive \<Rightarrow> u8 list \<Rightarrow> u8 list \<Rightarrow> u8 list \<Rightarrow> nat \<Rightarrow> nat \<Rightarrow> 'd \<Rightarrow> (scan \<times> 'd) result" where
  "scan_entries D Nm Xt sector entries i d =
     (if i < entries then
        let e = entry_of sector i
        in if hd (Name e) = 0 then Inr (End, d)
           else if hd (Name e) = FAT_UNUSED then scan_entries D Nm Xt sector entries (Suc i) d
           else if Flags e = FAT_LONG_FILE_NAME then
             scan_entries D Nm Xt sector entries (Suc i) (dprint D lfn_warning d)
           else rbind (same_bytes (Name e) Nm 8) (\<lambda>same_name.
                rbind (if same_name then same_bytes (Ext e) Xt 3 else Inr False) (\<lambda>same.
                  if same then Inr (Match i, d) else scan_entries D Nm Xt sector entries (Suc i) d))
      else Inr (Beyond, d))"
  by pat_completeness auto
termination by (relation "measure (\<lambda>(D, n, x, sector, entries, i, d). entries - i)") auto

declare scan_entries.simps [simp del]

definition found_at :: "u32 \<Rightarrow> nat \<Rightarrow> nat \<Rightarrow> u8 list \<Rightarrow> FATFileLocation" where
  "found_at cluster clusterOffset i sector =
     \<lparr>Dir = entry_of sector i, Cluster = cluster, Offset = of_nat clusterOffset, Index = of_nat i, Found = True\<rparr>"

definition zero_directory :: FATDirectory where
  "zero_directory = directory_at (replicate 32 0)"

definition not_found :: FATFileLocation where
  "not_found = \<lparr>Dir = zero_directory, Cluster = 0, Offset = 0, Index = 0, Found = False\<rparr>"

text \<open>The sectors of one cluster; \<open>None\<close> when the search goes on in the next cluster.\<close>

function locate_in_cluster ::
  "'d drive \<Rightarrow> u8 list \<Rightarrow> u8 list \<Rightarrow> FATVolume \<Rightarrow> u32 \<Rightarrow> u32 \<Rightarrow> nat \<Rightarrow> 'd \<Rightarrow>
     (FATFileLocation option \<times> 'd) outcome" where
  "locate_in_cluster D Nm Xt vol cluster first_root off d =
     (if off < unat (SectorsPerCluster (Boot vol)) then
        obind (read_sector D vol (first_root + of_nat off) d) (\<lambda>(sector, d1).
        obind (Some (scan_entries D Nm Xt sector (sector_bytes vol div sizeof_FATDirectory) 0 d1)) (\<lambda>(r, d2).
          case r of
            End \<Rightarrow> Some (Inr (Some not_found, d2))
          | Match i \<Rightarrow> Some (Inr (Some (found_at cluster off i sector), d2))
          | Beyond \<Rightarrow> locate_in_cluster D Nm Xt vol cluster first_root (Suc off) d2))
      else Some (Inr (None, d)))"
  by pat_completeness auto
termination
  by (relation "measure (\<lambda>(D, n, x, vol, c, f, off, d). unat (SectorsPerCluster (Boot vol)) - off)") auto

declare locate_in_cluster.simps [simp del]

partial_function (option) locate_in_chain ::
  "'d drive \<Rightarrow> u8 list \<Rightarrow> u8 list \<Rightarrow> FATVolume \<Rightarrow> u32 \<Rightarrow> 'd \<Rightarrow> (FATFileLocation \<times> 'd) outcome" where
  "locate_in_chain D Nm Xt vol cluster d =
     (if cluster < 0x0FFFFFF8 then
        obind (Some (FatFirstSectorForCluster vol cluster)) (\<lambda>first_root.
        obind (locate_in_cluster D Nm Xt vol cluster first_root 0 d) (\<lambda>r.
          case fst r of
            Some l \<Rightarrow> Some (Inr (l, snd r))
          | None \<Rightarrow> obind (FatNextCluster D vol cluster (snd r)) (\<lambda>n. locate_in_chain D Nm Xt vol (fst n) (snd n))))
      else Some (Inr (not_found, d)))"

definition FatLocateInDir ::
  "'d drive \<Rightarrow> u8 list \<Rightarrow> u8 list \<Rightarrow> FATVolume \<Rightarrow> FATDirectory option \<Rightarrow> 'd \<Rightarrow> (FATFileLocation \<times> 'd) outcome" where
  "FatLocateInDir D Nm Xt vol Parent d =
     (if not_a_directory Parent then Some (Inr (not_found, d))
      else locate_in_chain D Nm Xt vol (parent_cluster vol Parent) d)"

text \<open>The first entry of a sector that is free: never used or deleted.\<close>

function free_entry :: "u8 list \<Rightarrow> nat \<Rightarrow> nat \<Rightarrow> nat option" where
  "free_entry sector entries i =
     (if i < entries then
        if hd (Name (entry_of sector i)) = 0 \<or> hd (Name (entry_of sector i)) = 0xE5 then Some i
        else free_entry sector entries (Suc i)
      else None)"
  by pat_completeness auto
termination by (relation "measure (\<lambda>(sector, entries, i). entries - i)") auto

declare free_entry.simps [simp del]

function free_in_cluster ::
  "'d drive \<Rightarrow> FATVolume \<Rightarrow> u32 \<Rightarrow> u32 \<Rightarrow> nat \<Rightarrow> 'd \<Rightarrow> (u32 option \<times> 'd) outcome" where
  "free_in_cluster D vol cluster firstSector s d =
     (if s < unat (SectorsPerCluster (Boot vol)) then
        obind (read_sector D vol (firstSector + of_nat s) d) (\<lambda>(sector, d1).
          case free_entry sector (sector_bytes vol div sizeof_FATDirectory) 0 of
            Some i \<Rightarrow> Some (Inr (Some (push_bit 16 cluster OR push_bit 8 (of_nat s) OR of_nat i), d1))
          | None \<Rightarrow> free_in_cluster D vol cluster firstSector (Suc s) d1)
      else Some (Inr (None, d)))"
  by pat_completeness auto
termination
  by (relation "measure (\<lambda>(D, vol, c, f, s, d). unat (SectorsPerCluster (Boot vol)) - s)") auto

declare free_in_cluster.simps [simp del]

partial_function (option) free_in_chain ::
  "'d drive \<Rightarrow> FATVolume \<Rightarrow> u32 \<Rightarrow> 'd \<Rightarrow> (u32 \<times> 'd) outcome" where
  "free_in_chain D vol cluster d =
     (if cluster < 0x0FFFFFF8 then
        obind (Some (FatFirstSectorForCluster vol cluster)) (\<lambda>firstSector.
        obind (free_in_cluster D vol cluster firstSector 0 d) (\<lambda>r.
          case fst r of
            Some l \<Rightarrow> Some (Inr (l, snd r))
          | None \<Rightarrow> obind (FatNextCluster D vol cluster (snd r)) (\<lambda>n. free_in_chain D vol (fst n) (snd n))))
      else Some (Inr (0, d)))"

definition FatFindFreeEntry :: "'d drive \<Rightarrow> FATVolume \<Rightarrow> u32 \<Rightarrow> 'd \<Rightarrow> (u32 \<times> 'd) outcome" where
  "FatFindFreeEntry D vol dirCluster d = free_in_chain D vol dirCluster d"

definition FatWriteDirectoryEntry ::
  "'d drive \<Rightarrow> FATVolume \<Rightarrow> u32 \<Rightarrow> FATDirectory \<Rightarrow> 'd \<Rightarrow> 'd outcome" where
  "FatWriteDirectoryEntry D vol location entry d =
     (let cluster = drop_bit 16 location;
          s = drop_bit 8 location AND 0xFF;
          index = location AND 0xFF
      in obind (Some (FatFirstSectorForCluster vol cluster)) (\<lambda>firstSector.
         obind (read_sector D vol (firstSector + s) d) (\<lambda>(sector, d1).
         obind (Some (put_bytes sector (unat index * sizeof_FATDirectory) (directory_bytes entry))) (\<lambda>sector1.
         WriteTo D (FatSectorToOffset vol (firstSector + s)) sector1 d1))))"

section \<open>Names and whole files\<close>

function convert_base :: "string \<Rightarrow> nat \<Rightarrow> nat \<Rightarrow> u8 list \<Rightarrow> (u8 list \<times> nat) result" where
  "convert_base path k n NameOut =
     rbind (cget path k) (\<lambda>c.
       if c \<noteq> NUL \<and> c \<noteq> CHR ''.'' \<and> n < 8 then
         convert_base path (Suc k) (Suc n) (NameOut[n := byte_of c])
       else Inr (NameOut, k))"
  by pat_completeness auto
termination by (relation "measure (\<lambda>(path, k, n, N). 8 - n)") auto

function convert_ext :: "string \<Rightarrow> nat \<Rightarrow> nat \<Rightarrow> u8 list \<Rightarrow> u8 list result" where
  "convert_ext path k e ExtOut =
     rbind (cget path k) (\<lambda>c.
       if c \<noteq> NUL \<and> e < 3 \<and> c \<noteq> CHR ''/'' then
         convert_ext path (Suc k) (Suc e) (ExtOut[e := byte_of c])
       else Inr ExtOut)"
  by pat_completeness auto
termination by (relation "measure (\<lambda>(path, k, e, X). 3 - e)") auto

declare convert_base.simps [simp del] convert_ext.simps [simp del]

definition FatConvert83 :: "string \<Rightarrow> (u8 list \<times> u8 list) result" where
  "FatConvert83 path =
     rbind (convert_base path 0 0 (replicate 8 0x20)) (\<lambda>(NameOut, k).
     rbind (cget path k) (\<lambda>c.
     rbind (convert_ext path (if c = CHR ''.'' then Suc k else k) 0 (replicate 3 0x20)) (\<lambda>ExtOut.
       Inr (NameOut, ExtOut))))"

definition FatConvertPaddedToNull :: "u8 list \<Rightarrow> u8 list" where
  "FatConvertPaddedToNull X = map (\<lambda>b. if b = 0x20 then 0 else b) X"

definition FatCreateEntry :: "string \<Rightarrow> u32 \<Rightarrow> u32 \<Rightarrow> u8 \<Rightarrow> FATDirectory result" where
  "FatCreateEntry nm firstCluster sz attributes =
     rbind (FatConvert83 nm) (\<lambda>(name83, ext). Inr
       (zero_directory\<lparr>Name := name83, Ext := ext, Flags := attributes,
          EntryFirstClusterLow := ucast (firstCluster AND 0xFFFF),
          EntryFirstClusterHigh := ucast (drop_bit 16 firstCluster AND 0xFFFF), Size := sz\<rparr>))"

definition FatWrite ::
  "'d drive \<Rightarrow> string \<Rightarrow> u8 list \<Rightarrow> u32 \<Rightarrow> FATVolume \<Rightarrow> FATDirectory option \<Rightarrow> 'd \<Rightarrow> (int \<times> 'd) outcome" where
  "FatWrite D path data sz vol Parent d =
     obind (FatWriteData D vol data sz d) (\<lambda>(firstCluster, d1).
       if firstCluster = 0 then Some (Inr (- 1, d1))
       else
         obind (Some (FatCreateEntry path firstCluster sz FAT_ARCHIVE)) (\<lambda>entry.
         obind (FatFindFreeEntry D vol (parent_cluster vol Parent) d1) (\<lambda>(location, d2).
           if location = 0 then Some (Inr (- 2, d2))
           else obind (FatWriteDirectoryEntry D vol location entry d2) (\<lambda>d3. Some (Inr (0, d3))))))"

function read_sectors ::
  "'d drive \<Rightarrow> FATVolume \<Rightarrow> u32 \<Rightarrow> nat \<Rightarrow> nat \<Rightarrow> u32 \<Rightarrow> u8 list \<Rightarrow> 'd \<Rightarrow> (nat \<times> u32 \<times> u8 list \<times> 'd) outcome" where
  "read_sectors D vol sector off p remaining Data d =
     (if off < unat (SectorsPerCluster (Boot vol)) \<and> 0 < remaining then
        obind (read_sector D vol (sector + of_nat off) d) (\<lambda>(Sector, d1).
        let bytes = ucast (BytesPerSector (Boot vol)) :: u32;
            chunk = (if remaining < bytes then remaining else bytes)
        in obind (Some (put_bytes Data p (take (unat chunk) Sector))) (\<lambda>Data1.
           read_sectors D vol sector (Suc off) (p + unat chunk) (remaining - chunk) Data1 d1))
      else Some (Inr (p, remaining, Data, d)))"
  by pat_completeness auto
termination
  by (relation "measure (\<lambda>(D, vol, s, off, p, r, x, d). unat (SectorsPerCluster (Boot vol)) - off)") auto

declare read_sectors.simps [simp del]

partial_function (option) read_chain ::
  "'d drive \<Rightarrow> FATVolume \<Rightarrow> u32 \<Rightarrow> nat \<Rightarrow> u32 \<Rightarrow> u8 list \<Rightarrow> 'd \<Rightarrow> (u8 list \<times> 'd) outcome" where
  "read_chain D vol cluster p remaining Data d =
     (if cluster < 0x0FFFFFF8 then
        obind (Some (FatFirstSectorForCluster vol cluster)) (\<lambda>sector.
        obind (read_sectors D vol sector 0 p remaining Data d) (\<lambda>r.
        obind (FatNextCluster D vol cluster (snd (snd (snd r)))) (\<lambda>n.
          read_chain D vol (fst n) (fst r) (fst (snd r)) (fst (snd (snd r))) (snd n))))
      else Some (Inr (Data, d)))"

text \<open>
  The file's bytes with the terminator, or \<open>None\<close> for \<^verbatim>\<open>NULL\<close>. The block of \<open>Size + 1\<close>
  bytes is a list; \<^verbatim>\<open>kalloc\<close> of 0 bytes returns \<^verbatim>\<open>NULL\<close>, at which
  \<^verbatim>\<open>memset\<close> panics, and \<^verbatim>\<open>memset\<close> counts with an \<^verbatim>\<open>int\<close>.
\<close>

definition FatRead ::
  "'d drive \<Rightarrow> u8 list \<Rightarrow> u8 list \<Rightarrow> FATVolume \<Rightarrow> FATDirectory option \<Rightarrow> 'd \<Rightarrow> (u8 list option \<times> 'd) outcome" where
  "FatRead D Nm Xt vol Parent d =
     (if not_a_directory Parent then Some (Inr (None, d))
      else
        obind (FatLocateInDir D Nm Xt vol Parent d) (\<lambda>(Location, d1).
          if \<not> Found Location then Some (Inr (None, d1))
          else
            let bytes = Size (Dir Location) + 1
            in if bytes = 0 then Some (Inl (Panic PANIC_NULL_POINTER_DEREFERENCE))
               else if 2 ^ 31 \<le> unat bytes then Some (Inl Fault)
               else obind (read_chain D vol (first_cluster (Dir Location)) 0 (Size (Dir Location))
                           (replicate (unat bytes) 0) d1) (\<lambda>(Data, d2). Some (Inr (Some Data, d2)))))"

section \<open>Volumes\<close>

text \<open>
  A FAT32 volume with two tables on a disk of \<open>cap\<close> bytes: \<open>N\<close> clusters, the data area at
  sector \<open>S\<close>. Every byte offset fits 32 bits, as \<^verbatim>\<open>FatSectorToOffset\<close> computes it.
\<close>

definition fat_volume :: "FATVolume \<Rightarrow> nat \<Rightarrow> nat \<Rightarrow> nat \<Rightarrow> bool" where
  "fat_volume vol cap N S \<longleftrightarrow>
     0 < sector_bytes vol \<and> 4 dvd sector_bytes vol \<and> 0 < unat (SectorsPerCluster (Boot vol)) \<and>
     FatIdentify vol = Inr FAT_32 \<and> FatClusterCount vol = Inr (of_nat N) \<and> FatFirstData vol = Inr (of_nat S) \<and>
     N + 2 < 0x0FFFFFF8 \<and>
     unat (ReservedSectors (Boot vol)) + 2 * unat (FatSize vol) \<le> S \<and>
     4 * (N + 2) \<le> unat (FatSize vol) * sector_bytes vol \<and>
     (unat (PartitionLBA vol) + S + N * unat (SectorsPerCluster (Boot vol))) * sector_bytes vol \<le> cap \<and>
     cap < 2 ^ 32"

definition sector_start :: "FATVolume \<Rightarrow> nat \<Rightarrow> nat" where
  "sector_start vol sec = (unat (PartitionLBA vol) + sec) * sector_bytes vol"

definition fat_start :: "FATVolume \<Rightarrow> nat" where
  "fat_start vol = sector_start vol (unat (ReservedSectors (Boot vol)))"

definition fat_bytes :: "FATVolume \<Rightarrow> nat" where
  "fat_bytes vol = unat (FatSize vol) * sector_bytes vol"

text \<open>The 32 bits of the entry of a cluster, and its 28 bits that link clusters.\<close>

definition raw_entry :: "FATVolume \<Rightarrow> (nat \<Rightarrow> u8) \<Rightarrow> nat \<Rightarrow> u32" where
  "raw_entry vol c n = le_join (range_of c (fat_start vol + 4 * n) 4)"

definition fat_link :: "FATVolume \<Rightarrow> (nat \<Rightarrow> u8) \<Rightarrow> nat \<Rightarrow> u32" where
  "fat_link vol c n = raw_entry vol c n AND 0x0FFFFFFF"

definition cluster_sector :: "FATVolume \<Rightarrow> nat \<Rightarrow> nat \<Rightarrow> nat" where
  "cluster_sector vol S n = S + (n - 2) * unat (SectorsPerCluster (Boot vol))"

definition cluster_size :: "FATVolume \<Rightarrow> nat" where
  "cluster_size vol = unat (SectorsPerCluster (Boot vol)) * sector_bytes vol"

definition cluster_start :: "FATVolume \<Rightarrow> nat \<Rightarrow> nat \<Rightarrow> nat" where
  "cluster_start vol S n = sector_start vol (cluster_sector vol S n)"

lemma unat_of_nat32: "n < 2 ^ 32 \<Longrightarrow> unat (of_nat n :: u32) = n"
  by (simp add: unat_of_nat)

lemma unat_ucast_small [simp]:
  "unat (ucast (w :: u16) :: u32) = unat w" "unat (ucast (b :: u8) :: u32) = unat b"
  "unat (ucast (v :: u32) :: u64) = unat v"
proof -
  have "unat w < 65536" "unat b < 256" "unat v < 2 ^ 32"
    using unsigned_less [of w] unsigned_less [of b] unsigned_less [of v] by simp_all
  then show "unat (ucast (w :: u16) :: u32) = unat w" "unat (ucast (b :: u8) :: u32) = unat b"
    "unat (ucast (v :: u32) :: u64) = unat v"
    by (simp_all add: unsigned_ucast_eq take_bit_nat_eq_self)
qed

lemma sector_offset:
  assumes "sector_start vol sec < 2 ^ 32" "0 < sector_bytes vol"
  shows "unat (FatSectorToOffset vol (of_nat sec)) = sector_start vol sec"
proof -
  have "unat (PartitionLBA vol) + sec \<le> sector_start vol sec"
    using assms(2) unfolding sector_start_def by (cases "sector_bytes vol") simp_all
  then have "unat (PartitionLBA vol) + sec < 2 ^ 32" using assms(1) by (rule le_less_trans)
  then have "unat (PartitionLBA vol + of_nat sec) = unat (PartitionLBA vol) + sec"
    by (simp add: unat_word_ariths unat_of_nat32)
  then show ?thesis
    using assms(1) by (simp add: FatSectorToOffset_def unat_word_ariths sector_start_def sector_bytes_def)
qed

lemma fat_place_eq:
  assumes "0 < sector_bytes vol" "4 * n < 2 ^ 32"
  shows "fat_place vol (of_nat n * 4) =
    Inr (of_nat (unat (ReservedSectors (Boot vol)) + 4 * n div sector_bytes vol), 4 * n mod sector_bytes vol)"
proof -
  let ?B = "ucast (BytesPerSector (Boot vol)) :: u32"
  have B: "?B \<noteq> 0" using assms(1) 
    by (metis sector_bytes_def unat_ucast_small(1) unat_0 less_numeral_extra(3))
  have n4: "unat (of_nat n * 4 :: u32) = 4 * n"
    using assms(2) by (simp add: unat_word_ariths unat_of_nat32 mult.commute)
  have "of_nat n * 4 div ?B = of_nat (4 * n div sector_bytes vol)"
    using n4 by (simp add: word_arith_nat_div sector_bytes_def)
  moreover have "unat (of_nat n * 4 mod ?B) = 4 * n mod sector_bytes vol"
    using n4 by (simp add: unat_mod sector_bytes_def)
  ultimately show ?thesis
    using B by (simp add: fat_place_def udiv_def FatFirstFat_def)
qed

definition same_disk :: "('d \<Rightarrow> bool) \<Rightarrow> ('d \<Rightarrow> nat \<Rightarrow> u8) \<Rightarrow> ('d \<Rightarrow> nat) \<Rightarrow> 'd \<Rightarrow> (nat \<Rightarrow> u8) \<Rightarrow> 'd \<Rightarrow> bool" where
  "same_disk good content capacity d c d' \<longleftrightarrow> good d' \<and> content d' = c \<and> capacity d' = capacity d"

text \<open>Where an entry of the table lies.\<close>

lemma fat_volume_bounds:
  assumes "fat_volume vol cap N S"
  shows "0 < sector_bytes vol" "4 dvd sector_bytes vol" "sector_start vol S \<le> cap" "cap < 2 ^ 32"
    "fat_start vol + 2 * fat_bytes vol \<le> sector_start vol S" "4 * (N + 2) \<le> fat_bytes vol"
    "0 < cluster_size vol"
proof -
  from assms show v: "0 < sector_bytes vol" "4 dvd sector_bytes vol" "cap < 2 ^ 32" "4 * (N + 2) \<le> fat_bytes vol"
    "0 < cluster_size vol"
    by (simp_all add: fat_volume_def fat_bytes_def cluster_size_def)
  let ?B = "sector_bytes vol" and ?L = "unat (PartitionLBA vol)"
  have "(?L + S + N * unat (SectorsPerCluster (Boot vol))) * ?B \<le> cap" using assms by (simp add: fat_volume_def)
  moreover have "(?L + S) * ?B \<le> (?L + S + N * unat (SectorsPerCluster (Boot vol))) * ?B" by (rule mult_le_mono1) simp
  ultimately show "sector_start vol S \<le> cap" unfolding sector_start_def by (rule order_trans [rotated])
  have "unat (ReservedSectors (Boot vol)) + 2 * unat (FatSize vol) \<le> S" using assms by (simp add: fat_volume_def)
  then have "(?L + (unat (ReservedSectors (Boot vol)) + 2 * unat (FatSize vol))) * ?B \<le> (?L + S) * ?B"
    by (intro mult_le_mono1) simp
  then show "fat_start vol + 2 * fat_bytes vol \<le> sector_start vol S"
    by (simp add: fat_start_def fat_bytes_def sector_start_def algebra_simps)
qed

lemma entry_place:
  assumes "fat_volume vol cap N S" "n < N + 2"
  defines "B \<equiv> sector_bytes vol" and "R \<equiv> unat (ReservedSectors (Boot vol))"
  shows "sector_start vol (R + 4 * n div B) + 4 * n mod B = fat_start vol + 4 * n"
    "4 * n mod B + 4 \<le> B" "4 * n div B < unat (FatSize vol)"
    "sector_start vol (R + 4 * n div B) + B \<le> fat_start vol + fat_bytes vol" "4 * n < 2 ^ 32"
proof -
  note v = fat_volume_bounds [OF assms(1)]
  have B: "0 < B" "4 dvd B" using v by (simp_all add: B_def)
  have "sector_start vol (R + 4 * n div B) = fat_start vol + 4 * n div B * B"
    unfolding fat_start_def sector_start_def B_def R_def by (simp only: add_mult_distrib add.assoc)
  then show "sector_start vol (R + 4 * n div B) + 4 * n mod B = fat_start vol + 4 * n"
    by (simp only: add.assoc div_mult_mod_eq)
  obtain k where k: "B = 4 * k" using B(2) by (rule dvdE)
  then have "4 * n mod B = 4 * (n mod k)" by (simp only: mult_mod_right)
  moreover have "n mod k < k" using k B(1) by simp
  ultimately show "4 * n mod B + 4 \<le> B" using k by simp
  have "4 * n < 4 * (N + 2)" using assms(2) by simp
  then have "4 * n < fat_bytes vol" using v(6) by (rule less_le_trans)
  then show div: "4 * n div B < unat (FatSize vol)"
    using B(1) by (simp add: fat_bytes_def B_def less_mult_imp_div_less)
  then have "(4 * n div B + 1) * B \<le> unat (FatSize vol) * B" by (intro mult_le_mono1) simp
  then show "sector_start vol (R + 4 * n div B) + B \<le> fat_start vol + fat_bytes vol"
    unfolding fat_start_def sector_start_def fat_bytes_def B_def R_def by (simp add: algebra_simps)
  have "fat_bytes vol \<le> cap" using v by linarith
  with \<open>4 * n < fat_bytes vol\<close> v(4) show "4 * n < 2 ^ 32" by linarith
qed

lemma range_of_sub:
  "off + n \<le> m \<Longrightarrow> take n (drop off (range_of c a m)) = range_of c (a + off) n"
  by (intro nth_equalityI) (simp_all add: add.assoc)

context byte_device
begin

abbreviation keeps :: "'d \<Rightarrow> 'd \<Rightarrow> bool" where
  "keeps d d' \<equiv> same_disk good content capacity d (content d) d'"

abbreviation changed :: "'d \<Rightarrow> (nat \<Rightarrow> u8) \<Rightarrow> 'd \<Rightarrow> bool" where
  "changed d c d' \<equiv> same_disk good content capacity d c d'"

lemma sector_bytes_less: "sector_bytes vol < 65536"
proof -
  have "unat (BytesPerSector (Boot vol)) < 2 ^ LENGTH(16)" by (rule unsigned_less)
  then show ?thesis by (simp add: sector_bytes_def)
qed

lemma read_sector_ok:
  assumes "good d" "0 < sector_bytes vol" "sector_start vol sec + sector_bytes vol \<le> capacity d" "capacity d < 2 ^ 32"
  shows "\<exists>d'. read_sector D vol (of_nat sec) d =
     Some (Inr (range_of (content d) (sector_start vol sec) (sector_bytes vol), d')) \<and> keeps d d'"
proof -
  have "unat (FatSectorToOffset vol (of_nat sec)) = sector_start vol sec"
    using assms(2-4) by (intro sector_offset) simp_all
  with read_ok [of d "sector_bytes vol" "FatSectorToOffset vol (of_nat sec)"] assms(1-3) sector_bytes_less show ?thesis
    by (auto simp: read_sector_def ReadFrom_def same_disk_def)
qed

lemma write_sector_ok:
  assumes "good d" "0 < sector_bytes vol" "sector_start vol sec + sector_bytes vol \<le> capacity d" "capacity d < 2 ^ 32"
    "length bs = sector_bytes vol"
  shows "\<exists>d'. WriteTo D (FatSectorToOffset vol (of_nat sec)) bs d = Some (Inr d') \<and>
     changed d (replace_range (content d) (sector_start vol sec) bs) d'"
proof -
  have "unat (FatSectorToOffset vol (of_nat sec)) = sector_start vol sec"
    using assms(2-4) by (intro sector_offset) simp_all
  moreover have "bs \<noteq> []" using assms(2,5) by auto
  ultimately show ?thesis
    using write_ok [of d bs "FatSectorToOffset vol (of_nat sec)"] assms sector_bytes_less [of vol]
    by (auto simp: WriteTo_def same_disk_def)
qed

text \<open>Reading the entry of a cluster.\<close>

lemma read_entry:
  assumes "good d" "fat_volume vol (capacity d) N S" "n < N + 2"
  defines "B \<equiv> sector_bytes vol" and "sec \<equiv> unat (ReservedSectors (Boot vol)) + 4 * n div sector_bytes vol"
  shows "fat_place vol (of_nat n * 4) = Inr (of_nat sec, 4 * n mod B) \<and>
     (\<exists>d'. read_sector D vol (of_nat sec) d = Some (Inr (range_of (content d) (sector_start vol sec) B, d')) \<and>
       keeps d d') \<and>
     get32 (range_of (content d) (sector_start vol sec) B) (4 * n mod B) = Inr (raw_entry vol (content d) n)"
proof (intro conjI)
  note v = fat_volume_bounds [OF assms(2)] and e = entry_place [OF assms(2,3)]
  show "fat_place vol (of_nat n * 4) = Inr (of_nat sec, 4 * n mod B)"
    using fat_place_eq [OF v(1) e(5)] by (simp add: sec_def B_def)
  show "\<exists>d'. read_sector D vol (of_nat sec) d = Some (Inr (range_of (content d) (sector_start vol sec) B, d')) \<and> keeps d d'"
    unfolding B_def using assms(1) v e(4) unfolding sec_def by (intro read_sector_ok) linarith+
  show "get32 (range_of (content d) (sector_start vol sec) B) (4 * n mod B) = Inr (raw_entry vol (content d) n)"
    using e(1,2) by (simp add: get32_in range_of_sub raw_entry_def sec_def B_def)
qed

lemma FatNextCluster32_ok:
  assumes "good d" "fat_volume vol (capacity d) N S" "n < N + 2"
  shows "\<exists>d'. FatNextCluster32 D vol (of_nat n) d = Some (Inr (fat_link vol (content d) n, d')) \<and> keeps d d'"
  using read_entry [OF assms] by (auto simp: FatNextCluster32_def fat_link_def)

lemma FatNextCluster_ok:
  assumes "good d" "fat_volume vol (capacity d) N S" "n < N + 2"
  shows "\<exists>d'. FatNextCluster D vol (of_nat n) d = Some (Inr (fat_link vol (content d) n, d')) \<and> keeps d d'"
  using FatNextCluster32_ok [OF assms] assms(2) by (simp add: FatNextCluster_def fat_volume_def)

end

text \<open>
  The contents after the entry of cluster \<open>n\<close> has been set: the 28 bits of the entry are the
  value, its upper four bits stay, the other entries and everything outside the two tables stay,
  and the second table has the bytes of the first in the sector that was written.
\<close>

definition entry_set :: "FATVolume \<Rightarrow> nat \<Rightarrow> (nat \<Rightarrow> u8) \<Rightarrow> nat \<Rightarrow> u32 \<Rightarrow> (nat \<Rightarrow> u8) \<Rightarrow> bool" where
  "entry_set vol N c n v c' \<longleftrightarrow>
     raw_entry vol c' n = (raw_entry vol c n AND 0xF0000000) OR (v AND 0x0FFFFFFF) \<and>
     (\<forall>m < N + 2. m \<noteq> n \<longrightarrow> raw_entry vol c' m = raw_entry vol c m) \<and>
     (\<forall>a. a < fat_start vol \<or> fat_start vol + 2 * fat_bytes vol \<le> a \<longrightarrow> c' a = c a) \<and>
     (\<forall>k < 4. c' (fat_start vol + fat_bytes vol + 4 * n + k) = c' (fat_start vol + 4 * n + k))"

lemma nibble_split:
  "(x AND 0xF0000000) OR (v AND 0x0FFFFFFF) AND 0x0FFFFFFF = (x AND 0xF0000000) OR (v AND 0x0FFFFFFF)"
  "((x AND 0xF0000000) OR (v AND 0x0FFFFFFF)) AND 0x0FFFFFFF = v AND 0x0FFFFFFF" for x v :: u32
  by (simp_all add: bit.conj_disj_distrib2 and.assoc)

lemma entry_set_link:
  "entry_set vol N c n v c' \<Longrightarrow> fat_link vol c' n = v AND 0x0FFFFFFF"
  "entry_set vol N c n v c' \<Longrightarrow> m < N + 2 \<Longrightarrow> m \<noteq> n \<Longrightarrow> fat_link vol c' m = fat_link vol c m"
  by (simp_all add: entry_set_def fat_link_def nibble_split)

lemma entry_set_two_sectors:
  assumes vol: "fat_volume vol cap N S" and n: "n < N + 2"
    and A: "A = sector_start vol (unat (ReservedSectors (Boot vol)) + 4 * n div sector_bytes vol)"
    and e: "e = 4 * n mod sector_bytes vol"
    and s: "sector = range_of c A (sector_bytes vol)"
    and s1: "put_bytes sector e (le_split 4 w) = Inr sector1"
    and w: "w = (raw_entry vol c n AND 0xF0000000) OR (v AND 0x0FFFFFFF)"
  shows "entry_set vol N c n v (replace_range (replace_range c A sector1) (A + fat_bytes vol) sector1)"
proof -
  let ?B = "sector_bytes vol" and ?F = "fat_bytes vol" and ?f = "fat_start vol"
  let ?c' = "replace_range (replace_range c A sector1) (A + ?F) sector1"
  note v = fat_volume_bounds [OF vol] and p = entry_place [OF vol n]
  have Ae: "A + e = ?f + 4 * n" using p(1) by (simp add: A e)
  have eB: "e + 4 \<le> ?B" using p(2) by (simp add: e)
  have AB: "A + ?B \<le> ?f + ?F" using p(4) by (simp add: A)
  have fA: "?f \<le> A" by (simp add: A fat_start_def sector_start_def)
  have len: "length sector1 = ?B" using put_bytes_length [OF s1] s by simp
  have s1n: "sector1 ! j = (if e \<le> j \<and> j < e + 4 then le_split 4 w ! (j - e) else c (A + j))" if "j < ?B" for j
    using put_bytes_nth [OF s1, of j] that s by simp
  have first: "?c' a = replace_range c (?f + 4 * n) (le_split 4 w) a" if "a < ?f + ?F" for a
  proof (cases "A \<le> a \<and> a < A + ?B")
    case True
    then have j: "a - A < ?B" "A + (a - A) = a" by auto
    have "\<not> (A + ?F \<le> a)" using that fA by linarith
    moreover have "(e \<le> a - A \<and> a - A < e + 4) \<longleftrightarrow> (?f + 4 * n \<le> a \<and> a < ?f + 4 * n + 4)"
      using Ae True by linarith
    moreover have "a - A - e = a - (?f + 4 * n)" using Ae by simp
    ultimately show ?thesis using True len s1n [OF j(1)] j(2) by (simp add: replace_range_def)
  next
    case False
    have "\<not> (A + ?F \<le> a)" using that fA by linarith
    moreover have "\<not> (?f + 4 * n \<le> a \<and> a < ?f + 4 * n + 4)" using False Ae eB by linarith
    ultimately show ?thesis using False len by (auto simp: replace_range_def)
  qed
  have in_first: "?f + 4 * m + k < ?f + ?F" if "m < N + 2" "k < 4" for m k
    using that v(6) by arith
  have rng: "range_of ?c' (?f + 4 * m) 4 = range_of (replace_range c (?f + 4 * n) (le_split 4 w)) (?f + 4 * m) 4"
    if "m < N + 2" for m
    using first in_first [OF that] by (intro nth_equalityI) simp_all
  have "raw_entry vol ?c' n = w"
    using rng [OF n] by (simp add: raw_entry_def le_join_split)
  moreover have "raw_entry vol ?c' m = raw_entry vol c m" if "m < N + 2" "m \<noteq> n" for m
  proof -
    have "m < n \<or> n < m" using that(2) by linarith
    then have "?f + 4 * m + 4 \<le> ?f + 4 * n \<or> ?f + 4 * n + length (le_split 4 w) \<le> ?f + 4 * m" by auto
    then show ?thesis using rng [OF that(1)] range_replace_other [of "?f + 4 * m" 4 "?f + 4 * n" "le_split 4 w" c]
      by (simp add: raw_entry_def)
  qed
  moreover have "?c' a = c a" if "a < ?f \<or> ?f + 2 * ?F \<le> a" for a
  proof -
    have "\<not> (A \<le> a \<and> a < A + ?B)" "\<not> (A + ?F \<le> a \<and> a < A + ?F + ?B)" using that fA AB by linarith+
    then show ?thesis using len by (auto simp: replace_range_def)
  qed
  moreover have "?c' (?f + ?F + 4 * n + k) = ?c' (?f + 4 * n + k)" if "k < 4" for k
  proof -
    have a: "?f + 4 * n + k = A + (e + k)" "?f + ?F + 4 * n + k = A + ?F + (e + k)" using Ae by linarith+
    have "e + k < ?B" "\<not> (A + ?F \<le> A + (e + k))" using eB that AB fA by linarith+
    then show ?thesis unfolding a using len by (simp add: replace_range_def)
  qed
  ultimately show ?thesis by (simp add: entry_set_def w)
qed

context byte_device
begin

lemma FatSetCluster_ok:
  assumes "good d" "fat_volume vol (capacity d) N S" "n < N + 2"
  shows "\<exists>c' d'. FatSetCluster D vol (of_nat n) v d = Some (Inr d') \<and> changed d c' d' \<and>
     entry_set vol N (content d) n v c'"
proof -
  let ?B = "sector_bytes vol" and ?F = "fat_bytes vol"
  define sec where "sec = unat (ReservedSectors (Boot vol)) + 4 * n div ?B"
  let ?A = "sector_start vol sec" and ?e = "4 * n mod ?B"
  note vb = fat_volume_bounds [OF assms(2)] and p = entry_place [OF assms(2,3), folded sec_def]
  let ?s = "range_of (content d) ?A ?B"
  let ?w = "(raw_entry vol (content d) n AND 0xF0000000) OR (v AND 0x0FFFFFFF)"
  obtain d1 where r: "fat_place vol (of_nat n * 4) = Inr (of_nat sec, ?e)"
    "read_sector D vol (of_nat sec) d = Some (Inr (?s, d1))" "keeps d d1"
    "get32 ?s ?e = Inr (raw_entry vol (content d) n)"
    using read_entry [OF assms] by (auto simp: sec_def)
  obtain s1 where s1: "put_bytes ?s ?e (le_split 4 ?w) = Inr s1" using p(2) by simp
  have len: "length s1 = ?B" using put_bytes_length [OF s1] by simp
  have cap: "?A + ?B \<le> capacity d" "?A + ?F + ?B \<le> capacity d" using p(4) vb(3,5) by linarith+
  have d1: "good d1" "content d1 = content d" "capacity d1 = capacity d" using r(3) by (simp_all add: same_disk_def)
  obtain d2 where w1: "WriteTo D (FatSectorToOffset vol (of_nat sec)) s1 d1 = Some (Inr d2)"
    "changed d1 (replace_range (content d1) ?A s1) d2"
    using write_sector_ok [OF d1(1) vb(1) _ _ len, of sec] cap vb(4) d1 by auto
  have d2: "good d2" "content d2 = replace_range (content d) ?A s1" "capacity d2 = capacity d"
    using w1(2) d1 by (simp_all add: same_disk_def)
  have F: "sector_start vol (sec + unat (FatSize vol)) = ?A + ?F"
    by (simp add: sector_start_def fat_bytes_def add_mult_distrib)
  have "FatSectorToOffset vol (of_nat sec + FatSize vol) = FatSectorToOffset vol (of_nat (sec + unat (FatSize vol)))"
    by simp
  moreover obtain d3 where w2: "WriteTo D (FatSectorToOffset vol (of_nat (sec + unat (FatSize vol)))) s1 d2 = Some (Inr d3)"
    "changed d2 (replace_range (content d2) (?A + ?F) s1) d3"
    using write_sector_ok [OF d2(1) vb(1) _ _ len, of "sec + unat (FatSize vol)"] cap vb(4) d2(3) F by auto
  ultimately have "FatSetCluster D vol (of_nat n) v d = Some (Inr d3)"
    using r s1 w1(1) by (simp add: FatSetCluster_def put32_def)
  moreover have "changed d (replace_range (replace_range (content d) ?A s1) (?A + ?F) s1) d3"
    using w2(2) d2 by (simp add: same_disk_def)
  moreover have "entry_set vol N (content d) n v (replace_range (replace_range (content d) ?A s1) (?A + ?F) s1)"
    by (rule entry_set_two_sectors [OF assms(2,3) _ refl refl s1 refl]) (simp add: sec_def)
  ultimately show ?thesis by blast
qed

text \<open>The search for a free cluster.\<close>

lemma find_free_cluster_ok:
  assumes "good d" "fat_volume vol (capacity d) N S" "i \<le> N + 2"
  shows "\<exists>r d'. find_free_cluster D vol (of_nat N + 2) (of_nat i) d = Some (Inr (r, d')) \<and> keeps d d' \<and>
     (if \<exists>k. i \<le> k \<and> k < N + 2 \<and> fat_link vol (content d) k = 0
      then r = of_nat (LEAST k. i \<le> k \<and> fat_link vol (content d) k = 0) else r = 0)"
  using assms
proof (induction "N + 2 - i" arbitrary: i d)
  case 0
  then have i: "i = N + 2" by simp
  then have "(of_nat i :: u32) = of_nat N + 2" by simp
  then have "find_free_cluster D vol (of_nat N + 2) (of_nat i) d = Some (Inr (0, d))"
    by (subst find_free_cluster.simps) simp
  then show ?case using "0.prems" i by (auto simp: same_disk_def)
next
  case (Suc x)
  then have i: "i < N + 2" by simp
  have "N + 2 < 2 ^ 32" using Suc.prems(2) by (simp add: fat_volume_def)
  then have "unat (of_nat i :: u32) = i" "unat (of_nat N + 2 :: u32) = N + 2"
    using i by (simp_all add: unat_of_nat32 unat_word_ariths)
  then have lt: "(of_nat i :: u32) < of_nat N + 2" using i by (simp add: word_less_nat_alt)
  obtain d1 where r: "read_sector D vol (fst (projr (fat_place vol (of_nat i * 4)))) d =
      Some (Inr (range_of (content d) (sector_start vol (unat (ReservedSectors (Boot vol)) + 4 * i div sector_bytes vol))
        (sector_bytes vol), d1))" "keeps d d1"
    using read_entry [OF Suc.prems(1,2) i] by auto
  have step: "find_free_cluster D vol (of_nat N + 2) (of_nat i) d =
      (if fat_link vol (content d) i = 0 then Some (Inr (of_nat i, d1))
       else find_free_cluster D vol (of_nat N + 2) (of_nat (Suc i)) d1)"
    using read_entry [OF Suc.prems(1,2) i] r lt
    by (subst find_free_cluster.simps) (simp add: fat_link_def add.commute)
  show ?case
  proof (cases "fat_link vol (content d) i = 0")
    case True
    then have "(LEAST k. i \<le> k \<and> fat_link vol (content d) k = 0) = i" by (intro Least_equality) auto
    with True step r(2) i show ?thesis by auto
  next
    case False
    have eq: "i \<le> k \<and> fat_link vol (content d) k = 0 \<longleftrightarrow> Suc i \<le> k \<and> fat_link vol (content d) k = 0" for k
      using False by (auto simp: Suc_le_eq le_less)
    have d1: "good d1" "content d1 = content d" "capacity d1 = capacity d" using r(2) by (simp_all add: same_disk_def)
    have "x = N + 2 - Suc i" using Suc.hyps(2) by simp
    from Suc.hyps(1) [OF this d1(1)] d1 Suc.prems(2) i obtain r' d' where
      "find_free_cluster D vol (of_nat N + 2) (of_nat (Suc i)) d1 = Some (Inr (r', d'))" "keeps d1 d'"
      "if \<exists>k. Suc i \<le> k \<and> k < N + 2 \<and> fat_link vol (content d) k = 0
       then r' = of_nat (LEAST k. Suc i \<le> k \<and> fat_link vol (content d) k = 0) else r' = 0" by auto
    moreover have "(\<exists>k. Suc i \<le> k \<and> k < N + 2 \<and> fat_link vol (content d) k = 0) =
        (\<exists>k. i \<le> k \<and> k < N + 2 \<and> fat_link vol (content d) k = 0)" using eq by blast
    ultimately show ?thesis using step False d1 unfolding eq by (auto simp: same_disk_def)
  qed
qed

end

section \<open>Files as chains of clusters\<close>

fun fat_chain :: "nat \<Rightarrow> (nat \<Rightarrow> u32) \<Rightarrow> nat list \<Rightarrow> bool" where
  "fat_chain N l [] \<longleftrightarrow> False"
| "fat_chain N l [n] \<longleftrightarrow> 2 \<le> n \<and> n < N + 2 \<and> 0x0FFFFFF8 \<le> l n"
| "fat_chain N l (n # m # ns) \<longleftrightarrow> 2 \<le> n \<and> n < N + 2 \<and> l n = of_nat m \<and> fat_chain N l (m # ns)"

definition cluster_data :: "FATVolume \<Rightarrow> nat \<Rightarrow> (nat \<Rightarrow> u8) \<Rightarrow> nat \<Rightarrow> u8 list" where
  "cluster_data vol S c n = range_of c (cluster_start vol S n) (cluster_size vol)"

definition file_bytes :: "FATVolume \<Rightarrow> nat \<Rightarrow> (nat \<Rightarrow> u8) \<Rightarrow> nat list \<Rightarrow> u8 list" where
  "file_bytes vol S c ns = concat (map (cluster_data vol S c) ns)"

definition free_clusters :: "FATVolume \<Rightarrow> nat \<Rightarrow> (nat \<Rightarrow> u8) \<Rightarrow> nat set" where
  "free_clusters vol N c = {n. 2 \<le> n \<and> n < N + 2 \<and> fat_link vol c n = 0}"

definition whole_sectors :: "nat \<Rightarrow> nat \<Rightarrow> nat" where
  "whole_sectors B n = (n + B - 1) div B * B"

lemma fat_chain_in: "fat_chain N l ns \<Longrightarrow> n \<in> set ns \<Longrightarrow> 2 \<le> n \<and> n < N + 2"
  by (induction N l ns rule: fat_chain.induct) auto

lemma fat_chain_cong:
  "(\<And>n. n \<in> set ns \<Longrightarrow> l' n = l n) \<Longrightarrow> fat_chain N l' ns = fat_chain N l ns"
  by (induction N l ns rule: fat_chain.induct) auto

lemma fat_chain_snoc:
  "fat_chain N l ns \<Longrightarrow> distinct ns \<Longrightarrow> 2 \<le> n \<Longrightarrow> n < N + 2 \<Longrightarrow> (\<And>m. m \<in> set ns \<Longrightarrow> m \<noteq> last ns \<Longrightarrow> l' m = l m) \<Longrightarrow>
     l' (last ns) = of_nat n \<Longrightarrow> l' n = 0x0FFFFFF8 \<Longrightarrow> fat_chain N l' (ns @ [n])"
proof (induction N l ns rule: fat_chain.induct)
  case (3 N l k m ns)
  have "k \<noteq> last (m # ns)" using 3(3) last_in_set [of "m # ns"] by auto
  then have "l' k = l k" using 3(6) [of k] by simp
  moreover have "fat_chain N l' ((m # ns) @ [n])"
    using 3(2-8) by (intro "3.IH") auto
  ultimately show ?case using 3(2) by simp
qed simp_all

lemma fat_chain_link:
  assumes "fat_chain N l ns" "n \<in> set ns" "N + 2 < 0x0FFFFFF8"
  shows "l n \<noteq> 0"
  using assms
proof (induction N l ns rule: fat_chain.induct)
  case (3 N l k m ns)
  have "2 \<le> m \<and> m < N + 2" using fat_chain_in [of N l "m # ns" m] 3(2) by simp
  then have "unat (of_nat m :: u32) = m" using 3(4) by (intro unat_of_nat32) simp
  then have "(of_nat m :: u32) \<noteq> 0" using \<open>2 \<le> m \<and> m < N + 2\<close> by auto
  with 3 show ?case by auto
qed (auto simp: word_le_nat_alt)

lemma whole_sectors_step:
  assumes "0 < B"
  shows "B \<le> w \<Longrightarrow> whole_sectors B w = B + whole_sectors B (w - B)"
    "0 < w \<Longrightarrow> w < B \<Longrightarrow> whole_sectors B w = B" "whole_sectors B 0 = 0"
    "w \<le> whole_sectors B w"
proof -
  show "whole_sectors B w = B + whole_sectors B (w - B)" if "B \<le> w"
  proof -
    have e: "w + B - 1 = (w - B + B - 1) + B" using that assms by simp
    have "(w - B + B - 1 + B) div B = (w - B + B - 1) div B + 1" using assms by (intro div_add_self2) simp
    then show ?thesis unfolding whole_sectors_def e by simp
  qed
  show "0 < w \<Longrightarrow> w < B \<Longrightarrow> whole_sectors B w = B"
  proof -
    assume "0 < w" "w < B"
    then have e: "w + B - 1 = (w - 1) + B" and lt: "w - 1 < B" by simp_all
    have "(w - 1 + B) div B = (w - 1) div B + 1" using assms by (intro div_add_self2) simp
    with lt show "whole_sectors B w = B" unfolding whole_sectors_def e by simp
  qed
  show "whole_sectors B 0 = 0" using assms by (simp add: whole_sectors_def)
  have "w + B - 1 = (w + B - 1) div B * B + (w + B - 1) mod B" "(w + B - 1) mod B < B" using assms by simp_all
  then show "w \<le> whole_sectors B w" unfolding whole_sectors_def by linarith
qed

lemma sector_start_Suc: "sector_start vol (Suc n) = sector_start vol n + sector_bytes vol"
  by (simp add: sector_start_def)

lemma sector_start_add: "sector_start vol (n + k) = sector_start vol n + k * sector_bytes vol"
  by (simp add: sector_start_def add_mult_distrib)

lemma cluster_ranges:
  assumes "fat_volume vol cap N S" "2 \<le> n" "n < N + 2"
  shows "cluster_start vol S n + cluster_size vol \<le> cap" "sector_start vol S \<le> cluster_start vol S n"
    "cluster_start vol S n = sector_start vol S + (n - 2) * cluster_size vol"
    "sector_start vol (cluster_sector vol S n + unat (SectorsPerCluster (Boot vol))) = cluster_start vol S n + cluster_size vol"
    "cluster_sector vol S n < 2 ^ 32"
proof -
  let ?K = "unat (SectorsPerCluster (Boot vol))" and ?B = "sector_bytes vol" and ?L = "unat (PartitionLBA vol)"
  show st: "cluster_start vol S n = sector_start vol S + (n - 2) * cluster_size vol"
    by (simp add: cluster_start_def cluster_sector_def cluster_size_def sector_start_add)
  then show "sector_start vol S \<le> cluster_start vol S n" by simp
  show "sector_start vol (cluster_sector vol S n + ?K) = cluster_start vol S n + cluster_size vol"
    by (simp add: cluster_start_def cluster_size_def sector_start_add)
  have "n - 2 + 1 \<le> N" using assms(2,3) by arith
  then have "(n - 2 + 1) * cluster_size vol \<le> N * cluster_size vol" by (rule mult_le_mono1)
  moreover have "(?L + S + N * ?K) * ?B \<le> cap" using assms(1) by (simp add: fat_volume_def)
  then have "sector_start vol S + N * cluster_size vol \<le> cap"
    by (simp add: sector_start_def cluster_size_def add_mult_distrib)
  ultimately show le: "cluster_start vol S n + cluster_size vol \<le> cap" using st by (simp add: add_mult_distrib)
  have "cluster_sector vol S n \<le> cluster_start vol S n"
    unfolding cluster_start_def sector_start_def
    using fat_volume_bounds(1) [OF assms(1)] by (cases ?B) auto
  then show "cluster_sector vol S n < 2 ^ 32"
    using le fat_volume_bounds(4) [OF assms(1)] by linarith
qed

lemma clusters_apart:
  assumes "2 \<le> m" "2 \<le> n" "m \<noteq> n" "fat_volume vol cap N S" "m < N + 2" "n < N + 2"
  shows "cluster_start vol S m + cluster_size vol \<le> cluster_start vol S n \<or>
     cluster_start vol S n + cluster_size vol \<le> cluster_start vol S m"
proof -
  have *: "cluster_start vol S a + cluster_size vol \<le> cluster_start vol S b"
    if "2 \<le> a" "a < b" "b < N + 2" for a b
  proof -
    have "(a - 2 + 1) * cluster_size vol \<le> (b - 2) * cluster_size vol" using that by (intro mult_le_mono1) arith
    then show ?thesis using cluster_ranges(3) [OF assms(4)] that by (simp add: add_mult_distrib)
  qed
  show ?thesis using *[of m n] *[of n m] assms by arith
qed

lemma FatFirstSectorForCluster_ok:
  assumes "fat_volume vol cap N S" "2 \<le> n" "n < N + 2"
  shows "FatFirstSectorForCluster vol (of_nat n) = Inr (of_nat (cluster_sector vol S n))"
proof -
  have n: "(of_nat n - 2 :: u32) = of_nat (n - 2)" using assms(2) by simp
  have "(of_nat (cluster_sector vol S n) :: u32) = of_nat (n - 2) * ucast (SectorsPerCluster (Boot vol)) + of_nat S"
    by (simp only: cluster_sector_def of_nat_add of_nat_mult of_nat_unat add.commute)
  moreover have "FatFirstData vol = Inr (of_nat S)" using assms(1) by (simp only: fat_volume_def)
  ultimately show ?thesis unfolding FatFirstSectorForCluster_def n by (simp only: rbind_simps)
qed

lemma range_of_append: "range_of c a (m + n) = range_of c a m @ range_of c (a + m) n"
  by (intro nth_equalityI) (auto simp: nth_append add.assoc)

lemma range_of_cong: "(\<And>x. a \<le> x \<Longrightarrow> x < a + n \<Longrightarrow> c x = c' x) \<Longrightarrow> range_of c a n = range_of c' a n"
  by (intro nth_equalityI) simp_all

text \<open>How the two word counters of the loops read as numbers.\<close>

lemma min_word:
  assumes "w < 2 ^ 32" "B < 2 ^ 32"
  shows "(if (of_nat w :: u32) < of_nat B then of_nat w else of_nat B) = (of_nat (min w B) :: u32)"
    "(of_nat w :: u32) - of_nat (min w B) = of_nat (w - min w B)"
    "unat (of_nat (min w B) :: u32) = min w B"
proof -
  have "unat (of_nat w :: u32) = w" "unat (of_nat B :: u32) = B" using assms by (simp_all add: unat_of_nat32)
  then show "(if (of_nat w :: u32) < of_nat B then of_nat w else of_nat B) = (of_nat (min w B) :: u32)"
    by (simp add: word_less_nat_alt min_def)
  show "(of_nat w :: u32) - of_nat (min w B) = of_nat (w - min w B)" by (subst of_nat_diff) simp_all
  show "unat (of_nat (min w B) :: u32) = min w B" using assms by (intro unat_of_nat32) simp
qed

context byte_device
begin

lemma write_sectors_ok:
  assumes "good d" "0 < sector_bytes vol" "capacity d < 2 ^ 32"
    and "i \<le> unat (SectorsPerCluster (Boot vol))"
    and "sector_start vol (fs + unat (SectorsPerCluster (Boot vol))) \<le> capacity d"
    and "w \<le> (unat (SectorsPerCluster (Boot vol)) - i) * sector_bytes vol" "w \<le> r" "r < 2 ^ 32"
    and "p + whole_sectors (sector_bytes vol) w \<le> length data"
  shows "\<exists>c' d'. write_sectors D vol data (of_nat fs) (of_nat i) p (of_nat w) (of_nat r) d =
       Some (Inr (p + w, of_nat (r - w), d')) \<and> changed d c' d' \<and>
     range_of c' (sector_start vol (fs + i)) w = take w (drop p data) \<and>
     (\<forall>a. a < sector_start vol (fs + i) \<or> sector_start vol (fs + unat (SectorsPerCluster (Boot vol))) \<le> a \<longrightarrow>
        c' a = content d a)"
  using assms
proof (induction "unat (SectorsPerCluster (Boot vol)) - i" arbitrary: i p w r d)
  case 0
  then have "w = 0" by simp
  then show ?case using "0.prems" by (simp add: write_sectors.simps [of D vol] same_disk_def range_of_def)
next
  case (Suc k)
  let ?K = "unat (SectorsPerCluster (Boot vol))" and ?B = "sector_bytes vol"
  have i: "i < ?K" using Suc.hyps(2) by simp
  have K: "?K < 256" using unsigned_less [of "SectorsPerCluster (Boot vol)"] by simp
  have "unat (BytesPerSector (Boot vol)) < 65536" using unsigned_less [of "BytesPerSector (Boot vol)"] by simp
  then have B32: "?B < 2 ^ 32" by (simp add: sector_bytes_def)
  have w32: "w < 2 ^ 32" using Suc.prems by simp
  show ?case
  proof (cases "w = 0")
    case True
    then show ?thesis using Suc.prems by (simp add: write_sectors.simps [of D vol] same_disk_def range_of_def)
  next
    case False
    let ?x = "min w ?B"
    have ui: "unat (of_nat i :: u32) = i" using i K by (intro unat_of_nat32) simp
    have lt: "(of_nat i :: u32) < ucast (SectorsPerCluster (Boot vol))" using i ui by (simp add: word_less_nat_alt)
    have "unat (of_nat w :: u32) = w" using w32 by (rule unat_of_nat32)
    then have w0: "(0 :: u32) < of_nat w" using False by (simp add: word_less_nat_alt)
    have xB: "whole_sectors ?B w = ?B + whole_sectors ?B (w - ?x)"
    proof (cases "?B \<le> w")
      case True
      then show ?thesis using whole_sectors_step(1) [OF Suc.prems(2) True] by (simp add: min_def)
    next
      case b: False
      then show ?thesis using whole_sectors_step(2) [OF Suc.prems(2), of w] whole_sectors_step(3) [OF Suc.prems(2)] False
        by (simp add: min_def)
    qed
    have buf: "get_bytes data p ?B = Inr (take ?B (drop p data))" using Suc.prems(9) xB by simp
    have blen: "length (take ?B (drop p data)) = ?B" using Suc.prems(9) xB by simp
    have ms: "sector_start vol (fs + i) + ?B \<le> sector_start vol (fs + ?K)"
    proof -
      have "(i + 1) * ?B \<le> ?K * ?B" using i by (intro mult_le_mono1) simp
      then show ?thesis by (simp add: sector_start_add)
    qed
    then have "sector_start vol (fs + i) + ?B \<le> capacity d" using Suc.prems(5) by linarith
    from write_sector_ok [OF Suc.prems(1,2) this Suc.prems(3) blen] obtain d1 where
      wr: "WriteTo D (FatSectorToOffset vol (of_nat (fs + i))) (take ?B (drop p data)) d = Some (Inr d1)"
      "changed d (replace_range (content d) (sector_start vol (fs + i)) (take ?B (drop p data))) d1" by auto
    then have d1: "good d1" "capacity d1 = capacity d"
      "content d1 = replace_range (content d) (sector_start vol (fs + i)) (take ?B (drop p data))"
      by (simp_all add: same_disk_def)
    have ucast_B: "(ucast (BytesPerSector (Boot vol)) :: u32) = of_nat ?B" by (simp add: sector_bytes_def)
    have "write_sectors D vol data (of_nat fs) (of_nat i) p (of_nat w) (of_nat r) d =
        write_sectors D vol data (of_nat fs) (of_nat (Suc i)) (p + ?x) (of_nat (w - ?x)) (of_nat (r - ?x)) d1"
    proof -
      have "(of_nat r :: u32) - of_nat ?x = of_nat (r - ?x)" using Suc.prems(7) by (subst of_nat_diff) simp_all
      then show ?thesis
        using lt w0 buf wr(1) min_word [OF w32 B32]
        by (subst write_sectors.simps) (simp add: ucast_B Let_def add.commute)
    qed
    moreover have "\<exists>c' d'. write_sectors D vol data (of_nat fs) (of_nat (Suc i)) (p + ?x) (of_nat (w - ?x)) (of_nat (r - ?x)) d1 =
         Some (Inr (p + ?x + (w - ?x), of_nat (r - ?x - (w - ?x)), d')) \<and> changed d1 c' d' \<and>
       range_of c' (sector_start vol (fs + Suc i)) (w - ?x) = take (w - ?x) (drop (p + ?x) data) \<and>
       (\<forall>a. a < sector_start vol (fs + Suc i) \<or> sector_start vol (fs + ?K) \<le> a \<longrightarrow> c' a = content d1 a)"
    proof (rule Suc.hyps(1))
      show "k = ?K - Suc i" using Suc.hyps(2) by simp
      show "sector_start vol (fs + ?K) \<le> capacity d1" "capacity d1 < 2 ^ 32" using d1 Suc.prems by simp_all
      have "(?K - i) * ?B = ?B + (?K - Suc i) * ?B" using i by (simp add: Suc_diff_Suc [symmetric])
      then show "w - ?x \<le> (?K - Suc i) * ?B" using Suc.prems(6) by linarith
      show "w - ?x \<le> r - ?x" "r - ?x < 2 ^ 32" using Suc.prems by simp_all
      show "p + ?x + whole_sectors ?B (w - ?x) \<le> length data"
        using Suc.prems(9) xB min.cobounded2 [of w ?B] by linarith
    qed (use d1 Suc.prems i in simp_all)
    ultimately obtain c' d' where rec: "write_sectors D vol data (of_nat fs) (of_nat i) p (of_nat w) (of_nat r) d =
         Some (Inr (p + w, of_nat (r - w), d'))" "changed d1 c' d'"
       "range_of c' (sector_start vol (fs + Suc i)) (w - ?x) = take (w - ?x) (drop (p + ?x) data)"
       "\<forall>a. a < sector_start vol (fs + Suc i) \<or> sector_start vol (fs + ?K) \<le> a \<longrightarrow> c' a = content d1 a"
      using Suc.prems(7) by auto
    have ss: "sector_start vol (fs + Suc i) = sector_start vol (fs + i) + ?B"
      using sector_start_Suc [of vol "fs + i"] by simp
    have "range_of c' (sector_start vol (fs + i)) ?x = range_of (content d1) (sector_start vol (fs + i)) ?x"
      using rec(4) ss by (intro range_of_cong) auto
    also have "\<dots> = take ?x (drop p data)"
      using blen by (intro nth_equalityI) (auto simp: d1(3) replace_range_def)
    finally have "range_of c' (sector_start vol (fs + i)) ?x = take ?x (drop p data)" .
    moreover have "range_of c' (sector_start vol (fs + i) + ?x) (w - ?x) = take (w - ?x) (drop (p + ?x) data)"
    proof (cases "?B \<le> w")
      case True
      then have "?x = ?B" by simp
      then show ?thesis using rec(3) ss by simp
    qed (simp add: range_of_def)
    ultimately have "range_of c' (sector_start vol (fs + i)) w = take w (drop p data)"
      using range_of_append [of c' "sector_start vol (fs + i)" ?x "w - ?x"] take_add [of ?x "w - ?x" "drop p data"]
      by (simp add: add.commute)
    moreover have "c' a = content d a" if "a < sector_start vol (fs + i) \<or> sector_start vol (fs + ?K) \<le> a" for a
    proof -
      have "c' a = content d1 a" using rec(4) that ss by auto
      moreover have "\<not> (sector_start vol (fs + i) \<le> a \<and> a < sector_start vol (fs + i) + ?B)" using that ms by auto
      ultimately show ?thesis using blen by (auto simp: d1(3) replace_range_def)
    qed
    moreover have "changed d c' d'" using rec(2) d1 by (simp add: same_disk_def)
    ultimately show ?thesis using rec(1) by blast
  qed
qed

end

text \<open>The disk after a write into one cluster.\<close>

lemma cluster_write_frame:
  assumes vol: "fat_volume vol cap N S" "2 \<le> n" "n < N + 2"
    and out: "\<And>a. a < cluster_start vol S n \<or> cluster_start vol S n + cluster_size vol \<le> a \<Longrightarrow> c' a = c a"
  shows "m < N + 2 \<Longrightarrow> raw_entry vol c' m = raw_entry vol c m"
    "2 \<le> m \<Longrightarrow> m < N + 2 \<Longrightarrow> m \<noteq> n \<Longrightarrow> cluster_data vol S c' m = cluster_data vol S c m"
proof -
  note v = fat_volume_bounds [OF vol(1)] and r = cluster_ranges [OF vol]
  show "raw_entry vol c' m = raw_entry vol c m" if "m < N + 2"
  proof -
    have "fat_start vol + 4 * m + 4 \<le> cluster_start vol S n" using v(5,6) r(2) that by arith
    then have "range_of c' (fat_start vol + 4 * m) 4 = range_of c (fat_start vol + 4 * m) 4"
      by (intro range_of_cong out) linarith
    then show ?thesis by (simp add: raw_entry_def)
  qed
  show "cluster_data vol S c' m = cluster_data vol S c m" if "2 \<le> m" "m < N + 2" "m \<noteq> n"
    unfolding cluster_data_def
    using clusters_apart [OF that(1) vol(2) that(3) vol(1) that(2) vol(3)] by (intro range_of_cong out) linarith
qed

lemma entry_set_data:
  assumes "fat_volume vol cap N S" "entry_set vol N c n v c'" "2 \<le> m" "m < N + 2"
  shows "cluster_data vol S c' m = cluster_data vol S c m"
  unfolding cluster_data_def
proof (rule range_of_cong)
  fix x assume "cluster_start vol S m \<le> x"
  then have "fat_start vol + 2 * fat_bytes vol \<le> x"
    using fat_volume_bounds(5) [OF assms(1)] cluster_ranges(2) [OF assms(1,3,4)] by linarith
  with assms(2) show "c' x = c x" by (simp add: entry_set_def)
qed

context byte_device
begin

lemma FatAllocateCluster_ok:
  assumes "good d" "fat_volume vol (capacity d) N S"
  shows "if free_clusters vol N (content d) = {}
    then \<exists>d'. FatAllocateCluster D vol d = Some (Inr (0, d')) \<and> keeps d d'
    else \<exists>c' d'. FatAllocateCluster D vol d = Some (Inr (of_nat (Min (free_clusters vol N (content d))), d')) \<and>
      changed d c' d' \<and> entry_set vol N (content d) (Min (free_clusters vol N (content d))) 0x0FFFFFF8 c'"
proof -
  let ?F = "free_clusters vol N (content d)"
  have fin: "finite ?F" by (simp add: free_clusters_def)
  obtain r d1 where f: "find_free_cluster D vol (of_nat N + 2) (of_nat 2) d = Some (Inr (r, d1))" "keeps d d1"
    "if \<exists>k. 2 \<le> k \<and> k < N + 2 \<and> fat_link vol (content d) k = 0
      then r = of_nat (LEAST k. 2 \<le> k \<and> fat_link vol (content d) k = 0) else r = 0"
    using find_free_cluster_ok [OF assms, of 2] by auto
  have ff: "FatFindFreeCluster D vol d = Some (Inr (r, d1))"
    using f(1) assms(2) by (simp add: FatFindFreeCluster_def fat_volume_def)
  show ?thesis
  proof (cases "?F = {}")
    case True
    then have "r = 0" using f(3) by (auto simp: free_clusters_def split: if_splits)
    with True ff f(2) show ?thesis by (simp add: FatAllocateCluster_def)
  next
    case False
    let ?n = "Min ?F"
    have n: "?n \<in> ?F" "\<forall>k \<in> ?F. ?n \<le> k" using fin False by simp_all
    then have nn: "2 \<le> ?n" "?n < N + 2" "fat_link vol (content d) ?n = 0" by (auto simp: free_clusters_def)
    have "(LEAST k. 2 \<le> k \<and> fat_link vol (content d) k = 0) = ?n"
    proof (rule Least_equality)
      fix k assume k: "2 \<le> k \<and> fat_link vol (content d) k = 0"
      show "?n \<le> k"
      proof (cases "k < N + 2")
        case True
        with k n(2) show ?thesis by (simp add: free_clusters_def)
      qed (use nn(2) in simp)
    qed (use nn in simp)
    then have r: "r = of_nat ?n" using f(3) nn by (auto split: if_splits)
    have "?n < 2 ^ 32" using nn(2) assms(2) by (simp add: fat_volume_def)
    then have "unat r = ?n" using r by (simp add: unat_of_nat32)
    then have "r \<noteq> 0" using nn(1) by auto
    moreover have d1: "good d1" "content d1 = content d" "capacity d1 = capacity d" using f(2) by (simp_all add: same_disk_def)
    moreover from d1 obtain c' d2 where "FatSetCluster D vol (of_nat ?n) 0x0FFFFFF8 d1 = Some (Inr d2)"
      "changed d1 c' d2" "entry_set vol N (content d1) ?n 0x0FFFFFF8 c'"
      using FatSetCluster_ok [of d1 vol N S ?n "0x0FFFFFF8"] assms(2) nn(2) by auto
    ultimately show ?thesis using False ff r by (auto simp: FatAllocateCluster_def same_disk_def)
  qed
qed

end

lemma whole_sectors_mult:
  assumes "0 < B" "k * B \<le> w"
  shows "whole_sectors B w = k * B + whole_sectors B (w - k * B)"
  using assms(2)
proof (induction k arbitrary: w)
  case (Suc k)
  then have "B \<le> w" "k * B \<le> w - B" by simp_all
  then show ?case using whole_sectors_step(1) [OF assms(1), of w] Suc.IH [of "w - B"] by (simp add: add.assoc)
qed simp

lemma whole_sectors_mono: "m \<le> n \<Longrightarrow> whole_sectors B m \<le> whole_sectors B n"
  unfolding whole_sectors_def by (intro mult_le_mono1 div_le_mono) simp

lemma cluster_size_word:
  assumes "fat_volume vol cap N S" "0 < N"
  shows "(ucast (SectorsPerCluster (Boot vol)) * ucast (BytesPerSector (Boot vol)) :: u32) = of_nat (cluster_size vol)"
    "cluster_size vol < 2 ^ 32"
proof -
  show "(ucast (SectorsPerCluster (Boot vol)) * ucast (BytesPerSector (Boot vol)) :: u32) = of_nat (cluster_size vol)"
    by (simp add: cluster_size_def sector_bytes_def)
  have "2 < N + 2" using assms(2) by simp
  then have "cluster_start vol S 2 + cluster_size vol \<le> cap" by (intro cluster_ranges(1) [OF assms(1)]) simp_all
  then show "cluster_size vol < 2 ^ 32" using fat_volume_bounds(4) [OF assms(1)] by linarith
qed

lemma link_word: "n < 0x0FFFFFF8 \<Longrightarrow> (of_nat n :: u32) AND 0x0FFFFFFF = of_nat n"
proof -
  assume "n < 0x0FFFFFF8"
  then have "take_bit 28 n = n" by (simp add: take_bit_nat_eq_self)
  then have "take_bit 28 (of_nat n :: u32) = of_nat n" by (simp add: take_bit_of_nat)
  moreover have "(0x0FFFFFFF :: u32) = mask 28" by (simp add: mask_eq_exp_minus_1)
  ultimately show ?thesis by (simp only: take_bit_eq_mask)
qed

context byte_device
begin

text \<open>One turn of the loop over the clusters of a file.\<close>

lemma write_clusters_step:
  assumes good: "good d" and vol: "fat_volume vol (capacity d) N S"
    and free: "free_clusters vol N (content d) \<noteq> {}"
    and rem: "0 < rem" "rem < 2 ^ 32" and data: "p + whole_sectors (sector_bytes vol) (min rem (cluster_size vol)) \<le> length data"
    and prev: "prev = (case q of None \<Rightarrow> 0 | Some k \<Rightarrow> of_nat k)"
      "\<And>k. q = Some k \<Longrightarrow> 2 \<le> k \<and> k < N + 2 \<and> fat_link vol (content d) k \<noteq> 0"
  defines "n \<equiv> Min (free_clusters vol N (content d))" and "x \<equiv> min rem (cluster_size vol)"
  shows "\<exists>c' d'. write_clusters D vol data first prev p (of_nat rem) d =
       write_clusters D vol data (if first = 0 then of_nat n else first) (of_nat n) (p + x) (of_nat (rem - x)) d' \<and>
     changed d c' d' \<and> fat_link vol c' n = 0x0FFFFFF8 \<and> (\<forall>k. q = Some k \<longrightarrow> fat_link vol c' k = of_nat n) \<and>
     (\<forall>m < N + 2. m \<noteq> n \<longrightarrow> q \<noteq> Some m \<longrightarrow> fat_link vol c' m = fat_link vol (content d) m) \<and>
     (\<forall>m. 2 \<le> m \<longrightarrow> m < N + 2 \<longrightarrow> m \<noteq> n \<longrightarrow> cluster_data vol S c' m = cluster_data vol S (content d) m) \<and>
     take x (cluster_data vol S c' n) = take x (drop p data)"
proof -
  let ?C = "cluster_size vol" and ?c = "content d" and ?K = "unat (SectorsPerCluster (Boot vol))"
  have "n \<in> free_clusters vol N ?c" unfolding n_def using free by (intro Min_in) (simp_all add: free_clusters_def)
  then have n: "2 \<le> n" "n < N + 2" "fat_link vol ?c n = 0" by (simp_all add: free_clusters_def)
  note N = cluster_ranges [OF vol n(1,2)]
  have C: "?C < 2 ^ 32" using N(1) fat_volume_bounds(4) [OF vol] by linarith
  have x: "x < 2 ^ 32" "x \<le> ?C" using rem C by (simp_all add: x_def)
  have n28: "n < 0x0FFFFFF8" using n(2) vol by (simp add: fat_volume_def)
  then have un: "unat (of_nat n :: u32) = n" by (intro unat_of_nat32) simp
  have n0: "(of_nat n :: u32) \<noteq> 0" using un n(1) by auto
  obtain c1 d1 where a: "FatAllocateCluster D vol d = Some (Inr (of_nat n, d1))" "changed d c1 d1"
    "entry_set vol N ?c n 0x0FFFFFF8 c1"
    using FatAllocateCluster_ok [OF good vol] free by (auto simp: n_def)
  have d1: "good d1" "capacity d1 = capacity d" "content d1 = c1" using a(2) by (simp_all add: same_disk_def)
  have l1: "fat_link vol c1 n = 0x0FFFFFF8" "\<And>m. m < N + 2 \<Longrightarrow> m \<noteq> n \<Longrightarrow> fat_link vol c1 m = fat_link vol ?c m"
    using entry_set_link [OF a(3)] by simp_all
  obtain c2 d2 where b: "(if prev \<noteq> 0 then FatSetCluster D vol prev (of_nat n) d1 else Some (Inr d1)) = Some (Inr d2)"
    "changed d c2 d2" "fat_link vol c2 n = 0x0FFFFFF8" "\<And>k. q = Some k \<Longrightarrow> fat_link vol c2 k = of_nat n"
    "\<And>m. m < N + 2 \<Longrightarrow> m \<noteq> n \<Longrightarrow> q \<noteq> Some m \<Longrightarrow> fat_link vol c2 m = fat_link vol ?c m"
    "\<And>m. 2 \<le> m \<Longrightarrow> m < N + 2 \<Longrightarrow> cluster_data vol S c2 m = cluster_data vol S ?c m"
  proof (cases q)
    case None
    then show ?thesis using that [of d1 c1] prev a(2) l1 entry_set_data [OF vol a(3)] by simp
  next
    case (Some k)
    note k = prev(2) [OF Some]
    then have kn: "k \<noteq> n" using n(3) by auto
    have "k < 2 ^ 32" using k vol by (simp add: fat_volume_def)
    then have "unat (of_nat k :: u32) = k" by (rule unat_of_nat32)
    then have k0: "(of_nat k :: u32) \<noteq> 0" using k by auto
    obtain c2 d2 where s: "FatSetCluster D vol (of_nat k) (of_nat n) d1 = Some (Inr d2)" "changed d1 c2 d2"
      "entry_set vol N c1 k (of_nat n) c2"
      using FatSetCluster_ok [OF d1(1), of vol N S k "of_nat n"] vol k d1 by auto
    show ?thesis
    proof (rule that [of d2 c2])
      show "(if prev \<noteq> 0 then FatSetCluster D vol prev (of_nat n) d1 else Some (Inr d1)) = Some (Inr d2)"
        using s(1) k0 prev(1) Some by simp
      show "changed d c2 d2" using s(2) d1 by (simp add: same_disk_def)
      show "fat_link vol c2 n = 0x0FFFFFF8" using entry_set_link(2) [OF s(3) n(2)] kn l1(1) by simp
      show "fat_link vol c2 j = of_nat n" if "q = Some j" for j
        using entry_set_link(1) [OF s(3)] link_word [OF n28] that Some by simp
      show "fat_link vol c2 m = fat_link vol ?c m" if "m < N + 2" "m \<noteq> n" "q \<noteq> Some m" for m
        using entry_set_link(2) [OF s(3) that(1)] l1(2) that Some by simp
      show "cluster_data vol S c2 m = cluster_data vol S ?c m" if "2 \<le> m" "m < N + 2" for m
        using entry_set_data [OF vol s(3) that] entry_set_data [OF vol a(3) that] by simp
    qed
  qed
  have d2: "good d2" "capacity d2 = capacity d" "content d2 = c2" using b(2) by (simp_all add: same_disk_def)
  have w: "\<exists>c' d'. write_sectors D vol data (of_nat (cluster_sector vol S n)) (of_nat 0) p (of_nat x) (of_nat rem) d2 =
       Some (Inr (p + x, of_nat (rem - x), d')) \<and> changed d2 c' d' \<and>
     range_of c' (sector_start vol (cluster_sector vol S n + 0)) x = take x (drop p data) \<and>
     (\<forall>a. a < sector_start vol (cluster_sector vol S n + 0) \<or> sector_start vol (cluster_sector vol S n + ?K) \<le> a \<longrightarrow>
        c' a = content d2 a)"
    using d2 fat_volume_bounds(1,4) [OF vol] N(1,4) rem x data
    by (intro write_sectors_ok) (simp_all add: cluster_size_def x_def)
  then obtain c' d' where w: "write_sectors D vol data (of_nat (cluster_sector vol S n)) 0 p (of_nat x) (of_nat rem) d2 =
       Some (Inr (p + x, of_nat (rem - x), d'))" "changed d2 c' d'"
     "range_of c' (cluster_start vol S n) x = take x (drop p data)"
     "\<And>a. a < cluster_start vol S n \<or> cluster_start vol S n + ?C \<le> a \<Longrightarrow> c' a = c2 a"
    by (auto simp: N(4) d2 cluster_start_def [symmetric])
  have frame: "m < N + 2 \<Longrightarrow> raw_entry vol c' m = raw_entry vol c2 m"
    "2 \<le> m \<Longrightarrow> m < N + 2 \<Longrightarrow> m \<noteq> n \<Longrightarrow> cluster_data vol S c' m = cluster_data vol S c2 m" for m
    using cluster_write_frame [OF vol n(1,2), of c' c2] w(4) by blast+
  have "write_clusters D vol data first prev p (of_nat rem) d =
       write_clusters D vol data (if first = 0 then of_nat n else first) (of_nat n) (p + x) (of_nat (rem - x)) d'"
  proof -
    have "unat (of_nat rem :: u32) = rem" using rem by (intro unat_of_nat32)
    then have "(0 :: u32) < of_nat rem" using rem by (simp add: word_less_nat_alt)
    moreover have "(ucast (SectorsPerCluster (Boot vol)) * ucast (BytesPerSector (Boot vol)) :: u32) = of_nat ?C"
      by (simp add: cluster_size_def sector_bytes_def)
    moreover have "(if (of_nat rem :: u32) < of_nat ?C then of_nat rem else of_nat ?C) = (of_nat x :: u32)"
      unfolding x_def by (rule min_word(1) [OF rem(2) C])
    ultimately show ?thesis
      using a(1) n0 b(1) FatFirstSectorForCluster_ok [OF vol n(1,2)] w(1)
      by (subst write_clusters.simps) (simp add: Let_def split del: if_split cong del: if_weak_cong)
  qed
  moreover have "changed d c' d'" using w(2) d2 by (simp add: same_disk_def)
  moreover have "fat_link vol c' m = fat_link vol c2 m" if "m < N + 2" for m
    using frame(1) [OF that] by (simp add: fat_link_def)
  moreover have "k < N + 2" if "q = Some k" for k using prev(2) [OF that] by simp
  moreover have "take x (cluster_data vol S c' n) = take x (drop p data)"
    using w(3) x(2) range_of_sub [of 0 x ?C c' "cluster_start vol S n"] by (simp add: cluster_data_def)
  ultimately show ?thesis using b(3-6) frame(2) n(2) by (intro exI [of _ c'] exI [of _ d']) auto
qed

end

definition chain_so_far :: "nat \<Rightarrow> (nat \<Rightarrow> u32) \<Rightarrow> nat list \<Rightarrow> bool" where
  "chain_so_far N l ns \<longleftrightarrow> ns = [] \<or> fat_chain N l ns \<and> distinct ns"

definition link_of :: "nat option \<Rightarrow> u32" where
  "link_of q = (case q of None \<Rightarrow> 0 | Some n \<Rightarrow> of_nat n)"

lemma link_of_simps [simp]: "link_of None = 0" "link_of (Some n) = of_nat n"
  by (simp_all add: link_of_def)

definition head_of :: "nat list \<Rightarrow> nat option" where
  "head_of ns = (if ns = [] then None else Some (hd ns))"

definition tail_of :: "nat list \<Rightarrow> nat option" where
  "tail_of ns = (if ns = [] then None else Some (last ns))"

lemma fat_chain_append_new:
  assumes "chain_so_far N l ns" "n \<notin> set ns" "2 \<le> n" "n < N + 2" "l' n = 0x0FFFFFF8"
    "\<And>k. tail_of ns = Some k \<Longrightarrow> l' k = of_nat n"
    "\<And>m. m < N + 2 \<Longrightarrow> m \<noteq> n \<Longrightarrow> tail_of ns \<noteq> Some m \<Longrightarrow> l' m = l m"
  shows "chain_so_far N l' (ns @ [n])"
proof (cases "ns = []")
  case False
  then have c: "fat_chain N l ns" "distinct ns" using assms(1) by (simp_all add: chain_so_far_def)
  have "fat_chain N l' (ns @ [n])"
  proof (rule fat_chain_snoc [OF c assms(3,4)])
    show "l' m = l m" if "m \<in> set ns" "m \<noteq> last ns" for m
      using assms(7) [of m] fat_chain_in [OF c(1) that(1)] that assms(2) False by (auto simp: tail_of_def)
  qed (use assms(5,6) False in \<open>simp_all add: tail_of_def\<close>)
  with c(2) assms(2) show ?thesis by (simp add: chain_so_far_def)
qed (use assms(3-5) in \<open>simp add: chain_so_far_def\<close>)

lemma free_clusters_used:
  assumes "n \<in> free_clusters vol N c" "fat_link vol c' n = 0x0FFFFFF8"
    "\<And>k. q = Some k \<Longrightarrow> fat_link vol c' k = of_nat n \<and> fat_link vol c k \<noteq> 0"
    "\<And>m. m < N + 2 \<Longrightarrow> m \<noteq> n \<Longrightarrow> q \<noteq> Some m \<Longrightarrow> fat_link vol c' m = fat_link vol c m" "N + 2 < 0x0FFFFFF8"
  shows "free_clusters vol N c' = free_clusters vol N c - {n}"
    "Suc (card (free_clusters vol N c')) = card (free_clusters vol N c)"
proof -
  have "2 \<le> n" "n < N + 2" using assms(1) by (simp_all add: free_clusters_def)
  then have "unat (of_nat n :: u32) = n" using assms(5) by (intro unat_of_nat32) simp
  then have n0: "(of_nat n :: u32) \<noteq> 0" using \<open>2 \<le> n\<close> by auto
  show eq: "free_clusters vol N c' = free_clusters vol N c - {n}"
  proof (rule set_eqI)
    fix m
    show "m \<in> free_clusters vol N c' \<longleftrightarrow> m \<in> free_clusters vol N c - {n}"
      using assms(2) assms(3) [of m] assms(4) [of m] n0
      by (cases "m = n"; cases "q = Some m") (auto simp: free_clusters_def)
  qed
  have "finite (free_clusters vol N c)" by (simp add: free_clusters_def)
  then show "Suc (card (free_clusters vol N c')) = card (free_clusters vol N c)"
    unfolding eq using assms(1) by (rule card_Suc_Diff1)
qed

context byte_device
begin

lemma write_clusters_ok:
  assumes "good d" "fat_volume vol (capacity d) N S"
    and "rem \<le> card (free_clusters vol N (content d)) * cluster_size vol" "rem < 2 ^ 32"
    and "p + whole_sectors (sector_bytes vol) rem \<le> length data"
    and "chain_so_far N (fat_link vol (content d)) ns"
  shows "\<exists>ms c' d'. write_clusters D vol data (link_of (head_of ns)) (link_of (tail_of ns)) p (of_nat rem) d =
       Some (Inr (link_of (head_of (ns @ ms)), d')) \<and> changed d c' d' \<and>
     set ms \<subseteq> free_clusters vol N (content d) \<and> length ms * cluster_size vol = whole_sectors (cluster_size vol) rem \<and>
     chain_so_far N (fat_link vol c') (ns @ ms) \<and>
     (\<forall>m < N + 2. m \<notin> set ms \<and> tail_of ns \<noteq> Some m \<longrightarrow> fat_link vol c' m = fat_link vol (content d) m) \<and>
     (\<forall>m. 2 \<le> m \<and> m < N + 2 \<and> m \<notin> set ms \<longrightarrow> cluster_data vol S c' m = cluster_data vol S (content d) m) \<and>
     take rem (file_bytes vol S c' ms) = take rem (drop p data)"
  using assms
proof (induction rem arbitrary: p ns d rule: less_induct)
  case (less rem)
  let ?C = "cluster_size vol" and ?c = "content d"
  have C: "0 < ?C" using fat_volume_bounds [OF less.prems(2)] by simp
  show ?case
  proof (cases "rem = 0")
    case True
    then have "write_clusters D vol data (link_of (head_of ns)) (link_of (tail_of ns)) p (of_nat rem) d =
        Some (Inr (link_of (head_of ns), d))" by (subst write_clusters.simps) simp
    then show ?thesis using True less.prems C
      by (intro exI [of _ "[]"] exI [of _ ?c] exI [of _ d]) (simp add: same_disk_def whole_sectors_step file_bytes_def)
  next
    case False
    let ?n = "Min (free_clusters vol N ?c)" and ?x = "min rem ?C"
    have free: "free_clusters vol N ?c \<noteq> {}" using False less.prems(3) by auto
    then have n_free: "?n \<in> free_clusters vol N ?c" by (intro Min_in) (simp_all add: free_clusters_def)
    then have n: "2 \<le> ?n" "?n < N + 2" "fat_link vol ?c ?n = 0" by (simp_all add: free_clusters_def)
    have N28: "N + 2 < 0x0FFFFFF8" using less.prems(2) by (simp add: fat_volume_def)
    have un: "unat (of_nat ?n :: u32) = ?n" using n(2) N28 by (intro unat_of_nat32) simp
    have n0: "(of_nat ?n :: u32) \<noteq> 0" using un n(1) by auto
    have links: "fat_link vol ?c k \<noteq> 0" "2 \<le> k" "k < N + 2" if "k \<in> set ns" for k
      using fat_chain_link [OF _ that N28] fat_chain_in [OF _ that] less.prems(6) that by (auto simp: chain_so_far_def)
    then have n_ns: "?n \<notin> set ns" using n(3) by auto
    have tail: "tail_of ns = Some k \<Longrightarrow> k \<in> set ns" for k by (auto simp: tail_of_def split: if_splits)
    have wx: "whole_sectors (sector_bytes vol) ?x \<le> whole_sectors (sector_bytes vol) rem" by (intro whole_sectors_mono) simp
    have "p + whole_sectors (sector_bytes vol) ?x \<le> length data" using less.prems(5) wx by linarith
    then obtain c1 d1 where st: "write_clusters D vol data (link_of (head_of ns)) (link_of (tail_of ns)) p (of_nat rem) d =
         write_clusters D vol data (if link_of (head_of ns) = 0 then of_nat ?n else link_of (head_of ns)) (of_nat ?n)
           (p + ?x) (of_nat (rem - ?x)) d1"
      "changed d c1 d1" "fat_link vol c1 ?n = 0x0FFFFFF8" "\<And>k. tail_of ns = Some k \<Longrightarrow> fat_link vol c1 k = of_nat ?n"
      "\<And>m. m < N + 2 \<Longrightarrow> m \<noteq> ?n \<Longrightarrow> tail_of ns \<noteq> Some m \<Longrightarrow> fat_link vol c1 m = fat_link vol ?c m"
      "\<And>m. 2 \<le> m \<Longrightarrow> m < N + 2 \<Longrightarrow> m \<noteq> ?n \<Longrightarrow> cluster_data vol S c1 m = cluster_data vol S ?c m"
      "take ?x (cluster_data vol S c1 ?n) = take ?x (drop p data)"
      using write_clusters_step [OF less.prems(1,2) free _ less.prems(4), of p data "link_of (tail_of ns)" "tail_of ns"
          "link_of (head_of ns)"] False links tail by (auto simp: link_of_def)
    have head: "(if link_of (head_of ns) = 0 then of_nat ?n else link_of (head_of ns)) = link_of (head_of (ns @ [?n]))"
    proof (cases "ns = []")
      case False
      then have "2 \<le> hd ns" "hd ns < N + 2" using links [of "hd ns"] by simp_all
      moreover from this have "unat (of_nat (hd ns) :: u32) = hd ns" using N28 by (intro unat_of_nat32) simp
      ultimately have "(of_nat (hd ns) :: u32) \<noteq> 0" by auto
      with False show ?thesis by (simp add: head_of_def)
    qed (simp add: head_of_def)
    have d1: "good d1" "capacity d1 = capacity d" "content d1 = c1" using st(2) by (simp_all add: same_disk_def)
    have chain: "chain_so_far N (fat_link vol c1) (ns @ [?n])"
      by (rule fat_chain_append_new [OF less.prems(6) n_ns n(1,2) st(3-5)]) simp_all
    have q: "fat_link vol c1 k = of_nat ?n \<and> fat_link vol ?c k \<noteq> 0" if "tail_of ns = Some k" for k
      using st(4) [OF that] links [OF tail [OF that]] by simp
    have used: "free_clusters vol N c1 = free_clusters vol N ?c - {?n}"
      "Suc (card (free_clusters vol N c1)) = card (free_clusters vol N ?c)"
      by (rule free_clusters_used [OF n_free st(3) q st(5) N28]; assumption)+
    have "\<exists>ms c' d'. write_clusters D vol data (link_of (head_of (ns @ [?n]))) (link_of (tail_of (ns @ [?n])))
         (p + ?x) (of_nat (rem - ?x)) d1 = Some (Inr (link_of (head_of ((ns @ [?n]) @ ms)), d')) \<and> changed d1 c' d' \<and>
       set ms \<subseteq> free_clusters vol N (content d1) \<and> length ms * ?C = whole_sectors ?C (rem - ?x) \<and>
       chain_so_far N (fat_link vol c') ((ns @ [?n]) @ ms) \<and>
       (\<forall>m < N + 2. m \<notin> set ms \<and> tail_of (ns @ [?n]) \<noteq> Some m \<longrightarrow> fat_link vol c' m = fat_link vol (content d1) m) \<and>
       (\<forall>m. 2 \<le> m \<and> m < N + 2 \<and> m \<notin> set ms \<longrightarrow> cluster_data vol S c' m = cluster_data vol S (content d1) m) \<and>
       take (rem - ?x) (file_bytes vol S c' ms) = take (rem - ?x) (drop (p + ?x) data)"
    proof (rule less.IH)
      show "rem - ?x < rem" "rem - ?x < 2 ^ 32" using False C less.prems(4) by simp_all
      show "good d1" "fat_volume vol (capacity d1) N S" using d1 less.prems(2) by simp_all
      show "chain_so_far N (fat_link vol (content d1)) (ns @ [?n])" using chain d1 by simp
      have "rem \<le> ?C + card (free_clusters vol N c1) * ?C" using less.prems(3) used(2) by (metis mult_Suc)
      then show "rem - ?x \<le> card (free_clusters vol N (content d1)) * ?C" unfolding d1(3) by linarith
      show "p + ?x + whole_sectors (sector_bytes vol) (rem - ?x) \<le> length data"
      proof (cases "?C \<le> rem")
        case True
        then show ?thesis
          using whole_sectors_mult [OF fat_volume_bounds(1) [OF less.prems(2)], of "unat (SectorsPerCluster (Boot vol))" rem]
            less.prems(5) by (simp add: cluster_size_def)
      next
        case b: False
        then show ?thesis
          using whole_sectors_step(3) [OF fat_volume_bounds(1) [OF less.prems(2)]]
            whole_sectors_step(4) [OF fat_volume_bounds(1) [OF less.prems(2)], of rem] less.prems(5) by simp
      qed
    qed
    then obtain ms c' d' where ms: "write_clusters D vol data (link_of (head_of (ns @ [?n]))) (of_nat ?n)
         (p + ?x) (of_nat (rem - ?x)) d1 = Some (Inr (link_of (head_of ((ns @ [?n]) @ ms)), d'))" "changed d1 c' d'"
       "set ms \<subseteq> free_clusters vol N c1" "length ms * ?C = whole_sectors ?C (rem - ?x)"
       "chain_so_far N (fat_link vol c') ((ns @ [?n]) @ ms)"
       "\<And>m. m < N + 2 \<Longrightarrow> m \<notin> set ms \<Longrightarrow> m \<noteq> ?n \<Longrightarrow> fat_link vol c' m = fat_link vol c1 m"
       "\<And>m. 2 \<le> m \<Longrightarrow> m < N + 2 \<Longrightarrow> m \<notin> set ms \<Longrightarrow> cluster_data vol S c' m = cluster_data vol S c1 m"
       "take (rem - ?x) (file_bytes vol S c' ms) = take (rem - ?x) (drop (p + ?x) data)"
      by (auto simp: d1 tail_of_def)
    show ?thesis
    proof (intro exI [of _ "?n # ms"] exI [of _ c'] exI [of _ d'] conjI)
      show "write_clusters D vol data (link_of (head_of ns)) (link_of (tail_of ns)) p (of_nat rem) d =
          Some (Inr (link_of (head_of (ns @ ?n # ms)), d'))"
        unfolding st(1) head using ms(1) by simp
      show "changed d c' d'" using ms(2) d1 by (simp add: same_disk_def)
      show "set (?n # ms) \<subseteq> free_clusters vol N ?c" using ms(3) used(1) n_free by auto
      show "length (?n # ms) * ?C = whole_sectors ?C rem"
      proof (cases "?C \<le> rem")
        case True
        then show ?thesis using ms(4) whole_sectors_step(1) [OF C True] by (simp add: min_def)
      next
        case b: False
        then show ?thesis using ms(4) whole_sectors_step(2) [OF C, of rem] whole_sectors_step(3) [OF C] False by simp
      qed
      show "chain_so_far N (fat_link vol c') (ns @ ?n # ms)" using ms(5) by simp
      show "\<forall>m < N + 2. m \<notin> set (?n # ms) \<and> tail_of ns \<noteq> Some m \<longrightarrow> fat_link vol c' m = fat_link vol ?c m"
        using ms(6) st(5) by auto
      show "\<forall>m. 2 \<le> m \<and> m < N + 2 \<and> m \<notin> set (?n # ms) \<longrightarrow> cluster_data vol S c' m = cluster_data vol S ?c m"
        using ms(7) st(6) by auto
      have "?n \<notin> set ms" using ms(3) used(1) by auto
      then have d: "take ?x (cluster_data vol S c' ?n) = take ?x (drop p data)" using ms(7) n(1,2) st(7) by simp
      have len: "length (cluster_data vol S c' ?n) = ?C" by (simp add: cluster_data_def)
      have eq: "file_bytes vol S c' (?n # ms) = cluster_data vol S c' ?n @ file_bytes vol S c' ms" by (simp add: file_bytes_def)
      show "take rem (file_bytes vol S c' (?n # ms)) = take rem (drop p data)"
      proof (cases "?C \<le> rem")
        case True
        then have "?x = ?C" by simp
        then show ?thesis
          using True d len ms(8) take_add [of ?C "rem - ?C" "drop p data"] by (simp add: eq add.commute)
      next
        case False
        then show ?thesis using d len by (simp add: eq)
      qed
    qed
  qed
qed

end

context byte_device
begin

lemma read_sectors_ok:
  assumes "good d" "0 < sector_bytes vol" "capacity d < 2 ^ 32"
    and "off \<le> unat (SectorsPerCluster (Boot vol))"
    and "sector_start vol (fs + unat (SectorsPerCluster (Boot vol))) \<le> capacity d"
    and "p + r \<le> length Data" "r < 2 ^ 32"
    and "w = min r ((unat (SectorsPerCluster (Boot vol)) - off) * sector_bytes vol)"
  shows "\<exists>d'. read_sectors D vol (of_nat fs) off p (of_nat r) Data d =
       Some (Inr (p + w, of_nat (r - w),
         take p Data @ range_of (content d) (sector_start vol (fs + off)) w @ drop (p + w) Data, d')) \<and> keeps d d'"
  using assms
proof (induction "unat (SectorsPerCluster (Boot vol)) - off" arbitrary: off p w r d Data)
  case 0
  then have "w = 0" by simp
  then show ?case using "0.prems" "0.hyps" by (simp add: read_sectors.simps [of D vol] same_disk_def range_of_def)
next
  case (Suc k)
  let ?K = "unat (SectorsPerCluster (Boot vol))" and ?B = "sector_bytes vol"
  have off: "off < ?K" using Suc.hyps(2) by simp
  show ?case
  proof (cases "r = 0")
    case True
    then show ?thesis using Suc.prems by (simp add: read_sectors.simps [of D vol] same_disk_def range_of_def)
  next
    case False
    let ?x = "min r ?B" and ?s = "range_of (content d) (sector_start vol (fs + off)) ?B"
    have "unat (BytesPerSector (Boot vol)) < 65536" using unsigned_less [of "BytesPerSector (Boot vol)"] by simp
    then have B32: "?B < 2 ^ 32" by (simp add: sector_bytes_def)
    have r0: "(0 :: u32) < of_nat r" using False Suc.prems(7) unat_of_nat32 [of r] by (simp add: word_less_nat_alt)
    have "(off + 1) * ?B \<le> ?K * ?B" using off by (intro mult_le_mono1) simp
    then have "sector_start vol (fs + off) + ?B \<le> capacity d" using Suc.prems(5) by (simp add: sector_start_add)
    from read_sector_ok [OF Suc.prems(1,2) this Suc.prems(3)] obtain d1 where
      rd: "read_sector D vol (of_nat fs + of_nat off) d = Some (Inr (?s, d1))" "keeps d d1" by auto
    then have d1: "good d1" "capacity d1 = capacity d" "content d1 = content d" by (simp_all add: same_disk_def)
    have ucast_B: "(ucast (BytesPerSector (Boot vol)) :: u32) = of_nat ?B" by (simp add: sector_bytes_def)
    have tk: "take ?x ?s = range_of (content d) (sector_start vol (fs + off)) ?x"
      using range_of_sub [of 0 ?x ?B "content d" "sector_start vol (fs + off)"] by simp
    let ?D = "take p Data @ range_of (content d) (sector_start vol (fs + off)) ?x @ drop (p + ?x) Data"
    have put: "put_bytes Data p (take ?x ?s) = Inr ?D" unfolding tk using Suc.prems(6) by (subst put_bytes_in) simp_all
    have step: "read_sectors D vol (of_nat fs) off p (of_nat r) Data d =
        read_sectors D vol (of_nat fs) (Suc off) (p + ?x) (of_nat (r - ?x)) ?D d1"
      using off r0 rd(1) put min_word [OF Suc.prems(7) B32]
      by (subst read_sectors.simps) (simp add: Let_def ucast_B del: put_bytes_in of_nat_diff)
    have len: "length ?D = length Data" using Suc.prems(6) by simp
    have split: "(?K - off) * ?B = ?B + (?K - Suc off) * ?B" using off by (simp add: Suc_diff_Suc [symmetric])
    have wx: "w - ?x = min (r - ?x) ((?K - Suc off) * ?B)" "?x \<le> w"
      using Suc.prems(8) split by linarith+
    have "\<exists>d'. read_sectors D vol (of_nat fs) (Suc off) (p + ?x) (of_nat (r - ?x)) ?D d1 =
       Some (Inr (p + ?x + (w - ?x), of_nat (r - ?x - (w - ?x)),
         take (p + ?x) ?D @ range_of (content d1) (sector_start vol (fs + Suc off)) (w - ?x) @
           drop (p + ?x + (w - ?x)) ?D, d')) \<and> keeps d1 d'"
    proof (rule Suc.hyps(1))
      show "k = ?K - Suc off" using Suc.hyps(2) by simp
      show "p + ?x + (r - ?x) \<le> length ?D" unfolding len using Suc.prems(6) by simp
      show "r - ?x < 2 ^ 32" using Suc.prems(7) by (rule le_less_trans [OF diff_le_self])
    qed (use d1 Suc.prems off wx in simp_all)
    then obtain d' where rec: "read_sectors D vol (of_nat fs) (Suc off) (p + ?x) (of_nat (r - ?x)) ?D d1 =
       Some (Inr (p + w, of_nat (r - w),
         take (p + ?x) ?D @ range_of (content d) (sector_start vol (fs + Suc off)) (w - ?x) @ drop (p + w) ?D, d'))"
      "keeps d1 d'"
      using wx(2) d1(3) by auto
    have tD: "take (p + ?x) ?D = take p Data @ range_of (content d) (sector_start vol (fs + off)) ?x"
      using Suc.prems(6) by simp
    have dD: "drop (p + w) ?D = drop (p + w) Data"
      using Suc.prems(6) wx(2) by (simp add: add.commute)
    have "range_of (content d) (sector_start vol (fs + off)) w =
        range_of (content d) (sector_start vol (fs + off)) ?x @ range_of (content d) (sector_start vol (fs + Suc off)) (w - ?x)"
    proof (cases "?B \<le> r")
      case True
      then have "?x = ?B" by simp
      then show ?thesis using range_of_append [of "content d" "sector_start vol (fs + off)" ?x "w - ?x"] wx(2)
        sector_start_Suc [of vol "fs + off"] by simp
    next
      case b: False
      then have "w = ?x" using wx Suc.prems(8) by simp
      then show ?thesis by (simp add: range_of_def)
    qed
    then show ?thesis using step rec tD dD d1 by (auto simp: same_disk_def)
  qed
qed

lemma read_chain_ok:
  assumes "good d" "fat_volume vol (capacity d) N S" "fat_chain N (fat_link vol (content d)) ns"
    and "p + r \<le> length Data" "r < 2 ^ 32" "r \<le> length ns * cluster_size vol"
  shows "\<exists>d'. read_chain D vol (of_nat (hd ns)) p (of_nat r) Data d =
     Some (Inr (take p Data @ take r (file_bytes vol S (content d) ns) @ drop (p + r) Data, d')) \<and> keeps d d'"
  using assms
proof (induction ns arbitrary: p r Data d)
  case (Cons n ns)
  let ?C = "cluster_size vol" and ?c = "content d" and ?x = "min r (cluster_size vol)"
  note vb = fat_volume_bounds [OF Cons.prems(2)]
  have n: "2 \<le> n" "n < N + 2" using fat_chain_in [OF Cons.prems(3), of n] by simp_all
  have N28: "N + 2 < 0x0FFFFFF8" using Cons.prems(2) by (simp add: fat_volume_def)
  have "unat (of_nat n :: u32) = n" using n N28 by (intro unat_of_nat32) simp
  then have lt: "(of_nat n :: u32) < 0x0FFFFFF8" using n N28 by (simp add: word_less_nat_alt)
  note cl = cluster_ranges [OF Cons.prems(2) n]
  let ?D = "take p Data @ range_of ?c (cluster_start vol S n) ?x @ drop (p + ?x) Data"
  obtain d1 where rd: "read_sectors D vol (of_nat (cluster_sector vol S n)) 0 p (of_nat r) Data d =
       Some (Inr (p + ?x, of_nat (r - ?x), ?D, d1))" "keeps d d1"
    using read_sectors_ok [OF Cons.prems(1) vb(1,4) _ _ Cons.prems(4,5), of 0 "cluster_sector vol S n" ?x] cl(1,4)
    by (auto simp: cluster_size_def cluster_start_def)
  then have d1: "good d1" "capacity d1 = capacity d" "content d1 = ?c" by (simp_all add: same_disk_def)
  obtain d2 where nx: "FatNextCluster D vol (of_nat n) d1 = Some (Inr (fat_link vol ?c n, d2))" "keeps d1 d2"
    using FatNextCluster_ok [OF d1(1), of vol N S n] Cons.prems(2) d1 n by auto
  then have d2: "good d2" "capacity d2 = capacity d" "content d2 = ?c" using d1 by (simp_all add: same_disk_def)
  have step: "read_chain D vol (of_nat n) p (of_nat r) Data d =
      read_chain D vol (fat_link vol ?c n) (p + ?x) (of_nat (r - ?x)) ?D d2"
    using lt FatFirstSectorForCluster_ok [OF Cons.prems(2) n] rd(1) nx(1)
    by (subst read_chain.simps) (simp del: of_nat_diff)
  have cd: "take r (file_bytes vol S ?c (n # ns)) =
      range_of ?c (cluster_start vol S n) ?x @ take (r - ?x) (file_bytes vol S ?c ns)"
    using range_of_sub [of 0 r ?C ?c "cluster_start vol S n"]
    by (cases "r \<le> ?C") (simp_all add: file_bytes_def cluster_data_def)
  show ?case
  proof (cases ns)
    case Nil
    then have "\<not> fat_link vol ?c n < 0x0FFFFFF8" "r = ?x" using Cons.prems(3,6) by (simp_all add: not_less)
    then have "read_chain D vol (fat_link vol ?c n) (p + ?x) (of_nat (r - ?x)) ?D d2 = Some (Inr (?D, d2))"
      by (subst read_chain.simps) simp
    then show ?thesis using step d2 cd \<open>r = ?x\<close> Nil by (simp add: same_disk_def file_bytes_def)
  next
    case (Cons m ms)
    then have l: "fat_link vol ?c n = of_nat (hd ns)" and ch: "fat_chain N (fat_link vol (content d2)) ns"
      using Cons.prems(3) d2 by simp_all
    have len: "length ?D = length Data" using Cons.prems(4) by simp
    have "r - ?x \<le> length ns * ?C" using Cons.prems(6) by (simp add: min_def) linarith
    then have "\<exists>d'. read_chain D vol (of_nat (hd ns)) (p + ?x) (of_nat (r - ?x)) ?D d2 =
       Some (Inr (take (p + ?x) ?D @ take (r - ?x) (file_bytes vol S (content d2) ns) @ drop (p + ?x + (r - ?x)) ?D, d')) \<and>
       keeps d2 d'"
      using d2 ch Cons.prems(2,4,5) len by (intro Cons.IH) simp_all
    then obtain d' where "read_chain D vol (of_nat (hd ns)) (p + ?x) (of_nat (r - ?x)) ?D d2 =
       Some (Inr (take (p + ?x) ?D @ take (r - ?x) (file_bytes vol S ?c ns) @ drop (p + r) ?D, d'))" "keeps d2 d'"
      using d2(3) by auto
    moreover have "take (p + ?x) ?D = take p Data @ range_of ?c (cluster_start vol S n) ?x"
      using Cons.prems(4) by simp
    moreover have "drop (p + r) ?D = drop (p + r) Data" using Cons.prems(4) by (simp add: add.commute)
    ultimately show ?thesis using step l cd d2 by (auto simp: same_disk_def)
  qed
qed simp

end

section \<open>Directories as lists of slots\<close>

text \<open>
  A slot is a cluster of the directory, a sector in it and an entry in that: the order of the
  list is the order in which the code visits them.
\<close>

definition cluster_slots :: "FATVolume \<Rightarrow> nat \<Rightarrow> nat \<Rightarrow> (nat \<times> nat \<times> nat) list" where
  "cluster_slots vol n s0 = concat (map (\<lambda>s. map (\<lambda>i. (n, s, i)) [0..<sector_bytes vol div sizeof_FATDirectory])
     [s0..<unat (SectorsPerCluster (Boot vol))])"

definition dir_slots :: "FATVolume \<Rightarrow> nat list \<Rightarrow> (nat \<times> nat \<times> nat) list" where
  "dir_slots vol ns = concat (map (\<lambda>n. cluster_slots vol n 0) ns)"

definition slot_start :: "FATVolume \<Rightarrow> nat \<Rightarrow> nat \<times> nat \<times> nat \<Rightarrow> nat" where
  "slot_start vol S = (\<lambda>(n, s, i). cluster_start vol S n + s * sector_bytes vol + 32 * i)"

definition slot_entry :: "FATVolume \<Rightarrow> nat \<Rightarrow> (nat \<Rightarrow> u8) \<Rightarrow> nat \<times> nat \<times> nat \<Rightarrow> FATDirectory" where
  "slot_entry vol S c sl = directory_at (range_of c (slot_start vol S sl) 32)"

definition slot_free :: "FATVolume \<Rightarrow> nat \<Rightarrow> (nat \<Rightarrow> u8) \<Rightarrow> nat \<times> nat \<times> nat \<Rightarrow> bool" where
  "slot_free vol S c sl \<longleftrightarrow> c (slot_start vol S sl) = 0 \<or> c (slot_start vol S sl) = 0xE5"

definition pack_slot :: "nat \<times> nat \<times> nat \<Rightarrow> u32" where
  "pack_slot = (\<lambda>(n, s, i). push_bit 16 (of_nat n) OR push_bit 8 (of_nat s) OR of_nat i)"

definition first_free :: "FATVolume \<Rightarrow> nat \<Rightarrow> (nat \<Rightarrow> u8) \<Rightarrow> (nat \<times> nat \<times> nat) list \<Rightarrow> u32" where
  "first_free vol S c sls = (case List.find (slot_free vol S c) sls of None \<Rightarrow> 0 | Some sl \<Rightarrow> pack_slot sl)"

text \<open>Which entry a name finds: the search stops at a never-used entry.\<close>

fun lookup_slots ::
  "u8 list \<Rightarrow> u8 list \<Rightarrow> (nat \<times> nat \<times> nat \<Rightarrow> FATDirectory) \<Rightarrow> (nat \<times> nat \<times> nat) list \<Rightarrow> scan \<times> (nat \<times> nat \<times> nat) option" where
  "lookup_slots Nm Xt ent [] = (Beyond, None)"
| "lookup_slots Nm Xt ent (sl # sls) =
     (if hd (Name (ent sl)) = 0 then (End, None)
      else if hd (Name (ent sl)) \<noteq> FAT_UNUSED \<and> Flags (ent sl) \<noteq> FAT_LONG_FILE_NAME \<and>
              Name (ent sl) = Nm \<and> Ext (ent sl) = Xt then (Match 0, Some sl)
      else lookup_slots Nm Xt ent sls)"

definition lookup_result ::
  "(nat \<times> nat \<times> nat \<Rightarrow> FATDirectory) \<Rightarrow> scan \<times> (nat \<times> nat \<times> nat) option \<Rightarrow> FATFileLocation" where
  "lookup_result ent r = (case snd r of None \<Rightarrow> not_found
     | Some (n, s, i) \<Rightarrow> \<lparr>Dir = ent (n, s, i), Cluster = of_nat n, Offset = of_nat s, Index = of_nat i, Found = True\<rparr>)"

lemma lookup_slots_append:
  "lookup_slots Nm Xt ent (xs @ ys) =
     (if fst (lookup_slots Nm Xt ent xs) = Beyond then lookup_slots Nm Xt ent ys else lookup_slots Nm Xt ent xs)"
  by (induction xs) auto

lemma lookup_slots_cong:
  "(\<And>sl. sl \<in> set sls \<Longrightarrow> ent' sl = ent sl) \<Longrightarrow> lookup_slots Nm Xt ent' sls = lookup_slots Nm Xt ent sls"
  by (induction sls) auto

lemma lookup_slots_beyond: "fst (lookup_slots Nm Xt ent sls) = Beyond \<Longrightarrow> snd (lookup_slots Nm Xt ent sls) = None"
  by (induction sls) (auto split: if_splits)

lemma first_free_append:
  "List.find P (xs @ ys) = (case List.find P xs of None \<Rightarrow> List.find P ys | Some x \<Rightarrow> Some x)"
  by (induction xs) auto

lemma hd_Name_at: "length b = 32 \<Longrightarrow> hd (Name (directory_at b)) = b ! 0"
  by (cases b) (simp_all add: directory_at_def)

lemma cluster_slots_step:
  "s < unat (SectorsPerCluster (Boot vol)) \<Longrightarrow> cluster_slots vol n s =
     map (\<lambda>i. (n, s, i)) [0..<sector_bytes vol div sizeof_FATDirectory] @ cluster_slots vol n (Suc s)"
  by (simp add: cluster_slots_def upt_conv_Cons)

lemma cluster_slots_end: "\<not> s < unat (SectorsPerCluster (Boot vol)) \<Longrightarrow> cluster_slots vol n s = []"
  by (simp add: cluster_slots_def)

lemma dir_slots_simps [simp]:
  "dir_slots vol [] = []" "dir_slots vol (n # ns) = cluster_slots vol n 0 @ dir_slots vol ns"
  by (simp_all add: dir_slots_def)

lemma in_cluster_slots:
  "(m, s, i) \<in> set (cluster_slots vol n s0) \<longleftrightarrow> m = n \<and> s0 \<le> s \<and> s < unat (SectorsPerCluster (Boot vol)) \<and>
     i < sector_bytes vol div sizeof_FATDirectory"
  by (force simp: cluster_slots_def)

lemma in_dir_slots:
  "(n, s, i) \<in> set (dir_slots vol ns) \<longleftrightarrow> n \<in> set ns \<and> s < unat (SectorsPerCluster (Boot vol)) \<and>
     i < sector_bytes vol div sizeof_FATDirectory"
  by (auto simp: dir_slots_def in_cluster_slots)

lemma entry_of_slot:
  assumes "i < sector_bytes vol div sizeof_FATDirectory"
  shows "entry_of (range_of c (cluster_start vol S n + s * sector_bytes vol) (sector_bytes vol)) i =
     slot_entry vol S c (n, s, i)"
    "hd (Name (slot_entry vol S c (n, s, i))) = c (slot_start vol S (n, s, i))"
proof -
  have "(i + 1) * 32 \<le> sector_bytes vol div 32 * 32" using assms by (intro mult_le_mono1) (simp add: sizeof_FATDirectory_def)
  also have "\<dots> \<le> sector_bytes vol" by simp
  finally have "32 * i + 32 \<le> sector_bytes vol" by simp
  then show "entry_of (range_of c (cluster_start vol S n + s * sector_bytes vol) (sector_bytes vol)) i =
     slot_entry vol S c (n, s, i)"
    by (simp add: entry_of_def slot_entry_def range_of_sub slot_start_def)
  show "hd (Name (slot_entry vol S c (n, s, i))) = c (slot_start vol S (n, s, i))"
    by (simp add: slot_entry_def hd_Name_at)
qed

lemma free_entry_find:
  assumes "i \<le> E" "\<And>j. j < E \<Longrightarrow> (hd (Name (entry_of sector j)) = 0 \<or> hd (Name (entry_of sector j)) = 0xE5) = P (n, s, j)"
  shows "map_option (\<lambda>j. (n, s, j)) (free_entry sector E i) = List.find P (map (\<lambda>j. (n, s, j)) [i..<E])"
  using assms
proof (induction "E - i" arbitrary: i)
  case (Suc k)
  then have "i < E" by simp
  with Suc show ?case by (simp add: free_entry.simps [of sector E i] upt_conv_Cons)
qed (simp add: free_entry.simps)

lemma same_bytes_ok:
  assumes "length a = n" "length b = n" "0 \<notin> set b"
  shows "same_bytes a b n = Inr (a = b)"
proof -
  have "char_of_byte x \<noteq> NUL" if "x \<noteq> 0" for x
    using byte_of_char_of_byte [of x] that by (auto simp: byte_of_def)
  then have "\<forall>x \<in> set b. char_of_byte x \<noteq> NUL" using assms(3) by metis
  then have "NUL \<notin> set (map char_of_byte b)" by force
  then obtain v where "cmp_ref (map char_of_byte a @ []) (map char_of_byte b @ []) n = Inr v"
    "v = 0 \<longleftrightarrow> map char_of_byte a = map char_of_byte b"
    using cmp_ref_full [of "map char_of_byte a" n "map char_of_byte b" "[]" "[]"] assms(1,2) by auto
  moreover have "map char_of_byte a = map char_of_byte b \<longleftrightarrow> a = b"
    by (intro inj_eq inj_mapI injI) (metis byte_of_char_of_byte)
  ultimately show ?thesis by (simp add: same_bytes_def strncmp_def strncmp_loop_ref)
qed

definition scan_as_lookup :: "nat \<Rightarrow> nat \<Rightarrow> scan \<Rightarrow> scan \<times> (nat \<times> nat \<times> nat) option" where
  "scan_as_lookup n s r = (case r of Match j \<Rightarrow> (Match 0, Some (n, s, j)) | _ \<Rightarrow> (r, None))"

context byte_device
begin

lemma read_dir_sector:
  assumes "good d" "fat_volume vol (capacity d) N S" "2 \<le> n" "n < N + 2" "s < unat (SectorsPerCluster (Boot vol))"
  shows "\<exists>d'. read_sector D vol (of_nat (cluster_sector vol S n) + of_nat s) d =
     Some (Inr (range_of (content d) (cluster_start vol S n + s * sector_bytes vol) (sector_bytes vol), d')) \<and> keeps d d'"
proof -
  have "(s + 1) * sector_bytes vol \<le> unat (SectorsPerCluster (Boot vol)) * sector_bytes vol"
    using assms(5) by (intro mult_le_mono1) simp
  then have "sector_start vol (cluster_sector vol S n + s) + sector_bytes vol \<le> capacity d"
    using cluster_ranges(1) [OF assms(2-4)] by (simp add: sector_start_add cluster_start_def cluster_size_def)
  from read_sector_ok [OF assms(1) fat_volume_bounds(1) [OF assms(2)] this fat_volume_bounds(4) [OF assms(2)]]
  show ?thesis by (simp add: sector_start_add cluster_start_def)
qed

lemma free_in_cluster_ok:
  assumes "good d" "fat_volume vol (capacity d) N S" "2 \<le> n" "n < N + 2" "s \<le> unat (SectorsPerCluster (Boot vol))"
  shows "\<exists>d'. free_in_cluster D vol (of_nat n) (of_nat (cluster_sector vol S n)) s d =
     Some (Inr (map_option pack_slot (List.find (slot_free vol S (content d)) (cluster_slots vol n s)), d')) \<and> keeps d d'"
  using assms
proof (induction "unat (SectorsPerCluster (Boot vol)) - s" arbitrary: s d)
  case 0
  then show ?case by (simp add: free_in_cluster.simps [of D vol] cluster_slots_end same_disk_def)
next
  case (Suc k)
  let ?E = "sector_bytes vol div sizeof_FATDirectory" and ?c = "content d"
  let ?sec = "range_of ?c (cluster_start vol S n + s * sector_bytes vol) (sector_bytes vol)"
  have s: "s < unat (SectorsPerCluster (Boot vol))" using Suc.hyps(2) by simp
  obtain d1 where rd: "read_sector D vol (of_nat (cluster_sector vol S n) + of_nat s) d = Some (Inr (?sec, d1))" "keeps d d1"
    using read_dir_sector [OF Suc.prems(1-4) s] by auto
  then have d1: "good d1" "content d1 = ?c" "capacity d1 = capacity d" by (simp_all add: same_disk_def)
  have f: "map_option (\<lambda>j. (n, s, j)) (free_entry ?sec ?E 0) = List.find (slot_free vol S ?c) (map (\<lambda>j. (n, s, j)) [0..<?E])"
    by (rule free_entry_find) (simp_all add: entry_of_slot slot_free_def)
  show ?case
  proof (cases "free_entry ?sec ?E 0")
    case (Some j)
    then show ?thesis using f [symmetric] rd s
      by (subst free_in_cluster.simps) (simp add: cluster_slots_step first_free_append pack_slot_def)
  next
    case None
    then have st: "free_in_cluster D vol (of_nat n) (of_nat (cluster_sector vol S n)) s d =
        free_in_cluster D vol (of_nat n) (of_nat (cluster_sector vol S n)) (Suc s) d1"
      "List.find (slot_free vol S ?c) (cluster_slots vol n s) = List.find (slot_free vol S ?c) (cluster_slots vol n (Suc s))"
    proof -
      show "free_in_cluster D vol (of_nat n) (of_nat (cluster_sector vol S n)) s d =
          free_in_cluster D vol (of_nat n) (of_nat (cluster_sector vol S n)) (Suc s) d1"
        using None rd s by (subst free_in_cluster.simps) simp
      show "List.find (slot_free vol S ?c) (cluster_slots vol n s) =
          List.find (slot_free vol S ?c) (cluster_slots vol n (Suc s))"
        using None f [symmetric] s by (simp add: cluster_slots_step first_free_append)
    qed
    have "k = unat (SectorsPerCluster (Boot vol)) - Suc s" using Suc.hyps(2) by simp
    from Suc.hyps(1) [OF this d1(1)] d1 Suc.prems s st show ?thesis by (auto simp: same_disk_def)
  qed
qed

lemma scan_entries_ok:
  assumes "good d" "i \<le> E" "length Nm = 8" "length Xt = 3" "0 \<notin> set Nm" "0 \<notin> set Xt"
    and "\<And>j. j < E \<Longrightarrow> entry_of sector j = ent (n, s, j)"
    and "\<And>j. j < E \<Longrightarrow> length (Name (ent (n, s, j))) = 8 \<and> length (Ext (ent (n, s, j))) = 3"
  shows "\<exists>r d'. scan_entries D Nm Xt sector E i d = Inr (r, d') \<and> keeps d d' \<and>
     lookup_slots Nm Xt ent (map (\<lambda>j. (n, s, j)) [i..<E]) = scan_as_lookup n s r \<and> (\<forall>j. r = Match j \<longrightarrow> j < E)"
  using assms
proof (induction "E - i" arbitrary: i d)
  case 0
  then show ?case by (simp add: scan_entries.simps [of D] scan_as_lookup_def same_disk_def)
next
  case (Suc k)
  have i: "i < E" using Suc.hyps(2) by simp
  let ?e = "ent (n, s, i)"
  have e: "entry_of sector i = ?e" "length (Name ?e) = 8" "length (Ext ?e) = 3" using Suc.prems(7,8) i by simp_all
  have up: "map (\<lambda>j. (n, s, j)) [i..<E] = (n, s, i) # map (\<lambda>j. (n, s, j)) [Suc i..<E]" using i by (simp add: upt_conv_Cons)
  have k: "k = E - Suc i" using Suc.hyps(2) by simp
  have rec: "\<exists>r d'. scan_entries D Nm Xt sector E (Suc i) d1 = Inr (r, d') \<and> keeps d1 d' \<and>
     lookup_slots Nm Xt ent (map (\<lambda>j. (n, s, j)) [Suc i..<E]) = scan_as_lookup n s r \<and> (\<forall>j. r = Match j \<longrightarrow> j < E)"
    if "good d1" for d1
    using Suc.hyps(1) [OF k that] Suc.prems i by simp
  have nm: "same_bytes (Name ?e) Nm 8 = Inr (Name ?e = Nm)" using e Suc.prems by (intro same_bytes_ok) simp_all
  have xt: "same_bytes (Ext ?e) Xt 3 = Inr (Ext ?e = Xt)" using e Suc.prems by (intro same_bytes_ok) simp_all
  consider "hd (Name ?e) = 0" | "hd (Name ?e) = FAT_UNUSED" | "hd (Name ?e) \<noteq> 0" "hd (Name ?e) \<noteq> FAT_UNUSED" "Flags ?e = FAT_LONG_FILE_NAME"
    | "hd (Name ?e) \<noteq> 0" "hd (Name ?e) \<noteq> FAT_UNUSED" "Flags ?e \<noteq> FAT_LONG_FILE_NAME" by blast
  then show ?case
  proof cases
    case 1
    then show ?thesis using i e(1) Suc.prems(1) unfolding up
      by (subst scan_entries.simps) (simp add: scan_as_lookup_def same_disk_def)
  next
    case 2
    then have "hd (Name ?e) \<noteq> 0" by (simp add: FAT_UNUSED_def)
    with 2 show ?thesis using i e(1) rec [OF Suc.prems(1)] unfolding up by (subst scan_entries.simps) simp
  next
    case 3
    have p: "good (dprint D lfn_warning d)" "keeps d (dprint D lfn_warning d)"
      using print_ok [OF Suc.prems(1)] by (simp_all add: same_disk_def)
    then have "keeps (dprint D lfn_warning d) d' \<Longrightarrow> keeps d d'" for d' by (simp add: same_disk_def)
    with 3 show ?thesis using i e(1) rec [OF p(1)] unfolding up by (subst scan_entries.simps) auto
  next
    case 4
    show ?thesis
    proof (cases "Name ?e = Nm \<and> Ext ?e = Xt")
      case True
      then show ?thesis using 4 i e(1) nm xt Suc.prems(1) unfolding up
        by (subst scan_entries.simps) (simp add: scan_as_lookup_def same_disk_def)
    next
      case False
      then have "scan_entries D Nm Xt sector E i d = scan_entries D Nm Xt sector E (Suc i) d"
        using 4 i e(1) nm xt by (subst scan_entries.simps) (auto simp: Let_def)
      then show ?thesis using False 4 rec [OF Suc.prems(1)] unfolding up by auto
    qed
  qed
qed

lemma locate_in_cluster_ok:
  assumes "good d" "fat_volume vol (capacity d) N S" "2 \<le> n" "n < N + 2" "s \<le> unat (SectorsPerCluster (Boot vol))"
    and names: "length Nm = 8" "length Xt = 3" "0 \<notin> set Nm" "0 \<notin> set Xt"
  defines "ent \<equiv> slot_entry vol S (content d)"
  shows "\<exists>d'. locate_in_cluster D Nm Xt vol (of_nat n) (of_nat (cluster_sector vol S n)) s d =
     Some (Inr (if fst (lookup_slots Nm Xt ent (cluster_slots vol n s)) = Beyond then None
       else Some (lookup_result ent (lookup_slots Nm Xt ent (cluster_slots vol n s))), d')) \<and> keeps d d'"
  using assms(1-5) unfolding ent_def
proof (induction "unat (SectorsPerCluster (Boot vol)) - s" arbitrary: s d)
  case 0
  then show ?case by (simp add: locate_in_cluster.simps [of D] cluster_slots_end same_disk_def)
next
  case (Suc k)
  let ?E = "sector_bytes vol div sizeof_FATDirectory" and ?c = "content d"
  let ?ent = "slot_entry vol S ?c" and ?L = "lookup_slots Nm Xt (slot_entry vol S ?c)"
  let ?sec = "range_of ?c (cluster_start vol S n + s * sector_bytes vol) (sector_bytes vol)"
  have s: "s < unat (SectorsPerCluster (Boot vol))" using Suc.hyps(2) by simp
  obtain d1 where rd: "read_sector D vol (of_nat (cluster_sector vol S n) + of_nat s) d = Some (Inr (?sec, d1))" "keeps d d1"
    using read_dir_sector [OF Suc.prems(1-4) s] by auto
  then have d1: "good d1" "content d1 = ?c" "capacity d1 = capacity d" by (simp_all add: same_disk_def)
  obtain r d2 where sc: "scan_entries D Nm Xt ?sec ?E 0 d1 = Inr (r, d2)" "keeps d1 d2"
    "?L (map (\<lambda>j. (n, s, j)) [0..<?E]) = scan_as_lookup n s r" "\<And>j. r = Match j \<Longrightarrow> j < ?E"
    using scan_entries_ok [OF d1(1) _ names, of 0 ?E ?sec ?ent n s]
    by (auto simp: entry_of_slot slot_entry_def directory_at_def)
  then have d2: "good d2" "content d2 = ?c" "capacity d2 = capacity d" using d1 by (simp_all add: same_disk_def)
  have step: "locate_in_cluster D Nm Xt vol (of_nat n) (of_nat (cluster_sector vol S n)) s d =
      (case r of End \<Rightarrow> Some (Inr (Some not_found, d2))
       | Match i \<Rightarrow> Some (Inr (Some (found_at (of_nat n) s i ?sec), d2))
       | Beyond \<Rightarrow> locate_in_cluster D Nm Xt vol (of_nat n) (of_nat (cluster_sector vol S n)) (Suc s) d2)"
    using rd(1) s sc(1) by (subst locate_in_cluster.simps) simp
  have L: "?L (cluster_slots vol n s) = (if r = Beyond then ?L (cluster_slots vol n (Suc s)) else scan_as_lookup n s r)"
    using s sc(3) by (cases r) (simp_all add: cluster_slots_step lookup_slots_append scan_as_lookup_def)
  show ?case
  proof (cases r)
    case Beyond
    have "k = unat (SectorsPerCluster (Boot vol)) - Suc s" using Suc.hyps(2) by simp
    from Suc.hyps(1) [OF this d2(1)] d2 Suc.prems s step L Beyond show ?thesis by (auto simp: same_disk_def)
  next
    case End
    then show ?thesis using step L d2 by (simp add: scan_as_lookup_def lookup_result_def same_disk_def)
  next
    case (Match j)
    then have "found_at (of_nat n) s j ?sec = lookup_result ?ent (scan_as_lookup n s r)"
      using sc(4) by (simp add: found_at_def lookup_result_def scan_as_lookup_def entry_of_slot)
    then show ?thesis using Match step L d2 by (simp add: scan_as_lookup_def same_disk_def)
  qed
qed

end

text \<open>The three fields of a location, which the code packs in 32 bits.\<close>

lemma unpack_slot:
  assumes "n < 2 ^ 16" "s < 2 ^ 8" "i < 2 ^ 8"
  shows "drop_bit 16 (pack_slot (n, s, i)) = of_nat n" "drop_bit 8 (pack_slot (n, s, i)) AND 0xFF = of_nat s"
    "pack_slot (n, s, i) AND 0xFF = of_nat i"
proof -
  have ff: "(0xFF :: u32) = mask 8" by (simp add: mask_eq_exp_minus_1)
  note b = bit_less_nat [OF _ assms(1)] bit_less_nat [OF _ assms(2)] bit_less_nat [OF _ assms(3)]
  have w: "bit (pack_slot (n, s, i)) k \<longleftrightarrow>
      k < 32 \<and> (16 \<le> k \<and> bit n (k - 16) \<or> 8 \<le> k \<and> bit s (k - 8) \<or> bit i k)" for k
    by (auto simp: pack_slot_def bit_or_iff bit_push_bit_iff bit_word_of_nat)
  show "drop_bit 16 (pack_slot (n, s, i)) = of_nat n"
    by (rule bit_word_eqI) (use b in \<open>fastforce simp: bit_drop_bit_eq w bit_word_of_nat\<close>)
  show "drop_bit 8 (pack_slot (n, s, i)) AND 0xFF = of_nat s" unfolding ff
    by (rule bit_word_eqI) (use b in \<open>fastforce simp: bit_drop_bit_eq bit_and_iff bit_mask_iff w bit_word_of_nat\<close>)
  show "pack_slot (n, s, i) AND 0xFF = of_nat i" unfolding ff
    by (rule bit_word_eqI) (use b in \<open>fastforce simp: bit_and_iff bit_mask_iff w bit_word_of_nat\<close>)
qed

lemma directory_at_bytes:
  assumes "length (Name e) = 8" "length (Ext e) = 3"
  shows "directory_at (directory_bytes e) = e" "length (directory_bytes e) = 32"
proof -
  obtain a b c d f g h i where n: "Name e = [a, b, c, d, f, g, h, i]"
    using assms(1) by (auto simp: numeral_eq_Suc length_Suc_conv)
  obtain j k l where x: "Ext e = [j, k, l]" using assms(2) by (auto simp: numeral_eq_Suc length_Suc_conv)
  have s2: "le_split 2 w = [ucast w, ucast (drop_bit 8 w)]" for w :: u16 by (simp add: le_split_def upt_rec numeral_eq_Suc)
  have s4: "le_split 4 w = [ucast w, ucast (drop_bit 8 w), ucast (drop_bit 16 w), ucast (drop_bit 24 w)]" for w :: u32
    by (simp add: le_split_def upt_rec)
  have j2: "le_join [ucast w, ucast (drop_bit 8 w)] = w" for w :: u16 using le_join_split [where 'a = 16, of 2 w] s2 by simp
  have j4: "le_join [ucast w, ucast (drop_bit 8 w), ucast (drop_bit 16 w), ucast (drop_bit 24 w)] = w" for w :: u32
    using le_join_split [where 'a = 32, of 4 w] s4 by simp
  show "directory_at (directory_bytes e) = e"
    by (simp add: directory_at_def directory_bytes_def n x s2 s4 j2 j4 del: le_join.simps)
  show "length (directory_bytes e) = 32" using assms by (simp add: directory_bytes_def)
qed

lemma first_cluster_join:
  "first_cluster (e\<lparr>EntryFirstClusterLow := ucast (c AND 0xFFFF), EntryFirstClusterHigh := ucast (drop_bit 16 c AND 0xFFFF), Size := sz\<rparr>) = c"
proof -
  have m: "(0xFFFF :: u32) = mask 16" by (simp add: mask_eq_exp_minus_1)
  show ?thesis unfolding first_cluster_def m
    by (rule bit_word_eqI) (auto simp: bit_or_iff bit_push_bit_iff bit_ucast_iff bit_and_iff bit_mask_iff bit_drop_bit_eq)
qed

lemma slot_ranges:
  assumes "s < unat (SectorsPerCluster (Boot vol))" "i < sector_bytes vol div sizeof_FATDirectory"
  shows "32 * i + 32 \<le> sector_bytes vol" "slot_start vol S (n, s, i) + 32 \<le> cluster_start vol S n + cluster_size vol"
    "cluster_start vol S n \<le> slot_start vol S (n, s, i)"
proof -
  have "(i + 1) * 32 \<le> sector_bytes vol div 32 * 32" using assms(2) by (intro mult_le_mono1) (simp add: sizeof_FATDirectory_def)
  also have "\<dots> \<le> sector_bytes vol" by simp
  finally show i: "32 * i + 32 \<le> sector_bytes vol" by simp
  have "(s + 1) * sector_bytes vol \<le> cluster_size vol"
    unfolding cluster_size_def using assms(1) by (intro mult_le_mono1) simp
  with i show "slot_start vol S (n, s, i) + 32 \<le> cluster_start vol S n + cluster_size vol"
    by (simp add: slot_start_def)
  show "cluster_start vol S n \<le> slot_start vol S (n, s, i)" by (simp add: slot_start_def)
qed

lemma slots_apart:
  assumes vol: "fat_volume vol cap N S" and ns: "\<And>n. n \<in> set ns \<Longrightarrow> 2 \<le> n \<and> n < N + 2"
    and sl: "sl \<in> set (dir_slots vol ns)" "sl' \<in> set (dir_slots vol ns)" "sl \<noteq> sl'"
  shows "slot_start vol S sl + 32 \<le> slot_start vol S sl' \<or> slot_start vol S sl' + 32 \<le> slot_start vol S sl"
proof -
  obtain n s i n' s' i' where e: "sl = (n, s, i)" "sl' = (n', s', i')" by (cases sl, cases sl')
  let ?K = "unat (SectorsPerCluster (Boot vol))" and ?E = "sector_bytes vol div sizeof_FATDirectory" and ?B = "sector_bytes vol"
  have r: "n \<in> set ns" "s < ?K" "i < ?E" "n' \<in> set ns" "s' < ?K" "i' < ?E" using sl(1,2) by (simp_all add: e in_dir_slots)
  note a = slot_ranges [OF r(2,3)] and b = slot_ranges [OF r(5,6)]
  show ?thesis
  proof (cases "n = n'")
    case False
    then show ?thesis using clusters_apart [OF _ _ False vol] ns [OF r(1)] ns [OF r(4)]
        a(2,3) [of S n] b(2,3) [of S n'] unfolding e by linarith
  next
    case n: True
    show ?thesis
    proof (cases "s = s'")
      case True
      then have "i \<noteq> i'" using sl(3) n by (simp add: e)
      then show ?thesis using n True by (auto simp: e slot_start_def)
    next
      case False
      then have "s + 1 \<le> s' \<or> s' + 1 \<le> s" by linarith
      then have "s * ?B + ?B \<le> s' * ?B \<or> s' * ?B + ?B \<le> s * ?B"
        using mult_le_mono1 [of "s + 1" s' ?B] mult_le_mono1 [of "s' + 1" s ?B] by auto
      then show ?thesis using n a(1) b(1) by (auto simp: e slot_start_def)
    qed
  qed
qed

lemma entry_written:
  fixes c :: "nat \<Rightarrow> u8"
  assumes vol: "fat_volume vol cap N S" and ns: "\<And>n. n \<in> set ns \<Longrightarrow> 2 \<le> n \<and> n < N + 2"
    and sl: "sl \<in> set (dir_slots vol ns)" and e: "length (Name e) = 8" "length (Ext e) = 3"
  defines "c' \<equiv> replace_range c (slot_start vol S sl) (directory_bytes e)"
  shows "slot_entry vol S c' sl = e"
    "sl' \<in> set (dir_slots vol ns) \<Longrightarrow> sl' \<noteq> sl \<Longrightarrow> slot_entry vol S c' sl' = slot_entry vol S c sl'"
proof -
  show "slot_entry vol S c' sl = e" using directory_at_bytes [OF e] by (simp add: c'_def slot_entry_def)
  assume "sl' \<in> set (dir_slots vol ns)" "sl' \<noteq> sl"
  then have "slot_start vol S sl' + 32 \<le> slot_start vol S sl \<or>
      slot_start vol S sl + length (directory_bytes e) \<le> slot_start vol S sl'"
    using slots_apart [OF vol ns sl, of sl'] directory_at_bytes(2) [OF e] by auto
  then show "slot_entry vol S c' sl' = slot_entry vol S c sl'"
    by (simp add: c'_def slot_entry_def range_replace_other)
qed

text \<open>A name written into the first free slot is the one that is found.\<close>

lemma lookup_written:
  assumes "List.find (\<lambda>sl. hd (Name (ent sl)) = 0 \<or> hd (Name (ent sl)) = 0xE5) sls = Some sl"
    and "snd (lookup_slots Nm Xt ent sls) = None" and "\<And>x. x \<in> set sls \<Longrightarrow> x \<noteq> sl \<Longrightarrow> ent' x = ent x"
    and "Name (ent' sl) = Nm" "Ext (ent' sl) = Xt" "Flags (ent' sl) \<noteq> FAT_LONG_FILE_NAME" "hd Nm \<noteq> 0" "hd Nm \<noteq> FAT_UNUSED"
  shows "snd (lookup_slots Nm Xt ent' sls) = Some sl"
  using assms
proof (induction sls)
  case (Cons x xs)
  show ?case
  proof (cases "x = sl")
    case False
    then have x: "\<not> (hd (Name (ent x)) = 0 \<or> hd (Name (ent x)) = 0xE5)" "ent' x = ent x"
      using Cons.prems(1,3) by (auto split: if_splits)
    have nf: "List.find (\<lambda>sl. hd (Name (ent sl)) = 0 \<or> hd (Name (ent sl)) = 0xE5) xs = Some sl"
      using Cons.prems(1) x(1) by (auto split: if_splits)
    have "snd (lookup_slots Nm Xt ent xs) = None" using Cons.prems(2) x(1) by (simp split: if_splits)
    then have "snd (lookup_slots Nm Xt ent' xs) = Some sl" using Cons.IH [OF nf] Cons.prems(3-8) by simp
    moreover have "snd (lookup_slots Nm Xt ent' (x # xs)) = snd (lookup_slots Nm Xt ent' xs)"
      using x Cons.prems(2) by (auto split: if_splits)
    ultimately show ?thesis by simp
  qed (use Cons.prems in simp)
qed simp

lemma chain_head_word:
  assumes "fat_chain N l (n # ns)" "N + 2 < 0x0FFFFFF8"
  shows "(of_nat n :: u32) < 0x0FFFFFF8" "2 \<le> n" "n < N + 2"
    "ns = [] \<Longrightarrow> \<not> l n < 0x0FFFFFF8" "ns \<noteq> [] \<Longrightarrow> l n = of_nat (hd ns) \<and> fat_chain N l ns"
proof -
  show n: "2 \<le> n" "n < N + 2" using fat_chain_in [OF assms(1), of n] by simp_all
  then have "unat (of_nat n :: u32) = n" using assms(2) by (intro unat_of_nat32) simp
  then show "(of_nat n :: u32) < 0x0FFFFFF8" using n assms(2) by (simp add: word_less_nat_alt)
  show "ns = [] \<Longrightarrow> \<not> l n < 0x0FFFFFF8" "ns \<noteq> [] \<Longrightarrow> l n = of_nat (hd ns) \<and> fat_chain N l ns"
    using assms(1) by (cases ns; simp add: not_less)+
qed

context byte_device
begin

lemma free_in_chain_ok:
  assumes "good d" "fat_volume vol (capacity d) N S" "fat_chain N (fat_link vol (content d)) ns"
  shows "\<exists>d'. free_in_chain D vol (of_nat (hd ns)) d =
     Some (Inr (first_free vol S (content d) (dir_slots vol ns), d')) \<and> keeps d d'"
  using assms
proof (induction ns arbitrary: d)
  case (Cons n ns)
  let ?c = "content d"
  have N28: "N + 2 < 0x0FFFFFF8" using Cons.prems(2) by (simp add: fat_volume_def)
  note n = chain_head_word [OF Cons.prems(3) N28]
  let ?f = "List.find (slot_free vol S ?c) (cluster_slots vol n 0)"
  obtain d1 where fc: "free_in_cluster D vol (of_nat n) (of_nat (cluster_sector vol S n)) 0 d =
      Some (Inr (map_option pack_slot ?f, d1))" "keeps d d1"
    using free_in_cluster_ok [OF Cons.prems(1,2) n(2,3), of 0] by auto
  then have d1: "good d1" "content d1 = ?c" "capacity d1 = capacity d" by (simp_all add: same_disk_def)
  obtain d2 where nx: "FatNextCluster D vol (of_nat n) d1 = Some (Inr (fat_link vol ?c n, d2))" "keeps d1 d2"
    using FatNextCluster_ok [OF d1(1), of vol N S n] Cons.prems(2) d1 n by auto
  then have d2: "good d2" "content d2 = ?c" "capacity d2 = capacity d" using d1 by (simp_all add: same_disk_def)
  have step: "free_in_chain D vol (of_nat n) d = (case ?f of Some sl \<Rightarrow> Some (Inr (pack_slot sl, d1))
      | None \<Rightarrow> free_in_chain D vol (fat_link vol ?c n) d2)"
    using n(1) FatFirstSectorForCluster_ok [OF Cons.prems(2) n(2,3)] fc(1) nx(1)
    by (subst free_in_chain.simps) (simp split: option.split)
  show ?case
  proof (cases ?f)
    case (Some sl)
    then show ?thesis using step d1 by (simp add: first_free_def first_free_append same_disk_def)
  next
    case None
    show ?thesis
    proof (cases "ns = []")
      case True
      then have "free_in_chain D vol (fat_link vol ?c n) d2 = Some (Inr (0, d2))"
        using n(4) by (subst free_in_chain.simps) simp
      then show ?thesis using None True step d2 by (simp add: first_free_def same_disk_def)
    next
      case False
      then have l: "fat_link vol ?c n = of_nat (hd ns)" "fat_chain N (fat_link vol (content d2)) ns" using n(5) d2 by simp_all
      have "first_free vol S ?c (dir_slots vol (n # ns)) = first_free vol S ?c (dir_slots vol ns)"
        using None by (simp add: first_free_def first_free_append)
      then show ?thesis using Cons.IH [OF d2(1) _ l(2)] Cons.prems(2) d2 step None l(1) by (auto simp: same_disk_def)
    qed
  qed
qed simp

lemma locate_in_chain_ok:
  assumes "good d" "fat_volume vol (capacity d) N S" "fat_chain N (fat_link vol (content d)) ns"
    and names: "length Nm = 8" "length Xt = 3" "0 \<notin> set Nm" "0 \<notin> set Xt"
  shows "\<exists>d'. locate_in_chain D Nm Xt vol (of_nat (hd ns)) d =
     Some (Inr (lookup_result (slot_entry vol S (content d))
       (lookup_slots Nm Xt (slot_entry vol S (content d)) (dir_slots vol ns)), d')) \<and> keeps d d'"
  using assms(1-3)
proof (induction ns arbitrary: d)
  case (Cons n ns)
  let ?c = "content d"
  have N28: "N + 2 < 0x0FFFFFF8" using Cons.prems(2) by (simp add: fat_volume_def)
  note n = chain_head_word [OF Cons.prems(3) N28]
  let ?ent = "slot_entry vol S ?c"
  let ?r = "lookup_slots Nm Xt ?ent (cluster_slots vol n 0)"
  obtain d1 where fc: "locate_in_cluster D Nm Xt vol (of_nat n) (of_nat (cluster_sector vol S n)) 0 d =
      Some (Inr (if fst ?r = Beyond then None else Some (lookup_result ?ent ?r), d1))" "keeps d d1"
    using locate_in_cluster_ok [OF Cons.prems(1,2) n(2,3) _ names, of 0] by auto
  then have d1: "good d1" "content d1 = ?c" "capacity d1 = capacity d" by (simp_all add: same_disk_def)
  obtain d2 where nx: "FatNextCluster D vol (of_nat n) d1 = Some (Inr (fat_link vol ?c n, d2))" "keeps d1 d2"
    using FatNextCluster_ok [OF d1(1), of vol N S n] Cons.prems(2) d1 n by auto
  then have d2: "good d2" "content d2 = ?c" "capacity d2 = capacity d" using d1 by (simp_all add: same_disk_def)
  have step: "locate_in_chain D Nm Xt vol (of_nat n) d =
      (if fst ?r = Beyond then locate_in_chain D Nm Xt vol (fat_link vol ?c n) d2 else Some (Inr (lookup_result ?ent ?r, d1)))"
    using n(1) FatFirstSectorForCluster_ok [OF Cons.prems(2) n(2,3)] fc(1) nx(1)
    by (subst locate_in_chain.simps) simp
  show ?case
  proof (cases "fst ?r = Beyond")
    case False
    then show ?thesis using step d1 by (simp add: lookup_slots_append same_disk_def)
  next
    case b: True
    show ?thesis
    proof (cases "ns = []")
      case True
      then have "locate_in_chain D Nm Xt vol (fat_link vol ?c n) d2 = Some (Inr (not_found, d2))"
        using n(4) by (subst locate_in_chain.simps) simp
      then show ?thesis using b True step d2
        by (simp add: lookup_slots_append lookup_slots_beyond lookup_result_def same_disk_def)
    next
      case False
      then have l: "fat_link vol ?c n = of_nat (hd ns)" "fat_chain N (fat_link vol (content d2)) ns" using n(5) d2 by simp_all
      then show ?thesis using Cons.IH [OF d2(1) _ l(2)] Cons.prems(2) d2 step b
        by (auto simp: same_disk_def lookup_slots_append)
    qed
  qed
qed simp

lemma FatWriteDirectoryEntry_ok:
  assumes "good d" "fat_volume vol (capacity d) N S" "2 \<le> n" "n < N + 2" "n < 2 ^ 16"
    and "s < unat (SectorsPerCluster (Boot vol))" "i < sector_bytes vol div sizeof_FATDirectory" "sector_bytes vol \<le> 8192"
    and "length (Name e) = 8" "length (Ext e) = 3"
  shows "\<exists>d'. FatWriteDirectoryEntry D vol (pack_slot (n, s, i)) e d = Some (Inr d') \<and>
     changed d (replace_range (content d) (slot_start vol S (n, s, i)) (directory_bytes e)) d'"
proof -
  let ?B = "sector_bytes vol" and ?c = "content d" and ?b = "directory_bytes e"
  let ?a = "cluster_start vol S n + s * ?B"
  let ?sec = "range_of ?c ?a ?B"
  note sr = slot_ranges [OF assms(6,7)]
  have "unat (SectorsPerCluster (Boot vol)) < 256" using unsigned_less [of "SectorsPerCluster (Boot vol)"] by simp
  then have s8: "s < 2 ^ 8" using assms(6) by simp
  have i8: "i < 2 ^ 8" using sr(1) assms(8) by simp
  note u = unpack_slot [OF assms(5) s8 i8]
  have ui: "unat (of_nat i :: u32) = i" using i8 by (intro unat_of_nat32) simp
  have len: "length ?b = 32" by (rule directory_at_bytes(2) [OF assms(9,10)])
  obtain d1 where rd: "read_sector D vol (of_nat (cluster_sector vol S n) + of_nat s) d = Some (Inr (?sec, d1))" "keeps d d1"
    using read_dir_sector [OF assms(1-4,6)] by auto
  then have d1: "good d1" "content d1 = ?c" "capacity d1 = capacity d" by (simp_all add: same_disk_def)
  obtain s1 where s1: "put_bytes ?sec (i * 32) ?b = Inr s1" using sr(1) len by simp
  have l1: "length s1 = ?B" using put_bytes_length [OF s1] by simp
  have st: "sector_start vol (cluster_sector vol S n + s) = ?a" by (simp add: sector_start_add cluster_start_def)
  have "(s + 1) * ?B \<le> cluster_size vol" unfolding cluster_size_def using assms(6) by (intro mult_le_mono1) simp
  then have "?a + ?B \<le> capacity d" using cluster_ranges(1) [OF assms(2-4)] by simp
  then obtain d2 where wr: "WriteTo D (FatSectorToOffset vol (of_nat (cluster_sector vol S n) + of_nat s)) s1 d1 = Some (Inr d2)"
    "changed d1 (replace_range ?c ?a s1) d2"
    using write_sector_ok [OF d1(1) fat_volume_bounds(1) [OF assms(2)] _ _ l1, of "cluster_sector vol S n + s"]
      fat_volume_bounds(4) [OF assms(2)] st d1 by auto
  have "replace_range ?c ?a s1 = replace_range ?c (slot_start vol S (n, s, i)) ?b"
  proof
    fix x
    show "replace_range ?c ?a s1 x = replace_range ?c (slot_start vol S (n, s, i)) ?b x"
    proof (cases "?a \<le> x \<and> x < ?a + ?B")
      case True
      then obtain j where j: "x = ?a + j" "j < ?B" by (metis less_diff_conv2 le_add_diff_inverse add.commute)
      have a: "slot_start vol S (n, s, i) = ?a + i * 32" by (simp add: slot_start_def)
      show ?thesis unfolding j(1) a replace_range_def
        using put_bytes_nth [OF s1, of j] j(2) len l1 by simp
    next
      case False
      then show ?thesis using len l1 sr(1) by (auto simp: replace_range_def slot_start_def)
    qed
  qed
  then show ?thesis
    using u FatFirstSectorForCluster_ok [OF assms(2-4)] rd s1 wr d1
    by (auto simp: FatWriteDirectoryEntry_def Let_def sizeof_FATDirectory_def ui same_disk_def)
qed

end

section \<open>Names in 8.3 form\<close>

lemma byte_of_0 [simp]: "byte_of c = 0 \<longleftrightarrow> c = NUL"
proof -
  have "byte_of NUL = 0" by (simp add: byte_of_def)
  then show ?thesis by (metis byte_of_eq_iff)
qed

lemma convert_base_names:
  "convert_base path k n X = Inr (Y, k') \<Longrightarrow> length Y = length X \<and> (0 \<notin> set X \<longrightarrow> 0 \<notin> set Y)"
proof (induction path k n X arbitrary: Y rule: convert_base.induct)
  case (1 path k n X)
  obtain c where c: "cget path k = Inr c" using 1(2) by (subst (asm) convert_base.simps) (cases "cget path k"; simp)
  show ?case
  proof (cases "c \<noteq> NUL \<and> c \<noteq> CHR ''.'' \<and> n < 8")
    case True
    then have "convert_base path (Suc k) (Suc n) (X[n := byte_of c]) = Inr (Y, k')"
      using 1(2) c by (subst (asm) convert_base.simps) simp
    from 1(1) [OF True this] True have "length Y = length X"
      "0 \<notin> set (X[n := byte_of c]) \<longrightarrow> 0 \<notin> set Y" by simp_all
    moreover have "0 \<notin> set X \<Longrightarrow> 0 \<notin> set (X[n := byte_of c])"
      using set_update_subset_insert [of X n "byte_of c"] True by auto
    ultimately show ?thesis by blast
  next
    case False
    then show ?thesis using 1(2) c by (subst (asm) convert_base.simps) auto
  qed
qed

lemma convert_ext_names:
  "convert_ext path k n X = Inr Y \<Longrightarrow> length Y = length X \<and> (0 \<notin> set X \<longrightarrow> 0 \<notin> set Y)"
proof (induction path k n X arbitrary: Y rule: convert_ext.induct)
  case (1 path k n X)
  obtain c where c: "cget path k = Inr c" using 1(2) by (subst (asm) convert_ext.simps) (cases "cget path k"; simp)
  show ?case
  proof (cases "c \<noteq> NUL \<and> n < 3 \<and> c \<noteq> CHR ''/''")
    case True
    then have "convert_ext path (Suc k) (Suc n) (X[n := byte_of c]) = Inr Y"
      using 1(2) c by (subst (asm) convert_ext.simps) simp
    from 1(1) [OF True this] True have "length Y = length X"
      "0 \<notin> set (X[n := byte_of c]) \<longrightarrow> 0 \<notin> set Y" by simp_all
    moreover have "0 \<notin> set X \<Longrightarrow> 0 \<notin> set (X[n := byte_of c])"
      using set_update_subset_insert [of X n "byte_of c"] True by auto
    ultimately show ?thesis by blast
  next
    case False
    then show ?thesis using 1(2) c by (subst (asm) convert_ext.simps) auto
  qed
qed

lemma FatConvert83_names:
  assumes "FatConvert83 path = Inr (Nm, Xt)"
  shows "length Nm = 8" "length Xt = 3" "0 \<notin> set Nm" "0 \<notin> set Xt"
proof -
  obtain k where b: "convert_base path 0 0 (replicate 8 0x20) = Inr (Nm, k)"
    and e: "\<exists>k'. convert_ext path k' 0 (replicate 3 0x20) = Inr Xt"
    using assms unfolding FatConvert83_def rbind_def by (auto split: sum.splits prod.splits)
  show "length Nm = 8" "0 \<notin> set Nm" using convert_base_names [OF b] by simp_all
  from e show "length Xt = 3" "0 \<notin> set Xt" using convert_ext_names by fastforce+
qed

text \<open>The closed form of the two loops.\<close>

lemma convert_base_run:
  assumes "NUL \<notin> set b" "CHR ''.'' \<notin> set b" "length b \<le> 8 - n" "n \<le> 8" "length X = 8"
    and "length b = 8 - n \<or> c = NUL \<or> c = CHR ''.''"
  shows "convert_base (pre @ b @ c # rest) (length pre) n X =
    Inr (take n X @ map byte_of b @ drop (n + length b) X, length pre + length b)"
  using assms
proof (induction b arbitrary: pre n X)
  case Nil
  then show ?case by (subst convert_base.simps) (auto simp: cget_def nth_append)
next
  case (Cons a b)
  then have n: "n < 8" by simp
  have "convert_base (pre @ (a # b) @ c # rest) (length pre) n X =
      convert_base ((pre @ [a]) @ b @ c # rest) (length (pre @ [a])) (Suc n) (X[n := byte_of a])"
    using Cons.prems n by (subst convert_base.simps) (auto simp: cget_def nth_append)
  also have "\<dots> = Inr (take (Suc n) (X[n := byte_of a]) @ map byte_of b @ drop (Suc n + length b) (X[n := byte_of a]),
      length (pre @ [a]) + length b)"
    using Cons.prems n by (intro Cons.IH) auto
  also have "take (Suc n) (X[n := byte_of a]) = take n X @ [byte_of a]"
    using n Cons.prems(5) by (simp add: take_Suc_conv_app_nth)
  finally show ?case by simp
qed

lemma convert_ext_run:
  assumes "NUL \<notin> set b" "CHR ''/'' \<notin> set b" "length b \<le> 3 - n" "n \<le> 3" "length X = 3"
    and "length b = 3 - n \<or> c = NUL \<or> c = CHR ''/''"
  shows "convert_ext (pre @ b @ c # rest) (length pre) n X = Inr (take n X @ map byte_of b @ drop (n + length b) X)"
  using assms
proof (induction b arbitrary: pre n X)
  case Nil
  then show ?case by (subst convert_ext.simps) (auto simp: cget_def nth_append)
next
  case (Cons a b)
  then have n: "n < 3" by simp
  have "convert_ext (pre @ (a # b) @ c # rest) (length pre) n X =
      convert_ext ((pre @ [a]) @ b @ c # rest) (length (pre @ [a])) (Suc n) (X[n := byte_of a])"
    using Cons.prems n by (subst convert_ext.simps) (auto simp: cget_def nth_append)
  also have "\<dots> = Inr (take (Suc n) (X[n := byte_of a]) @ map byte_of b @ drop (Suc n + length b) (X[n := byte_of a]))"
    using Cons.prems n by (intro Cons.IH) auto
  also have "take (Suc n) (X[n := byte_of a]) = take n X @ [byte_of a]"
    using n Cons.prems(5) by (simp add: take_Suc_conv_app_nth)
  finally show ?case by simp
qed

definition pad :: "nat \<Rightarrow> string \<Rightarrow> u8 list" where
  "pad n s = map byte_of s @ replicate (n - length s) 0x20"

text \<open>
  \<^verbatim>\<open>FatConvert83\<close> of a base of at most eight characters, a dot, and an extension of
  at most three characters gives both padded with spaces to the eight and three bytes of a
  directory entry; without a dot the extension is all spaces.
\<close>

theorem FatConvert83_padded:
  assumes "NUL \<notin> set base" "CHR ''.'' \<notin> set base" "length base \<le> 8"
    and "NUL \<notin> set ext" "CHR ''/'' \<notin> set ext" "length ext \<le> 3"
  shows "FatConvert83 (base @ CHR ''.'' # ext @ NUL # rest) = Inr (pad 8 base, pad 3 ext)"
    "FatConvert83 (base @ NUL # rest) = Inr (pad 8 base, pad 3 '''')"
proof -
  have b: "convert_base (base @ c # r) 0 0 (replicate 8 0x20) = Inr (pad 8 base, length base)"
    if "c = NUL \<or> c = CHR ''.''" for c r
    using convert_base_run [of base 0 "replicate 8 0x20" c "[]" r] assms(1-3) that by (auto simp: pad_def)
  have "convert_ext ((base @ ''.'') @ ext @ NUL # rest) (length (base @ ''.'')) 0 (replicate 3 0x20) = Inr (pad 3 ext)"
    using convert_ext_run [of ext 0 "replicate 3 0x20" NUL "base @ ''.''" rest] assms(4-6) by (simp add: pad_def)
  then show "FatConvert83 (base @ CHR ''.'' # ext @ NUL # rest) = Inr (pad 8 base, pad 3 ext)"
    using b [of "CHR ''.''" "ext @ NUL # rest"] by (simp add: FatConvert83_def cget_def nth_append)
  have "convert_ext (base @ [] @ NUL # rest) (length base) 0 (replicate 3 0x20) = Inr (pad 3 '''')"
    using convert_ext_run [of "[]" 0 "replicate 3 0x20" NUL base rest] by (simp add: pad_def)
  then show "FatConvert83 (base @ NUL # rest) = Inr (pad 8 base, pad 3 '''')"
    using b [of NUL rest] by (simp add: FatConvert83_def cget_def nth_append)
qed

theorem FatConvert83_padded_witness:
  "FatConvert83 ''A.B'' = Inl Fault \<and> FatConvert83 (''KERNEL.SYS'' @ [NUL]) = Inr (pad 8 ''KERNEL'', pad 3 ''SYS'')"
  using FatConvert83_padded(1) [of "''KERNEL''" "''SYS''" "[]"] by (simp add: FatConvert83_def convert_base.simps convert_ext.simps cget_def)

text \<open>
  A base of more than eight characters is not cut at its dot: \<^verbatim>\<open>FatConvert83\<close>
  takes the three characters after the eighth for the extension, so that two files whose names
  differ only in their extensions get the same entry name.
\<close>

theorem FatConvert83_long:
  assumes "NUL \<notin> set base" "CHR ''.'' \<notin> set base" "length base = 8"
    and "NUL \<notin> set e" "CHR ''/'' \<notin> set e" "length e = 3" "hd e \<noteq> CHR ''.''"
  shows "FatConvert83 (base @ e @ x # rest) = Inr (map byte_of base, map byte_of e)"
proof -
  obtain a b c where e: "e = [a, b, c]" using assms(6) by (auto simp: numeral_eq_Suc length_Suc_conv)
  have 1: "convert_base (base @ a # (b # c # x # rest)) 0 0 (replicate 8 0x20) = Inr (map byte_of base, 8)"
    using convert_base_run [of base 0 "replicate 8 0x20" a "[]" "b # c # x # rest"] assms(1-3) by simp
  have 2: "convert_ext (base @ e @ x # rest) 8 0 (replicate 3 0x20) = Inr (map byte_of e)"
    using convert_ext_run [of e 0 "replicate 3 0x20" x base rest] assms(3-6) by simp
  have "cget (base @ e @ x # rest) 8 = Inr a" using assms(3) by (simp add: cget_def nth_append e)
  then show ?thesis using 1 2 assms(7) by (simp add: FatConvert83_def e)
qed

theorem FatConvert83_long_witness:
  "FatConvert83 (''LONGNAMED.TXT'' @ [NUL]) = FatConvert83 (''LONGNAMED.TXU'' @ [NUL])"
  using FatConvert83_long [of "''LONGNAME''" "''D.T''" "CHR ''X''" "''T'' @ [NUL]"]
    FatConvert83_long [of "''LONGNAME''" "''D.T''" "CHR ''X''" "''U'' @ [NUL]"] by simp

section \<open>Whole files\<close>

lemma FatCreateEntry_ok:
  assumes "FatConvert83 path = Inr (Nm, Xt)" "FatCreateEntry path c sz a = Inr e"
  shows "Name e = Nm" "Ext e = Xt" "Flags e = a" "first_cluster e = c" "Size e = sz"
proof -
  have e: "e = zero_directory\<lparr>Name := Nm, Ext := Xt, Flags := a,
          EntryFirstClusterLow := ucast (c AND 0xFFFF),
          EntryFirstClusterHigh := ucast (drop_bit 16 c AND 0xFFFF), Size := sz\<rparr>"
    using assms by (simp add: FatCreateEntry_def)
  then show "Name e = Nm" "Ext e = Xt" "Flags e = a" "Size e = sz" by simp_all
  show "first_cluster e = c"
    using first_cluster_join [where e = "zero_directory\<lparr>Name := Nm, Ext := Xt, Flags := a\<rparr>" and c = c and sz = sz] by (simp add: e)
qed

text \<open>
  What a write into a directory needs: the directory's chain, room for the data and for the
  entry in it, and no entry of that name. \<^verbatim>\<open>FatFindFreeEntry\<close> packs the place of the
  entry in 32 bits, so the directory's clusters are below 65536 and a sector has at most 256
  entries.
\<close>

definition write_ready ::
  "FATVolume \<Rightarrow> nat \<Rightarrow> nat \<Rightarrow> (nat \<Rightarrow> u8) \<Rightarrow> nat list \<Rightarrow> u8 list \<Rightarrow> u8 list \<Rightarrow> u8 list \<Rightarrow> nat \<Rightarrow> bool" where
  "write_ready vol N S c dir Nm Xt data sz \<longleftrightarrow>
     fat_chain N (fat_link vol c) dir \<and> (\<forall>n \<in> set dir. n < 2 ^ 16) \<and> sector_bytes vol \<le> 8192 \<and>
     0 < sz \<and> sz + 1 < 2 ^ 31 \<and> sz \<le> card (free_clusters vol N c) * cluster_size vol \<and>
     whole_sectors (sector_bytes vol) sz \<le> length data \<and>
     (\<exists>sl \<in> set (dir_slots vol dir). slot_free vol S c sl) \<and>
     hd Nm \<noteq> FAT_UNUSED \<and>
     snd (lookup_slots Nm Xt (slot_entry vol S c) (dir_slots vol dir)) = None"

context byte_device
begin

lemma FatWriteData_ok:
  assumes "good d" "fat_volume vol (capacity d) N S"
    and "0 < sz" "sz < 2 ^ 32" "sz \<le> card (free_clusters vol N (content d)) * cluster_size vol"
    and "whole_sectors (sector_bytes vol) sz \<le> length data"
  shows "\<exists>ms c' d'. FatWriteData D vol data (of_nat sz) d = Some (Inr (of_nat (hd ms), d')) \<and> changed d c' d' \<and>
     ms \<noteq> [] \<and> set ms \<subseteq> free_clusters vol N (content d) \<and> distinct ms \<and> fat_chain N (fat_link vol c') ms \<and>
     length ms * cluster_size vol = whole_sectors (cluster_size vol) sz \<and>
     (\<forall>m < N + 2. m \<notin> set ms \<longrightarrow> fat_link vol c' m = fat_link vol (content d) m) \<and>
     (\<forall>m. 2 \<le> m \<and> m < N + 2 \<and> m \<notin> set ms \<longrightarrow> cluster_data vol S c' m = cluster_data vol S (content d) m) \<and>
     take sz (file_bytes vol S c' ms) = take sz data"
proof -
  have C: "0 < cluster_size vol" using fat_volume_bounds(7) [OF assms(2)] .
  obtain ms c' d' where w: "write_clusters D vol data 0 0 0 (of_nat sz) d = Some (Inr (link_of (head_of ms), d'))"
    "changed d c' d'" "set ms \<subseteq> free_clusters vol N (content d)"
    "length ms * cluster_size vol = whole_sectors (cluster_size vol) sz" "chain_so_far N (fat_link vol c') ms"
    "\<forall>m < N + 2. m \<notin> set ms \<longrightarrow> fat_link vol c' m = fat_link vol (content d) m"
    "\<forall>m. 2 \<le> m \<and> m < N + 2 \<and> m \<notin> set ms \<longrightarrow> cluster_data vol S c' m = cluster_data vol S (content d) m"
    "take sz (file_bytes vol S c' ms) = take sz data"
    using write_clusters_ok [OF assms(1,2,5,4), of 0 data "[]"] assms(6)
    by (auto simp: chain_so_far_def head_of_def tail_of_def)
  have "0 < whole_sectors (cluster_size vol) sz" using whole_sectors_step(4) [OF C, of sz] assms(3) by simp
  then have "ms \<noteq> []" using w(4) by auto
  then have "fat_chain N (fat_link vol c') ms" "distinct ms" "link_of (head_of ms) = of_nat (hd ms)"
    using w(5) by (simp_all add: chain_so_far_def head_of_def)
  then show ?thesis using w \<open>ms \<noteq> []\<close> by (auto simp: FatWriteData_def)
qed

end

lemma pack_slot_nonzero:
  assumes "2 \<le> n" "n < 2 ^ 16" "s < unat (SectorsPerCluster (Boot vol))"
    "i < sector_bytes vol div sizeof_FATDirectory" "sector_bytes vol \<le> 8192"
  shows "pack_slot (n, s, i) \<noteq> 0"
proof
  assume z: "pack_slot (n, s, i) = 0"
  have i8: "i < 2 ^ 8" using slot_ranges(1) [OF assms(3,4)] assms(5) by simp
  have "unat (SectorsPerCluster (Boot vol)) < 256" using unsigned_less [of "SectorsPerCluster (Boot vol)"] by simp
  then have "s < 2 ^ 8" using assms(3) by simp
  from unpack_slot(1) [OF assms(2) this i8] z have "(of_nat n :: u32) = 0" by simp
  moreover have "unat (of_nat n :: u32) = n" using assms(2) by (intro unat_of_nat32) simp
  ultimately show False using assms(1) by simp
qed

text \<open>Outside its cluster, writing an entry changes nothing.\<close>

lemma entry_written_frame:
  fixes c :: "nat \<Rightarrow> u8"
  assumes vol: "fat_volume vol cap N S" and ns: "\<And>n. n \<in> set ns \<Longrightarrow> 2 \<le> n \<and> n < N + 2"
    and sl: "sl \<in> set (dir_slots vol ns)" and e: "length (Name e) = 8" "length (Ext e) = 3"
  defines "c' \<equiv> replace_range c (slot_start vol S sl) (directory_bytes e)"
  shows "m < N + 2 \<Longrightarrow> fat_link vol c' m = fat_link vol c m"
    "2 \<le> m \<Longrightarrow> m < N + 2 \<Longrightarrow> m \<notin> set ns \<Longrightarrow> cluster_data vol S c' m = cluster_data vol S c m"
proof -
  obtain n s i where nsi: "sl = (n, s, i)" by (cases sl)
  have nd: "n \<in> set ns" "s < unat (SectorsPerCluster (Boot vol))" "i < sector_bytes vol div sizeof_FATDirectory"
    using sl by (simp_all add: nsi in_dir_slots)
  have n: "2 \<le> n" "n < N + 2" using ns [OF nd(1)] by simp_all
  have out: "c' a = c a" if "a < cluster_start vol S n \<or> cluster_start vol S n + cluster_size vol \<le> a" for a
    using slot_ranges(2,3) [OF nd(2,3), where S = S and n = n] that directory_at_bytes(2) [OF e]
    by (auto simp: c'_def replace_range_def nsi)
  show "m < N + 2 \<Longrightarrow> fat_link vol c' m = fat_link vol c m"
    using cluster_write_frame(1) [OF vol n, of c' c m] out by (simp add: fat_link_def)
  show "2 \<le> m \<Longrightarrow> m < N + 2 \<Longrightarrow> m \<notin> set ns \<Longrightarrow> cluster_data vol S c' m = cluster_data vol S c m"
    using cluster_write_frame(2) [OF vol n, of c' c m] out nd(1) by auto
qed

text \<open>The entries of a directory whose clusters are the same.\<close>

lemma directory_frame:
  assumes same: "\<And>n. n \<in> set dir \<Longrightarrow> cluster_data vol S c1 n = cluster_data vol S c n"
    and sl: "sl \<in> set (dir_slots vol dir)"
  shows "slot_entry vol S c1 sl = slot_entry vol S c sl" "slot_free vol S c1 sl = slot_free vol S c sl"
    "hd (Name (slot_entry vol S c1 sl)) = c1 (slot_start vol S sl)"
proof -
  obtain n s i where e: "sl = (n, s, i)" by (cases sl)
  have r: "n \<in> set dir" "s < unat (SectorsPerCluster (Boot vol))" "i < sector_bytes vol div sizeof_FATDirectory"
    using sl by (simp_all add: e in_dir_slots)
  note sr = slot_ranges(2,3) [OF r(2,3), where S = S and n = n]
  have byte: "c1 a = c a" if "cluster_start vol S n \<le> a" "a < cluster_start vol S n + cluster_size vol" for a
  proof -
    have "cluster_data vol S c1 n ! (a - cluster_start vol S n) = cluster_data vol S c n ! (a - cluster_start vol S n)"
      using same [OF r(1)] by simp
    then show ?thesis using that by (simp add: cluster_data_def)
  qed
  have "range_of c1 (slot_start vol S sl) 32 = range_of c (slot_start vol S sl) 32"
    using sr by (intro range_of_cong byte) (auto simp: e)
  then show "slot_entry vol S c1 sl = slot_entry vol S c sl" by (simp add: slot_entry_def)
  have "c1 (slot_start vol S sl) = c (slot_start vol S sl)" using sr by (intro byte) (auto simp: e)
  then show "slot_free vol S c1 sl = slot_free vol S c sl" by (simp add: slot_free_def)
  show "hd (Name (slot_entry vol S c1 sl)) = c1 (slot_start vol S sl)"
    using entry_of_slot(2) [OF r(3)] by (simp add: e)
qed

lemma find_free_slot:
  assumes "List.find (slot_free vol S c) (dir_slots vol dir) = Some sl"
  shows "List.find (\<lambda>sl. hd (Name (slot_entry vol S c sl)) = 0 \<or> hd (Name (slot_entry vol S c sl)) = 0xE5) (dir_slots vol dir) = Some sl"
    "sl \<in> set (dir_slots vol dir)"
proof -
  have "List.find (\<lambda>sl. hd (Name (slot_entry vol S c sl)) = 0 \<or> hd (Name (slot_entry vol S c sl)) = 0xE5) (dir_slots vol dir) =
      List.find (slot_free vol S c) (dir_slots vol dir)"
    using directory_frame(3) [of dir vol S c c] by (intro find_cong) (auto simp: slot_free_def)
  with assms show "List.find (\<lambda>sl. hd (Name (slot_entry vol S c sl)) = 0 \<or> hd (Name (slot_entry vol S c sl)) = 0xE5) (dir_slots vol dir) = Some sl"
    by simp
  show "sl \<in> set (dir_slots vol dir)" using assms by (metis find_Some_iff nth_mem)
qed

context byte_device
begin

text \<open>Reading the file of an entry.\<close>

lemma FatRead_ok:
  assumes good: "good d" and vol: "fat_volume vol (capacity d) N S"
    and names: "length Nm = 8" "length Xt = 3" "0 \<notin> set Nm" "0 \<notin> set Xt"
    and dir: "fat_chain N (fat_link vol (content d)) dir" and root: "RootCluster (Boot vol) = of_nat (hd dir)"
    and look: "snd (lookup_slots Nm Xt (slot_entry vol S (content d)) (dir_slots vol dir)) = Some sl"
    and fl: "fat_chain N (fat_link vol (content d)) ms"
      "first_cluster (slot_entry vol S (content d) sl) = of_nat (hd ms)"
      "Size (slot_entry vol S (content d) sl) = of_nat sz" "sz \<le> length ms * cluster_size vol" "sz + 1 < 2 ^ 31"
  shows "\<exists>d'. FatRead D Nm Xt vol None d = Some (Inr (Some (take sz (file_bytes vol S (content d) ms) @ [0]), d')) \<and> keeps d d'"
proof -
  obtain n s i where nsi: "sl = (n, s, i)" by (cases sl)
  let ?e = "slot_entry vol S (content d) sl"
  obtain d1 where lo: "locate_in_chain D Nm Xt vol (of_nat (hd dir)) d =
     Some (Inr (\<lparr>Dir = ?e, Cluster = of_nat n, Offset = of_nat s, Index = of_nat i, Found = True\<rparr>, d1))" "keeps d d1"
    using locate_in_chain_ok [OF good vol dir names] look by (auto simp: lookup_result_def nsi)
  have d1: "good d1" "content d1 = content d" "capacity d1 = capacity d" using lo(2) by (simp_all add: same_disk_def)
  have sz32: "sz < 2 ^ 32" using fl(5) by simp
  have "drop sz (replicate (sz + 1) (0 :: u8)) = [0]" by (simp only: drop_replicate) simp
  then obtain d2 where rc: "read_chain D vol (of_nat (hd ms)) 0 (of_nat sz) (replicate (sz + 1) 0) d1 =
     Some (Inr (take sz (file_bytes vol S (content d) ms) @ [0], d2))" "keeps d1 d2"
    using read_chain_ok [OF d1(1) _ _ _ sz32 fl(4), of N S 0 "replicate (sz + 1) 0"] vol fl(1) d1
    by (auto simp del: replicate.simps drop_replicate)
  have "unat (of_nat (sz + 1) :: u32) = sz + 1" using fl(5) by (intro unat_of_nat32) simp
  then have usz: "unat (of_nat sz + 1 :: u32) = sz + 1" by (simp add: add.commute)
  then have "(of_nat sz + 1 :: u32) \<noteq> 0" by auto
  then have "FatRead D Nm Xt vol None d = Some (Inr (Some (take sz (file_bytes vol S (content d) ms) @ [0]), d2))"
    using lo(1) rc(1) fl(2,3,5) usz root
    by (simp add: FatRead_def FatLocateInDir_def not_a_directory_def parent_cluster_def FatRootCluster_def Let_def)
  then show ?thesis using rc(2) d1 by (simp add: same_disk_def)
qed

text \<open>The entry a write leaves in the directory, with the data in the chain it names.\<close>

lemma FatWrite_ok:
  assumes good: "good d" and vol: "fat_volume vol (capacity d) N S" and path: "FatConvert83 path = Inr (Nm, Xt)"
    and rd: "write_ready vol N S (content d) dir Nm Xt data sz"
    and root: "RootCluster (Boot vol) = of_nat (hd dir)"
  shows "\<exists>ms c' d' sl. FatWrite D path data (of_nat sz) vol None d = Some (Inr (0, d')) \<and> changed d c' d' \<and>
     fat_chain N (fat_link vol c') dir \<and> fat_chain N (fat_link vol c') ms \<and>
     snd (lookup_slots Nm Xt (slot_entry vol S c') (dir_slots vol dir)) = Some sl \<and>
     first_cluster (slot_entry vol S c' sl) = of_nat (hd ms) \<and> Size (slot_entry vol S c' sl) = of_nat sz \<and>
     sz \<le> length ms * cluster_size vol \<and> take sz (file_bytes vol S c' ms) = take sz data"
proof -
  let ?c = "content d" and ?sls = "dir_slots vol dir" and ?C = "cluster_size vol"
  note names = FatConvert83_names [OF path]
  have chain: "fat_chain N (fat_link vol ?c) dir" and n16: "\<And>n. n \<in> set dir \<Longrightarrow> n < 2 ^ 16" and B: "sector_bytes vol \<le> 8192"
    and sz: "0 < sz" "sz + 1 < 2 ^ 31" "sz \<le> card (free_clusters vol N ?c) * ?C" "whole_sectors (sector_bytes vol) sz \<le> length data"
    and slot: "\<exists>sl \<in> set ?sls. slot_free vol S ?c sl" and Nm: "hd Nm \<noteq> FAT_UNUSED"
    and none: "snd (lookup_slots Nm Xt (slot_entry vol S ?c) ?sls) = None"
    using rd by (auto simp: write_ready_def)
  have N28: "N + 2 < 0x0FFFFFF8" using vol by (simp add: fat_volume_def)
  have sz32: "sz < 2 ^ 32" using sz(2) by simp
  have dirn: "2 \<le> n \<and> n < N + 2" if "n \<in> set dir" for n using fat_chain_in [OF chain that] .
  obtain ms c1 d1 where w: "FatWriteData D vol data (of_nat sz) d = Some (Inr (of_nat (hd ms), d1))" "changed d c1 d1"
    "ms \<noteq> []" "set ms \<subseteq> free_clusters vol N ?c" "fat_chain N (fat_link vol c1) ms"
    "length ms * ?C = whole_sectors ?C sz"
    "\<And>m. m < N + 2 \<Longrightarrow> m \<notin> set ms \<Longrightarrow> fat_link vol c1 m = fat_link vol ?c m"
    "\<And>m. 2 \<le> m \<Longrightarrow> m < N + 2 \<Longrightarrow> m \<notin> set ms \<Longrightarrow> cluster_data vol S c1 m = cluster_data vol S ?c m"
    "take sz (file_bytes vol S c1 ms) = take sz data"
    using FatWriteData_ok [OF good vol sz(1) sz32 sz(3,4)] by auto
  have d1: "good d1" "content d1 = c1" "capacity d1 = capacity d" using w(2) by (simp_all add: same_disk_def)
  have vol1: "fat_volume vol (capacity d1) N S" using vol d1 by simp
  have apart: "n \<notin> set ms" if "n \<in> set dir" for n
    using fat_chain_link [OF chain that N28] w(4) by (auto simp: free_clusters_def)
  have ch1: "fat_chain N (fat_link vol c1) dir"
    using fat_chain_cong [of dir "fat_link vol c1" "fat_link vol ?c" N] w(7) apart dirn chain by simp
  have ent1: "slot_entry vol S c1 sl = slot_entry vol S ?c sl" "slot_free vol S c1 sl = slot_free vol S ?c sl"
    if "sl \<in> set ?sls" for sl
    using directory_frame(1,2) [of dir vol S c1 ?c, OF _ that] w(8) dirn apart by blast+
  obtain sl where "List.find (slot_free vol S ?c) ?sls = Some sl"
    using slot by (cases "List.find (slot_free vol S ?c) ?sls") (auto simp: find_None_iff)
  then have f1: "List.find (slot_free vol S c1) ?sls = Some sl" using ent1 by (simp cong: find_cong)
  note f2 = find_free_slot [OF f1]
  obtain n s i where nsi: "sl = (n, s, i)" by (cases sl)
  have nd: "n \<in> set dir" "s < unat (SectorsPerCluster (Boot vol))" "i < sector_bytes vol div sizeof_FATDirectory"
    using f2(2) by (simp_all add: nsi in_dir_slots)
  have nn: "2 \<le> n" "n < N + 2" "n < 2 ^ 16" using dirn [OF nd(1)] n16 [OF nd(1)] by simp_all
  have hdm: "2 \<le> hd ms" "hd ms < N + 2" using fat_chain_in [OF w(5), of "hd ms"] w(3) by simp_all
  have hd0: "(of_nat (hd ms) :: u32) \<noteq> 0"
  proof
    assume "(of_nat (hd ms) :: u32) = 0"
    moreover have "unat (of_nat (hd ms) :: u32) = hd ms" using hdm N28 by (intro unat_of_nat32) simp
    ultimately show False using hdm(1) by simp
  qed
  obtain e where ce: "FatCreateEntry path (of_nat (hd ms)) (of_nat sz) FAT_ARCHIVE = Inr e"
    using path by (simp add: FatCreateEntry_def)
  note e = FatCreateEntry_ok [OF path ce]
  have el: "length (Name e) = 8" "length (Ext e) = 3" using e names by simp_all
  obtain d2 where fe: "FatFindFreeEntry D vol (of_nat (hd dir)) d1 = Some (Inr (pack_slot sl, d2))" "keeps d1 d2"
    using free_in_chain_ok [OF d1(1) vol1, of dir] ch1 f1 d1(2) by (auto simp: FatFindFreeEntry_def first_free_def)
  have d2: "good d2" "content d2 = c1" "capacity d2 = capacity d" using fe(2) d1 by (simp_all add: same_disk_def)
  have vol2: "fat_volume vol (capacity d2) N S" using vol d2 by simp
  let ?c3 = "replace_range c1 (slot_start vol S sl) (directory_bytes e)"
  obtain d3 where we: "FatWriteDirectoryEntry D vol (pack_slot sl) e d2 = Some (Inr d3)" "changed d2 ?c3 d3"
    using FatWriteDirectoryEntry_ok [OF d2(1) vol2 nn nd(2,3) B el] d2(2) by (auto simp: nsi)
  have "pack_slot sl \<noteq> 0" using pack_slot_nonzero [OF nn(1,3) nd(2,3) B] by (simp add: nsi)
  then have wr: "FatWrite D path data (of_nat sz) vol None d = Some (Inr (0, d3))"
    using w(1) hd0 ce fe(1) we(1) root by (simp add: FatWrite_def parent_cluster_def FatRootCluster_def)
  note fr = entry_written_frame [OF vol dirn f2(2) el, where c = c1]
  have ch3: "fat_chain N (fat_link vol ?c3) dir"
    using fat_chain_cong [of dir "fat_link vol ?c3" "fat_link vol c1" N] fr(1) dirn ch1 by simp
  have fch3: "fat_chain N (fat_link vol ?c3) ms"
    using fat_chain_cong [of ms "fat_link vol ?c3" "fat_link vol c1" N] fr(1) fat_chain_in [OF w(5)] w(5) by simp
  have "cluster_data vol S ?c3 m = cluster_data vol S c1 m" if "m \<in> set ms" for m
    using fr(2) [of m] fat_chain_in [OF w(5) that] apart that by auto
  then have data3: "file_bytes vol S ?c3 ms = file_bytes vol S c1 ms" by (simp add: file_bytes_def cong: map_cong)
  have se: "slot_entry vol S ?c3 sl = e" by (rule entry_written(1) [OF vol dirn f2(2) el])
  have look: "snd (lookup_slots Nm Xt (slot_entry vol S ?c3) ?sls) = Some sl"
  proof (rule lookup_written [OF f2(1)])
    show "snd (lookup_slots Nm Xt (slot_entry vol S c1) ?sls) = None"
      using none lookup_slots_cong [of ?sls "slot_entry vol S c1" "slot_entry vol S ?c" Nm Xt] ent1(1) by simp
    show "slot_entry vol S ?c3 x = slot_entry vol S c1 x" if "x \<in> set ?sls" "x \<noteq> sl" for x
      by (rule entry_written(2) [OF vol dirn f2(2) el that])
    show "Name (slot_entry vol S ?c3 sl) = Nm" "Ext (slot_entry vol S ?c3 sl) = Xt"
      "Flags (slot_entry vol S ?c3 sl) \<noteq> FAT_LONG_FILE_NAME"
      using se e by (simp_all add: FAT_ARCHIVE_def FAT_LONG_FILE_NAME_def)
    show "hd Nm \<noteq> 0" using names(1,3) by (cases Nm) auto
  qed (rule Nm)
  have "sz \<le> length ms * ?C" using w(6) whole_sectors_step(4) [OF fat_volume_bounds(7) [OF vol], of sz] by simp
  moreover have "changed d ?c3 d3" using we(2) d2 by (simp add: same_disk_def)
  ultimately show ?thesis using wr ch3 fch3 look se e(4,5) data3 w(9) by (intro exI [of _ ms] exI [of _ ?c3]) auto
qed

lemma FatWrite_FatRead:
  assumes "good d" and vol: "fat_volume vol (capacity d) N S" and path: "FatConvert83 path = Inr (Nm, Xt)"
    and rd: "write_ready vol N S (content d) dir Nm Xt data sz"
    and root: "RootCluster (Boot vol) = of_nat (hd dir)"
  shows "\<exists>d1 d2. FatWrite D path data (of_nat sz) vol None d = Some (Inr (0, d1)) \<and>
     FatRead D Nm Xt vol None d1 = Some (Inr (Some (take sz data @ [0]), d2))"
proof -
  from FatWrite_ok [OF assms] obtain ms c1 d1 sl where w: "FatWrite D path data (of_nat sz) vol None d = Some (Inr (0, d1))"
    "changed d c1 d1" "fat_chain N (fat_link vol c1) dir" "fat_chain N (fat_link vol c1) ms"
    "snd (lookup_slots Nm Xt (slot_entry vol S c1) (dir_slots vol dir)) = Some sl"
    "first_cluster (slot_entry vol S c1 sl) = of_nat (hd ms)" "Size (slot_entry vol S c1 sl) = of_nat sz"
    "sz \<le> length ms * cluster_size vol" "take sz (file_bytes vol S c1 ms) = take sz data" by blast
  have d1: "good d1" "content d1 = c1" "capacity d1 = capacity d" using w(2) by (simp_all add: same_disk_def)
  have "sz + 1 < 2 ^ 31" using rd by (simp add: write_ready_def)
  with FatRead_ok [OF d1(1), of vol N S Nm Xt dir sl ms sz] FatConvert83_names [OF path] w vol d1 root
  show ?thesis by auto
qed

end

context byte_device
begin

text \<open>A write with too little room.\<close>

lemma write_clusters_full:
  assumes "good d" "fat_volume vol (capacity d) N S"
    and "card (free_clusters vol N (content d)) * cluster_size vol < rem" "rem < 2 ^ 32"
    and "p + whole_sectors (sector_bytes vol) rem \<le> length data"
    and "q = None \<or> (\<exists>k. q = Some k \<and> 2 \<le> k \<and> k < N + 2 \<and> fat_link vol (content d) k \<noteq> 0)"
  shows "\<exists>c' d'. write_clusters D vol data first (link_of q) p (of_nat rem) d = Some (Inr (0, d')) \<and> changed d c' d' \<and>
     free_clusters vol N c' = {} \<and>
     (\<forall>m. 2 \<le> m \<and> m < N + 2 \<and> fat_link vol (content d) m \<noteq> 0 \<longrightarrow> cluster_data vol S c' m = cluster_data vol S (content d) m)"
  using assms
proof (induction "card (free_clusters vol N (content d))" arbitrary: p q d first rem)
  case 0
  have "finite (free_clusters vol N (content d))" by (simp add: free_clusters_def)
  then have free: "free_clusters vol N (content d) = {}" using "0.hyps" by simp
  then obtain d1 where a: "FatAllocateCluster D vol d = Some (Inr (0, d1))" "keeps d d1"
    using FatAllocateCluster_ok [OF "0.prems"(1,2)] by auto
  have "0 < rem" using "0.prems"(3) by simp
  then have "(0 :: u32) < of_nat rem" using unat_of_nat32 [OF "0.prems"(4)] by (simp add: word_less_nat_alt)
  then have "write_clusters D vol data first (link_of q) p (of_nat rem) d = Some (Inr (0, d1))"
    using a(1) by (subst write_clusters.simps) simp
  then show ?case using a(2) free by blast
next
  case (Suc k)
  let ?C = "cluster_size vol" and ?c = "content d"
  let ?n = "Min (free_clusters vol N ?c)" and ?x = "min rem ?C"
  have C: "0 < ?C" using fat_volume_bounds [OF Suc.prems(2)] by simp
  have free: "free_clusters vol N ?c \<noteq> {}" using Suc.hyps(2) by auto
  then have n_free: "?n \<in> free_clusters vol N ?c" by (intro Min_in) (simp_all add: free_clusters_def)
  then have n: "2 \<le> ?n" "?n < N + 2" "fat_link vol ?c ?n = 0" by (simp_all add: free_clusters_def)
  have N28: "N + 2 < 0x0FFFFFF8" using Suc.prems(2) by (simp add: fat_volume_def)
  have big: "?C + k * ?C < rem" using Suc.prems(3) Suc.hyps(2) by (metis mult_Suc)
  then have x: "?x = ?C" by simp
  have ws: "whole_sectors (sector_bytes vol) rem = ?C + whole_sectors (sector_bytes vol) (rem - ?C)"
    using whole_sectors_mult [OF fat_volume_bounds(1) [OF Suc.prems(2)], of "unat (SectorsPerCluster (Boot vol))" rem] big
    by (simp add: cluster_size_def)
  have wx: "whole_sectors (sector_bytes vol) ?x \<le> whole_sectors (sector_bytes vol) rem" by (intro whole_sectors_mono) simp
  have q: "2 \<le> j \<and> j < N + 2 \<and> fat_link vol ?c j \<noteq> 0" if "q = Some j" for j using Suc.prems(6) that by simp
  have "p + whole_sectors (sector_bytes vol) ?x \<le> length data" using Suc.prems(5) wx by linarith
  then obtain c1 d1 where st: "write_clusters D vol data first (link_of q) p (of_nat rem) d =
       write_clusters D vol data (if first = 0 then of_nat ?n else first) (of_nat ?n) (p + ?x) (of_nat (rem - ?x)) d1"
    "changed d c1 d1" "fat_link vol c1 ?n = 0x0FFFFFF8" "\<And>j. q = Some j \<Longrightarrow> fat_link vol c1 j = of_nat ?n"
    "\<And>m. m < N + 2 \<Longrightarrow> m \<noteq> ?n \<Longrightarrow> q \<noteq> Some m \<Longrightarrow> fat_link vol c1 m = fat_link vol ?c m"
    "\<And>m. 2 \<le> m \<Longrightarrow> m < N + 2 \<Longrightarrow> m \<noteq> ?n \<Longrightarrow> cluster_data vol S c1 m = cluster_data vol S ?c m"
    using write_clusters_step [OF Suc.prems(1,2) free _ Suc.prems(4), of p data "link_of q" q first] big q
    by (auto simp: link_of_def)
  have d1: "good d1" "capacity d1 = capacity d" "content d1 = c1" using st(2) by (simp_all add: same_disk_def)
  have used: "free_clusters vol N c1 = free_clusters vol N ?c - {?n}"
    "Suc (card (free_clusters vol N c1)) = card (free_clusters vol N ?c)"
    using free_clusters_used [OF n_free st(3) _ st(5) N28] st(4) q by blast+
  have k: "k = card (free_clusters vol N (content d1))" using used(2) Suc.hyps(2) d1 by simp
  have un: "unat (of_nat ?n :: u32) = ?n" using n N28 by (intro unat_of_nat32) simp
  then have nz: "fat_link vol c1 m \<noteq> 0" if "2 \<le> m" "m < N + 2" "fat_link vol ?c m \<noteq> 0" for m
    using st(3,4) st(5) [of m] that n by (cases "q = Some m"; cases "m = ?n") auto
  have "\<exists>c' d'. write_clusters D vol data (if first = 0 then of_nat ?n else first) (link_of (Some ?n)) (p + ?x) (of_nat (rem - ?x)) d1 =
       Some (Inr (0, d')) \<and> changed d1 c' d' \<and> free_clusters vol N c' = {} \<and>
     (\<forall>m. 2 \<le> m \<and> m < N + 2 \<and> fat_link vol (content d1) m \<noteq> 0 \<longrightarrow> cluster_data vol S c' m = cluster_data vol S (content d1) m)"
    by (rule Suc.hyps(1) [OF k]) (use d1 Suc.prems x ws big k n st(3) in auto)
  then obtain c' d' where r: "write_clusters D vol data (if first = 0 then of_nat ?n else first) (of_nat ?n) (p + ?x) (of_nat (rem - ?x)) d1 =
       Some (Inr (0, d'))" "changed d1 c' d'" "free_clusters vol N c' = {}"
     "\<And>m. 2 \<le> m \<Longrightarrow> m < N + 2 \<Longrightarrow> fat_link vol c1 m \<noteq> 0 \<Longrightarrow> cluster_data vol S c' m = cluster_data vol S c1 m"
    using d1(3) by auto
  have "cluster_data vol S c' m = cluster_data vol S ?c m" if "2 \<le> m" "m < N + 2" "fat_link vol ?c m \<noteq> 0" for m
    using r(4) [OF that(1,2) nz [OF that]] st(6) [OF that(1,2)] that(3) n(3) by auto
  then show ?case using st(1) r(1-3) d1 by (intro exI [of _ c'] exI [of _ d']) (auto simp: same_disk_def)
qed

end

section \<open>An example volume\<close>

text \<open>A drive in memory, and on it a volume of two clusters of one sector of 32 bytes: the root
  directory in cluster 2, cluster 3 free.\<close>

definition ram_drive :: "(nat \<Rightarrow> u8) drive" where
  "ram_drive = \<lparr>dread = \<lambda>off n d. Some (Inr (range_of d (unat off) n, d)),
     dwrite = \<lambda>off bs d. Some (Inr (replace_range d (unat off) bs)), dprint = \<lambda>str d. d\<rparr>"

definition example_volume :: FATVolume where
  "example_volume = \<lparr>Boot = \<lparr>BytesPerSector = 32, SectorsPerCluster = 1, ReservedSectors = 1, FATCount = 2,
     RootDirectoryEntries = 0, TotalSectorsInVolume = 5, SectorsPerFAT = 0, ExtendedSectorCount = 0,
     fat16_Signature = 0, fat32_SectorsPerFAT = 1, RootCluster = 2, fat32_Signature = 0x29\<rparr>, PartitionLBA = 0\<rparr>"

definition example_disk :: "nat \<Rightarrow> u8" where
  "example_disk a = (if a = 40 then 0xF8 else if a = 41 \<or> a = 42 then 0xFF else if a = 43 then 0x0F else 0)"

lemma ram_device: "byte_device ram_drive (\<lambda>d. True) (\<lambda>d. d) (\<lambda>d. 160)"
  by unfold_locales (auto simp: ram_drive_def)

interpretation ram: byte_device ram_drive "\<lambda>d. True" "\<lambda>d. d" "\<lambda>d. 160"
  by (rule ram_device)

lemma example_volume_ok: "fat_volume example_volume 160 2 3"
  by (simp add: fat_volume_def example_volume_def sector_bytes_def FatIdentify_def FatClusterCount_def FatDataCount_def
      FatRootDirSize_def FatFirstData_def FatTotalSectors_def FatSize_def udiv_def ext_signature_def)

lemma example_links: "fat_link example_volume example_disk 2 = 0x0FFFFFF8" "fat_link example_volume example_disk 3 = 0"
  by (simp_all add: fat_link_def raw_entry_def range_of_def upt_rec fat_start_def sector_start_def example_volume_def
      example_disk_def sector_bytes_def)

lemma example_free: "free_clusters example_volume 2 example_disk = {3}"
proof -
  have "n = 3" if "2 \<le> n" "n < 4" "fat_link example_volume example_disk n = 0" for n
  proof -
    have "n = 2 \<or> n = 3" using that by arith
    then show ?thesis using that(3) example_links by auto
  qed
  then show ?thesis using example_links by (auto simp: free_clusters_def)
qed

context byte_device
begin

lemma files_untouched:
  assumes "fat_chain N (fat_link vol c) ns" "N + 2 < 0x0FFFFFF8"
    and "\<And>m. 2 \<le> m \<Longrightarrow> m < N + 2 \<Longrightarrow> fat_link vol c m \<noteq> 0 \<Longrightarrow> cluster_data vol S c' m = cluster_data vol S c m"
  shows "file_bytes vol S c' ns = file_bytes vol S c ns"
  using fat_chain_in [OF assms(1)] fat_chain_link [OF assms(1) _ assms(2)] assms(3)
  by (simp add: file_bytes_def cong: map_cong)

lemma FatWriteData_chain:
  assumes "good d" "fat_volume vol (capacity d) N S"
    and "0 < sz" "sz + 1 < 2 ^ 31" "sz \<le> card (free_clusters vol N (content d)) * cluster_size vol"
    and "whole_sectors (sector_bytes vol) sz \<le> length data"
  shows "\<exists>ms d1. FatWriteData D vol data (of_nat sz) d = Some (Inr (of_nat (hd ms), d1)) \<and>
     set ms \<subseteq> free_clusters vol N (content d) \<and> distinct ms \<and> fat_chain N (fat_link vol (content d1)) ms \<and>
     length ms * cluster_size vol = whole_sectors (cluster_size vol) sz \<and>
     (\<exists>d2. read_chain D vol (of_nat (hd ms)) 0 (of_nat sz) (replicate (sz + 1) 0) d1 = Some (Inr (take sz data @ [0], d2))) \<and>
     (\<forall>ns. fat_chain N (fat_link vol (content d)) ns \<longrightarrow>
        fat_chain N (fat_link vol (content d1)) ns \<and> file_bytes vol S (content d1) ns = file_bytes vol S (content d) ns)"
proof -
  have N28: "N + 2 < 0x0FFFFFF8" using assms(2) by (simp add: fat_volume_def)
  have sz32: "sz < 2 ^ 32" using assms(4) by simp
  obtain ms c1 d1 where w: "FatWriteData D vol data (of_nat sz) d = Some (Inr (of_nat (hd ms), d1))" "changed d c1 d1"
    "ms \<noteq> []" "set ms \<subseteq> free_clusters vol N (content d)" "distinct ms" "fat_chain N (fat_link vol c1) ms"
    "length ms * cluster_size vol = whole_sectors (cluster_size vol) sz"
    "\<And>m. m < N + 2 \<Longrightarrow> m \<notin> set ms \<Longrightarrow> fat_link vol c1 m = fat_link vol (content d) m"
    "\<And>m. 2 \<le> m \<Longrightarrow> m < N + 2 \<Longrightarrow> m \<notin> set ms \<Longrightarrow> cluster_data vol S c1 m = cluster_data vol S (content d) m"
    "take sz (file_bytes vol S c1 ms) = take sz data"
    using FatWriteData_ok [OF assms(1-3) sz32 assms(5,6)] by auto
  have d1: "good d1" "content d1 = c1" "capacity d1 = capacity d" using w(2) by (simp_all add: same_disk_def)
  have len: "sz \<le> length ms * cluster_size vol"
    using w(7) whole_sectors_step(4) [OF fat_volume_bounds(7) [OF assms(2)], of sz] by simp
  have "drop sz (replicate (sz + 1) (0 :: u8)) = [0]" by (simp only: drop_replicate) simp
  then obtain d2 where "read_chain D vol (of_nat (hd ms)) 0 (of_nat sz) (replicate (sz + 1) 0) d1 =
     Some (Inr (take sz data @ [0], d2))"
    using read_chain_ok [OF d1(1) _ _ _ sz32 len, of N S 0 "replicate (sz + 1) 0"] assms(2) w(6,10) d1
    by (auto simp del: replicate.simps drop_replicate)
  moreover have "fat_chain N (fat_link vol c1) ns \<and> file_bytes vol S c1 ns = file_bytes vol S (content d) ns"
    if ch: "fat_chain N (fat_link vol (content d)) ns" for ns
  proof -
    have ap: "m \<notin> set ms" if "fat_link vol (content d) m \<noteq> 0" for m using w(4) that by (auto simp: free_clusters_def)
    have "fat_chain N (fat_link vol c1) ns"
      using fat_chain_cong [of ns "fat_link vol c1" "fat_link vol (content d)" N] ch w(8)
        fat_chain_in [OF ch] fat_chain_link [OF ch _ N28] ap by simp
    moreover have "file_bytes vol S c1 ns = file_bytes vol S (content d) ns"
      by (rule files_untouched [OF ch N28]) (use w(9) ap in blast)
    ultimately show ?thesis by blast
  qed
  ultimately show ?thesis using w d1 by (intro exI [of _ ms] exI [of _ d1]) auto
qed

lemma FatWriteData_full:
  assumes "good d" "fat_volume vol (capacity d) N S"
    and "card (free_clusters vol N (content d)) * cluster_size vol < sz" "sz < 2 ^ 32"
    and "whole_sectors (sector_bytes vol) sz \<le> length data"
  shows "\<exists>d1. FatWriteData D vol data (of_nat sz) d = Some (Inr (0, d1)) \<and> free_clusters vol N (content d1) = {} \<and>
     (\<forall>ns. fat_chain N (fat_link vol (content d)) ns \<longrightarrow> file_bytes vol S (content d1) ns = file_bytes vol S (content d) ns)"
proof -
  have N28: "N + 2 < 0x0FFFFFF8" using assms(2) by (simp add: fat_volume_def)
  obtain c1 d1 where w: "write_clusters D vol data 0 (link_of None) 0 (of_nat sz) d = Some (Inr (0, d1))" "changed d c1 d1"
    "free_clusters vol N c1 = {}"
    "\<And>m. 2 \<le> m \<Longrightarrow> m < N + 2 \<Longrightarrow> fat_link vol (content d) m \<noteq> 0 \<Longrightarrow> cluster_data vol S c1 m = cluster_data vol S (content d) m"
    using write_clusters_full [OF assms(1-4), of 0 data None 0] assms(5) by auto
  moreover have "content d1 = c1" using w(2) by (simp add: same_disk_def)
  ultimately show ?thesis using files_untouched [OF _ N28 w(4)] by (auto simp: FatWriteData_def)
qed

lemma FatSetCluster_link:
  assumes "good d" "fat_volume vol (capacity d) N S" "n < N + 2" "m < N + 2"
  shows "\<exists>d1. FatSetCluster D vol (of_nat n) v d = Some (Inr d1) \<and>
     (\<exists>d2. FatNextCluster D vol (of_nat m) d1 =
        Some (Inr (if m = n then v AND 0x0FFFFFFF else fat_link vol (content d) m, d2))) \<and>
     raw_entry vol (content d1) n AND 0xF0000000 = raw_entry vol (content d) n AND 0xF0000000 \<and>
     range_of (content d1) (fat_start vol + fat_bytes vol + 4 * n) 4 = range_of (content d1) (fat_start vol + 4 * n) 4"
proof -
  obtain c1 d1 where s: "FatSetCluster D vol (of_nat n) v d = Some (Inr d1)" "changed d c1 d1"
    "entry_set vol N (content d) n v c1"
    using FatSetCluster_ok [OF assms(1-3)] by blast
  have d1: "good d1" "content d1 = c1" "capacity d1 = capacity d" using s(2) by (simp_all add: same_disk_def)
  have "fat_link vol c1 m = (if m = n then v AND 0x0FFFFFFF else fat_link vol (content d) m)"
    using entry_set_link [OF s(3)] assms(4) by simp
  then have "\<exists>d2. FatNextCluster D vol (of_nat m) d1 =
        Some (Inr (if m = n then v AND 0x0FFFFFFF else fat_link vol (content d) m, d2))"
    using FatNextCluster_ok [OF d1(1), of vol N S m] assms(2,4) d1 by auto
  moreover have "raw_entry vol c1 n AND 0xF0000000 = raw_entry vol (content d) n AND 0xF0000000"
    using s(3) by (simp add: entry_set_def bit.conj_disj_distrib2 and.assoc)
  moreover have "range_of c1 (fat_start vol + fat_bytes vol + 4 * n) 4 = range_of c1 (fat_start vol + 4 * n) 4"
    using s(3) by (intro nth_equalityI) (simp_all add: entry_set_def)
  ultimately show ?thesis using s(1) d1(2) by blast
qed

lemma FatAllocateCluster_links:
  assumes "good d" "fat_volume vol (capacity d) N S"
  shows "\<exists>d1. FatAllocateCluster D vol d =
       Some (Inr (if free_clusters vol N (content d) = {} then 0 else of_nat (Min (free_clusters vol N (content d))), d1)) \<and>
     (if free_clusters vol N (content d) = {} then content d1 = content d
      else fat_link vol (content d1) (Min (free_clusters vol N (content d))) = 0x0FFFFFF8 \<and>
        (\<forall>m < N + 2. m \<noteq> Min (free_clusters vol N (content d)) \<longrightarrow> fat_link vol (content d1) m = fat_link vol (content d) m))"
proof (cases "free_clusters vol N (content d) = {}")
  case True
  then show ?thesis using FatAllocateCluster_ok [OF assms] by (auto simp: same_disk_def)
next
  case False
  then obtain c' d' where a: "FatAllocateCluster D vol d = Some (Inr (of_nat (Min (free_clusters vol N (content d))), d'))"
    "changed d c' d'" "entry_set vol N (content d) (Min (free_clusters vol N (content d))) 0x0FFFFFF8 c'"
    using FatAllocateCluster_ok [OF assms] by auto
  then show ?thesis using False entry_set_link [OF a(3)] by (simp add: same_disk_def)
qed

end

section \<open>The properties of the module\<close>


lemma example_slot: "cluster_slots example_volume 2 0 = [(2, 0, 0)]" "slot_start example_volume 3 (2, 0, 0) = 96"
  by (simp_all add: cluster_slots_def sector_bytes_def sizeof_FATDirectory_def example_volume_def
      slot_start_def cluster_start_def sector_start_def cluster_sector_def upt_rec)

lemma example_ready: "write_ready example_volume 2 3 example_disk [2] (pad 8 ''A'') (pad 3 ''B'') (replicate 32 7) 5"
proof -
  have "hd (Name (slot_entry example_volume 3 example_disk (2, 0, 0))) = 0"
    by (simp add: slot_entry_def hd_Name_at example_slot example_disk_def)
  moreover have "cluster_size example_volume = 32" "sector_bytes example_volume = 32"
    by (simp_all add: cluster_size_def sector_bytes_def example_volume_def)
  moreover have "hd (pad 8 ''A'') = 65" by (simp add: pad_def byte_of_def)
  ultimately show ?thesis
    by (simp add: write_ready_def example_links example_free example_slot whole_sectors_def slot_free_def
        example_disk_def FAT_UNUSED_def)
qed


text \<open>
  C28. \<^verbatim>\<open>FatWriteData\<close> puts the data in a chain of free clusters, just as many as the data
  needs, from which reading returns the data; every file already on the volume keeps its chain
  and its bytes.
\<close>

theorem FatWriteData_new_chain:
  assumes "byte_device D good content capacity" "good d" "fat_volume vol (capacity d) N S"
    and "0 < sz" "sz + 1 < 2 ^ 31" "sz \<le> card (free_clusters vol N (content d)) * cluster_size vol"
    and "whole_sectors (sector_bytes vol) sz \<le> length data"
  shows "\<exists>ms d1. FatWriteData D vol data (of_nat sz) d = Some (Inr (of_nat (hd ms), d1)) \<and>
     set ms \<subseteq> free_clusters vol N (content d) \<and> distinct ms \<and> fat_chain N (fat_link vol (content d1)) ms \<and>
     length ms * cluster_size vol = whole_sectors (cluster_size vol) sz \<and>
     (\<exists>d2. read_chain D vol (of_nat (hd ms)) 0 (of_nat sz) (replicate (sz + 1) 0) d1 = Some (Inr (take sz data @ [0], d2))) \<and>
     (\<forall>ns. fat_chain N (fat_link vol (content d)) ns \<longrightarrow>
        fat_chain N (fat_link vol (content d1)) ns \<and> file_bytes vol S (content d1) ns = file_bytes vol S (content d) ns)"
  by (rule byte_device.FatWriteData_chain [OF assms])

theorem FatWriteData_new_chain_witness:
  "\<exists>ms d1. FatWriteData ram_drive example_volume (replicate 32 7) 5 example_disk = Some (Inr (of_nat (hd ms), d1)) \<and>
     set ms \<subseteq> {3}"
proof -
  have "whole_sectors (sector_bytes example_volume) 5 = 32" "cluster_size example_volume = 32"
    by (simp_all add: whole_sectors_def sector_bytes_def example_volume_def cluster_size_def)
  then show ?thesis
    using FatWriteData_new_chain [OF ram_device, where d = example_disk, OF TrueI example_volume_ok, of 5 "replicate 32 7"]
    by (auto simp: example_free)
qed

text \<open>
  With less room than the data needs, \<^verbatim>\<open>FatWriteData\<close> reports failure with 0, but it
  has linked every free cluster into a chain that nothing names: no free cluster is left, while the
  files of the volume keep their bytes.
\<close>

theorem FatWriteData_no_room:
  assumes "byte_device D good content capacity" "good d" "fat_volume vol (capacity d) N S"
    and "card (free_clusters vol N (content d)) * cluster_size vol < sz" "sz < 2 ^ 32"
    and "whole_sectors (sector_bytes vol) sz \<le> length data"
  shows "\<exists>d1. FatWriteData D vol data (of_nat sz) d = Some (Inr (0, d1)) \<and> free_clusters vol N (content d1) = {} \<and>
     (\<forall>ns. fat_chain N (fat_link vol (content d)) ns \<longrightarrow> file_bytes vol S (content d1) ns = file_bytes vol S (content d) ns)"
  by (rule byte_device.FatWriteData_full [OF assms])

theorem FatWriteData_no_room_witness:
  "\<exists>d1. FatWriteData ram_drive example_volume (replicate 64 7) 40 example_disk = Some (Inr (0, d1)) \<and>
     free_clusters example_volume 2 d1 = {}"
proof -
  have "whole_sectors (sector_bytes example_volume) 40 = 64" "cluster_size example_volume = 32"
    by (simp_all add: whole_sectors_def sector_bytes_def example_volume_def cluster_size_def)
  then show ?thesis
    using FatWriteData_no_room [OF ram_device, where d = example_disk, OF TrueI example_volume_ok, of 40 "replicate 64 7"] by (auto simp: example_free)
qed

text \<open>
  \<^verbatim>\<open>FatSetCluster\<close> sets the 28 link bits of one entry and keeps its upper four bits;
  \<^verbatim>\<open>FatNextCluster\<close> then returns the value for that cluster and what it returned before for
  every other; the second table has the four bytes of the entry too.
\<close>

theorem FatSetCluster_next:
  assumes "byte_device D good content capacity" "good d" "fat_volume vol (capacity d) N S" "n < N + 2" "m < N + 2"
  shows "\<exists>d1. FatSetCluster D vol (of_nat n) v d = Some (Inr d1) \<and>
     (\<exists>d2. FatNextCluster D vol (of_nat m) d1 =
        Some (Inr (if m = n then v AND 0x0FFFFFFF else fat_link vol (content d) m, d2))) \<and>
     raw_entry vol (content d1) n AND 0xF0000000 = raw_entry vol (content d) n AND 0xF0000000 \<and>
     range_of (content d1) (fat_start vol + fat_bytes vol + 4 * n) 4 = range_of (content d1) (fat_start vol + 4 * n) 4"
  by (rule byte_device.FatSetCluster_link [OF assms])

theorem FatSetCluster_next_witness:
  "\<exists>d1. FatSetCluster ram_drive example_volume 3 0x12345678 example_disk = Some (Inr d1) \<and>
     (\<exists>d2. FatNextCluster ram_drive example_volume 3 d1 = Some (Inr (0x02345678, d2)))"
  using FatSetCluster_next [OF ram_device, where d = example_disk, OF TrueI example_volume_ok, of 3 3 "0x12345678"] by auto

text \<open>
  \<^verbatim>\<open>FatAllocateCluster\<close> takes the free cluster with the least number, marks it as the end
  of a chain and leaves every other link; 0 means that no cluster is free, and then the disk is as
  it was.
\<close>

theorem FatAllocateCluster_least:
  assumes "byte_device D good content capacity" "good d" "fat_volume vol (capacity d) N S"
  shows "\<exists>d1. FatAllocateCluster D vol d =
       Some (Inr (if free_clusters vol N (content d) = {} then 0 else of_nat (Min (free_clusters vol N (content d))), d1)) \<and>
     (if free_clusters vol N (content d) = {} then content d1 = content d
      else fat_link vol (content d1) (Min (free_clusters vol N (content d))) = 0x0FFFFFF8 \<and>
        (\<forall>m < N + 2. m \<noteq> Min (free_clusters vol N (content d)) \<longrightarrow> fat_link vol (content d1) m = fat_link vol (content d) m))"
  by (rule byte_device.FatAllocateCluster_links [OF assms])

theorem FatAllocateCluster_least_witness:
  "\<exists>d1. FatAllocateCluster ram_drive example_volume example_disk = Some (Inr (3, d1)) \<and>
     fat_link example_volume d1 3 = 0x0FFFFFF8"
  using FatAllocateCluster_least [OF ram_device, where d = example_disk, OF TrueI example_volume_ok] by (auto simp: example_free)


end
