(* ===== verification/Pci.thy ===== *)
theory Pci
  imports Ports
begin

text \<open>
  The PCI module, \<^verbatim>\<open>src/modules/pci\<close>: configuration space reads through the two
  configuration ports, the scan of all buses, the table of the devices found, and the device
  file that shows it. The hardware behind the ports is a parameter.
\<close>

record PCIDEV =
  bus_no :: u8
  slot_no :: u8
  func_no :: u8
  vendor_id :: u16
  device_id :: u16
  class_id :: u8
  subclass_id :: u8
  prog_if :: u8
  revision :: u8
  header_type :: u8
  irq_line :: u8
  bar :: "u32 list"

definition MAX_DEVICES :: nat where "MAX_DEVICES = 128"
definition PCI_CONFIG_ADDRESS :: u16 where "PCI_CONFIG_ADDRESS = 0xCF8"
definition PCI_CONFIG_DATA :: u16 where "PCI_CONFIG_DATA = 0xCFC"

record PCI =
  Dev :: "PCIDEV list"
  Count :: u32

section \<open>Names\<close>

definition storage_class :: "u8 \<Rightarrow> string" where
  "storage_class s =
     (if s = 0x00 then ''SCSI Controller'' else if s = 0x01 then ''IDE Controller''
      else if s = 0x02 then ''Floppy Disk Controller'' else if s = 0x03 then ''IPI Bus Controller''
      else if s = 0x04 then ''RAID Controller'' else if s = 0x05 then ''ATA Controller''
      else if s = 0x06 then ''SATA Controller'' else if s = 0x07 then ''SAS Controller''
      else if s = 0x80 then ''Other Mass Storage Controller'' else ''Unknown Storage Controller'')"

definition network_class :: "u8 \<Rightarrow> string" where
  "network_class s =
     (if s = 0x00 then ''Ethernet Controller'' else if s = 0x01 then ''Token Ring Controller''
      else if s = 0x02 then ''FDDI Controller'' else if s = 0x03 then ''ATM Controller''
      else if s = 0x04 then ''ISDN Controller'' else if s = 0x05 then ''WorldFip Controller''
      else if s = 0x06 then ''PICMG Controller'' else if s = 0x80 then ''Other Network Controller''
      else ''Unknown Network Controller'')"

definition display_class :: "u8 \<Rightarrow> string" where
  "display_class s =
     (if s = 0x00 then ''VGA Compatible Controller'' else if s = 0x01 then ''XGA Controller''
      else if s = 0x02 then ''3D Controller (Not VGA-Compatible)''
      else if s = 0x80 then ''Other Display Controller'' else ''Unknown Display Controller'')"

definition bridge_class :: "u8 \<Rightarrow> string" where
  "bridge_class s =
     (if s = 0x00 then ''Host Bridge'' else if s = 0x01 then ''ISA Bridge''
      else if s = 0x02 then ''EISA Bridge'' else if s = 0x03 then ''MCA Bridge''
      else if s = 0x04 then ''PCI-to-PCI Bridge'' else if s = 0x05 then ''PCMCIA Bridge''
      else if s = 0x06 then ''NuBus Bridge'' else if s = 0x07 then ''CardBus Bridge''
      else if s = 0x08 then ''RACEway Bridge'' else if s = 0x09 then ''PCI-to-PCI Bridge (Semi-transparent)''
      else if s = 0x0A then ''InfiniBand-to-PCI Host Bridge'' else if s = 0x80 then ''Other Bridge''
      else ''Unknown Bridge'')"

definition serial_class :: "u8 \<Rightarrow> string" where
  "serial_class s =
     (if s = 0x00 then ''FireWire (IEEE 1394) Controller'' else if s = 0x01 then ''ACCESS Bus''
      else if s = 0x02 then ''SSA'' else if s = 0x03 then ''USB Controller''
      else if s = 0x04 then ''Fibre Channel'' else if s = 0x05 then ''SMBus''
      else if s = 0x06 then ''InfiniBand'' else if s = 0x07 then ''IPMI Interface''
      else if s = 0x08 then ''SERCOS Interface'' else if s = 0x09 then ''CANbus Controller''
      else ''Unknown Serial Bus Controller'')"

definition PCIClassToString :: "u8 \<Rightarrow> u8 \<Rightarrow> string" where
  "PCIClassToString c s =
     (if c = 0x00 then (if s = 0x01 then ''VGA Compatible (Legacy)'' else ''Unclassified'')
      else if c = 0x01 then storage_class s else if c = 0x02 then network_class s
      else if c = 0x03 then display_class s else if c = 0x06 then bridge_class s
      else if c = 0x0C then serial_class s else ''Unknown Device'')"

section \<open>Configuration space\<close>

definition config_address :: "u16 \<Rightarrow> u8 \<Rightarrow> u8 \<Rightarrow> u8 \<Rightarrow> u32" where
  "config_address bus slot func offset =
     push_bit 16 (ucast bus) OR push_bit 11 (ucast slot) OR push_bit 8 (ucast func) OR
       (ucast offset AND 0xFC) OR 0x80000000"

definition PCIConfigReadDword :: "'h bus \<Rightarrow> u16 \<Rightarrow> u8 \<Rightarrow> u8 \<Rightarrow> u8 \<Rightarrow> 'h \<Rightarrow> u32 \<times> 'h" where
  "PCIConfigReadDword B bus slot func offset h =
     inl B PCI_CONFIG_DATA (outl B PCI_CONFIG_ADDRESS (config_address bus slot func offset) h)"

definition PCIConfigReadWord :: "'h bus \<Rightarrow> u16 \<Rightarrow> u8 \<Rightarrow> u8 \<Rightarrow> u8 \<Rightarrow> 'h \<Rightarrow> u16 \<times> 'h" where
  "PCIConfigReadWord B bus slot func offset h =
     (let (d, h1) = PCIConfigReadDword B bus slot func offset h
      in (ucast (drop_bit (unat (offset AND 2) * 8) d AND 0xFFFF), h1))"

definition PCIConfigReadByte :: "'h bus \<Rightarrow> u16 \<Rightarrow> u8 \<Rightarrow> u8 \<Rightarrow> u8 \<Rightarrow> 'h \<Rightarrow> u8 \<times> 'h" where
  "PCIConfigReadByte B bus slot func offset h =
     (let (d, h1) = PCIConfigReadDword B bus slot func offset h
      in (ucast (drop_bit (unat (offset AND 3) * 8) d AND 0xFF), h1))"

definition PCIDeviceExists :: "'h bus \<Rightarrow> u16 \<Rightarrow> u8 \<Rightarrow> u8 \<Rightarrow> 'h \<Rightarrow> bool \<times> 'h" where
  "PCIDeviceExists B bus slot function h =
     (let (w, h1) = PCIConfigReadWord B bus slot function 0x00 h in (w \<noteq> 0xFFFF, h1))"

fun read_bars :: "'h bus \<Rightarrow> u16 \<Rightarrow> u8 \<Rightarrow> u8 \<Rightarrow> nat list \<Rightarrow> 'h \<Rightarrow> u32 list \<times> 'h" where
  "read_bars B bus slot func [] h = ([], h)"
| "read_bars B bus slot func (i # is) h =
     (let (v, h1) = PCIConfigReadDword B bus slot func (of_nat (0x10 + i * 4)) h;
          (vs, h2) = read_bars B bus slot func is h1
      in (v # vs, h2))"

definition PCIReadDeviceInfo :: "'h bus \<Rightarrow> u16 \<Rightarrow> u8 \<Rightarrow> u8 \<Rightarrow> 'h \<Rightarrow> PCIDEV \<times> 'h" where
  "PCIReadDeviceInfo B bus sl fn h =
     (let (vendor, h1) = PCIConfigReadWord B bus sl fn 0x00 h;
          (device, h2) = PCIConfigReadWord B bus sl fn 0x02 h1;
          (rev, h3) = PCIConfigReadByte B bus sl fn 0x08 h2;
          (prog, h4) = PCIConfigReadByte B bus sl fn 0x09 h3;
          (sub, h5) = PCIConfigReadByte B bus sl fn 0x0A h4;
          (cls, h6) = PCIConfigReadByte B bus sl fn 0x0B h5;
          (hdr, h7) = PCIConfigReadByte B bus sl fn 0x0E h6;
          (irq, h8) = PCIConfigReadByte B bus sl fn 0x3C h7;
          (bars, h9) = read_bars B bus sl fn [0..<6] h8
      in (\<lparr>bus_no = ucast bus, slot_no = sl, func_no = fn, vendor_id = vendor, device_id = device, class_id = cls,
           subclass_id = sub, prog_if = prog, revision = rev, header_type = hdr, irq_line = irq, bar = bars\<rparr>, h9))"

section \<open>The scan\<close>

text \<open>\<^verbatim>\<open>OnDeviceFound\<close> is \<^verbatim>\<open>PCIRegister\<close>, the only function passed to the scan.
  The line it prints starts with the address of the table.\<close>

record 'h pci_state =
  hw :: 'h
  Pci :: PCI
  console :: string

definition found_line :: "string \<Rightarrow> PCIDEV \<Rightarrow> string" where
  "found_line table D = '' [Info] Found PCI ('' @ table @ '') device of type '' @
     PCIClassToString (class_id D) (subclass_id D) @ [CHR 0x0D, CHR 0x0A]"

definition PCIRegister :: "string \<Rightarrow> PCIDEV \<Rightarrow> 'h pci_state \<Rightarrow> 'h pci_state result" where
  "PCIRegister table D st =
     (if unat (Count (Pci st)) < length (Dev (Pci st)) then
        Inr (st\<lparr>Pci := \<lparr>Dev = (Dev (Pci st))[unat (Count (Pci st)) := D], Count = Count (Pci st) + 1\<rparr>,
                console := console st @ found_line table D\<rparr>)
      else Inl Fault)"

text \<open>The three loops: functions, slots, buses.\<close>

fun scan_functions ::
  "'h bus \<Rightarrow> string \<Rightarrow> u16 \<Rightarrow> u8 \<Rightarrow> nat list \<Rightarrow> 'h pci_state \<Rightarrow> 'h pci_state result" where
  "scan_functions B table bus sl [] st = Inr st"
| "scan_functions B table bus sl (f # fs) st =
     (let (present, h1) = PCIDeviceExists B bus sl (of_nat f) (hw st)
      in if \<not> present then scan_functions B table bus sl fs (st\<lparr>hw := h1\<rparr>)
         else let (D, h2) = PCIReadDeviceInfo B bus sl (of_nat f) h1
              in rbind (PCIRegister table D (st\<lparr>hw := h2\<rparr>)) (scan_functions B table bus sl fs))"

definition scan_slot :: "'h bus \<Rightarrow> string \<Rightarrow> u16 \<Rightarrow> u8 \<Rightarrow> 'h pci_state \<Rightarrow> 'h pci_state result" where
  "scan_slot B table bus sl st =
     (let (present, h1) = PCIDeviceExists B bus sl 0 (hw st)
      in if \<not> present then Inr (st\<lparr>hw := h1\<rparr>)
         else let (header, h2) = PCIConfigReadByte B bus sl 0 0x0E h1;
                  func_limit = (if header AND 0x80 \<noteq> 0 then 8 else 1)
              in scan_functions B table bus sl [0..<func_limit] (st\<lparr>hw := h2\<rparr>))"

fun scan_slots :: "'h bus \<Rightarrow> string \<Rightarrow> u16 \<Rightarrow> nat list \<Rightarrow> 'h pci_state \<Rightarrow> 'h pci_state result" where
  "scan_slots B table bus [] st = Inr st"
| "scan_slots B table bus (s # ss) st =
     rbind (scan_slot B table bus (of_nat s) st) (scan_slots B table bus ss)"

fun scan_buses :: "'h bus \<Rightarrow> string \<Rightarrow> nat list \<Rightarrow> 'h pci_state \<Rightarrow> 'h pci_state result" where
  "scan_buses B table [] st = Inr st"
| "scan_buses B table (b # bs) st =
     rbind (scan_slots B table (of_nat b) [0..<32] st) (scan_buses B table bs)"

definition PCIEnumeratePci :: "'h bus \<Rightarrow> string \<Rightarrow> 'h pci_state \<Rightarrow> 'h pci_state result" where
  "PCIEnumeratePci B table st = scan_buses B table [0..<256] st"

section \<open>The table\<close>

fun find_type :: "PCIDEV list \<Rightarrow> nat \<Rightarrow> u8 \<Rightarrow> u8 \<Rightarrow> nat option" where
  "find_type [] i c s = None"
| "find_type (D # Ds) i c s =
     (if class_id D = c \<and> subclass_id D = s then Some i else find_type Ds (Suc i) c s)"

text \<open>The index of the entry, \<open>None\<close> for \<^verbatim>\<open>NULL\<close>.\<close>

definition PCIFindOfType :: "PCI \<Rightarrow> u8 \<Rightarrow> u8 \<Rightarrow> nat option" where
  "PCIFindOfType P c s = find_type (take MAX_DEVICES (Dev P)) 0 c s"

definition PCIGetOriginalDevice :: "PCI \<Rightarrow> nat \<Rightarrow> nat option" where
  "PCIGetOriginalDevice P Index = (if MAX_DEVICES \<le> Index then None else Some Index)"

function get_pci :: "PCI \<Rightarrow> nat \<Rightarrow> nat \<Rightarrow> PCIDEV list" where
  "get_pci P i end =
     (if i \<le> end \<and> i < unat (Count P) then Dev P ! i # get_pci P (Suc i) end else [])"
  by pat_completeness auto
termination by (relation "measure (\<lambda>(P, i, e). unat (Count P) - i)") auto

definition PCIGetPci :: "PCI \<Rightarrow> nat \<Rightarrow> nat \<Rightarrow> PCIDEV list \<times> nat" where
  "PCIGetPci P start end = (get_pci P start end, length (get_pci P start end))"

section \<open>The device file\<close>

definition sizeof_PCI :: u64 where "sizeof_PCI = 5124"

definition PCIReadFunction :: "addr \<Rightarrow> u64 \<Rightarrow> u64 \<Rightarrow> addr \<Rightarrow> addr \<Rightarrow> memory \<Rightarrow> (u32 \<times> memory) result" where
  "PCIReadFunction Buf Size Elements Node DriverData m =
     rbind (PanicIfNull Buf) (\<lambda>_. rbind (PanicIfNull Node) (\<lambda>_.
     let Bytes = Size * Elements
     in rbind (memcpy Buf DriverData (unat (if Bytes \<le> sizeof_PCI then Bytes else sizeof_PCI)) m)
          (\<lambda>m1. Inr (ucast Elements, m1))))"

definition PCIWriteFunction :: "addr \<Rightarrow> u64 \<Rightarrow> u64 \<Rightarrow> addr \<Rightarrow> addr \<Rightarrow> memory \<Rightarrow> (u32 \<times> memory) result" where
  "PCIWriteFunction Buf Size Elements Node DriverData m =
     rbind (PanicIfNull Buf) (\<lambda>_. rbind (PanicIfNull Node) (\<lambda>_.
     let Bytes = Size * Elements
     in rbind (memcpy DriverData Buf (unat (if Bytes \<le> sizeof_PCI then Bytes else sizeof_PCI)) m)
          (\<lambda>m1. Inr (ucast Elements, m1))))"

section \<open>What the scan finds\<close>

text \<open>
  The documented configuration mechanism: after an address is written to the one port, the other
  delivers the register it names. \<open>cfg\<close> is the configuration space.
\<close>

definition config_space :: "'h bus \<Rightarrow> (u32 \<Rightarrow> u32) \<Rightarrow> bool" where
  "config_space B cfg \<longleftrightarrow>
     (\<forall>h a. fst (inl B PCI_CONFIG_DATA (outl B PCI_CONFIG_ADDRESS a h)) = cfg a)"

definition cfg_byte :: "(u32 \<Rightarrow> u32) \<Rightarrow> u16 \<Rightarrow> u8 \<Rightarrow> u8 \<Rightarrow> u8 \<Rightarrow> u8" where
  "cfg_byte cfg b s f off = ucast (drop_bit (unat (off AND 3) * 8) (cfg (config_address b s f off)) AND 0xFF)"

definition cfg_word :: "(u32 \<Rightarrow> u32) \<Rightarrow> u16 \<Rightarrow> u8 \<Rightarrow> u8 \<Rightarrow> u8 \<Rightarrow> u16" where
  "cfg_word cfg b s f off = ucast (drop_bit (unat (off AND 2) * 8) (cfg (config_address b s f off)) AND 0xFFFF)"

definition present :: "(u32 \<Rightarrow> u32) \<Rightarrow> u16 \<Rightarrow> u8 \<Rightarrow> u8 \<Rightarrow> bool" where
  "present cfg b s f \<longleftrightarrow> cfg_word cfg b s f 0 \<noteq> 0xFFFF"

definition device_at :: "(u32 \<Rightarrow> u32) \<Rightarrow> u16 \<Rightarrow> u8 \<Rightarrow> u8 \<Rightarrow> PCIDEV" where
  "device_at cfg b s f =
     \<lparr>bus_no = ucast b, slot_no = s, func_no = f, vendor_id = cfg_word cfg b s f 0, device_id = cfg_word cfg b s f 2,
      class_id = cfg_byte cfg b s f 0x0B, subclass_id = cfg_byte cfg b s f 0x0A, prog_if = cfg_byte cfg b s f 0x09,
      revision = cfg_byte cfg b s f 0x08, header_type = cfg_byte cfg b s f 0x0E, irq_line = cfg_byte cfg b s f 0x3C,
      bar = map (\<lambda>i. cfg (config_address b s f (of_nat (0x10 + i * 4)))) [0..<6]\<rparr>"

definition slot_functions :: "(u32 \<Rightarrow> u32) \<Rightarrow> u16 \<Rightarrow> u8 \<Rightarrow> nat" where
  "slot_functions cfg b s =
     (if \<not> present cfg b s 0 then 0 else if cfg_byte cfg b s 0 0x0E AND 0x80 \<noteq> 0 then 8 else 1)"

definition slot_devices :: "(u32 \<Rightarrow> u32) \<Rightarrow> nat \<Rightarrow> nat \<Rightarrow> PCIDEV list" where
  "slot_devices cfg b s =
     map (\<lambda>f. device_at cfg (of_nat b) (of_nat s) (of_nat f))
       (filter (\<lambda>f. present cfg (of_nat b) (of_nat s) (of_nat f)) [0..<slot_functions cfg (of_nat b) (of_nat s)])"

definition all_devices :: "(u32 \<Rightarrow> u32) \<Rightarrow> PCIDEV list" where
  "all_devices cfg = concat (map (\<lambda>b. concat (map (slot_devices cfg b) [0..<32])) [0..<256])"

lemma PCIConfigReadDword_cfg:
  "config_space B cfg \<Longrightarrow> fst (PCIConfigReadDword B b s f off h) = cfg (config_address b s f off)"
  by (simp add: config_space_def PCIConfigReadDword_def)

lemma cfg_reads:
  assumes "config_space B cfg"
  shows "fst (PCIConfigReadByte B b s f off h) = cfg_byte cfg b s f off"
    "fst (PCIConfigReadWord B b s f off h) = cfg_word cfg b s f off"
    "fst (PCIDeviceExists B b s f h) = present cfg b s f"
    "fst (read_bars B b s f is h) = map (\<lambda>i. cfg (config_address b s f (of_nat (0x10 + i * 4)))) is"
proof -
  show w: "fst (PCIConfigReadWord B b s f off h) = cfg_word cfg b s f off" for off h
    using PCIConfigReadDword_cfg [OF assms, of b s f off h]
    by (simp add: PCIConfigReadWord_def cfg_word_def split_beta Let_def)
  show "fst (PCIConfigReadByte B b s f off h) = cfg_byte cfg b s f off"
    using PCIConfigReadDword_cfg [OF assms, of b s f off h]
    by (simp add: PCIConfigReadByte_def cfg_byte_def split_beta Let_def)
  show "fst (PCIDeviceExists B b s f h) = present cfg b s f"
    using w [of 0 h] by (simp add: PCIDeviceExists_def present_def split_beta Let_def)
  show "fst (read_bars B b s f is h) = map (\<lambda>i. cfg (config_address b s f (of_nat (0x10 + i * 4)))) is"
  proof (induction "is" arbitrary: h)
    case (Cons i "is")
    then show ?case
      using PCIConfigReadDword_cfg [OF assms, of b s f "of_nat (0x10 + i * 4)" h]
      by (simp add: split_beta Let_def)
  qed simp
qed

lemma PCIReadDeviceInfo_cfg:
  assumes "config_space B cfg"
  shows "fst (PCIReadDeviceInfo B b s f h) = device_at cfg b s f"
  unfolding PCIReadDeviceInfo_def device_at_def Let_def
  by (simp add: split_beta cfg_reads [OF assms] del: upt.simps)

text \<open>Two results that differ at most in the state of the hardware.\<close>

definition same_table :: "'h pci_state result \<Rightarrow> 'h pci_state result \<Rightarrow> bool" where
  "same_table r r' = (case r of Inl e \<Rightarrow> r' = Inl e
     | Inr s \<Rightarrow> \<exists>s'. r' = Inr s' \<and> Pci s = Pci s' \<and> console s = console s')"

fun register_all :: "string \<Rightarrow> PCIDEV list \<Rightarrow> 'h pci_state \<Rightarrow> 'h pci_state result" where
  "register_all table [] st = Inr st"
| "register_all table (D # Ds) st = rbind (PCIRegister table D st) (register_all table Ds)"

lemma same_table_rbind:
  "same_table r r' \<Longrightarrow> (\<And>s s'. Pci s = Pci s' \<Longrightarrow> console s = console s' \<Longrightarrow> same_table (f s) (g s')) \<Longrightarrow>
     same_table (rbind r f) (rbind r' g)"
proof -
  assume r: "same_table r r'" and f: "\<And>s s'. Pci s = Pci s' \<Longrightarrow> console s = console s' \<Longrightarrow> same_table (f s) (g s')"
  show ?thesis
  proof (cases r)
    case (Inl e)
    then show ?thesis using r by (simp add: same_table_def)
  next
    case (Inr s)
    then obtain s' where "r' = Inr s'" "Pci s = Pci s'" "console s = console s'" using r by (auto simp: same_table_def)
    then show ?thesis using Inr f by simp
  qed
qed

lemma register_all_append: "register_all table (xs @ ys) st = rbind (register_all table xs st) (register_all table ys)"
proof (induction xs arbitrary: st)
  case (Cons x xs)
  then show ?case by (cases "PCIRegister table x st") simp_all
qed simp

lemma PCIRegister_same:
  "Pci s = Pci s' \<Longrightarrow> console s = console s' \<Longrightarrow> same_table (PCIRegister table D s) (PCIRegister table D s')"
  by (simp add: same_table_def PCIRegister_def)

lemma scan_functions_finds:
  assumes "config_space B cfg" "Pci s = Pci s'" "console s = console s'"
  shows "same_table (scan_functions B table b sl fs s)
     (register_all table (map (\<lambda>f. device_at cfg b sl (of_nat f)) (filter (\<lambda>f. present cfg b sl (of_nat f)) fs)) s')"
  using assms(2,3)
proof (induction fs arbitrary: s s')
  case (Cons f fs)
  obtain h1 where e: "PCIDeviceExists B b sl (of_nat f) (hw s) = (present cfg b sl (of_nat f), h1)"
    using cfg_reads(3) [OF assms(1), of b sl "of_nat f" "hw s"]
    by (cases "PCIDeviceExists B b sl (of_nat f) (hw s)") simp
  obtain h2 where i: "PCIReadDeviceInfo B b sl (of_nat f) h1 = (device_at cfg b sl (of_nat f), h2)"
    using PCIReadDeviceInfo_cfg [OF assms(1), of b sl "of_nat f" h1]
    by (cases "PCIReadDeviceInfo B b sl (of_nat f) h1") simp
  show ?case
  proof (cases "present cfg b sl (of_nat f)")
    case True
    then show ?thesis using e i Cons.prems
      by (auto intro!: same_table_rbind PCIRegister_same Cons.IH)
  qed (use e Cons in simp)
qed (simp add: same_table_def)

lemma scan_slot_finds:
  assumes "config_space B cfg" "Pci s = Pci s'" "console s = console s'"
  shows "same_table (scan_slot B table (of_nat b) (of_nat sl) s) (register_all table (slot_devices cfg b sl) s')"
proof -
  obtain h1 where e: "PCIDeviceExists B (of_nat b) (of_nat sl) 0 (hw s) = (present cfg (of_nat b) (of_nat sl) 0, h1)"
    using cfg_reads(3) [OF assms(1), of "of_nat b" "of_nat sl" 0 "hw s"]
    by (cases "PCIDeviceExists B (of_nat b) (of_nat sl) 0 (hw s)") simp
  obtain h2 where i: "PCIConfigReadByte B (of_nat b) (of_nat sl) 0 0x0E h1 = (cfg_byte cfg (of_nat b) (of_nat sl) 0 0x0E, h2)"
    using cfg_reads(1) [OF assms(1), of "of_nat b" "of_nat sl" 0 "0x0E" h1]
    by (cases "PCIConfigReadByte B (of_nat b) (of_nat sl) 0 0x0E h1") simp
  show ?thesis
  proof (cases "present cfg (of_nat b) (of_nat sl) 0")
    case True
    then have "scan_slot B table (of_nat b) (of_nat sl) s =
        scan_functions B table (of_nat b) (of_nat sl) [0..<slot_functions cfg (of_nat b) (of_nat sl)] (s\<lparr>hw := h2\<rparr>)"
      using e i by (simp add: scan_slot_def slot_functions_def Let_def)
    then show ?thesis using scan_functions_finds [OF assms(1), of "s\<lparr>hw := h2\<rparr>" s'] assms(2,3)
      by (simp add: slot_devices_def)
  next
    case False
    then show ?thesis using e assms(2,3) by (simp add: scan_slot_def slot_devices_def slot_functions_def same_table_def)
  qed
qed

lemma scan_slots_finds:
  assumes "config_space B cfg" "Pci s = Pci s'" "console s = console s'"
  shows "same_table (scan_slots B table (of_nat b) ss s) (register_all table (concat (map (slot_devices cfg b) ss)) s')"
  using assms(2,3)
proof (induction ss arbitrary: s s')
  case (Cons x xs)
  then show ?case by (simp add: register_all_append) (intro same_table_rbind scan_slot_finds [OF assms(1)])
qed (simp add: same_table_def)

lemma scan_buses_finds:
  assumes "config_space B cfg" "Pci s = Pci s'" "console s = console s'"
  shows "same_table (scan_buses B table bs s)
     (register_all table (concat (map (\<lambda>b. concat (map (slot_devices cfg b) [0..<32])) bs)) s')"
  using assms(2,3)
proof (induction bs arbitrary: s s')
  case (Cons x xs)
  then show ?case
    by (simp add: register_all_append del: upt.simps upt_rec_numeral)
      (intro same_table_rbind scan_slots_finds [OF assms(1)])
qed (simp add: same_table_def)

lemma register_all_table:
  assumes "length (Dev (Pci st)) = MAX_DEVICES" "Count (Pci st) = of_nat c" "c \<le> MAX_DEVICES"
  shows "if c + length ds \<le> MAX_DEVICES
    then \<exists>st'. register_all table ds st = Inr st' \<and> Count (Pci st') = of_nat (c + length ds) \<and>
      Dev (Pci st') = take c (Dev (Pci st)) @ ds @ drop (c + length ds) (Dev (Pci st))
    else register_all table ds st = Inl Fault"
  using assms
proof (induction ds arbitrary: c st)
  case (Cons D ds)
  have "c < 2 ^ 32" using Cons.prems(3) by (simp add: MAX_DEVICES_def)
  then have uc: "unat (Count (Pci st)) = c" using Cons.prems(2) by (simp add: unat_of_nat)
  show ?case
  proof (cases "c < MAX_DEVICES")
    case True
    let ?st1 = "st\<lparr>Pci := \<lparr>Dev = (Dev (Pci st))[c := D], Count = Count (Pci st) + 1\<rparr>, console := console st @ found_line table D\<rparr>"
    have r: "PCIRegister table D st = Inr ?st1" using True uc Cons.prems(1) by (simp add: PCIRegister_def)
    have "take (Suc c) ((Dev (Pci st))[c := D]) = take c (Dev (Pci st)) @ [D]"
      using True Cons.prems(1) by (simp add: take_Suc_conv_app_nth)
    have le: "Suc c + length ds \<le> MAX_DEVICES \<longleftrightarrow> c + length (D # ds) \<le> MAX_DEVICES" by simp
    have "length (Dev (Pci ?st1)) = MAX_DEVICES" "Count (Pci ?st1) = of_nat (Suc c)" "Suc c \<le> MAX_DEVICES"
      using Cons.prems True by simp_all
    from Cons.IH [OF this] r show ?thesis unfolding le
      using \<open>take (Suc c) ((Dev (Pci st))[c := D]) = take c (Dev (Pci st)) @ [D]\<close>
      by (cases "c + length (D # ds) \<le> MAX_DEVICES") auto
  next
    case False
    then show ?thesis using uc Cons.prems(1,3) by (simp add: PCIRegister_def)
  qed
qed simp

lemma scan_finds:
  assumes "config_space B cfg" "length (Dev (Pci st)) = MAX_DEVICES" "Count (Pci st) = 0"
  shows "if length (all_devices cfg) \<le> MAX_DEVICES
    then \<exists>st'. PCIEnumeratePci B table st = Inr st' \<and> Count (Pci st') = of_nat (length (all_devices cfg)) \<and>
      Dev (Pci st') = all_devices cfg @ drop (length (all_devices cfg)) (Dev (Pci st))
    else PCIEnumeratePci B table st = Inl Fault"
proof -
  have s: "same_table (PCIEnumeratePci B table st) (register_all table (all_devices cfg) st)"
    unfolding PCIEnumeratePci_def all_devices_def by (rule scan_buses_finds [OF assms(1) refl refl])
  show ?thesis
    using register_all_table [of st 0 "all_devices cfg" table] assms(2,3) s
    by (cases "length (all_devices cfg) \<le> MAX_DEVICES") (auto simp: same_table_def split: sum.splits)
qed

text \<open>
  C29. \<^verbatim>\<open>PCIEnumeratePci\<close> registers exactly the functions that answer in configuration
  space, in the order bus, slot, function: function 0 of a slot decides whether the slot is there,
  and functions 1 to 7 are tried only if its header says multi-function. Each is entered with the
  fields of its header. More functions than the table has entries are written past its end.
\<close>

theorem PCIEnumeratePci_finds:
  assumes "config_space B cfg" "length (Dev (Pci st)) = MAX_DEVICES" "Count (Pci st) = 0"
  shows "if length (all_devices cfg) \<le> MAX_DEVICES
    then \<exists>st'. PCIEnumeratePci B table st = Inr st' \<and> Count (Pci st') = of_nat (length (all_devices cfg)) \<and>
      Dev (Pci st') = all_devices cfg @ drop (length (all_devices cfg)) (Dev (Pci st))
    else PCIEnumeratePci B table st = Inl Fault"
  using assms by (rule scan_finds)

lemma empty_config: "all_devices (\<lambda>a. 0xFFFFFFFF) = []"
proof -
  have "cfg_word (\<lambda>a. 0xFFFFFFFF) b s f 0 = 0xFFFF" for b s f by (simp add: cfg_word_def)
  then have "slot_devices (\<lambda>a. 0xFFFFFFFF) b s = []" for b s
    by (simp add: slot_devices_def slot_functions_def present_def)
  then show ?thesis by (simp add: all_devices_def del: upt.simps upt_rec_numeral)
qed

definition open_bus :: "unit bus" where
  "open_bus = \<lparr>inb = \<lambda>p h. (0xFF, h), outb = \<lambda>p v h. h, inw = \<lambda>p h. (0xFFFF, h), outw = \<lambda>p v h. h,
     inl = \<lambda>p h. (0xFFFFFFFF, h), outl = \<lambda>p v h. h, delay = \<lambda>n h. h\<rparr>"

theorem PCIEnumeratePci_finds_witness:
  "\<exists>st'. PCIEnumeratePci open_bus ''0'' \<lparr>hw = (), Pci = \<lparr>Dev = replicate 128 (device_at (\<lambda>a. 0) 0 0 0), Count = 0\<rparr>, console = ''''\<rparr> = Inr st' \<and>
     Count (Pci st') = 0"
proof -
  have "config_space open_bus (\<lambda>a. 0xFFFFFFFF)" by (simp add: config_space_def open_bus_def)
  from PCIEnumeratePci_finds [OF this, of "\<lparr>hw = (), Pci = \<lparr>Dev = replicate 128 (device_at (\<lambda>a. 0) 0 0 0), Count = 0\<rparr>, console = ''''\<rparr>" "''0''"]
  show ?thesis by (auto simp: empty_config MAX_DEVICES_def)
qed

text \<open>
  A configuration address carries its bus, slot, function and register in separate bits with
  the enable bit set, so that no two registers share an address.
\<close>

theorem config_address_fields:
  assumes "b < 256" "s < 32" "f < 8"
  shows "bit (config_address (of_nat b) (of_nat s) (of_nat f) off) 31"
    "drop_bit 16 (config_address (of_nat b) (of_nat s) (of_nat f) off) AND 0xFF = of_nat b"
    "drop_bit 11 (config_address (of_nat b) (of_nat s) (of_nat f) off) AND 0x1F = of_nat s"
    "drop_bit 8 (config_address (of_nat b) (of_nat s) (of_nat f) off) AND 0x7 = of_nat f"
    "config_address (of_nat b) (of_nat s) (of_nat f) off AND 0xFF = ucast off AND 0xFC"
proof -
  have m: "(0xFF :: u32) = mask 8" "(0x1F :: u32) = mask 5" "(0x7 :: u32) = mask 3" "(0x80000000 :: u32) = push_bit 31 1"
    "(0xFC :: u32) = push_bit 2 (mask 6)"
    by (simp_all add: mask_eq_exp_minus_1)
  have lt: "bit b j \<Longrightarrow> j < 8" "bit s j \<Longrightarrow> j < 5" "bit f j \<Longrightarrow> j < 3" for j
    using bit_less_nat [of b j 8] bit_less_nat [of s j 5] bit_less_nat [of f j 3] assms by simp_all
  have w: "bit (config_address (of_nat b) (of_nat s) (of_nat f) off) k \<longleftrightarrow>
      k < 32 \<and> (16 \<le> k \<and> bit b (k - 16) \<or> 11 \<le> k \<and> bit s (k - 11) \<or> 8 \<le> k \<and> bit f (k - 8) \<or>
        k < 8 \<and> 2 \<le> k \<and> bit off k \<or> k = 31)" for k
  proof -
    have b: "bit (push_bit 16 (ucast (of_nat b :: 16 word)) :: 32 word) k \<longleftrightarrow> k < 32 \<and> 16 \<le> k \<and> bit b (k - 16)"
      by (auto simp: bit_push_bit_iff bit_ucast_iff bit_word_of_nat)
    have s: "bit (push_bit 11 (ucast (of_nat s :: 8 word)) :: 32 word) k \<longleftrightarrow> k < 32 \<and> 11 \<le> k \<and> bit s (k - 11)"
      using lt(2) [of "k - 11"] by (auto simp: bit_push_bit_iff bit_ucast_iff bit_word_of_nat)
    have f: "bit (push_bit 8 (ucast (of_nat f :: 8 word)) :: 32 word) k \<longleftrightarrow> k < 32 \<and> 8 \<le> k \<and> bit f (k - 8)"
      using lt(3) [of "k - 8"] by (auto simp: bit_push_bit_iff bit_ucast_iff bit_word_of_nat)
    have o1: "bit (ucast off AND push_bit 2 (mask 6) :: 32 word) k \<longleftrightarrow> k < 8 \<and> 2 \<le> k \<and> bit off k"
      by (auto simp: bit_and_iff bit_push_bit_iff bit_ucast_iff bit_mask_iff)
    have h: "bit (push_bit 31 (1 :: 32 word)) k \<longleftrightarrow> k = 31" unfolding bit_push_bit_iff bit_1_iff by auto
    show ?thesis unfolding config_address_def m bit_or_iff b s f o1 h by auto
  qed
  show "bit (config_address (of_nat b) (of_nat s) (of_nat f) off) 31" by (simp add: w)
  show "drop_bit 16 (config_address (of_nat b) (of_nat s) (of_nat f) off) AND 0xFF = of_nat b" unfolding m
  proof (rule bit_word_eqI)
    fix k
    show "bit (drop_bit 16 (config_address (of_nat b) (of_nat s) (of_nat f) off) AND mask 8) k = bit (of_nat b :: u32) k"
      using lt(1) [of k] lt(1) [of "k + 16 - 16"] lt(2) [of k] lt(2) [of "k + 16 - 11"] lt(3) [of k] lt(3) [of "k + 16 - 8"]
      by (auto simp: bit_drop_bit_eq bit_and_iff bit_mask_iff w bit_word_of_nat add.commute)
  qed
  show "drop_bit 11 (config_address (of_nat b) (of_nat s) (of_nat f) off) AND 0x1F = of_nat s" unfolding m
  proof (rule bit_word_eqI)
    fix k
    show "bit (drop_bit 11 (config_address (of_nat b) (of_nat s) (of_nat f) off) AND mask 5) k = bit (of_nat s :: u32) k"
      using lt(1) [of k] lt(1) [of "k + 11 - 16"] lt(2) [of k] lt(2) [of "k + 11 - 11"] lt(3) [of k] lt(3) [of "k + 11 - 8"]
      by (auto simp: bit_drop_bit_eq bit_and_iff bit_mask_iff w bit_word_of_nat add.commute)
  qed
  show "drop_bit 8 (config_address (of_nat b) (of_nat s) (of_nat f) off) AND 0x7 = of_nat f" unfolding m
  proof (rule bit_word_eqI)
    fix k
    show "bit (drop_bit 8 (config_address (of_nat b) (of_nat s) (of_nat f) off) AND mask 3) k = bit (of_nat f :: u32) k"
      using lt(1) [of k] lt(1) [of "k + 8 - 16"] lt(2) [of k] lt(2) [of "k + 8 - 11"] lt(3) [of k] lt(3) [of "k + 8 - 8"]
      by (auto simp: bit_drop_bit_eq bit_and_iff bit_mask_iff w bit_word_of_nat add.commute)
  qed
  show "config_address (of_nat b) (of_nat s) (of_nat f) off AND 0xFF = ucast off AND 0xFC" unfolding m
    by (rule bit_word_eqI) (auto simp: bit_and_iff bit_mask_iff bit_push_bit_iff bit_ucast_iff w)
qed

theorem config_address_fields_witness:
  "drop_bit 11 (config_address (of_nat 0) (of_nat 31) (of_nat 7) 0x3C) AND 0x1F = 31"
  using config_address_fields(3) [of 0 31 7 "0x3C"] by simp

end
