(* ===== verification/Ide.thy ===== *)
theory Ide
  imports Pci
begin

text \<open>
  The IDE module, \<^verbatim>\<open>src/modules/ide\<close>: the registers of a channel, polling, the
  addressing modes, sector transfers by programmed I/O, packet reads, detection, and the read and
  write functions of a drive's node, which turn sectors into a stream of bytes. The controller is
  the bus parameter. Buffers are byte memory, as the transfers take the address of one; the
  address of a function's local buffer is a parameter. A busy wait that never ends is \<open>None\<close>.
\<close>

section \<open>State\<close>

record IDEDev =
  Reserved :: u8
  Channel :: u8
  Drive :: u8
  Type :: u16
  Signature :: u16
  Capabilities :: u16
  CommandSets :: u32
  Size :: u32
  Model :: "u8 list"

record IDEChannelRegisters =
  base :: u16
  ctrl :: u16
  bmide :: u16
  nIEN :: u8

text \<open>
  The code indexes \<open>IDEDevs\<close> below 4 and \<open>Channels\<close> below 2. \<open>FileOffset i\<close> is that of
  the node of drive \<open>i\<close>; \<open>created\<close> lists the nodes registered below \<^verbatim>\<open>/dev\<close>, by
  name and drive.
\<close>

record 'h ide =
  hw :: 'h
  Dev :: "PCIDEV option"
  IDEDevs :: "nat \<Rightarrow> IDEDev"
  Channels :: "nat \<Rightarrow> IDEChannelRegisters"
  Buff :: "u8 list"
  package0 :: u8
  atapi_packet :: "u8 list"
  imem :: memory
  FileOffset :: "nat \<Rightarrow> u64"
  console :: string
  created :: "(string \<times> nat) list"

definition ATA_SR_BSY :: u8 where "ATA_SR_BSY = 0x80"
definition ATA_SR_DF :: u8 where "ATA_SR_DF = 0x20"
definition ATA_SR_DRQ :: u8 where "ATA_SR_DRQ = 0x08"
definition ATA_SR_ERR :: u8 where "ATA_SR_ERR = 0x01"
definition IDE_ATA :: u16 where "IDE_ATA = 0"
definition IDE_ATAPI :: u16 where "IDE_ATAPI = 1"
definition ATA_REG_DATA :: u8 where "ATA_REG_DATA = 0x00"
definition ATA_REG_ERROR :: u8 where "ATA_REG_ERROR = 0x01"
definition ATA_REG_SECCOUNT0 :: u8 where "ATA_REG_SECCOUNT0 = 0x02"
definition ATA_REG_LBA0 :: u8 where "ATA_REG_LBA0 = 0x03"
definition ATA_REG_LBA1 :: u8 where "ATA_REG_LBA1 = 0x04"
definition ATA_REG_LBA2 :: u8 where "ATA_REG_LBA2 = 0x05"
definition ATA_REG_HDDEVSEL :: u8 where "ATA_REG_HDDEVSEL = 0x06"
definition ATA_REG_COMMAND :: u8 where "ATA_REG_COMMAND = 0x07"
definition ATA_REG_STATUS :: u8 where "ATA_REG_STATUS = 0x07"
definition ATA_REG_SECCOUNT1 :: u8 where "ATA_REG_SECCOUNT1 = 0x08"
definition ATA_REG_LBA3 :: u8 where "ATA_REG_LBA3 = 0x09"
definition ATA_REG_LBA4 :: u8 where "ATA_REG_LBA4 = 0x0A"
definition ATA_REG_LBA5 :: u8 where "ATA_REG_LBA5 = 0x0B"
definition ATA_REG_CONTROL :: u8 where "ATA_REG_CONTROL = 0x0C"
definition ATA_REG_ALTSTATUS :: u8 where "ATA_REG_ALTSTATUS = 0x0C"

lemmas ata_regs = ATA_REG_DATA_def ATA_REG_ERROR_def ATA_REG_SECCOUNT0_def ATA_REG_LBA0_def ATA_REG_LBA1_def
  ATA_REG_LBA2_def ATA_REG_HDDEVSEL_def ATA_REG_COMMAND_def ATA_REG_STATUS_def ATA_REG_SECCOUNT1_def ATA_REG_LBA3_def
  ATA_REG_LBA4_def ATA_REG_LBA5_def ATA_REG_CONTROL_def ATA_REG_ALTSTATUS_def

section \<open>Registers\<close>

text \<open>The port of a register; \<open>None\<close> for numbers from \<^verbatim>\<open>0x16\<close>.\<close>

definition reg_port :: "IDEChannelRegisters \<Rightarrow> u8 \<Rightarrow> u16 option" where
  "reg_port c reg =
     (if reg < 0x08 then Some (base c + ucast reg)
      else if reg < 0x0C then Some (base c + ucast reg - 0x06)
      else if reg < 0x0E then Some (ctrl c + ucast reg - 0x0A)
      else if reg < 0x16 then Some (bmide c + ucast reg - 0x0E)
      else None)"

definition reg_out :: "'h bus \<Rightarrow> nat \<Rightarrow> u8 \<Rightarrow> u8 \<Rightarrow> 'h ide \<Rightarrow> 'h ide" where
  "reg_out B channel reg data st =
     (case reg_port (Channels st channel) reg of None \<Rightarrow> st | Some p \<Rightarrow> st\<lparr>hw := outb B p data (hw st)\<rparr>)"

definition reg_in :: "'h bus \<Rightarrow> nat \<Rightarrow> u8 \<Rightarrow> 'h ide \<Rightarrow> u8 \<times> 'h ide" where
  "reg_in B channel reg st =
     (case reg_port (Channels st channel) reg of None \<Rightarrow> (0xFF, st)
      | Some p \<Rightarrow> let (v, h) = inb B p (hw st) in (v, st\<lparr>hw := h\<rparr>))"

text \<open>The registers 8 to 11 are behind the high-order bit of the control register, which is set
  before and cleared after the access.\<close>

definition high_register :: "u8 \<Rightarrow> bool" where
  "high_register reg \<longleftrightarrow> 0x07 < reg \<and> reg < 0x0C"

definition hob_on :: "'h bus \<Rightarrow> nat \<Rightarrow> u8 \<Rightarrow> 'h ide \<Rightarrow> 'h ide" where
  "hob_on B channel reg st =
     (if high_register reg then reg_out B channel ATA_REG_CONTROL (0x80 OR nIEN (Channels st channel)) st else st)"

definition hob_off :: "'h bus \<Rightarrow> nat \<Rightarrow> u8 \<Rightarrow> 'h ide \<Rightarrow> 'h ide" where
  "hob_off B channel reg st =
     (if high_register reg then reg_out B channel ATA_REG_CONTROL (nIEN (Channels st channel)) st else st)"

definition IDEWrite :: "'h bus \<Rightarrow> nat \<Rightarrow> u8 \<Rightarrow> u8 \<Rightarrow> 'h ide \<Rightarrow> 'h ide" where
  "IDEWrite B channel reg data st =
     hob_off B channel reg (reg_out B channel reg data (hob_on B channel reg st))"

definition IDERead :: "'h bus \<Rightarrow> nat \<Rightarrow> u8 \<Rightarrow> 'h ide \<Rightarrow> u8 \<times> 'h ide" where
  "IDERead B channel reg st =
     (let (result, st1) = reg_in B channel reg (hob_on B channel reg st) in (result, hob_off B channel reg st1))"

definition IDEReadBuffer :: "'h bus \<Rightarrow> nat \<Rightarrow> u8 \<Rightarrow> nat \<Rightarrow> 'h ide \<Rightarrow> 'h ide" where
  "IDEReadBuffer B channel reg quads st =
     (let st0 = hob_on B channel reg st;
          st1 = (case reg_port (Channels st0 channel) reg of None \<Rightarrow> st0
                 | Some p \<Rightarrow> let (bs, h) = insl B p quads (hw st0)
                             in st0\<lparr>hw := h, Buff := bs @ drop (length bs) (Buff st0)\<rparr>)
      in hob_off B channel reg st1)"

definition Delay :: "'h bus \<Rightarrow> nat \<Rightarrow> 'h ide \<Rightarrow> 'h ide" where
  "Delay B n st = st\<lparr>hw := delay B n (hw st)\<rparr>"

definition SerialPrint :: "string \<Rightarrow> 'h ide \<Rightarrow> 'h ide" where
  "SerialPrint t st = st\<lparr>console := console st @ t\<rparr>"

definition dev_channel :: "'h ide \<Rightarrow> u8 \<Rightarrow> nat" where
  "dev_channel st drive = unat (Channel (IDEDevs st (unat drive)))"

definition slavebit :: "'h ide \<Rightarrow> u8 \<Rightarrow> u8" where
  "slavebit st drive = push_bit 4 (Drive (IDEDevs st (unat drive)))"

definition IsDrivePresent :: "'h bus \<Rightarrow> u8 \<Rightarrow> 'h ide \<Rightarrow> bool \<times> 'h ide" where
  "IsDrivePresent B drive st =
     (if 3 < drive then (False, st)
      else if Reserved (IDEDevs st (unat drive)) = 0 then (False, st)
      else
        let channel = dev_channel st drive;
            st1 = Delay B 1 (IDEWrite B channel ATA_REG_HDDEVSEL (0xA0 OR slavebit st drive) st);
            (status, st2) = IDERead B channel ATA_REG_STATUS st1
        in (status \<noteq> 0xFF \<and> status \<noteq> 0x00, st2))"

section \<open>Waiting\<close>

partial_function (option) IDEWaitNotBusy :: "'h bus \<Rightarrow> nat \<Rightarrow> 'h ide \<Rightarrow> 'h ide option" where
  "IDEWaitNotBusy B channel st =
     (let r = IDERead B channel ATA_REG_STATUS st
      in if fst r AND ATA_SR_BSY \<noteq> 0 then IDEWaitNotBusy B channel (snd r) else Some (snd r))"

fun IDEWaitReady :: "'h bus \<Rightarrow> nat \<Rightarrow> nat \<Rightarrow> 'h ide \<Rightarrow> 'h ide" where
  "IDEWaitReady B channel 0 st = st"
| "IDEWaitReady B channel (Suc timeout) st =
     (let (status, st1) = IDERead B channel ATA_REG_STATUS st
      in if status AND ATA_SR_BSY = 0 \<and> status AND ATA_SR_DRQ \<noteq> 0 then st1
         else IDEWaitReady B channel timeout (Delay B 1 st1))"

fun read_altstatus :: "'h bus \<Rightarrow> nat \<Rightarrow> nat \<Rightarrow> 'h ide \<Rightarrow> 'h ide" where
  "read_altstatus B channel 0 st = st"
| "read_altstatus B channel (Suc n) st =
     read_altstatus B channel n (snd (IDERead B channel ATA_REG_ALTSTATUS st))"

definition IDEPolling :: "'h bus \<Rightarrow> nat \<Rightarrow> bool \<Rightarrow> 'h ide \<Rightarrow> (u8 \<times> 'h ide) option" where
  "IDEPolling B channel advanced_check st =
     Option.bind (IDEWaitNotBusy B channel (read_altstatus B channel 4 st)) (\<lambda>st1.
       if advanced_check then
         let (state, st2) = IDERead B channel ATA_REG_STATUS st1
         in if state AND ATA_SR_ERR \<noteq> 0 then Some (2, st2)
            else if state AND ATA_SR_DF \<noteq> 0 then Some (1, st2)
            else if state AND ATA_SR_DRQ = 0 then Some (3, st2)
            else Some (0, st2)
       else Some (0, st1))"

section \<open>Errors\<close>

text \<open>The checks of the error register, in their order: the last that applies gives the code.\<close>

definition error_checks :: "(u8 \<times> string \<times> u8) list" where
  "error_checks =
     [(0x01, ''- No Address Mark Found'', 7), (0x02, ''- No Media or Media Error'', 3),
      (0x04, ''- Command Aborted'', 20), (0x08, ''- No Media or Media Error'', 3),
      (0x10, ''- ID mark not Found'', 21), (0x20, ''- No Media or Media Error'', 3),
      (0x40, ''- Uncorrectable Data Error'', 22), (0x80, ''- Bad Sectors'', 13)]"

definition error_line :: "string \<Rightarrow> string" where
  "error_line t = t @ [CHR 0x0A] @ ''     ''"

fun check_errors :: "u8 \<Rightarrow> (u8 \<times> string \<times> u8) list \<Rightarrow> u8 \<Rightarrow> 'h ide \<Rightarrow> u8 \<times> 'h ide" where
  "check_errors st_reg [] err st = (err, st)"
| "check_errors st_reg ((bits, t, code) # cs) err st =
     (if st_reg AND bits \<noteq> 0 then check_errors st_reg cs code (SerialPrint (error_line t) st)
      else check_errors st_reg cs err st)"

definition model_text :: "u8 list \<Rightarrow> string" where
  "model_text b = map char_of_byte (takeWhile (\<lambda>x. x \<noteq> 0) b)"

definition IDEPrintErr :: "'h bus \<Rightarrow> u8 \<Rightarrow> u8 \<Rightarrow> 'h ide \<Rightarrow> u8 \<times> 'h ide" where
  "IDEPrintErr B drive err st =
     (if err = 0 then (err, st)
      else
        let st0 = SerialPrint '' [Error] IDE:'' st;
            (err1, st1) =
              (if err = 1 then (19, SerialPrint (error_line ''- Device Fault'') st0)
               else if err = 2 then
                 let (v, s) = IDERead B (dev_channel st drive) ATA_REG_ERROR st0 in check_errors v error_checks err s
               else if err = 3 then (23, SerialPrint (error_line ''- Reads Nothing'') st0)
               else if err = 4 then (8, SerialPrint (error_line ''- Write Protected'') st0)
               else (err, st0))
        in (err1, SerialPrint (''- ['' @ (if dev_channel st drive = 0 then ''Primary'' else ''Secondary'') @ '' '' @
              (if Drive (IDEDevs st (unat drive)) = 0 then ''Master'' else ''Slave'') @ ''] '' @
              model_text (Model (IDEDevs st (unat drive))) @ [CHR 0x0A]) st1))"

section \<open>Addressing\<close>

text \<open>\<^verbatim>\<open>lba_mode\<close>, the six bytes of \<^verbatim>\<open>lba_io\<close>, and \<^verbatim>\<open>head\<close>.\<close>

definition lba_registers :: "u32 \<Rightarrow> u16 \<Rightarrow> nat \<times> u8 list \<times> u8" where
  "lba_registers lba caps =
     (if 0x10000000 \<le> lba then
        (2, [ucast (lba AND 0xFF), ucast (drop_bit 8 (lba AND 0xFF00)), ucast (drop_bit 16 (lba AND 0xFF0000)),
             ucast (drop_bit 24 (lba AND 0xFF000000)), 0, 0], 0)
      else if caps AND 0x200 \<noteq> 0 then
        (1, [ucast (lba AND 0xFF), ucast (drop_bit 8 (lba AND 0xFF00)), ucast (drop_bit 16 (lba AND 0xFF0000)), 0, 0, 0],
         ucast (drop_bit 24 (lba AND 0xF000000)))
      else
        let sect = ucast (lba mod 63 + 1) :: u8;
            cyl = ucast ((lba + 1 - ucast sect) div (16 * 63)) :: u16
        in (0, [sect, ucast (cyl AND 0xFF), ucast (drop_bit 8 cyl AND 0xFF), 0, 0, 0],
            ucast ((lba + 1 - ucast sect) mod (16 * 63) div 63)))"

definition pio_command :: "u8 \<Rightarrow> nat \<Rightarrow> u8" where
  "pio_command direction lba_mode =
     (if direction = 0 then (if lba_mode = 2 then 0x24 else 0x20) else (if lba_mode = 2 then 0x34 else 0x30))"

section \<open>Transfers\<close>

text \<open>The two loops over sectors; a sector is 256 words.\<close>

fun pio_read :: "'h bus \<Rightarrow> nat \<Rightarrow> u32 \<Rightarrow> nat \<Rightarrow> 'h ide \<Rightarrow> (u8 \<times> 'h ide) option" where
  "pio_read B channel edi 0 st = Some (0, st)"
| "pio_read B channel edi (Suc n) st =
     Option.bind (IDEPolling B channel True st) (\<lambda>(err, st1).
       if err \<noteq> 0 then Some (err, st1)
       else let (m, h) = insw B (base (Channels st1 channel)) (ucast edi) 256 (imem st1) (hw st1)
            in pio_read B channel (edi + 512) n (st1\<lparr>hw := h, imem := m\<rparr>))"

fun pio_write :: "'h bus \<Rightarrow> nat \<Rightarrow> u32 \<Rightarrow> nat \<Rightarrow> 'h ide \<Rightarrow> 'h ide option" where
  "pio_write B channel edi 0 st = Some st"
| "pio_write B channel edi (Suc n) st =
     Option.bind (IDEPolling B channel False st) (\<lambda>(_, st1).
       pio_write B channel (edi + 512) n
         (st1\<lparr>hw := outsw B (base (Channels st1 channel)) (ucast edi) 256 (imem st1) (hw st1)\<rparr>))"

definition set_nIEN :: "nat \<Rightarrow> 'h ide \<Rightarrow> 'h ide" where
  "set_nIEN channel st = st\<lparr>Channels := (Channels st)(channel := (Channels st channel)\<lparr>nIEN := 0x02\<rparr>)\<rparr>"

definition select_sector :: "'h bus \<Rightarrow> nat \<Rightarrow> u8 \<Rightarrow> u8 \<Rightarrow> nat \<times> u8 list \<times> u8 \<Rightarrow> 'h ide \<Rightarrow> 'h ide" where
  "select_sector B channel sl numsects regs st =
     (let (lba_mode, lba_io, head) = regs;
          st1 = IDEWrite B channel ATA_REG_HDDEVSEL ((if lba_mode = 0 then 0xA0 else 0xE0) OR sl OR head) st;
          st2 = (if lba_mode = 2 then
                   IDEWrite B channel ATA_REG_LBA5 (lba_io ! 5) (IDEWrite B channel ATA_REG_LBA4 (lba_io ! 4)
                     (IDEWrite B channel ATA_REG_LBA3 (lba_io ! 3) (IDEWrite B channel ATA_REG_SECCOUNT1 0 st1)))
                 else st1)
      in IDEWrite B channel ATA_REG_LBA2 (lba_io ! 2) (IDEWrite B channel ATA_REG_LBA1 (lba_io ! 1)
           (IDEWrite B channel ATA_REG_LBA0 (lba_io ! 0) (IDEWrite B channel ATA_REG_SECCOUNT0 numsects st2))))"

definition IDEAccess :: "'h bus \<Rightarrow> u8 \<Rightarrow> u8 \<Rightarrow> u32 \<Rightarrow> u8 \<Rightarrow> u32 \<Rightarrow> 'h ide \<Rightarrow> (u8 \<times> 'h ide) option" where
  "IDEAccess B direction drive lba numsects edi st =
     (let channel = dev_channel st drive;
          sl = slavebit st drive;
          st1 = IDEWrite B channel ATA_REG_CONTROL 0x02 (set_nIEN channel st);
          regs = lba_registers lba (Capabilities (IDEDevs st1 (unat drive)));
          lba_mode = fst regs
      in Option.bind (IDEWaitNotBusy B channel st1) (\<lambda>st2.
         let st3 = select_sector B channel sl numsects regs st2;
             st4 = IDEWrite B channel ATA_REG_COMMAND (pio_command direction lba_mode) st3
         in if direction = 0 then pio_read B channel edi (unat numsects) st4
            else
              Option.bind (pio_write B channel edi (unat numsects) st4) (\<lambda>st5.
              Option.bind (IDEPolling B channel False
                  (IDEWrite B channel ATA_REG_COMMAND (if lba_mode = 2 then 0xEA else 0xE7) st5)) (\<lambda>(_, st6).
                Some (0, st6)))))"

section \<open>Packet devices\<close>

definition read_packet :: "u32 \<Rightarrow> u8 \<Rightarrow> u8 list" where
  "read_packet lba numsects =
     [0xA8, 0, ucast (drop_bit 24 lba AND 0xFF), ucast (drop_bit 16 lba AND 0xFF), ucast (drop_bit 8 lba AND 0xFF),
      ucast (lba AND 0xFF), 0, 0, 0, numsects, 0, 0]"

fun send_packet :: "'h bus \<Rightarrow> u16 \<Rightarrow> u8 list \<Rightarrow> 'h \<Rightarrow> 'h" where
  "send_packet B port (a # b # bs) h = send_packet B port bs (outw B port (le_join [a, b]) h)"
| "send_packet B port bs h = h"

fun packet_done :: "'h bus \<Rightarrow> nat \<Rightarrow> nat \<Rightarrow> 'h ide \<Rightarrow> 'h ide" where
  "packet_done B channel 0 st = st"
| "packet_done B channel (Suc timeout) st =
     (let (status, st1) = IDERead B channel ATA_REG_STATUS st
      in if status AND (ATA_SR_BSY OR ATA_SR_DRQ) = 0 then st1 else packet_done B channel timeout (Delay B 1 st1))"

fun packet_read :: "'h bus \<Rightarrow> nat \<Rightarrow> u32 \<Rightarrow> nat \<Rightarrow> 'h ide \<Rightarrow> (u8 \<times> 'h ide) option" where
  "packet_read B channel edi 0 st = Some (0, packet_done B channel 100000 st)"
| "packet_read B channel edi (Suc n) st =
     Option.bind (IDEPolling B channel True (IDEWaitReady B channel 100000 st)) (\<lambda>(err, st1).
       if err \<noteq> 0 then Some (err, st1)
       else let (m, h) = insw B (base (Channels st1 channel)) (ucast edi) 1024 (imem st1) (hw st1)
            in packet_read B channel (edi + 2048) n (st1\<lparr>hw := h, imem := m\<rparr>))"

definition IDEAtaPIRead :: "'h bus \<Rightarrow> u8 \<Rightarrow> u32 \<Rightarrow> u8 \<Rightarrow> u32 \<Rightarrow> 'h ide \<Rightarrow> (u8 \<times> 'h ide) option" where
  "IDEAtaPIRead B drive lba numsects edi st =
     (let channel = dev_channel st drive;
          sl = slavebit st drive;
          st1 = IDEWrite B channel ATA_REG_CONTROL 0x02 (set_nIEN channel st);
          st2 = st1\<lparr>atapi_packet := read_packet lba numsects @ drop 12 (atapi_packet st1)\<rparr>;
          st3 = read_altstatus B channel 4 (IDEWrite B channel ATA_REG_HDDEVSEL sl st2);
          st4 = IDEWrite B channel ATA_REG_ERROR 0 st3;
          st5 = IDEWrite B channel ATA_REG_LBA2 0x08 (IDEWrite B channel ATA_REG_LBA1 0x00 st4);
          st6 = IDEWrite B channel ATA_REG_COMMAND 0xA0 st5
      in Option.bind (IDEPolling B channel True st6) (\<lambda>(err, st7).
           if err \<noteq> 0 then Some (err, st7)
           else packet_read B channel edi (unat numsects)
                  (st7\<lparr>hw := send_packet B (base (Channels st7 channel)) (take 12 (atapi_packet st7)) (hw st7)\<rparr>)))"

section \<open>Sectors\<close>

fun atapi_sectors :: "'h bus \<Rightarrow> u8 \<Rightarrow> u32 \<Rightarrow> u64 \<Rightarrow> nat list \<Rightarrow> u8 \<Rightarrow> 'h ide \<Rightarrow> (u8 \<times> 'h ide) option" where
  "atapi_sectors B drive lba edi [] err st = Some (err, st)"
| "atapi_sectors B drive lba edi (i # is) err st =
     Option.bind (IDEAtaPIRead B drive (lba + of_nat i) 1 (ucast (edi + of_nat (i * 2048))) st) (\<lambda>(e, st1).
       atapi_sectors B drive lba edi is e st1)"

definition IDEReadSectors :: "'h bus \<Rightarrow> u8 \<Rightarrow> u8 \<Rightarrow> u32 \<Rightarrow> u64 \<Rightarrow> 'h ide \<Rightarrow> 'h ide option" where
  "IDEReadSectors B drive numsects lba edi st =
     (let (here, st1) = IsDrivePresent B drive st
      in if \<not> here then
           Some (st1\<lparr>package0 := 0, imem := store_bytes (imem st1) edi (replicate (unat numsects * 512) 0)\<rparr>)
         else if 3 < drive \<or> Reserved (IDEDevs st1 (unat drive)) = 0 then Some (st1\<lparr>package0 := 1\<rparr>)
         else if Size (IDEDevs st1 (unat drive)) < lba + ucast numsects \<and> Type (IDEDevs st1 (unat drive)) = IDE_ATA
           then Some (st1\<lparr>package0 := 2\<rparr>)
         else
           Option.bind
             (if Type (IDEDevs st1 (unat drive)) = IDE_ATA then IDEAccess B 0 drive lba numsects (ucast edi) st1
              else if Type (IDEDevs st1 (unat drive)) = IDE_ATAPI then atapi_sectors B drive lba edi [0..<unat numsects] 0 st1
              else Some (0, st1)) (\<lambda>(err, st2).
             let (code, st3) = IDEPrintErr B drive err st2 in Some (st3\<lparr>package0 := code\<rparr>)))"

definition IDEWriteSectors :: "'h bus \<Rightarrow> u8 \<Rightarrow> u8 \<Rightarrow> u32 \<Rightarrow> u64 \<Rightarrow> 'h ide \<Rightarrow> 'h ide option" where
  "IDEWriteSectors B drive numsects lba edi st =
     (let (here, st1) = IsDrivePresent B drive st
      in if \<not> here then Some (st1\<lparr>package0 := 0\<rparr>)
         else if 3 < drive \<or> Reserved (IDEDevs st1 (unat drive)) = 0 then Some (st1\<lparr>package0 := 1\<rparr>)
         else if Size (IDEDevs st1 (unat drive)) < lba + ucast numsects \<and> Type (IDEDevs st1 (unat drive)) = IDE_ATA
           then Some (st1\<lparr>package0 := 2\<rparr>)
         else
           Option.bind
             (if Type (IDEDevs st1 (unat drive)) = IDE_ATA then IDEAccess B 1 drive lba numsects (ucast edi) st1
              else if Type (IDEDevs st1 (unat drive)) = IDE_ATAPI then Some (4, st1)
              else Some (0, st1)) (\<lambda>(err, st2).
             let (code, st3) = IDEPrintErr B drive err st2 in Some (st3\<lparr>package0 := code\<rparr>)))"

section \<open>The byte stream of a drive\<close>

text \<open>\<open>sb\<close> is the address of the local \<^verbatim>\<open>sector_buffer\<close>.\<close>

definition zero_buffer :: "addr \<Rightarrow> u64 \<Rightarrow> 'h ide \<Rightarrow> 'h ide result" where
  "zero_buffer a n st = rbind (memset a 0 (uint n) (imem st)) (\<lambda>m. Inr (st\<lparr>imem := m\<rparr>))"

text \<open>A sector into the local buffer; on an error it is zeroed and the error forgotten.\<close>

definition load_sector :: "'h bus \<Rightarrow> addr \<Rightarrow> u64 \<Rightarrow> nat \<Rightarrow> u64 \<Rightarrow> 'h ide \<Rightarrow> 'h ide outcome" where
  "load_sector B sb bytesPerSector i sector st =
     (if ucast (Size (IDEDevs st i)) \<le> sector then Some (zero_buffer sb bytesPerSector st)
      else
        Option.bind (IDEReadSectors B (of_nat i) 1 (ucast sector) sb st) (\<lambda>st1.
          if package0 st1 \<noteq> 0
          then Some (rbind (zero_buffer sb bytesPerSector st1) (\<lambda>st2. Inr (st2\<lparr>package0 := 0\<rparr>)))
          else Some (Inr st1)))"

partial_function (option) ide_read_loop ::
  "'h bus \<Rightarrow> addr \<Rightarrow> addr \<Rightarrow> u64 \<Rightarrow> nat \<Rightarrow> u64 \<Rightarrow> u64 \<Rightarrow> u64 \<Rightarrow> 'h ide \<Rightarrow> 'h ide outcome" where
  "ide_read_loop B sb dest bytesPerSector i current_offset Bytes remaining st =
     (if 0 < remaining then
        let sector = current_offset div bytesPerSector;
            offset_in_sector = current_offset mod bytesPerSector;
            left = bytesPerSector - offset_in_sector;
            bytes_this_iter = (if remaining < left then remaining else left)
        in obind (load_sector B sb bytesPerSector i sector st) (\<lambda>st1.
           ide_read_loop B sb dest bytesPerSector i (current_offset + bytes_this_iter) Bytes (remaining - bytes_this_iter)
             (st1\<lparr>imem := memcpy_loop (dest + (Bytes - remaining)) (sb + offset_in_sector) (unat bytes_this_iter) 0 (imem st1)\<rparr>))
      else Some (Inr st))"

definition advance :: "nat \<Rightarrow> u64 \<Rightarrow> 'h ide \<Rightarrow> 'h ide" where
  "advance i n st = st\<lparr>FileOffset := (FileOffset st)(i := FileOffset st i + n)\<rparr>"

definition IDEReadFunction ::
  "'h bus \<Rightarrow> addr \<Rightarrow> addr \<Rightarrow> u64 \<Rightarrow> u64 \<Rightarrow> addr \<Rightarrow> nat \<Rightarrow> 'h ide \<Rightarrow> (u32 \<times> 'h ide) outcome" where
  "IDEReadFunction B sb Buf Sz Elements Node i st =
     obind (Some (PanicIfNull Buf)) (\<lambda>_. obind (Some (PanicIfNull Node)) (\<lambda>_.
       if Sz = 0 \<or> Elements = 0 then Some (Inr (0, st))
       else
         let (here, st1) = IsDrivePresent B (of_nat i) st
         in if \<not> here then
              obind (Some (zero_buffer Buf (Sz * Elements) st1)) (\<lambda>st2.
                Some (Inr (ucast Elements, advance i (Sz * Elements) st2)))
            else
              let Bytes = Sz * Elements
              in obind (ide_read_loop B sb Buf (if Type (IDEDevs st1 i) = IDE_ATAPI then 2048 else 512) i
                          (FileOffset st1 i) Bytes Bytes st1) (\<lambda>st2.
                   Some (Inr (ucast Elements, advance i Bytes st2)))))"

partial_function (option) ide_write_loop ::
  "'h bus \<Rightarrow> addr \<Rightarrow> addr \<Rightarrow> nat \<Rightarrow> u64 \<Rightarrow> u64 \<Rightarrow> u64 \<Rightarrow> 'h ide \<Rightarrow> 'h ide outcome" where
  "ide_write_loop B sb src i current_offset Bytes remaining st =
     (if 0 < remaining then
        let sector = current_offset div 512;
            offset_in_sector = current_offset mod 512;
            left = 512 - offset_in_sector;
            bytes_this_iter = (if remaining < left then remaining else left)
        in obind (if offset_in_sector \<noteq> 0 \<or> bytes_this_iter \<noteq> 512 then load_sector B sb 512 i sector st
                  else Some (Inr st)) (\<lambda>st1.
           let st2 = st1\<lparr>imem := memcpy_loop (sb + offset_in_sector) (src + (Bytes - remaining)) (unat bytes_this_iter) 0 (imem st1)\<rparr>
           in obind (if sector < ucast (Size (IDEDevs st2 i)) then
                       Option.bind (IDEWriteSectors B (of_nat i) 1 (ucast sector) sb st2) (\<lambda>st3.
                         Some (Inr (if package0 st3 \<noteq> 0 then st3\<lparr>package0 := 0\<rparr> else st3)))
                     else Some (Inr st2)) (\<lambda>st4.
              ide_write_loop B sb src i (current_offset + bytes_this_iter) Bytes (remaining - bytes_this_iter) st4))
      else Some (Inr st))"

definition IDEWriteFunction ::
  "'h bus \<Rightarrow> addr \<Rightarrow> addr \<Rightarrow> u64 \<Rightarrow> u64 \<Rightarrow> addr \<Rightarrow> nat \<Rightarrow> 'h ide \<Rightarrow> (u32 \<times> 'h ide) outcome" where
  "IDEWriteFunction B sb Buf Sz Elements Node i st =
     obind (Some (PanicIfNull Buf)) (\<lambda>_. obind (Some (PanicIfNull Node)) (\<lambda>_.
       if Sz = 0 \<or> Elements = 0 then Some (Inr (0, st))
       else
         let (here, st1) = IsDrivePresent B (of_nat i) st
         in if \<not> here then Some (Inr (ucast Elements, advance i (Sz * Elements) st1))
            else if Type (IDEDevs st1 i) = IDE_ATAPI then Some (Inr (- 1, st1))
            else
              let Bytes = Sz * Elements
              in obind (ide_write_loop B sb Buf i (FileOffset st1 i) Bytes Bytes st1) (\<lambda>st2.
                   Some (Inr (ucast Elements, advance i Bytes st2)))))"

section \<open>Detection\<close>

text \<open>A base address register, with the address of the compatibility mode for 0.\<close>

definition bar_port :: "u32 \<Rightarrow> u16 \<Rightarrow> u16" where
  "bar_port b legacy = ucast (b AND 0xFFFFFFFC) + (if b = 0 then legacy else 0)"

fun identify_poll :: "'h bus \<Rightarrow> nat \<Rightarrow> nat \<Rightarrow> 'h ide \<Rightarrow> u8 \<times> 'h ide" where
  "identify_poll B i 0 st = (0, st)"
| "identify_poll B i (Suc timeout) st =
     (let (status, st1) = IDERead B i ATA_REG_STATUS st
      in if status AND ATA_SR_ERR \<noteq> 0 then (1, st1)
         else if status AND ATA_SR_BSY = 0 \<and> status AND ATA_SR_DRQ \<noteq> 0 then (0, st1)
         else identify_poll B i timeout (Delay B 1 st1))"

fun swap_model :: "u8 list \<Rightarrow> u8 list" where
  "swap_model (a # b # bs) = b # a # swap_model bs"
| "swap_model bs = bs"

definition identified :: "u8 list \<Rightarrow> u16 \<Rightarrow> nat \<Rightarrow> nat \<Rightarrow> IDEDev" where
  "identified B type i j =
     (let sets = le_join (take 4 (drop 164 B)) :: u32
      in \<lparr>Reserved = 1, Channel = of_nat i, Drive = of_nat j, Type = type,
          Signature = le_join (take 2 B), Capabilities = le_join (take 2 (drop 98 B)), CommandSets = sets,
          Size = (if bit sets 26 then le_join (take 4 (drop 200 B)) else le_join (take 4 (drop 120 B))),
          Model = swap_model (take 40 (drop 54 B)) @ [0]\<rparr>)"

definition drive_name :: "nat \<Rightarrow> string" where
  "drive_name count = ''hd'' @ [char_of (count + 97)]"

definition packet_signature :: "u8 \<Rightarrow> u8 \<Rightarrow> bool" where
  "packet_signature cl ch \<longleftrightarrow> cl = 0x14 \<and> ch = 0xEB \<or> cl = 0x69 \<and> ch = 0x96"

text \<open>One turn of the detection; \<open>None\<close> in the first component for \<^verbatim>\<open>continue\<close>.\<close>

definition identify :: "'h bus \<Rightarrow> nat \<Rightarrow> nat \<Rightarrow> 'h ide \<Rightarrow> u16 option \<times> 'h ide" where
  "identify B i j st =
     (let st1 = Delay B 4 (IDEWrite B i ATA_REG_HDDEVSEL (0xA0 OR push_bit 4 (of_nat j)) st);
          st2 = Delay B 4 (IDEWrite B i ATA_REG_COMMAND 0xEC st1);
          (status, st3) = IDERead B i ATA_REG_STATUS st2
      in if status = 0 then (None, st3)
         else
           let (err, st4) = identify_poll B i 100000 st3
           in if err \<noteq> 0 then
                let (cl, st5) = IDERead B i ATA_REG_LBA1 st4; (ch, st6) = IDERead B i ATA_REG_LBA2 st5
                in if packet_signature cl ch
                   then (Some IDE_ATAPI, Delay B 4 (IDEWrite B i ATA_REG_COMMAND 0xA1 st6))
                   else (None, st6)
              else (Some IDE_ATA, st4))"

fun detect :: "'h bus \<Rightarrow> (nat \<times> nat) list \<Rightarrow> nat \<Rightarrow> 'h ide \<Rightarrow> 'h ide" where
  "detect B [] count st = st"
| "detect B ((i, j) # ijs) count st =
     (let st0 = st\<lparr>IDEDevs := (IDEDevs st)(count := (IDEDevs st count)\<lparr>Reserved := 0\<rparr>)\<rparr>;
          (type, st1) = identify B i j st0
      in case type of None \<Rightarrow> detect B ijs count st1
         | Some t \<Rightarrow>
             let st2 = IDEReadBuffer B i ATA_REG_DATA 128 st1;
                 st3 = st2\<lparr>IDEDevs := (IDEDevs st2)(count := identified (Buff st2) t i j)\<rparr>;
                 st4 = (if count < 4 then st3\<lparr>created := created st3 @ [(drive_name count, count)], FileOffset := (FileOffset st3)(count := 0)\<rparr>
                        else SerialPrint ('' [Error] IDE: Could not assign drive a name '' @ [CHR 0x0D, CHR 0x0A]) st3)
             in detect B ijs (Suc count) st4)"

definition set_channels :: "PCIDEV \<Rightarrow> 'h ide \<Rightarrow> 'h ide" where
  "set_channels d st = st\<lparr>Channels := (Channels st)
     (0 := (Channels st 0)\<lparr>base := bar_port (bar d ! 0) 0x1F0, ctrl := bar_port (bar d ! 1) 0x3F6,
              bmide := ucast (bar d ! 4 AND 0xFFFFFFFC)\<rparr>,
      1 := (Channels st 1)\<lparr>base := bar_port (bar d ! 2) 0x170, ctrl := bar_port (bar d ! 3) 0x376,
              bmide := ucast (bar d ! 4 AND 0xFFFFFFFC) + 8\<rparr>)\<rparr>"

definition IDEInitialise :: "'h bus \<Rightarrow> 'h ide \<Rightarrow> 'h ide" where
  "IDEInitialise B st =
     (case Dev st of None \<Rightarrow> st
      | Some d \<Rightarrow>
          let st1 = SerialPrint ('' [Info] IDE Channels Set'' @ [CHR 0x0D, CHR 0x0A]) (set_channels d st);
              st2 = IDEWrite B 1 ATA_REG_CONTROL 0x02 (IDEWrite B 0 ATA_REG_CONTROL 0x02 st1);
              st3 = SerialPrint ('' [Info] IDE Polling Mode (IRQs Disabled)'' @ [CHR 0x0D, CHR 0x0A]) st2
          in detect B [(0, 0), (0, 1), (1, 0), (1, 1)] 0 st3)"

definition IDEFind :: "'h bus \<Rightarrow> PCI \<Rightarrow> nat \<Rightarrow> 'h ide \<Rightarrow> 'h ide" where
  "IDEFind B P Index st =
     (let st1 = st\<lparr>Dev := map_option (\<lambda>k. PCI.Dev P ! k) (PCIGetOriginalDevice P Index)\<rparr>
      in case Dev st1 of
           Some d \<Rightarrow>
             if class_id d \<noteq> 0x01 \<or> subclass_id d \<noteq> 0x01
             then SerialPrint ('' [Error] Could not find IDE Device'' @ [CHR 0x0D, CHR 0x0A]) st1
             else IDEInitialise B (SerialPrint ('' [Info] IDE Device found'' @ [CHR 0x0D, CHR 0x0A]) st1)
         | None \<Rightarrow> SerialPrint ('' [Error] Could not find IDE Device'' @ [CHR 0x0D, CHR 0x0A]) st1)"

text \<open>\<^verbatim>\<open>Init\<close> over the table of the PCI module.\<close>

fun init_controllers :: "'h bus \<Rightarrow> PCI \<Rightarrow> nat list \<Rightarrow> 'h ide \<Rightarrow> 'h ide" where
  "init_controllers B P [] st = st"
| "init_controllers B P (i # is) st =
     (if class_id (PCI.Dev P ! i) = 0x01 \<and> subclass_id (PCI.Dev P ! i) = 0x01
      then init_controllers B P is (IDEFind B P i st) else init_controllers B P is st)"

definition Init :: "'h bus \<Rightarrow> PCI \<Rightarrow> 'h ide \<Rightarrow> 'h ide" where
  "Init B P st = init_controllers B P [0..<unat (Count P)] st"

end
