(* ===== verification/Ata.thy ===== *)
theory Ata
  imports Ide
begin

text \<open>
  The IDE driver against a disk. \<open>ata\<close> is what a host can observe of an ATA disk with
  programmed I/O, transfers of one sector; the locale \<open>ata_disk\<close> relates the answers of a bus to
  it. Inside it, the driver's sector reads and writes are reads and writes of the disk, and in
  \<open>ata_drive\<close> its byte stream is a byte device.
\<close>

section \<open>The disk a host sees\<close>

text \<open>
  \<open>waiting\<close>: how many times the status will still be read as busy, at most. A register of the
  task file keeps its value and the one before, which 48-bit commands read as its high order byte.
\<close>

datatype ata_phase = Idle | DataIn "u16 list" | DataOut nat "u16 list"

record ata =
  waiting :: nat
  reg :: "nat \<Rightarrow> u8 \<times> u8"
  phase :: ata_phase
  disk :: "nat \<Rightarrow> u8 list"

definition quieter :: "ata \<Rightarrow> ata \<Rightarrow> bool" where
  "quieter a a' \<longleftrightarrow> a' = a\<lparr>waiting := waiting a'\<rparr> \<and> waiting a' \<le> waiting a"

definition ata_reg :: "nat \<Rightarrow> u8 \<Rightarrow> ata \<Rightarrow> ata" where
  "ata_reg k v a = a\<lparr>reg := (reg a)(k := (v, fst (reg a k)))\<rparr>"

text \<open>The sector the registers name: 48 bits, 28 bits, or cylinder, head and sector with the
  translation of 16 heads and 63 sectors.\<close>

definition ata_sector :: "bool \<Rightarrow> (nat \<Rightarrow> u8 \<times> u8) \<Rightarrow> nat" where
  "ata_sector ext r =
     (if ext then unat (fst (r 3)) + 2 ^ 8 * unat (fst (r 4)) + 2 ^ 16 * unat (fst (r 5)) +
        2 ^ 24 * unat (snd (r 3)) + 2 ^ 32 * unat (snd (r 4)) + 2 ^ 40 * unat (snd (r 5))
      else if bit (fst (r 6)) 6 then
        unat (fst (r 3)) + 2 ^ 8 * unat (fst (r 4)) + 2 ^ 16 * unat (fst (r 5)) + 2 ^ 24 * unat (fst (r 6) AND 0x0F)
      else ((unat (fst (r 4)) + 2 ^ 8 * unat (fst (r 5))) * 16 + unat (fst (r 6) AND 0x0F)) * 63 + unat (fst (r 3)) - 1)"

definition sector_words :: "u8 list \<Rightarrow> u16 list" where
  "sector_words bs = map (\<lambda>k. le_join (take 2 (drop (2 * k) bs))) [0..<256]"

definition words_bytes :: "u16 list \<Rightarrow> u8 list" where
  "words_bytes ws = concat (map (le_split 2) ws)"

text \<open>The phase a command leads to; \<open>None\<close> where nothing is assumed of the disk.\<close>

definition ata_starts :: "nat \<Rightarrow> bool \<Rightarrow> u8 \<Rightarrow> ata \<Rightarrow> ata_phase option" where
  "ata_starts sectors slave cmd a =
     (let ext = cmd \<in> {0x24, 0x34}; n = ata_sector ext (reg a)
      in if bit (fst (reg a 6)) 4 \<noteq> slave then None
         else if cmd \<in> {0xE7, 0xEA} then Some Idle
         else if cmd \<in> {0x20, 0x24, 0x30, 0x34} \<and> fst (reg a 2) = 1 \<and> (ext \<longrightarrow> snd (reg a 2) = 0) \<and> n < sectors
           then Some (if cmd \<in> {0x20, 0x24} then DataIn (sector_words (disk a n)) else DataOut n [])
         else None)"

definition ata_word_in :: "ata \<Rightarrow> ata" where
  "ata_word_in a =
     (case phase a of DataIn (w # ws) \<Rightarrow> a\<lparr>phase := if ws = [] then Idle else DataIn ws\<rparr> | _ \<Rightarrow> a)"

definition ata_word_out :: "u16 \<Rightarrow> ata \<Rightarrow> ata" where
  "ata_word_out w a =
     (case phase a of
        DataOut n ws \<Rightarrow>
          (if length ws < 255 then a\<lparr>phase := DataOut n (ws @ [w])\<rparr>
           else a\<lparr>phase := Idle, disk := (disk a)(n := words_bytes (ws @ [w]))\<rparr>)
      | _ \<Rightarrow> a)"

text \<open>The driver's view of a channel: its ports, and interrupts disabled.\<close>

definition wired :: "nat \<Rightarrow> u16 \<Rightarrow> u16 \<Rightarrow> 'h ide \<Rightarrow> bool" where
  "wired c io ct st \<longleftrightarrow> base (Channels st c) = io \<and> ctrl (Channels st c) = ct \<and> nIEN (Channels st c) = 0x02"

lemma reg_port_wired:
  assumes "wired c io ct st"
  shows "reg_port (Channels st c) ATA_REG_SECCOUNT0 = Some (io + 2)" "reg_port (Channels st c) ATA_REG_LBA0 = Some (io + 3)"
    "reg_port (Channels st c) ATA_REG_LBA1 = Some (io + 4)" "reg_port (Channels st c) ATA_REG_LBA2 = Some (io + 5)"
    "reg_port (Channels st c) ATA_REG_HDDEVSEL = Some (io + 6)" "reg_port (Channels st c) ATA_REG_COMMAND = Some (io + 7)"
    "reg_port (Channels st c) ATA_REG_STATUS = Some (io + 7)" "reg_port (Channels st c) ATA_REG_SECCOUNT1 = Some (io + 2)"
    "reg_port (Channels st c) ATA_REG_LBA3 = Some (io + 3)" "reg_port (Channels st c) ATA_REG_LBA4 = Some (io + 4)"
    "reg_port (Channels st c) ATA_REG_LBA5 = Some (io + 5)" "reg_port (Channels st c) ATA_REG_CONTROL = Some (ct + 2)"
    "reg_port (Channels st c) ATA_REG_ALTSTATUS = Some (ct + 2)"
  using assms by (simp_all add: wired_def reg_port_def ata_regs)

lemma high_registers [simp]:
  "\<not> high_register ATA_REG_SECCOUNT0" "\<not> high_register ATA_REG_LBA0" "\<not> high_register ATA_REG_LBA1"
  "\<not> high_register ATA_REG_LBA2" "\<not> high_register ATA_REG_HDDEVSEL" "\<not> high_register ATA_REG_COMMAND"
  "\<not> high_register ATA_REG_STATUS" "high_register ATA_REG_SECCOUNT1" "high_register ATA_REG_LBA3"
  "high_register ATA_REG_LBA4" "high_register ATA_REG_LBA5" "\<not> high_register ATA_REG_CONTROL"
  "\<not> high_register ATA_REG_ALTSTATUS"
  by (simp_all add: high_register_def ata_regs)

lemma wired_hw [simp]: "wired c io ct (st\<lparr>hw := h\<rparr>) = wired c io ct st"
  by (simp add: wired_def)

lemma IDEWrite_low:
  "\<not> high_register r \<Longrightarrow> reg_port (Channels st c) r = Some p \<Longrightarrow> IDEWrite B c r v st = st\<lparr>hw := outb B p v (hw st)\<rparr>"
  by (simp add: IDEWrite_def hob_on_def hob_off_def reg_out_def)

lemma IDEWrite_high:
  "high_register r \<Longrightarrow> reg_port (Channels st c) r = Some p \<Longrightarrow> wired c io ct st \<Longrightarrow>
     IDEWrite B c r v st = st\<lparr>hw := outb B (ct + 2) 0x02 (outb B p v (outb B (ct + 2) 0x82 (hw st)))\<rparr>"
  by (frule reg_port_wired(12)) (simp add: IDEWrite_def hob_on_def hob_off_def reg_out_def wired_def)

lemma IDERead_low:
  "\<not> high_register r \<Longrightarrow> reg_port (Channels st c) r = Some p \<Longrightarrow>
     IDERead B c r st = (fst (inb B p (hw st)), st\<lparr>hw := snd (inb B p (hw st))\<rparr>)"
  by (simp add: IDERead_def hob_on_def hob_off_def reg_in_def split: prod.splits)

lemma words_bytes_simps [simp]:
  "words_bytes [] = []" "words_bytes (w # ws) = le_split 2 w @ words_bytes ws" "words_bytes (ws @ vs) = words_bytes ws @ words_bytes vs"
  by (simp_all add: words_bytes_def)

lemma length_words_bytes [simp]: "length (words_bytes ws) = 2 * length ws"
  by (induction ws) simp_all

lemma le_split_join:
  assumes "length bs = n" "LENGTH('a) = 8 * n"
  shows "le_split n (le_join bs :: 'a::len word) = bs"
proof (rule nth_equalityI)
  fix i assume "i < length (le_split n (le_join bs :: 'a word))"
  then have i: "i < n" by simp
  show "le_split n (le_join bs :: 'a word) ! i = bs ! i"
  proof (rule bit_word_eqI)
    fix k assume k: "k < LENGTH(8)"
    then have "(8 * i + k) div 8 = i" "(8 * i + k) mod 8 = k" by simp_all
    moreover have "8 * i + k < 8 * n" using i k by simp
    ultimately show "bit (le_split n (le_join bs :: 'a word) ! i) k \<longleftrightarrow> bit (bs ! i) k"
      using i k assms by (simp add: le_split_def bit_ucast_u8 bit_drop_bit_u8 bit_le_join)
  qed
qed (simp add: assms)

lemma words_bytes_nth: "k < 2 * length ws \<Longrightarrow> words_bytes ws ! k = le_split 2 (ws ! (k div 2)) ! (k mod 2)"
proof (induction ws arbitrary: k)
  case (Cons w ws)
  show ?case
  proof (cases "k < 2")
    case True
    then show ?thesis by (simp add: nth_append)
  next
    case False
    then have "k div 2 = Suc ((k - 2) div 2)" "(k - 2) mod 2 = k mod 2" by (simp_all add: le_div_geq le_mod_geq)
    with False Cons show ?thesis by (simp add: nth_append)
  qed
qed simp

lemma words_bytes_sector: 
  assumes "length bs = 512"
  shows "words_bytes (sector_words bs) = bs"
proof (rule nth_equalityI)
  fix k assume "k < length (words_bytes (sector_words bs))"
  then have k: "k < 512" by (simp add: sector_words_def)
  let ?b = "take 2 (drop (2 * (k div 2)) bs)"
  have "k div 2 < 256" "2 * (k div 2) + k mod 2 = k" "k mod 2 < 2" using k by simp_all
  moreover from this have "length ?b = 2" using assms by simp
  moreover from this have "le_split 2 (le_join ?b :: u16) = ?b" by (rule le_split_join) simp
  ultimately show "words_bytes (sector_words bs) ! k = bs ! k"
    using k assms by (subst words_bytes_nth) (simp_all add: sector_words_def)
qed (simp add: sector_words_def assms)

lemma words_at_0 [simp]: "words_at m a 0 = []"
  by (simp add: words_at_def)

lemma words_bytes_at: "words_bytes (words_at m a n) = load_bytes m a (2 * n)"
proof (rule nth_equalityI)
  fix k assume "k < length (words_bytes (words_at m a n))"
  then have k: "k < 2 * n" by simp
  let ?b = "load_bytes m (a + 2 * of_nat (k div 2)) 2"
  have "2 * (k div 2) + k mod 2 = k" "k div 2 < n" "k mod 2 < 2" using k by simp_all
  moreover from this(1) have "a + 2 * of_nat (k div 2) + of_nat (k mod 2) = a + of_nat k"
    by (metis (no_types, lifting) add.assoc of_nat_add of_nat_mult of_nat_numeral)
  moreover have j: "le_split 2 (le_join ?b :: u16) = ?b" by (rule le_split_join) simp_all
  moreover have "words_at m a n ! (k div 2) = le_join ?b"
    using \<open>k div 2 < n\<close> by (simp add: words_at_def del: upt_Suc)
  moreover have "?b ! (k mod 2) = m (a + 2 * of_nat (k div 2) + of_nat (k mod 2))" by (simp add: load_bytes_def)
  ultimately show "words_bytes (words_at m a n) ! k = load_bytes m a (2 * n) ! k"
    using k by (subst words_bytes_nth) (simp_all add: load_bytes_def [of _ _ "2 * n"] add.assoc)
qed simp

section \<open>Addressing\<close>

text \<open>The task file after \<^verbatim>\<open>select_sector\<close>.\<close>

definition selected :: "u8 \<Rightarrow> u8 \<Rightarrow> nat \<times> u8 list \<times> u8 \<Rightarrow> ata \<Rightarrow> ata" where
  "selected sl n regs a =
     (let (mode, lba_io, head) = regs;
          a1 = ata_reg 6 ((if mode = 0 then 0xA0 else 0xE0) OR sl OR head) a;
          a2 = (if mode = 2 then ata_reg 5 (lba_io ! 5) (ata_reg 4 (lba_io ! 4) (ata_reg 3 (lba_io ! 3) (ata_reg 2 0 a1)))
                else a1)
      in ata_reg 5 (lba_io ! 2) (ata_reg 4 (lba_io ! 1) (ata_reg 3 (lba_io ! 0) (ata_reg 2 n a2))))"

lemma selected_frame [simp]:
  "phase (selected sl n regs a) = phase a" "disk (selected sl n regs a) = disk a" "waiting (selected sl n regs a) = waiting a"
  by (simp_all add: selected_def ata_reg_def Let_def split: prod.splits)

lemma selected_regs:
  assumes "regs = (mode, lba_io, head)"
  shows "fst (reg (selected sl n regs a) 6) = (if mode = 0 then 0xA0 else 0xE0) OR sl OR head"
    "fst (reg (selected sl n regs a) 2) = n" "mode = 2 \<Longrightarrow> snd (reg (selected sl n regs a) 2) = 0"
    "fst (reg (selected sl n regs a) 3) = lba_io ! 0" "fst (reg (selected sl n regs a) 4) = lba_io ! 1"
    "fst (reg (selected sl n regs a) 5) = lba_io ! 2" "mode = 2 \<Longrightarrow> snd (reg (selected sl n regs a) 3) = lba_io ! 3"
    "mode = 2 \<Longrightarrow> snd (reg (selected sl n regs a) 4) = lba_io ! 4" "mode = 2 \<Longrightarrow> snd (reg (selected sl n regs a) 5) = lba_io ! 5"
  using assms by (simp_all add: selected_def ata_reg_def Let_def)

lemma byte_of_lba:
  "unat (ucast (lba AND 0xFF) :: u8) = unat (lba :: u32) mod 256"
  "unat (ucast (drop_bit 8 (lba AND 0xFF00)) :: u8) = unat lba div 256 mod 256"
  "unat (ucast (drop_bit 16 (lba AND 0xFF0000)) :: u8) = unat lba div 65536 mod 256"
  "unat (ucast (drop_bit 24 (lba AND 0xFF000000)) :: u8) = unat lba div 16777216 mod 256"
proof -
  have e: "ucast (drop_bit k (lba AND push_bit k (mask 8))) = (ucast (drop_bit k lba) :: u8)" for k
    by (rule bit_word_eqI) (auto simp: bit_simps dest: bit_imp_le_length)
  have u: "unat (ucast (drop_bit k lba) :: u8) = unat lba div 2 ^ k mod 256" for k
    unfolding unsigned_ucast_eq unat_drop_bit_eq by (simp add: take_bit_eq_mod drop_bit_eq_div)
  have m: "(0xFF :: u32) = push_bit 0 (mask 8)" "(0xFF00 :: u32) = push_bit 8 (mask 8)"
    "(0xFF0000 :: u32) = push_bit 16 (mask 8)" "(0xFF000000 :: u32) = push_bit 24 (mask 8)"
    by (simp_all add: mask_eq_exp_minus_1 push_bit_eq_mult)
  show "unat (ucast (lba AND 0xFF) :: u8) = unat lba mod 256" using e [of 0] u [of 0] unfolding m(1) by simp
  show "unat (ucast (drop_bit 8 (lba AND 0xFF00)) :: u8) = unat lba div 256 mod 256" using e [of 8] u [of 8] unfolding m(2) by simp
  show "unat (ucast (drop_bit 16 (lba AND 0xFF0000)) :: u8) = unat lba div 65536 mod 256"
    using e [of 16] u [of 16] unfolding m(3) by simp
  show "unat (ucast (drop_bit 24 (lba AND 0xFF000000)) :: u8) = unat lba div 16777216 mod 256"
    using e [of 24] u [of 24] unfolding m(4) by simp
qed

lemma four_bytes_gen:
  fixes n :: nat
  shows "n = 256 * q1 + r0 \<Longrightarrow> q1 = 256 * q2 + r1 \<Longrightarrow> q2 = 256 * q3 + r2 \<Longrightarrow>
    r0 + 256 * r1 + 65536 * r2 + 16777216 * q3 = n"
  by simp

lemma four_bytes:
  fixes n :: nat
  shows "n mod 256 + 256 * (n div 256 mod 256) + 65536 * (n div 65536 mod 256) + 16777216 * (n div 16777216) = n"
proof -
  have "n div 65536 = n div 256 div 256" "n div 16777216 = n div 256 div 256 div 256"
    by (simp_all add: div_mult2_eq [symmetric])
  with four_bytes_gen [of n "n div 256" "n mod 256" "n div 256 div 256" "n div 256 mod 256" "n div 256 div 256 div 256"
      "n div 256 div 256 mod 256"] show ?thesis by simp
qed

lemma drive_bits:
  assumes "sl = (if slave then 0x10 else 0)" "unat (head :: u8) < 16"
  shows "bit ((if mode = (0 :: nat) then 0xA0 else 0xE0) OR sl OR head) 4 = slave"
    "bit ((if mode = (0 :: nat) then 0xA0 else 0xE0) OR sl OR head) 6 \<longleftrightarrow> mode \<noteq> 0"
    "((if mode = (0 :: nat) then 0xA0 else 0xE0) OR sl OR head) AND 0x0F = head"
proof -
  have h: "\<not> bit head k" if "4 \<le> k" for k
  proof
    assume "bit head k"
    then have "bit (unat head) k" by (simp add: bit_unsigned_iff)
    then have "k < 4" using assms(2) by (intro bit_less_nat [of "unat head" k 4]) simp_all
    with that show False by simp
  qed
  have b: "bit (0xA0 :: u8) k \<longleftrightarrow> k = 5 \<or> k = 7" "bit (0xE0 :: u8) k \<longleftrightarrow> k = 5 \<or> k = 6 \<or> k = 7"
    "bit (0x10 :: u8) k \<longleftrightarrow> k = 4" "bit (0x0F :: u8) k \<longleftrightarrow> k < 4" if "k < 8" for k
  proof -
    have "k = 0 \<or> k = 1 \<or> k = 2 \<or> k = 3 \<or> k = 4 \<or> k = 5 \<or> k = 6 \<or> k = 7" using that by arith
    then show "bit (0xA0 :: u8) k \<longleftrightarrow> k = 5 \<or> k = 7" "bit (0xE0 :: u8) k \<longleftrightarrow> k = 5 \<or> k = 6 \<or> k = 7"
      "bit (0x10 :: u8) k \<longleftrightarrow> k = 4" "bit (0x0F :: u8) k \<longleftrightarrow> k < 4"
      by (elim disjE; simp add: bit_iff_odd)+
  qed
  show "bit ((if mode = (0 :: nat) then 0xA0 else 0xE0) OR sl OR head) 4 = slave"
    "bit ((if mode = (0 :: nat) then 0xA0 else 0xE0) OR sl OR head) 6 \<longleftrightarrow> mode \<noteq> 0"
    using h b assms(1) by (simp_all add: bit_or_iff)
  show "((if mode = (0 :: nat) then 0xA0 else 0xE0) OR sl OR head) AND 0x0F = head"
    using h b assms(1) by (intro bit_word_eqI) (auto simp: bit_or_iff bit_and_iff not_less [symmetric])
qed

text \<open>The lengths and ranges of what \<^verbatim>\<open>IDEAccess\<close> computes.\<close>

lemma lba_registers_cases:
  obtains (lba48) "0x10000000 \<le> lba"
      "lba_registers lba caps = (2, [ucast (lba AND 0xFF), ucast (drop_bit 8 (lba AND 0xFF00)),
         ucast (drop_bit 16 (lba AND 0xFF0000)), ucast (drop_bit 24 (lba AND 0xFF000000)), 0, 0], 0)"
  | (lba28) "lba < 0x10000000" "caps AND 0x200 \<noteq> 0"
      "lba_registers lba caps = (1, [ucast (lba AND 0xFF), ucast (drop_bit 8 (lba AND 0xFF00)),
         ucast (drop_bit 16 (lba AND 0xFF0000)), 0, 0, 0], ucast (drop_bit 24 (lba AND 0xF000000)))"
  | (chs) "lba < 0x10000000" "caps AND 0x200 = 0" "fst (lba_registers lba caps) = 0"
  by (cases "0x10000000 \<le> lba"; cases "caps AND 0x200 = 0") (auto simp: lba_registers_def not_le Let_def intro: that)

lemma lba28_head:
  assumes "lba < (0x10000000 :: u32)"
  shows "unat (ucast (drop_bit 24 (lba AND 0xF000000)) :: u8) = unat lba div 16777216" "unat lba div 16777216 < 16"
proof -
  have n: "unat lba < 2 ^ 28" using assms by (simp add: word_less_nat_alt)
  then show s: "unat lba div 16777216 < 16" by (simp add: less_mult_imp_div_less)
  have "lba AND 0xF000000 = lba AND 0xFF000000"
  proof (rule bit_word_eqI)
    fix k assume k: "k < LENGTH(32)"
    show "bit (lba AND 0xF000000) k \<longleftrightarrow> bit (lba AND 0xFF000000) k"
    proof (cases "bit lba k")
      case True
      then have "bit (unat lba) k" by (simp add: bit_unsigned_iff)
      then have "k < 28" using n by (rule bit_less_nat)
      moreover have m: "(0xF000000 :: u32) = push_bit 24 (mask 4)" "(0xFF000000 :: u32) = push_bit 24 (mask 8)"
        by (simp_all add: mask_eq_exp_minus_1 push_bit_eq_mult)
      ultimately show ?thesis unfolding m using True k by (auto simp: bit_and_iff bit_push_bit_iff bit_mask_iff)
    qed (simp add: bit_and_iff)
  qed
  with byte_of_lba(4) [of lba] s show "unat (ucast (drop_bit 24 (lba AND 0xF000000)) :: u8) = unat lba div 16777216" by simp
qed

text \<open>Cylinder, head and sector, with the cylinder cut to 16 bits.\<close>

lemma chs_registers:
  fixes lba :: u32
  defines "n \<equiv> unat lba"
  assumes "lba < 0x10000000" "caps AND 0x200 = 0"
  obtains lba_io head where "lba_registers lba caps = (0, lba_io, head)" "length lba_io = 6"
    "unat (lba_io ! 0) = n mod 63 + 1" "unat (lba_io ! 1) = n div 1008 mod 65536 mod 256"
    "unat (lba_io ! 2) = n div 1008 mod 65536 div 256" "unat head = n div 63 mod 16"
proof -
  have n: "n < 268435456" using assms(2) by (simp add: n_def word_less_nat_alt)
  define sect where "sect = (ucast (lba mod 63 + 1) :: u8)"
  have m63: "n mod 63 < 63" by simp
  have s1: "unat (lba mod 63 + 1) = n mod 63 + 1"
    unfolding n_def using m63 by (subst unat_plus_simple [THEN iffD1]) (simp_all add: unat_mod word_le_nat_alt n_def unat_word_ariths)
  then have s: "unat sect = n mod 63 + 1"
    unfolding sect_def unsigned_ucast_eq using m63 by (simp add: take_bit_eq_mod)
  have l1: "unat (lba + 1) = n + 1" unfolding n_def using n by (simp add: n_def unat_word_ariths)
  have us: "unat (ucast sect :: u32) = n mod 63 + 1" using s by (simp add: unsigned_ucast_eq take_bit_eq_mod)
  have d: "unat (lba + 1 - ucast sect) = n - n mod 63"
    using l1 us by (subst unat_sub) (simp_all add: word_le_nat_alt)
  have c: "unat ((lba + 1 - ucast sect) div 1008) = n div 1008"
  proof -
    have "(n - n mod 63) div 1008 = (n - n mod 63) div 63 div 16" by (simp add: div_mult2_eq [symmetric])
    also have "(n - n mod 63) div 63 = n div 63" by (simp add: minus_mod_eq_mult_div)
    also have "n div 63 div 16 = n div 1008" by (simp add: div_mult2_eq [symmetric])
    finally show ?thesis using d by (simp add: unat_div)
  qed
  define cyl where "cyl = (ucast ((lba + 1 - ucast sect) div 1008) :: u16)"
  have cy: "unat cyl = n div 1008 mod 65536" using c by (simp add: cyl_def unsigned_ucast_eq take_bit_eq_mod)
  have h: "unat ((lba + 1 - ucast sect) mod 1008 div 63) = n div 63 mod 16"
  proof -
    have "(n - n mod 63) mod 1008 = (63 * (n div 63)) mod (63 * 16)" by (simp add: minus_mod_eq_mult_div)
    also have "\<dots> = 63 * (n div 63 mod 16)" by (simp add: mult_mod_right)
    finally show ?thesis using d by (simp add: unat_div unat_mod)
  qed
  have r: "lba_registers lba caps =
      (0, [sect, ucast (cyl AND 0xFF), ucast (drop_bit 8 cyl AND 0xFF), 0, 0, 0], ucast ((lba + 1 - ucast sect) mod 1008 div 63))"
    using assms(2,3) by (simp add: lba_registers_def sect_def cyl_def Let_def not_le)
  have and_ff: "w AND 0xFF = take_bit 8 w" for w :: u16 by (simp add: take_bit_eq_mask mask_eq_exp_minus_1)
  have b1: "unat (ucast (cyl AND 0xFF) :: u8) = unat cyl mod 256"
    unfolding and_ff unsigned_ucast_eq unsigned_take_bit_eq by (simp add: take_bit_eq_mod)
  have cl: "unat cyl < 65536" using cy by simp
  have b2: "unat (ucast (drop_bit 8 cyl AND 0xFF) :: u8) = unat cyl div 256"
    unfolding and_ff unsigned_ucast_eq unsigned_take_bit_eq unat_drop_bit_eq
    using cl by (simp add: take_bit_eq_mod drop_bit_eq_div less_mult_imp_div_less)
  have b3: "unat (ucast ((lba + 1 - ucast sect) mod 1008 div 63) :: u8) = n div 63 mod 16"
  proof -
    have "n div 63 mod 16 < 16" by simp
    then show ?thesis unfolding unsigned_ucast_eq h by (simp add: take_bit_eq_mod)
  qed
  show ?thesis using that [OF r] s b1 b2 b3 cy by simp
qed

lemma unat_drop: "unat (drop_bit k w) = unat w div 2 ^ k" for w :: "'a::len word"
  unfolding unat_drop_bit_eq by (simp add: drop_bit_eq_div)

lemma selected_sector:
  fixes lba :: u32 and caps :: u16 and n :: u8 and a :: ata
  assumes "sl = (if slave then 0x10 else 0)"
  defines "regs \<equiv> lba_registers lba caps" and "r \<equiv> reg (selected sl n (lba_registers lba caps) a)"
  shows "bit (fst (r 6)) 4 = slave \<and> fst (r 2) = n \<and> (fst regs = 2 \<longrightarrow> snd (r 2) = 0) \<and> length (fst (snd regs)) = 6 \<and>
    ata_sector (fst regs = 2) r = (if fst regs = 0 then unat lba mod 66060288 else unat lba)"
proof (cases rule: lba_registers_cases [where lba = lba and caps = caps])
  case lba48
  have "unat lba < 2 ^ LENGTH(32)" by (rule unsigned_less)
  then have "unat lba div 16777216 mod 256 = unat lba div 16777216" by (simp add: less_mult_imp_div_less)
  with four_bytes [of "unat lba"] selected_regs [OF lba48(2), of sl n a] drive_bits [OF assms(1), of 0 2] show ?thesis
    by (simp add: regs_def r_def lba48(2) ata_sector_def byte_of_lba unat_drop)
next
  case lba28
  let ?head = "ucast (drop_bit 24 (lba AND 0xF000000)) :: u8"
  have "unat ?head < 16" using lba28_head [OF lba28(1)] by simp
  then show ?thesis
    using four_bytes [of "unat lba"] selected_regs [OF lba28(3), of sl n a] drive_bits [OF assms(1), of ?head 1] lba28_head(1) [OF lba28(1)]
    by (simp add: regs_def r_def lba28(3) ata_sector_def byte_of_lba unat_drop)
next
  case chs
  from chs_registers [OF chs(1,2)] obtain lba_io head where c: "lba_registers lba caps = (0, lba_io, head)" "length lba_io = 6"
    "unat (lba_io ! 0) = unat lba mod 63 + 1" "unat (lba_io ! 1) = unat lba div 1008 mod 65536 mod 256"
    "unat (lba_io ! 2) = unat lba div 1008 mod 65536 div 256" "unat head = unat lba div 63 mod 16" .
  have "unat head < 16" using c(6) by simp
  note d = drive_bits [OF assms(1) this, of 0] and s = selected_regs [OF c(1), of sl n a]
  let ?n = "unat lba" and ?cyl = "unat lba div 1008 mod 65536"
  have "ata_sector False r = (?cyl * 16 + ?n div 63 mod 16) * 63 + ?n mod 63"
    using s d c by (simp add: r_def ata_sector_def)
  also have "\<dots> = ?n mod 66060288"
  proof -
    have a: "?n mod (63 * (16 * 65536)) = 63 * (?n div 63 mod (16 * 65536)) + ?n mod 63" by (rule mod_mult2_eq)
    have b: "?n div 63 mod (16 * 65536) = 16 * (?n div 63 div 16 mod 65536) + ?n div 63 mod 16" by (rule mod_mult2_eq)
    have "?n div 63 div 16 = ?n div 1008" by (simp add: div_mult2_eq [symmetric])
    with a b show ?thesis by simp
  qed
  finally show ?thesis using s d c by (simp add: regs_def r_def)
qed

lemma chs_small:
  assumes "caps AND 0x200 \<noteq> 0 \<or> sectors \<le> 66060288" "unat lba < sectors" "fst (lba_registers lba caps) = 0"
  shows "unat lba mod 66060288 = unat lba"
proof (cases "caps AND 0x200 \<noteq> 0")
  case True
  then have False using assms(3) by (cases rule: lba_registers_cases [where lba = lba and caps = caps]) simp_all
  then show ?thesis ..
next
  case False
  then show ?thesis using assms by simp
qed

lemma IDEWrite_frame [simp]: "IDEDevs (IDEWrite B c r v st) = IDEDevs st" "Channels (IDEWrite B c r v st) = Channels st"
  by (simp_all add: IDEWrite_def hob_on_def hob_off_def reg_out_def split: option.splits)

lemma set_nIEN_frame [simp]:
  "hw (set_nIEN c st) = hw st" "IDEDevs (set_nIEN c st) = IDEDevs st" "imem (set_nIEN c st) = imem st"
  "FileOffset (set_nIEN c st) = FileOffset st" "package0 (set_nIEN c st) = package0 st"
  by (simp_all add: set_nIEN_def)

lemma length_sector_words [simp]: "length (sector_words bs) = 256"
  by (simp add: sector_words_def)

text \<open>Drive \<open>i\<close> of the driver is the disk: its channel \<open>c\<close> has the disk's ports, and
  what was identified is right. Without LBA the translation reaches 66060288 sectors.\<close>

definition ata_driven :: "u16 \<Rightarrow> u16 \<Rightarrow> bool \<Rightarrow> nat \<Rightarrow> nat \<Rightarrow> nat \<Rightarrow> 'h ide \<Rightarrow> bool" where
  "ata_driven io ct slave sectors c i st \<longleftrightarrow> i < 4 \<and> c < 256 \<and> base (Channels st c) = io \<and> ctrl (Channels st c) = ct \<and>
     Reserved (IDEDevs st i) \<noteq> 0 \<and> Channel (IDEDevs st i) = of_nat c \<and>
     Drive (IDEDevs st i) = (if slave then 1 else 0) \<and> Type (IDEDevs st i) = IDE_ATA \<and>
     unat (Size (IDEDevs st i)) = sectors \<and> (Capabilities (IDEDevs st i) AND 0x200 \<noteq> 0 \<or> sectors \<le> 66060288)"

definition ata_idle :: "('h \<Rightarrow> bool) \<Rightarrow> ('h \<Rightarrow> ata) \<Rightarrow> 'h \<Rightarrow> (nat \<Rightarrow> u8 list) \<Rightarrow> bool" where
  "ata_idle ok view h d \<longleftrightarrow> ok h \<and> waiting (view h) = 0 \<and> phase (view h) = Idle \<and> disk (view h) = d"

text \<open>
  The bus as the host sees it, with the disk at the ports \<open>io\<close> to \<open>io + 7\<close> and its
  control register at \<open>ct + 2\<close>. The last word of a write leaves the disk ready, as the driver
  sends the next command at once.
\<close>

locale ata_disk =
  fixes B :: "'h bus" and io ct :: u16 and slave :: bool and sectors :: nat
    and ok :: "'h \<Rightarrow> bool" and view :: "'h \<Rightarrow> ata"
  assumes delay_ok: "ok h \<Longrightarrow> ok (delay B n h) \<and> quieter (view h) (view (delay B n h))"
    and alt_ok: "ok h \<Longrightarrow> inb B (ct + 2) h = (v, h') \<Longrightarrow> ok h' \<and> quieter (view h) (view h')"
    and control_ok: "ok h \<Longrightarrow> \<not> bit v 2 \<Longrightarrow> ok (outb B (ct + 2) v h) \<and> quieter (view h) (view (outb B (ct + 2) v h))"
    and status_ok: "ok h \<Longrightarrow> inb B (io + 7) h = (v, h') \<Longrightarrow>
      ok h' \<and> quieter (view h) (view h') \<and> v \<noteq> 0 \<and> v \<noteq> 0xFF \<and>
      (if waiting (view h) = 0 then \<not> bit v 7 \<and> \<not> bit v 5 \<and> \<not> bit v 0 \<and> (bit v 3 \<longleftrightarrow> phase (view h) \<noteq> Idle)
       else bit v 7 \<longrightarrow> waiting (view h') < waiting (view h))"
    and busy_ok: "ok h \<Longrightarrow> inb B (io + 7) h = (v, h') \<Longrightarrow> \<not> bit v 7 \<Longrightarrow> waiting (view h') = 0"
    and reg_ok: "ok h \<Longrightarrow> waiting (view h) = 0 \<Longrightarrow> phase (view h) = Idle \<Longrightarrow> k \<in> {2..6} \<Longrightarrow>
      ok (outb B (io + of_nat k) v h) \<and> view (outb B (io + of_nat k) v h) = ata_reg k v (view h)"
    and command_ok: "ok h \<Longrightarrow> waiting (view h) = 0 \<Longrightarrow> phase (view h) = Idle \<Longrightarrow>
      ata_starts sectors slave cmd (view h) = Some p \<Longrightarrow>
      ok (outb B (io + 7) cmd h) \<and> phase (view (outb B (io + 7) cmd h)) = p \<and>
      disk (view (outb B (io + 7) cmd h)) = disk (view h) \<and> reg (view (outb B (io + 7) cmd h)) 6 = reg (view h) 6"
    and word_in: "ok h \<Longrightarrow> waiting (view h) = 0 \<Longrightarrow> phase (view h) = DataIn (w # ws) \<Longrightarrow>
      \<exists>h'. inw B io h = (w, h') \<and> ok h' \<and> view h' = ata_word_in (view h)"
    and word_out: "ok h \<Longrightarrow> waiting (view h) = 0 \<Longrightarrow> phase (view h) = DataOut n ws \<Longrightarrow> length ws < 256 \<Longrightarrow>
      ok (outw B io w h) \<and> view (outw B io w h) = ata_word_out w (view h)"
    and disk_ok: "ok h \<Longrightarrow> length (disk (view h) n) = 512"
begin

text \<open>The disk is idle and seen as \<open>a\<close>; a driver state is \<open>at\<close> such a point.\<close>

definition ready :: "'h \<Rightarrow> ata \<Rightarrow> bool" where
  "ready h a \<longleftrightarrow> ok h \<and> view h = a \<and> waiting a = 0 \<and> phase a = Idle"

definition reached :: "'h ide \<Rightarrow> ata \<Rightarrow> 'h ide \<Rightarrow> bool" where
  "reached st0 a st \<longleftrightarrow> (\<exists>h. st = st0\<lparr>hw := h\<rparr> \<and> ready h a)"

lemma quieter_ready: "waiting a = 0 \<Longrightarrow> quieter a a' \<Longrightarrow> a' = a"
  by (auto simp: quieter_def)

lemma ready_reg: "ready h a \<Longrightarrow> k \<in> {2..6} \<Longrightarrow> ready (outb B (io + of_nat k) v h) (ata_reg k v a)"
  using reg_ok [of h k v] by (auto simp: ready_def ata_reg_def)

lemma ready_control: "ready h a \<Longrightarrow> \<not> bit v 2 \<Longrightarrow> ready (outb B (ct + 2) v h) a"
  using control_ok [of h v] quieter_ready by (auto simp: ready_def)

lemma ready_delay: "ready h a \<Longrightarrow> ready (delay B n h) a"
  using delay_ok [of h n] quieter_ready by (auto simp: ready_def)

lemma ready_high:
  assumes "ready h a" "k \<in> {2..6}"
  shows "ready (outb B (ct + 2) 2 (outb B (io + of_nat k) v (outb B (ct + 2) 0x82 h))) (ata_reg k v a)"
  using assms by (intro ready_control ready_reg) (simp_all add: bit_iff_odd)

lemma reached_low:
  assumes "reached st0 a st" "\<not> high_register r" "reg_port (Channels st0 c) r = Some (io + of_nat k)" "k \<in> {2..6}"
  shows "reached st0 (ata_reg k v a) (IDEWrite B c r v st)"
proof -
  obtain h where "st = st0\<lparr>hw := h\<rparr>" "ready h a" using assms(1) by (auto simp: reached_def)
  with assms ready_reg [of h a k v] show ?thesis by (auto simp: reached_def IDEWrite_low)
qed

lemma reached_high:
  assumes "reached st0 a st" "wired c io ct st0" "high_register r" "reg_port (Channels st0 c) r = Some (io + of_nat k)"
    "k \<in> {2..6}"
  shows "reached st0 (ata_reg k v a) (IDEWrite B c r v st)"
proof -
  obtain h where h: "st = st0\<lparr>hw := h\<rparr>" "ready h a" using assms(1) by (auto simp: reached_def)
  then have "IDEWrite B c r v st = st\<lparr>hw := outb B (ct + 2) 0x02 (outb B (io + of_nat k) v (outb B (ct + 2) 0x82 (hw st)))\<rparr>"
    using assms by (intro IDEWrite_high) simp_all
  with h ready_high [OF h(2) assms(5)] show ?thesis by (auto simp: reached_def)
qed

lemma reached_regs:
  assumes "reached st0 a st" "wired c io ct st0"
  shows "reached st0 (ata_reg 2 v a) (IDEWrite B c ATA_REG_SECCOUNT0 v st)" "reached st0 (ata_reg 3 v a) (IDEWrite B c ATA_REG_LBA0 v st)"
    "reached st0 (ata_reg 4 v a) (IDEWrite B c ATA_REG_LBA1 v st)" "reached st0 (ata_reg 5 v a) (IDEWrite B c ATA_REG_LBA2 v st)"
    "reached st0 (ata_reg 6 v a) (IDEWrite B c ATA_REG_HDDEVSEL v st)" "reached st0 (ata_reg 2 v a) (IDEWrite B c ATA_REG_SECCOUNT1 v st)"
    "reached st0 (ata_reg 3 v a) (IDEWrite B c ATA_REG_LBA3 v st)" "reached st0 (ata_reg 4 v a) (IDEWrite B c ATA_REG_LBA4 v st)"
    "reached st0 (ata_reg 5 v a) (IDEWrite B c ATA_REG_LBA5 v st)"
proof -
  note p = reg_port_wired [OF assms(2)]
  show "reached st0 (ata_reg 2 v a) (IDEWrite B c ATA_REG_SECCOUNT0 v st)" "reached st0 (ata_reg 3 v a) (IDEWrite B c ATA_REG_LBA0 v st)"
    "reached st0 (ata_reg 4 v a) (IDEWrite B c ATA_REG_LBA1 v st)" "reached st0 (ata_reg 5 v a) (IDEWrite B c ATA_REG_LBA2 v st)"
    "reached st0 (ata_reg 6 v a) (IDEWrite B c ATA_REG_HDDEVSEL v st)"
    by (rule reached_low [OF assms(1)]; simp add: p)+
  show "reached st0 (ata_reg 2 v a) (IDEWrite B c ATA_REG_SECCOUNT1 v st)" "reached st0 (ata_reg 3 v a) (IDEWrite B c ATA_REG_LBA3 v st)"
    "reached st0 (ata_reg 4 v a) (IDEWrite B c ATA_REG_LBA4 v st)" "reached st0 (ata_reg 5 v a) (IDEWrite B c ATA_REG_LBA5 v st)"
    by (rule reached_high [OF assms]; simp add: p)+
qed

lemma reached_select:
  assumes "reached st0 a st" "wired c io ct st0"
  shows "reached st0 (selected sl n regs a) (select_sector B c sl n regs st)"
  using assms by (cases regs) (auto simp: select_sector_def selected_def Let_def intro!: reached_regs)

text \<open>Waiting ends: the disk is busy for finitely many reads of its status.\<close>

lemma waited:
  assumes "ok (hw st)" "wired c io ct st"
  shows "\<exists>h. IDEWaitNotBusy B c st = Some (st\<lparr>hw := h\<rparr>) \<and> ok h \<and> view h = (view (hw st))\<lparr>waiting := 0\<rparr>"
  using assms
proof (induction "waiting (view (hw st))" arbitrary: st rule: less_induct)
  case less
  obtain v h where io: "inb B (io + 7) (hw st) = (v, h)" by (cases "inb B (io + 7) (hw st)")
  note s = status_ok [OF less.prems(1) io] and p = reg_port_wired [OF less.prems(2)]
  have r: "IDERead B c ATA_REG_STATUS st = (v, st\<lparr>hw := h\<rparr>)" using io p by (simp add: IDERead_low)
  have q: "view h = (view (hw st))\<lparr>waiting := waiting (view h)\<rparr>" "ok h" using s by (auto simp: quieter_def)
  show ?case
  proof (cases "bit v 7")
    case True
    then have "waiting (view h) < waiting (view (hw st))" using s by (auto split: if_splits)
    with less.hyps [of "st\<lparr>hw := h\<rparr>"] less.prems q obtain h' where
      "IDEWaitNotBusy B c (st\<lparr>hw := h\<rparr>) = Some (st\<lparr>hw := h'\<rparr>)" "ok h'" "view h' = (view h)\<lparr>waiting := 0\<rparr>" by auto
    moreover have "v AND ATA_SR_BSY \<noteq> 0" using True and_exp_eq_0_iff_not_bit [of v 7] by (simp add: ATA_SR_BSY_def)
    moreover have "(view h)\<lparr>waiting := 0\<rparr> = (view (hw st))\<lparr>waiting := 0\<rparr>" by (subst q(1)) simp
    ultimately show ?thesis using r by (subst IDEWaitNotBusy.simps) auto
  next
    case False
    then have "v AND ATA_SR_BSY = 0" using and_exp_eq_0_iff_not_bit [of v 7] by (simp add: ATA_SR_BSY_def)
    moreover have "waiting (view h) = 0" using busy_ok [OF less.prems(1) io False] .
    ultimately show ?thesis using q r by (subst IDEWaitNotBusy.simps) auto
  qed
qed
lemma quieter_trans: "quieter a a' \<Longrightarrow> quieter a' a'' \<Longrightarrow> quieter a a''"
  by (cases a; cases a'; cases a'') (auto simp: quieter_def)

lemma quieter_waiting: "quieter a a' \<Longrightarrow> a'\<lparr>waiting := n\<rparr> = a\<lparr>waiting := n\<rparr>"
proof -
  assume "quieter a a'"
  then have "a' = a\<lparr>waiting := waiting a'\<rparr>" by (simp add: quieter_def)
  then have "a'\<lparr>waiting := n\<rparr> = (a\<lparr>waiting := waiting a'\<rparr>)\<lparr>waiting := n\<rparr>" by simp
  then show ?thesis by simp
qed

lemma altstatus_read:
  assumes "ok (hw st)" "wired c io ct st"
  shows "\<exists>h. read_altstatus B c n st = st\<lparr>hw := h\<rparr> \<and> ok h \<and> quieter (view (hw st)) (view h)"
  using assms
proof (induction n arbitrary: st)
  case 0
  then show ?case by (intro exI [of _ "hw st"]) (simp add: quieter_def)
next
  case (Suc n)
  obtain v h where io: "inb B (ct + 2) (hw st) = (v, h)" by (cases "inb B (ct + 2) (hw st)")
  have r: "IDERead B c ATA_REG_ALTSTATUS st = (v, st\<lparr>hw := h\<rparr>)" using io reg_port_wired [OF Suc.prems(2)] by (simp add: IDERead_low)
  have q: "ok h" "quieter (view (hw st)) (view h)" using alt_ok [OF Suc.prems(1) io] by simp_all
  with Suc.IH [of "st\<lparr>hw := h\<rparr>"] Suc.prems(2) obtain h' where
    "read_altstatus B c n (st\<lparr>hw := h\<rparr>) = st\<lparr>hw := h'\<rparr>" "ok h'" "quieter (view h) (view h')" by auto
  with r quieter_trans [OF q(2)] show ?case by auto
qed

lemma polled:
  assumes "ok (hw st)" "wired c io ct st"
  shows "\<exists>h. IDEPolling B c advanced st = Some (if advanced \<and> phase (view (hw st)) = Idle then 3 else 0, st\<lparr>hw := h\<rparr>) \<and>
    ok h \<and> view h = (view (hw st))\<lparr>waiting := 0\<rparr>"
proof -
  obtain h1 where h1: "read_altstatus B c 4 st = st\<lparr>hw := h1\<rparr>" "ok h1" "quieter (view (hw st)) (view h1)"
    using altstatus_read [OF assms] by blast
  obtain h2 where h2: "IDEWaitNotBusy B c (st\<lparr>hw := h1\<rparr>) = Some (st\<lparr>hw := h2\<rparr>)" "ok h2" "view h2 = (view h1)\<lparr>waiting := 0\<rparr>"
    using waited [of "st\<lparr>hw := h1\<rparr>" c] h1(2) assms(2) by auto
  have v2: "view h2 = (view (hw st))\<lparr>waiting := 0\<rparr>" using h2(3) quieter_waiting [OF h1(3)] by simp
  obtain v h3 where io: "inb B (io + 7) h2 = (v, h3)" by (cases "inb B (io + 7) h2")
  have r: "IDERead B c ATA_REG_STATUS (st\<lparr>hw := h2\<rparr>) = (v, st\<lparr>hw := h3\<rparr>)"
    using io reg_port_wired [OF assms(2)] by (simp add: IDERead_low)
  have s: "ok h3" "view h3 = view h2" "\<not> bit v 5" "\<not> bit v 0" "bit v 3 \<longleftrightarrow> phase (view h2) \<noteq> Idle"
    using status_ok [OF h2(2) io] quieter_ready [of "view h2" "view h3"] v2 by simp_all
  have b: "v AND ATA_SR_ERR = 0" "v AND ATA_SR_DF = 0" "v AND ATA_SR_DRQ = 0 \<longleftrightarrow> phase (view h2) = Idle"
    using s(3-5) and_exp_eq_0_iff_not_bit [of v 0] and_exp_eq_0_iff_not_bit [of v 5] and_exp_eq_0_iff_not_bit [of v 3]
    by (simp_all add: ATA_SR_ERR_def ATA_SR_DF_def ATA_SR_DRQ_def)
  show ?thesis
  proof (cases advanced)
    case True
    then show ?thesis using h1(1) h2(1) r b s(1,2) v2 by (auto simp: IDEPolling_def)
  next
    case False
    then show ?thesis using h1(1) h2(1,2) v2 by (auto simp: IDEPolling_def)
  qed
qed

lemma words_in:
  assumes "ok h" "waiting (view h) = 0" "phase (view h) = DataIn ws" "ws \<noteq> []" "2 * length ws \<le> 2 ^ 64"
  shows "\<exists>h'. insw B io a (length ws) m h = (store_bytes m a (words_bytes ws), h') \<and> ok h' \<and>
    view h' = (view h)\<lparr>phase := Idle\<rparr>"
  using assms
proof (induction ws arbitrary: h a m)
  case (Cons w ws)
  obtain h1 where h1: "inw B io h = (w, h1)" "ok h1" "view h1 = ata_word_in (view h)"
    using word_in [OF Cons.prems(1-3)] by blast
  show ?case
  proof (cases "ws = []")
    case True
    then show ?thesis using h1 Cons.prems by (simp add: ata_word_in_def)
  next
    case False
    then have "view h1 = (view h)\<lparr>phase := DataIn ws\<rparr>" using h1(3) Cons.prems by (simp add: ata_word_in_def)
    with Cons.IH [OF h1(2), of "a + 2" "store_bytes m a (le_split 2 w)"] False Cons.prems obtain h' where
      "insw B io (a + 2) (length ws) (store_bytes m a (le_split 2 w)) h1 =
         (store_bytes (store_bytes m a (le_split 2 w)) (a + 2) (words_bytes ws), h')" "ok h'"
      "view h' = (view h)\<lparr>phase := Idle\<rparr>" by auto
    moreover have "store_bytes (store_bytes m a (le_split 2 w)) (a + 2) (words_bytes ws) =
        store_bytes m a (words_bytes (w # ws))"
      using store_bytes_append [of "le_split 2 w" "words_bytes ws" m a] Cons.prems(5) by simp
    ultimately show ?thesis using h1(1) by simp
  qed
qed simp

lemma words_out:
  assumes "ok h" "waiting (view h) = 0" "phase (view h) = DataOut n ws" "length ws + k = 256" "0 < k"
  shows "ok (outsw B io a k m h) \<and> view (outsw B io a k m h) =
    (view h)\<lparr>phase := Idle, disk := (disk (view h))(n := words_bytes (ws @ words_at m a k))\<rparr>"
  using assms
proof (induction k arbitrary: h a ws)
  case (Suc k)
  let ?w = "le_join (load_bytes m a 2) :: u16"
  let ?h = "outw B io ?w h"
  have h1: "ok ?h" "view ?h = ata_word_out ?w (view h)" using word_out [OF Suc.prems(1-3), of ?w] Suc.prems(4) by auto
  show ?case
  proof (cases k)
    case 0
    then show ?thesis using h1 Suc.prems by (simp add: ata_word_out_def words_at_Suc fun_upd_def)
  next
    case (Suc j)
    then have v: "view ?h = (view h)\<lparr>phase := DataOut n (ws @ [?w])\<rparr>" using h1(2) Suc.prems by (simp add: ata_word_out_def)
    with Suc.IH [of ?h "ws @ [?w]" "a + 2"] h1(1) Suc.prems Suc show ?thesis by (simp add: words_at_Suc)
  qed
qed simp

abbreviation idle :: "'h \<Rightarrow> (nat \<Rightarrow> u8 list) \<Rightarrow> bool" where
  "idle \<equiv> ata_idle ok view"

abbreviation driven :: "nat \<Rightarrow> nat \<Rightarrow> 'h ide \<Rightarrow> bool" where
  "driven \<equiv> ata_driven io ct slave sectors"

lemma idle_ready: "idle h d \<longleftrightarrow> ready h (view h) \<and> disk (view h) = d"
  by (auto simp: ata_idle_def ready_def)

lemma driven_index [simp]: "i < 4 \<Longrightarrow> unat (of_nat i :: u8) = i"
  by (simp add: unat_of_nat)

lemma driven_select:
  assumes "driven c i st"
  shows "dev_channel st (of_nat i) = c" "slavebit st (of_nat i) = (if slave then 0x10 else 0)" "wired c io ct (set_nIEN c st)"
  using assms by (auto simp: ata_driven_def dev_channel_def slavebit_def wired_def set_nIEN_def unat_of_nat push_bit_eq_mult)

lemma ready_idle: "ready h a \<Longrightarrow> idle h (disk a)"
  by (auto simp: idle_ready ready_def)

text \<open>From the idle disk to the command, which leads to the phase \<open>p\<close>.\<close>

lemma access_command:
  fixes lba caps
  defines "regs \<equiv> lba_registers lba caps"
  assumes st: "wired c io ct st" "ready (hw st) a" and sl: "sl = (if slave then 0x10 else 0)"
    and lba: "unat lba < sectors" "caps AND 0x200 \<noteq> 0 \<or> sectors \<le> 66060288"
    and cmd: "cmd = pio_command direction (fst regs)"
  shows "\<exists>st2 h. IDEWaitNotBusy B c (IDEWrite B c ATA_REG_CONTROL 0x02 st) = Some st2 \<and>
     IDEWrite B c ATA_REG_COMMAND cmd (select_sector B c sl 1 regs st2) = st\<lparr>hw := h\<rparr> \<and> ok h \<and>
     phase (view h) = (if direction = 0 then DataIn (sector_words (disk a (unat lba))) else DataOut (unat lba) []) \<and>
     disk (view h) = disk a \<and> bit (fst (reg (view h) 6)) 4 = slave"
proof -
  note p = reg_port_wired [OF st(1)]
  let ?h1 = "outb B (ct + 2) 0x02 (hw st)"
  have r1: "ready ?h1 a" using st(2) by (rule ready_control) (simp add: bit_iff_odd)
  have w1: "IDEWrite B c ATA_REG_CONTROL 0x02 st = st\<lparr>hw := ?h1\<rparr>" using p by (simp add: IDEWrite_low)
  obtain h2 where h2: "IDEWaitNotBusy B c (st\<lparr>hw := ?h1\<rparr>) = Some (st\<lparr>hw := h2\<rparr>)" "ok h2" "view h2 = (view ?h1)\<lparr>waiting := 0\<rparr>"
    using waited [of "st\<lparr>hw := ?h1\<rparr>" c] r1 st(1) by (auto simp: ready_def)
  have r2: "ready h2 a" using h2 r1 by (auto simp: ready_def)
  then have "reached st a (st\<lparr>hw := h2\<rparr>)" by (auto simp: reached_def)
  then have "reached st (selected sl 1 regs a) (select_sector B c sl 1 regs (st\<lparr>hw := h2\<rparr>))"
    using st(1) by (rule reached_select)
  then obtain h3 where h3: "select_sector B c sl 1 regs (st\<lparr>hw := h2\<rparr>) = st\<lparr>hw := h3\<rparr>" "ready h3 (selected sl 1 regs a)"
    by (auto simp: reached_def)
  note sel = selected_sector [OF sl, where lba = lba and caps = caps and n = 1 and a = a, folded regs_def]
  have sec: "ata_sector (fst regs = 2) (reg (selected sl 1 regs a)) = unat lba"
    using sel lba chs_small [where lba = lba and caps = caps and sectors = sectors] by (auto simp: regs_def)
  have "fst regs \<in> {0, 1, 2}"
    unfolding regs_def by (cases rule: lba_registers_cases [where lba = lba and caps = caps]) simp_all
  then have "ata_starts sectors slave cmd (selected sl 1 regs a) =
      Some (if direction = 0 then DataIn (sector_words (disk a (unat lba))) else DataOut (unat lba) [])"
    using sel sec lba(1) by (auto simp: ata_starts_def cmd pio_command_def Let_def)
  with command_ok [of h3 cmd] h3(2) have "ok (outb B (io + 7) cmd h3) \<and>
      phase (view (outb B (io + 7) cmd h3)) = (if direction = 0 then DataIn (sector_words (disk a (unat lba))) else DataOut (unat lba) []) \<and>
      disk (view (outb B (io + 7) cmd h3)) = disk a \<and> bit (fst (reg (view (outb B (io + 7) cmd h3)) 6)) 4 = slave"
    using sel by (auto simp: ready_def)
  moreover have "IDEWrite B c ATA_REG_COMMAND cmd (st\<lparr>hw := h3\<rparr>) = st\<lparr>hw := outb B (io + 7) cmd h3\<rparr>"
    using p by (simp add: IDEWrite_low)
  ultimately show ?thesis using w1 h2(1) h3(1) by auto
qed

lemma access_read:
  assumes "driven c i st" "idle (hw st) d" "unat lba < sectors"
  shows "\<exists>h. IDEAccess B 0 (of_nat i) lba 1 edi st =
     Some (0, (set_nIEN c st)\<lparr>hw := h, imem := store_bytes (imem st) (ucast edi) (d (unat lba))\<rparr>) \<and> idle h d"
proof -
  let ?st = "set_nIEN c st" and ?caps = "Capabilities (IDEDevs st i)"
  have i: "i < 4" using assms(1) by (simp add: ata_driven_def)
  note w = driven_select [OF assms(1)]
  have a: "ready (hw ?st) (view (hw st))" "disk (view (hw st)) = d" using assms(2) by (simp_all add: idle_ready)
  have caps: "?caps AND 0x200 \<noteq> 0 \<or> sectors \<le> 66060288" using assms(1) by (simp add: ata_driven_def)
  from access_command [OF w(3) a(1) refl assms(3) caps refl, of 0] obtain st2 h where
    r: "IDEWaitNotBusy B c (IDEWrite B c ATA_REG_CONTROL 0x02 ?st) = Some st2"
    "IDEWrite B c ATA_REG_COMMAND (pio_command 0 (fst (lba_registers lba ?caps)))
       (select_sector B c (if slave then 0x10 else 0) 1 (lba_registers lba ?caps) st2) = ?st\<lparr>hw := h\<rparr>"
    and h: "ok h" "phase (view h) = DataIn (sector_words (d (unat lba)))" "disk (view h) = d" using a(2) by auto
  let ?st4 = "?st\<lparr>hw := h\<rparr>" and ?ws = "sector_words (d (unat lba))"
  have ne: "?ws \<noteq> []" by (metis length_sector_words list.size(3) zero_neq_numeral)
  obtain h1 where h1: "IDEPolling B c True ?st4 = Some (0, ?st4\<lparr>hw := h1\<rparr>)" "ok h1" "view h1 = (view h)\<lparr>waiting := 0\<rparr>"
    using polled [of ?st4 c True] h(1,2) w(3) by auto
  obtain h2 where h2: "insw B io (ucast edi) 256 (imem st) h1 = (store_bytes (imem st) (ucast edi) (words_bytes ?ws), h2)"
    "ok h2" "view h2 = (view h1)\<lparr>phase := Idle\<rparr>"
    using words_in [of h1 ?ws "ucast edi" "imem st"] h1(2,3) h(2) ne by auto
  have "length (d (unat lba)) = 512" using disk_ok [OF h(1)] h(3) by metis
  then have wb: "words_bytes ?ws = d (unat lba)" by (rule words_bytes_sector)
  have "base (Channels ?st c) = io" using w(3) by (simp add: wired_def)
  then have "pio_read B c edi 1 ?st4 = Some (0, ?st\<lparr>hw := h2, imem := store_bytes (imem st) (ucast edi) (d (unat lba))\<rparr>)"
    using h1(1) h2(1) wb by (simp add: One_nat_def [symmetric] del: One_nat_def) (simp add: eval_nat_numeral)
  moreover have "idle h2 d" using h2 h1 h(3) by (simp add: idle_ready ready_def)
  ultimately show ?thesis using r w i by (auto simp: IDEAccess_def Let_def)
qed

lemma access_write:
  assumes "driven c i st" "idle (hw st) d" "unat lba < sectors"
  shows "\<exists>h. IDEAccess B 1 (of_nat i) lba 1 edi st = Some (0, (set_nIEN c st)\<lparr>hw := h\<rparr>) \<and>
     idle h (d(unat lba := load_bytes (imem st) (ucast edi) 512))"
proof -
  let ?st = "set_nIEN c st" and ?caps = "Capabilities (IDEDevs st i)"
  have i: "i < 4" using assms(1) by (simp add: ata_driven_def)
  note w = driven_select [OF assms(1)]
  have a: "ready (hw ?st) (view (hw st))" "disk (view (hw st)) = d" using assms(2) by (simp_all add: idle_ready)
  have caps: "?caps AND 0x200 \<noteq> 0 \<or> sectors \<le> 66060288" using assms(1) by (simp add: ata_driven_def)
  from access_command [OF w(3) a(1) refl assms(3) caps refl, of 1] obtain st2 h where
    r: "IDEWaitNotBusy B c (IDEWrite B c ATA_REG_CONTROL 0x02 ?st) = Some st2"
    "IDEWrite B c ATA_REG_COMMAND (pio_command 1 (fst (lba_registers lba ?caps)))
       (select_sector B c (if slave then 0x10 else 0) 1 (lba_registers lba ?caps) st2) = ?st\<lparr>hw := h\<rparr>"
    and h: "ok h" "phase (view h) = DataOut (unat lba) []" "disk (view h) = d" "bit (fst (reg (view h) 6)) 4 = slave"
    using a(2) by auto
  let ?st4 = "?st\<lparr>hw := h\<rparr>" and ?ws = "words_at (imem st) (ucast edi) 256" and ?cmd = "if fst (lba_registers lba ?caps) = 2 then 0xEA else 0xE7 :: u8"
  obtain h1 where h1: "IDEPolling B c False ?st4 = Some (0, ?st4\<lparr>hw := h1\<rparr>)" "ok h1" "view h1 = (view h)\<lparr>waiting := 0\<rparr>"
    using polled [of ?st4 c False] h(1,2) w(3) by auto
  let ?h2 = "outsw B io (ucast edi) 256 (imem st) h1"
  have h2: "ok ?h2" "view ?h2 = (view h1)\<lparr>phase := Idle, disk := d(unat lba := load_bytes (imem st) (ucast edi) 512)\<rparr>"
    using words_out [of h1 "unat lba" "[]" 256 "ucast edi" "imem st"] h1(2,3) h(2,3) words_bytes_at [of "imem st" "ucast edi" 256]
    by auto
  have io: "base (Channels ?st c) = io" using w(3) by (simp add: wired_def)
  have p: "pio_write B c edi 1 ?st4 = Some (?st\<lparr>hw := ?h2\<rparr>)"
    using h1(1) io by (simp add: One_nat_def [symmetric] del: One_nat_def) (simp add: eval_nat_numeral)
  let ?h3 = "outb B (io + 7) ?cmd ?h2"
  have h3: "ok ?h3" "phase (view ?h3) = Idle" "disk (view ?h3) = d(unat lba := load_bytes (imem st) (ucast edi) 512)"
    using command_ok [OF h2(1), of ?cmd Idle] h2(2) h1(3) h(4) by (simp_all add: ata_starts_def)
  have f: "IDEWrite B c ATA_REG_COMMAND ?cmd (?st\<lparr>hw := ?h2\<rparr>) = ?st\<lparr>hw := ?h3\<rparr>"
    using reg_port_wired [OF w(3)] by (simp add: IDEWrite_low)
  obtain h4 where h4: "IDEPolling B c False (?st\<lparr>hw := ?h3\<rparr>) = Some (0, ?st\<lparr>hw := h4\<rparr>)" "ok h4" "view h4 = (view ?h3)\<lparr>waiting := 0\<rparr>"
    using polled [of "?st\<lparr>hw := ?h3\<rparr>" c False] h3(1) w(3) by auto
  then have "idle h4 (d(unat lba := load_bytes (imem st) (ucast edi) 512))" using h3 by (simp add: idle_ready ready_def)
  then show ?thesis using r w i p f h4(1) by (auto simp: IDEAccess_def Let_def simp del: pio_write.simps)
qed

lemma drive_present:
  assumes "driven c i st" "idle (hw st) d"
  shows "\<exists>h. IsDrivePresent B (of_nat i) st = (True, st\<lparr>hw := h\<rparr>) \<and> idle h d"
proof -
  have i: "i < 4" "Reserved (IDEDevs st i) \<noteq> 0" using assms(1) by (simp_all add: ata_driven_def)
  then have d3: "\<not> 3 < (of_nat i :: u8)" by (simp add: word_less_nat_alt)
  have p: "reg_port (Channels st c) ATA_REG_HDDEVSEL = Some (io + 6)" "reg_port (Channels st c) ATA_REG_STATUS = Some (io + 7)"
    using assms(1) by (simp_all add: ata_driven_def reg_port_def ata_regs)
  note w = driven_select [OF assms(1)]
  define sl where "sl = (0xA0 OR (if slave then 0x10 else 0) :: u8)"
  let ?h1 = "delay B 1 (outb B (io + 6) sl (hw st))"
  have "ready (hw st) (view (hw st))" using assms(2) by (simp add: idle_ready)
  then have r: "ready ?h1 (ata_reg 6 sl (view (hw st)))"
    using ready_reg [of "hw st" _ 6 sl] ready_delay by auto
  obtain v h2 where io: "inb B (io + 7) ?h1 = (v, h2)" by (cases "inb B (io + 7) ?h1")
  have "ok h2" "quieter (view ?h1) (view h2)" "v \<noteq> 0" "v \<noteq> 0xFF" using status_ok [OF _ io] r by (auto simp: ready_def)
  moreover from this(1,2) r have "idle h2 d"
    using assms(2) quieter_ready [of "view ?h1" "view h2"] by (auto simp: idle_ready ready_def ata_reg_def)
  ultimately show ?thesis
    using i d3 w io p by (auto simp: IsDrivePresent_def Let_def IDEWrite_low IDERead_low Delay_def sl_def)
qed

lemma driven_frame [simp]:
  "driven c i (st\<lparr>hw := h\<rparr>) = driven c i st" "driven c i (st\<lparr>imem := m\<rparr>) = driven c i st"
  "driven c i (st\<lparr>package0 := p\<rparr>) = driven c i st" "driven c i (st\<lparr>FileOffset := f\<rparr>) = driven c i st"
  "driven c i (set_nIEN c st) = driven c i st" "driven c i (st\<lparr>console := t\<rparr>) = driven c i st"
  by (simp_all add: ata_driven_def set_nIEN_def)

lemma in_range:
  assumes "driven c i st" "unat lba < sectors"
  shows "\<not> Size (IDEDevs st i) < lba + 1"
proof -
  have "unat lba + 1 \<le> unat (Size (IDEDevs st i))" using assms by (simp add: ata_driven_def)
  moreover have "unat (lba + 1) \<le> unat lba + 1" by (simp add: unat_word_ariths)
  ultimately show ?thesis by (simp add: word_less_nat_alt)
qed

lemma sector_read:
  assumes "driven c i st" "idle (hw st) d" "unat lba < sectors"
  shows "\<exists>h. IDEReadSectors B (of_nat i) 1 lba edi st =
     Some ((set_nIEN c st)\<lparr>hw := h, imem := store_bytes (imem st) (ucast (ucast edi :: u32)) (d (unat lba)), package0 := 0\<rparr>) \<and>
     idle h d"
proof -
  obtain h where h: "IsDrivePresent B (of_nat i) st = (True, st\<lparr>hw := h\<rparr>)" "idle h d"
    using drive_present [OF assms(1,2)] by blast
  obtain h1 where h1: "IDEAccess B 0 (of_nat i) lba 1 (ucast edi) (st\<lparr>hw := h\<rparr>) =
      Some (0, (set_nIEN c (st\<lparr>hw := h\<rparr>))\<lparr>hw := h1, imem := store_bytes (imem st) (ucast (ucast edi :: u32)) (d (unat lba))\<rparr>)" "idle h1 d"
    using access_read [of c i "st\<lparr>hw := h\<rparr>" d lba "ucast edi"] assms h(2) by auto
  have i: "i < 4" "Reserved (IDEDevs st i) \<noteq> 0" "Type (IDEDevs st i) = IDE_ATA" using assms(1) by (simp_all add: ata_driven_def)
  then have "\<not> 3 < (of_nat i :: u8)" by (simp add: word_less_nat_alt)
  then have "IDEReadSectors B (of_nat i) 1 lba edi st =
      Some ((set_nIEN c (st\<lparr>hw := h\<rparr>))\<lparr>hw := h1, imem := store_bytes (imem st) (ucast (ucast edi :: u32)) (d (unat lba)), package0 := 0\<rparr>)"
    using h(1) h1(1) i in_range [OF assms(1,3)] by (simp add: IDEReadSectors_def IDEPrintErr_def)
  then show ?thesis using h1(2) by (auto simp: set_nIEN_def)
qed

lemma sector_write:
  assumes "driven c i st" "idle (hw st) d" "unat lba < sectors"
  shows "\<exists>h. IDEWriteSectors B (of_nat i) 1 lba edi st = Some ((set_nIEN c st)\<lparr>hw := h, package0 := 0\<rparr>) \<and>
     idle h (d(unat lba := load_bytes (imem st) (ucast (ucast edi :: u32)) 512))"
proof -
  obtain h where h: "IsDrivePresent B (of_nat i) st = (True, st\<lparr>hw := h\<rparr>)" "idle h d"
    using drive_present [OF assms(1,2)] by blast
  obtain h1 where h1: "IDEAccess B 1 (of_nat i) lba 1 (ucast edi) (st\<lparr>hw := h\<rparr>) = Some (0, (set_nIEN c (st\<lparr>hw := h\<rparr>))\<lparr>hw := h1\<rparr>)"
      "idle h1 (d(unat lba := load_bytes (imem st) (ucast (ucast edi :: u32)) 512))"
    using access_write [of c i "st\<lparr>hw := h\<rparr>" d lba "ucast edi"] assms h(2) by auto
  have i: "i < 4" "Reserved (IDEDevs st i) \<noteq> 0" "Type (IDEDevs st i) = IDE_ATA" using assms(1) by (simp_all add: ata_driven_def)
  then have "\<not> 3 < (of_nat i :: u8)" by (simp add: word_less_nat_alt)
  then have "IDEWriteSectors B (of_nat i) 1 lba edi st = Some ((set_nIEN c (st\<lparr>hw := h\<rparr>))\<lparr>hw := h1, package0 := 0\<rparr>)"
    using h(1) h1(1) i in_range [OF assms(1,3)] by (simp add: IDEWriteSectors_def IDEPrintErr_def IDE_ATA_def IDE_ATAPI_def)
  then show ?thesis using h1(2) by (auto simp: set_nIEN_def)
qed

end


end
