(* ===== verification/IdeDrive.thy ===== *)
theory IdeDrive
  imports Ata
begin

text \<open>
  The read and write functions of an IDE drive's node, which turn sectors into a stream of bytes,
  as a byte device: what \<^verbatim>\<open>FileOffset\<close> and \<^verbatim>\<open>ReadFunction\<close> give a
  client such as the FAT driver.
\<close>

section \<open>The turns of the loops\<close>

lemma of_nat_u64_div_mod:
  assumes "x < 2 ^ 64"
  shows "(of_nat x :: u64) div 512 = of_nat (x div 512)" "(of_nat x :: u64) mod 512 = of_nat (x mod 512)"
proof -
  have u: "unat (of_nat x :: u64) = x" using assms by (simp add: unat_of_nat)
  have d: "x div 512 < 2 ^ 64" "x mod 512 < 2 ^ 64" using assms by (simp_all add: less_mult_imp_div_less)
  show "(of_nat x :: u64) div 512 = of_nat (x div 512)"
    using u d(1) by (intro word_unat_eq_iff [THEN iffD2]) (simp add: unat_div unat_of_nat)
  show "(of_nat x :: u64) mod 512 = of_nat (x mod 512)"
    using u d(2) by (intro word_unat_eq_iff [THEN iffD2]) (simp add: unat_mod unat_of_nat)
qed

lemma of_nat_u64_less: "x < 2 ^ 64 \<Longrightarrow> y < 2 ^ 64 \<Longrightarrow> (of_nat x :: u64) < of_nat y \<longleftrightarrow> x < y"
  by (simp add: word_less_nat_alt unat_of_nat)

definition turn :: "nat \<Rightarrow> nat \<Rightarrow> nat" where
  "turn x r = (if r < 512 - x mod 512 then r else 512 - x mod 512)"

lemma turn_bounds: "0 < r \<Longrightarrow> 0 < turn x r \<and> turn x r \<le> r \<and> x mod 512 + turn x r \<le> 512"
proof -
  assume "0 < r"
  moreover have "x mod 512 < 512" by simp
  ultimately show ?thesis by (simp add: turn_def) linarith
qed

lemma turn_word:
  assumes "r < 65536"
  shows "(if (of_nat r :: u64) < 512 - of_nat (x mod 512) then of_nat r else 512 - of_nat (x mod 512)) = (of_nat (turn x r) :: u64)"
proof -
  have x: "x mod 512 < 512" by simp
  then have l: "of_nat (512 - x mod 512) = (512 - of_nat (x mod 512) :: u64)" by (subst of_nat_diff) simp_all
  have "(of_nat r :: u64) < of_nat (512 - x mod 512) \<longleftrightarrow> r < 512 - x mod 512"
    using assms by (intro of_nat_u64_less) simp_all
  then show ?thesis unfolding turn_def l by (simp add: l del: of_nat_diff)
qed

lemma ide_read_turn:
  assumes "0 < r" "r \<le> N" "N < 65536" "x < 2 ^ 64"
  shows "ide_read_loop B sb dest 512 i (of_nat x) (of_nat N) (of_nat r) st =
    obind (load_sector B sb 512 i (of_nat (x div 512)) st) (\<lambda>st1.
      ide_read_loop B sb dest 512 i (of_nat (x + turn x r)) (of_nat N) (of_nat (r - turn x r))
        (st1\<lparr>imem := memcpy_loop (dest + of_nat (N - r)) (sb + of_nat (x mod 512)) (turn x r) 0 (imem st1)\<rparr>))"
proof -
  have t: "turn x r \<le> r" "turn x r < 2 ^ 64" using turn_bounds [OF assms(1), of x] assms by simp_all
  have u: "unat (of_nat (turn x r) :: u64) = turn x r" using t(2) by (simp add: unat_of_nat)
  have "0 < (of_nat r :: u64)" using of_nat_u64_less [of 0 r] assms by simp
  moreover have "(of_nat N - of_nat r :: u64) = of_nat (N - r)" "(of_nat r - of_nat (turn x r) :: u64) = of_nat (r - turn x r)"
    using assms t by (simp_all add: of_nat_diff)
  moreover note of_nat_u64_div_mod [OF assms(4)]
  moreover have "r < 65536" using assms by simp
  ultimately show ?thesis
    by (subst ide_read_loop.simps) (simp add: turn_word u Let_def del: of_nat_diff)
qed

lemma ide_write_turn:
  assumes "0 < r" "r \<le> N" "N < 65536" "x < 2 ^ 64"
  shows "ide_write_loop B sb src i (of_nat x) (of_nat N) (of_nat r) st =
    obind (if x mod 512 \<noteq> 0 \<or> turn x r \<noteq> 512 then load_sector B sb 512 i (of_nat (x div 512)) st else Some (Inr st)) (\<lambda>st1.
      let st2 = st1\<lparr>imem := memcpy_loop (sb + of_nat (x mod 512)) (src + of_nat (N - r)) (turn x r) 0 (imem st1)\<rparr>
      in obind (if of_nat (x div 512) < (ucast (Size (IDEDevs st2 i)) :: u64) then
                  Option.bind (IDEWriteSectors B (of_nat i) 1 (ucast (of_nat (x div 512) :: u64)) sb st2) (\<lambda>st3.
                    Some (Inr (if package0 st3 \<noteq> 0 then st3\<lparr>package0 := 0\<rparr> else st3)))
                else Some (Inr st2)) (\<lambda>st4.
           ide_write_loop B sb src i (of_nat (x + turn x r)) (of_nat N) (of_nat (r - turn x r)) st4))"
proof -
  have t: "turn x r \<le> r" "turn x r < 2 ^ 64" using turn_bounds [OF assms(1), of x] assms by simp_all
  have u: "unat (of_nat (turn x r) :: u64) = turn x r" using t(2) by (simp add: unat_of_nat)
  have pos: "0 < (of_nat r :: u64)" using of_nat_u64_less [of 0 r] assms by simp
  have diff: "(of_nat N - of_nat r :: u64) = of_nat (N - r)" "(of_nat r - of_nat (turn x r) :: u64) = of_nat (r - turn x r)"
    using assms t by (simp_all add: of_nat_diff)
  have tw: "(if (of_nat r :: u64) < 512 - of_nat (x mod 512) then of_nat r else 512 - of_nat (x mod 512)) = (of_nat (turn x r) :: u64)"
    using assms by (intro turn_word) simp
  have "x mod 512 < 512" by simp
  then have "unat (of_nat (x mod 512) :: u64) = x mod 512" by (simp add: unat_of_nat)
  with unat_eq_zero [of "of_nat (x mod 512) :: u64"] have z: "(of_nat (x mod 512) :: u64) = 0 \<longleftrightarrow> x mod 512 = 0"
    by (simp only:)
  have f: "(of_nat (turn x r) :: u64) = 512 \<longleftrightarrow> turn x r = 512"
    unfolding word_unat_eq_iff u by simp
  show ?thesis
    by (subst ide_write_loop.simps) (simp only: pos of_nat_u64_div_mod [OF assms(4)] tw diff u z f Let_def if_True of_nat_add)
qed

section \<open>The contents of the disk as a stream\<close>

definition stream :: "(nat \<Rightarrow> u8 list) \<Rightarrow> nat \<Rightarrow> u8" where
  "stream d a = d (a div 512) ! (a mod 512)"

lemma stream_sector: "x mod 512 + k < 512 \<Longrightarrow> stream d (x + k) = d (x div 512) ! (x mod 512 + k)"
proof -
  assume k: "x mod 512 + k < 512"
  have "x + k = 512 * (x div 512) + (x mod 512 + k)" by simp
  then have "(x + k) div 512 = x div 512" "(x + k) mod 512 = x mod 512 + k"
    using k by (metis add.commute add_cancel_right_left div_less div_mult_self4 mod_less mod_mult_self4 zero_neq_numeral)+
  then show ?thesis by (simp add: stream_def)
qed

lemma stream_update:
  assumes "length (d (x div 512)) = 512" "x mod 512 + length v \<le> 512"
  shows "stream (d(x div 512 := take (x mod 512) (d (x div 512)) @ v @ drop (x mod 512 + length v) (d (x div 512)))) =
    replace_range (stream d) x v"
proof
  fix a :: nat
  let ?y = "x mod 512" and ?s = "x div 512" and ?b = "a mod 512"
  have x: "x = 512 * ?s + ?y" "a = 512 * (a div 512) + ?b" "?b < 512" by simp_all
  show "stream (d(?s := take ?y (d ?s) @ v @ drop (?y + length v) (d ?s))) a = replace_range (stream d) x v a"
  proof (cases "a div 512 = ?s")
    case True
    then have r: "x \<le> a \<longleftrightarrow> ?y \<le> ?b" "a < x + length v \<longleftrightarrow> ?b < ?y + length v" "a - x = ?b - ?y" using x by linarith+
    show ?thesis using True assms x(3) unfolding replace_range_def r
      by (auto simp: stream_def nth_append not_less)
  next
    case False
    have "\<not> (x \<le> a \<and> a < x + length v)"
    proof
      assume a: "x \<le> a \<and> a < x + length v"
      then have "512 * ?s \<le> a" "a < 512 * ?s + 512" using x(1) assms(2) by linarith+
      then have "a div 512 = ?s" by (intro div_nat_eqI) simp_all
      with False show False ..
    qed
    then show ?thesis using False by (auto simp: replace_range_def stream_def)
  qed
qed

lemma replace_range_Nil [simp]: "replace_range c x [] = c"
  by (rule ext) (auto simp: replace_range_def)

lemma replace_range_split:
  "n \<le> length v \<Longrightarrow> replace_range (replace_range c x (take n v)) (x + n) (drop n v) = replace_range c x v"
  by (rule ext) (auto simp: replace_range_def)

text \<open>A client's buffer of up to 64 KiB at \<open>Buf\<close>, the driver's at \<open>sb\<close> below 4 GiB, as
  the transfer takes 32 bits of its address; the two do not overlap.\<close>

definition buffers_ok :: "addr \<Rightarrow> addr \<Rightarrow> bool" where
  "buffers_ok Buf sb \<longleftrightarrow> Buf \<noteq> NULL \<and> sb \<noteq> NULL \<and> unat sb < 2 ^ 32 \<and>
     (\<forall>x < 65536. \<forall>y < 512. Buf + of_nat x \<noteq> sb + of_nat y)"

lemma buffers_address: "buffers_ok Buf sb \<Longrightarrow> ucast (ucast sb :: u32) = sb"
proof -
  assume "buffers_ok Buf sb"
  then have "unat sb < 2 ^ 32" by (simp add: buffers_ok_def)
  then have "unat (ucast (ucast sb :: u32) :: u64) = unat sb"
    by (simp add: unsigned_ucast_eq unsigned_take_bit_eq take_bit_nat_eq_self)
  then show ?thesis by (simp add: word_unat_eq_iff)
qed

lemma buffers_store:
  assumes "buffers_ok Buf sb" "length bs = 512"
  shows "x < 65536 \<Longrightarrow> store_bytes m sb bs (Buf + of_nat x) = m (Buf + of_nat x)"
    "y < 512 \<Longrightarrow> store_bytes m sb bs (sb + of_nat y) = bs ! y"
proof -
  assume x: "x < 65536"
  have "\<not> unat (Buf + of_nat x - sb) < 512"
  proof
    assume u: "unat (Buf + of_nat x - sb) < 512"
    then have "Buf + of_nat x = sb + of_nat (unat (Buf + of_nat x - sb))" by simp
    with u x assms(1) show False unfolding buffers_ok_def by blast
  qed
  then show "store_bytes m sb bs (Buf + of_nat x) = m (Buf + of_nat x)" using assms(2) by (simp add: store_bytes_def)
next
  assume "y < 512"
  then show "store_bytes m sb bs (sb + of_nat y) = bs ! y" using assms(2) by (simp add: store_bytes_def unat_of_nat)
qed

text \<open>A copy between the two buffers.\<close>

lemma copy_block:
  assumes "disjoint_blocks (D + of_nat k) (S + of_nat y) n" "k + n \<le> 65536" "j < 65536"
  shows "memcpy_loop (D + of_nat k) (S + of_nat y) n 0 m (D + of_nat j) =
    (if k \<le> j \<and> j < k + n then m (S + of_nat (y + (j - k))) else m (D + of_nat j))"
proof (cases "k \<le> j \<and> j < k + n")
  case True
  then have "j - k < n" by arith
  then have "memcpy_loop (D + of_nat k) (S + of_nat y) n 0 m (D + of_nat k + of_nat (j - k)) = m (S + of_nat y + of_nat (j - k))"
    using assms(1,2) by (intro memcpy_loop_closed) simp_all
  then show ?thesis using True by (simp add: add.assoc of_nat_add [symmetric] del: of_nat_add of_nat_diff)
next
  case False
  have u: "unat (of_nat j :: addr) = j" "unat (of_nat k :: addr) = k" using assms(2,3) by (simp_all add: unat_of_nat_addr)
  have e: "D + of_nat j - (D + of_nat k) = of_nat j - of_nat k" by simp
  have "n \<le> unat (D + of_nat j - (D + of_nat k))"
  proof (cases "k \<le> j")
    case True
    then show ?thesis using False u unat_sub_if_size [of "of_nat j :: addr" "of_nat k"]
      unfolding e by (simp add: word_le_nat_alt)
  next
    case k: False
    then have "unat (of_nat j - of_nat k :: addr) = j + 2 ^ 64 - k"
      using unat_sub_if_size [of "of_nat j :: addr" "of_nat k"] unfolding word_le_nat_alt u by (simp add: word_size)
    then show ?thesis using assms(2) unfolding e by simp
  qed
  then show ?thesis using False assms(2) by (subst memcpy_loop_below) auto
qed

lemma buffers_disjoint:
  assumes "buffers_ok Buf sb" "k + n \<le> 65536" "y + n \<le> 512"
  shows "disjoint_blocks (Buf + of_nat k) (sb + of_nat y) n" "disjoint_blocks (sb + of_nat y) (Buf + of_nat k) n"
proof -
  have "Buf + of_nat k + of_nat p \<noteq> sb + of_nat y + of_nat q" if "p < n" "q < n" for p q
  proof -
    have "\<forall>x < 65536. \<forall>y < 512. Buf + of_nat x \<noteq> sb + of_nat y" using assms(1) by (simp add: buffers_ok_def)
    from this [rule_format, of "k + p" "y + q"] assms(2,3) that have "Buf + of_nat (k + p) \<noteq> sb + of_nat (y + q)"
      by (simp del: of_nat_add)
    then show ?thesis by (simp add: add.assoc)
  qed
  then show "disjoint_blocks (Buf + of_nat k) (sb + of_nat y) n" "disjoint_blocks (sb + of_nat y) (Buf + of_nat k) n"
    unfolding disjoint_blocks_def by metis+
qed

lemma copy_in_frame:
  assumes "buffers_ok Buf sb" "y + n \<le> 512" "x < 65536"
  shows "memcpy_loop (sb + of_nat y) src n 0 m (Buf + of_nat x) = m (Buf + of_nat x)"
proof -
  let ?u = "unat (Buf + of_nat x - (sb + of_nat y))"
  have "n \<le> ?u"
  proof (rule ccontr)
    assume "\<not> n \<le> ?u"
    then have "y + ?u < 512" using assms(2) by simp
    moreover have "Buf + of_nat x = sb + of_nat (y + ?u)" by (simp add: add.assoc)
    ultimately show False using assms(1,3) unfolding buffers_ok_def by blast
  qed
  then show ?thesis using assms(2) by (intro memcpy_loop_below) auto
qed

text \<open>A sector over the driver's buffer to the client, and a changed sector back.\<close>

lemma copy_out_sector:
  assumes "buffers_ok Buf sb" "k + n \<le> 65536" "y + n \<le> 512" "j < 65536" "length bs = 512"
  shows "memcpy_loop (Buf + of_nat k) (sb + of_nat y) n 0 (store_bytes m sb bs) (Buf + of_nat j) =
    (if k \<le> j \<and> j < k + n then bs ! (y + (j - k)) else m (Buf + of_nat j))"
  using copy_block [OF buffers_disjoint(1) [OF assms(1-3)] assms(2,4)] buffers_store [OF assms(1,5)] assms(3,4)
  by (auto simp: not_less simp del: of_nat_add of_nat_diff)

lemma copy_in_sector:
  assumes "buffers_ok Buf sb" "k + n \<le> 65536" "y + n \<le> 512" "length bs = 512"
    "\<forall>j < n. m' (Buf + of_nat (k + j)) = m (Buf + of_nat (k + j))"
    "n = 512 \<or> (\<forall>j < 512. m' (sb + of_nat j) = bs ! j)"
  shows "load_bytes (memcpy_loop (sb + of_nat y) (Buf + of_nat k) n 0 m') sb 512 =
    take y bs @ map (\<lambda>j. m (Buf + of_nat (k + j))) [0..<n] @ drop (y + n) bs"
proof (rule nth_equalityI)
  fix j assume "j < length (load_bytes (memcpy_loop (sb + of_nat y) (Buf + of_nat k) n 0 m') sb 512)"
  then have j: "j < 512" by simp
  have "memcpy_loop (sb + of_nat y) (Buf + of_nat k) n 0 m' (sb + of_nat j) =
    (if y \<le> j \<and> j < y + n then m' (Buf + of_nat (k + (j - y))) else m' (sb + of_nat j))"
    using buffers_disjoint(2) [OF assms(1-3)] assms(3) j by (intro copy_block) simp_all
  moreover have "m' (Buf + of_nat (k + (j - y))) = m (Buf + of_nat (k + (j - y)))" if "y \<le> j \<and> j < y + n"
  proof -
    have "j - y < n" using that by arith
    then show ?thesis using assms(5) by blast
  qed
  moreover have "m' (sb + of_nat j) = bs ! j" if "\<not> (y \<le> j \<and> j < y + n)"
    using assms(3,6) that j by auto
  ultimately show "load_bytes (memcpy_loop (sb + of_nat y) (Buf + of_nat k) n 0 m') sb 512 ! j =
    (take y bs @ map (\<lambda>j. m (Buf + of_nat (k + j))) [0..<n] @ drop (y + n) bs) ! j"
    using j assms(3,4) by (auto simp: load_bytes_def nth_append not_less simp del: of_nat_add of_nat_diff)
qed (use assms(3,4) in simp)

section \<open>The byte device\<close>

text \<open>\<open>FileOffset\<close> set and \<^verbatim>\<open>ReadFunction\<close> or \<^verbatim>\<open>WriteFunction\<close>
  called for a buffer at \<open>Buf\<close>, as the drivers above do.\<close>

definition ide_drive :: "'h bus \<Rightarrow> addr \<Rightarrow> addr \<Rightarrow> addr \<Rightarrow> nat \<Rightarrow> 'h ide drive" where
  "ide_drive B sb Buf Node i =
     \<lparr>dread = (\<lambda>off n st. obind (IDEReadFunction B sb Buf (of_nat n) 1 Node i (st\<lparr>FileOffset := (FileOffset st)(i := off)\<rparr>))
        (\<lambda>(_, st1). Some (Inr (load_bytes (imem st1) Buf n, st1)))),
      dwrite = (\<lambda>off bs st. obind (IDEWriteFunction B sb Buf (of_nat (length bs)) 1 Node i
          (st\<lparr>FileOffset := (FileOffset st)(i := off), imem := store_bytes (imem st) Buf bs\<rparr>))
        (\<lambda>(_, st1). Some (Inr st1))),
      dprint = SerialPrint\<rparr>"

locale ata_drive = ata_disk B io ct slave sectors ok view
  for B :: "'h bus" and io ct :: u16 and slave :: bool and sectors :: nat
    and ok :: "'h \<Rightarrow> bool" and view :: "'h \<Rightarrow> ata" +
  fixes c i :: nat and sb Buf Node :: addr
  assumes buffers: "buffers_ok Buf sb" and node: "Node \<noteq> NULL" and size: "sectors < 2 ^ 32"
begin

definition holds :: "(nat \<Rightarrow> u8 list) \<Rightarrow> 'h ide \<Rightarrow> bool" where
  "holds d st \<longleftrightarrow> driven c i st \<and> idle (hw st) d"

lemma holds_frame [simp]:
  "holds d (st\<lparr>imem := m\<rparr>) = holds d st" "holds d (st\<lparr>package0 := p\<rparr>) = holds d st"
  "holds d (st\<lparr>FileOffset := f\<rparr>) = holds d st" "holds d (st\<lparr>console := t\<rparr>) = holds d st"
  by (simp_all add: holds_def)

lemma holds_length: "holds d st \<Longrightarrow> length (d n) = 512"
  using disk_ok by (auto simp: holds_def ata_idle_def ready_def)

lemma sector_word:
  assumes "s < sectors"
  shows "unat (ucast (of_nat s :: u64) :: u32) = s" "unat (of_nat s :: u64) = s"
proof -
  have s: "s < 2 ^ 32" using assms size by simp
  then show u: "unat (of_nat s :: u64) = s" by (simp add: unat_of_nat)
  show "unat (ucast (of_nat s :: u64) :: u32) = s" unfolding unsigned_ucast_eq u using s by (simp add: take_bit_nat_eq_self)
qed

lemma sector_inside:
  assumes "holds d st" "s < sectors"
  shows "of_nat s < (ucast (Size (IDEDevs st i)) :: u64)"
proof -
  have "unat (Size (IDEDevs st i)) = sectors" using assms(1) by (simp add: holds_def ata_driven_def)
  moreover have "sectors < 2 ^ 64" using size by simp
  ultimately have "unat (ucast (Size (IDEDevs st i)) :: u64) = sectors" by (simp add: unsigned_ucast_eq take_bit_nat_eq_self)
  then show ?thesis using assms(2) sector_word(2) by (simp add: word_less_nat_alt)
qed

lemma loaded:
  assumes "holds d st" "s < sectors"
  shows "\<exists>st1. load_sector B sb 512 i (of_nat s) st = Some (Inr st1) \<and> holds d st1 \<and>
    imem st1 = store_bytes (imem st) sb (d s) \<and> FileOffset st1 = FileOffset st"
proof -
  have h: "driven c i st" "idle (hw st) d" using assms(1) by (simp_all add: holds_def)
  obtain h1 where r: "IDEReadSectors B (of_nat i) 1 (ucast (of_nat s :: u64)) sb st =
      Some ((set_nIEN c st)\<lparr>hw := h1, imem := store_bytes (imem st) sb (d s), package0 := 0\<rparr>)" "idle h1 d"
    using sector_read [OF h, of "ucast (of_nat s :: u64)" sb] sector_word(1) [OF assms(2)] assms(2) buffers_address [OF buffers]
    by auto
  have "\<not> ucast (Size (IDEDevs st i)) \<le> (of_nat s :: u64)" using sector_inside [OF assms] by simp
  then show ?thesis using r h by (auto simp: load_sector_def holds_def)
qed

lemma written:
  assumes "holds d st" "s < sectors"
  shows "\<exists>st1. IDEWriteSectors B (of_nat i) 1 (ucast (of_nat s :: u64)) sb st = Some st1 \<and> package0 st1 = 0 \<and>
    holds (d(s := load_bytes (imem st) sb 512)) st1 \<and> imem st1 = imem st \<and> FileOffset st1 = FileOffset st"
proof -
  have h: "driven c i st" "idle (hw st) d" using assms(1) by (simp_all add: holds_def)
  then show ?thesis
    using sector_write [OF h, of "ucast (of_nat s :: u64)" sb] sector_word(1) [OF assms(2)] assms(2) buffers_address [OF buffers]
    by (auto simp: holds_def)
qed

lemma read_loop:
  assumes "holds d st" "r \<le> N" "N < 65536" "off + N \<le> 512 * sectors"
  shows "\<exists>st'. ide_read_loop B sb Buf 512 i (of_nat (off + (N - r))) (of_nat N) (of_nat r) st = Some (Inr st') \<and>
    holds d st' \<and> FileOffset st' = FileOffset st \<and>
    (\<forall>j < N. imem st' (Buf + of_nat j) = (if j < N - r then imem st (Buf + of_nat j) else stream d (off + j)))"
  using assms
proof (induction r arbitrary: st rule: less_induct)
  case (less r)
  show ?case
  proof (cases "r = 0")
    case True
    then show ?thesis using less.prems by (subst ide_read_loop.simps) auto
  next
    case False
    define x n where "x = off + (N - r)" and "n = turn x r"
    have n: "0 < n" "n \<le> r" "x mod 512 + n \<le> 512" using turn_bounds [of r x] False by (simp_all add: n_def)
    have x: "x < 512 * sectors" "x < 2 ^ 64" using less.prems(2,4) False size by (simp_all add: x_def)
    then have s: "x div 512 < sectors" by (simp add: less_mult_imp_div_less mult.commute)
    obtain st1 where st1: "load_sector B sb 512 i (of_nat (x div 512)) st = Some (Inr st1)" "holds d st1"
      "imem st1 = store_bytes (imem st) sb (d (x div 512))" "FileOffset st1 = FileOffset st"
      using loaded [OF less.prems(1) s] by blast
    define st2 where "st2 = st1\<lparr>imem := memcpy_loop (Buf + of_nat (N - r)) (sb + of_nat (x mod 512)) n 0 (imem st1)\<rparr>"
    have "r - n < r" "r - n \<le> N" using n less.prems(2) by auto
    with less.IH [of "r - n" st2] st1(2) less.prems(3,4) obtain st' where st':
      "ide_read_loop B sb Buf 512 i (of_nat (off + (N - (r - n)))) (of_nat N) (of_nat (r - n)) st2 = Some (Inr st')"
      "holds d st'" "FileOffset st' = FileOffset st2"
      "\<forall>j < N. imem st' (Buf + of_nat j) = (if j < N - (r - n) then imem st2 (Buf + of_nat j) else stream d (off + j))"
      by (auto simp: st2_def)
    have xn: "off + (N - (r - n)) = x + n" "N - (r - n) = N - r + n" using n less.prems(2) by (simp_all add: x_def)
    have m2: "imem st2 (Buf + of_nat j) =
        (if N - r \<le> j \<and> j < N - r + n then d (x div 512) ! (x mod 512 + (j - (N - r))) else imem st (Buf + of_nat j))" if "j < N" for j
      unfolding st2_def using st1(3) n less.prems(2,3) that holds_length [OF st1(2)]
      by (simp add: copy_out_sector [OF buffers] del: of_nat_diff)
    have new: "imem st2 (Buf + of_nat j) = stream d (off + j)" if "N - r \<le> j" "j < N - r + n" for j
    proof -
      have "j < N" "off + j = x + (j - (N - r))" "x mod 512 + (j - (N - r)) < 512" using that n less.prems(2) by (auto simp: x_def)
      then show ?thesis using m2 [of j] stream_sector [of x "j - (N - r)" d] that by simp
    qed
    have "\<forall>j < N. imem st' (Buf + of_nat j) = (if j < N - r then imem st (Buf + of_nat j) else stream d (off + j))"
    proof (intro allI impI)
      fix j assume j: "j < N"
      note e = st'(4) [unfolded xn(2), rule_format, OF j]
      show "imem st' (Buf + of_nat j) = (if j < N - r then imem st (Buf + of_nat j) else stream d (off + j))"
      proof (cases "j < N - r")
        case True
        then have "j < N - r + n" "\<not> N - r \<le> j" by simp_all
        then show ?thesis using e m2 [OF j] True by (simp only: if_True if_False simp_thms)
      next
        case False
        then have "N - r \<le> j" by simp
        then show ?thesis using e new [of j] False by (cases "j < N - r + n") (simp_all only: if_True if_False simp_thms)
      qed
    qed
    moreover have "ide_read_loop B sb Buf 512 i (of_nat x) (of_nat N) (of_nat r) st = Some (Inr st')"
      using ide_read_turn [of r N x B sb Buf i st, folded n_def] False less.prems(2,3) x(2) st1(1)
        st'(1) [unfolded xn(1) st2_def] by (simp del: of_nat_add of_nat_diff)
    ultimately show ?thesis using st' st1(4) by (auto simp: x_def st2_def)
  qed
qed

lemma write_turn:
  assumes "holds d st" "k + n \<le> N" "N < 65536" "x mod 512 + n \<le> 512" "x < 512 * sectors" "length bs = N"
    "\<forall>j < N. imem st (Buf + of_nat j) = bs ! j"
  shows "\<exists>st1 st4. (if x mod 512 \<noteq> 0 \<or> n \<noteq> 512 then load_sector B sb 512 i (of_nat (x div 512)) st else Some (Inr st)) = Some (Inr st1) \<and>
    Size (IDEDevs st1 i) = Size (IDEDevs st i) \<and>
    IDEWriteSectors B (of_nat i) 1 (ucast (of_nat (x div 512) :: u64)) sb
      (st1\<lparr>imem := memcpy_loop (sb + of_nat (x mod 512)) (Buf + of_nat k) n 0 (imem st1)\<rparr>) = Some st4 \<and> package0 st4 = 0 \<and>
    (\<exists>d'. holds d' st4 \<and> stream d' = replace_range (stream d) x (take n (drop k bs))) \<and>
    FileOffset st4 = FileOffset st \<and> (\<forall>j < N. imem st4 (Buf + of_nat j) = bs ! j)"
proof -
  have s: "x div 512 < sectors" using assms(5) by (simp add: less_mult_imp_div_less mult.commute)
  let ?d = "d (x div 512)"
  have len: "length ?d = 512" using holds_length [OF assms(1)] .
  obtain st1 where st1: "(if x mod 512 \<noteq> 0 \<or> n \<noteq> 512 then load_sector B sb 512 i (of_nat (x div 512)) st else Some (Inr st)) = Some (Inr st1)"
    "holds d st1" "FileOffset st1 = FileOffset st" "imem st1 = imem st \<and> n = 512 \<or> imem st1 = store_bytes (imem st) sb ?d"
  proof (cases "x mod 512 \<noteq> 0 \<or> n \<noteq> 512")
    case True
    with loaded [OF assms(1) s] that show ?thesis by auto
  next
    case False
    with assms(1) that show ?thesis by auto
  qed
  have same: "imem st1 (Buf + of_nat j) = imem st (Buf + of_nat j)" if "j < 65536" for j
    using st1(4) buffers_store(1) [OF buffers len that] by auto
  have own: "n = 512 \<or> (\<forall>j < 512. imem st1 (sb + of_nat j) = ?d ! j)"
    using st1(4) buffers_store(2) [OF buffers len] by auto
  define st2 where "st2 = st1\<lparr>imem := memcpy_loop (sb + of_nat (x mod 512)) (Buf + of_nat k) n 0 (imem st1)\<rparr>"
  define v where "v = take n (drop k bs)"
  have v: "length v = n" "map (\<lambda>j. imem st (Buf + of_nat (k + j))) [0..<n] = v"
    using assms(2,6,7) by (auto simp: v_def intro!: nth_equalityI simp del: of_nat_add)
  have "load_bytes (imem st2) sb 512 = take (x mod 512) ?d @ v @ drop (x mod 512 + n) ?d"
    using copy_in_sector [OF buffers, of k n "x mod 512" ?d "imem st1" "imem st"] assms(2-4) len same own v(2)
    by (simp add: st2_def del: of_nat_add)
  moreover have "holds d st2" using st1(2) by (simp add: st2_def)
  ultimately obtain st4 where st4: "IDEWriteSectors B (of_nat i) 1 (ucast (of_nat (x div 512) :: u64)) sb st2 = Some st4"
    "package0 st4 = 0" "holds (d(x div 512 := take (x mod 512) ?d @ v @ drop (x mod 512 + n) ?d)) st4"
    "imem st4 = imem st2" "FileOffset st4 = FileOffset st2"
    using written [of d st2 "x div 512"] s by auto
  have "\<forall>j < N. imem st4 (Buf + of_nat j) = bs ! j"
    using st4(4) copy_in_frame [OF buffers assms(4)] same assms(3,7) by (simp add: st2_def)
  moreover have "Size (IDEDevs st1 i) = Size (IDEDevs st i)"
    using st1(2) assms(1) by (simp add: holds_def ata_driven_def word_unat_eq_iff)
  moreover have "stream (d(x div 512 := take (x mod 512) ?d @ v @ drop (x mod 512 + n) ?d)) = replace_range (stream d) x v"
    using stream_update [of d x v] len v(1) assms(4) by simp
  ultimately show ?thesis using st1(1,3) st4 unfolding st2_def v_def by auto
qed

lemma write_loop:
  assumes "holds d st" "r \<le> N" "N < 65536" "off + N \<le> 512 * sectors" "length bs = N"
    "\<forall>j < N. imem st (Buf + of_nat j) = bs ! j"
  shows "\<exists>st' d'. ide_write_loop B sb Buf i (of_nat (off + (N - r))) (of_nat N) (of_nat r) st = Some (Inr st') \<and>
    holds d' st' \<and> FileOffset st' = FileOffset st \<and> stream d' = replace_range (stream d) (off + (N - r)) (drop (N - r) bs)"
  using assms
proof (induction r arbitrary: st d rule: less_induct)
  case (less r)
  show ?case
  proof (cases "r = 0")
    case True
    then show ?thesis using less.prems by (subst ide_write_loop.simps) auto
  next
    case False
    define x k n where "x = off + (N - r)" and "k = N - r" and "n = turn x r"
    have n: "n \<le> r" "x mod 512 + n \<le> 512" "0 < n" using turn_bounds [of r x] False by (simp_all add: n_def)
    have x: "x < 512 * sectors" "x < 2 ^ 64" using less.prems(2,4) False size by (simp_all add: x_def)
    then have s: "x div 512 < sectors" by (simp add: less_mult_imp_div_less mult.commute)
    have kn: "k + n \<le> N" using n(1) less.prems(2) by (simp add: k_def)
    from write_turn [OF less.prems(1) kn less.prems(3) n(2) x(1) less.prems(5,6)] obtain st1 st4 d4 where
      l: "(if x mod 512 \<noteq> 0 \<or> n \<noteq> 512 then load_sector B sb 512 i (of_nat (x div 512)) st else Some (Inr st)) = Some (Inr st1)"
      "Size (IDEDevs st1 i) = Size (IDEDevs st i)" and
      w: "IDEWriteSectors B (of_nat i) 1 (ucast (of_nat (x div 512) :: u64)) sb
        (st1\<lparr>imem := memcpy_loop (sb + of_nat (x mod 512)) (Buf + of_nat k) n 0 (imem st1)\<rparr>) = Some st4" "package0 st4 = 0" and
      st4: "holds d4 st4" "stream d4 = replace_range (stream d) x (take n (drop k bs))" "FileOffset st4 = FileOffset st"
        "\<forall>j < N. imem st4 (Buf + of_nat j) = bs ! j" by blast
    have "of_nat (x div 512) < (ucast (Size (IDEDevs st1 i)) :: u64)" using l(2) sector_inside [OF less.prems(1) s] by simp
    then have t: "ide_write_loop B sb Buf i (of_nat x) (of_nat N) (of_nat r) st =
        ide_write_loop B sb Buf i (of_nat (x + n)) (of_nat N) (of_nat (r - n)) st4"
      using ide_write_turn [of r N x B sb Buf i st, folded n_def k_def] l(1) w False less.prems(2,3) x(2)
      by (simp add: Let_def del: of_nat_add of_nat_diff)
    have "r - n < r" "r - n \<le> N" using n less.prems(2) by auto
    with less.IH [of "r - n" d4 st4] st4 less.prems(3-5) obtain st' d' where st':
      "ide_write_loop B sb Buf i (of_nat (off + (N - (r - n)))) (of_nat N) (of_nat (r - n)) st4 = Some (Inr st')"
      "holds d' st'" "FileOffset st' = FileOffset st4"
      "stream d' = replace_range (stream d4) (off + (N - (r - n))) (drop (N - (r - n)) bs)" by auto
    have xn: "off + (N - (r - n)) = x + n" "N - (r - n) = k + n" using n less.prems(2) by (simp_all add: x_def k_def)
    have xk: "off + (k + n) = x + n" by (simp add: x_def k_def)
    have "n \<le> length (drop k bs)" using kn less.prems(5) by simp
    then have "stream d' = replace_range (stream d) x (drop k bs)"
      using st'(4) st4(2) replace_range_split [of n "drop k bs" "stream d" x] unfolding xn by (simp add: xk add.commute)
    moreover have "ide_write_loop B sb Buf i (of_nat x) (of_nat N) (of_nat r) st = Some (Inr st')"
      using st'(1) unfolding t xn(1) .
    ultimately show ?thesis using st'(2,3) st4(3) by (auto simp: x_def k_def)
  qed
qed

lemma present:
  assumes "holds d st"
  shows "\<exists>h. IsDrivePresent B (of_nat i) st = (True, st\<lparr>hw := h\<rparr>) \<and> holds d (st\<lparr>hw := h\<rparr>)"
  using drive_present [of c i st d] assms by (auto simp: holds_def)

lemma length_one: "0 < n \<Longrightarrow> n < 65536 \<Longrightarrow> (of_nat n :: u64) \<noteq> 0"
  using of_nat_u64_less [of 0 n] by auto

lemma read_function:
  assumes "holds d st" "0 < n" "n < 65536" "unat (FileOffset st i) + n \<le> 512 * sectors"
  shows "\<exists>st'. IDEReadFunction B sb Buf (of_nat n) 1 Node i st = Some (Inr (1, st')) \<and> holds d st' \<and>
    load_bytes (imem st') Buf n = range_of (stream d) (unat (FileOffset st i)) n \<and>
    FileOffset st' i = FileOffset st i + of_nat n"
proof -
  obtain h where h: "IsDrivePresent B (of_nat i) st = (True, st\<lparr>hw := h\<rparr>)" "holds d (st\<lparr>hw := h\<rparr>)"
    using present [OF assms(1)] by blast
  let ?off = "unat (FileOffset st i)"
  obtain st1 where st1: "ide_read_loop B sb Buf 512 i (of_nat ?off) (of_nat n) (of_nat n) (st\<lparr>hw := h\<rparr>) = Some (Inr st1)"
    "holds d st1" "FileOffset st1 = FileOffset st" "\<forall>j < n. imem st1 (Buf + of_nat j) = stream d (?off + j)"
    using read_loop [OF h(2) order_refl assms(3,4)] by auto
  have "Type (IDEDevs st i) = IDE_ATA" using assms(1) by (simp add: holds_def ata_driven_def)
  moreover have "load_bytes (imem st1) Buf n = range_of (stream d) ?off n"
    using st1(4) by (intro nth_equalityI) (simp_all add: load_bytes_def)
  ultimately show ?thesis
    using h(1) st1 buffers node length_one [OF assms(2,3)]
    by (simp add: IDEReadFunction_def buffers_ok_def IDE_ATA_def IDE_ATAPI_def advance_def holds_def)
qed

lemma write_function:
  assumes "holds d st" "bs \<noteq> []" "length bs < 65536" "unat (FileOffset st i) + length bs \<le> 512 * sectors"
    "load_bytes (imem st) Buf (length bs) = bs"
  shows "\<exists>st' d'. IDEWriteFunction B sb Buf (of_nat (length bs)) 1 Node i st = Some (Inr (1, st')) \<and> holds d' st' \<and>
    stream d' = replace_range (stream d) (unat (FileOffset st i)) bs \<and>
    FileOffset st' i = FileOffset st i + of_nat (length bs)"
proof -
  obtain h where h: "IsDrivePresent B (of_nat i) st = (True, st\<lparr>hw := h\<rparr>)" "holds d (st\<lparr>hw := h\<rparr>)"
    using present [OF assms(1)] by blast
  let ?off = "unat (FileOffset st i)"
  have b: "\<forall>j < length bs. imem (st\<lparr>hw := h\<rparr>) (Buf + of_nat j) = bs ! j"
  proof (intro allI impI)
    fix j assume "j < length bs"
    then have "load_bytes (imem st) Buf (length bs) ! j = imem st (Buf + of_nat j)" by (simp add: load_bytes_def)
    with assms(5) show "imem (st\<lparr>hw := h\<rparr>) (Buf + of_nat j) = bs ! j" by simp
  qed
  obtain st1 d1 where st1: "ide_write_loop B sb Buf i (of_nat ?off) (of_nat (length bs)) (of_nat (length bs)) (st\<lparr>hw := h\<rparr>) =
      Some (Inr st1)" "holds d1 st1" "FileOffset st1 = FileOffset st" "stream d1 = replace_range (stream d) ?off bs"
    using write_loop [OF h(2) order_refl assms(3,4) refl b] by auto
  have "Type (IDEDevs st i) = IDE_ATA" using assms(1) by (simp add: holds_def ata_driven_def)
  then show ?thesis
    using h(1) st1 buffers node length_one [of "length bs"] assms(2,3)
    by (auto simp: IDEWriteFunction_def buffers_ok_def IDE_ATA_def IDE_ATAPI_def advance_def holds_def)
qed

lemma holds_disk: "holds d st \<Longrightarrow> disk (view (hw st)) = d"
  by (simp add: holds_def ata_idle_def)

sublocale drive: byte_device "ide_drive B sb Buf Node i" "\<lambda>st. \<exists>d. holds d st" "\<lambda>st. stream (disk (view (hw st)))"
  "\<lambda>st. 512 * sectors"
proof unfold_locales
  fix st :: "'h ide" and n and off :: u64
  assume "\<exists>d. holds d st" and n: "0 < n" "n < 65536" "unat off + n \<le> 512 * sectors"
  then obtain d where d: "holds d st" by blast
  let ?st = "st\<lparr>FileOffset := (FileOffset st)(i := off)\<rparr>"
  obtain st' where "IDEReadFunction B sb Buf (of_nat n) 1 Node i ?st = Some (Inr (1, st'))" "holds d st'"
    "load_bytes (imem st') Buf n = range_of (stream d) (unat off) n"
    using read_function [of d ?st n] d n by auto
  then show "\<exists>d'. dread (ide_drive B sb Buf Node i) off n st =
      Some (Inr (range_of (stream (disk (view (hw st)))) (unat off) n, d')) \<and>
      (\<exists>d. holds d d') \<and> stream (disk (view (hw d'))) = stream (disk (view (hw st))) \<and> 512 * sectors = 512 * sectors"
    using d holds_disk by (auto simp: ide_drive_def)
next
  fix st :: "'h ide" and bs :: "u8 list" and off :: u64
  assume "\<exists>d. holds d st" and n: "bs \<noteq> []" "length bs < 65536" "unat off + length bs \<le> 512 * sectors"
  then obtain d where d: "holds d st" by blast
  let ?st = "st\<lparr>FileOffset := (FileOffset st)(i := off), imem := store_bytes (imem st) Buf bs\<rparr>"
  have "load_bytes (imem ?st) Buf (length bs) = bs" using n(2) by (simp add: load_store_same)
  then obtain st' d' where "IDEWriteFunction B sb Buf (of_nat (length bs)) 1 Node i ?st = Some (Inr (1, st'))" "holds d' st'"
    "stream d' = replace_range (stream d) (unat off) bs"
    using write_function [of d ?st bs] d n by auto
  then show "\<exists>d'. dwrite (ide_drive B sb Buf Node i) off bs st = Some (Inr d') \<and> (\<exists>d. holds d d') \<and>
      stream (disk (view (hw d'))) = replace_range (stream (disk (view (hw st)))) (unat off) bs \<and> 512 * sectors = 512 * sectors"
    using d holds_disk by (auto simp: ide_drive_def)
next
  fix st :: "'h ide" and str :: string
  assume "\<exists>d. holds d st"
  then show "(\<exists>d. holds d (dprint (ide_drive B sb Buf Node i) str st)) \<and>
      stream (disk (view (hw (dprint (ide_drive B sb Buf Node i) str st)))) = stream (disk (view (hw st))) \<and>
      512 * sectors = 512 * sectors"
    by (auto simp: ide_drive_def SerialPrint_def)
qed

lemma device: "byte_device (ide_drive B sb Buf Node i) (\<lambda>st. \<exists>d. holds d st) (\<lambda>st. stream (disk (view (hw st)))) (\<lambda>st. 512 * sectors)"
  by unfold_locales

end

section \<open>A disk\<close>

text \<open>An automaton with these laws, on the ports of the first channel in compatibility mode: after
  a command the status is busy twice.\<close>

definition sim_bus :: "nat \<Rightarrow> bool \<Rightarrow> ata bus" where
  "sim_bus sectors slave =
     \<lparr>inb = (\<lambda>p a. if p = 0x1F7 then
               (if waiting a \<noteq> 0 then (0xD0, a\<lparr>waiting := waiting a - 1\<rparr>) else (if phase a = Idle then 0x50 else 0x58, a))
             else (0, a)),
      outb = (\<lambda>p v a. if p = 0x1F7 then
               (case ata_starts sectors slave v a of Some ph \<Rightarrow> a\<lparr>phase := ph, waiting := 2\<rparr> | None \<Rightarrow> a)
             else if 0x1F2 \<le> p \<and> p \<le> 0x1F6 then ata_reg (unat p - 0x1F0) v a else a),
      inw = (\<lambda>p a. case phase a of DataIn (w # ws) \<Rightarrow> if p = 0x1F0 then (w, ata_word_in a) else (0, a) | _ \<Rightarrow> (0, a)),
      outw = (\<lambda>p w a. if p = 0x1F0 then ata_word_out w a else a),
      inl = (\<lambda>p a. (0, a)), outl = (\<lambda>p v a. a), delay = (\<lambda>n a. a)\<rparr>"

definition sim_ok :: "ata \<Rightarrow> bool" where
  "sim_ok a \<longleftrightarrow> (\<forall>n. length (disk a n) = 512)"

lemma sim_regs: "k \<in> {2..6} \<Longrightarrow> outb (sim_bus sectors slave) (0x1F0 + of_nat k) v a = ata_reg k v a"
proof -
  assume "k \<in> {2..6}"
  then have "k = 2 \<or> k = 3 \<or> k = 4 \<or> k = 5 \<or> k = 6" by auto
  then show ?thesis by (elim disjE) (simp_all add: sim_bus_def)
qed

lemma sim_status_bits:
  "bit (0xD0 :: u8) 7" "\<not> bit (0x50 :: u8) 7" "\<not> bit (0x50 :: u8) 5" "\<not> bit (0x50 :: u8) 0" "\<not> bit (0x50 :: u8) 3"
  "\<not> bit (0x58 :: u8) 7" "\<not> bit (0x58 :: u8) 5" "\<not> bit (0x58 :: u8) 0" "bit (0x58 :: u8) 3"
  by (simp_all add: bit_iff_odd)

lemma sim_disk: "ata_disk (sim_bus sectors slave) 0x1F0 0x3F6 slave sectors sim_ok (\<lambda>a. a)"
proof (rule ata_disk.intro, goal_cases)
  case (1 h n)
  then show ?case by (simp add: sim_bus_def quieter_def)
next
  case (2 h v h')
  then show ?case by (simp add: sim_bus_def quieter_def)
next
  case (3 h v)
  then show ?case by (simp add: sim_bus_def quieter_def)
next
  case (4 h v h')
  then show ?case using sim_status_bits by (auto simp: sim_bus_def quieter_def sim_ok_def split: if_splits)
next
  case (5 h v h')
  then show ?case using sim_status_bits by (auto simp: sim_bus_def split: if_splits)
next
  case (6 h k v)
  then show ?case by (simp add: sim_regs) (simp add: sim_ok_def ata_reg_def)
next
  case (7 h cmd p)
  then show ?case by (simp add: sim_bus_def sim_ok_def)
next
  case (8 h w ws)
  then show ?case by (simp add: sim_bus_def sim_ok_def ata_word_in_def)
next
  case (9 h n ws w)
  then show ?case by (auto simp: sim_bus_def sim_ok_def ata_word_out_def)
next
  case (10 h n)
  then show ?case by (simp add: sim_ok_def)
qed

lemma sim_buffers: "buffers_ok 0x100000 0x1000"
proof -
  have "(0x100000 + of_nat x :: addr) \<noteq> 0x1000 + of_nat y" if "x < 65536" "y < 512" for x y
  proof
    assume "(0x100000 + of_nat x :: addr) = 0x1000 + of_nat y"
    then have "(of_nat (0x100000 + x) :: addr) = of_nat (0x1000 + y)" by simp
    then have "unat (of_nat (0x100000 + x) :: addr) = unat (of_nat (0x1000 + y) :: addr)" by (rule arg_cong)
    then have "0x100000 + x = 0x1000 + y" using that by (subst (asm) (1 2) unat_of_nat_addr) simp_all
    with that show False by simp
  qed
  then show ?thesis by (simp add: buffers_ok_def)
qed

lemma sim_drive: "ata_drive (sim_bus 8 False) 0x1F0 0x3F6 False 8 sim_ok (\<lambda>a. a) 0x1000 0x100000 0x2000"
  by (intro ata_drive.intro sim_disk ata_drive_axioms.intro sim_buffers) simp_all

interpretation hda: ata_drive "sim_bus 8 False" "0x1F0" "0x3F6" False 8 sim_ok "\<lambda>a. a" 0 0 "0x1000" "0x100000" "0x2000"
  by (rule sim_drive)

section \<open>The properties of the driver\<close>

text \<open>
  The address registers the driver programs name the sector it was asked for, on the drive it
  was asked for: all of the 32-bit numbers with 48-bit addressing from \<open>2\<^sup>2\<^sup>8\<close> on, all
  smaller ones with 28 bits, and on a drive without LBA the number modulo 66060288, as the cylinder
  is cut to 16 bits.
\<close>

theorem lba_registers_name_sector:
  "let regs = lba_registers lba caps; r = reg (selected (push_bit 4 (of_bool slave)) n regs a)
   in bit (fst (r 6)) 4 = slave \<and>
      ata_sector (fst regs = 2) r = (if fst regs = 0 then unat lba mod 66060288 else unat lba)"
proof -
  have sl: "push_bit 4 (of_bool slave) = (if slave then 0x10 else 0 :: u8)" by (simp add: push_bit_eq_mult)
  from selected_sector [OF sl, where lba = lba and caps = caps and n = n and a = a] show ?thesis unfolding Let_def by blast
qed


definition sim_ide :: "(nat \<Rightarrow> u8 list) \<Rightarrow> memory \<Rightarrow> u64 \<Rightarrow> ata ide" where
  "sim_ide d m off =
     \<lparr>hw = \<lparr>waiting = 0, reg = (\<lambda>k. (0, 0)), phase = Idle, disk = d\<rparr>, Dev = None,
      IDEDevs = (\<lambda>i. \<lparr>Reserved = 1, Channel = 0, Drive = 0, Type = IDE_ATA, Signature = 0, Capabilities = 0x200,
        CommandSets = 0, Size = 8, Model = []\<rparr>),
      Channels = (\<lambda>c. \<lparr>base = 0x1F0, ctrl = 0x3F6, bmide = 0, nIEN = 0\<rparr>), Buff = [], package0 = 0, atapi_packet = [],
      imem = m, FileOffset = (\<lambda>i. off), console = [], created = []\<rparr>"

lemma sim_ide_driven: "ata_driven 0x1F0 0x3F6 False 8 0 0 (sim_ide d m off)"
  by (simp add: ata_driven_def sim_ide_def)

lemma sim_ide_idle: "(\<And>n. length (d n) = 512) \<Longrightarrow> ata_idle sim_ok (\<lambda>a. a) (hw (sim_ide d m off)) d"
  by (simp add: ata_idle_def sim_ide_def sim_ok_def)




end
