(* ===== verification/Storage.thy ===== *)
theory Storage
  imports Fat IdeDrive
begin

text \<open>
  The FAT driver on an IDE drive: the file system's operations with \<open>ide_drive\<close> as their device,
  and what becomes of errors and of the control register between the two.
\<close>

section \<open>Files on an IDE drive\<close>


definition example_sectors :: "nat \<Rightarrow> u8 list" where
  "example_sectors n = map (\<lambda>k. example_disk (512 * n + k)) [0..<512]"

lemma stream_example: "stream example_sectors = example_disk"
  by (rule ext) (simp add: stream_def example_sectors_def)

lemma example_volume_on_disk: "fat_volume example_volume (512 * 8) 2 3"
  using example_volume_ok by (simp add: fat_volume_def)


section \<open>Errors\<close>

text \<open>
  A sector that cannot be read is delivered as zeros: whatever \<^verbatim>\<open>IDEReadSectors\<close>
  reports, \<^verbatim>\<open>IDEReadFunction\<close> returns the number of elements asked for, as for a success.
\<close>

theorem IDEReadFunction_hides_errors:
  assumes "buffers_ok Buf sb" "Node \<noteq> NULL" "0 < n" "unat (FileOffset st i) mod 512 + n \<le> 512"
    and "IsDrivePresent B (of_nat i) st = (True, st1)" "FileOffset st1 = FileOffset st" "Type (IDEDevs st1 i) = IDE_ATA"
    and "unat (FileOffset st i) div 512 < unat (Size (IDEDevs st1 i))"
    and "IDEReadSectors B (of_nat i) 1 (of_nat (unat (FileOffset st i) div 512)) sb st1 = Some st2" "package0 st2 \<noteq> 0"
    and "FileOffset st2 = FileOffset st"
  shows "\<exists>st3. IDEReadFunction B sb Buf (of_nat n) 1 Node i st = Some (Inr (1, st3)) \<and>
     load_bytes (imem st3) Buf n = replicate n 0 \<and> FileOffset st3 i = FileOffset st i + of_nat n"
proof -
  let ?x = "unat (FileOffset st i)"
  have n: "n < 65536" "n \<le> 512" using assms(4) by auto
  have x: "?x < 2 ^ 64" using unsigned_less [of "FileOffset st i"] by simp
  have t: "turn ?x n = n" using assms(4) by (auto simp: turn_def)
  have s: "?x div 512 < 2 ^ 32"
  proof -
    have "unat (Size (IDEDevs st1 i)) < 2 ^ LENGTH(32)" by (rule unsigned_less)
    with assms(8) show ?thesis by simp
  qed
  have us: "unat (of_nat (?x div 512) :: u64) = ?x div 512" using s by (simp add: unat_of_nat)
  have uc: "(ucast (of_nat (?x div 512) :: u64) :: u32) = of_nat (?x div 512)"
    using s by (simp add: word_unat_eq_iff unsigned_ucast_eq unat_of_nat take_bit_nat_eq_self)
  have "unat (ucast (Size (IDEDevs st1 i)) :: u64) = unat (Size (IDEDevs st1 i))" by (simp add: unsigned_ucast_eq unat_mono)
  then have inside: "\<not> ucast (Size (IDEDevs st1 i)) \<le> (of_nat (?x div 512) :: u64)"
    using assms(8) us by (simp add: word_le_nat_alt)
  let ?zero = "\<lambda>a. if unat (a - sb) < 512 then 0 else imem st2 a"
  have sb: "sb \<noteq> NULL" "Buf \<noteq> NULL" using assms(1) by (simp_all add: buffers_ok_def)
  have z: "zero_buffer sb 512 st2 = Inr (st2\<lparr>imem := ?zero\<rparr>)"
    using memset_eq [of sb 512 0 "imem st2"] sb by (simp add: zero_buffer_def cong del: if_weak_cong)
  have l: "load_sector B sb 512 i (of_nat (?x div 512)) st1 = Some (Inr (st2\<lparr>imem := ?zero, package0 := 0\<rparr>))"
    using inside assms(9,10) z uc by (simp add: load_sector_def)
  let ?m = "memcpy_loop (Buf + of_nat 0) (sb + of_nat (?x mod 512)) n 0 ?zero"
  have "ide_read_loop B sb Buf 512 i (of_nat ?x) (of_nat n) (of_nat n) st1 = Some (Inr (st2\<lparr>imem := ?m, package0 := 0\<rparr>))"
    using ide_read_turn [of n n ?x B sb Buf i st1] assms(3) n x l t
    by (simp add: ide_read_loop.simps [of B sb Buf 512 i _ _ 0])
  moreover have "load_bytes ?m Buf n = replicate n 0"
  proof (rule nth_equalityI)
    fix j assume "j < length (load_bytes ?m Buf n)"
    then have j: "j < n" by simp
    then have "?m (Buf + of_nat j) = ?zero (sb + of_nat (?x mod 512 + (j - 0)))"
      using copy_block [OF buffers_disjoint(1) [OF assms(1), of 0 n "?x mod 512"], of j ?zero] assms(4) n by simp
    also have "\<dots> = 0" using j assms(4) by (simp add: unat_of_nat del: of_nat_add)
    finally show "load_bytes ?m Buf n ! j = replicate n 0 ! j" using j by (simp add: load_bytes_def)
  qed simp
  moreover have "(of_nat n :: u64) \<noteq> 0" using of_nat_u64_less [of 0 n] assms(3) n by auto
  ultimately show ?thesis
    using assms sb by (simp add: IDEReadFunction_def advance_def IDE_ATA_def IDE_ATAPI_def)
qed

text \<open>A drive that answers every command with an uncorrectable error.\<close>

definition fault_bus :: "ata bus" where
  "fault_bus = (sim_bus 8 False)
     \<lparr>inb := (\<lambda>p a. (if p = 0x1F7 then 0x41 else if p = 0x1F1 then 0x40 else 0, a)), outb := (\<lambda>p v a. a)\<rparr>"

lemma fault_reg_out [simp]: "reg_out fault_bus c r v st = st"
  by (simp add: reg_out_def fault_bus_def split: option.splits)

lemma fault_reg_in [simp]: "snd (reg_in fault_bus c r st) = st"
  by (simp add: reg_in_def fault_bus_def split: option.splits)

lemma fault_write [simp]: "IDEWrite fault_bus c r v st = st"
  by (simp add: IDEWrite_def hob_on_def hob_off_def)

lemma fault_status:
  assumes "base (Channels st c) = 0x1F0"
  shows "IDERead fault_bus c ATA_REG_STATUS st = (0x41, st)" "IDERead fault_bus c ATA_REG_ERROR st = (0x40, st)"
  using assms by (simp_all add: IDERead_def hob_on_def hob_off_def reg_in_def fault_bus_def reg_port_def ata_regs high_register_def)

lemma fault_altstatus [simp]: "snd (IDERead fault_bus c r st) = st"
  by (simp add: IDERead_def hob_on_def hob_off_def split: prod.splits)

lemma fault_read_altstatus [simp]: "read_altstatus fault_bus c n st = st"
  by (induction n) simp_all

lemma fault_wait: "base (Channels st c) = 0x1F0 \<Longrightarrow> IDEWaitNotBusy fault_bus c st = Some st"
  by (subst IDEWaitNotBusy.simps) (simp add: fault_status ATA_SR_BSY_def)

lemma fault_poll: "base (Channels st c) = 0x1F0 \<Longrightarrow> IDEPolling fault_bus c True st = Some (2, st)"
  by (simp add: IDEPolling_def fault_wait fault_status ATA_SR_ERR_def)

lemma fault_present:
  "IsDrivePresent fault_bus 0 (sim_ide d m off) = (True, sim_ide d m off)"
  by (simp add: IsDrivePresent_def sim_ide_def fault_status dev_channel_def Let_def Delay_def) (simp add: fault_bus_def sim_bus_def)

lemma fault_sector:
  "\<exists>st2. IDEReadSectors fault_bus 0 1 0 sb (sim_ide d m off) = Some st2 \<and> package0 st2 = 22 \<and> FileOffset st2 = (\<lambda>i. off)"
proof -
  let ?st = "set_nIEN 0 (sim_ide d m off)"
  have b: "base (Channels ?st 0) = 0x1F0" "base (Channels (sim_ide d m off) 0) = 0x1F0" by (simp_all add: sim_ide_def set_nIEN_def)
  have c: "dev_channel (sim_ide d m off) 0 = 0" "dev_channel ?st 0 = 0" by (simp_all add: dev_channel_def sim_ide_def set_nIEN_def)
  have sel: "select_sector fault_bus 0 sl 1 regs st = st" for sl regs and st :: "ata ide"
    by (simp add: select_sector_def Let_def split: prod.splits)
  have r: "pio_read fault_bus 0 edi 1 ?st = Some (2, ?st)" for edi
    unfolding One_nat_def pio_read.simps using b by (simp add: fault_poll)
  have a: "IDEAccess fault_bus 0 0 0 1 edi (sim_ide d m off) = Some (2, ?st)" for edi
    using r b c by (simp add: IDEAccess_def Let_def sel fault_wait del: pio_read.simps)
  have e: "fst (IDEPrintErr fault_bus 0 2 ?st) = 22" "FileOffset (snd (IDEPrintErr fault_bus 0 2 ?st)) = (\<lambda>i. off)"
    using b c by (simp_all add: IDEPrintErr_def SerialPrint_def dev_channel_def fault_status error_checks_def Let_def)
      (simp_all add: set_nIEN_def sim_ide_def)
  have s: "Reserved (IDEDevs (sim_ide d m off) 0) = 1" "Size (IDEDevs (sim_ide d m off) 0) = 8" "Type (IDEDevs (sim_ide d m off) 0) = IDE_ATA"
    by (simp_all add: sim_ide_def)
  then show ?thesis
    using a e by (auto simp: IDEReadSectors_def fault_present split: prod.splits)
qed

theorem IDEReadFunction_hides_errors_witness:
  "\<exists>st3. IDEReadFunction fault_bus 0x1000 0x100000 10 1 0x2000 0 (sim_ide (\<lambda>n. replicate 512 5) (\<lambda>a. 0) 20) = Some (Inr (1, st3)) \<and>
     load_bytes (imem st3) 0x100000 10 = replicate 10 0"
proof -
  let ?st = "sim_ide (\<lambda>n. replicate 512 5) (\<lambda>a. 0) 20"
  have s: "FileOffset ?st = (\<lambda>i. 20)" "Type (IDEDevs ?st 0) = IDE_ATA" "Size (IDEDevs ?st 0) = 8" by (simp_all add: sim_ide_def)
  obtain st2 where "IDEReadSectors fault_bus 0 1 0 0x1000 ?st = Some st2" "package0 st2 = 22" "FileOffset st2 = (\<lambda>i. 20)"
    using fault_sector by blast
  then show ?thesis
    using IDEReadFunction_hides_errors [OF sim_buffers, of "0x2000" 10 ?st 0 fault_bus ?st st2] s fault_present by auto
qed

section \<open>The control register\<close>

text \<open>
  On a controller in compatibility mode, with its base registers 0, the driver's control and
  alternate status register is at port \<^verbatim>\<open>0x3F8\<close>, the data port of the serial line, instead of
  \<^verbatim>\<open>0x3F6\<close>: the offset of the register is counted from a base that already is the register.
\<close>

theorem control_register_is_serial_port:
  "bar d ! 1 = 0 \<Longrightarrow> reg_port (Channels (set_channels d st) 0) ATA_REG_CONTROL = Some 0x3F8 \<and>
     reg_port (Channels (set_channels d st) 0) ATA_REG_ALTSTATUS = Some 0x3F8"
  by (simp add: set_channels_def bar_port_def reg_port_def ata_regs)

theorem control_register_is_serial_port_witness:
  "reg_port (Channels (set_channels \<lparr>bus_no = 0, slot_no = 1, func_no = 1, vendor_id = 0x8086, device_id = 0x7010,
      class_id = 1, subclass_id = 1, prog_if = 0x80, revision = 0, header_type = 0, irq_line = 0, bar = [0, 0, 0, 0, 0xC001, 0]\<rparr>
      (sim_ide (\<lambda>n. []) (\<lambda>a. 0) 0)) 0) ATA_REG_CONTROL = Some 0x3F8"
  using control_register_is_serial_port [of "\<lparr>bus_no = 0, slot_no = 1, func_no = 1, vendor_id = 0x8086, device_id = 0x7010,
      class_id = 1, subclass_id = 1, prog_if = 0x80, revision = 0, header_type = 0, irq_line = 0, bar = [0, 0, 0, 0, 0xC001, 0]\<rparr>"
      "sim_ide (\<lambda>n. []) (\<lambda>a. 0) 0"]
  by simp

end
