(* ===== verification/Printf.thy ===== *)
theory Printf
  imports KString
begin

text \<open>
  \<^verbatim>\<open>src/kernel/drivers/SerialPrint.c\<close>: the formatted output of the kernel. It is
  written over \<^verbatim>\<open>SerialPut\<close>, which every architecture defines
  (\<^verbatim>\<open>src/kernel/drivers/_serial.h\<close> declares it), so \<open>put\<close> is an argument of the
  functions here; the locale \<open>serial_port\<close> is what they rely on. \<open>put c st\<close> is \<open>None\<close>
  when the line never takes the character.

  \<open>num_text\<close> and \<open>render\<close> are the reference: the text a format and its arguments stand for.
\<close>

section \<open>Hexadecimal numbers\<close>

definition hex_digits :: string where
  "hex_digits = ''0123456789abcdef''"

text \<open>The loop of \<^verbatim>\<open>IntegerToHexadecimal\<close> from \<open>i - 1\<close> down to 0.\<close>

fun hex_loop :: "nat \<Rightarrow> u32 \<Rightarrow> string \<Rightarrow> string" where
  "hex_loop 0 value buffer = buffer"
| "hex_loop (Suc i) value buffer =
     hex_loop i (drop_bit 4 value) (buffer[i := hex_digits ! unat (value AND 0xF)])"

definition IntegerToHexadecimal :: "u32 \<Rightarrow> string \<Rightarrow> string" where
  "IntegerToHexadecimal value buffer = (hex_loop 8 value buffer)[8 := NUL]"

function hex_start :: "string \<Rightarrow> nat \<Rightarrow> nat" where
  "hex_start buffer start =
     (if start < 7 \<and> buffer ! start = CHR ''0'' then hex_start buffer (start + 1) else start)"
  by auto
termination by (relation "measure (\<lambda>(b, s). 7 - s)") auto

declare hex_start.simps [simp del]

text \<open>The characters of \<open>buffer\<close> from index \<open>i\<close> up to \<open>n\<close>, in order.\<close>

function put_range :: "(char \<Rightarrow> 's \<Rightarrow> 's option) \<Rightarrow> string \<Rightarrow> nat \<Rightarrow> nat \<Rightarrow> 's \<Rightarrow> 's option" where
  "put_range put buffer i n st =
     (if i < n then Option.bind (put (buffer ! i) st) (put_range put buffer (i + 1) n) else Some st)"
  by auto
termination by (relation "measure (\<lambda>(p, b, i, n, st). n - i)") auto

declare put_range.simps [simp del]

definition SerialPrintHex :: "(char \<Rightarrow> 's \<Rightarrow> 's option) \<Rightarrow> u32 \<Rightarrow> 's \<Rightarrow> 's option" where
  "SerialPrintHex put value st =
     (let hex_buffer = IntegerToHexadecimal value (replicate 9 NUL)
      in put_range put hex_buffer (hex_start hex_buffer 0) 8 st)"

section \<open>Formats\<close>

text \<open>
  The variable arguments: an \<^verbatim>\<open>int\<close> or \<^verbatim>\<open>uint32_t\<close>, or a pointer to
  characters. Fetching an argument that is not there, or of the other kind, is undefined.
\<close>

datatype va = VaInt u32 | VaPtr cstr

function str_loop :: "(char \<Rightarrow> 's \<Rightarrow> 's option) \<Rightarrow> string \<Rightarrow> nat \<Rightarrow> 's \<Rightarrow> 's outcome" where
  "str_loop put str i st =
     (if i < length str
      then if str ! i = NUL then Some (Inr st) else Option.bind (put (str ! i) st) (str_loop put str (i + 1))
      else Some (Inl Fault))"
  by auto
termination by (relation "measure (\<lambda>(p, s, i, st). length s - i)") auto

declare str_loop.simps [simp del]

text \<open>The digits of \<^verbatim>\<open>num\<close>, the last one first, into \<open>buffer\<close> from index \<open>i\<close> on.\<close>

function dec_loop :: "int \<Rightarrow> nat \<Rightarrow> string \<Rightarrow> (nat \<times> string) result" where
  "dec_loop num i buffer =
     (if 0 < num then rbind (cset buffer i (char_of (nat (num mod 10 + 48)))) (dec_loop (num div 10) (i + 1))
      else Inr (i, buffer))"
  by auto
termination by (relation "measure (\<lambda>(n, i, b). nat n)") auto

declare dec_loop.simps [simp del]

fun put_down :: "(char \<Rightarrow> 's \<Rightarrow> 's option) \<Rightarrow> string \<Rightarrow> nat \<Rightarrow> 's \<Rightarrow> 's option" where
  "put_down put buffer 0 st = Some st"
| "put_down put buffer (Suc j) st = Option.bind (put (buffer ! j) st) (put_down put buffer j)"

definition INT_MIN :: u32 where
  "INT_MIN = 0x80000000"

definition print_int :: "(char \<Rightarrow> 's \<Rightarrow> 's option) \<Rightarrow> u32 \<Rightarrow> 's \<Rightarrow> 's outcome" where
  "print_int put num st =
     Option.bind (if sint num < 0 then put (CHR ''-'') st else Some st) (\<lambda>st1.
     if num = INT_MIN then Some (Inl Fault)
     else let n = \<bar>sint num\<bar>
       in case (if n = 0 then rbind (cset (replicate 20 NUL) 0 (CHR ''0'')) (\<lambda>b. Inr (1, b))
                else dec_loop n 0 (replicate 20 NUL)) of
            Inl e \<Rightarrow> Some (Inl e)
          | Inr (i, buffer) \<Rightarrow> Option.bind (put_down put buffer i st1) (\<lambda>st2. Some (Inr st2)))"

text \<open>What follows a percent sign: the arguments that are left, and the state.\<close>

definition print_directive ::
  "(char \<Rightarrow> 's \<Rightarrow> 's option) \<Rightarrow> char \<Rightarrow> va list \<Rightarrow> 's \<Rightarrow> (va list \<times> 's) outcome" where
  "print_directive put c args st =
     (if c = CHR ''c'' then
        case args of VaInt n # rest \<Rightarrow> Option.bind (put (char_of_byte (ucast n)) st) (\<lambda>st1. Some (Inr (rest, st1)))
          | _ \<Rightarrow> Some (Inl Fault)
      else if c = CHR ''s'' then
        case args of VaPtr (Some str) # rest \<Rightarrow> obind (str_loop put str 0 st) (\<lambda>st1. Some (Inr (rest, st1)))
          | _ \<Rightarrow> Some (Inl Fault)
      else if c = CHR ''d'' then
        case args of VaInt n # rest \<Rightarrow> obind (print_int put n st) (\<lambda>st1. Some (Inr (rest, st1)))
          | _ \<Rightarrow> Some (Inl Fault)
      else if c = CHR ''x'' then
        case args of VaInt n # rest \<Rightarrow> Option.bind (SerialPrintHex put n st) (\<lambda>st1. Some (Inr (rest, st1)))
          | _ \<Rightarrow> Some (Inl Fault)
      else Some (Inr (args, st)))"

text \<open>\<open>fmt\<close> is the text from the pointer to the end of its object, \<open>i\<close> how far it is read.\<close>

function print_loop :: "(char \<Rightarrow> 's \<Rightarrow> 's option) \<Rightarrow> string \<Rightarrow> nat \<Rightarrow> va list \<Rightarrow> 's \<Rightarrow> 's outcome" where
  "print_loop put fmt i args st =
     (if i < length fmt
      then if fmt ! i = NUL then Some (Inr st)
        else if fmt ! i = CHR ''%'' then
          if i + 1 < length fmt
          then obind (print_directive put (fmt ! (i + 1)) args st) (\<lambda>(args1, st1). print_loop put fmt (i + 2) args1 st1)
          else Some (Inl Fault)
        else Option.bind (put (fmt ! i) st) (print_loop put fmt (i + 1) args)
      else Some (Inl Fault))"
  by auto
termination by (relation "measure (\<lambda>(p, f, i, a, st). length f - i)") auto

declare print_loop.simps [simp del]

definition SerialPrint :: "(char \<Rightarrow> 's \<Rightarrow> 's option) \<Rightarrow> string \<Rightarrow> va list \<Rightarrow> 's \<Rightarrow> 's outcome" where
  "SerialPrint put fmt args st = print_loop put fmt 0 args st"

section \<open>The reference\<close>

function num_text :: "nat \<Rightarrow> nat \<Rightarrow> string" where
  "num_text b n =
     (if b < 2 \<or> n < b then [hex_digits ! n] else num_text b (n div b) @ [hex_digits ! (n mod b)])"
  by auto
termination by (relation "measure snd") (auto simp: div_less_dividend)

declare num_text.simps [simp del]

definition int_text :: "int \<Rightarrow> string" where
  "int_text n = (if n < 0 then [CHR ''-''] else []) @ num_text 10 (nat \<bar>n\<bar>)"

definition directive_text :: "char \<Rightarrow> va list \<Rightarrow> (string \<times> va list) option" where
  "directive_text c args =
     (if c = CHR ''c'' then case args of VaInt n # r \<Rightarrow> Some ([char_of_byte (ucast n)], r) | _ \<Rightarrow> None
      else if c = CHR ''s'' then
        case args of VaPtr (Some str) # r \<Rightarrow> if NUL \<in> set str then Some (takeWhile (\<lambda>x. x \<noteq> NUL) str, r) else None
          | _ \<Rightarrow> None
      else if c = CHR ''d'' then
        case args of VaInt n # r \<Rightarrow> if n = INT_MIN then None else Some (int_text (sint n), r) | _ \<Rightarrow> None
      else if c = CHR ''x'' then case args of VaInt n # r \<Rightarrow> Some (num_text 16 (unat n), r) | _ \<Rightarrow> None
      else Some ([], args))"

fun render :: "string \<Rightarrow> va list \<Rightarrow> string option" where
  "render [] args = None"
| "render (c # cs) args =
     (if c = NUL then Some []
      else if c = CHR ''%'' then
        case cs of [] \<Rightarrow> None
        | d # ds \<Rightarrow> Option.bind (directive_text d args) (\<lambda>(t, args1). map_option (append t) (render ds args1))
      else map_option (Cons c) (render cs args))"

fun put_string :: "(char \<Rightarrow> 's \<Rightarrow> 's option) \<Rightarrow> string \<Rightarrow> 's \<Rightarrow> 's option" where
  "put_string put [] st = Some st"
| "put_string put (c # cs) st = Option.bind (put c st) (put_string put cs)"

definition digit_value :: "char \<Rightarrow> nat" where
  "digit_value c = length (takeWhile (\<lambda>d. d \<noteq> c) hex_digits)"

definition text_value :: "nat \<Rightarrow> string \<Rightarrow> nat" where
  "text_value b t = foldl (\<lambda>v c. v * b + digit_value c) 0 t"

section \<open>Numbers as texts\<close>

lemma put_string_append: "put_string put (s @ t) st = Option.bind (put_string put s st) (put_string put t)"
  by (induction s arbitrary: st) (auto split: bind_splits)

lemma put_range_string:
  "i \<le> n \<Longrightarrow> n \<le> length b \<Longrightarrow> put_range put b i n st = put_string put (take (n - i) (drop i b)) st"
proof (induction "n - i" arbitrary: i st)
  case 0
  then show ?case by (simp add: put_range.simps)
next
  case (Suc m)
  then have i: "i < n" "m = n - (i + 1)" "drop i b = b ! i # drop (i + 1) b" by (auto simp: Cons_nth_drop_Suc)
  have "put_range put b (i + 1) n = put_string put (take m (drop (i + 1) b))"
    using Suc.hyps(1) [OF i(2)] i(1,2) Suc.prems by (simp add: fun_eq_iff)
  then show ?case using i Suc.hyps(2) [symmetric] by (subst put_range.simps) simp
qed

lemma put_down_string: "j \<le> length b \<Longrightarrow> put_down put b j st = put_string put (rev (take j b)) st"
proof (induction j arbitrary: st)
  case (Suc j)
  have "put_down put b j = put_string put (rev (take j b))" using Suc by (simp add: fun_eq_iff)
  then show ?case using Suc.prems by (simp add: take_Suc_conv_app_nth)
qed simp

lemma str_loop_string:
  "NUL \<in> set (drop i str) \<Longrightarrow>
     str_loop put str i st = map_option Inr (put_string put (takeWhile (\<lambda>c. c \<noteq> NUL) (drop i str)) st)"
proof (induction "length str - i" arbitrary: i st)
  case 0
  then show ?case by simp
next
  case (Suc m)
  then have i: "i < length str" "m = length str - (i + 1)" "drop i str = str ! i # drop (i + 1) str"
    by (auto simp: Cons_nth_drop_Suc)
  show ?case
  proof (cases "str ! i = NUL")
    case True
    then show ?thesis using i by (subst str_loop.simps) simp
  next
    case False
    then have "str_loop put str (i + 1) st1 = map_option Inr (put_string put (takeWhile (\<lambda>c. c \<noteq> NUL) (drop (i + 1) str)) st1)" for st1
      using Suc.hyps(1) [OF i(2)] i(3) Suc.prems by simp
    then show ?thesis using i False by (subst str_loop.simps) (simp add: fun_eq_iff split: bind_splits)
  qed
qed

lemma str_loop_unterminated: "NUL \<notin> set (drop i str) \<Longrightarrow> str_loop put str i st \<noteq> Some (Inr st')"
proof (induction "length str - i" arbitrary: i st)
  case 0
  then show ?case by (simp add: str_loop.simps)
next
  case (Suc m)
  then have i: "i < length str" "m = length str - (i + 1)" "drop i str = str ! i # drop (i + 1) str"
    by (auto simp: Cons_nth_drop_Suc)
  then have "str_loop put str (i + 1) st1 \<noteq> Some (Inr st')" for st1
    using Suc.hyps(1) [OF i(2)] Suc.prems by simp
  then show ?case using i Suc.prems by (subst str_loop.simps) (auto split: bind_splits)
qed

lemma length_hex_digits: "length hex_digits = 16"
  by (simp add: hex_digits_def)

lemma hex_digit_inj: "i < 16 \<Longrightarrow> j < 16 \<Longrightarrow> hex_digits ! i = hex_digits ! j \<longleftrightarrow> i = j"
proof -
  have "distinct hex_digits" by (simp add: hex_digits_def)
  then show "i < 16 \<Longrightarrow> j < 16 \<Longrightarrow> hex_digits ! i = hex_digits ! j \<longleftrightarrow> i = j"
    by (simp add: nth_eq_iff_index_eq length_hex_digits)
qed

lemma digit_value_digit: "j < 16 \<Longrightarrow> digit_value (hex_digits ! j) = j"
proof -
  assume j: "j < 16"
  have "takeWhile (\<lambda>d. d \<noteq> hex_digits ! j) hex_digits = take j hex_digits"
    using j by (intro takeWhile_eq_take_P_nth) (auto simp: length_hex_digits hex_digit_inj)
  then show ?thesis using j by (simp add: digit_value_def length_hex_digits)
qed

lemma hex_digit_zero: "hex_digits ! 0 = CHR ''0''"
  by (simp add: hex_digits_def)

lemma hex_digit_decimal: "d < 10 \<Longrightarrow> char_of (d + 48) = hex_digits ! d"
proof -
  assume "d < 10"
  then have "d \<in> {0, 1, 2, 3, 4, 5, 6, 7, 8, 9}" by auto
  then show ?thesis by (auto simp: hex_digits_def char_of_def bit_iff_odd)
qed

lemma num_text_step: "2 \<le> b \<Longrightarrow> b \<le> n \<Longrightarrow> num_text b n = num_text b (n div b) @ [hex_digits ! (n mod b)]"
  by (subst num_text.simps) simp

lemma num_text_digit: "n < b \<Longrightarrow> num_text b n = [hex_digits ! n]"
  by (subst num_text.simps) simp

lemma num_text_not_Nil [simp]: "num_text b n \<noteq> []"
  by (subst num_text.simps) simp

lemma num_text_value:
  assumes "2 \<le> b" "b \<le> 16"
  shows "text_value b (num_text b n) = n"
proof (induction n rule: less_induct)
  case (less n)
  have d: "digit_value (hex_digits ! j) = j" if "j < b" for j using that assms by (simp add: digit_value_digit)
  show ?case
  proof (cases "n < b")
    case True
    then show ?thesis by (simp add: num_text_digit text_value_def d)
  next
    case False
    then have "n div b < n" using assms by (simp add: div_less_dividend)
    then have "text_value b (num_text b (n div b)) = n div b" by (rule less)
    then show ?thesis using False assms by (simp add: num_text_step text_value_def d)
  qed
qed

lemma num_text_head: "2 \<le> b \<Longrightarrow> b \<le> 16 \<Longrightarrow> 0 < n \<Longrightarrow> hd (num_text b n) \<noteq> CHR ''0''"
proof (induction n rule: less_induct)
  case (less n)
  show ?case
  proof (cases "n < b")
    case True
    then show ?thesis using less.prems hex_digit_inj [of n 0] by (simp add: num_text_digit hex_digit_zero)
  next
    case False
    then have "n div b < n" "0 < n div b" using less.prems by (simp_all add: div_less_dividend div_greater_zero_iff)
    with less.IH [of "n div b"] less.prems False show ?thesis by (simp add: num_text_step)
  qed
qed

lemma num_text_length: "2 \<le> b \<Longrightarrow> n < b ^ Suc k \<Longrightarrow> length (num_text b n) \<le> Suc k"
proof (induction k arbitrary: n)
  case 0
  then show ?case by (simp add: num_text_digit)
next
  case (Suc k)
  show ?case
  proof (cases "n < b")
    case False
    have "n div b < b ^ Suc k" using Suc.prems by (simp add: div_less_iff_less_mult mult.commute)
    with Suc.IH [of "n div b"] Suc.prems False show ?thesis by (simp add: num_text_step)
  qed (simp add: num_text_digit)
qed

section \<open>What is printed\<close>

lemma dec_loop_text:
  assumes "n < 10 ^ k" "i + k \<le> length b" "0 < n"
  shows "\<exists>b'. dec_loop (int n) i b = Inr (i + length (num_text 10 n), b') \<and> length b' = length b \<and>
     take (i + length (num_text 10 n)) b' = take i b @ rev (num_text 10 n)"
  using assms
proof (induction n arbitrary: k i b rule: less_induct)
  case (less n)
  obtain j where k: "k = Suc j" using less.prems by (cases k) auto
  let ?b = "b[i := hex_digits ! (n mod 10)]"
  have i: "i < length b" using less.prems k by simp
  have digit: "char_of (nat (int n mod 10 + 48)) = hex_digits ! (n mod 10)"
    using hex_digit_decimal [of "n mod 10"] by (simp add: nat_add_distrib nat_mod_distrib)
  have turn: "dec_loop (int n) i b = dec_loop (int (n div 10)) (i + 1) ?b"
    using less.prems i digit by (subst dec_loop.simps) (simp add: zdiv_int)
  have t: "take (i + 1) ?b = take i b @ [hex_digits ! (n mod 10)]" using i by (simp add: take_Suc_conv_app_nth)
  show ?case
  proof (cases "n < 10")
    case True
    then show ?thesis using turn t by (simp add: num_text_digit dec_loop.simps)
  next
    case False
    have "n div 10 < n" "n div 10 < 10 ^ j" "i + 1 + j \<le> length ?b" "0 < n div 10"
      using less.prems k False by (auto simp: div_greater_zero_iff)
    from less.IH [OF this] obtain b' where "dec_loop (int (n div 10)) (i + 1) ?b = Inr (i + 1 + length (num_text 10 (n div 10)), b')"
      "length b' = length b" "take (i + 1 + length (num_text 10 (n div 10))) b' = take (i + 1) ?b @ rev (num_text 10 (n div 10))"
      by auto
    then show ?thesis using turn t False by (auto simp: num_text_step)
  qed
qed

lemma sint_bounds: "n \<noteq> INT_MIN \<Longrightarrow> nat \<bar>sint n\<bar> < 10 ^ 20"
proof -
  have "- (2 ^ 31) \<le> sint n" "sint n < 2 ^ 31"
    using sint_ge [of n] sint_lt [of n] by simp_all
  then show ?thesis by simp
qed

lemma print_int_text:
  assumes "n \<noteq> INT_MIN"
  shows "print_int put n st = map_option Inr (put_string put (int_text (sint n)) st)"
proof (cases "sint n = 0")
  case True
  then have "print_int put n st = map_option Inr (put_string put ''0'' st)"
    using assms by (simp add: print_int_def Let_def replicate_eq_replicate numeral_eq_Suc split: bind_splits)
  then show ?thesis using True by (simp add: int_text_def num_text_digit hex_digit_zero)
next
  case False
  let ?n = "nat \<bar>sint n\<bar>"
  have "0 < ?n" using False by simp
  with dec_loop_text [of ?n 20 0 "replicate 20 NUL"] sint_bounds [OF assms] obtain b' where
    b: "dec_loop \<bar>sint n\<bar> 0 (replicate 20 NUL) = Inr (length (num_text 10 ?n), b')" "length b' = 20"
      "take (length (num_text 10 ?n)) b' = rev (num_text 10 ?n)" by auto
  have "length (num_text 10 ?n) \<le> length b'" using arg_cong [OF b(3), of length] by simp
  then have "put_down put b' (length (num_text 10 ?n)) = put_string put (num_text 10 ?n)"
    using b by (simp add: put_down_string fun_eq_iff)
  then show ?thesis
    using False assms b(1) by (auto simp: print_int_def Let_def int_text_def split: bind_splits)
qed

text \<open>The last \<open>k\<close> hexadecimal digits of a number.\<close>

fun last_digits :: "nat \<Rightarrow> nat \<Rightarrow> string" where
  "last_digits 0 n = []"
| "last_digits (Suc k) n = last_digits k (n div 16) @ [hex_digits ! (n mod 16)]"

lemma length_last_digits [simp]: "length (last_digits k n) = k"
  by (induction k arbitrary: n) simp_all

lemma low_nibble: "unat (value AND 0xF) = unat value mod 16" for "value" :: u32
proof -
  have "value AND 0xF = take_bit 4 value" by (simp add: take_bit_eq_mask mask_eq_exp_minus_1)
  then have "unat (value AND 0xF) = take_bit 4 (unat value)" by (simp only: unsigned_take_bit_eq)
  then show ?thesis by (simp only: take_bit_eq_mod) simp
qed

lemma hex_loop_digits: "i \<le> length b \<Longrightarrow> hex_loop i value b = last_digits i (unat value) @ drop i b"
proof (induction i arbitrary: "value" b)
  case (Suc i)
  have "unat (drop_bit 4 value) = unat value div 16"
  proof -
    have "unat value < 2 ^ LENGTH(32)" by (rule unsigned_less)
    then have "take_bit 32 (unat value) = unat value" by (simp add: take_bit_nat_eq_self)
    then show ?thesis by (simp only: unsigned_drop_bit_eq) (simp add: drop_bit_eq_div)
  qed
  then show ?case using Suc by (simp add: low_nibble drop_update_cancel Cons_nth_drop_Suc [symmetric])
qed simp

lemma last_digits_text:
  "n < 16 ^ Suc k \<Longrightarrow> last_digits (Suc k) n = replicate (Suc k - length (num_text 16 n)) (CHR ''0'') @ num_text 16 n"
proof (induction k arbitrary: n)
  case 0
  then show ?case by (simp add: num_text_digit)
next
  case (Suc k)
  have n: "n div 16 < 16 ^ Suc k" using Suc.prems by (simp add: div_less_iff_less_mult mult.commute)
  have l: "length (num_text 16 (n div 16)) \<le> Suc k" using num_text_length [of 16, OF _ n] by simp
  show ?case
  proof (cases "n < 16")
    case True
    have "last_digits (Suc k) 0 = replicate (Suc k) (CHR ''0'')"
      using Suc.IH [of 0] by (simp add: num_text_digit hex_digit_zero replicate_append_same)
    then show ?thesis using True by (simp add: num_text_digit replicate_append_same)
  next
    case False
    then show ?thesis using Suc.IH [OF n] l by (simp add: num_text_step Suc_diff_le del: last_digits.simps(2)) (simp add: Suc_diff_le)
  qed
qed

lemma hex_start_text:
  assumes "take 8 b = replicate m (CHR ''0'') @ t" "t \<noteq> []" "hd t \<noteq> CHR ''0'' \<or> length t = 1" "m + length t = 8" "s \<le> m"
  shows "hex_start b s = m"
  using assms(5)
proof (induction "m - s" arbitrary: s)
  case 0
  then have "s = m" by simp
  have "b ! m = take 8 b ! m" using assms(2,4) by (cases t) auto
  also have "\<dots> = hd t" unfolding assms(1) using assms(2) by (cases t) (simp_all add: nth_append)
  finally show ?case using \<open>s = m\<close> assms(3,4) by (subst hex_start.simps) auto
next
  case (Suc j)
  have "s < m" using Suc.hyps(2) by simp
  then have "b ! s = take 8 b ! s" using assms(4) by simp
  also have "\<dots> = CHR ''0''" unfolding assms(1) using \<open>s < m\<close> by (simp add: nth_append)
  finally have "b ! s = CHR ''0''" .
  moreover have "s < 7" using assms(2,4) Suc.hyps(2) by (cases t) auto
  ultimately show ?case using Suc by (subst hex_start.simps) simp
qed

lemma SerialPrintHex_text: "SerialPrintHex put value st = put_string put (num_text 16 (unat value)) st"
proof -
  let ?t = "num_text 16 (unat value)"
  have v: "unat value < 16 ^ Suc 7" using unsigned_less [of "value"] by simp
  have l: "length ?t \<le> 8" using num_text_length [of 16, OF _ v] by simp
  let ?b = "IntegerToHexadecimal value (replicate 9 NUL)"
  have "hex_loop 8 value (replicate 9 NUL) = last_digits 8 (unat value) @ [NUL]"
    by (simp add: hex_loop_digits del: last_digits.simps)
  then have b: "?b = last_digits 8 (unat value) @ [NUL]"
    by (simp add: IntegerToHexadecimal_def list_update_append del: last_digits.simps hex_loop.simps)
  then have t: "take 8 ?b = replicate (8 - length ?t) (CHR ''0'') @ ?t"
    using last_digits_text [OF v] l by (simp del: last_digits.simps)
  have "hd ?t \<noteq> CHR ''0'' \<or> length ?t = 1"
    using num_text_head [of 16 "unat value"] by (cases "unat value = 0") (auto simp: num_text_digit)
  then have s: "hex_start ?b 0 = 8 - length ?t" using hex_start_text [OF t] l by simp
  have "length ?b = 9" using b by simp
  then have "put_range put ?b (8 - length ?t) 8 st = put_string put (take (length ?t) (drop (8 - length ?t) ?b)) st"
    using put_range_string [of "8 - length ?t" 8 ?b] l by simp
  moreover have "take (length ?t) (drop (8 - length ?t) ?b) = drop (8 - length ?t) (take 8 ?b)"
    using l by (simp add: drop_take)
  ultimately show ?thesis using t l by (simp add: SerialPrintHex_def s Let_def)
qed

lemma obind_map_Inr [simp]: "obind (map_option Inr m) f = Option.bind m f"
  by (cases m) simp_all

lemma bind_Some_map [simp]: "Option.bind m (\<lambda>x. Some (f x)) = map_option f m"
  by (cases m) simp_all

lemma print_directive_text:
  "directive_text c args = Some (t, r) \<Longrightarrow>
     print_directive put c args st = map_option (\<lambda>st1. Inr (r, st1)) (put_string put t st)"
  by (auto simp: directive_text_def print_directive_def print_int_text SerialPrintHex_text str_loop_string
      split: if_splits list.splits va.splits option.splits bind_splits)

lemma print_int_min: "print_int put INT_MIN st \<noteq> Some (Inr st')"
  by (auto simp: print_int_def split: bind_splits)

lemma print_directive_bad: "directive_text c args = None \<Longrightarrow> print_directive put c args st \<noteq> Some (Inr x)"
  by (auto simp: directive_text_def print_directive_def obind_Inr_iff print_int_min
      dest: str_loop_unterminated [where i = 0, simplified, THEN notE]
      split: if_splits list.splits va.splits option.splits)

lemma print_loop_text:
  "render (drop i fmt) args = Some t \<Longrightarrow> print_loop put fmt i args st = map_option Inr (put_string put t st)"
proof (induction "length fmt - i" arbitrary: i args t st rule: less_induct)
  case less
  show ?case
  proof (cases "i < length fmt")
    case False
    then show ?thesis using less.prems by simp
  next
    case True
    then have d: "drop i fmt = fmt ! i # drop (i + 1) fmt" by (simp add: Cons_nth_drop_Suc)
    consider "fmt ! i = NUL" | "fmt ! i = CHR ''%''" | "fmt ! i \<noteq> NUL" "fmt ! i \<noteq> CHR ''%''" by blast
    then show ?thesis
    proof cases
      case 1
      then show ?thesis using less.prems True d by (subst print_loop.simps) auto
    next
      case 2
      show ?thesis
      proof (cases "i + 1 < length fmt")
        case False
        then show ?thesis using less.prems d 2 by simp
      next
        case in2: True
        then have d2: "drop (i + 1) fmt = fmt ! (i + 1) # drop (i + 2) fmt" by (simp add: Cons_nth_drop_Suc)
        then obtain t1 r t2 where t: "directive_text (fmt ! (i + 1)) args = Some (t1, r)" "render (drop (i + 2) fmt) r = Some t2" "t = t1 @ t2"
          using less.prems d 2 by (auto split: bind_splits)
        have "length fmt - (i + 2) < length fmt - i" using True by simp
        from less.hyps [OF this t(2)] have "print_loop put fmt (i + 2) r st1 = map_option Inr (put_string put t2 st1)" for st1 .
        then show ?thesis using True in2 2 t
          by (subst print_loop.simps) (simp add: print_directive_text put_string_append split: bind_splits)
      qed
    next
      case 3
      then obtain t2 where t: "render (drop (i + 1) fmt) args = Some t2" "t = fmt ! i # t2"
        using less.prems d by auto
      have "length fmt - (i + 1) < length fmt - i" using True by simp
      from less.hyps [OF this t(1)] have "print_loop put fmt (i + 1) args st1 = map_option Inr (put_string put t2 st1)" for st1 .
      then show ?thesis using True 3 t by (subst print_loop.simps) (simp split: bind_splits)
    qed
  qed
qed

lemma print_loop_bad: "render (drop i fmt) args = None \<Longrightarrow> print_loop put fmt i args st \<noteq> Some (Inr st')"
proof (induction "length fmt - i" arbitrary: i args st rule: less_induct)
  case less
  show ?case
  proof (cases "i < length fmt")
    case False
    then show ?thesis by (simp add: print_loop.simps)
  next
    case True
    then have d: "drop i fmt = fmt ! i # drop (i + 1) fmt" by (simp add: Cons_nth_drop_Suc)
    have n: "fmt ! i \<noteq> NUL" using less.prems d by auto
    have smaller: "length fmt - (i + 1) < length fmt - i" "length fmt - (i + 2) < length fmt - i" using True by simp_all
    show ?thesis
    proof (cases "fmt ! i = CHR ''%''")
      case percent: True
      show ?thesis
      proof (cases "i + 1 < length fmt")
        case False
        then show ?thesis using True n percent by (subst print_loop.simps) simp
      next
        case in2: True
        then have d2: "drop (i + 1) fmt = fmt ! (i + 1) # drop (i + 2) fmt" by (simp add: Cons_nth_drop_Suc)
        have bad: "print_loop put fmt (i + 2) r st1 \<noteq> Some (Inr st')" if "directive_text (fmt ! (i + 1)) args = Some (t, r)" for t r st1
          using less.hyps [OF smaller(2)] less.prems d d2 percent that by simp
        show ?thesis
        proof (cases "directive_text (fmt ! (i + 1)) args")
          case None
          have "print_directive put (fmt ! (i + 1)) args st \<noteq> Some (Inr x)" for x
            using None by (rule print_directive_bad)
          then show ?thesis using True in2 percent by (subst print_loop.simps) (auto simp: obind_Inr_iff)
        next
          case (Some x)
          obtain t r where "x = (t, r)" by force
          with Some show ?thesis using True in2 percent bad
            by (subst print_loop.simps) (auto simp: print_directive_text obind_Inr_iff)
        qed
      qed
    next
      case False
      then have "render (drop (i + 1) fmt) args = None" using less.prems d n by simp
      from less.hyps [OF smaller(1) this] show ?thesis using True n False
        by (subst print_loop.simps) (simp split: bind_splits)
    qed
  qed
qed

text \<open>
  C26. \<^verbatim>\<open>SerialPrint\<close> sends the characters of the text its format and arguments stand
  for, in order and nothing else: decimal numbers with their sign and without leading zeros,
  hexadecimal ones without leading zeros, strings up to their end. Where the format ends in a percent
  sign, an argument is missing or of the wrong kind, a string has no end, or \<^verbatim>\<open>%d\<close> prints
  the least \<^verbatim>\<open>int\<close>, it does not complete.
\<close>

theorem SerialPrint_text:
  "case render fmt args of
     Some t \<Rightarrow> SerialPrint put fmt args st = map_option Inr (put_string put t st)
   | None \<Rightarrow> \<not> (\<exists>st'. SerialPrint put fmt args st = Some (Inr st'))"
  by (auto simp: SerialPrint_def print_loop_text print_loop_bad split: option.splits)

text \<open>
  The digits \<^verbatim>\<open>SerialPrintHex\<close> sends are the hexadecimal text of the number: it
  reads back as the number, has between one and eight digits, and starts with 0 only for 0.
\<close>

theorem SerialPrintHex_reads_back:
  "\<exists>t. SerialPrintHex put value st = put_string put t st \<and> text_value 16 t = unat value \<and>
     length t \<in> {1..8} \<and> (hd t = CHR ''0'') = (value = 0)"
proof (intro exI conjI)
  let ?t = "num_text 16 (unat value)"
  show "SerialPrintHex put value st = put_string put ?t st" by (rule SerialPrintHex_text)
  show "text_value 16 ?t = unat value" by (simp add: num_text_value)
  have v: "unat value < 16 ^ Suc 7" using unsigned_less [of "value"] by simp
  show "length ?t \<in> {1..8}" using num_text_length [of 16, OF _ v] by (simp add: Suc_le_eq)
  show "(hd ?t = CHR ''0'') = (value = 0)"
    using num_text_head [of 16 "unat value"] by (cases "value = 0") (auto simp: num_text_digit hex_digit_zero unat_gt_0)
qed

section \<open>A line that takes characters\<close>

text \<open>
  \<^verbatim>\<open>SerialPut\<close> as \<^verbatim>\<open>SerialPrint\<close> and the rest of the kernel need it: in a
  \<open>ready\<close> state it sends its character and the line stays ready.
\<close>

locale serial_port =
  fixes put :: "char \<Rightarrow> 's \<Rightarrow> 's option"
    and ready :: "'s \<Rightarrow> bool"
    and sent :: "'s \<Rightarrow> string"
  assumes put_ready: "ready st \<Longrightarrow> \<exists>st'. put c st = Some st' \<and> ready st' \<and> sent st' = sent st @ [c]"
begin

lemma put_string_sent: "ready st \<Longrightarrow> \<exists>st'. put_string put t st = Some st' \<and> ready st' \<and> sent st' = sent st @ t"
proof (induction t arbitrary: st)
  case (Cons c t)
  from put_ready [OF Cons.prems, of c] obtain st1 where "put c st = Some st1" "ready st1" "sent st1 = sent st @ [c]" by blast
  with Cons.IH [of st1] show ?case by auto
qed simp

lemma printed:
  assumes "ready st" "render fmt args = Some t"
  shows "\<exists>st'. SerialPrint put fmt args st = Some (Inr st') \<and> ready st' \<and> sent st' = sent st @ t"
  using put_string_sent [OF assms(1), of t] assms(2) by (auto simp: SerialPrint_def print_loop_text)

end

end
