(* ===== verification/Tracing.thy ===== *)
theory Tracing
  imports Printf
begin

text \<open>
  \<^verbatim>\<open>src/kernel/panic.c\<close>: the stack of trace entries that \<^verbatim>\<open>Trace\<close> keeps
  around the calls of the kernel, and what a panic prints. The other theories treat
  \<^verbatim>\<open>Trace\<close> as transparent and a panic as the end of the computation; here is what they do.
  The line is the argument \<open>put\<close> of \<open>Printf\<close>.

  Printing a panic traces its own output, so \<open>TraceImpl\<close>, \<open>PanicImpl\<close> and
  \<^verbatim>\<open>SerialPrint\<close> call each other: \<open>fuel\<close> bounds how often that nests. One level is
  enough unless the trace is full, and then no number of levels is.
\<close>

section \<open>State\<close>

record TraceEntry =
  FileName :: cstr
  FunctionName :: cstr
  Line :: int

record 's tracing =
  FunctionTrace :: "TraceEntry list"
  FunctionTraceDepth :: nat
  console :: 's

definition MAX_TRACE_DEPTH :: nat where "MAX_TRACE_DEPTH = 64"

definition no_entry :: TraceEntry where
  "no_entry = \<lparr>FileName = None, FunctionName = None, Line = 0\<rparr>"

text \<open>A panic ends in a loop that pauses for ever: the state then is \<open>Halts\<close>.\<close>

datatype 's ending = Continues 's | Halts 's

datatype PanicClass = PANIC_CLASS_SUPERVISOR | PANIC_CLASS_USERSPACE

fun panic_number :: "PanicCode \<Rightarrow> u32" where
  "panic_number PANIC_TODO = 0"
| "panic_number PANIC_RAN_OUT_OF_MEMORY = 1"
| "panic_number PANIC_NULL_POINTER_DEREFERENCE = 2"
| "panic_number PANIC_UNINTENDED_CALL = 3"
| "panic_number PANIC_TRACE_OVERFLOW = 4"
| "panic_number PANIC_NOT_FOUND = 5"
| "panic_number PANIC_SEGMENTATION_FAULT = 6"
| "panic_number PANIC_DOUBLE_OPEN = 7"
| "panic_number PANIC_FD_NOT_FOUND = 8"
| "panic_number PANIC_INCORRECT_BOOTLOADER = 9"
| "panic_number PANIC_UNHANDLED_INTERRUPT = 10"
| "panic_number PANIC_OVERHEAT = 11"

section \<open>Panics\<close>

abbreviation crlf :: string where
  "crlf \<equiv> [CHR 0x0D, CHR 0x0A]"

text \<open>The loop over the trace, from \<open>Depth\<close> down to 1; entries are read as they are then.\<close>

fun dump_trace :: "(char \<Rightarrow> 's tracing ending \<Rightarrow> 's tracing ending option) \<Rightarrow> nat \<Rightarrow> 's tracing ending \<Rightarrow> 's tracing ending outcome" where
  "dump_trace put 0 e = Some (Inr e)"
| "dump_trace put (Suc d) e =
     (case e of Halts s \<Rightarrow> Some (Inr e)
      | Continues s \<Rightarrow>
        if d < length (FunctionTrace s)
        then obind (SerialPrint put (''Top-%x: %s:%d (%s)'' @ [NUL])
             [VaInt (of_nat (Suc d)), VaPtr (FileName (FunctionTrace s ! d)), VaInt (of_int (Line (FunctionTrace s ! d))),
              VaPtr (FunctionName (FunctionTrace s ! d))] e) (dump_trace put d)
        else Some (Inl Fault))"

text \<open>
  \<open>pid\<close> is the identifier of the current process, 0 when there is none; \<open>temp\<close> what
  \<^verbatim>\<open>ArchGetTemperatureMC\<close> returns, on the architectures that have it.
\<close>

definition PanicImpl ::
  "(char \<Rightarrow> 's tracing ending \<Rightarrow> 's tracing ending option) \<Rightarrow> u64 \<Rightarrow> u32 option \<Rightarrow> cstr \<Rightarrow> int \<Rightarrow> PanicCode \<Rightarrow> cstr \<Rightarrow>
   PanicClass \<Rightarrow> 's tracing ending \<Rightarrow> 's tracing ending outcome" where
  "PanicImpl put pid temp File line0 Code CodeAsStr Class e =
     obind (SerialPrint put (crlf @ '' -- KERNEL PANIC VIA %s IN PROCESS %d -- '' @ crlf @ [NUL])
       [VaPtr (Some ((if Class = PANIC_CLASS_SUPERVISOR then ''SUPERVISOR'' else ''USERSPACE'') @ [NUL])), VaInt (ucast pid)] e) (\<lambda>e1.
     obind (SerialPrint put (''Kernel Panic Function %x (%s) was raised'' @ crlf @ [NUL])
       [VaInt (panic_number Code), VaPtr CodeAsStr] e1) (\<lambda>e2.
     obind (case temp of None \<Rightarrow> Some (Inr e2)
       | Some t \<Rightarrow> SerialPrint put (''Temperature x1000: %d'' @ crlf @ [NUL]) [VaInt t] e2) (\<lambda>e3.
     obind (if File = None then Some (Inr e3)
       else SerialPrint put (''Source Location: %s:%d'' @ crlf @ [NUL]) [VaPtr File, VaInt (of_int line0)] e3) (\<lambda>e4.
     obind (SerialPrint put (''Trace Dump:'' @ crlf @ [NUL]) [] e4) (\<lambda>e5.
     case e5 of Halts s \<Rightarrow> Some (Inr e5)
     | Continues s5 \<Rightarrow>
       obind (if FunctionTraceDepth s5 = 0 then SerialPrint put (''(No Trace Entries.)'' @ crlf @ [NUL]) [] e5 else Some (Inr e5)) (\<lambda>e6.
       obind (dump_trace put (FunctionTraceDepth s5) e6) (\<lambda>e7.
         Some (Inr (case e7 of Halts s \<Rightarrow> Halts s | Continues s \<Rightarrow> Halts s)))))))))"

section \<open>Tracing\<close>

definition push_trace :: "cstr \<Rightarrow> cstr \<Rightarrow> int \<Rightarrow> 's tracing \<Rightarrow> 's tracing" where
  "push_trace File Fn line0 s =
     s\<lparr>FunctionTrace := (FunctionTrace s)[FunctionTraceDepth s := \<lparr>FileName = File, FunctionName = Fn, Line = line0\<rparr>],
       FunctionTraceDepth := FunctionTraceDepth s + 1\<rparr>"

definition ExitTraceImpl :: "'s tracing \<Rightarrow> 's tracing result" where
  "ExitTraceImpl s =
     (if FunctionTraceDepth s = 0 then Inl Fault
      else Inr (s\<lparr>FunctionTrace := (FunctionTrace s)[FunctionTraceDepth s - 1 := no_entry],
                 FunctionTraceDepth := FunctionTraceDepth s - 1\<rparr>))"

text \<open>
  What the macros of \<^verbatim>\<open>panic.h\<close> put in: the place of a call that
  \<^verbatim>\<open>SerialPrint\<close> traces, and the place in \<^verbatim>\<open>panic.c\<close> where the overflow
  is raised. \<open>pid\<close> and \<open>temp\<close> are as in \<open>PanicImpl\<close>.
\<close>

record surroundings =
  print_file :: cstr
  print_function :: cstr
  print_line :: int
  overflow_file :: cstr
  overflow_line :: int
  pid :: u64
  temp :: "u32 option"

text \<open>
  \<^verbatim>\<open>TraceImpl\<close>: with the trace full it panics, and the panic prints through
  \<open>put\<close>; \<^verbatim>\<open>Trace(SerialPut(c))\<close> is \<open>traced_put\<close>.
\<close>

definition TraceImpl ::
  "(char \<Rightarrow> 's tracing ending \<Rightarrow> 's tracing ending option) \<Rightarrow> surroundings \<Rightarrow> cstr \<Rightarrow> cstr \<Rightarrow> int \<Rightarrow>
   's tracing \<Rightarrow> 's tracing ending outcome" where
  "TraceImpl put sr File Fn line0 s =
     (if MAX_TRACE_DEPTH \<le> FunctionTraceDepth s
      then PanicImpl put (pid sr) (temp sr) (overflow_file sr) (overflow_line sr) PANIC_TRACE_OVERFLOW
        (Some (''PANIC_TRACE_OVERFLOW'' @ [NUL])) PANIC_CLASS_SUPERVISOR (Continues s)
      else Some (Inr (Continues (push_trace File Fn line0 s))))"

fun traced_put :: "nat \<Rightarrow> (char \<Rightarrow> 's \<Rightarrow> 's option) \<Rightarrow> surroundings \<Rightarrow> char \<Rightarrow> 's tracing ending \<Rightarrow> 's tracing ending option" where
  "traced_put 0 put sr c e = None"
| "traced_put (Suc fuel) put sr c e =
     (case e of Halts s \<Rightarrow> Some e
      | Continues s \<Rightarrow>
        (case TraceImpl (traced_put fuel put sr) sr (print_file sr) (print_function sr) (print_line sr) s of
          Some (Inr (Continues s1)) \<Rightarrow>
            Option.bind (put c (console s1)) (\<lambda>out.
              case ExitTraceImpl (s1\<lparr>console := out\<rparr>) of Inr s2 \<Rightarrow> Some (Continues s2) | Inl _ \<Rightarrow> None)
        | Some (Inr (Halts s1)) \<Rightarrow> Some (Halts s1)
        | _ \<Rightarrow> None))"

declare traced_put.simps [simp del]

section \<open>Balance\<close>

text \<open>The entries above the depth are cleared.\<close>

definition trace_ok :: "'s tracing \<Rightarrow> bool" where
  "trace_ok s \<longleftrightarrow> length (FunctionTrace s) = MAX_TRACE_DEPTH \<and> FunctionTraceDepth s \<le> MAX_TRACE_DEPTH \<and>
     (\<forall>i. FunctionTraceDepth s \<le> i \<and> i < MAX_TRACE_DEPTH \<longrightarrow> FunctionTrace s ! i = no_entry)"

lemma exit_push:
  assumes "trace_ok s" "FunctionTraceDepth s < MAX_TRACE_DEPTH"
  shows "ExitTraceImpl ((push_trace F G l s)\<lparr>console := out\<rparr>) = Inr (s\<lparr>console := out\<rparr>)"
proof -
  have "FunctionTrace s ! FunctionTraceDepth s = no_entry" using assms by (simp add: trace_ok_def)
  then have "(FunctionTrace s)[FunctionTraceDepth s := no_entry] = FunctionTrace s" by (metis list_update_id)
  then show ?thesis by (simp add: ExitTraceImpl_def push_trace_def)
qed

lemma traced_put_room:
  assumes "trace_ok s" "FunctionTraceDepth s < MAX_TRACE_DEPTH"
  shows "traced_put (Suc n) put sr c (Continues s) = map_option (\<lambda>out. Continues (s\<lparr>console := out\<rparr>)) (put c (console s))"
proof -
  have "console (push_trace F G l s) = console s" for F G l by (simp add: push_trace_def)
  then show ?thesis using assms exit_push [OF assms] by (simp add: traced_put.simps TraceImpl_def split: bind_splits)
qed

lemma traced_string_room:
  assumes "trace_ok s" "FunctionTraceDepth s < MAX_TRACE_DEPTH"
  shows "put_string (traced_put (Suc n) put sr) t (Continues s) =
     map_option (\<lambda>out. Continues (s\<lparr>console := out\<rparr>)) (put_string put t (console s))"
  using assms
proof (induction t arbitrary: s)
  case (Cons c t)
  show ?case
  proof (cases "put c (console s)")
    case None
    then show ?thesis using traced_put_room [OF Cons.prems, of n put sr c] by simp
  next
    case (Some out)
    have "trace_ok (s\<lparr>console := out\<rparr>)" "FunctionTraceDepth (s\<lparr>console := out\<rparr>) < MAX_TRACE_DEPTH"
      using Cons.prems by (simp_all add: trace_ok_def)
    from Cons.IH [OF this] Some show ?thesis using traced_put_room [OF Cons.prems, of n put sr c] by simp
  qed
qed simp

text \<open>
  While the trace has room, \<^verbatim>\<open>SerialPrint\<close> with its tracing is \<^verbatim>\<open>SerialPrint\<close>
  without: the same characters in the same order, and the trace afterwards is the one before.
\<close>

theorem SerialPrint_traced:
  assumes "trace_ok s" "FunctionTraceDepth s < MAX_TRACE_DEPTH" "render fmt args = Some t"
  shows "SerialPrint (traced_put (Suc n) put sr) fmt args (Continues s) =
     map_option (map_sum id (\<lambda>out. Continues (s\<lparr>console := out\<rparr>))) (SerialPrint put fmt args (console s))"
  using assms by (simp add: SerialPrint_def print_loop_text traced_string_room option.map_comp comp_def)

section \<open>A panic with the trace full\<close>

lemma SerialPrint_first:
  "put c e = None \<Longrightarrow> c \<noteq> NUL \<Longrightarrow> c \<noteq> CHR ''%'' \<Longrightarrow> SerialPrint put (c # cs) args e = None"
  by (simp add: SerialPrint_def print_loop.simps [of put "c # cs" 0])

lemma PanicImpl_first: "put (CHR 0x0D) e = None \<Longrightarrow> PanicImpl put p t File l Code C Class e = None"
  by (simp add: PanicImpl_def SerialPrint_first)

lemma traced_put_full: "MAX_TRACE_DEPTH \<le> FunctionTraceDepth s \<Longrightarrow> traced_put n put sr c (Continues s) = None"
proof (induction n arbitrary: c)
  case (Suc n)
  then show ?case by (simp add: traced_put.simps TraceImpl_def PanicImpl_first)
qed (simp add: traced_put.simps)



section \<open>What a panic prints\<close>

definition ctext :: "cstr \<Rightarrow> string" where
  "ctext a = (case a of None \<Rightarrow> [] | Some s \<Rightarrow> takeWhile (\<lambda>c. c \<noteq> NUL) s)"

definition terminated :: "cstr \<Rightarrow> bool" where
  "terminated a \<longleftrightarrow> (case a of None \<Rightarrow> False | Some s \<Rightarrow> NUL \<in> set s)"

definition entry_text :: "nat \<Rightarrow> TraceEntry \<Rightarrow> string" where
  "entry_text d t = ''Top-'' @ num_text 16 d @ '': '' @ ctext (FileName t) @ '':'' @
     int_text (sint (of_int (Line t) :: u32)) @ '' ('' @ ctext (FunctionName t) @ '')''"

fun trace_text :: "nat \<Rightarrow> TraceEntry list \<Rightarrow> string" where
  "trace_text 0 ts = []"
| "trace_text (Suc d) ts = entry_text (Suc d) (ts ! d) @ trace_text d ts"

definition panic_text :: "u64 \<Rightarrow> u32 option \<Rightarrow> cstr \<Rightarrow> int \<Rightarrow> PanicCode \<Rightarrow> cstr \<Rightarrow> PanicClass \<Rightarrow> nat \<Rightarrow> TraceEntry list \<Rightarrow> string" where
  "panic_text p t File l Code C Class d ts =
     crlf @ '' -- KERNEL PANIC VIA '' @ (if Class = PANIC_CLASS_SUPERVISOR then ''SUPERVISOR'' else ''USERSPACE'') @
     '' IN PROCESS '' @ int_text (sint (ucast p :: u32)) @ '' -- '' @ crlf @
     ''Kernel Panic Function '' @ num_text 16 (unat (panic_number Code)) @ '' ('' @ ctext C @ '') was raised'' @ crlf @
     (case t of None \<Rightarrow> [] | Some m \<Rightarrow> ''Temperature x1000: '' @ int_text (sint m) @ crlf) @
     (if File = None then [] else ''Source Location: '' @ ctext File @ '':'' @ int_text (sint (of_int l :: u32)) @ crlf) @
     ''Trace Dump:'' @ crlf @ (if d = 0 then ''(No Trace Entries.)'' @ crlf else trace_text d ts)"

text \<open>What is printed can be: strings end, and no number is the least \<^verbatim>\<open>int\<close>.\<close>

definition printable_entry :: "TraceEntry \<Rightarrow> bool" where
  "printable_entry t \<longleftrightarrow> terminated (FileName t) \<and> terminated (FunctionName t) \<and> (of_int (Line t) :: u32) \<noteq> INT_MIN"

definition printable_panic :: "u64 \<Rightarrow> u32 option \<Rightarrow> cstr \<Rightarrow> int \<Rightarrow> cstr \<Rightarrow> bool" where
  "printable_panic p t File l C \<longleftrightarrow> (ucast p :: u32) \<noteq> INT_MIN \<and> t \<noteq> Some INT_MIN \<and> terminated C \<and>
     (File = None \<or> terminated File \<and> (of_int l :: u32) \<noteq> INT_MIN)"

lemma print_then:
  assumes "trace_ok s" "FunctionTraceDepth s < MAX_TRACE_DEPTH" "render fmt args = Some t"
    and "\<And>out. f (Continues (s\<lparr>console := out\<rparr>)) = map_option (\<lambda>o2. Inr (g (s\<lparr>console := o2\<rparr>))) (put_string put rest out)"
  shows "obind (SerialPrint (traced_put (Suc n) put sr) fmt args (Continues s)) f =
     map_option (\<lambda>o2. Inr (g (s\<lparr>console := o2\<rparr>))) (put_string put (t @ rest) (console s))"
  using assms by (simp add: SerialPrint_def print_loop_text traced_string_room put_string_append split: bind_splits)

lemma trace_ok_console [simp]: "trace_ok (s\<lparr>console := out\<rparr>) = trace_ok s"
  by (simp add: trace_ok_def)

lemma terminatedE: "terminated a \<Longrightarrow> (\<And>s. a = Some s \<Longrightarrow> NUL \<in> set s \<Longrightarrow> ctext a = takeWhile (\<lambda>c. c \<noteq> NUL) s \<Longrightarrow> P) \<Longrightarrow> P"
  by (cases a) (simp_all add: terminated_def ctext_def)

lemma dump_trace_text:
  assumes "trace_ok s" "FunctionTraceDepth s < MAX_TRACE_DEPTH" "d \<le> FunctionTraceDepth s"
    and "\<And>i. i < d \<Longrightarrow> printable_entry (FunctionTrace s ! i)"
  shows "dump_trace (traced_put (Suc n) put sr) d (Continues s) =
     map_option (\<lambda>o2. Inr (Continues (s\<lparr>console := o2\<rparr>))) (put_string put (trace_text d (FunctionTrace s)) (console s))"
  using assms
proof (induction d arbitrary: s)
  case 0
  then show ?case by simp
next
  case (Suc d)
  let ?t = "FunctionTrace s ! d"
  have p: "printable_entry ?t" using Suc.prems(4) by simp
  obtain f g where f: "FileName ?t = Some f" "NUL \<in> set f" "ctext (FileName ?t) = takeWhile (\<lambda>c. c \<noteq> NUL) f"
      "FunctionName ?t = Some g" "NUL \<in> set g" "ctext (FunctionName ?t) = takeWhile (\<lambda>c. c \<noteq> NUL) g"
    using p unfolding printable_entry_def by (elim conjE terminatedE)
  have d: "d < length (FunctionTrace s)" "d < 64" using Suc.prems by (simp_all add: trace_ok_def MAX_TRACE_DEPTH_def)
  then have w: "unat (of_nat (Suc d) :: u32) = Suc d" by (simp add: unat_of_nat del: of_nat_Suc)
  have r: "render (''Top-%x: %s:%d (%s)'' @ [NUL]) [VaInt (of_nat (Suc d)), VaPtr (FileName ?t), VaInt (of_int (Line ?t)), VaPtr (FunctionName ?t)] =
      Some (entry_text (Suc d) ?t)"
    using f p w by (simp add: directive_text_def entry_text_def printable_entry_def del: of_nat_Suc)
  have "dump_trace (traced_put (Suc n) put sr) d (Continues (s\<lparr>console := out\<rparr>)) =
      map_option (\<lambda>o2. Inr (Continues (s\<lparr>console := o2\<rparr>))) (put_string put (trace_text d (FunctionTrace s)) out)" for out
    using Suc.IH [of "s\<lparr>console := out\<rparr>"] Suc.prems by simp
  from print_then [OF Suc.prems(1,2) r this] show ?case using d by simp
qed

lemma obind_map_Inr_fun [simp]: "obind (map_option (\<lambda>x. Inr (h x)) m) f = Option.bind m (\<lambda>x. f (h x))"
  by (cases m) simp_all

lemma print_next:
  assumes "trace_ok s" "FunctionTraceDepth s < MAX_TRACE_DEPTH" "render fmt args = Some t"
    and "\<And>out. f (Continues (s\<lparr>console := out\<rparr>)) = map_option (\<lambda>o2. Inr (g (s\<lparr>console := o2\<rparr>))) (put_string put rest out)"
  shows "obind (SerialPrint (traced_put (Suc n) put sr) fmt args (Continues (s\<lparr>console := out\<rparr>))) f =
     map_option (\<lambda>o2. Inr (g (s\<lparr>console := o2\<rparr>))) (put_string put (t @ rest) out)"
  using print_then [of "s\<lparr>console := out\<rparr>" fmt args t f g put rest n sr] assms by simp

lemma PanicImpl_text:
  assumes s: "trace_ok s" "FunctionTraceDepth s < MAX_TRACE_DEPTH"
    and e: "\<And>i. i < FunctionTraceDepth s \<Longrightarrow> printable_entry (FunctionTrace s ! i)"
    and p: "printable_panic p t File l C"
  shows "PanicImpl (traced_put (Suc n) put sr) p t File l Code C Class (Continues s) =
     map_option (\<lambda>out. Inr (Halts (s\<lparr>console := out\<rparr>)))
       (put_string put (panic_text p t File l Code C Class (FunctionTraceDepth s) (FunctionTrace s)) (console s))"
proof -
  let ?put = "traced_put (Suc n) put sr"
  let ?halt = "\<lambda>e. Some (Inr (case e of Halts s \<Rightarrow> Halts s | Continues s \<Rightarrow> Halts s)) :: 'a tracing ending outcome"
  define tail where "tail = (if FunctionTraceDepth s = 0 then ''(No Trace Entries.)'' @ crlf else trace_text (FunctionTraceDepth s) (FunctionTrace s))"
  obtain c where c: "C = Some c" "NUL \<in> set c" "ctext C = takeWhile (\<lambda>c. c \<noteq> NUL) c"
    using p unfolding printable_panic_def by (elim conjE terminatedE)
  note room = s
  have dump: "obind (if FunctionTraceDepth s = 0 then SerialPrint ?put (''(No Trace Entries.)'' @ crlf @ [NUL]) [] (Continues (s\<lparr>console := out\<rparr>))
        else Some (Inr (Continues (s\<lparr>console := out\<rparr>)))) (\<lambda>e6. obind (dump_trace ?put (FunctionTraceDepth s) e6) ?halt) =
      map_option (\<lambda>out. Inr (Halts (s\<lparr>console := out\<rparr>))) (put_string put tail out)" for out
  proof (cases "FunctionTraceDepth s = 0")
    case True
    have r: "render (''(No Trace Entries.)'' @ crlf @ [NUL]) [] = Some (''(No Trace Entries.)'' @ crlf)" by simp
    show ?thesis
      using True print_next [OF s r, where f = ?halt and g = Halts and rest = "[]" and put = put and n = n and sr = sr and out = out]
      by (simp add: tail_def)
  next
    case False
    then show ?thesis using dump_trace_text [of "s\<lparr>console := out\<rparr>" "FunctionTraceDepth s" n put sr] s e
      by (simp add: tail_def)
  qed
  define t5 where "t5 = (''Trace Dump:'' @ crlf) @ tail"
  have r5: "render (''Trace Dump:'' @ crlf @ [NUL]) [] = Some (''Trace Dump:'' @ crlf)" by simp
  let ?f5 = "\<lambda>e5. case e5 of Halts s \<Rightarrow> Some (Inr e5)
     | Continues s5 \<Rightarrow>
       obind (if FunctionTraceDepth s5 = 0 then SerialPrint ?put (''(No Trace Entries.)'' @ crlf @ [NUL]) [] e5 else Some (Inr e5)) (\<lambda>e6.
       obind (dump_trace ?put (FunctionTraceDepth s5) e6) ?halt)"
  have depth: "FunctionTraceDepth (s\<lparr>console := out\<rparr>) = FunctionTraceDepth s" for out by simp
  have f5: "?f5 (Continues (s\<lparr>console := out\<rparr>)) = map_option (\<lambda>out. Inr (Halts (s\<lparr>console := out\<rparr>))) (put_string put tail out)" for out
    by (simp only: ending.case depth dump)
  have s5: "obind (SerialPrint ?put (''Trace Dump:'' @ crlf @ [NUL]) [] (Continues (s\<lparr>console := out\<rparr>))) ?f5 =
      map_option (\<lambda>out. Inr (Halts (s\<lparr>console := out\<rparr>))) (put_string put t5 out)" for out
    unfolding t5_def by (rule print_next [OF s r5 f5])
  define t4 where "t4 = (if File = None then [] else ''Source Location: '' @ ctext File @ '':'' @ int_text (sint (of_int l :: u32)) @ crlf) @ t5"
  let ?f4 = "\<lambda>e4. obind (SerialPrint ?put (''Trace Dump:'' @ crlf @ [NUL]) [] e4) ?f5"
  let ?g4 = "\<lambda>e3. if File = None then Some (Inr e3)
       else SerialPrint ?put (''Source Location: %s:%d'' @ crlf @ [NUL]) [VaPtr File, VaInt (of_int l)] e3"
  have s4: "obind (?g4 (Continues (s\<lparr>console := out\<rparr>))) ?f4 =
      map_option (\<lambda>out. Inr (Halts (s\<lparr>console := out\<rparr>))) (put_string put t4 out)" for out
  proof (cases "File = None")
    case True
    show ?thesis unfolding t4_def if_P [OF True] obind_simps append.left_neutral by (rule s5)
  next
    case False
    then have l: "terminated File" "(of_int l :: u32) \<noteq> INT_MIN" using p by (auto simp: printable_panic_def)
    obtain f where f: "File = Some f" "NUL \<in> set f" "ctext File = takeWhile (\<lambda>c. c \<noteq> NUL) f"
      using l(1) by (rule terminatedE)
    have r: "render (''Source Location: %s:%d'' @ crlf @ [NUL]) [VaPtr File, VaInt (of_int l)] =
        Some (''Source Location: '' @ ctext File @ '':'' @ int_text (sint (of_int l :: u32)) @ crlf)"
      using f l by (simp add: directive_text_def)
    show ?thesis unfolding t4_def if_not_P [OF False] by (rule print_next [OF s r s5])
  qed
  define t3 where "t3 = (case t of None \<Rightarrow> [] | Some m \<Rightarrow> ''Temperature x1000: '' @ int_text (sint m) @ crlf) @ t4"
  let ?f3 = "\<lambda>e3. obind (?g4 e3) ?f4"
  let ?g3 = "\<lambda>e2. case t of None \<Rightarrow> Some (Inr e2) | Some m \<Rightarrow> SerialPrint ?put (''Temperature x1000: %d'' @ crlf @ [NUL]) [VaInt m] e2"
  have s3: "obind (?g3 (Continues (s\<lparr>console := out\<rparr>))) ?f3 =
      map_option (\<lambda>out. Inr (Halts (s\<lparr>console := out\<rparr>))) (put_string put t3 out)" for out
  proof (cases t)
    case None
    show ?thesis unfolding t3_def None option.case obind_simps append.left_neutral by (rule s4)
  next
    case (Some m)
    then have r: "render (''Temperature x1000: %d'' @ crlf @ [NUL]) [VaInt m] = Some (''Temperature x1000: '' @ int_text (sint m) @ crlf)"
      using p by (simp add: directive_text_def printable_panic_def)
    show ?thesis unfolding t3_def Some option.case by (rule print_next [OF s r s4])
  qed
  let ?h2 = "''Kernel Panic Function '' @ num_text 16 (unat (panic_number Code)) @ '' ('' @ ctext C @ '') was raised'' @ crlf"
  let ?f2 = "\<lambda>e2. obind (?g3 e2) ?f3"
  have r2: "render (''Kernel Panic Function %x (%s) was raised'' @ crlf @ [NUL]) [VaInt (panic_number Code), VaPtr C] = Some ?h2"
    using c by (simp add: directive_text_def)
  have s2: "obind (SerialPrint ?put (''Kernel Panic Function %x (%s) was raised'' @ crlf @ [NUL]) [VaInt (panic_number Code), VaPtr C]
        (Continues (s\<lparr>console := out\<rparr>))) ?f2 = map_option (\<lambda>out. Inr (Halts (s\<lparr>console := out\<rparr>))) (put_string put (?h2 @ t3) out)" for out
    by (rule print_next [OF s r2 s3])
  let ?c = "if Class = PANIC_CLASS_SUPERVISOR then ''SUPERVISOR'' else ''USERSPACE''"
  let ?h1 = "crlf @ '' -- KERNEL PANIC VIA '' @ ?c @ '' IN PROCESS '' @ int_text (sint (ucast p :: u32)) @ '' -- '' @ crlf"
  have r1: "render (crlf @ '' -- KERNEL PANIC VIA %s IN PROCESS %d -- '' @ crlf @ [NUL]) [VaPtr (Some (?c @ [NUL])), VaInt (ucast p)] = Some ?h1"
    using p by (simp add: directive_text_def printable_panic_def)
  have "PanicImpl ?put p t File l Code C Class (Continues s) =
      map_option (\<lambda>out. Inr (Halts (s\<lparr>console := out\<rparr>))) (put_string put (?h1 @ ?h2 @ t3) (console s))"
    unfolding PanicImpl_def by (rule print_then [OF s r1 s2])
  moreover have "?h1 @ ?h2 @ t3 = panic_text p t File l Code C Class (FunctionTraceDepth s) (FunctionTrace s)"
    by (simp only: panic_text_def t3_def t4_def t5_def tail_def append_assoc)
  ultimately show ?thesis by (simp only:)
qed

text \<open>
  A panic with room in the trace prints its report and stops: class, process, code,
  temperature, place, and the entries of the trace from the innermost out, each numbered with its depth. What
  it prints for itself leaves no entry behind.
\<close>

theorem PanicImpl_reports:
  assumes "trace_ok s" "FunctionTraceDepth s < MAX_TRACE_DEPTH"
    and "\<forall>i < FunctionTraceDepth s. printable_entry (FunctionTrace s ! i)" "printable_panic p t File l C"
  shows "PanicImpl (traced_put (Suc n) put sr) p t File l Code C Class (Continues s) =
     map_option (\<lambda>out. Inr (Halts (s\<lparr>console := out\<rparr>)))
       (put_string put (panic_text p t File l Code C Class (FunctionTraceDepth s) (FunctionTrace s)) (console s))"
  using assms by (intro PanicImpl_text) auto

theorem PanicImpl_reports_witness:
  "PanicImpl (traced_put 1 (\<lambda>c s. Some (s @ [c]))
     \<lparr>print_file = None, print_function = None, print_line = 0, overflow_file = None, overflow_line = 0, pid = 1, temp = None\<rparr>)
     3 (Some 41000) (Some (''a.c'' @ [NUL])) 12 PANIC_OVERHEAT (Some (''X'' @ [NUL])) PANIC_CLASS_SUPERVISOR
     (Continues \<lparr>FunctionTrace = \<lparr>FileName = Some (''b.c'' @ [NUL]), FunctionName = Some (''f'' @ [NUL]), Line = 9\<rparr> # replicate 63 no_entry,
        FunctionTraceDepth = 1, console = ''''\<rparr>) =
   Some (Inr (Halts \<lparr>FunctionTrace = \<lparr>FileName = Some (''b.c'' @ [NUL]), FunctionName = Some (''f'' @ [NUL]), Line = 9\<rparr> # replicate 63 no_entry,
        FunctionTraceDepth = 1, console = crlf @ '' -- KERNEL PANIC VIA SUPERVISOR IN PROCESS 3 -- '' @ crlf @
          ''Kernel Panic Function b (X) was raised'' @ crlf @ ''Temperature x1000: 41000'' @ crlf @
          ''Source Location: a.c:12'' @ crlf @ ''Trace Dump:'' @ crlf @ ''Top-1: b.c:9 (f)''\<rparr>))"
proof -
  let ?ts = "\<lparr>FileName = Some (''b.c'' @ [NUL]), FunctionName = Some (''f'' @ [NUL]), Line = 9\<rparr> # replicate 63 no_entry"
  let ?s = "\<lparr>FunctionTrace = ?ts, FunctionTraceDepth = 1, console = [] :: string\<rparr>"
  have ok: "trace_ok ?s" by (auto simp: trace_ok_def MAX_TRACE_DEPTH_def nth_Cons split: nat.splits)
  have n: "num_text 10 3 = ''3''" "num_text 16 11 = ''b''" "num_text 10 41000 = ''41000''" "num_text 10 12 = ''12''"
      "num_text 10 9 = ''9''" "num_text 16 (Suc 0) = ''1''"
    by (simp_all add: num_text.simps hex_digits_def)
  have report: "panic_text 3 (Some 41000) (Some (''a.c'' @ [NUL])) 12 PANIC_OVERHEAT (Some (''X'' @ [NUL])) PANIC_CLASS_SUPERVISOR 1 ?ts =
      crlf @ '' -- KERNEL PANIC VIA SUPERVISOR IN PROCESS 3 -- '' @ crlf @
          ''Kernel Panic Function b (X) was raised'' @ crlf @ ''Temperature x1000: 41000'' @ crlf @
          ''Source Location: a.c:12'' @ crlf @ ''Trace Dump:'' @ crlf @ ''Top-1: b.c:9 (f)''"
    by (simp add: panic_text_def entry_text_def ctext_def int_text_def n)
  have put: "put_string (\<lambda>c s. Some (s @ [c])) u v = Some (v @ u)" for u v :: string by (induction u arbitrary: v) simp_all
  have e: "\<forall>i < FunctionTraceDepth ?s. printable_entry (FunctionTrace ?s ! i)"
    by (simp add: printable_entry_def terminated_def INT_MIN_def)
  have p: "printable_panic 3 (Some 41000) (Some (''a.c'' @ [NUL])) 12 (Some (''X'' @ [NUL]))"
    by (simp add: printable_panic_def terminated_def INT_MIN_def)
  have d: "FunctionTraceDepth ?s < MAX_TRACE_DEPTH" by (simp add: MAX_TRACE_DEPTH_def)
  let ?put = "\<lambda>c s. Some (s @ [c])"
  let ?sr = "\<lparr>print_file = None, print_function = None, print_line = 0, overflow_file = None, overflow_line = 0, pid = 1, temp = None\<rparr>"
  have f: "FunctionTraceDepth ?s = 1" "FunctionTrace ?s = ?ts" "console ?s = []" by simp_all
  have "PanicImpl (traced_put (Suc 0) ?put ?sr) 3 (Some 41000) (Some (''a.c'' @ [NUL])) 12 PANIC_OVERHEAT (Some (''X'' @ [NUL]))
      PANIC_CLASS_SUPERVISOR (Continues ?s) = map_option (\<lambda>out. Inr (Halts (?s\<lparr>console := out\<rparr>)))
        (put_string ?put (panic_text 3 (Some 41000) (Some (''a.c'' @ [NUL])) 12 PANIC_OVERHEAT (Some (''X'' @ [NUL]))
          PANIC_CLASS_SUPERVISOR (FunctionTraceDepth ?s) (FunctionTrace ?s)) (console ?s))"
    by (rule PanicImpl_reports [OF ok d e p])
  then show ?thesis unfolding f report put option.map append.left_neutral by (simp only: One_nat_def tracing.update_convs)
qed

end
