(* ===== verification/KernelPrint.thy ===== *)
theory KernelPrint
  imports Kernel Printf
begin

text \<open>
  \<^verbatim>\<open>SerialPrint\<close> of \<open>Printf\<close> over the kernel's serial line of \<open>Kernel\<close>: what the
  modules and \<^verbatim>\<open>kmain\<close> print.
\<close>

definition kput :: "char \<Rightarrow> kernel \<Rightarrow> kernel option" where
  "kput c s = Some (Kernel.SerialPut c s)"

interpretation kline: serial_port kput "\<lambda>_. True" tx
  by unfold_locales (simp add: kput_def Kernel.SerialPut_def)

text \<open>Printing changes nothing but what the line has sent.\<close>

lemma kput_string: "put_string kput t s = Some (s\<lparr>tx := tx s @ t\<rparr>)"
  by (induction t arbitrary: s) (simp_all add: kput_def Kernel.SerialPut_def)

lemma kernel_prints: "render fmt args = Some t \<Longrightarrow> SerialPrint kput fmt args s = Some (Inr (s\<lparr>tx := tx s @ t\<rparr>))"
  using print_loop_text [of 0 fmt args t kput s] by (simp add: SerialPrint_def kput_string)

lemma render_plain: "NUL \<notin> set t \<Longrightarrow> CHR ''%'' \<notin> set t \<Longrightarrow> render (t @ [NUL]) args = Some t"
  by (induction t) auto

end
