(* ===== verification/Shell.thy ===== *)
theory Shell
  imports VFD KernelPrint
begin

text \<open>
  The shell module, \<^verbatim>\<open>src/modules/shell/main.c\<close>: \<^verbatim>\<open>Parse\<close> cuts a line
  into words, \<^verbatim>\<open>SystemCommand\<close> runs one line, \<^verbatim>\<open>Init\<close> reads lines from
  the terminal until the command is \<^verbatim>\<open>exit\<close>.

  The line is the list of its characters from the pointer to the end of its object, \<open>p\<close> the
  index of \<^verbatim>\<open>b\<close> in it; \<^verbatim>\<open>cmd\<close> is the list of its 32 rows of 64 characters.
  The kernel the module is linked against is that of \<open>VFD\<close>.
\<close>

section \<open>Parsing\<close>

definition CMDM_LEN :: nat where "CMDM_LEN = 64"
definition MARGS :: nat where "MARGS = 32"

text \<open>\<^verbatim>\<open>while (*b == ' ') b++\<close>\<close>

function skip_spaces :: "string \<Rightarrow> nat \<Rightarrow> nat result" where
  "skip_spaces b p =
     (if p < length b then if b ! p = CHR '' '' then skip_spaces b (p + 1) else Inr p else Inl Fault)"
  by auto
termination by (relation "measure (\<lambda>(b, p). length b - p)") auto

declare skip_spaces.simps [simp del]

text \<open>What stands for a character after a backslash.\<close>

definition escaped :: "char \<Rightarrow> char" where
  "escaped c =
     (if c = CHR ''n'' then CHR 0x0A else if c = CHR ''r'' then CHR 0x0D else if c = CHR ''t'' then CHR 0x09
      else if c = CHR ''a'' then CHR 0x07 else if c = CHR ''v'' then CHR 0x0B else c)"

text \<open>The loops that fill a row; they return \<open>b\<close>, the row and \<open>i\<close>.\<close>

function quoted_loop :: "string \<Rightarrow> nat \<Rightarrow> string \<Rightarrow> nat \<Rightarrow> (nat \<times> string \<times> nat) result" where
  "quoted_loop b p row i =
     (if p < length b
      then if b ! p \<noteq> NUL \<and> b ! p \<noteq> CHR 0x22 \<and> i < CMDM_LEN - 1
        then if b ! p = CHR 0x5C
          then if p + 1 < length b
            then if b ! (p + 1) \<noteq> NUL
              then rbind (cset row i (escaped (b ! (p + 1)))) (\<lambda>row1. quoted_loop b (p + 2) row1 (i + 1))
              else rbind (cset row i (b ! p)) (\<lambda>row1. quoted_loop b (p + 1) row1 (i + 1))
            else Inl Fault
          else rbind (cset row i (b ! p)) (\<lambda>row1. quoted_loop b (p + 1) row1 (i + 1))
        else Inr (p, row, i)
      else Inl Fault)"
  by auto
termination by (relation "measure (\<lambda>(b, p, r, i). length b - p)") auto

declare quoted_loop.simps [simp del]

function plain_loop :: "string \<Rightarrow> nat \<Rightarrow> string \<Rightarrow> nat \<Rightarrow> (nat \<times> string \<times> nat) result" where
  "plain_loop b p row i =
     (if p < length b
      then if b ! p \<noteq> NUL \<and> b ! p \<noteq> CHR '' '' \<and> i < CMDM_LEN - 1
        then rbind (cset row i (b ! p)) (\<lambda>row1. plain_loop b (p + 1) row1 (i + 1))
        else Inr (p, row, i)
      else Inl Fault)"
  by auto
termination by (relation "measure (\<lambda>(b, p, r, i). length b - p)") auto

declare plain_loop.simps [simp del]

text \<open>One word into row \<open>row\<close>: where \<open>b\<close> is after it, and the row.\<close>

definition parse_word :: "string \<Rightarrow> nat \<Rightarrow> string \<Rightarrow> (nat \<times> string) result" where
  "parse_word b p row =
     rbind (cget b p) (\<lambda>c.
     rbind (if c = CHR 0x22
            then rbind (quoted_loop b (p + 1) row 0) (\<lambda>(p1, row1, i).
                 rbind (cget b p1) (\<lambda>c1. Inr (if c1 = CHR 0x22 then p1 + 1 else p1, row1, i)))
            else plain_loop b p row 0) (\<lambda>(p1, row1, i).
     rbind (cset row1 i NUL) (\<lambda>row2. Inr (p1, row2))))"

function parse_loop :: "string \<Rightarrow> nat \<Rightarrow> nat \<Rightarrow> string list \<Rightarrow> (nat \<times> string list) result" where
  "parse_loop b p N cmd =
     rbind (cget b p) (\<lambda>c.
       if c \<noteq> NUL \<and> N < MARGS
       then rbind (skip_spaces b p) (\<lambda>p1. rbind (cget b p1) (\<lambda>c1.
         if c1 = NUL then Inr (N, cmd)
         else if N < length cmd
           then rbind (parse_word b p1 (cmd ! N)) (\<lambda>(p2, row). parse_loop b p2 (N + 1) (cmd[N := row]))
           else Inl Fault))
       else Inr (N, cmd))"
  by auto
termination by (relation "measure (\<lambda>(b, p, N, cmd). MARGS - N)") auto

declare parse_loop.simps [simp del]

definition Parse :: "string \<Rightarrow> string list \<Rightarrow> (nat \<times> string list) result" where
  "Parse b cmd = parse_loop b 0 0 cmd"

section \<open>Commands\<close>

abbreviation crnl :: string where
  "crnl \<equiv> [CHR 0x0D, CHR 0x0A]"

definition empty_cmd :: "string list" where
  "empty_cmd = replicate MARGS (replicate CMDM_LEN NUL)"

text \<open>\<^verbatim>\<open>cdir()->RelativeFind(cdir(), arg, strnlen(arg, 1024))\<close>\<close>

definition find_from_cdir :: "string \<Rightarrow> kernel \<Rightarrow> addr outcome" where
  "find_from_cdir arg s =
     obind (Some (cdir s)) (\<lambda>d.
     obind (Some (node d s)) (\<lambda>n.
     obind (Some (strnlen (Some arg) 1024)) (\<lambda>len.
     call_RelativeFind (RelativeFind n) d (Some arg) len s)))"

partial_function (option) ls_loop :: "addr \<Rightarrow> kernel \<Rightarrow> kernel outcome" where
  "ls_loop Ele s =
     (if Ele \<noteq> NULL
      then obind (Some (node Ele s)) (\<lambda>n.
           obind (SerialPrint kput (''%s'' @ crnl @ [NUL]) [VaPtr (Some (VNodeString.Name (Name n)))] s) (\<lambda>s1.
           obind (Some (node Ele s1)) (\<lambda>n1. ls_loop (Next n1) s1)))
      else Some (Inr s))"

text \<open>\<open>chr\<close> is the address of the local variable of that name.\<close>

partial_function (option) type_loop :: "addr \<Rightarrow> addr \<Rightarrow> kernel \<Rightarrow> kernel outcome" where
  "type_loop Fil chr s =
     obind (Some (node Fil s)) (\<lambda>n.
     obind (call_ReadFunction (ReadFunction n) chr 1 1 Fil s) (\<lambda>(r, s1).
       if r = 1 \<and> mem s1 chr \<noteq> 0
       then obind (SerialPrint kput (''%c'' @ [NUL]) [VaInt (scast (mem s1 chr))] s1) (type_loop Fil chr)
       else Some (Inr s1)))"

definition goober :: "string list" where
  "goober =
     [crnl @ ''        /'' @ [CHR 0x5C] @ ''_/'' @ [CHR 0x5C] @ crnl @ [NUL],
      ''       | o o |'' @ crnl @ [NUL],
      ''/-----/-------'' @ [CHR 0x5C] @ ''------'' @ [CHR 0x5C] @ ''  UnarddegOS'' @ crnl @ [NUL],
      ''|    This Is The,    |'' @ crnl @ [NUL],
      ''| The The The The :3 |'' @ crnl @ [NUL],
      ''|              -josh |'' @ crnl @ [NUL],
      [CHR 0x5C] @ ''--------------------/'' @ crnl @ crnl @ [NUL]]"

fun print_all :: "string list \<Rightarrow> kernel \<Rightarrow> kernel outcome" where
  "print_all [] s = Some (Inr s)"
| "print_all (l # ls) s = obind (SerialPrint kput l [] s) (print_all ls)"

text \<open>\<^verbatim>\<open>!strncmp(word, literal, n)\<close>\<close>

definition is_command :: "string \<Rightarrow> string \<Rightarrow> nat \<Rightarrow> bool result" where
  "is_command word0 literal n = rbind (strncmp (Some word0) (Some (literal @ [NUL])) n) (\<lambda>r. Inr (r = 0))"

definition run_command :: "addr \<Rightarrow> nat \<Rightarrow> string list \<Rightarrow> kernel \<Rightarrow> (bool \<times> kernel) outcome" where
  "run_command chr argc cmd s =
     obind (Some (is_command (cmd ! 0) ''goober'' 6)) (\<lambda>g.
     if g then obind (print_all goober s) (\<lambda>s1. Some (Inr (True, s1)))
     else obind (Some (is_command (cmd ! 0) ''cd'' 3)) (\<lambda>g.
     if g \<and> argc = 2 then obind (chdir (Some (cmd ! 1)) s) (\<lambda>s1. Some (Inr (True, s1)))
     else obind (Some (is_command (cmd ! 0) ''ls'' 3)) (\<lambda>g.
     if g \<and> argc = 2 then
       obind (find_from_cdir (cmd ! 1) s) (\<lambda>f.
       obind (Some (node f s)) (\<lambda>n.
       obind (ls_loop (FirstChild n) s) (\<lambda>s1. Some (Inr (True, s1)))))
     else obind (Some (is_command (cmd ! 0) ''type'' 5)) (\<lambda>g.
     if g \<and> argc = 2 then
       obind (find_from_cdir (cmd ! 1) s) (\<lambda>Fil.
       obind (type_loop Fil chr (s\<lparr>mem := (mem s)(chr := 0)\<rparr>)) (\<lambda>s1. Some (Inr (True, s1))))
     else obind (Some (is_command (cmd ! 0) ''exit'' 4)) (\<lambda>g. Some (Inr (\<not> g, s)))))))"

definition SystemCommand :: "addr \<Rightarrow> string \<Rightarrow> kernel \<Rightarrow> (bool \<times> kernel) outcome" where
  "SystemCommand chr sys s = obind (Some (Parse sys empty_cmd)) (\<lambda>(argc, cmd). run_command chr argc cmd s)"

section \<open>The prompt\<close>

text \<open>
  \<open>Buffer\<close> is the address of the local array of 256 characters; what \<^verbatim>\<open>SystemCommand\<close>
  is given is the array's text.
\<close>

definition buffer_text :: "addr \<Rightarrow> kernel \<Rightarrow> string" where
  "buffer_text Buffer s = map char_of_byte (load_bytes (mem s) Buffer 256)"

definition prompt :: string where
  "prompt = [CHR 0x5C, CHR 0x60] @ ''(owo'' @ [CHR 0x60] @ '')o -> '' @ [NUL]"

definition shell_turn :: "u64 \<Rightarrow> addr \<Rightarrow> addr \<Rightarrow> kernel \<Rightarrow> (bool \<times> kernel) outcome" where
  "shell_turn fd Buffer chr s =
     obind (Some (memset Buffer 0 256 (mem s))) (\<lambda>m.
     obind (SerialPrint kput prompt [] (s\<lparr>mem := m\<rparr>)) (\<lambda>s1.
     obind (fd_read fd Buffer 256 s1) (\<lambda>(r, s2).
     SystemCommand chr (buffer_text Buffer s2) s2)))"

partial_function (option) shell_loop :: "u64 \<Rightarrow> addr \<Rightarrow> addr \<Rightarrow> kernel \<Rightarrow> kernel outcome" where
  "shell_loop fd Buffer chr s =
     obind (shell_turn fd Buffer chr s) (\<lambda>(running, s1).
       if running then shell_loop fd Buffer chr s1 else Some (Inr s1))"

text \<open>
  \<^verbatim>\<open>Init\<close>; with the result, what it leaves in \<^verbatim>\<open>CurrentNode\<close>, which
  nothing reads.
\<close>

definition Init :: "addr \<Rightarrow> addr \<Rightarrow> kernel \<Rightarrow> (addr \<times> u32 \<times> kernel) outcome" where
  "Init Buffer chr s =
     (let CurrentNode = RootVNode s
      in obind (fd_open (Some (''/dev/tty0'' @ [NUL])) 0 s) (\<lambda>(fd, s1).
         obind (SystemCommand chr (''goober'' @ [NUL]) s1) (\<lambda>(_, s2).
         obind (shell_loop fd Buffer chr s2) (\<lambda>s3.
         obind (fd_close fd s3) (\<lambda>s4. Some (Inr (CurrentNode, 0, s4)))))))"

section \<open>What a line means\<close>

text \<open>
  The words of a line, in terms of the line alone: a word starts at the first character that is not a
  space. \<open>k\<close> is how many characters a row still takes.
\<close>

fun unquote :: "nat \<Rightarrow> string \<Rightarrow> string \<times> string" where
  "unquote 0 t = ([], t)"
| "unquote (Suc k) [] = ([], [])"
| "unquote (Suc k) [c] = (if c = CHR 0x22 then ([], [c]) else ([c], []))"
| "unquote (Suc k) (c # d # t) =
     (if c = CHR 0x22 then ([], c # d # t)
      else if c = CHR 0x5C then apfst (Cons (escaped d)) (unquote k t)
      else apfst (Cons c) (unquote k (d # t)))"

definition next_word :: "string \<Rightarrow> string \<times> string" where
  "next_word t =
     (if hd t = CHR 0x22
      then let (w, r) = unquote (CMDM_LEN - 1) (tl t) in (w, if r \<noteq> [] \<and> hd r = CHR 0x22 then tl r else r)
      else let n = min (CMDM_LEN - 1) (length (takeWhile (\<lambda>c. c \<noteq> CHR '' '') t)) in (take n t, drop n t))"

fun line_words :: "nat \<Rightarrow> string \<Rightarrow> string list" where
  "line_words 0 t = []"
| "line_words (Suc n) t =
     (let u = dropWhile (\<lambda>c. c = CHR '' '') t
      in if u = [] then [] else let (w, r) = next_word u in w # line_words n r)"

definition row_of :: "string \<Rightarrow> string" where
  "row_of w = w @ replicate (CMDM_LEN - length w) NUL"

definition overwrite :: "string \<Rightarrow> nat \<Rightarrow> string \<Rightarrow> string" where
  "overwrite row i w = take i row @ w @ drop (i + length w) row"

lemma overwrite_simps [simp]:
  "overwrite row i [] = row"
  "length row = n \<Longrightarrow> i + length w \<le> n \<Longrightarrow> length (overwrite row i w) = n"
  by (simp_all add: overwrite_def)

lemma overwrite_Cons: "i < length row \<Longrightarrow> overwrite (row[i := c]) (Suc i) w = overwrite row i (c # w)"
  by (simp add: overwrite_def take_Suc_conv_app_nth)

lemma unquote_Nil [simp]: "unquote k [] = ([], [])"
  by (cases k) simp_all

lemma length_unquote: "length (fst (unquote k t)) \<le> k"
  by (induction k t rule: unquote.induct) auto

lemma set_unquote: "set (snd (unquote k t)) \<subseteq> set t"
  by (induction k t rule: unquote.induct) auto

lemma drop_eq_Cons: "drop p b = c # t \<Longrightarrow> p < length b \<and> b ! p = c \<and> drop (Suc p) b = t"
  by (metis drop_eq_Nil drop_Suc list.discI list.sel(3) not_less nth_via_drop tl_drop)

lemma skip_spaces_line:
  "drop p b = t @ NUL # z \<Longrightarrow>
     \<exists>p'. skip_spaces b p = Inr p' \<and> drop p' b = dropWhile (\<lambda>c. c = CHR '' '') t @ NUL # z"
proof (induction t arbitrary: p)
  case Nil
  then show ?case using drop_eq_Cons [of p b NUL z] by (auto simp: skip_spaces.simps)
next
  case (Cons c t)
  then have d: "p < length b" "b ! p = c" "drop (Suc p) b = t @ NUL # z" using drop_eq_Cons [of p b c] by auto
  show ?case using Cons d by (subst skip_spaces.simps) auto
qed

lemma quoted_loop_line:
  assumes "k = CMDM_LEN - 1 - i" "i \<le> CMDM_LEN - 1" "drop p b = t @ NUL # z" "NUL \<notin> set t" "length row = CMDM_LEN"
  shows "\<exists>p'. quoted_loop b p row i = Inr (p', overwrite row i (fst (unquote k t)), i + length (fst (unquote k t))) \<and>
    drop p' b = snd (unquote k t) @ NUL # z"
  using assms
proof (induction k t arbitrary: p row i rule: unquote.induct)
  case (1 t)
  then have "p < length b" "i = CMDM_LEN - 1" using drop_eq_Cons [of p b] by (cases t; force)+
  then show ?case using 1 by (subst quoted_loop.simps) simp
next
  case (2 k)
  then show ?case using drop_eq_Cons [of p b NUL z] by (subst quoted_loop.simps) simp
next
  case (3 k c)
  then have d: "p < length b" "b ! p = c" "drop (Suc p) b = NUL # z" using drop_eq_Cons [of p b c] by auto
  then have e: "Suc p < length b" "b ! Suc p = NUL" using drop_eq_Cons [of "Suc p" b] by auto
  have i: "i < CMDM_LEN - 1" "i < length row" using 3 by (auto simp: CMDM_LEN_def)
  have "quoted_loop b (Suc p) (row[i := c]) (Suc i) = Inr (Suc p, row[i := c], Suc i)"
    using e by (subst quoted_loop.simps) simp
  then show ?case using "3.prems"(3,4,5) d e i overwrite_Cons [of i row c "[]"] by (subst quoted_loop.simps) auto
next
  case (4 k c d t)
  then have p: "p < length b" "b ! p = c" "drop (Suc p) b = d # t @ NUL # z" using drop_eq_Cons [of p b c] by auto
  then have q: "Suc p < length b" "b ! Suc p = d" "drop (Suc (Suc p)) b = t @ NUL # z" using drop_eq_Cons [of "Suc p" b] by auto
  have i: "i < CMDM_LEN - 1" "k = CMDM_LEN - 1 - Suc i" "Suc i \<le> CMDM_LEN - 1" "i < length row"
    using 4 by (auto simp: CMDM_LEN_def)
  have n: "c \<noteq> NUL" "d \<noteq> NUL" "NUL \<notin> set t" using 4 by auto
  consider "c = CHR 0x22" | "c = CHR 0x5C" | "c \<noteq> CHR 0x22" "c \<noteq> CHR 0x5C" by blast
  then show ?case
  proof cases
    case 1
    then show ?thesis using p "4.prems"(3) by (subst quoted_loop.simps) auto
  next
    case 2
    have len: "length (row[i := escaped d]) = CMDM_LEN" using 4 by simp
    have ne: "c \<noteq> CHR 0x22" using 2 by simp
    from "4.IH"(1) [OF ne 2 i(2,3) q(3) n(3) len]
    show ?thesis using p q n i 2 by (subst quoted_loop.simps) (auto simp: overwrite_Cons)
  next
    case 3
    have len: "length (row[i := c]) = CMDM_LEN" using 4 by simp
    have dt: "drop (Suc p) b = (d # t) @ NUL # z" "NUL \<notin> set (d # t)" using p n by auto
    from "4.IH"(2) [OF 3 i(2,3) dt len]
    show ?thesis using p q n i 3 by (subst quoted_loop.simps) (auto simp: overwrite_Cons)
  qed
qed

lemma plain_loop_line:
  assumes "drop p b = t @ NUL # z" "NUL \<notin> set t" "length row = CMDM_LEN" "i \<le> CMDM_LEN - 1"
  defines "n \<equiv> min (CMDM_LEN - 1 - i) (length (takeWhile (\<lambda>c. c \<noteq> CHR '' '') t))"
  shows "plain_loop b p row i = Inr (p + n, overwrite row i (take n t), i + n)"
  using assms(1-4) unfolding n_def
proof (induction t arbitrary: p row i)
  case Nil
  then show ?case using drop_eq_Cons [of p b NUL z] by (subst plain_loop.simps) auto
next
  case (Cons c t)
  then have p: "p < length b" "b ! p = c" "drop (Suc p) b = t @ NUL # z" using drop_eq_Cons [of p b c] by auto
  show ?case
  proof (cases "c \<noteq> CHR '' '' \<and> i < CMDM_LEN - 1")
    case True
    have i: "Suc i \<le> CMDM_LEN - 1" "i < length row" "length (row[i := c]) = CMDM_LEN" "NUL \<notin> set t"
      using True Cons by auto
    obtain M where m: "CMDM_LEN - Suc i = Suc M" "CMDM_LEN - Suc (Suc i) = M"
      using True by (cases "CMDM_LEN - Suc i") auto
    show ?thesis
      using Cons.IH [OF p(3) i(4,3,1)] True Cons.prems(2) p i
      by (subst plain_loop.simps) (simp add: m overwrite_Cons)
  next
    case False
    then show ?thesis using Cons.prems p by (subst plain_loop.simps) auto
  qed
qed

lemma row_of_overwrite: "length w \<le> CMDM_LEN \<Longrightarrow> overwrite (replicate CMDM_LEN NUL) 0 w = row_of w"
  by (simp add: overwrite_def row_of_def)

lemma row_of_terminated: "length w < CMDM_LEN \<Longrightarrow> (row_of w)[length w := NUL] = row_of w"
  by (cases "CMDM_LEN - length w") (simp_all add: row_of_def list_update_append)

lemma length_row_of: "length w \<le> CMDM_LEN \<Longrightarrow> length (row_of w) = CMDM_LEN"
  by (simp add: row_of_def)

lemma next_word_bounds: "length (fst (next_word t)) \<le> CMDM_LEN - 1" "set (snd (next_word t)) \<subseteq> set t"
proof -
  obtain w r where wr: "unquote (CMDM_LEN - 1) (tl t) = (w, r)" by (cases "unquote (CMDM_LEN - 1) (tl t)")
  then have w: "length w \<le> CMDM_LEN - 1" and r: "set r \<subseteq> set (tl t)"
    using length_unquote [of "CMDM_LEN - 1" "tl t"] set_unquote [of "CMDM_LEN - 1" "tl t"] by simp_all
  from r have r: "set r \<subseteq> set t" "set (tl r) \<subseteq> set t" by (cases t; cases r; auto)+
  show "length (fst (next_word t)) \<le> CMDM_LEN - 1" using w by (simp add: next_word_def Let_def wr [simplified] min_le_iff_disj)
  show "set (snd (next_word t)) \<subseteq> set t" using r by (simp add: next_word_def Let_def wr [simplified] set_drop_subset)
qed

lemma parse_word_line:
  assumes "drop p b = t @ NUL # z" "t \<noteq> []" "NUL \<notin> set t"
  shows "\<exists>p'. parse_word b p (replicate CMDM_LEN NUL) = Inr (p', row_of (fst (next_word t))) \<and>
    drop p' b = snd (next_word t) @ NUL # z"
proof -
  let ?row = "replicate CMDM_LEN NUL"
  obtain c u where t: "t = c # u" using assms(2) by (cases t) auto
  then have p: "p < length b" "b ! p = c" "drop (Suc p) b = u @ NUL # z" using drop_eq_Cons [of p b c] assms(1) by auto
  have w: "length (fst (next_word t)) \<le> CMDM_LEN - 1" by (rule next_word_bounds)
  have L: "CMDM_LEN - 1 < CMDM_LEN" by (simp add: CMDM_LEN_def)
  show ?thesis
  proof (cases "c = CHR 0x22")
    case True
    obtain v r where vr: "unquote (CMDM_LEN - 1) u = (v, r)" by (cases "unquote (CMDM_LEN - 1) u")
    have "NUL \<notin> set u" using assms(3) t by simp
    from quoted_loop_line [OF _ _ p(3) this, of "CMDM_LEN - 1" 0 ?row] obtain p'
      where q: "quoted_loop b (Suc p) ?row 0 = Inr (p', overwrite ?row 0 v, length v)" "drop p' b = r @ NUL # z"
      by (auto simp: vr [simplified])
    have v: "length v \<le> CMDM_LEN - 1" "length v < CMDM_LEN" "length v \<le> CMDM_LEN"
      using length_unquote [of "CMDM_LEN - 1" u] L vr by auto
    obtain d e where de: "r @ NUL # z = d # e" by (cases "r @ NUL # z") auto
    then have p': "p' < length b" "b ! p' = d" "drop (Suc p') b = e" using drop_eq_Cons [of p' b d e] q(2) by auto
    have hd: "d = CHR 0x22 \<longleftrightarrow> r \<noteq> [] \<and> hd r = CHR 0x22" using de by (cases r) auto
    have tl: "r \<noteq> [] \<Longrightarrow> e = tl r @ NUL # z" using de by (cases r) auto
    have "next_word t = (v, if r \<noteq> [] \<and> hd r = CHR 0x22 then tl r else r)"
      using t True vr by (simp add: next_word_def)
    then show ?thesis using True p q p' hd tl v
      by (auto simp: parse_word_def row_of_overwrite length_row_of row_of_terminated)
  next
    case False
    let ?n = "min (CMDM_LEN - 1) (length (takeWhile (\<lambda>c. c \<noteq> CHR '' '') t))"
    have nw: "next_word t = (take ?n t, drop ?n t)" using t False by (simp add: next_word_def Let_def)
    have n: "?n \<le> length t" using length_takeWhile_le [of _ t] by (simp add: min.coboundedI2)
    have "drop (p + ?n) b = drop ?n t @ NUL # z"
      using assms(1) n by (metis add.commute drop_append drop_drop diff_is_0_eq drop_0)
    moreover have "plain_loop b p ?row 0 = Inr (p + ?n, row_of (take ?n t), ?n)"
      using plain_loop_line [OF assms(1,3), of ?row 0] L by (simp add: row_of_overwrite)
    moreover have "length (take ?n t) = ?n" using n by simp
    then have "(row_of (take ?n t))[?n := NUL] = row_of (take ?n t)" "length (row_of (take ?n t)) = CMDM_LEN" "?n < CMDM_LEN"
      using row_of_terminated [of "take ?n t"] length_row_of [of "take ?n t"] L by auto
    ultimately show ?thesis using False p unfolding nw by (simp add: parse_word_def)
  qed
qed

lemma line_words_bounds: "length (line_words n t) \<le> n" "w \<in> set (line_words n t) \<Longrightarrow> length w \<le> CMDM_LEN - 1"
  using next_word_bounds(1)
  by (induction n t rule: line_words.induct) (auto simp: Let_def split: prod.splits if_splits, metis fst_conv)

lemma parse_loop_line:
  assumes "drop p b = t @ NUL # z" "NUL \<notin> set t" "length ws + n = MARGS"
  shows "parse_loop b p (length ws) (map row_of ws @ replicate n (replicate CMDM_LEN NUL)) =
    Inr (length ws + length (line_words n t),
         map row_of (ws @ line_words n t) @ replicate (n - length (line_words n t)) (replicate CMDM_LEN NUL))"
  using assms
proof (induction n t arbitrary: p ws rule: line_words.induct)
  case (1 t)
  then have "p < length b" using drop_eq_Cons [of p b] by (cases t) force+
  then show ?case using 1 by (subst parse_loop.simps) simp
next
  case (2 n t)
  let ?cmd = "map row_of ws @ replicate (Suc n) (replicate CMDM_LEN NUL)"
  let ?u = "dropWhile (\<lambda>c. c = CHR '' '') t"
  show ?case
  proof (cases "t = []")
    case True
    then show ?thesis using "2.prems" drop_eq_Cons [of p b NUL z] by (subst parse_loop.simps) simp
  next
    case False
    then obtain c v where t: "t = c # v" by (cases t) auto
    then have c: "p < length b" "b ! p = c" "c \<noteq> NUL" using "2.prems" drop_eq_Cons [of p b c] by auto
    obtain p1 where p1: "skip_spaces b p = Inr p1" "drop p1 b = ?u @ NUL # z"
      using skip_spaces_line [OF "2.prems"(1)] by blast
    have u: "NUL \<notin> set ?u" using "2.prems"(2) set_dropWhileD by fastforce
    have N: "length ws < MARGS" using "2.prems"(3) by simp
    show ?thesis
    proof (cases "?u = []")
      case True
      then have "p1 < length b" "b ! p1 = NUL" using p1(2) drop_eq_Cons [of p1 b NUL z] by auto
      then show ?thesis using True c N p1(1) by (subst parse_loop.simps) (simp add: Let_def)
    next
      case False
      obtain d e where de: "?u = d # e" using False by (cases ?u) auto
      have d: "p1 < length b" "b ! p1 = d" using p1(2) drop_eq_Cons [of p1 b d] by (auto simp: de)
      have dn: "d \<noteq> NUL" using u unfolding de by auto
      obtain w r where wr: "next_word ?u = (w, r)" by (cases "next_word ?u")
      obtain p2 where p2: "parse_word b p1 (replicate CMDM_LEN NUL) = Inr (p2, row_of w)" "drop p2 b = r @ NUL # z"
        using parse_word_line [OF p1(2) False u] wr by auto
      have r: "NUL \<notin> set r" using next_word_bounds(2) [of ?u] u wr by auto
      have ws: "length (ws @ [w]) + n = MARGS" using "2.prems"(3) by simp
      have row: "?cmd ! length ws = replicate CMDM_LEN NUL" "length ws < length ?cmd"
        by (simp_all add: nth_append del: replicate.simps)
      have upd: "?cmd[length ws := row_of w] = map row_of (ws @ [w]) @ replicate n (replicate CMDM_LEN NUL)"
        by (simp add: list_update_append)
      have lw: "line_words (Suc n) t = w # line_words n r" using False wr by (simp add: Let_def)
      have step: "parse_loop b p (length ws) ?cmd =
          parse_loop b p2 (length (ws @ [w])) (map row_of (ws @ [w]) @ replicate n (replicate CMDM_LEN NUL))"
        using c N p1(1) d dn row p2(1) upd by (subst parse_loop.simps) (simp del: replicate.simps)
      show ?thesis unfolding step "2.IH" [OF refl False wr [symmetric] refl p2(2) r ws] lw by simp
    qed
  qed
qed

text \<open>
  \<^verbatim>\<open>Parse\<close> on a terminated line always returns, without touching anything outside
  the line and the 32 rows of 64 characters: it finds the words of the line, at most 32 of at most 63
  characters, puts each one into its row with its end, and leaves the other rows empty.
\<close>

theorem Parse_words:
  assumes "NUL \<notin> set line"
  shows "let ws = line_words MARGS line
    in Parse (line @ NUL # junk) empty_cmd =
         Inr (length ws, map row_of ws @ replicate (MARGS - length ws) (replicate CMDM_LEN NUL)) \<and>
       length ws \<le> MARGS \<and> (\<forall>w \<in> set ws. length w < CMDM_LEN)"
proof -
  have "parse_loop (line @ NUL # junk) 0 (length ([] :: string list)) empty_cmd = Inr (length (line_words MARGS line),
      map row_of (line_words MARGS line) @ replicate (MARGS - length (line_words MARGS line)) (replicate CMDM_LEN NUL))"
    using parse_loop_line [of 0 "line @ NUL # junk" line junk "[]" MARGS] assms by (simp add: empty_cmd_def)
  moreover have "length (line_words MARGS line) \<le> MARGS" by (rule line_words_bounds)
  moreover have "\<forall>w \<in> set (line_words MARGS line). length w < CMDM_LEN"
    using line_words_bounds(2) [of _ MARGS line] by (fastforce simp: CMDM_LEN_def)
  ultimately show ?thesis by (simp add: Parse_def)
qed

theorem Parse_words_witness:
  "map_sum id fst (Parse (''cd  /dev'' @ NUL # ''xyz'') empty_cmd) = Inr 2"
  using Parse_words [of "''cd  /dev''" "''xyz''"]
  by (simp add: MARGS_def numeral_eq_Suc next_word_def CMDM_LEN_def Let_def)

section \<open>Words that come back\<close>

definition escape :: "char \<Rightarrow> string" where
  "escape c =
     (if c = CHR 0x22 \<or> c = CHR 0x5C then [CHR 0x5C, c]
      else if c = CHR 0x0A then [CHR 0x5C, CHR ''n''] else if c = CHR 0x0D then [CHR 0x5C, CHR ''r'']
      else if c = CHR 0x09 then [CHR 0x5C, CHR ''t''] else if c = CHR 0x07 then [CHR 0x5C, CHR ''a'']
      else if c = CHR 0x0B then [CHR 0x5C, CHR ''v''] else [c])"

definition quote_word :: "string \<Rightarrow> string" where
  "quote_word w = CHR 0x22 # concat (map escape w) @ [CHR 0x22]"

definition command_line :: "string list \<Rightarrow> string" where
  "command_line ws = concat (map (\<lambda>w. quote_word w @ '' '') ws)"

lemma escape_cases:
  obtains (escaped) d where "escape c = [CHR 0x5C, d]" "escaped d = c" "d \<noteq> NUL"
    | (plain) "escape c = [c]" "c \<noteq> CHR 0x22" "c \<noteq> CHR 0x5C"
proof -
  have "(\<exists>d. escape c = [CHR 0x5C, d] \<and> escaped d = c \<and> d \<noteq> NUL) \<or> (escape c = [c] \<and> c \<noteq> CHR 0x22 \<and> c \<noteq> CHR 0x5C)"
    by (simp add: escape_def escaped_def)
  then show thesis using escaped plain by blast
qed

lemma unquote_escape: "length w \<le> k \<Longrightarrow> unquote k (concat (map escape w) @ CHR 0x22 # r) = (w, CHR 0x22 # r)"
proof (induction w arbitrary: k)
  case Nil
  then show ?case by (cases k; cases r) simp_all
next
  case (Cons c w)
  then obtain m where k: "k = Suc m" "length w \<le> m" by (cases k) auto
  note IH = Cons.IH [OF k(2)]
  show ?case
  proof (cases c rule: escape_cases)
    case (escaped d)
    then show ?thesis by (simp add: k(1) IH)
  next
    case plain
    obtain d t where dt: "concat (map escape w) @ CHR 0x22 # r = d # t"
      by (cases "concat (map escape w) @ CHR 0x22 # r") auto
    with IH plain show ?thesis by (simp add: k(1))
  qed
qed

lemma escape_no_NUL: "NUL \<notin> set w \<Longrightarrow> NUL \<notin> set (concat (map escape w))"
proof (induction w)
  case (Cons c w)
  then show ?case by (cases c rule: escape_cases) auto
qed simp

lemma line_words_command_line:
  "length ws \<le> n \<Longrightarrow> \<forall>w \<in> set ws. length w < CMDM_LEN \<Longrightarrow> line_words n ('' '' @ command_line ws) = ws"
proof (induction ws arbitrary: n)
  case Nil
  then show ?case by (cases n) (simp_all add: command_line_def)
next
  case (Cons w ws)
  then obtain m where n: "n = Suc m" "length ws \<le> m" by (cases n) auto
  have l: "length w \<le> CMDM_LEN - 1" using Cons.prems by (auto simp: CMDM_LEN_def)
  have "next_word (quote_word w @ '' '' @ command_line ws) = (w, '' '' @ command_line ws)"
    using unquote_escape [OF l, of "'' '' @ command_line ws"] by (simp add: next_word_def quote_word_def)
  moreover have "command_line (w # ws) = quote_word w @ '' '' @ command_line ws" by (simp add: command_line_def)
  moreover have "dropWhile (\<lambda>c. c = CHR '' '') (quote_word w @ t) = quote_word w @ t" for t by (simp add: quote_word_def)
  ultimately show ?case using Cons n by (simp add: Let_def quote_word_def)
qed

lemma command_line_no_NUL: "\<forall>w \<in> set ws. NUL \<notin> set w \<Longrightarrow> NUL \<notin> set (command_line ws)"
proof (induction ws)
  case (Cons w ws)
  then show ?case using escape_no_NUL [of w] by (auto simp: command_line_def quote_word_def)
qed (simp add: command_line_def)

text \<open>
  C16. Any list of at most 32 words of at most 63 characters can be given to the shell: written
  between quotes, with the backslash, the quote and the control characters escaped, the words come back
  out of \<^verbatim>\<open>Parse\<close>, each in its row, in order and as many as they are. This includes
  empty words and words of spaces.
\<close>

theorem Parse_quoted_words:
  assumes "length ws \<le> MARGS" "\<forall>w \<in> set ws. length w < CMDM_LEN \<and> NUL \<notin> set w"
  shows "\<exists>cmd. Parse ('' '' @ command_line ws @ [NUL]) empty_cmd = Inr (length ws, cmd) \<and>
    map (takeWhile (\<lambda>c. c \<noteq> NUL)) (take (length ws) cmd) = ws"
proof -
  have "NUL \<notin> set ('' '' @ command_line ws)" using command_line_no_NUL assms(2) by auto
  from parse_loop_line [of 0 "('' '' @ command_line ws) @ NUL # []" "'' '' @ command_line ws" "[]" "[]" MARGS, OF _ this]
  have "Parse ('' '' @ command_line ws @ [NUL]) empty_cmd =
      Inr (length ws, map row_of ws @ replicate (MARGS - length ws) (replicate CMDM_LEN NUL))"
    using line_words_command_line [OF assms(1)] assms(2) by (simp add: Parse_def empty_cmd_def)
  moreover have "takeWhile (\<lambda>c. c \<noteq> NUL) (row_of w) = w" if "w \<in> set ws" for w
    using assms(2) that by (auto simp: row_of_def takeWhile_append2 intro!: takeWhile_eq_all_conv [THEN iffD2])
      (auto simp: takeWhile_append)
  then have "map (takeWhile (\<lambda>c. c \<noteq> NUL)) (map row_of ws) = ws" by (simp add: map_idI)
  ultimately show ?thesis by simp
qed

theorem Parse_quoted_words_witness:
  "\<exists>cmd. Parse ('' '' @ command_line [''type'', ''a b'', []] @ [NUL]) empty_cmd = Inr (3, cmd) \<and>
    map (takeWhile (\<lambda>c. c \<noteq> NUL)) (take 3 cmd) = [''type'', ''a b'', []]"
  using Parse_quoted_words [of "[''type'', ''a b'', []]"] by (simp add: MARGS_def CMDM_LEN_def numeral_3_eq_3)

section \<open>A line without end\<close>

lemma quoted_loop_fault: "quoted_loop b p row i = Inl e \<Longrightarrow> e = Fault"
proof (induction b p row i rule: quoted_loop.induct)
  case (1 b p row i)
  show ?case using "1.IH" "1.prems" [unfolded quoted_loop.simps [of b p row i]]
    by (auto simp: rbind_Inl_iff cset_def split: if_splits)
qed

lemma plain_loop_fault: "plain_loop b p row i = Inl e \<Longrightarrow> e = Fault"
proof (induction b p row i rule: plain_loop.induct)
  case (1 b p row i)
  show ?case using "1.IH" "1.prems" [unfolded plain_loop.simps [of b p row i]]
    by (auto simp: rbind_Inl_iff cset_def split: if_splits)
qed

lemma parse_word_fault: "parse_word b p row = Inl e \<Longrightarrow> e = Fault"
  using quoted_loop_fault plain_loop_fault by (auto simp: parse_word_def rbind_Inl_iff cget_def cset_def split: if_splits prod.splits)

lemma skip_spaces_inside: "skip_spaces b p = Inr q \<Longrightarrow> q < length b"
  by (induction b p rule: skip_spaces.induct) (subst (asm) (2) skip_spaces.simps, auto split: if_splits)

lemma skip_spaces_fault: "skip_spaces b p = Inl e \<Longrightarrow> e = Fault"
  by (induction b p rule: skip_spaces.induct) (subst (asm) (2) skip_spaces.simps, auto split: if_splits)

lemma parse_loop_unterminated:
  "NUL \<notin> set b \<Longrightarrow> N \<le> MARGS \<Longrightarrow>
     parse_loop b p N cmd = Inl Fault \<or> (\<exists>cmd'. parse_loop b p N cmd = Inr (MARGS, cmd'))"
proof (induction b p N cmd rule: parse_loop.induct)
  case (1 b p N cmd)
  show ?case
  proof (cases "p < length b \<and> N < MARGS")
    case False
    then show ?thesis using 1 by (subst (1 2) parse_loop.simps) (auto simp: cget_def)
  next
    case True
    then have c: "b ! p \<noteq> NUL" using 1 by (metis nth_mem)
    show ?thesis
    proof (cases "skip_spaces b p")
      case (Inl e)
      then show ?thesis using skip_spaces_fault [OF Inl] True c by (subst (1) parse_loop.simps) simp
    next
      case (Inr p1)
      then have d: "p1 < length b" "b ! p1 \<noteq> NUL" using skip_spaces_inside [of b p p1] 1 by (auto, metis nth_mem)
      show ?thesis
      proof (cases "N < length cmd")
        case False
        then show ?thesis using True c d Inr by (subst (1) parse_loop.simps) simp
      next
        case len: True
        show ?thesis
        proof (cases "parse_word b p1 (cmd ! N)")
          case (Inl e)
          then show ?thesis using parse_word_fault [OF Inl] True c d Inr len by (subst (1) parse_loop.simps) simp
        next
          case (Inr a)
          obtain p2 row where a: "a = (p2, row)" by (cases a)
          have eq: "parse_loop b p N cmd = parse_loop b p2 (N + 1) (cmd[N := row])"
            using True c d \<open>skip_spaces b p = Inr p1\<close> len Inr a by (subst parse_loop.simps) simp
          have N: "N < MARGS" "N + 1 \<le> MARGS" using True by simp_all
          from "1.IH" [OF conjI [OF c N(1)] d(2) len "1.prems"(1) N(2), of p2 row] eq
          show ?thesis by simp
        qed
      qed
    qed
  qed
qed



section \<open>Commands by their words\<close>

lemma next_word_no_NUL: "NUL \<notin> set t \<Longrightarrow> t \<noteq> [] \<Longrightarrow> NUL \<notin> set (fst (next_word t))"
proof -
  assume t: "NUL \<notin> set t" "t \<noteq> []"
  have u: "NUL \<notin> set (fst (unquote k u))" if "NUL \<notin> set u" for k u
    using that by (induction k u rule: unquote.induct) (auto simp: escaped_def)
  have "NUL \<notin> set (tl t)" using t by (cases t) auto
  with u [of "tl t" "CMDM_LEN - 1"] t show "NUL \<notin> set (fst (next_word t))"
    by (auto simp: next_word_def Let_def split: prod.split dest: in_set_takeD)
qed

lemma line_words_no_NUL: "NUL \<notin> set t \<Longrightarrow> w \<in> set (line_words n t) \<Longrightarrow> NUL \<notin> set w"
proof (induction n t rule: line_words.induct)
  case (2 n t)
  let ?u = "dropWhile (\<lambda>c. c = CHR '' '') t"
  have u: "NUL \<notin> set ?u" using "2.prems"(1) set_dropWhileD by fastforce
  obtain v r where vr: "next_word ?u = (v, r)" by (cases "next_word ?u")
  show ?case
  proof (cases "?u = []")
    case False
    have r: "NUL \<notin> set r" "NUL \<notin> set v"
      using next_word_bounds(2) [of ?u] next_word_no_NUL [OF u False] u vr by auto
    have "line_words (Suc n) t = v # line_words n r" using False vr by (simp add: Let_def)
    then show ?thesis using "2.IH" [OF refl False vr [symmetric] refl r(1)] "2.prems"(2) r(2) by auto
  qed (use 2 in simp)
qed simp

lemma cprefix_row: "NUL \<notin> set w \<Longrightarrow> length w < CMDM_LEN \<Longrightarrow> n \<le> CMDM_LEN \<Longrightarrow> cprefix n (row_of w) = take n w"
  by (cases "n \<le> length w")
    (auto simp: cprefix_def row_of_def takeWhile_append2 takeWhile_eq_all_conv dest: in_set_takeD,
     (subst takeWhile_append2, auto simp: takeWhile_eq_Nil_iff hd_replicate)+)

lemma cprefix_literal: "NUL \<notin> set w \<Longrightarrow> cprefix n (w @ [NUL]) = take n w"
  by (cases "n \<le> length w")
    (auto simp: cprefix_def takeWhile_append2 takeWhile_eq_all_conv dest: in_set_takeD,
     (subst takeWhile_append2, auto simp: take_Cons' takeWhile_eq_Nil_iff)+)

lemma is_command_row:
  assumes "NUL \<notin> set w" "length w < CMDM_LEN" "NUL \<notin> set lit" "n \<le> CMDM_LEN"
  shows "is_command (row_of w) lit n = Inr (take n w = take n lit)"
proof -
  have "readable n (row_of w)" "readable n (lit @ [NUL])" using assms by (auto simp: readable_def length_row_of)
  from strncmp_total [OF this] obtain v where "strncmp (Some (row_of w)) (Some (lit @ [NUL])) n = Inr v"
    "v = 0 \<longleftrightarrow> take n w = take n lit" using assms by (auto simp: cprefix_row cprefix_literal)
  then show ?thesis by (simp add: is_command_def)
qed

text \<open>What a line of words asks for.\<close>

datatype request = Banner | ChangeDir string | List string | Type string | Leave | Nothing

definition requested :: "string list \<Rightarrow> request" where
  "requested ws =
     (let w = (if ws = [] then [] else hd ws)
      in if take 6 w = ''goober'' then Banner
         else if w = ''cd'' \<and> length ws = 2 then ChangeDir (ws ! 1)
         else if w = ''ls'' \<and> length ws = 2 then List (ws ! 1)
         else if w = ''type'' \<and> length ws = 2 then Type (ws ! 1)
         else if take 4 w = ''exit'' then Leave else Nothing)"

definition banner_text :: string where
  "banner_text = concat (map butlast goober)"

definition serve :: "addr \<Rightarrow> request \<Rightarrow> kernel \<Rightarrow> (bool \<times> kernel) outcome" where
  "serve chr rq s =
     (case rq of
        Banner \<Rightarrow> Some (Inr (True, s\<lparr>tx := tx s @ banner_text\<rparr>))
      | ChangeDir p \<Rightarrow> obind (chdir (Some (row_of p)) s) (\<lambda>s1. Some (Inr (True, s1)))
      | List p \<Rightarrow>
          obind (find_from_cdir (row_of p) s) (\<lambda>f. obind (Some (node f s)) (\<lambda>n.
            obind (ls_loop (FirstChild n) s) (\<lambda>s1. Some (Inr (True, s1)))))
      | Type p \<Rightarrow>
          obind (find_from_cdir (row_of p) s) (\<lambda>f.
            obind (type_loop f chr (s\<lparr>mem := (mem s)(chr := 0)\<rparr>)) (\<lambda>s1. Some (Inr (True, s1))))
      | Leave \<Rightarrow> Some (Inr (False, s))
      | Nothing \<Rightarrow> Some (Inr (True, s)))"

lemma print_all_text:
  "\<forall>l \<in> set ls. \<exists>t. l = t @ [NUL] \<and> NUL \<notin> set t \<and> CHR ''%'' \<notin> set t \<Longrightarrow>
     print_all ls s = Some (Inr (s\<lparr>tx := tx s @ concat (map butlast ls)\<rparr>))"
proof (induction ls arbitrary: s)
  case (Cons l ls)
  then obtain t where "l = t @ [NUL]" "NUL \<notin> set t" "CHR ''%'' \<notin> set t" by auto
  then show ?case using Cons kernel_prints [OF render_plain, of t "[]" s] by simp
qed simp

lemma goober_lines: "\<forall>l \<in> set goober. \<exists>t. l = t @ [NUL] \<and> NUL \<notin> set t \<and> CHR ''%'' \<notin> set t"
proof -
  have "\<forall>l \<in> set goober. last l = NUL \<and> l \<noteq> [] \<and> NUL \<notin> set (butlast l) \<and> CHR ''%'' \<notin> set (butlast l)"
    by code_simp
  then show ?thesis by (metis append_butlast_last_id)
qed

lemma take_whole: "length lit < n \<Longrightarrow> take n w = lit \<longleftrightarrow> w = lit" for w lit :: string
  by (cases "n \<le> length w") (auto dest: arg_cong [where f = length])

lemma SystemCommand_requested:
  assumes "NUL \<notin> set line"
  shows "SystemCommand chr (line @ NUL # junk) s = serve chr (requested (line_words MARGS line)) s"
proof -
  define ws where "ws = line_words MARGS line"
  define cmd where "cmd = map row_of ws @ replicate (MARGS - length ws) (row_of [])"
  define w where "w = (if ws = [] then [] else hd ws)"
  have nul: "NUL \<notin> set v" if "v \<in> set ws" for v
    using line_words_no_NUL [OF assms] that by (auto simp: ws_def)
  have len: "length v < CMDM_LEN" if "v \<in> set ws" for v
    using line_words_bounds(2) [of v MARGS line] that by (fastforce simp: ws_def CMDM_LEN_def)
  have w: "NUL \<notin> set w" "length w < CMDM_LEN" using nul len by (auto simp: w_def CMDM_LEN_def)
  have "Parse (line @ NUL # junk) empty_cmd = Inr (length ws, cmd)"
    using parse_loop_line [of 0 "line @ NUL # junk" line junk "[]" MARGS] assms
    by (simp add: empty_cmd_def Parse_def cmd_def ws_def row_of_def)
  moreover have c0: "cmd ! 0 = row_of w"
    by (cases ws) (simp_all add: cmd_def w_def MARGS_def)
  moreover have c1: "length ws = 2 \<Longrightarrow> cmd ! 1 = row_of (ws ! 1)" by (simp add: cmd_def nth_append)
  moreover have "is_command (row_of w) ''goober'' 6 = Inr (take 6 w = ''goober'')"
    "is_command (row_of w) ''cd'' 3 = Inr (w = ''cd'')" "is_command (row_of w) ''ls'' 3 = Inr (w = ''ls'')"
    "is_command (row_of w) ''type'' 5 = Inr (w = ''type'')" "is_command (row_of w) ''exit'' 4 = Inr (take 4 w = ''exit'')"
    by (simp_all add: is_command_row [OF w, unfolded CMDM_LEN_def] take_whole)
  ultimately show ?thesis
    by (simp add: SystemCommand_def run_command_def requested_def serve_def Let_def print_all_text [OF goober_lines]
        banner_text_def flip: ws_def w_def)
qed

text \<open>
  C17. What a line does depends on its words alone: a first word that starts with
  \<^verbatim>\<open>goober\<close> prints the banner, \<^verbatim>\<open>cd\<close>, \<^verbatim>\<open>ls\<close> and
  \<^verbatim>\<open>type\<close> with exactly one argument do their work with it, a first word that starts
  with \<^verbatim>\<open>exit\<close> ends the shell, and everything else, also the empty line, does
  nothing.
\<close>

theorem SystemCommand_serves:
  assumes "NUL \<notin> set line"
  shows "SystemCommand chr (line @ NUL # junk) s = serve chr (requested (line_words MARGS line)) s"
  using assms by (rule SystemCommand_requested)

theorem SystemCommand_serves_witness:
  "SystemCommand 0x3000 (''exit now'' @ NUL # []) root_only = Some (Inr (False, root_only))"
  using SystemCommand_serves [of "''exit now''" "0x3000" "[]" root_only]
  by (simp add: MARGS_def numeral_eq_Suc next_word_def CMDM_LEN_def requested_def serve_def Let_def)

section \<open>Listing a directory\<close>

lemma cprefix_whole_row: "NUL \<notin> set w \<Longrightarrow> length w < CMDM_LEN \<Longrightarrow> cprefix 1024 (row_of w) = w"
  using cprefix_row [of w CMDM_LEN] by (simp add: cprefix_def length_row_of CMDM_LEN_def)

lemma find_from_cdir_row:
  assumes "cdir s = Inr d" "is_node s d" "NUL \<notin> set path" "length path < CMDM_LEN"
  shows "find_from_cdir (row_of path) s = DefaultRelativeFind d (Some (row_of path)) (length path) s"
proof -
  have "readable 1024 (row_of path)" using assms by (simp add: readable_def row_of_def)
  then show ?thesis using assms
    by (simp add: find_from_cdir_def strnlen_eq cprefix_whole_row call_RelativeFind_def split: VNodeFindFunction.split)
qed

definition shown_name :: "VNode \<Rightarrow> string" where
  "shown_name n = takeWhile (\<lambda>c. c \<noteq> NUL) (VNodeString.Name (Name n))"

lemma ls_loop_chain:
  "chain s p xs \<Longrightarrow> \<forall>x \<in> set xs. NUL \<in> set (VNodeString.Name (Name (the_node s x))) \<Longrightarrow>
     ls_loop p s = Some (Inr (s\<lparr>tx := tx s @ concat (map (\<lambda>x. shown_name (the_node s x) @ crnl) xs)\<rparr>))"
proof (induction xs arbitrary: p s)
  case Nil
  then show ?case by (simp add: ls_loop.simps)
next
  case (Cons x xs)
  let ?s = "s\<lparr>tx := tx s @ shown_name (the_node s x) @ crnl\<rparr>"
  from Cons.prems have x: "p = x" "is_node s x" "x \<noteq> NULL" "NUL \<in> set (VNodeString.Name (Name (the_node s x)))"
    by (auto simp: is_node_def)
  have n: "is_node ?s y = is_node s y" "the_node ?s y = the_node s y" for y by (simp_all add: is_node_def)
  have "chain ?s q xs = chain s q xs" for q by (rule chain_cong) (simp add: n)
  then have IH: "ls_loop (Next (the_node s x)) ?s =
      Some (Inr (?s\<lparr>tx := tx ?s @ concat (map (\<lambda>x. shown_name (the_node s x) @ crnl) xs)\<rparr>))"
    using Cons.IH [of ?s "Next (the_node s x)"] Cons.prems by (simp add: n)
  have "render (''%s'' @ crnl @ [NUL]) [VaPtr (Some (VNodeString.Name (Name (the_node s x))))] =
      Some (shown_name (the_node s x) @ crnl)"
    using x(4) by (simp add: directive_text_def shown_name_def)
  from kernel_prints [OF this, of s] show ?case
    using x IH n [of x] by (subst ls_loop.simps) simp
qed

text \<open>
  C15. In a heap that represents a tree of ordinary nodes whose names have an end, the line
  \<^verbatim>\<open>ls path\<close> prints the names of the children of the node at the path, one a line, in the
  order of the tree, and leaves everything else alone. A path the tree does not have does not
  get an error message: the kernel panics.
\<close>

theorem SystemCommand_ls:
  assumes "cdir s = Inr d" "is_node s d" "Root s \<noteq> NULL"
    and "NUL \<notin> set path" "length path < CMDM_LEN" "list_all plain_word (components path)"
    and "repr s t" "root_of t = start_of path d s"
    and "\<forall>a \<in> set (nodes_of t). regular (the_node s a) \<and> \<not> has_flag (Flags (the_node s a)) VFS_LINK \<and>
           NUL \<in> set (VNodeString.Name (Name (the_node s a)))"
  shows "SystemCommand chr (('' '' @ command_line [''ls'', path]) @ NUL # junk) s =
    Some (case lookup s t (components path) of
        None \<Rightarrow> Inl (Panic PANIC_NOT_FOUND)
      | Some u \<Rightarrow> Inr (True, s\<lparr>tx := tx s @ concat (map (\<lambda>c. shown_name (the_node s (root_of c)) @ crnl) (children u))\<rparr>))"
proof -
  have words: "line_words MARGS ('' '' @ command_line [''ls'', path]) = [''ls'', path]"
    using assms(5) by (intro line_words_command_line) (auto simp: MARGS_def CMDM_LEN_def)
  have nul: "NUL \<notin> set ('' '' @ command_line [''ls'', path])"
    using command_line_no_NUL [of "[''ls'', path]"] assms(4) by simp
  have d: "d \<noteq> NULL" using assms(2) by (simp add: is_node_def)
  have p: "path = take (length path) (row_of path)" "length path \<le> length (row_of path)" by (simp_all add: row_of_def)
  have find: "find_from_cdir (row_of path) s =
     Some (case lookup s t (components path) of None \<Rightarrow> Inl (Panic PANIC_NOT_FOUND) | Some u \<Rightarrow> Inr (root_of u))"
  proof (cases "lookup s t (components path)")
    case (Some u)
    then have "root_of u \<in> set (nodes_of t)" using lookup_repr [OF Some assms(7)] root_in_nodes_of [of u] by blast
    then show ?thesis
      using Some find_tree [OF assms(7,8) d assms(3) p(2,1) _ assms(6)] assms
      by (simp add: find_from_cdir_row)
  qed (use find_tree [OF assms(7,8) d assms(3) p(2,1) _ assms(6)] assms in \<open>simp add: find_from_cdir_row\<close>)
  have "serve chr (List path) s =
    Some (case lookup s t (components path) of
        None \<Rightarrow> Inl (Panic PANIC_NOT_FOUND)
      | Some u \<Rightarrow> Inr (True, s\<lparr>tx := tx s @ concat (map (\<lambda>c. shown_name (the_node s (root_of c)) @ crnl) (children u))\<rparr>))"
  proof (cases "lookup s t (components path)")
    case (Some u)
    then have u: "repr s u" "set (nodes_of u) \<subseteq> set (nodes_of t)" using lookup_repr [OF Some assms(7)] by auto
    obtain a ts where at: "u = VTree a ts" by (cases u)
    then have ch: "is_node s a" "chain s (FirstChild (the_node s a)) (map root_of ts)" using u(1) by simp_all
    have "root_of c \<in> set (nodes_of u)" if "c \<in> set ts" for c using that unfolding at by (auto intro: bexI [of _ c])
    then have "root_of c \<in> set (nodes_of t)" if "c \<in> set ts" for c using u(2) that by blast
    then have "\<forall>x \<in> set (map root_of ts). NUL \<in> set (VNodeString.Name (Name (the_node s x)))" using assms(9) by auto
    from ls_loop_chain [OF ch(2) this] show ?thesis using Some find ch(1) by (simp add: serve_def at o_def)
  qed (use find in \<open>simp add: serve_def\<close>)
  then show ?thesis unfolding SystemCommand_requested [OF nul] words by (simp add: requested_def)
qed

text \<open>A kernel whose only task works in the root directory.\<close>

definition shell_kernel :: kernel where
  "shell_kernel = set_word 0x200010 task_BaseDir 0x1000 task_kernel"

lemma shell_kernel_simps:
  "cdir shell_kernel = Inr 0x1000" "nodes shell_kernel = nodes task_kernel" "Root shell_kernel = 0x1000"
  by (simp_all add: shell_kernel_def cdir_def current_task_def task_kernel_pages is_node_def)

theorem SystemCommand_ls_witness:
  "SystemCommand 0x3000 (('' '' @ command_line [''ls'', ''nope'']) @ NUL # []) shell_kernel = Some (Inl (Panic PANIC_NOT_FOUND))"
proof -
  have c: "components ''nope'' = [''nope'']" by (simp add: components_def pieces_Cons)
  have n: "is_node shell_kernel 0x1000" "FirstChild (the_node shell_kernel 0x1000) = NULL"
    "regular (the_node shell_kernel 0x1000)" "\<not> has_flag (Flags (the_node shell_kernel 0x1000)) VFS_LINK"
    "NUL \<in> set (VNodeString.Name (Name (the_node shell_kernel 0x1000)))"
    by (simp_all add: is_node_def shell_kernel_simps task_kernel_pages root_node_def zero_node_def regular_def name_ok_def has_flag_def)
  show ?thesis
    using SystemCommand_ls [where s = shell_kernel and d = "0x1000" and t = "VTree 0x1000 []" and path = "''nope''"
        and chr = "0x3000" and junk = "[]"]
    by (simp add: n c shell_kernel_simps(1,3) start_of_def plain_word_def special_words_def CMDM_LEN_def)
qed

end
