(* ===== verification/RootPath.thy ===== *)
theory RootPath
  imports VNodeTree
begin

text \<open>
  Lookups of absolute paths by the code outside the kernel's own file system,
  \<^verbatim>\<open>RootVNode()->RelativeFind(RootVNode(), "/...", n)\<close>, and what creating a node leaves of a
  tree that is there already.
\<close>

definition find_from_root :: "string \<Rightarrow> nat \<Rightarrow> kernel \<Rightarrow> addr outcome" where
  "find_from_root path len s =
     obind (Some (node (RootVNode s) s)) (\<lambda>r. call_RelativeFind (RelativeFind r) (RootVNode s) (Some (path @ [NUL])) len s)"

lemma lookup_cong:
  "(\<And>a. a \<in> set (nodes_of t) \<Longrightarrow> nodes s' a = nodes s a) \<Longrightarrow> lookup s' t ws = lookup s t ws"
proof (induction s t ws rule: lookup.induct)
  case (2 s a ts w ws)
  have eq: "nodes s' (root_of x) = nodes s (root_of x)" if "x \<in> set ts" for x
  proof (rule "2.prems")
    show "root_of x \<in> set (nodes_of (VTree a ts))" using that by (auto intro: bexI [of _ x])
  qed
  have "find (\<lambda>t. node_name (the_node s' (root_of t)) = w) ts = find (\<lambda>t. node_name (the_node s (root_of t)) = w) ts"
    using eq by (intro find_cong) simp_all
  moreover have "lookup s' u ws = lookup s u ws"
    if "find (\<lambda>t. node_name (the_node s (root_of t)) = w) ts = Some u" for u
    using "2.IH" [OF that] "2.prems" find_Some_in [OF that] by auto
  ultimately show ?case by (simp split: option.split)
qed simp

lemma find_from_root_tree:
  assumes "repr s t" "root_of t = Root s" "\<forall>a \<in> set (nodes_of t). regular (the_node s a)" "list_all plain_word (components path)"
    and "path \<noteq> []" "NUL \<notin> set path"
  shows "find_from_root path (length path) s =
    Some (case lookup s t (components path) of
            None \<Rightarrow> Inl (Panic PANIC_NOT_FOUND)
          | Some u \<Rightarrow> Inr (if has_flag (Flags (the_node s (root_of u))) VFS_LINK then Link (the_node s (root_of u)) else root_of u))"
proof -
  have r: "is_node s (Root s)" using repr_root [OF assms(1)] assms(2) by simp
  then have n: "Root s \<noteq> NULL" by (auto simp: is_node_def)
  have "root_of t = start_of path (Root s) s" using assms(2) by (simp add: start_of_def RootVNode_def)
  from find_tree [OF assms(1) this n n _ _ assms(3,4), of "length path" "path @ [NUL]"]
  show ?thesis using r by (simp add: find_from_root_def RootVNode_def call_RelativeFind_def split: VNodeFindFunction.split)
qed

lemma new_node_beside:
  assumes "layout_ok s" "low_room s (Suc n)" "set (nodes_of t) \<inter> (\<lambda>i. page_addr s i + 16) ` {..<LOW_PAGES} \<subseteq> live_blocks s"
  shows "\<exists>p s1. NewVNode Fl s = Inr (p, s1\<lparr>nodes := (nodes s)(p \<mapsto> new_node Fl)\<rparr>) \<and> p \<noteq> NULL \<and> p \<notin> set (nodes_of t) \<and>
     Root s1 = Root s"
proof -
  obtain p s1 where new: "NewVNode Fl s = Inr (p, s1\<lparr>nodes := (nodes s)(p \<mapsto> new_node Fl)\<rparr>)"
    and a: "kalloc sizeof_VNode s = Inr (p, s1)" and p: "p \<noteq> NULL" "p \<notin> live_blocks s"
    using NewVNode_Inr [OF assms(1,2)] by blast
  obtain i where "p = page_addr s i + 16" "i < LOW_PAGES"
    using kalloc_small [OF assms(1,2) small_VNode] a by auto
  then have "p \<notin> set (nodes_of t)" using assms(3) p(2) by auto
  then show ?thesis using new p(1) kalloc_kernel_frame [OF a] by blast
qed

text \<open>A root with the two empty directories \<^verbatim>\<open>dev\<close> and \<^verbatim>\<open>sys\<close>.\<close>

definition two_dirs :: kernel where
  "two_dirs = root_only\<lparr>nodes := [0x1000 \<mapsto> root_node\<lparr>FirstChild := 0x2000\<rparr>,
     0x2000 \<mapsto> zero_node\<lparr>Name := \<lparr>VNodeString.Name = ''dev'', Length = 3\<rparr>, Next := 0x3000\<rparr>,
     0x3000 \<mapsto> zero_node\<lparr>Name := \<lparr>VNodeString.Name = ''sys'', Length = 3\<rparr>\<rparr>]\<rparr>"

lemma two_dirs_pages:
  "layout_ok two_dirs" "page_addr two_dirs i = page_addr root_only i" "live_blocks two_dirs = {}" "low_room two_dirs (Suc 0)"
  "Root two_dirs = 0x1000"
proof -
  have p: "MemoryStart two_dirs = MemoryStart root_only" "PageBitmap two_dirs = PageBitmap root_only" "mem two_dirs = mem root_only"
    "Root two_dirs = Root root_only"
    by (simp_all add: two_dirs_def)
  then show a: "page_addr two_dirs i = page_addr root_only i" for i by (simp add: page_addr_def)
  have u: "page_used two_dirs i = page_used root_only i" for i using p by (simp add: page_used_def)
  show "layout_ok two_dirs" using p root_only_pages(1) by (simp add: layout_ok_def)
  show "live_blocks two_dirs = {}" using root_only_live(1) p by (simp add: live_blocks_def small_block_def a u del: root_only_live)
  show "low_room two_dirs (Suc 0)" by (simp add: low_room_def u LOW_PAGES_def)
  show "Root two_dirs = 0x1000" using p by simp
qed

lemma low_no_page: "unat a < 0x200000 \<Longrightarrow> a \<notin> (\<lambda>i. page_addr root_only i + 16) ` {..<LOW_PAGES}"
proof
  assume a: "unat a < 0x200000" "a \<in> (\<lambda>i. page_addr root_only i + 16) ` {..<LOW_PAGES}"
  then obtain i where i: "i < LOW_PAGES" "a = page_addr root_only i + of_nat 16" by auto
  have "unat (page_addr root_only i + of_nat 16) = unat (MemoryStart root_only) + 4096 * i + 16"
    using i(1) by (intro unat_in_page) (simp_all add: PAGE_SIZE_def)
  moreover have "unat (MemoryStart root_only) = 0x200000"
    by (simp add: root_only_def pgalloc.defs fresh_pages_def)
  ultimately show False using a(1) i(2) by simp
qed

lemma two_dirs_tree:
  "repr two_dirs (VTree 0x1000 [VTree 0x2000 [], VTree 0x3000 []])"
  "\<forall>a \<in> set (nodes_of (VTree 0x1000 [VTree 0x2000 [], VTree 0x3000 []])). regular (the_node two_dirs a)"
  "lookup two_dirs (VTree 0x1000 [VTree 0x2000 [], VTree 0x3000 []]) [''dev''] = Some (VTree 0x2000 [])"
  "lookup two_dirs (VTree 0x1000 [VTree 0x2000 [], VTree 0x3000 []]) [''sys''] = Some (VTree 0x3000 [])"
  "lookup two_dirs (VTree 0x1000 [VTree 0x2000 [], VTree 0x3000 []]) [''sys'', ''mbi''] = None"
  "\<not> has_flag (Flags (the_node two_dirs 0x3000)) VFS_LINK"
proof -
  have n: "nodes two_dirs 0x1000 = Some (root_node\<lparr>FirstChild := 0x2000\<rparr>)"
    "nodes two_dirs 0x2000 = Some (zero_node\<lparr>Name := \<lparr>VNodeString.Name = ''dev'', Length = 3\<rparr>, Next := 0x3000\<rparr>)"
    "nodes two_dirs 0x3000 = Some (zero_node\<lparr>Name := \<lparr>VNodeString.Name = ''sys'', Length = 3\<rparr>\<rparr>)"
    by (simp_all add: two_dirs_def)
  note facts = n zero_node_def root_node_def is_node_def node_name_def regular_def name_ok_def has_flag_def
  show "repr two_dirs (VTree 0x1000 [VTree 0x2000 [], VTree 0x3000 []])"
    "\<forall>a \<in> set (nodes_of (VTree 0x1000 [VTree 0x2000 [], VTree 0x3000 []])). regular (the_node two_dirs a)"
    "lookup two_dirs (VTree 0x1000 [VTree 0x2000 [], VTree 0x3000 []]) [''dev''] = Some (VTree 0x2000 [])"
    "lookup two_dirs (VTree 0x1000 [VTree 0x2000 [], VTree 0x3000 []]) [''sys''] = Some (VTree 0x3000 [])"
    "lookup two_dirs (VTree 0x1000 [VTree 0x2000 [], VTree 0x3000 []]) [''sys'', ''mbi''] = None"
    "\<not> has_flag (Flags (the_node two_dirs 0x3000)) VFS_LINK"
    by (simp_all add: facts)
qed

lemma two_dirs_beside:
  "set (nodes_of (VTree 0x1000 [VTree 0x2000 [], VTree 0x3000 []])) \<inter> (\<lambda>i. page_addr two_dirs i + 16) ` {..<LOW_PAGES}
     \<subseteq> live_blocks two_dirs"
proof -
  have "page_addr two_dirs = page_addr root_only" by (simp add: fun_eq_iff two_dirs_pages del: root_only_pages)
  then show ?thesis
    using low_no_page [of "0x1000"] low_no_page [of "0x2000"] low_no_page [of "0x3000"] by (simp del: root_only_pages)
qed

end
