(* ===== verification/Amd64.thy ===== *)
theory Amd64
  imports Ports Elf
begin

text \<open>
  The processor of amd64: \<^verbatim>\<open>src/amd64/arch.c\<close> (vendor, temperature, delays, timer, the walk
  over the boot loader's tags that loads the modules, initialisation) and \<^verbatim>\<open>src/amd64/idt.c\<close>
  (interrupt gates and interrupt controllers). What the processor and the devices answer is a parameter:
  \<open>cpu\<close> for \<^verbatim>\<open>cpuid\<close> and \<^verbatim>\<open>rdmsr\<close>, \<open>bus\<close> for the
  ports. \<open>pic\<close> is the documented reaction of an 8259 to what is written to it.
\<close>

section \<open>Vendor and temperature\<close>

datatype cpu_vendor = CPU_INTEL | CPU_AMD | CPU_UNKNOWN

text \<open>\<open>ebx\<close>, \<open>ecx\<close> and \<open>edx\<close> of \<^verbatim>\<open>cpuid\<close> 0; \<open>eax\<close> of a model specific register.\<close>

record cpu =
  cpuid :: "u32 \<times> u32 \<times> u32"
  rdmsr :: "u32 \<Rightarrow> u32"

definition ArchCPUGetVendor :: "cpu \<Rightarrow> cpu_vendor" where
  "ArchCPUGetVendor p =
     (case cpuid p of (ebx, ecx, edx) \<Rightarrow>
        if ebx = 0x756E6547 \<and> edx = 0x49656E69 \<and> ecx = 0x6C65746E then CPU_INTEL
        else if ebx = 0x68747541 \<and> edx = 0x69746E65 \<and> ecx = 0x444D4163 then CPU_AMD
        else CPU_UNKNOWN)"

text \<open>The value is an \<^verbatim>\<open>int\<close>: 32 bits, of which the sign is the callers'.\<close>

definition ArchGetTemperatureMC :: "cpu \<Rightarrow> u32" where
  "ArchGetTemperatureMC p =
     (case ArchCPUGetVendor p of
        CPU_INTEL \<Rightarrow>
          let tjmax = drop_bit 16 (rdmsr p 0x1A2) AND 0xFF;
              temp_offset = drop_bit 16 (rdmsr p 0x19C) AND 0x7F
          in if temp_offset = 0 then - 1 else (tjmax - temp_offset) * 1000
      | CPU_AMD \<Rightarrow>
          let eax = rdmsr p 0xC0010400
          in if eax AND 0x1 = 0 then - 1 else (drop_bit 21 eax AND 0x7FF) * 125
      | CPU_UNKNOWN \<Rightarrow> - 1)"

section \<open>Time\<close>

text \<open>\<open>Ticks h\<close> is the tick counter in a state, \<open>pause\<close> what one \<^verbatim>\<open>pause\<close> lets happen.\<close>

partial_function (option) delay_loop :: "('h \<Rightarrow> u64) \<Rightarrow> ('h \<Rightarrow> 'h) \<Rightarrow> u32 \<Rightarrow> u64 \<Rightarrow> 'h \<Rightarrow> 'h option" where
  "delay_loop Ticks pause start ticks h =
     (if Ticks h - ucast start < ticks then delay_loop Ticks pause start ticks (pause h) else Some h)"

definition Delay :: "('h \<Rightarrow> u64) \<Rightarrow> ('h \<Rightarrow> 'h) \<Rightarrow> u64 \<Rightarrow> 'h \<Rightarrow> 'h option" where
  "Delay Ticks pause ticks h = delay_loop Ticks pause (ucast (Ticks h)) ticks h"

definition PIT_CHANNEL0 :: u16 where "PIT_CHANNEL0 = 0x40"
definition PIT_COMMAND :: u16 where "PIT_COMMAND = 0x43"

definition TimerInit :: "'h bus \<Rightarrow> u32 \<Rightarrow> 'h \<Rightarrow> 'h result" where
  "TimerInit B targetFreq h =
     (if targetFreq = 0 then Inl Fault
      else
        let divisor = 1193180 div targetFreq;
            h1 = outb B PIT_COMMAND 0x36 h;
            h2 = outb B PIT_CHANNEL0 (ucast (divisor AND 0xFF)) h1
        in Inr (outb B PIT_CHANNEL0 (ucast (drop_bit 8 divisor AND 0xFF)) h2))"

section \<open>Interrupts\<close>

record IdtEntry_t =
  base_low :: u16
  selector :: u16
  ist :: u8
  flags :: u8
  base_mid :: u16
  base_high :: u32
  reserved :: u32

record IdtPtr_t =
  limit :: u16
  idt_base :: u64

definition IDT_ENTRIES :: nat where "IDT_ENTRIES = 256"

definition IdtSetEntry :: "u8 \<Rightarrow> addr \<Rightarrow> IdtEntry_t list \<Rightarrow> IdtEntry_t list" where
  "IdtSetEntry n handler idtEntries =
     idtEntries[unat n :=
       \<lparr>base_low = ucast (handler AND 0xFFFF), selector = 0x08, ist = 0, flags = 0x8E,
        base_mid = ucast (drop_bit 16 handler AND 0xFFFF), base_high = ucast (drop_bit 32 handler AND 0xFFFFFFFF), reserved = 0\<rparr>]"

record 'h machine =
  hw :: 'h
  interrupts :: bool
  idt :: "IdtEntry_t list"
  idtp :: IdtPtr_t
  lidt :: "IdtPtr_t option"

definition ArchCli :: "'h machine \<Rightarrow> 'h machine" where "ArchCli s = s\<lparr>interrupts := False\<rparr>"
definition ArchSti :: "'h machine \<Rightarrow> 'h machine" where "ArchSti s = s\<lparr>interrupts := True\<rparr>"

fun idt_loop :: "addr \<Rightarrow> nat list \<Rightarrow> IdtEntry_t list \<Rightarrow> IdtEntry_t list" where
  "idt_loop handler [] es = es"
| "idt_loop handler (i # is) es = idt_loop handler is (IdtSetEntry (of_nat i) handler es)"

fun out_sequence :: "'h bus \<Rightarrow> (u16 \<times> u8) list \<Rightarrow> 'h \<Rightarrow> 'h" where
  "out_sequence B [] h = h"
| "out_sequence B ((p, v) # ps) h = out_sequence B ps (outb B p v h)"

definition pic_remap :: "(u16 \<times> u8) list" where
  "pic_remap = [(0x20, 0x11), (0xA0, 0x11), (0x21, 0x20), (0xA1, 0x28), (0x21, 0x04), (0xA1, 0x02), (0x21, 0x01), (0xA1, 0x01),
     (0x21, 0xFA), (0xA1, 0x3F)]"

text \<open>
  \<open>at\<close> is the address of the static table, \<open>IdtDefault\<close> and \<open>IdtTimer\<close> those of the
  two handlers of \<^verbatim>\<open>sched/trap.s\<close>. An entry has 16 bytes.
\<close>

definition IdtInit :: "'h bus \<Rightarrow> addr \<Rightarrow> addr \<Rightarrow> addr \<Rightarrow> 'h machine \<Rightarrow> 'h machine" where
  "IdtInit B at IdtDefault IdtTimer s =
     (let s1 = ArchCli s;
          es = IdtSetEntry 0x20 IdtTimer (idt_loop IdtDefault [0..<IDT_ENTRIES] (idt s1));
          p = \<lparr>limit = of_nat (16 * IDT_ENTRIES - 1), idt_base = at\<rparr>
      in s1\<lparr>idt := es, idtp := p, lidt := Some p, hw := out_sequence B pic_remap (hw s1)\<rparr>)"

definition ArchInitialise :: "'h bus \<Rightarrow> addr \<Rightarrow> addr \<Rightarrow> addr \<Rightarrow> u32 \<Rightarrow> u32 \<Rightarrow> 'h machine \<Rightarrow> 'h machine result" where
  "ArchInitialise B at IdtDefault IdtTimer magic mb_info_addr s =
     (if magic \<noteq> 0x36d76289 then Inl (Panic PANIC_INCORRECT_BOOTLOADER)
      else let s1 = IdtInit B at IdtDefault IdtTimer s
        in rbind (TimerInit B 100 (hw s1)) (\<lambda>h. Inr (s1\<lparr>hw := h\<rparr>)))"

definition ArchIdentify :: string where
  "ArchIdentify = '' [Info] ISA: AMD 64 bit x86 Extensions, x86_64, CPU: amd64'' @ [CHR 0x0A, NUL]"

section \<open>The tags of the boot loader\<close>

definition tag_type :: "memory \<Rightarrow> addr \<Rightarrow> u32" where "tag_type m tag = load32 m tag"
definition tag_size :: "memory \<Rightarrow> addr \<Rightarrow> u32" where "tag_size m tag = load32 m (tag + 4)"
definition mod_start :: "memory \<Rightarrow> addr \<Rightarrow> u32" where "mod_start m tag = load32 m (tag + 8)"
definition mod_end :: "memory \<Rightarrow> addr \<Rightarrow> u32" where "mod_end m tag = load32 m (tag + 12)"

definition next_offset :: "u32 \<Rightarrow> u64 \<Rightarrow> u64" where
  "next_offset sz off = off + ucast ((sz + 7) AND NOT 7)"

text \<open>\<open>load\<close> is \<^verbatim>\<open>LoadModule\<close>: start, size and address of the name.\<close>

definition load_tag :: "(addr \<Rightarrow> u64 \<Rightarrow> addr \<Rightarrow> 'w loader \<Rightarrow> 'w loader result) \<Rightarrow> addr \<Rightarrow> 'w loader \<Rightarrow> 'w loader result" where
  "load_tag load tag st =
     (let m = lmem st
      in if tag_type m tag = 3
         then load (ucast (mod_start m tag)) (ucast (mod_end m tag - mod_start m tag)) (tag + 16) st
         else Inr st)"

partial_function (option) load_tags ::
  "(addr \<Rightarrow> u64 \<Rightarrow> addr \<Rightarrow> 'w loader \<Rightarrow> 'w loader result) \<Rightarrow> addr \<Rightarrow> u64 \<Rightarrow> 'w loader \<Rightarrow> 'w loader outcome" where
  "load_tags load mbi off st =
     (if tag_type (lmem st) (mbi + off) = 0 then Some (Inr st)
      else obind (Some (load_tag load (mbi + off) st)) (\<lambda>st1.
        let tag = mbi + off; m = lmem st1
        in load_tags load mbi (next_offset (tag_size m tag) off) (say (TagSeen tag (tag_type m tag) (tag_size m tag)) st1)))"

definition LoadModules ::
  "(memory \<Rightarrow> addr \<Rightarrow> addr) \<Rightarrow> (addr \<Rightarrow> 'w loader \<Rightarrow> u32 \<times> 'w loader) \<Rightarrow> (addr \<Rightarrow> 'w loader \<Rightarrow> 'w loader) \<Rightarrow>
   u32 \<Rightarrow> u32 \<Rightarrow> 'w loader \<Rightarrow> 'w loader outcome" where
  "LoadModules Find init call magic mb_info_addr st = load_tags (LoadModule Find init call) (ucast mb_info_addr) 8 st"

section \<open>Gates\<close>

definition gate_target :: "IdtEntry_t \<Rightarrow> addr" where
  "gate_target e = ucast (base_low e) OR push_bit 16 (ucast (base_mid e)) OR push_bit 32 (ucast (base_high e))"

definition gate :: "addr \<Rightarrow> IdtEntry_t" where
  "gate handler =
     \<lparr>base_low = ucast (handler AND 0xFFFF), selector = 0x08, ist = 0, flags = 0x8E,
      base_mid = ucast (drop_bit 16 handler AND 0xFFFF), base_high = ucast (drop_bit 32 handler AND 0xFFFFFFFF), reserved = 0\<rparr>"

lemma low_mask: "(w AND 0xFFFF :: u64) = take_bit 16 w" "(w AND 0xFFFFFFFF :: u64) = take_bit 32 w"
  by (simp_all add: take_bit_eq_mask mask_eq_exp_minus_1)

lemma gate_target_gate [simp]: "gate_target (gate handler) = handler"
proof (rule bit_word_eqI)
  fix k assume k: "k < LENGTH(64)"
  consider "k < 16" | "16 \<le> k" "k < 32" | "32 \<le> k" by linarith
  then show "bit (gate_target (gate handler)) k = bit handler k"
    using k by cases (auto simp: gate_target_def gate_def low_mask bit_or_iff bit_push_bit_iff bit_unsigned_iff bit_take_bit_iff bit_drop_bit_u8)
qed

lemma IdtSetEntry_gate: "IdtSetEntry n handler es = es[unat n := gate handler]"
  by (simp add: IdtSetEntry_def gate_def)

lemma length_idt_loop [simp]: "length (idt_loop h is es) = length es"
  by (induction "is" arbitrary: es) (simp_all add: IdtSetEntry_gate)

lemma idt_loop_nth:
  "\<forall>i \<in> set is. i < 256 \<Longrightarrow> length es = 256 \<Longrightarrow> n < 256 \<Longrightarrow>
     idt_loop h is es ! n = (if n \<in> set is then gate h else es ! n)"
proof (induction "is" arbitrary: es)
  case (Cons i "is")
  then have "unat (of_nat i :: u8) = i" by (simp add: unat_of_nat)
  with Cons show ?case by (simp add: IdtSetEntry_gate nth_list_update)
qed simp

section \<open>Interrupt controllers\<close>

text \<open>
  An 8259: after a command with bit 4 the next three bytes at its data port are the first vector, the
  cascade and the mode; any other byte there is the mask.
\<close>

record pic =
  vector :: u8
  mask :: u8
  expects :: nat

definition pic_command :: "u8 \<Rightarrow> pic \<Rightarrow> pic" where
  "pic_command v p = (if v AND 0x10 \<noteq> 0 then p\<lparr>expects := 3, mask := 0\<rparr> else p)"

definition pic_data :: "u8 \<Rightarrow> pic \<Rightarrow> pic" where
  "pic_data v p =
     (if expects p = 3 then p\<lparr>vector := v AND 0xF8, expects := 2\<rparr>
      else if expects p = 0 then p\<lparr>mask := v\<rparr>
      else p\<lparr>expects := expects p - 1\<rparr>)"

definition pic_bus :: "(pic \<times> pic) bus" where
  "pic_bus = \<lparr>
     inb = (\<lambda>p h. (0, h)),
     outb = (\<lambda>p v (a, b).
       if p = 0x20 then (pic_command v a, b) else if p = 0x21 then (pic_data v a, b)
       else if p = 0xA0 then (a, pic_command v b) else if p = 0xA1 then (a, pic_data v b) else (a, b)),
     inw = (\<lambda>p h. (0, h)), outw = (\<lambda>p v h. h), inl = (\<lambda>p h. (0, h)), outl = (\<lambda>p v h. h), delay = (\<lambda>n h. h)\<rparr>"

text \<open>The vector of interrupt line \<open>n\<close>; those of the second controller pass line 2 of the first.\<close>

definition delivers :: "pic \<times> pic \<Rightarrow> nat \<Rightarrow> nat option" where
  "delivers h n =
     (if n < 8 then if bit (mask (fst h)) n then None else Some (unat (vector (fst h)) + n)
      else if bit (mask (fst h)) 2 \<or> bit (mask (snd h)) (n - 8) then None else Some (unat (vector (snd h)) + (n - 8)))"

lemma pic_remapped:
  "out_sequence pic_bus pic_remap h = (\<lparr>vector = 0x20, mask = 0xFA, expects = 0\<rparr>, \<lparr>vector = 0x28, mask = 0x3F, expects = 0\<rparr>)"
  by (cases h) (simp add: pic_remap_def pic_bus_def pic_command_def pic_data_def)

lemma mask_bits:
  "n < 8 \<Longrightarrow> bit (0xFA :: u8) n \<longleftrightarrow> n \<notin> {0, 2}" "n < 8 \<Longrightarrow> bit (0x3F :: u8) n \<longleftrightarrow> n < 6"
proof -
  assume n: "n < 8"
  then have "n = 0 \<or> n = 1 \<or> n = 2 \<or> n = 3 \<or> n = 4 \<or> n = 5 \<or> n = 6 \<or> n = 7" by linarith
  then show "bit (0xFA :: u8) n \<longleftrightarrow> n \<notin> {0, 2}" "bit (0x3F :: u8) n \<longleftrightarrow> n < 6"
    by (auto simp: bit_iff_and_push_bit_not_eq_0 push_bit_eq_mult)
qed

text \<open>
  C22. After \<^verbatim>\<open>IdtInit\<close> every vector has a present interrupt gate of ring 0, the one of vector
  \<^verbatim>\<open>0x20\<close> to the timer's handler and all others to the default one, which panics. The lines that
  reach the processor are the timer's at vector \<^verbatim>\<open>0x20\<close>, the cascade, and 14 and 15 of the
  IDE channels, whose vectors \<^verbatim>\<open>0x2E\<close> and \<^verbatim>\<open>0x2F\<close> go to the default handler.
\<close>

theorem IdtInit_delivers:
  assumes "length (idt s) = 256"
  shows "let s1 = IdtInit pic_bus at D T s in
     \<not> interrupts s1 \<and> lidt s1 = Some \<lparr>limit = 4095, idt_base = at\<rparr> \<and>
     (\<forall>v < 256. gate_target (idt s1 ! v) = (if v = 0x20 then T else D) \<and> flags (idt s1 ! v) = 0x8E \<and> selector (idt s1 ! v) = 8) \<and>
     (\<forall>n < 16. delivers (hw s1) n = (if n \<in> {0, 2, 14, 15} then Some (0x20 + n) else None))"
proof -
  let ?s1 = "IdtInit pic_bus at D T s"
  have g: "idt ?s1 ! v = gate (if v = 0x20 then T else D)" if "v < 256" for v
    using that assms by (simp add: IdtInit_def Let_def ArchCli_def IdtSetEntry_gate idt_loop_nth IDT_ENTRIES_def nth_list_update)
  have h: "hw ?s1 = (\<lparr>vector = 0x20, mask = 0xFA, expects = 0\<rparr>, \<lparr>vector = 0x28, mask = 0x3F, expects = 0\<rparr>)"
    by (simp add: IdtInit_def Let_def pic_remapped)
  have d: "delivers (hw ?s1) n = (if n \<in> {0, 2, 14, 15} then Some (0x20 + n) else None)" if "n < 16" for n
  proof (cases "n < 8")
    case True
    then show ?thesis using mask_bits(1) [OF True] by (auto simp: h delivers_def)
  next
    case False
    then have "n - 8 < 8" using that by simp
    then show ?thesis using False that mask_bits(1) [of 2] mask_bits(2) [of "n - 8"] by (auto simp: h delivers_def)
  qed
  have f: "flags (gate a) = 0x8E" "selector (gate a) = 8" for a by (simp_all add: gate_def)
  have "\<not> interrupts ?s1" "lidt ?s1 = Some \<lparr>limit = 4095, idt_base = at\<rparr>"
    by (simp_all add: IdtInit_def Let_def ArchCli_def IDT_ENTRIES_def)
  then show ?thesis using g d f by (simp add: Let_def)
qed

theorem IdtInit_delivers_witness:
  "gate_target (idt (IdtInit pic_bus 0x1000 0x200000 0x300000
     \<lparr>hw = (\<lparr>vector = 0, mask = 0, expects = 0\<rparr>, \<lparr>vector = 0, mask = 0, expects = 0\<rparr>), interrupts = True,
      idt = replicate 256 (gate 0), idtp = \<lparr>limit = 0, idt_base = 0\<rparr>, lidt = None\<rparr>) ! 0x2E) = 0x200000"
  using IdtInit_delivers [of "\<lparr>hw = (\<lparr>vector = 0, mask = 0, expects = 0\<rparr>, \<lparr>vector = 0, mask = 0, expects = 0\<rparr>), interrupts = True,
      idt = replicate 256 (gate 0), idtp = \<lparr>limit = 0, idt_base = 0\<rparr>, lidt = None\<rparr>" "0x1000" "0x200000" "0x300000"]
  by (simp add: Let_def)

section \<open>Temperature, timer and delays\<close>

lemma unat_low8: "unat (v AND 0xFF) = unat v mod 256" "unat (v AND 0x7F) = unat v mod 128" "unat (v AND 0x7FF) = unat v mod 2048" for v :: u32
proof -
  have "v AND 0xFF = take_bit 8 v" "v AND 0x7F = take_bit 7 v" "v AND 0x7FF = take_bit 11 v"
    by (simp_all add: take_bit_eq_mask mask_eq_exp_minus_1)
  then have "unat (v AND 0xFF) = take_bit 8 (unat v)" "unat (v AND 0x7F) = take_bit 7 (unat v)" "unat (v AND 0x7FF) = take_bit 11 (unat v)"
    by (simp_all only: unsigned_take_bit_eq)
  then show "unat (v AND 0xFF) = unat v mod 256" "unat (v AND 0x7F) = unat v mod 128" "unat (v AND 0x7FF) = unat v mod 2048"
    by (simp_all only: take_bit_eq_mod) simp_all
qed

lemma sint_small: "- 2147483648 \<le> k \<Longrightarrow> k < 2147483648 \<Longrightarrow> sint (of_int k :: u32) = k"
  by (simp add: sint_sbintrunc' signed_take_bit_int_eq_self)

lemma sint_times:
  fixes x y :: u32
  assumes "unat x < 256" "unat y < 256"
  shows "sint ((x - y) * 1000) = (int (unat x) - int (unat y)) * 1000"
proof -
  have "(x - y) * 1000 = of_int ((int (unat x) - int (unat y)) * 1000)"
    by simp
  also have "sint \<dots> = (int (unat x) - int (unat y)) * 1000"
  proof (rule sint_small)
    have "0 \<le> int (unat x)" "int (unat x) < 256" "0 \<le> int (unat y)" "int (unat y) < 256" using assms by linarith+
    moreover have "- 2147483648 \<le> (a - b) * 1000 \<and> (a - b) * 1000 < 2147483648" if "0 \<le> a" "a < 256" "0 \<le> b" "b < 256" for a b :: int
      using that by auto
    ultimately show "- 2147483648 \<le> (int (unat x) - int (unat y)) * 1000" "(int (unat x) - int (unat y)) * 1000 < 2147483648"
      by blast+
  qed
  finally show ?thesis .
qed

text \<open>
  A temperature is either \<open>-1\<close>, for none, or the one the registers give: on Intel a
  thousand times the difference of the limit and the distance to it, which may be below zero, on AMD a multiple of
  125 of at most 255875; no product overflows. An Intel processor exactly at its limit is reported as having
  no sensor.
\<close>

theorem ArchGetTemperatureMC_value:
  "sint (ArchGetTemperatureMC p) =
     (case ArchCPUGetVendor p of
        CPU_INTEL \<Rightarrow>
          let limit = int (unat (rdmsr p 0x1A2) div 2 ^ 16 mod 256); distance = int (unat (rdmsr p 0x19C) div 2 ^ 16 mod 128)
          in if distance = 0 then - 1 else 1000 * (limit - distance)
      | CPU_AMD \<Rightarrow>
          if even (unat (rdmsr p 0xC0010400)) then - 1 else 125 * int (unat (rdmsr p 0xC0010400) div 2 ^ 21 mod 2048)
      | CPU_UNKNOWN \<Rightarrow> - 1)"
proof -
  have d: "unat (drop_bit n v) = unat v div 2 ^ n" for n and v :: u32
  proof -
    have "unat v < 2 ^ LENGTH(32)" by (rule unsigned_less)
    then have "take_bit 32 (unat v) = unat v" by (simp add: take_bit_nat_eq_self)
    then show ?thesis by (simp only: unsigned_drop_bit_eq) (simp add: drop_bit_eq_div)
  qed
  show ?thesis
  proof (cases "ArchCPUGetVendor p")
    case CPU_INTEL
    let ?x = "drop_bit 16 (rdmsr p 0x1A2) AND 0xFF" and ?y = "drop_bit 16 (rdmsr p 0x19C) AND 0x7F"
    have x1: "unat ?x = unat (rdmsr p 0x1A2) div 2 ^ 16 mod 256" by (simp only: unat_low8 d)
    have y1: "unat ?y = unat (rdmsr p 0x19C) div 2 ^ 16 mod 128" by (simp only: unat_low8 d)
    have "unat (rdmsr p 0x19C) div 2 ^ 16 mod 128 < 128" by simp
    then have lt: "unat ?x < 256" "unat ?y < 256" unfolding x1 y1 by simp_all
    have z: "?y = 0 \<longleftrightarrow> unat ?y = 0" by (simp only: unat_eq_zero)
    have "sint (ArchGetTemperatureMC p) = (if unat ?y = 0 then - 1 else (int (unat ?x) - int (unat ?y)) * 1000)"
      unfolding ArchGetTemperatureMC_def CPU_INTEL cpu_vendor.case Let_def z using sint_times [OF lt] by simp
    then show ?thesis unfolding CPU_INTEL cpu_vendor.case Let_def x1 y1 by simp
  next
    case CPU_AMD
    let ?e = "rdmsr p 0xC0010400"
    let ?x = "drop_bit 21 ?e AND 0x7FF"
    have x: "unat ?x = unat ?e div 2 ^ 21 mod 2048" by (simp only: unat_low8 d)
    then have lt: "unat ?x < 2048" by simp
    have "?x * 125 = of_int (125 * int (unat ?x))" by simp
    moreover have "sint (of_int (125 * int (unat ?x)) :: u32) = 125 * int (unat ?x)"
    proof (rule sint_small)
      have "0 \<le> int (unat ?x)" "int (unat ?x) < 2048" using lt by linarith+
      then show "- 2147483648 \<le> 125 * int (unat ?x)" "125 * int (unat ?x) < 2147483648" by linarith+
    qed
    ultimately have s: "sint (?x * 125) = 125 * int (unat ?x)" by (simp only:)
    have "bit (unat ?e) 0 = bit ?e 0" by (simp only: bit_unsigned_iff) simp
    then have e: "(?e AND 1 = 0) = even (unat ?e)" by (simp add: and_one_eq bit_0 flip: even_iff_mod_2_eq_zero)
    show ?thesis unfolding ArchGetTemperatureMC_def CPU_AMD cpu_vendor.case Let_def using s e x by simp
  next
    case CPU_UNKNOWN
    then show ?thesis by (simp add: ArchGetTemperatureMC_def)
  qed
qed

lemma start_of_ticks: "(ucast (ucast t :: u32) :: u64) = take_bit 32 t" for t :: u64
  by (rule bit_word_eqI) (auto simp: bit_take_bit_iff bit_unsigned_iff)

lemma delay_loop_counts:
  assumes "\<And>h. Ticks (pause h) = Ticks h + 1" "Ticks h = ucast start + of_nat j" "j \<le> unat n"
  shows "\<exists>h'. delay_loop Ticks pause start n h = Some h' \<and> Ticks h' = ucast start + n"
  using assms(2,3)
proof (induction "unat n - j" arbitrary: h j)
  case 0
  then have "j = unat n" by simp
  then show ?case using 0 by (subst delay_loop.simps) simp
next
  case (Suc k)
  then have j: "k = unat n - (j + 1)" "j + 1 \<le> unat n" "j < unat n" by simp_all
  have "unat n < 2 ^ LENGTH(64)" by (rule unsigned_less)
  then have "unat (of_nat j :: u64) = j" using j(3) by (simp add: unat_of_nat)
  then have "Ticks h - ucast start < n" using j(3) Suc.prems(1) by (simp add: word_less_nat_alt)
  moreover have "Ticks (pause h) = ucast start + of_nat (j + 1)" using assms(1) [of h] Suc.prems(1) by simp
  ultimately show ?case using Suc.hyps(1) [OF j(1) _ j(2), of "pause h"] by (subst delay_loop.simps) simp
qed

text \<open>
  In the first \<open>2 ^ 32\<close> ticks after the start \<^verbatim>\<open>Delay\<close> returns when exactly
  the ticks asked for have passed.
\<close>

theorem Delay_exact:
  assumes "\<forall>h. Ticks (pause h) = Ticks h + 1" "unat (Ticks h) < 2 ^ 32"
  shows "\<exists>h'. Delay Ticks pause n h = Some h' \<and> Ticks h' = Ticks h + n"
proof -
  have "take_bit 32 (unat (Ticks h)) = unat (Ticks h)" using assms(2) by (simp add: take_bit_nat_eq_self)
  then have "unat (take_bit 32 (Ticks h)) = unat (Ticks h)" by (simp only: unsigned_take_bit_eq)
  then have t: "(ucast (ucast (Ticks h) :: u32) :: u64) = Ticks h" by (simp only: start_of_ticks word_unat_eq_iff)
  with delay_loop_counts [of Ticks pause h "ucast (Ticks h)" 0 n] assms(1) show ?thesis by (simp add: Delay_def)
qed

theorem Delay_exact_witness: "\<exists>h'. Delay id (\<lambda>h. h + 1) 1000 7 = Some h' \<and> h' = 1007"
  using Delay_exact [of id "\<lambda>h. h + 1" 7 1000] by simp

text \<open>
  After \<open>2 ^ 32\<close> ticks it does not wait at all: the start is kept in 32 bits and the
  difference to the 64 bits of the counter is never below \<open>2 ^ 32\<close>.
\<close>

theorem Delay_no_wait:
  assumes "2 ^ 32 \<le> unat (Ticks h)" "unat n \<le> 2 ^ 32"
  shows "Delay Ticks pause n h = Some h"
proof -
  let ?t = "unat (Ticks h)"
  have "unat (take_bit 32 (Ticks h)) = take_bit 32 ?t" by (simp only: unsigned_take_bit_eq)
  then have s: "unat (take_bit 32 (Ticks h)) = ?t mod 2 ^ 32" by (simp only: take_bit_eq_mod)
  have le: "?t mod 2 ^ 32 + 2 ^ 32 \<le> ?t"
  proof -
    have "1 \<le> ?t div 2 ^ 32" using assms(1) by (simp add: less_eq_div_iff_mult_less_eq)
    then have "2 ^ 32 \<le> ?t div 2 ^ 32 * 2 ^ 32" by simp
    then show ?thesis using div_mult_mod_eq [of ?t "2 ^ 32"] by linarith
  qed
  have "take_bit 32 (Ticks h) \<le> Ticks h" using s le by (simp only: word_le_nat_alt)
  then have "unat (Ticks h - take_bit 32 (Ticks h)) = ?t - ?t mod 2 ^ 32" by (simp only: unat_sub s)
  then have "\<not> Ticks h - ucast (ucast (Ticks h) :: u32) < n"
    using le assms(2) by (simp only: start_of_ticks word_less_nat_alt)
  then show ?thesis unfolding Delay_def by (subst delay_loop.simps) (rule if_not_P)
qed

theorem Delay_no_wait_witness: "Delay id (\<lambda>h. h + 1) 1000 0x100000007 = Some 0x100000007"
  by (rule Delay_no_wait) simp_all

section \<open>The walk over the tags\<close>

text \<open>
  Tags \<open>ts\<close> lie one after the other from offset \<open>off\<close> on, each with its type and size, up to
  one of type 0; \<open>R\<close> is the memory they occupy.
\<close>

fun tags_at :: "memory \<Rightarrow> addr \<Rightarrow> u64 \<Rightarrow> (u32 \<times> u32) list \<Rightarrow> bool" where
  "tags_at m mbi off [] \<longleftrightarrow> tag_type m (mbi + off) = 0"
| "tags_at m mbi off ((ty, sz) # ts) \<longleftrightarrow> tag_type m (mbi + off) = ty \<and> ty \<noteq> 0 \<and> tag_size m (mbi + off) = sz \<and>
     tags_at m mbi (next_offset sz off) ts"

fun load_all :: "(addr \<Rightarrow> u64 \<Rightarrow> addr \<Rightarrow> 'w loader \<Rightarrow> 'w loader result) \<Rightarrow> addr \<Rightarrow> u64 \<Rightarrow> (u32 \<times> u32) list \<Rightarrow> 'w loader \<Rightarrow> 'w loader result" where
  "load_all load mbi off [] st = Inr st"
| "load_all load mbi off ((ty, sz) # ts) st =
     rbind (load_tag load (mbi + off) st) (\<lambda>st1. load_all load mbi (next_offset sz off) ts (say (TagSeen (mbi + off) ty sz) st1))"

text \<open>Every load that is made leaves the bytes of \<open>R\<close> as they are.\<close>

fun loads_keep :: "addr set \<Rightarrow> (addr \<Rightarrow> u64 \<Rightarrow> addr \<Rightarrow> 'w loader \<Rightarrow> 'w loader result) \<Rightarrow> addr \<Rightarrow> u64 \<Rightarrow> (u32 \<times> u32) list \<Rightarrow> 'w loader \<Rightarrow> bool" where
  "loads_keep R load mbi off [] st \<longleftrightarrow> True"
| "loads_keep R load mbi off ((ty, sz) # ts) st \<longleftrightarrow>
     (case load_tag load (mbi + off) st of
        Inl _ \<Rightarrow> True
      | Inr st1 \<Rightarrow> (\<forall>x \<in> R. lmem st1 x = lmem st x) \<and>
          loads_keep R load mbi (next_offset sz off) ts (say (TagSeen (mbi + off) ty sz) st1))"

lemma load_tags_all:
  assumes "\<And>m. (\<forall>x \<in> R. m x = lmem st x) \<Longrightarrow> tags_at m mbi off ts" "loads_keep R load mbi off ts st"
  shows "load_tags load mbi off st = Some (load_all load mbi off ts st)"
  using assms
proof (induction ts arbitrary: off st)
  case Nil
  from Nil.prems(1) [of "lmem st"] show ?case by (subst load_tags.simps) simp
next
  case (Cons t ts)
  obtain ty sz where t: "t = (ty, sz)" by force
  have here: "tags_at (lmem st) mbi off (t # ts)" using Cons.prems(1) [of "lmem st"] by simp
  show ?case
  proof (cases "load_tag load (mbi + off) st")
    case (Inl e)
    then show ?thesis using here t by (subst load_tags.simps) auto
  next
    case (Inr st1)
    let ?st2 = "say (TagSeen (mbi + off) ty sz) st1"
    have k: "\<forall>x \<in> R. lmem st1 x = lmem st x" "loads_keep R load mbi (next_offset sz off) ts ?st2"
      using Inr Cons.prems(2) t by simp_all
    have same: "tags_at (lmem st1) mbi off (t # ts)" using k(1) Cons.prems(1) by blast
    have "load_tags load mbi off st = load_tags load mbi (next_offset sz off) ?st2"
      using Inr here same t by (subst load_tags.simps) (auto simp: Let_def)
    moreover have "tags_at m mbi (next_offset sz off) ts" if "\<forall>x \<in> R. m x = lmem ?st2 x" for m
      using Cons.prems(1) [of m] that k(1) t by simp
    ultimately show ?thesis using Cons.IH [of ?st2 "next_offset sz off"] k(2) Inr t by simp
  qed
qed


definition example_tags :: memory where
  "example_tags = (\<lambda>a. 0)(0x1008 := 3, 0x100c := 24)"

lemma low_bytes: "load32 m a = le_join [m a, m (a + 1), m (a + 2), m (a + 3)]"
  by (simp add: load32_def load_bytes_def upt_conv_Cons)


lemma next_offset_stuck:
  assumes "sz = 0 \<or> 0xFFFFFFF9 \<le> sz"
  shows "next_offset sz off = off"
proof -
  have "sz = 0 \<or> (\<exists>k \<in> {1, 2, 3, 4, 5, 6, 7 :: u32}. sz = - k)"
  proof (cases "sz = 0")
    case False
    have "0xFFFFFFF9 \<le> unat sz" using assms False by (simp add: word_le_nat_alt)
    moreover have "unat sz < 2 ^ LENGTH(32)" by (rule unsigned_less)
    ultimately have "unat sz \<in> {0xFFFFFFF9, 0xFFFFFFFA, 0xFFFFFFFB, 0xFFFFFFFC, 0xFFFFFFFD, 0xFFFFFFFE, 0xFFFFFFFF}" by auto
    then have "sz \<in> {0xFFFFFFF9, 0xFFFFFFFA, 0xFFFFFFFB, 0xFFFFFFFC, 0xFFFFFFFD, 0xFFFFFFFE, 0xFFFFFFFF}"
      by (auto simp: word_unat_eq_iff)
    then show ?thesis by auto
  qed simp
  then show ?thesis by (auto simp: next_offset_def)
qed

text \<open>
  A tag of size 0, or of one in the last seven of 32 bits, is never left: when it is not the
  end and not a module the walk does not return.
\<close>

theorem LoadModules_stuck:
  assumes "tag_type (lmem st) (ucast mbi + 8) \<notin> {0, 3}"
    and "tag_size (lmem st) (ucast mbi + 8) = 0 \<or> 0xFFFFFFF9 \<le> tag_size (lmem st) (ucast mbi + 8)"
  shows "LoadModules Find init call magic mbi st = None"
proof (rule ccontr)
  let ?load = "LoadModule Find init call"
  assume "LoadModules Find init call magic mbi st \<noteq> None"
  then obtain y where y: "load_tags ?load (ucast mbi) 8 st = Some y" by (auto simp: LoadModules_def)
  have "lmem st \<noteq> lmem st \<or> (ucast mbi :: addr) \<noteq> ucast mbi \<or> (8 :: u64) \<noteq> 8"
  proof (rule load_tags.raw_induct [where P = "\<lambda>load b off s y. lmem s \<noteq> lmem st \<or> b \<noteq> ucast mbi \<or> off \<noteq> 8", OF _ y])
    fix f and load :: "addr \<Rightarrow> u64 \<Rightarrow> addr \<Rightarrow> 'a loader \<Rightarrow> 'a loader result" and b off and s :: "'a loader" and y
    assume ih: "\<And>load b off s y. f load b off s = Some y \<Longrightarrow> lmem s \<noteq> lmem st \<or> b \<noteq> ucast mbi \<or> off \<noteq> 8"
      and body: "(if tag_type (lmem s) (b + off) = 0 then Some (Inr s)
        else obind (Some (load_tag load (b + off) s)) (\<lambda>st1.
          let tag = b + off; m = lmem st1
          in f load b (next_offset (tag_size m tag) off) (say (TagSeen tag (tag_type m tag) (tag_size m tag)) st1))) = Some y"
    show "lmem s \<noteq> lmem st \<or> b \<noteq> ucast mbi \<or> off \<noteq> 8"
    proof (rule ccontr)
      assume "\<not> (lmem s \<noteq> lmem st \<or> b \<noteq> ucast mbi \<or> off \<noteq> 8)"
      then have e: "lmem s = lmem st" "b = ucast mbi" "off = 8" by simp_all
      then have "load_tag load (b + off) s = Inr s" using assms(1) by (simp add: load_tag_def)
      then have "f load b 8 (say (TagSeen (b + off) (tag_type (lmem s) (b + off)) (tag_size (lmem s) (b + off))) s) = Some y"
        using body e assms next_offset_stuck [OF assms(2)] by (simp add: Let_def)
      from ih [OF this] e show False by simp
    qed
  qed
  then show False by simp
qed

theorem LoadModules_stuck_witness:
  "LoadModules (\<lambda>m a. 0) (\<lambda>f s. (0, s)) (\<lambda>f s. s) 0 0x1000 \<lparr>lmem = (\<lambda>a. 0)(0x1008 := 6), log = [], world = ()\<rparr> = None"
  by (rule LoadModules_stuck) (simp_all add: tag_type_def tag_size_def low_bytes)

text \<open>
  The boot protocol's magic is required; with it, interrupts stay off until the tables are loaded,
  and the timer is set to the divisor 11931 of its 1193180 Hz: low byte first, then the high one.
\<close>

theorem ArchInitialise_order:
  "ArchInitialise B at D T magic mbi s =
     (if magic \<noteq> 0x36d76289 then Inl (Panic PANIC_INCORRECT_BOOTLOADER)
      else Inr ((IdtInit B at D T s)\<lparr>hw := out_sequence B (pic_remap @ [(0x43, 0x36), (0x40, 0x9B), (0x40, 0x2E)]) (hw s)\<rparr>)) \<and>
   0x9B + 256 * 0x2E = (1193180 div 100 :: nat)"
proof -
  have a: "out_sequence B (xs @ ys) h = out_sequence B ys (out_sequence B xs h)" for xs ys h
    by (induction xs arbitrary: h) auto
  have "hw (IdtInit B at D T s) = out_sequence B pic_remap (hw s)" by (simp add: IdtInit_def ArchCli_def Let_def)
  then show ?thesis by (simp add: ArchInitialise_def TimerInit_def PIT_COMMAND_def PIT_CHANNEL0_def Let_def a)
qed

end
