(* ===== verification/Vga.thy ===== *)
theory Vga
  imports RootPath KernelPrint Amd64
begin

text \<open>
  The framebuffer module, \<^verbatim>\<open>src/modules/vga/main.c\<close>: it looks through the boot loader's
  tags for the framebuffer and registers a node through which it can be written.

  The node's \<^verbatim>\<open>Write\<close> and \<^verbatim>\<open>Read\<close> are functions of the module and none of the
  kernel's that \<open>VNodeReadFunction\<close> and \<open>VNodeWriteFunction\<close> list; \<open>fb_nodes\<close> are the nodes
  that have them.
\<close>

record vga =
  FrameBufferAddress :: u64
  FrameBufferWidth :: u32
  FrameBufferHeight :: u32
  FrameBufferPitch :: u32
  FrameBufferBPP :: u8
  fb_nodes :: "addr list"
  kern :: kernel

section \<open>The tag\<close>

definition fb_addr :: "memory \<Rightarrow> addr \<Rightarrow> u64" where "fb_addr m tag = load64 m (tag + 8)"
definition fb_pitch :: "memory \<Rightarrow> addr \<Rightarrow> u32" where "fb_pitch m tag = load32 m (tag + 16)"
definition fb_width :: "memory \<Rightarrow> addr \<Rightarrow> u32" where "fb_width m tag = load32 m (tag + 20)"
definition fb_height :: "memory \<Rightarrow> addr \<Rightarrow> u32" where "fb_height m tag = load32 m (tag + 24)"
definition fb_bpp :: "memory \<Rightarrow> addr \<Rightarrow> u8" where "fb_bpp m tag = m (tag + 28)"

definition read_framebuffer :: "addr \<Rightarrow> vga \<Rightarrow> vga" where
  "read_framebuffer tag v =
     (let m = mem (kern v)
      in v\<lparr>FrameBufferAddress := fb_addr m tag, FrameBufferWidth := fb_width m tag,
           FrameBufferHeight := fb_height m tag, FrameBufferPitch := fb_pitch m tag, FrameBufferBPP := fb_bpp m tag\<rparr>)"

definition announce :: "vga \<Rightarrow> vga outcome" where
  "announce v =
     obind (SerialPrint kput ('' [Info] Framebuffer: addr=0x%x, %dx%d, pitch=%d, bpp=%d'' @ [CHR 0x0D, CHR 0x0A, NUL])
       [VaInt (ucast (FrameBufferAddress v)), VaInt (FrameBufferWidth v), VaInt (FrameBufferHeight v),
        VaInt (FrameBufferPitch v), VaInt (ucast (FrameBufferBPP v))] (kern v)) (\<lambda>s. Some (Inr (v\<lparr>kern := s\<rparr>)))"

text \<open>\<^verbatim>\<open>offset\<close> is an \<^verbatim>\<open>unsigned int\<close>.\<close>

definition next_tag :: "u32 \<Rightarrow> u32 \<Rightarrow> u32" where
  "next_tag sz offset = offset + ((sz + 7) AND NOT 7)"

partial_function (option) mbi_loop :: "addr \<Rightarrow> u32 \<Rightarrow> vga \<Rightarrow> vga outcome" where
  "mbi_loop mbi_addr offset v =
     (let tag = mbi_addr + ucast offset
      in if tag_type (mem (kern v)) tag = 0 then Some (Inr v)
         else obind (if tag_type (mem (kern v)) tag = 8 then announce (read_framebuffer tag v) else Some (Inr v)) (\<lambda>v1.
              mbi_loop mbi_addr (next_tag (tag_size (mem (kern v1)) tag) offset) v1))"

definition ParseMBI :: "addr \<Rightarrow> vga \<Rightarrow> vga outcome" where
  "ParseMBI mbi_addr v = mbi_loop mbi_addr 8 v"

section \<open>The node\<close>

definition Write :: "addr \<Rightarrow> u64 \<Rightarrow> u64 \<Rightarrow> addr \<Rightarrow> vga \<Rightarrow> (u32 \<times> vga) result" where
  "Write Buf Size Elements Node v =
     rbind (PanicIfNull Buf) (\<lambda>_. rbind (PanicIfNull Node) (\<lambda>_.
     let Bytes = Size * Elements
     in rbind (node Node (kern v)) (\<lambda>n.
        rbind (memcpy (FrameBufferAddress v + FileOffset n) Buf (unat Bytes) (mem (kern v))) (\<lambda>m.
        rbind (set_node Node (\<lambda>n. n\<lparr>FileOffset := FileOffset n + Bytes\<rparr>) ((kern v)\<lparr>mem := m\<rparr>)) (\<lambda>s.
        Inr (ucast Elements, v\<lparr>kern := s\<rparr>))))))"

definition Read :: "addr \<Rightarrow> u64 \<Rightarrow> u64 \<Rightarrow> addr \<Rightarrow> vga \<Rightarrow> (u32 \<times> vga) result" where
  "Read Buf Size Elements Node v = Inl (Panic PANIC_TODO)"

definition Init :: "vga \<Rightarrow> (u32 \<times> vga) outcome" where
  "Init v =
     obind (find_from_root ''/dev'' 4 (kern v)) (\<lambda>Dev.
     obind (Some (NewVNode (VFS_READ OR VFS_WRITE) (kern v))) (\<lambda>(VGA, s1).
     obind (Some (set_node VGA (\<lambda>n. n\<lparr>Name := \<lparr>VNodeString.Name = ''framebuffer'' @ [NUL], Length = 11\<rparr>\<rparr>) s1)) (\<lambda>s2.
     obind (find_from_root ''/sys/mbi'' 8 s2) (\<lambda>mbi.
     obind (Some (node mbi s2)) (\<lambda>n.
     obind (ParseMBI (DriverData n) (v\<lparr>fb_nodes := VGA # fb_nodes v, kern := s2\<rparr>)) (\<lambda>v1.
     obind (Some (RegisterChildVNode Dev VGA (kern v1))) (\<lambda>s3. Some (Inr (0, v1\<lparr>kern := s3\<rparr>)))))))))"

section \<open>Looking for the framebuffer\<close>

text \<open>Tags one after the other, with their types and sizes, and the address of the last one of type 8.\<close>

fun mbi_tags :: "memory \<Rightarrow> addr \<Rightarrow> u32 \<Rightarrow> (u32 \<times> u32) list \<Rightarrow> bool" where
  "mbi_tags m mbi off [] \<longleftrightarrow> tag_type m (mbi + ucast off) = 0"
| "mbi_tags m mbi off ((ty, sz) # ts) \<longleftrightarrow> tag_type m (mbi + ucast off) = ty \<and> ty \<noteq> 0 \<and>
     tag_size m (mbi + ucast off) = sz \<and> mbi_tags m mbi (next_tag sz off) ts"

fun framebuffers :: "addr \<Rightarrow> u32 \<Rightarrow> (u32 \<times> u32) list \<Rightarrow> addr list" where
  "framebuffers mbi off [] = []"
| "framebuffers mbi off ((ty, sz) # ts) =
     (if ty = 8 then [mbi + ucast off] else []) @ framebuffers mbi (next_tag sz off) ts"

definition printable_fb :: "memory \<Rightarrow> addr \<Rightarrow> bool" where
  "printable_fb m tag \<longleftrightarrow> fb_width m tag \<noteq> INT_MIN \<and> fb_height m tag \<noteq> INT_MIN \<and> fb_pitch m tag \<noteq> INT_MIN"

lemma announce_prints:
  assumes "FrameBufferWidth v \<noteq> INT_MIN" "FrameBufferHeight v \<noteq> INT_MIN" "FrameBufferPitch v \<noteq> INT_MIN"
  shows "\<exists>t. announce v = Some (Inr (v\<lparr>kern := (kern v)\<lparr>tx := tx (kern v) @ t\<rparr>\<rparr>))"
proof -
  have b: "(ucast b :: u32) \<noteq> INT_MIN" for b :: u8
  proof
    assume "(ucast b :: u32) = INT_MIN"
    then have "unat (ucast b :: u32) = 2 ^ 31" by (simp add: INT_MIN_def)
    moreover have "unat b < 2 ^ LENGTH(8)" by (rule unsigned_less)
    then have "unat (ucast b :: u32) < 256" by (simp add: unsigned_ucast_eq take_bit_nat_def)
    ultimately show False by simp
  qed
  have r: "\<exists>t. render ('' [Info] Framebuffer: addr=0x%x, %dx%d, pitch=%d, bpp=%d'' @ [CHR 0x0D, CHR 0x0A, NUL])
     [VaInt (ucast (FrameBufferAddress v)), VaInt (FrameBufferWidth v), VaInt (FrameBufferHeight v),
        VaInt (FrameBufferPitch v), VaInt (ucast (FrameBufferBPP v))] = Some t"
    using assms b [of "FrameBufferBPP v"] by (simp add: directive_text_def)
  then show ?thesis using kernel_prints by (fastforce simp: announce_def)
qed

definition last_framebuffer :: "addr list \<Rightarrow> vga \<Rightarrow> vga" where
  "last_framebuffer tags v = (if tags = [] then v else read_framebuffer (last tags) v)"

lemma read_framebuffer_fields [simp]:
  "kern (read_framebuffer tag v) = kern v"
  "FrameBufferWidth (read_framebuffer tag v) = fb_width (mem (kern v)) tag"
  "FrameBufferHeight (read_framebuffer tag v) = fb_height (mem (kern v)) tag"
  "FrameBufferPitch (read_framebuffer tag v) = fb_pitch (mem (kern v)) tag"
  by (simp_all add: read_framebuffer_def Let_def)

lemma mbi_loop_tags:
  assumes "mbi_tags (mem (kern v)) mbi off ts" "\<forall>tag \<in> set (framebuffers mbi off ts). printable_fb (mem (kern v)) tag"
  shows "\<exists>t. mbi_loop mbi off v =
    Some (Inr ((last_framebuffer (framebuffers mbi off ts) v)\<lparr>kern := (kern v)\<lparr>tx := tx (kern v) @ t\<rparr>\<rparr>))"
  using assms
proof (induction ts arbitrary: off v)
  case Nil
  then have "mbi_loop mbi off v = Some (Inr v)" by (subst mbi_loop.simps) (simp add: Let_def)
  moreover have "v\<lparr>kern := (kern v)\<lparr>tx := tx (kern v) @ []\<rparr>\<rparr> = v" by simp
  ultimately show ?case by (intro exI [of _ "[]"]) (simp only: last_framebuffer_def framebuffers.simps if_True refl)
next
  case (Cons e ts)
  obtain ty sz where e: "e = (ty, sz)" by (cases e)
  let ?tag = "mbi + ucast off"
  from Cons.prems e have h: "tag_type (mem (kern v)) ?tag = ty" "ty \<noteq> 0" "tag_size (mem (kern v)) ?tag = sz"
    "mbi_tags (mem (kern v)) mbi (next_tag sz off) ts" by simp_all
  show ?case
  proof (cases "ty = 8")
    case False
    then show ?thesis using Cons.IH [OF h(4)] Cons.prems(2) h e by (subst mbi_loop.simps) (simp add: Let_def)
  next
    case True
    let ?v = "read_framebuffer ?tag v"
    have p: "printable_fb (mem (kern v)) ?tag" using Cons.prems(2) True e by simp
    then obtain t where t: "announce ?v = Some (Inr (?v\<lparr>kern := (kern v)\<lparr>tx := tx (kern v) @ t\<rparr>\<rparr>))"
      using announce_prints [of ?v] by (auto simp: printable_fb_def)
    let ?w = "?v\<lparr>kern := (kern v)\<lparr>tx := tx (kern v) @ t\<rparr>\<rparr>"
    have "mbi_loop mbi off v = mbi_loop mbi (next_tag sz off) ?w"
      using h True t by (subst mbi_loop.simps) (simp add: Let_def)
    moreover obtain u where "mbi_loop mbi (next_tag sz off) ?w =
        Some (Inr ((last_framebuffer (framebuffers mbi (next_tag sz off) ts) ?w)\<lparr>kern := (kern ?w)\<lparr>tx := tx (kern ?w) @ u\<rparr>\<rparr>))"
      using Cons.IH [of ?w "next_tag sz off"] h(4) Cons.prems(2) e by auto
    moreover have "(last_framebuffer fs ?w)\<lparr>kern := k\<rparr> = (last_framebuffer (?tag # fs) v)\<lparr>kern := k\<rparr>" for fs k
      by (simp add: last_framebuffer_def read_framebuffer_def Let_def)
    ultimately show ?thesis using True e by (intro exI [of _ "t @ u"]) simp
  qed
qed

text \<open>
  C25. \<^verbatim>\<open>ParseMBI\<close> passes over the boot loader's tags up to the one of type 0 and returns;
  the framebuffer is then the one of the last tag of type 8, or as before if there is none. Nothing else
  changes but what has been printed.
\<close>

theorem ParseMBI_last_framebuffer:
  assumes "mbi_tags (mem (kern v)) mbi 8 ts" "\<forall>tag \<in> set (framebuffers mbi 8 ts). printable_fb (mem (kern v)) tag"
  shows "\<exists>t. ParseMBI mbi v =
    Some (Inr ((last_framebuffer (framebuffers mbi 8 ts) v)\<lparr>kern := (kern v)\<lparr>tx := tx (kern v) @ t\<rparr>\<rparr>))"
  unfolding ParseMBI_def using assms by (rule mbi_loop_tags)

text \<open>
  A write through the framebuffer's node copies the bytes to the node's offset in the framebuffer,
  moves the offset past them and changes nothing else. The offset is not compared with the size of the
  framebuffer: a write beyond it goes to the memory that follows.
\<close>

theorem Write_copies:
  assumes "Buf \<noteq> NULL" "is_node (kern v) Node" "dest = FrameBufferAddress v + FileOffset (the_node (kern v) Node)"
    and "dest \<noteq> NULL" "n = unat (Size * Elements)" "disjoint_blocks dest Buf n"
  shows "\<exists>m. Write Buf Size Elements Node v = Inr (ucast Elements, v\<lparr>kern := (kern v)\<lparr>mem := m,
        nodes := (nodes (kern v))(Node \<mapsto> (the_node (kern v) Node)\<lparr>FileOffset := FileOffset (the_node (kern v) Node) + Size * Elements\<rparr>)\<rparr>\<rparr>) \<and>
     load_bytes m dest n = load_bytes (mem (kern v)) Buf n \<and> (\<forall>a. n \<le> unat (a - dest) \<longrightarrow> m a = mem (kern v) a)"
proof -
  have "unat (Size * Elements) < 2 ^ LENGTH(64)" by (rule unsigned_less)
  then have "n \<le> 2 ^ 64" using assms(5) by simp
  from memcpy_eq [OF assms(4,1,6) this, of "mem (kern v)"] obtain m where
    m: "memcpy dest Buf n (mem (kern v)) = Inr m" "load_bytes m dest n = load_bytes (mem (kern v)) Buf n"
      "\<forall>a. n \<le> unat (a - dest) \<longrightarrow> m a = mem (kern v) a" by blast
  have "Node \<noteq> NULL" using assms(2) by (auto simp: is_node_def)
  moreover have "is_node ((kern v)\<lparr>mem := m\<rparr>) Node" using assms(2) by (simp add: is_node_def)
  ultimately show ?thesis using m assms(1-3,5) by (intro exI [of _ m]) (simp add: Write_def Let_def)
qed

text \<open>A framebuffer 80 pixels wide at \<^verbatim>\<open>0xA0000\<close>, in a tag of 30 bytes at \<^verbatim>\<open>0x1008\<close>.\<close>

definition example_mbi :: memory where
  "example_mbi = (\<lambda>_. 0)(0x1008 := 8, 0x100C := 30, 0x1012 := 0x0A, 0x101C := 80)"

definition example_vga :: vga where
  "example_vga = \<lparr>FrameBufferAddress = 0, FrameBufferWidth = 0, FrameBufferHeight = 0, FrameBufferPitch = 0,
     FrameBufferBPP = 0, fb_nodes = [], kern = root_only\<lparr>mem := example_mbi\<rparr>\<rparr>"

theorem ParseMBI_last_framebuffer_witness:
  "\<exists>v. ParseMBI 0x1000 example_vga = Some (Inr v) \<and> FrameBufferAddress v = 0xA0000 \<and> FrameBufferWidth v = 80"
proof -
  have m: "mem (kern example_vga) = example_mbi" by (simp add: example_vga_def)
  have t: "mbi_tags example_mbi 0x1000 8 [(8, 30)]"
    by (simp add: tag_type_def tag_size_def load32_def load_bytes_def upt_rec example_mbi_def next_tag_def)
  have f: "framebuffers 0x1000 8 [(8, 30)] = [0x1008]" by simp
  have p: "\<forall>tag \<in> set (framebuffers 0x1000 8 [(8, 30)]). printable_fb example_mbi tag"
    by (simp add: printable_fb_def fb_width_def fb_height_def fb_pitch_def load32_def load_bytes_def upt_rec example_mbi_def INT_MIN_def)
  have r: "fb_addr example_mbi 0x1008 = 0xA0000" "fb_width example_mbi 0x1008 = 80"
    by (simp_all add: fb_addr_def fb_width_def load64_def load32_def load_bytes_def upt_rec example_mbi_def push_bit_eq_mult)
  from ParseMBI_last_framebuffer [of example_vga "0x1000", unfolded m, OF t p]
  show ?thesis by (auto simp: f last_framebuffer_def read_framebuffer_def m r Let_def)
qed

theorem Write_copies_witness:
  "\<exists>v. Write 0x5000 2 1 0x1000 (example_vga\<lparr>FrameBufferAddress := 0xA0000\<rparr>) = Inr (ucast (1 :: u64), v) \<and>
     FileOffset (the_node (kern v) 0x1000) = 2"
proof -
  let ?v = "example_vga\<lparr>FrameBufferAddress := 0xA0000\<rparr>"
  have k: "kern ?v = root_only\<lparr>mem := example_mbi\<rparr>" "is_node (kern ?v) 0x1000" "FileOffset (the_node (kern ?v) 0x1000) = 0"
    by (simp_all add: example_vga_def is_node_def root_node_def zero_node_def)
  have d: "disjoint_blocks 0xA0000 0x5000 2" by (auto simp: disjoint_blocks_def less_2_cases_iff)
  have ex: "\<exists>m. Write 0x5000 2 1 0x1000 ?v = Inr (ucast (1 :: u64), ?v\<lparr>kern := (kern ?v)\<lparr>mem := m,
        nodes := (nodes (kern ?v))(0x1000 \<mapsto> (the_node (kern ?v) 0x1000)\<lparr>FileOffset := FileOffset (the_node (kern ?v) 0x1000) + 2 * 1\<rparr>)\<rparr>\<rparr>) \<and>
     load_bytes m 0xA0000 2 = load_bytes (mem (kern ?v)) 0x5000 2 \<and> (\<forall>a. 2 \<le> unat (a - 0xA0000) \<longrightarrow> m a = mem (kern ?v) a)"
    by (rule Write_copies) (use k d in simp_all)
  then obtain m where "Write 0x5000 2 1 0x1000 ?v = Inr (ucast (1 :: u64), ?v\<lparr>kern := (kern ?v)\<lparr>mem := m,
        nodes := (nodes (kern ?v))(0x1000 \<mapsto> (the_node (kern ?v) 0x1000)\<lparr>FileOffset := FileOffset (the_node (kern ?v) 0x1000) + 2 * 1\<rparr>)\<rparr>\<rparr>)"
    by blast
  then show ?thesis using k(3) by (intro exI conjI) (assumption, simp)
qed

section \<open>Where the tags are looked for\<close>

text \<open>
  C36. The module looks for the boot loader's information at \<^verbatim>\<open>/sys/mbi\<close>, which only the
  ia32 kernel creates. Where there is no such node, loading it panics: a lookup does not fail in any other way.
\<close>

theorem Init_needs_mbi:
  assumes "repr (kern v) t" "root_of t = Root (kern v)" "\<forall>a \<in> set (nodes_of t). regular (the_node (kern v) a)"
    and "lookup (kern v) t [''dev''] \<noteq> None" "lookup (kern v) t [''sys'', ''mbi''] = None"
    and "layout_ok (kern v)" "low_room (kern v) (Suc 0)"
    and "set (nodes_of t) \<inter> (\<lambda>i. page_addr (kern v) i + 16) ` {..<LOW_PAGES} \<subseteq> live_blocks (kern v)"
  shows "Init v = Some (Inl (Panic PANIC_NOT_FOUND))"
proof -
  let ?s = "kern v"
  have w: "list_all plain_word (components ''/dev'')" "components ''/dev'' = [''dev'']"
    "list_all plain_word (components ''/sys/mbi'')" "components ''/sys/mbi'' = [''sys'', ''mbi'']"
    by (simp_all add: components_def pieces_Cons plain_word_def special_words_def)
  obtain Dev where dev: "find_from_root ''/dev'' 4 ?s = Some (Inr Dev)"
    using find_from_root_tree [OF assms(1-3) w(1), unfolded w(2)] assms(4) by (auto simp: eval_nat_numeral)
  obtain p s1 where new: "NewVNode (VFS_READ OR VFS_WRITE) ?s = Inr (p, s1\<lparr>nodes := (nodes ?s)(p \<mapsto> new_node (VFS_READ OR VFS_WRITE))\<rparr>)"
    and p: "p \<noteq> NULL" and fresh: "p \<notin> set (nodes_of t)" and frame: "Root s1 = Root ?s"
    using new_node_beside [OF assms(6-8)] by blast
  define s2 where "s2 = s1\<lparr>nodes := (nodes ?s)(p \<mapsto> (new_node (VFS_READ OR VFS_WRITE))
     \<lparr>Name := \<lparr>VNodeString.Name = ''framebuffer'' @ [NUL], Length = 11\<rparr>\<rparr>)\<rparr>"
  have named: "set_node p (\<lambda>n. n\<lparr>Name := \<lparr>VNodeString.Name = ''framebuffer'' @ [NUL], Length = 11\<rparr>\<rparr>)
      (s1\<lparr>nodes := (nodes ?s)(p \<mapsto> new_node (VFS_READ OR VFS_WRITE))\<rparr>) = Inr s2"
    using p by (simp add: set_node_def node_def s2_def)
  have same: "nodes s2 a = nodes ?s a" if "a \<in> set (nodes_of t)" for a using that fresh by (auto simp: s2_def)
  have root: "Root s2 = Root ?s" by (simp add: s2_def frame)
  have there: "repr s2 t" "root_of t = Root s2" "\<forall>a \<in> set (nodes_of t). regular (the_node s2 a)"
    "lookup s2 t [''sys'', ''mbi''] = None"
    using repr_cong [of t s2 ?s] lookup_cong [of t s2 ?s] same assms(1-3,5) root by simp_all
  have "find_from_root ''/sys/mbi'' 8 s2 = Some (Inl (Panic PANIC_NOT_FOUND))"
    using find_from_root_tree [OF there(1,2,3) w(3), unfolded w(4)] there(4) by (simp add: eval_nat_numeral)
  then show ?thesis using dev new named by (simp add: Init_def)
qed

theorem Init_needs_mbi_witness: "Init (example_vga\<lparr>kern := two_dirs\<rparr>) = Some (Inl (Panic PANIC_NOT_FOUND))"
proof -
  have k: "kern (example_vga\<lparr>kern := two_dirs\<rparr>) = two_dirs" by simp
  show ?thesis
    by (rule Init_needs_mbi [of "example_vga\<lparr>kern := two_dirs\<rparr>", unfolded k, OF two_dirs_tree(1) _ two_dirs_tree(2)])
      (use two_dirs_tree(3,5) two_dirs_pages two_dirs_beside in simp_all)
qed

end
