(* ===== verification/Kmain.thy ===== *)
theory Kmain
  imports Sched KernelPrint Amd64
begin

text \<open>
  \<^verbatim>\<open>kmain\<close> of \<^verbatim>\<open>src/kernel/kmain.c\<close>: the order in which the parts of the
  kernel are started, and the loop that watches the temperature.

  Which of the four architectures the kernel is built for is decided when it is linked: the functions
  of \<^verbatim>\<open>arch.h\<close> are the fields of a record, over the kernel's state and one of the
  architecture's own, and \<open>amd64_arch\<close> is that record for the functions of \<open>Amd64\<close>.
\<close>

record 'a system =
  kern :: kernel
  board :: 'a

record 'a arch =
  ArchInitialise_op :: "u32 \<Rightarrow> u32 \<Rightarrow> 'a system \<Rightarrow> 'a system outcome"
  ArchIdentify_op :: string
  ArchSti_op :: "'a system \<Rightarrow> 'a system"
  ArchCli_op :: "'a system \<Rightarrow> 'a system"
  ArchPause_op :: "'a system \<Rightarrow> 'a system"
  LoadModules_op :: "(u32 \<Rightarrow> u32 \<Rightarrow> 'a system \<Rightarrow> 'a system outcome) option"
  Temperature_op :: "('a system \<Rightarrow> u32) option"

text \<open>An operation of the kernel alone.\<close>

definition on_kernel :: "(kernel \<Rightarrow> ('r \<times> kernel) outcome) \<Rightarrow> 'a system \<Rightarrow> ('r \<times> 'a system) outcome" where
  "on_kernel f s = obind (f (kern s)) (\<lambda>(r, k). Some (Inr (r, s\<lparr>kern := k\<rparr>)))"

definition kernel_step :: "(kernel \<Rightarrow> kernel outcome) \<Rightarrow> 'a system \<Rightarrow> 'a system outcome" where
  "kernel_step f s = obind (f (kern s)) (\<lambda>k. Some (Inr (s\<lparr>kern := k\<rparr>)))"

definition kprint :: "string \<Rightarrow> va list \<Rightarrow> 'a system \<Rightarrow> 'a system outcome" where
  "kprint fmt args s = kernel_step (SerialPrint kput (fmt @ [CHR 0x0D, CHR 0x0A, NUL]) args) s"

section \<open>Starting\<close>

text \<open>
  The addresses are those of the text \<^verbatim>\<open>ArchIdentify\<close> returns, of
  \<^verbatim>\<open>Message\<close> and of \<^verbatim>\<open>InputString\<close>.
\<close>

definition Message_size :: nat where
  "Message_size = length ('' [Info] Found tty0 VNode Successfully'' @ [CHR 0x0A, NUL])"

definition start_modules :: "'a arch \<Rightarrow> u32 \<Rightarrow> u32 \<Rightarrow> 'a system \<Rightarrow> 'a system outcome" where
  "start_modules A a b s =
     (case LoadModules_op A of None \<Rightarrow> Some (Inr s)
      | Some load \<Rightarrow> obind (kprint '' [Info] Loading Modules...'' [] s) (load a b))"

definition greet :: "'a arch \<Rightarrow> addr \<Rightarrow> addr \<Rightarrow> addr \<Rightarrow> 'a system \<Rightarrow> 'a system outcome" where
  "greet A Identify Message InputString s =
     obind (on_kernel (fd_open (Some (''/dev/tty0'' @ [NUL])) 0) s) (\<lambda>(File, s1).
     obind (Some (strnlen (Some (ArchIdentify_op A)) 64)) (\<lambda>len.
     obind (on_kernel (fd_write File Identify (of_nat len)) s1) (\<lambda>(_, s2).
     obind (on_kernel (fd_write File Message (of_nat Message_size)) s2) (\<lambda>(_, s3).
     obind (on_kernel (fd_read File InputString 15) s3) (\<lambda>(_, s4).
     kernel_step (fd_close File) s4)))))"

definition report_memory :: "'a system \<Rightarrow> 'a system outcome" where
  "report_memory s =
     (let used = TOTAL_BITMAP - MStat (kern s)
      in kprint '' [Mem] %dkb in use (%d/%d)''
           [VaInt (of_nat (used * PAGE_SIZE div 1024)), VaInt (of_nat used), VaInt (of_nat TOTAL_BITMAP)] s)"

definition start :: "'a arch \<Rightarrow> addr \<Rightarrow> addr \<Rightarrow> addr \<Rightarrow> u32 \<Rightarrow> u32 \<Rightarrow> 'a system \<Rightarrow> 'a system outcome" where
  "start A Identify Message InputString a b s =
     obind (kernel_step (\<lambda>k. Some (VFSCreateDevices k)) s) (\<lambda>s1.
     obind (ArchInitialise_op A a b s1) (\<lambda>s2.
     obind (kernel_step SchedulerInitialise s2) (\<lambda>s3.
     obind (start_modules A a b (ArchSti_op A s3)) (\<lambda>s4.
     obind (greet A Identify Message InputString s4) (\<lambda>s5.
     obind (kernel_step (\<lambda>k. VNListTree (RootVNode k) 1 k) s5) report_memory)))))"

section \<open>Watching the temperature\<close>

text \<open>C's division of a \<^verbatim>\<open>long\<close>, towards zero.\<close>

definition degrees :: "int \<Rightarrow> int" where
  "degrees t = (if t < 0 then - (- t div 1000) else t div 1000)"

definition temperature :: "'a arch \<Rightarrow> 'a system \<Rightarrow> int" where
  "temperature A s = (case Temperature_op A of None \<Rightarrow> - 1 | Some f \<Rightarrow> sint (f s))"

definition judge :: "'a arch \<Rightarrow> int \<Rightarrow> 'a system \<Rightarrow> 'a system outcome" where
  "judge A t s =
     (let arg = [VaInt (of_int (degrees t))]
      in if t < 60 * 1000 then kprint '' [Info] Temperature (%d) is normal'' arg s
         else if t > 85 * 1000 then
           obind (kprint '' [Info] Temperature (%d) is critical, aborting'' arg (ArchCli_op A s)) (\<lambda>_. Some (Inl (Panic PANIC_OVERHEAT)))
         else if t > 80 * 1000 then kprint '' [Info] Temperature (%d) is... high.. hmm..'' arg s
         else if t > 70 * 1000 then kprint '' [Info] Temperature (%d) surpassed expected temperatures'' arg s
         else if t > 60 * 1000 then kprint '' [Info] Temperature (%d) implies inefficiency'' arg s
         else Some (Inr s))"

text \<open>One turn: \<^verbatim>\<open>SampleDelay\<close>, \<^verbatim>\<open>WaitTimeRemaining\<close> and the state.\<close>

definition watch :: "'a arch \<Rightarrow> u64 \<times> u64 \<times> 'a system \<Rightarrow> (u64 \<times> u64 \<times> 'a system) outcome" where
  "watch A x =
     (case x of (SampleDelay, WaitTimeRemaining, s) \<Rightarrow>
       obind (if WaitTimeRemaining = 0 \<and> SampleDelay > 0 then
                let t = temperature A s; SampleDelay1 = (if t = - 1 then - 1 else SampleDelay)
                in obind (judge A t s) (\<lambda>s1. Some (Inr (SampleDelay1, SampleDelay1, s1)))
              else if SampleDelay > 0 then Some (Inr (SampleDelay, WaitTimeRemaining - 1, s))
              else Some (Inr x))
         (\<lambda>(d, w, s1). Some (Inr (d, w, ArchPause_op A s1))))"

fun watch_turns :: "'a arch \<Rightarrow> nat \<Rightarrow> u64 \<times> u64 \<times> 'a system \<Rightarrow> (u64 \<times> u64 \<times> 'a system) outcome" where
  "watch_turns A 0 x = Some (Inr x)"
| "watch_turns A (Suc n) x = obind (watch A x) (watch_turns A n)"

text \<open>\<^verbatim>\<open>kmain\<close> does not return: what is observed are \<open>n\<close> turns of its loop.\<close>

definition kmain :: "'a arch \<Rightarrow> addr \<Rightarrow> addr \<Rightarrow> addr \<Rightarrow> u32 \<Rightarrow> u32 \<Rightarrow> nat \<Rightarrow> 'a system \<Rightarrow> (u64 \<times> u64 \<times> 'a system) outcome" where
  "kmain A Identify Message InputString a b n s =
     obind (start A Identify Message InputString a b s) (\<lambda>s1. watch_turns A n (1000, 0, s1))"

section \<open>On amd64\<close>

text \<open>\<open>wait\<close> is what happens until the next interrupt, \<open>load\<close> is \<^verbatim>\<open>LoadModules\<close>.\<close>

definition amd64_arch ::
  "'h bus \<Rightarrow> addr \<Rightarrow> addr \<Rightarrow> addr \<Rightarrow> (u32 \<Rightarrow> u32 \<Rightarrow> ('h machine \<times> cpu) system \<Rightarrow> ('h machine \<times> cpu) system outcome) \<Rightarrow>
   (('h machine \<times> cpu) system \<Rightarrow> ('h machine \<times> cpu) system) \<Rightarrow> ('h machine \<times> cpu) arch" where
  "amd64_arch B at D T load wait = \<lparr>
     ArchInitialise_op = (\<lambda>a b s. Some (rbind (ArchInitialise B at D T a b (fst (board s))) (\<lambda>m. Inr (s\<lparr>board := (m, snd (board s))\<rparr>)))),
     ArchIdentify_op = ArchIdentify,
     ArchSti_op = (\<lambda>s. s\<lparr>board := (ArchSti (fst (board s)), snd (board s))\<rparr>),
     ArchCli_op = (\<lambda>s. s\<lparr>board := (ArchCli (fst (board s)), snd (board s))\<rparr>),
     ArchPause_op = wait,
     LoadModules_op = Some load,
     Temperature_op = Some (\<lambda>s. ArchGetTemperatureMC (snd (board s)))\<rparr>"

section \<open>How often the temperature is read\<close>

lemma watch_waits:
  "w \<noteq> 0 \<Longrightarrow> d > 0 \<Longrightarrow> watch A (d, w, s) = Some (Inr (d, w - 1, ArchPause_op A s))"
  by (simp add: watch_def)

lemma waiting_turns:
  "n \<le> unat w \<Longrightarrow> d > 0 \<Longrightarrow> watch_turns A n (d, w, s) = Some (Inr (d, w - of_nat n, (ArchPause_op A ^^ n) s))"
proof (induction n arbitrary: w s)
  case (Suc n)
  then have w0: "w \<noteq> 0" by auto
  then have "unat (w - 1) = unat w - 1" by (rule unat_minus_one)
  with Suc.prems(1) w0 have w: "w \<noteq> 0" "n \<le> unat (w - 1)" by simp_all
  show ?case using Suc.IH [OF w(2) Suc.prems(2)] watch_waits [OF w(1) Suc.prems(2), of A s] Suc.prems
    by (simp add: funpow_swap1 diff_diff_eq)
qed simp

lemma kprint_prints:
  "render (fmt @ [CHR 0x0D, CHR 0x0A, NUL]) args = Some t \<Longrightarrow>
     kprint fmt args s = Some (Inr (s\<lparr>kern := (kern s)\<lparr>tx := tx (kern s) @ t\<rparr>\<rparr>))"
  by (simp add: kprint_def on_kernel_def kernel_step_def kernel_prints)

text \<open>What is said about a temperature, if anything.\<close>

definition verdict :: "int \<Rightarrow> (string \<times> string) option" where
  "verdict t =
     (if t < 60000 then Some ('' [Info] Temperature ('', '') is normal'')
      else if t = 60000 then None
      else if t \<le> 70000 then Some ('' [Info] Temperature ('', '') implies inefficiency'')
      else if t \<le> 80000 then Some ('' [Info] Temperature ('', '') surpassed expected temperatures'')
      else Some ('' [Info] Temperature ('', '') is... high.. hmm..''))"

definition verdict_text :: "int \<Rightarrow> string" where
  "verdict_text t =
     (case verdict t of None \<Rightarrow> [] | Some (u, v) \<Rightarrow> u @ int_text (degrees t) @ v @ [CHR 0x0D, CHR 0x0A])"

lemma temperature_bounds: "- 2147483648 \<le> temperature A s" "temperature A s < 2147483648"
proof -
  have "- (2 ^ 31) \<le> sint v \<and> sint v < 2 ^ 31" for v :: u32 using sint_ge [of v] sint_lt [of v] by simp
  then show "- 2147483648 \<le> temperature A s" "temperature A s < 2147483648"
    by (auto simp: temperature_def split: option.split)
qed

lemma degrees_argument:
  assumes "- 2147483648 \<le> t" "t < 2147483648"
  shows "sint (of_int (degrees t) :: u32) = degrees t" "(of_int (degrees t) :: u32) \<noteq> INT_MIN"
proof -
  have b: "- 2147484 \<le> degrees t \<and> degrees t \<le> 2147484" using assms by (auto simp: degrees_def)
  show s: "sint (of_int (degrees t) :: u32) = degrees t" using b by (intro sint_small) auto
  have "sint INT_MIN = - 2147483648" by (simp add: INT_MIN_def)
  then show "(of_int (degrees t) :: u32) \<noteq> INT_MIN" using s b by auto
qed

lemma judge_verdict:
  assumes "- 2147483648 \<le> t" "t \<le> 85000"
  shows "judge A t s = Some (Inr (s\<lparr>kern := (kern s)\<lparr>tx := tx (kern s) @ verdict_text t\<rparr>\<rparr>))"
proof -
  have t: "t < 2147483648" using assms(2) by simp
  note d = degrees_argument [OF assms(1) t]
  consider "t < 60000" | "t = 60000" | "60000 < t" "t \<le> 70000" | "70000 < t" "t \<le> 80000" | "80000 < t" "t \<le> 85000"
    using assms(2) by linarith
  then show ?thesis
    by cases (simp_all add: judge_def verdict_text_def verdict_def kprint_prints [where t = "verdict_text t"] directive_text_def d)
qed


definition hot_arch :: "nat arch" where
  "hot_arch = \<lparr>ArchInitialise_op = (\<lambda>a b s. Some (Inr s)), ArchIdentify_op = [NUL], ArchSti_op = id, ArchCli_op = id,
     ArchPause_op = (\<lambda>s. s\<lparr>board := board s + 1\<rparr>), LoadModules_op = None, Temperature_op = Some (\<lambda>s. 61500)\<rparr>"


text \<open>
  Started by anything but a multiboot2 loader the amd64 kernel makes its device nodes and then panics:
  no interrupt is let through, no process created and no module loaded before the check.
\<close>

lemma kmain_wrong_bootloader:
  assumes "VFSCreateDevices (kern s) = Inr k" "a \<noteq> 0x36d76289"
  shows "kmain (amd64_arch B at D T load wait) Identify Message InputString a b n s = Some (Inl (Panic PANIC_INCORRECT_BOOTLOADER))"
  using assms by (simp add: kmain_def start_def kernel_step_def amd64_arch_def ArchInitialise_def)

end
