(* ===== verification/Elf32.thy ===== *)
theory Elf32
  imports KString
begin

text \<open>
  The module loader of ia32, \<^verbatim>\<open>src/ia32/module.c\<close>: as the one of amd64 in \<open>Elf\<close>, on
  32-bit files and addresses. The file is bytes of the memory, read at the offsets of the structures of
  \<^verbatim>\<open>src/ia32/module.h\<close>; \<^verbatim>\<open>FindKernelSymbol\<close> and the functions of the module
  are parameters, and what is printed is kept as messages.

  What i386 toolchains emit is \<^verbatim>\<open>SHT_REL\<close>, with the addend in the place to patch:
  \<open>rel32_loop_relocates\<close> is about that.
\<close>

section \<open>Memory and structures\<close>

type_synonym memory32 = "u32 \<Rightarrow> u8"

definition ldh :: "memory32 \<Rightarrow> u32 \<Rightarrow> u16" where
  "ldh m a = le_join [m a, m (a + 1)]"

definition ldw :: "memory32 \<Rightarrow> u32 \<Rightarrow> u32" where
  "ldw m a = le_join [m a, m (a + 1), m (a + 2), m (a + 3)]"

definition stw :: "memory32 \<Rightarrow> u32 \<Rightarrow> u32 \<Rightarrow> memory32" where
  "stw m a v = m(a := ucast v, a + 1 := ucast (drop_bit 8 v), a + 2 := ucast (drop_bit 16 v), a + 3 := ucast (drop_bit 24 v))"

text \<open>\<^verbatim>\<open>struct elf_header\<close> at an address; \<^verbatim>\<open>shdr[i]\<close>, 40 bytes each.\<close>

definition e32_type :: "memory32 \<Rightarrow> u32 \<Rightarrow> u16" where "e32_type m elf = ldh m (elf + 16)"
definition e32_shoff :: "memory32 \<Rightarrow> u32 \<Rightarrow> u32" where "e32_shoff m elf = ldw m (elf + 32)"
definition e32_shnum :: "memory32 \<Rightarrow> u32 \<Rightarrow> u16" where "e32_shnum m elf = ldh m (elf + 48)"
definition sh32_type :: "memory32 \<Rightarrow> u32 \<Rightarrow> u32 \<Rightarrow> u32" where "sh32_type m shdr i = ldw m (shdr + 40 * i + 4)"
definition sh32_flags :: "memory32 \<Rightarrow> u32 \<Rightarrow> u32 \<Rightarrow> u32" where "sh32_flags m shdr i = ldw m (shdr + 40 * i + 8)"
definition sh32_offset :: "memory32 \<Rightarrow> u32 \<Rightarrow> u32 \<Rightarrow> u32" where "sh32_offset m shdr i = ldw m (shdr + 40 * i + 16)"
definition sh32_size :: "memory32 \<Rightarrow> u32 \<Rightarrow> u32 \<Rightarrow> u32" where "sh32_size m shdr i = ldw m (shdr + 40 * i + 20)"
definition sh32_link :: "memory32 \<Rightarrow> u32 \<Rightarrow> u32 \<Rightarrow> u32" where "sh32_link m shdr i = ldw m (shdr + 40 * i + 24)"
definition sh32_info :: "memory32 \<Rightarrow> u32 \<Rightarrow> u32 \<Rightarrow> u32" where "sh32_info m shdr i = ldw m (shdr + 40 * i + 28)"

text \<open>\<^verbatim>\<open>struct elf_symbol\<close>, 16 bytes; \<^verbatim>\<open>elf_rela\<close>, 12; \<^verbatim>\<open>elf_rel\<close>, 8.\<close>

definition st32_name :: "memory32 \<Rightarrow> u32 \<Rightarrow> u32" where "st32_name m sy = ldw m sy"
definition st32_value :: "memory32 \<Rightarrow> u32 \<Rightarrow> u32" where "st32_value m sy = ldw m (sy + 4)"
definition st32_shndx :: "memory32 \<Rightarrow> u32 \<Rightarrow> u16" where "st32_shndx m sy = ldh m (sy + 14)"
definition r32_offset :: "memory32 \<Rightarrow> u32 \<Rightarrow> u32" where "r32_offset m rel = ldw m rel"
definition r32_info :: "memory32 \<Rightarrow> u32 \<Rightarrow> u32" where "r32_info m rel = ldw m (rel + 4)"
definition r32_addend :: "memory32 \<Rightarrow> u32 \<Rightarrow> u32" where "r32_addend m rel = ldw m (rel + 8)"

definition ELF32_R_TYPE :: "u32 \<Rightarrow> u32" where "ELF32_R_TYPE info = info AND 0xFF"
definition ELF32_R_SYM :: "u32 \<Rightarrow> u32" where "ELF32_R_SYM info = drop_bit 8 info"

definition R_386_32 :: u32 where "R_386_32 = 1"
definition R_386_PC32 :: u32 where "R_386_PC32 = 2"
definition R_386_GOT32 :: u32 where "R_386_GOT32 = 3"
definition R_386_PLT32 :: u32 where "R_386_PLT32 = 4"
definition R_386_COPY :: u32 where "R_386_COPY = 5"
definition R_386_GLOB_DAT :: u32 where "R_386_GLOB_DAT = 6"
definition R_386_JUMP_SLOT :: u32 where "R_386_JUMP_SLOT = 7"
definition R_386_RELATIVE :: u32 where "R_386_RELATIVE = 8"
definition R_386_GOTOFF :: u32 where "R_386_GOTOFF = 9"
definition R_386_GOTPC :: u32 where "R_386_GOTPC = 10"
definition SHT32_SYMTAB :: u32 where "SHT32_SYMTAB = 2"
definition SHT32_RELA :: u32 where "SHT32_RELA = 4"
definition SHT32_REL :: u32 where "SHT32_REL = 9"
definition SHT32_INIT_ARRAY :: u32 where "SHT32_INIT_ARRAY = 14"
definition SHF32_ALLOC :: u32 where "SHF32_ALLOC = 2"
definition SHN32_UNDEF :: u16 where "SHN32_UNDEF = 0"
definition SHN32_ABS :: u16 where "SHN32_ABS = 0xfff1"
definition SHN32_COMMON :: u16 where "SHN32_COMMON = 0xfff2"
definition ET32_REL :: u16 where "ET32_REL = 1"

record loaded_module32 =
  base32 :: u32
  symtab32 :: u32
  strtab32 :: u32
  symcount32 :: u32

datatype message32 =
    Loading32 u32 u32 | NotElf32 | NotRelocatable32 u16 | Unresolved32 u32 | UnknownRela32 u32 | UnknownRel32 u32
  | RelocationFailed32 | CallingInit32 u32 | InitReturned32 u32 | NoInit32 | CallingConstructor32 nat u32 | Loaded32

record 'w loader32 =
  mem32 :: memory32
  log32 :: "message32 list"
  world32 :: 'w

definition say32 :: "message32 \<Rightarrow> 'w loader32 \<Rightarrow> 'w loader32" where
  "say32 msg st = st\<lparr>log32 := log32 st @ [msg]\<rparr>"

definition shdr32_of :: "memory32 \<Rightarrow> u32 \<Rightarrow> u32" where
  "shdr32_of m b = b + e32_shoff m b"

section \<open>Symbols\<close>

definition same_name32 :: "memory32 \<Rightarrow> u32 \<Rightarrow> string \<Rightarrow> bool result" where
  "same_name32 m a name =
     rbind (strncmp (Some (map (\<lambda>i. char_of_byte (m (a + of_nat i))) [0..<128])) (Some name) 128) (\<lambda>r. Inr (r = 0))"

definition symbol32_at :: "loaded_module32 \<Rightarrow> u32 \<Rightarrow> u32" where
  "symbol32_at md i = symtab32 md + 16 * i"

definition symbol32_result :: "memory32 \<Rightarrow> loaded_module32 \<Rightarrow> u32 \<Rightarrow> u32 \<Rightarrow> u32" where
  "symbol32_result m md shdr sy =
     (let section_idx = st32_shndx m sy
      in if section_idx = SHN32_ABS then st32_value m sy
         else if section_idx = SHN32_COMMON then base32 md + st32_value m sy
         else if section_idx < e32_shnum m (base32 md) \<and> section_idx \<noteq> SHN32_UNDEF
           then base32 md + sh32_offset m shdr (ucast section_idx) + st32_value m sy
         else if section_idx = SHN32_UNDEF then 0
         else base32 md + st32_value m sy)"

fun find_symbol32 :: "memory32 \<Rightarrow> loaded_module32 \<Rightarrow> u32 \<Rightarrow> string \<Rightarrow> nat list \<Rightarrow> u32 result" where
  "find_symbol32 m md shdr name [] = Inr 0"
| "find_symbol32 m md shdr name (i # is) =
     (let sy = symbol32_at md (of_nat i)
      in rbind (same_name32 m (strtab32 md + st32_name m sy) name) (\<lambda>same.
           if same then Inr (symbol32_result m md shdr sy) else find_symbol32 m md shdr name is))"

text \<open>Counts are kept in an \<^verbatim>\<open>int\<close>: no turn of the loop if it is negative.\<close>

definition int_count32 :: "u32 \<Rightarrow> nat" where
  "int_count32 n = nat (sint n)"

definition FindSymbol32 :: "memory32 \<Rightarrow> loaded_module32 \<Rightarrow> string \<Rightarrow> u32 result" where
  "FindSymbol32 m md name = find_symbol32 m md (shdr32_of m (base32 md)) name [0..<int_count32 (symcount32 md)]"

section \<open>Relocation\<close>

definition defined_symbol32 :: "memory32 \<Rightarrow> loaded_module32 \<Rightarrow> u32 \<Rightarrow> u32 \<Rightarrow> u32" where
  "defined_symbol32 m md shdr sy =
     (if sh32_flags m shdr (ucast (st32_shndx m sy)) AND SHF32_ALLOC \<noteq> 0
      then base32 md + sh32_offset m shdr (ucast (st32_shndx m sy)) + st32_value m sy
      else st32_value m sy)"

text \<open>\<open>Inl\<close>: the name of an unresolved symbol. \<^verbatim>\<open>SHT_REL\<close> does not check the index.\<close>

definition rela32_symbol ::
  "(memory32 \<Rightarrow> u32 \<Rightarrow> u32) \<Rightarrow> memory32 \<Rightarrow> loaded_module32 \<Rightarrow> u32 \<Rightarrow> u32 \<Rightarrow> u32 + u32" where
  "rela32_symbol Find m md shdr sym_idx =
     (if sint sym_idx > 0 \<and> sint sym_idx < sint (symcount32 md) then
        let sy = symbol32_at md sym_idx;
            sym_name = strtab32 md + st32_name m sy
        in if st32_shndx m sy \<noteq> SHN32_UNDEF \<and> st32_shndx m sy < e32_shnum m (base32 md)
           then Inr (defined_symbol32 m md shdr sy)
           else if st32_shndx m sy = SHN32_UNDEF \<and> m sym_name \<noteq> 0
           then (let a = Find m sym_name in if a = 0 then Inl sym_name else Inr a)
           else if st32_shndx m sy = SHN32_ABS then Inr (st32_value m sy)
           else Inr 0
      else Inr 0)"

definition rel32_symbol ::
  "(memory32 \<Rightarrow> u32 \<Rightarrow> u32) \<Rightarrow> memory32 \<Rightarrow> loaded_module32 \<Rightarrow> u32 \<Rightarrow> u32 \<Rightarrow> u32 + u32" where
  "rel32_symbol Find m md shdr sym_idx =
     (let sy = symbol32_at md sym_idx;
          sym_name = strtab32 md + st32_name m sy
      in if st32_shndx m sy \<noteq> SHN32_UNDEF \<and> st32_shndx m sy < e32_shnum m (base32 md)
         then Inr (defined_symbol32 m md shdr sy)
         else if st32_shndx m sy = SHN32_UNDEF \<and> m sym_name \<noteq> 0
         then (let a = Find m sym_name in if a = 0 then Inl sym_name else Inr a)
         else Inr 0)"

definition patch_rela32 :: "memory32 \<Rightarrow> u32 \<Rightarrow> u32 \<Rightarrow> u32 \<Rightarrow> u32 \<Rightarrow> memory32 option" where
  "patch_rela32 m type patch_addr sym_addr addend =
     (if type = R_386_32 then Some (stw m patch_addr (sym_addr + addend))
      else if type = R_386_PC32 \<or> type = R_386_PLT32 then Some (stw m patch_addr (sym_addr + addend - patch_addr))
      else if type = R_386_GOT32 \<or> type = R_386_COPY \<or> type = R_386_GLOB_DAT \<or> type = R_386_JUMP_SLOT
        then Some (stw m patch_addr sym_addr)
      else if type = R_386_GOTOFF \<or> type = R_386_GOTPC then Some m
      else None)"

definition patch_rel32 :: "memory32 \<Rightarrow> u32 \<Rightarrow> u32 \<Rightarrow> u32 \<Rightarrow> u32 \<Rightarrow> memory32 option" where
  "patch_rel32 m type patch_addr sym_addr addend =
     (if type = R_386_32 then Some (stw m patch_addr (sym_addr + addend))
      else if type = R_386_PC32 \<or> type = R_386_PLT32 then Some (stw m patch_addr (sym_addr + addend - patch_addr))
      else if type = R_386_GLOB_DAT \<or> type = R_386_JUMP_SLOT then Some (stw m patch_addr sym_addr)
      else None)"

fun rela32_loop ::
  "(memory32 \<Rightarrow> u32 \<Rightarrow> u32) \<Rightarrow> loaded_module32 \<Rightarrow> u32 \<Rightarrow> u32 \<Rightarrow> u32 \<Rightarrow> nat list \<Rightarrow> 'w loader32 \<Rightarrow> bool \<times> 'w loader32" where
  "rela32_loop Find md shdr target_base rel [] st = (True, st)"
| "rela32_loop Find md shdr target_base rel (r # rs) st =
     (let m = mem32 st;
          entry = rel + 12 * of_nat r;
          type = ELF32_R_TYPE (r32_info m entry);
          sym_idx = ELF32_R_SYM (r32_info m entry);
          patch_addr = target_base + r32_offset m entry
      in if type = R_386_RELATIVE \<and> sym_idx = 0
         then rela32_loop Find md shdr target_base rel rs (st\<lparr>mem32 := stw m patch_addr (base32 md + r32_addend m entry)\<rparr>)
         else case rela32_symbol Find m md shdr sym_idx of
             Inl sym_name \<Rightarrow> (False, say32 (Unresolved32 sym_name) st)
           | Inr sym_addr \<Rightarrow>
               (case patch_rela32 m type patch_addr sym_addr (r32_addend m entry) of
                  Some m1 \<Rightarrow> rela32_loop Find md shdr target_base rel rs (st\<lparr>mem32 := m1\<rparr>)
                | None \<Rightarrow> rela32_loop Find md shdr target_base rel rs (say32 (UnknownRela32 type) st)))"

fun rel32_loop ::
  "(memory32 \<Rightarrow> u32 \<Rightarrow> u32) \<Rightarrow> loaded_module32 \<Rightarrow> u32 \<Rightarrow> u32 \<Rightarrow> u32 \<Rightarrow> nat list \<Rightarrow> 'w loader32 \<Rightarrow> bool \<times> 'w loader32" where
  "rel32_loop Find md shdr target_base rel [] st = (True, st)"
| "rel32_loop Find md shdr target_base rel (r # rs) st =
     (let m = mem32 st;
          entry = rel + 8 * of_nat r;
          type = ELF32_R_TYPE (r32_info m entry);
          sym_idx = ELF32_R_SYM (r32_info m entry);
          patch_addr = target_base + r32_offset m entry;
          addend = ldw m patch_addr
      in case rel32_symbol Find m md shdr sym_idx of
           Inl sym_name \<Rightarrow> (False, say32 (Unresolved32 sym_name) st)
         | Inr sym_addr \<Rightarrow>
             (case patch_rel32 m type patch_addr sym_addr addend of
                Some m1 \<Rightarrow> rel32_loop Find md shdr target_base rel rs (st\<lparr>mem32 := m1\<rparr>)
              | None \<Rightarrow> rel32_loop Find md shdr target_base rel rs (say32 (UnknownRel32 type) st)))"

definition reloc_section32 ::
  "(memory32 \<Rightarrow> u32 \<Rightarrow> u32) \<Rightarrow> loaded_module32 \<Rightarrow> u32 \<Rightarrow> u32 \<Rightarrow> 'w loader32 \<Rightarrow> bool \<times> 'w loader32" where
  "reloc_section32 Find md shdr i st =
     (let m = mem32 st
      in if sh32_type m shdr i \<noteq> SHT32_REL \<and> sh32_type m shdr i \<noteq> SHT32_RELA then (True, st)
         else
           let target_section = sh32_info m shdr i
           in if sh32_flags m shdr target_section AND SHF32_ALLOC = 0 then (True, st)
              else
                let target_base = base32 md + sh32_offset m shdr target_section;
                    rel = base32 md + sh32_offset m shdr i
                in if sh32_type m shdr i = SHT32_RELA
                   then rela32_loop Find md shdr target_base rel [0..<int_count32 (sh32_size m shdr i div 12)] st
                   else rel32_loop Find md shdr target_base rel [0..<int_count32 (sh32_size m shdr i div 8)] st)"

text \<open>The number of sections is read again in every turn, from memory that patches may change.\<close>

function reloc_sections32 ::
  "(memory32 \<Rightarrow> u32 \<Rightarrow> u32) \<Rightarrow> loaded_module32 \<Rightarrow> u32 \<Rightarrow> nat \<Rightarrow> 'w loader32 \<Rightarrow> bool \<times> 'w loader32" where
  "reloc_sections32 Find md shdr i st =
     (if i < unat (e32_shnum (mem32 st) (base32 md)) then
        let (ok, st1) = reloc_section32 Find md shdr (of_nat i) st
        in if ok then reloc_sections32 Find md shdr (Suc i) st1 else (False, st1)
      else (True, st))"
  by pat_completeness auto
termination
proof (relation "measure (\<lambda>(F, md, shdr, i, st). 65536 - i)", simp, goal_cases)
  case (1 F md shdr i st)
  have "unat (e32_shnum (mem32 st) (base32 md)) < 65536" using unsigned_less [of "e32_shnum (mem32 st) (base32 md)"] by simp
  with 1 show ?case by simp
qed

declare reloc_sections32.simps [simp del]

fun find_symtab32 :: "memory32 \<Rightarrow> u32 \<Rightarrow> loaded_module32 \<Rightarrow> nat list \<Rightarrow> loaded_module32" where
  "find_symtab32 m shdr md [] = md"
| "find_symtab32 m shdr md (i # is) =
     (if sh32_type m shdr (of_nat i) = SHT32_SYMTAB
      then md\<lparr>symtab32 := base32 md + sh32_offset m shdr (of_nat i),
               symcount32 := sh32_size m shdr (of_nat i) div 16,
               strtab32 := base32 md + sh32_offset m shdr (sh32_link m shdr (of_nat i))\<rparr>
      else find_symtab32 m shdr md is)"

definition RelocateModule32 ::
  "(memory32 \<Rightarrow> u32 \<Rightarrow> u32) \<Rightarrow> loaded_module32 \<Rightarrow> 'w loader32 \<Rightarrow> bool \<times> loaded_module32 \<times> 'w loader32" where
  "RelocateModule32 Find md st =
     (let shdr = shdr32_of (mem32 st) (base32 md);
          mod1 = find_symtab32 (mem32 st) shdr md [0..<unat (e32_shnum (mem32 st) (base32 md))];
          (ok, st1) = reloc_sections32 Find mod1 shdr 0 st
      in (ok, mod1, st1))"

section \<open>Constructors and loading\<close>

fun call_functions32 :: "(u32 \<Rightarrow> 'w loader32 \<Rightarrow> 'w loader32) \<Rightarrow> u32 \<Rightarrow> nat list \<Rightarrow> 'w loader32 \<Rightarrow> 'w loader32" where
  "call_functions32 call init_funcs [] st = st"
| "call_functions32 call init_funcs (c # cs) st =
     (let f = ldw (mem32 st) (init_funcs + 4 * of_nat c)
      in if f \<noteq> 0 then call_functions32 call init_funcs cs (call f (say32 (CallingConstructor32 c f) st))
         else call_functions32 call init_funcs cs st)"

function constructor_sections32 ::
  "(u32 \<Rightarrow> 'w loader32 \<Rightarrow> 'w loader32) \<Rightarrow> u32 \<Rightarrow> u32 \<Rightarrow> nat \<Rightarrow> 'w loader32 \<Rightarrow> 'w loader32" where
  "constructor_sections32 call b shdr i st =
     (if i < unat (e32_shnum (mem32 st) b) then
        let m = mem32 st
        in constructor_sections32 call b shdr (Suc i)
             (if sh32_type m shdr (of_nat i) = SHT32_INIT_ARRAY \<and> sh32_flags m shdr (of_nat i) AND SHF32_ALLOC \<noteq> 0
              then call_functions32 call (b + sh32_offset m shdr (of_nat i)) [0..<int_count32 (sh32_size m shdr (of_nat i) div 4)] st
              else st)
      else st)"
  by pat_completeness auto
termination
proof (relation "measure (\<lambda>(call, b, shdr, i, st). 65536 - i)", simp, goal_cases)
  case (1 call b shdr i st)
  have "unat (e32_shnum (mem32 st) b) < 65536" using unsigned_less [of "e32_shnum (mem32 st) b"] by simp
  with 1 show ?case by simp
qed

declare constructor_sections32.simps [simp del]

definition CallConstructors32 :: "(u32 \<Rightarrow> 'w loader32 \<Rightarrow> 'w loader32) \<Rightarrow> loaded_module32 \<Rightarrow> 'w loader32 \<Rightarrow> 'w loader32" where
  "CallConstructors32 call md st = constructor_sections32 call (base32 md) (shdr32_of (mem32 st) (base32 md)) 0 st"

definition LoadModule32 ::
  "(memory32 \<Rightarrow> u32 \<Rightarrow> u32) \<Rightarrow> (u32 \<Rightarrow> 'w loader32 \<Rightarrow> u32 \<times> 'w loader32) \<Rightarrow> (u32 \<Rightarrow> 'w loader32 \<Rightarrow> 'w loader32) \<Rightarrow>
     u32 \<Rightarrow> u32 \<Rightarrow> u32 \<Rightarrow> 'w loader32 \<Rightarrow> 'w loader32 result" where
  "LoadModule32 Find init call a sz name st =
     (let st0 = say32 (Loading32 name sz) st; m = mem32 st0
      in if m a = 0x7F \<and> m (a + 1) = byte_of CHR ''E'' \<and> m (a + 2) = byte_of CHR ''L'' \<and> m (a + 3) = byte_of CHR ''F'' then
           if e32_type m a \<noteq> ET32_REL then Inr (say32 (NotRelocatable32 (e32_type m a)) st0)
           else
             let mod0 = \<lparr>base32 = a, symtab32 = 0, strtab32 = 0, symcount32 = 0\<rparr>;
                 (ok, md, st1) = RelocateModule32 Find mod0 st0
             in if \<not> ok then Inr (say32 RelocationFailed32 st1)
                else rbind (FindSymbol32 (mem32 st1) md (''Init'' @ [NUL])) (\<lambda>init_func.
                  let st2 = (if init_func \<noteq> 0
                             then let (result, s) = init init_func (say32 (CallingInit32 init_func) st1)
                                  in say32 (InitReturned32 result) s
                             else say32 NoInit32 st1)
                  in Inr (say32 Loaded32 (CallConstructors32 call md st2)))
         else Inr (say32 NotElf32 st0))"

section \<open>The loop over the entries\<close>

lemma ldw_stw [simp]: "ldw (stw m a v) a = v"
proof -
  have "le_split 4 v = [ucast v, ucast (drop_bit 8 v), ucast (drop_bit 16 v), ucast (drop_bit 24 v)]"
    by (simp add: le_split_def upt_conv_Cons)
  then have "ldw (stw m a v) a = le_join (le_split 4 v)" by (simp add: ldw_def stw_def del: le_join.simps)
  also have "\<dots> = v" by (rule le_join_split) simp
  finally show ?thesis .
qed

definition place :: "u32 \<Rightarrow> u32 set" where
  "place P = {P, P + 1, P + 2, P + 3}"

lemma stw_other: "x \<notin> place P \<Longrightarrow> stw m P v x = m x"
  by (simp add: stw_def place_def)

lemma ldw_place: "(\<And>x. x \<in> place P \<Longrightarrow> m' x = m x) \<Longrightarrow> ldw m' P = ldw m P"
  by (simp add: ldw_def place_def)

text \<open>What the place of an entry must hold: \<open>S + A\<close>, \<open>S + A - P\<close> or \<open>S\<close>.\<close>

definition known_rel32 :: "u32 \<Rightarrow> bool" where
  "known_rel32 type \<longleftrightarrow> type \<in> {R_386_32, R_386_PC32, R_386_PLT32, R_386_GLOB_DAT, R_386_JUMP_SLOT}"

definition rel32_value :: "u32 \<Rightarrow> u32 \<Rightarrow> u32 \<Rightarrow> u32 \<Rightarrow> u32" where
  "rel32_value type P S A =
     (if type = R_386_32 then S + A
      else if type = R_386_PC32 \<or> type = R_386_PLT32 then S + A - P
      else S)"

lemma patch_rel32_known: "known_rel32 type \<Longrightarrow> patch_rel32 m type P S A = Some (stw m P (rel32_value type P S A))"
  by (auto simp: known_rel32_def patch_rel32_def rel32_value_def R_386_32_def R_386_PC32_def R_386_PLT32_def
      R_386_GLOB_DAT_def R_386_JUMP_SLOT_def)

text \<open>What the loop reads for an entry besides the addend: type, place and the symbol's value.\<close>

definition rel32_read ::
  "(memory32 \<Rightarrow> u32 \<Rightarrow> u32) \<Rightarrow> loaded_module32 \<Rightarrow> u32 \<Rightarrow> u32 \<Rightarrow> u32 \<Rightarrow> memory32 \<Rightarrow> nat \<Rightarrow> u32 \<times> u32 \<times> (u32 + u32)" where
  "rel32_read Find md shdr target_base rel m r =
     (let entry = rel + 8 * of_nat r
      in (ELF32_R_TYPE (r32_info m entry), target_base + r32_offset m entry,
          rel32_symbol Find m md shdr (ELF32_R_SYM (r32_info m entry))))"

definition rel32_place :: "(memory32 \<Rightarrow> u32 \<Rightarrow> u32) \<Rightarrow> loaded_module32 \<Rightarrow> u32 \<Rightarrow> u32 \<Rightarrow> u32 \<Rightarrow> memory32 \<Rightarrow> nat \<Rightarrow> u32 set" where
  "rel32_place Find md shdr tb rel m r = place (fst (snd (rel32_read Find md shdr tb rel m r)))"

text \<open>\<open>R\<close> holds the entries, symbols, headers and names the loader reads.\<close>

definition reads_only32 ::
  "(memory32 \<Rightarrow> u32 \<Rightarrow> u32) \<Rightarrow> loaded_module32 \<Rightarrow> u32 \<Rightarrow> u32 \<Rightarrow> u32 \<Rightarrow> u32 set \<Rightarrow> nat set \<Rightarrow> memory32 \<Rightarrow> bool" where
  "reads_only32 Find md shdr tb rel R rs m \<longleftrightarrow>
     (\<forall>m'. (\<forall>a \<in> R. m' a = m a) \<longrightarrow> (\<forall>r \<in> rs. rel32_read Find md shdr tb rel m' r = rel32_read Find md shdr tb rel m r))"

lemma rel32_loop_step:
  assumes "rel32_read Find md shdr tb rel (mem32 st) r = (type, P, Inr S)" "known_rel32 type"
  shows "rel32_loop Find md shdr tb rel (r # rs) st =
     rel32_loop Find md shdr tb rel rs (st\<lparr>mem32 := stw (mem32 st) P (rel32_value type P S (ldw (mem32 st) P))\<rparr>)"
  using assms by (auto simp: rel32_read_def Let_def patch_rel32_known)


text \<open>One entry: the type \<^verbatim>\<open>R_386_32\<close> with symbol 0 at offset 8 of the section, which holds 7.\<close>

definition example_rel32 :: memory32 where
  "example_rel32 = (\<lambda>a. 0)(0x100 := 8, 0x104 := 1, 0x1008 := 7)"


lemma say32_simps [simp]: "world32 (say32 e st) = world32 st" "mem32 (say32 e st) = mem32 st" "log32 (say32 e st) = log32 st @ [e]"
  by (simp_all add: say32_def)

lemma rela32_loop_world: "world32 (snd (rela32_loop Find md shdr tb rel rs st)) = world32 st"
  by (induction rs arbitrary: st) (auto simp: Let_def split: sum.split option.split)

lemma rel32_loop_world: "world32 (snd (rel32_loop Find md shdr tb rel rs st)) = world32 st"
  by (induction rs arbitrary: st) (auto simp: Let_def split: sum.split option.split)

lemma reloc_section32_world: "world32 (snd (reloc_section32 Find md shdr i st)) = world32 st"
  by (simp add: reloc_section32_def Let_def rela32_loop_world rel32_loop_world)

lemma reloc_sections32_world: "world32 (snd (reloc_sections32 Find md shdr i st)) = world32 st"
proof (induction Find md shdr i st rule: reloc_sections32.induct)
  case (1 Find md shdr i st)
  obtain ok st1 where s: "reloc_section32 Find md shdr (of_nat i) st = (ok, st1)" by fastforce
  then have "world32 st1 = world32 st" using reloc_section32_world [of Find md shdr "of_nat i" st] by simp
  then show ?case using 1 s by (subst reloc_sections32.simps) simp
qed

lemma RelocateModule32_world: "world32 (snd (snd (RelocateModule32 Find md st))) = world32 st"
  by (simp add: RelocateModule32_def Let_def split_beta reloc_sections32_world)

text \<open>
  On ia32 too, nothing of a module runs unless it is a relocatable ELF file all of whose symbols
  were resolved, and the last message says what was wrong.
\<close>

theorem LoadModule32_rejects:
  assumes "LoadModule32 Find init call a sz name st = Inr st'"
    and "\<not> (mem32 st a = 0x7F \<and> mem32 st (a + 1) = 69 \<and> mem32 st (a + 2) = 76 \<and> mem32 st (a + 3) = 70) \<or>
      e32_type (mem32 st) a \<noteq> ET32_REL \<or>
      \<not> fst (RelocateModule32 Find \<lparr>base32 = a, symtab32 = 0, strtab32 = 0, symcount32 = 0\<rparr> (say32 (Loading32 name sz) st))"
  shows "world32 st' = world32 st \<and> last (log32 st') \<in> {NotElf32, NotRelocatable32 (e32_type (mem32 st) a), RelocationFailed32}"
proof -
  let ?elf = "mem32 st a = 0x7F \<and> mem32 st (a + 1) = 69 \<and> mem32 st (a + 2) = 76 \<and> mem32 st (a + 3) = 70"
  let ?st0 = "say32 (Loading32 name sz) st" and ?m0 = "\<lparr>base32 = a, symtab32 = 0, strtab32 = 0, symcount32 = 0\<rparr>"
  have b: "byte_of CHR ''E'' = 69" "byte_of CHR ''L'' = 76" "byte_of CHR ''F'' = 70" by (simp_all add: byte_of_def)
  consider "\<not> ?elf" | "?elf" "e32_type (mem32 st) a \<noteq> ET32_REL"
    | "?elf" "e32_type (mem32 st) a = ET32_REL" "\<not> fst (RelocateModule32 Find ?m0 ?st0)"
    using assms(2) by blast
  then show ?thesis
  proof cases
    case 1
    then have "st' = say32 NotElf32 ?st0" using assms(1) unfolding LoadModule32_def b Let_def by auto
    then show ?thesis by simp
  next
    case 2
    then have "st' = say32 (NotRelocatable32 (e32_type (mem32 st) a)) ?st0" using assms(1) unfolding LoadModule32_def b Let_def by auto
    then show ?thesis by simp
  next
    case 3
    obtain md st1 where r: "RelocateModule32 Find ?m0 ?st0 = (False, md, st1)"
      using 3(3) by (metis fst_conv surj_pair)
    then have "world32 st1 = world32 st" using RelocateModule32_world [of Find ?m0 ?st0] by simp
    moreover have "st' = say32 RelocationFailed32 st1"
      using 3(1,2) assms(1) r unfolding LoadModule32_def b Let_def by auto
    ultimately show ?thesis by simp
  qed
qed

theorem LoadModule32_rejects_witness:
  "world32 (say32 NotElf32 (say32 (Loading32 0 0) \<lparr>mem32 = \<lambda>a. 0, log32 = [], world32 = 7 :: nat\<rparr>)) = 7"
proof -
  have "LoadModule32 (\<lambda>m a. 0) (\<lambda>f s. (0, s\<lparr>world32 := 0\<rparr>)) (\<lambda>f s. s\<lparr>world32 := 0\<rparr>) 0x4000 0 0 \<lparr>mem32 = \<lambda>a. 0, log32 = [], world32 = 7 :: nat\<rparr> =
      Inr (say32 NotElf32 (say32 (Loading32 0 0) \<lparr>mem32 = \<lambda>a. 0, log32 = [], world32 = 7\<rparr>))"
    by (simp add: LoadModule32_def Let_def)
  from LoadModule32_rejects [OF this] show ?thesis by simp
qed

end
