(* ===== verification/Ia32.thy ===== *)
theory Ia32
  imports Ports Elf32 Amd64
begin

text \<open>
  The processor of ia32: \<^verbatim>\<open>src/ia32/gdt.c\<close> (segments and the task state segment),
  \<^verbatim>\<open>src/ia32/idt.c\<close> (interrupt gates) and \<^verbatim>\<open>src/ia32/arch.c\<close>. The last
  repeats much of amd64's; its functions are modelled as they are written there and shown to agree with
  amd64's.
\<close>

section \<open>Segments\<close>

record gdtEntry_t =
  limit_low :: u16
  base_low :: u16
  base_middle :: u8
  access :: u8
  granularity :: u8
  base_high :: u8

record gdtPtr_t =
  gdt_limit :: u16
  gdt_base :: u32

text \<open>The fields of \<^verbatim>\<open>gdtTssEntry_t\<close> that are set; the structure has 104 bytes.\<close>

record gdtTssEntry_t =
  esp0 :: u32
  ss0 :: u32

record 'h ia32 =
  hw :: 'h
  interrupts :: bool
  gdt :: "gdtEntry_t list"
  tss :: gdtTssEntry_t
  gdtp :: gdtPtr_t
  lgdt :: "gdtPtr_t option"
  task_register :: "u16 option"

definition GDT_SIZE :: nat where "GDT_SIZE = 6"

definition GdtSetEntry :: "u32 \<Rightarrow> u32 \<Rightarrow> u32 \<Rightarrow> u8 \<Rightarrow> u8 \<Rightarrow> 'h ia32 \<Rightarrow> 'h ia32 result" where
  "GdtSetEntry num bs lim acc gran s =
     (if unat num < length (gdt s)
      then Inr (s\<lparr>gdt := (gdt s)[unat num :=
        \<lparr>limit_low = ucast (lim AND 0xFFFF), base_low = ucast (bs AND 0xFFFF), base_middle = ucast (drop_bit 16 bs AND 0xFF),
         access = acc, granularity = ucast (drop_bit 16 lim AND 0x0F) OR (gran AND 0xF0), base_high = ucast (drop_bit 24 bs AND 0xFF)\<rparr>]\<rparr>)
      else Inl Fault)"

text \<open>Twice in the source, as \<^verbatim>\<open>GdtSetTssEntry\<close> and \<^verbatim>\<open>gdtSetTssEntry\<close>; the index is an \<^verbatim>\<open>int\<close>.\<close>

definition GdtSetTssEntry :: "int \<Rightarrow> u32 \<Rightarrow> u32 \<Rightarrow> u8 \<Rightarrow> u8 \<Rightarrow> 'h ia32 \<Rightarrow> 'h ia32 result" where
  "GdtSetTssEntry num bs lim acc gran s =
     (if 0 \<le> num \<and> nat num < length (gdt s)
      then let g = ucast (drop_bit 16 lim AND 0x0F) :: u8
        in Inr (s\<lparr>gdt := (gdt s)[nat num :=
        \<lparr>limit_low = ucast (lim AND 0xFFFF), base_low = ucast (bs AND 0xFFFF), base_middle = ucast (drop_bit 16 bs AND 0xFF),
         access = acc, granularity = g OR (gran AND 0xF0), base_high = ucast (drop_bit 24 bs AND 0xFF)\<rparr>]\<rparr>)
      else Inl Fault)"

definition gdtSetTssEntry :: "int \<Rightarrow> u32 \<Rightarrow> u32 \<Rightarrow> u8 \<Rightarrow> u8 \<Rightarrow> 'h ia32 \<Rightarrow> 'h ia32 result" where
  "gdtSetTssEntry num bs lim acc gran s =
     (if 0 \<le> num \<and> nat num < length (gdt s)
      then let g = ucast (drop_bit 16 lim AND 0x0F) :: u8
        in Inr (s\<lparr>gdt := (gdt s)[nat num :=
        \<lparr>limit_low = ucast (lim AND 0xFFFF), base_low = ucast (bs AND 0xFFFF), base_middle = ucast (drop_bit 16 bs AND 0xFF),
         access = acc, granularity = g OR (gran AND 0xF0), base_high = ucast (drop_bit 24 bs AND 0xFF)\<rparr>]\<rparr>)
      else Inl Fault)"

definition gdtTssInit :: "'h ia32 \<Rightarrow> 'h ia32" where
  "gdtTssInit s = s\<lparr>tss := \<lparr>esp0 = 0x10000, ss0 = 0x10\<rparr>\<rparr>"

text \<open>
  \<open>gdt_at\<close> and \<open>tss_at\<close> are the addresses of the two static objects. The reload of the segment
  registers at the end is not part of the state.
\<close>

definition GdtInit :: "u32 \<Rightarrow> u32 \<Rightarrow> 'h ia32 \<Rightarrow> 'h ia32 result" where
  "GdtInit gdt_at tss_at s =
     (let p = \<lparr>gdt_limit = of_nat (8 * GDT_SIZE - 1), gdt_base = gdt_at\<rparr>; s0 = s\<lparr>gdtp := p\<rparr>
      in rbind (GdtSetEntry 0 0 0 0 0 s0) (\<lambda>s1.
         rbind (GdtSetEntry 1 0x00000000 0xffffffff 0x9A 0xCF s1) (\<lambda>s2.
         rbind (GdtSetEntry 2 0x00000000 0xffffffff 0x92 0xCF s2) (\<lambda>s3.
         rbind (GdtSetEntry 3 0x00000000 0xffffffff 0xFA 0xCF s3) (\<lambda>s4.
         rbind (GdtSetEntry 4 0x00000000 0xffffffff 0xF2 0xCF s4) (\<lambda>s5.
         rbind (gdtSetTssEntry 5 tss_at 103 0x89 0x40 (gdtTssInit s5)) (\<lambda>s6.
           Inr (s6\<lparr>lgdt := Some (gdtp s6), task_register := Some 0x28\<rparr>))))))))"

section \<open>Interrupts\<close>

record gate32 =
  gate_low :: u16
  gate_selector :: u16
  always_0 :: u8
  gate_flags :: u8
  gate_high :: u16

definition IdtSetEntry32 :: "u8 \<Rightarrow> u32 \<Rightarrow> gate32 list \<Rightarrow> gate32 list" where
  "IdtSetEntry32 n handler es =
     es[unat n := \<lparr>gate_low = ucast (handler AND 0xFFFF), gate_selector = 8, always_0 = 0, gate_flags = 0x8E,
                   gate_high = ucast (drop_bit 16 handler AND 0xFFFF)\<rparr>]"

fun idt_loop32 :: "u32 \<Rightarrow> nat list \<Rightarrow> gate32 list \<Rightarrow> gate32 list" where
  "idt_loop32 handler [] es = es"
| "idt_loop32 handler (i # is) es = idt_loop32 handler is (IdtSetEntry32 (of_nat i) handler es)"

text \<open>The table and the hardware after \<^verbatim>\<open>IdtInit\<close>; \<^verbatim>\<open>lidt\<close> gets limit and base. An entry has 8 bytes.\<close>

definition IdtInit32 ::
  "'h bus \<Rightarrow> u32 \<Rightarrow> u32 \<Rightarrow> u32 \<Rightarrow> gate32 list \<Rightarrow> 'h ia32 \<Rightarrow> gate32 list \<times> u16 \<times> u32 \<times> 'h ia32" where
  "IdtInit32 B at IdtDefault IdtTimer es s =
     (let s1 = s\<lparr>interrupts := False\<rparr>;
          es1 = IdtSetEntry32 0x20 IdtTimer (idt_loop32 IdtDefault [0..<256] es);
          h1 = outb B 0x20 0x11 (hw s1);
          h2 = outb B 0xA0 0x11 h1;
          h3 = outb B 0x21 0x20 h2;
          h4 = outb B 0xA1 0x28 h3;
          h5 = outb B 0x21 0x04 h4;
          h6 = outb B 0xA1 0x02 h5;
          h7 = outb B 0x21 0x01 h6;
          h8 = outb B 0xA1 0x01 h7;
          h9 = outb B 0x21 0xFA h8;
          h10 = outb B 0xA1 0x3F h9
      in (es1, of_nat (8 * 256 - 1), at, s1\<lparr>hw := h10\<rparr>))"

section \<open>Architecture\<close>

definition ArchCPUGetVendor32 :: "cpu \<Rightarrow> cpu_vendor" where
  "ArchCPUGetVendor32 p =
     (case cpuid p of (ebx, ecx, edx) \<Rightarrow>
        if ebx = 0x756E6547 \<and> edx = 0x49656E69 \<and> ecx = 0x6C65746E then CPU_INTEL
        else if ebx = 0x68747541 \<and> edx = 0x69746E65 \<and> ecx = 0x444D4163 then CPU_AMD
        else CPU_UNKNOWN)"

definition ArchGetTemperatureMC32 :: "cpu \<Rightarrow> u32" where
  "ArchGetTemperatureMC32 p =
     (case ArchCPUGetVendor32 p of
        CPU_INTEL \<Rightarrow>
          let tjmax = drop_bit 16 (rdmsr p 0x1A2) AND 0xFF;
              temp_offset = drop_bit 16 (rdmsr p 0x19C) AND 0x7F
          in if temp_offset = 0 then - 1 else (tjmax - temp_offset) * 1000
      | CPU_AMD \<Rightarrow>
          let eax = rdmsr p 0xC0010400
          in if eax AND 0x1 = 0 then - 1 else (drop_bit 21 eax AND 0x7FF) * 125
      | CPU_UNKNOWN \<Rightarrow> - 1)"

text \<open>\<^verbatim>\<open>unsigned long\<close> has 32 bits here, the tick counter 64.\<close>

partial_function (option) delay_loop32 :: "('h \<Rightarrow> u64) \<Rightarrow> ('h \<Rightarrow> 'h) \<Rightarrow> u32 \<Rightarrow> u32 \<Rightarrow> 'h \<Rightarrow> 'h option" where
  "delay_loop32 Ticks pause start ticks h =
     (if Ticks h - ucast start < ucast ticks then delay_loop32 Ticks pause start ticks (pause h) else Some h)"

definition Delay32 :: "('h \<Rightarrow> u64) \<Rightarrow> ('h \<Rightarrow> 'h) \<Rightarrow> u32 \<Rightarrow> 'h \<Rightarrow> 'h option" where
  "Delay32 Ticks pause ticks h = delay_loop32 Ticks pause (ucast (Ticks h)) ticks h"

definition TimerInit32 :: "'h bus \<Rightarrow> u32 \<Rightarrow> 'h \<Rightarrow> 'h result" where
  "TimerInit32 B targetFreq h =
     (if targetFreq = 0 then Inl Fault
      else
        let divisor = 1193180 div targetFreq;
            h1 = outb B 0x43 0x36 h;
            h2 = outb B 0x40 (ucast (divisor AND 0xFF)) h1
        in Inr (outb B 0x40 (ucast (drop_bit 8 divisor AND 0xFF)) h2))"

definition ArchIdentify32 :: string where
  "ArchIdentify32 = '' [Info] ISA: Intel Architecture / 32,x86, CPU: i386'' @ [CHR 0x0A, NUL]"

section \<open>The tags of the boot loader\<close>

definition tag32_type :: "memory32 \<Rightarrow> u32 \<Rightarrow> u32" where "tag32_type m tag = ldw m tag"
definition tag32_size :: "memory32 \<Rightarrow> u32 \<Rightarrow> u32" where "tag32_size m tag = ldw m (tag + 4)"
definition mod32_start :: "memory32 \<Rightarrow> u32 \<Rightarrow> u32" where "mod32_start m tag = ldw m (tag + 8)"
definition mod32_end :: "memory32 \<Rightarrow> u32 \<Rightarrow> u32" where "mod32_end m tag = ldw m (tag + 12)"

definition next_offset32 :: "u32 \<Rightarrow> u32 \<Rightarrow> u32" where
  "next_offset32 sz off = off + ((sz + 7) AND NOT 7)"

definition load_tag32 :: "(u32 \<Rightarrow> u32 \<Rightarrow> u32 \<Rightarrow> 'w loader32 \<Rightarrow> 'w loader32 result) \<Rightarrow> u32 \<Rightarrow> 'w loader32 \<Rightarrow> 'w loader32 result" where
  "load_tag32 load tag st =
     (let m = mem32 st
      in if tag32_type m tag = 3 then load (mod32_start m tag) (mod32_end m tag - mod32_start m tag) (tag + 16) st
         else Inr st)"

partial_function (option) load_tags32 ::
  "(u32 \<Rightarrow> u32 \<Rightarrow> u32 \<Rightarrow> 'w loader32 \<Rightarrow> 'w loader32 result) \<Rightarrow> u32 \<Rightarrow> u32 \<Rightarrow> 'w loader32 \<Rightarrow> 'w loader32 outcome" where
  "load_tags32 load mbi off st =
     (if tag32_type (mem32 st) (mbi + off) = 0 then Some (Inr st)
      else obind (Some (load_tag32 load (mbi + off) st)) (\<lambda>st1.
        load_tags32 load mbi (next_offset32 (tag32_size (mem32 st1) (mbi + off)) off) st1))"

definition LoadModules32 ::
  "(memory32 \<Rightarrow> u32 \<Rightarrow> u32) \<Rightarrow> (u32 \<Rightarrow> 'w loader32 \<Rightarrow> u32 \<times> 'w loader32) \<Rightarrow> (u32 \<Rightarrow> 'w loader32 \<Rightarrow> 'w loader32) \<Rightarrow>
   u32 \<Rightarrow> u32 \<Rightarrow> 'w loader32 \<Rightarrow> 'w loader32 outcome" where
  "LoadModules32 Find init call magic mb_info_addr st = load_tags32 (LoadModule32 Find init call) mb_info_addr 8 st"

section \<open>Segment descriptors\<close>

definition seg_base :: "gdtEntry_t \<Rightarrow> u32" where
  "seg_base e = ucast (base_low e) OR push_bit 16 (ucast (base_middle e)) OR push_bit 24 (ucast (base_high e))"

definition seg_limit :: "gdtEntry_t \<Rightarrow> u32" where
  "seg_limit e = ucast (limit_low e) OR push_bit 16 (ucast (granularity e AND 0x0F))"

definition seg_flags :: "gdtEntry_t \<Rightarrow> u8" where
  "seg_flags e = granularity e AND 0xF0"

definition descriptor :: "u32 \<Rightarrow> u32 \<Rightarrow> u8 \<Rightarrow> u8 \<Rightarrow> gdtEntry_t" where
  "descriptor bs lim acc gran =
     \<lparr>limit_low = ucast (lim AND 0xFFFF), base_low = ucast (bs AND 0xFFFF), base_middle = ucast (drop_bit 16 bs AND 0xFF),
      access = acc, granularity = ucast (drop_bit 16 lim AND 0x0F) OR (gran AND 0xF0), base_high = ucast (drop_bit 24 bs AND 0xFF)\<rparr>"

lemma masks32: "(w AND 0xFFFF :: u32) = take_bit 16 w" "(w AND 0xFF :: u32) = take_bit 8 w" "(w AND 0x0F :: u32) = take_bit 4 w"
  by (simp_all add: take_bit_eq_mask mask_eq_exp_minus_1)

lemma low_nibble8: "bit (v AND 0x0F) k = (k < 4 \<and> bit v k)" "bit (v AND 0xF0) k = (4 \<le> k \<and> bit v k)" for v :: u8
proof -
  have m: "(0x0F :: u8) = Bit_Operations.mask 4" "(0xF0 :: u8) = NOT (Bit_Operations.mask 4)" by (simp_all add: mask_eq_exp_minus_1)
  show "bit (v AND 0x0F) k = (k < 4 \<and> bit v k)" unfolding m by (auto simp: bit_and_iff bit_mask_iff)
  show "bit (v AND 0xF0) k = (4 \<le> k \<and> bit v k)" unfolding m
    using bit_imp_le_length [of v k] by (auto simp: bit_and_iff bit_not_iff bit_mask_iff)
qed

lemma seg_base_descriptor [simp]: "seg_base (descriptor bs lim acc gran) = bs"
proof (rule bit_word_eqI)
  fix k assume k: "k < LENGTH(32)"
  consider "k < 16" | "16 \<le> k" "k < 24" | "24 \<le> k" by linarith
  then show "bit (seg_base (descriptor bs lim acc gran)) k = bit bs k"
    using k by cases (auto simp: seg_base_def descriptor_def masks32 bit_or_iff bit_push_bit_iff bit_unsigned_iff bit_take_bit_iff bit_drop_bit_u8)
qed

lemma seg_limit_descriptor [simp]: "seg_limit (descriptor bs lim acc gran) = take_bit 20 lim"
proof (rule bit_word_eqI)
  fix k assume k: "k < LENGTH(32)"
  consider "k < 16" | "16 \<le> k" "k < 20" | "20 \<le> k" by linarith
  then show "bit (seg_limit (descriptor bs lim acc gran)) k = bit (take_bit 20 lim) k"
    using k by cases (auto simp: seg_limit_def descriptor_def masks32 low_nibble8 bit_or_iff bit_push_bit_iff bit_unsigned_iff
      bit_take_bit_iff bit_drop_bit_u8)
qed

lemma seg_flags_descriptor [simp]: "seg_flags (descriptor bs lim acc gran) = gran AND 0xF0"
proof (rule bit_word_eqI)
  fix k assume k: "k < LENGTH(8)"
  show "bit (seg_flags (descriptor bs lim acc gran)) k = bit (gran AND 0xF0) k"
    by (auto simp: seg_flags_def descriptor_def masks32 low_nibble8 bit_or_iff bit_unsigned_iff bit_take_bit_iff bit_drop_bit_u8)
qed

lemma set_entry: "unat num < length (gdt s) \<Longrightarrow> GdtSetEntry num bs lim acc gran s = Inr (s\<lparr>gdt := (gdt s)[unat num := descriptor bs lim acc gran]\<rparr>)"
  by (simp add: GdtSetEntry_def descriptor_def)

lemma set_tss: "0 \<le> num \<Longrightarrow> nat num < length (gdt s) \<Longrightarrow>
    gdtSetTssEntry num bs lim acc gran s = Inr (s\<lparr>gdt := (gdt s)[nat num := descriptor bs lim acc gran]\<rparr>)"
  by (simp add: gdtSetTssEntry_def descriptor_def Let_def)

text \<open>
  What \<^verbatim>\<open>GdtSetEntry\<close> splits over the fields of a descriptor the processor puts
  together again: the base entire, the low 20 bits of the limit, the access byte and the high half of the granularity;
  other descriptors stay, and an index outside the table is not accepted.
\<close>

theorem GdtSetEntry_decodes:
  "case GdtSetEntry num bs lim acc gran s of
     Inr s1 \<Rightarrow> unat num < length (gdt s) \<and> seg_base (gdt s1 ! unat num) = bs \<and> seg_limit (gdt s1 ! unat num) = take_bit 20 lim \<and>
       access (gdt s1 ! unat num) = acc \<and> seg_flags (gdt s1 ! unat num) = gran AND 0xF0 \<and> gdt s1 = (gdt s)[unat num := gdt s1 ! unat num]
   | Inl e \<Rightarrow> length (gdt s) \<le> unat num"
  by (cases "unat num < length (gdt s)") (simp_all add: set_entry, simp_all add: descriptor_def GdtSetEntry_def)

text \<open>
  \<^verbatim>\<open>GdtInit\<close> never leaves the table and sets up flat segments: selectors
  \<^verbatim>\<open>0x08\<close> to \<^verbatim>\<open>0x20\<close> span the 4 GiB in pages of 4 KiB, kernel and user code and
  data, and selector \<^verbatim>\<open>0x28\<close>, loaded into the task register, is a task state segment of
  104 bytes at its address.
\<close>

theorem GdtInit_flat:
  assumes "length (gdt s) = GDT_SIZE"
  shows "\<exists>s1. GdtInit gdt_at tss_at s = Inr s1 \<and> lgdt s1 = Some \<lparr>gdt_limit = 47, gdt_base = gdt_at\<rparr> \<and>
     (\<forall>i \<in> {1, 2, 3, 4}. seg_base (gdt s1 ! i) = 0 \<and> seg_limit (gdt s1 ! i) = 0xFFFFF \<and> seg_flags (gdt s1 ! i) = 0xC0) \<and>
     map access (gdt s1) = [0, 0x9A, 0x92, 0xFA, 0xF2, 0x89] \<and>
     seg_base (gdt s1 ! 5) = tss_at \<and> seg_limit (gdt s1 ! 5) = 103 \<and> task_register s1 = Some (8 * 5) \<and> ss0 (tss s1) = 8 * 2"
proof -
  obtain a b c d e f where g: "gdt s = [a, b, c, d, e, f]"
    using assms by (auto simp: GDT_SIZE_def length_Suc_conv numeral_eq_Suc)
  have l: "take_bit 20 (0xFFFFFFFF :: u32) = 0xFFFFF" "take_bit 20 (103 :: u32) = 103" by simp_all
  have acc: "access (descriptor bs lim x gran) = x" for bs lim x gran by (simp add: descriptor_def)
  show ?thesis
    using g by (simp add: GdtInit_def Let_def set_entry set_tss gdtTssInit_def GDT_SIZE_def acc l)
qed

theorem GdtInit_flat_witness:
  "\<exists>s1. GdtInit 0x5000 0x6000 \<lparr>hw = (), interrupts = True, gdt = replicate 6 (descriptor 0 0 0 0), tss = \<lparr>esp0 = 0, ss0 = 0\<rparr>,
     gdtp = \<lparr>gdt_limit = 0, gdt_base = 0\<rparr>, lgdt = None, task_register = None\<rparr> = Inr s1 \<and> seg_base (gdt s1 ! 5) = 0x6000"
  using GdtInit_flat [of "\<lparr>hw = (), interrupts = True, gdt = replicate 6 (descriptor 0 0 0 0), tss = \<lparr>esp0 = 0, ss0 = 0\<rparr>,
     gdtp = \<lparr>gdt_limit = 0, gdt_base = 0\<rparr>, lgdt = None, task_register = None\<rparr>" "0x5000" "0x6000"]
  by (auto simp: GDT_SIZE_def)

section \<open>What ia32 shares with amd64\<close>

definition gate32_target :: "gate32 \<Rightarrow> u32" where
  "gate32_target e = ucast (gate_low e) OR push_bit 16 (ucast (gate_high e))"

definition gate32_of :: "u32 \<Rightarrow> gate32" where
  "gate32_of handler = \<lparr>gate_low = ucast (handler AND 0xFFFF), gate_selector = 8, always_0 = 0, gate_flags = 0x8E,
     gate_high = ucast (drop_bit 16 handler AND 0xFFFF)\<rparr>"

lemma gate32_target_of [simp]: "gate32_target (gate32_of handler) = handler"
proof (rule bit_word_eqI)
  fix k assume k: "k < LENGTH(32)"
  consider "k < 16" | "16 \<le> k" by linarith
  then show "bit (gate32_target (gate32_of handler)) k = bit handler k"
    using k by cases (auto simp: gate32_target_def gate32_of_def masks32 bit_or_iff bit_push_bit_iff bit_unsigned_iff
      bit_take_bit_iff bit_drop_bit_u8)
qed

lemma IdtSetEntry32_gate: "IdtSetEntry32 n handler es = es[unat n := gate32_of handler]"
  by (simp add: IdtSetEntry32_def gate32_of_def)

lemma length_idt_loop32 [simp]: "length (idt_loop32 h is es) = length es"
  by (induction "is" arbitrary: es) (simp_all add: IdtSetEntry32_gate)

lemma idt_loop32_nth:
  "\<forall>i \<in> set is. i < 256 \<Longrightarrow> length es = 256 \<Longrightarrow> n < 256 \<Longrightarrow>
     idt_loop32 h is es ! n = (if n \<in> set is then gate32_of h else es ! n)"
proof (induction "is" arbitrary: es)
  case (Cons i "is")
  then have "unat (of_nat i :: u8) = i" by (simp add: unat_of_nat)
  with Cons show ?case by (simp add: IdtSetEntry32_gate nth_list_update)
qed simp

text \<open>
  The copies in ia32 of amd64's functions agree with them: the temperature, the timer's divisor, and
  what is written to the interrupt controllers. The gates of ia32 lead to the same handlers at the same
  vectors.
\<close>

theorem ia32_agrees_with_amd64:
  "ArchGetTemperatureMC32 p = ArchGetTemperatureMC p \<and> TimerInit32 B f h = TimerInit B f h \<and>
   (case IdtInit32 B at D T (replicate 256 g) s of (es, lim, bs, s1) \<Rightarrow>
      hw s1 = out_sequence B pic_remap (hw s) \<and> \<not> interrupts s1 \<and> lim = 2047 \<and> bs = at \<and>
      map gate32_target es = map (\<lambda>v. if v = 0x20 then T else D) [0..<256])"
proof -
  have "map gate32_target (IdtSetEntry32 0x20 T (idt_loop32 D [0..<256] (replicate 256 g))) = map (\<lambda>v. if v = 0x20 then T else D) [0..<256]"
    by (rule nth_equalityI) (auto simp: IdtSetEntry32_gate idt_loop32_nth nth_list_update)
  moreover have "ArchCPUGetVendor32 p = ArchCPUGetVendor p" by (simp add: ArchCPUGetVendor32_def ArchCPUGetVendor_def)
  ultimately show ?thesis
    by (simp add: ArchGetTemperatureMC32_def ArchGetTemperatureMC_def TimerInit32_def TimerInit_def PIT_COMMAND_def PIT_CHANNEL0_def
        IdtInit32_def Let_def pic_remap_def)
qed

end
