(* ===== verification/Ia32Init.thy ===== *)
theory Ia32Init
  imports RootPath KernelPrint Ia32
begin

text \<open>
  \<^verbatim>\<open>ArchInitialise\<close> of \<^verbatim>\<open>src/ia32/arch.c\<close>: segments, interrupts, timer, and the node
  \<^verbatim>\<open>/sys/mbi\<close> that hands the boot loader's information to the modules.

  The nodes are those of the kernel's model. That model is of the LP64 targets, so the size
  \<^verbatim>\<open>NewVNode\<close> asks for is theirs; nothing here depends on it.
\<close>

definition ArchInitialise32 ::
  "'h bus \<Rightarrow> u32 \<Rightarrow> u32 \<Rightarrow> u32 \<Rightarrow> u32 \<Rightarrow> u32 \<Rightarrow> u32 \<Rightarrow> u32 \<Rightarrow> gate32 list \<Rightarrow> 'h ia32 \<Rightarrow> kernel \<Rightarrow>
   (gate32 list \<times> 'h ia32 \<times> kernel) outcome" where
  "ArchInitialise32 B gdt_at tss_at idt_at IdtDefault IdtTimer magic mb_info_addr es s k =
     (if magic \<noteq> 0x36d76289 then Some (Inl (Panic PANIC_INCORRECT_BOOTLOADER))
      else obind (Some (GdtInit gdt_at tss_at s)) (\<lambda>s1.
        let (es1, limit, base, s2) = IdtInit32 B idt_at IdtDefault IdtTimer es s1
        in obind (Some (TimerInit32 B 100 (hw s2))) (\<lambda>h.
           obind (SerialPrint kput ('' [Debug] MBI at 0x%x'' @ [CHR 0x0A, NUL]) [VaInt mb_info_addr] k) (\<lambda>k1.
           obind (Some (NewVNode (VFS_READ OR VFS_WRITE OR VFS_SYSTEM) k1)) (\<lambda>(mbootadr, k2).
           obind (Some (set_node mbootadr (\<lambda>n. n\<lparr>DriverData := ucast mb_info_addr,
             Name := \<lparr>VNodeString.Name = ''mbi'' @ [NUL], Length = 3\<rparr>\<rparr>) k2)) (\<lambda>k3.
           obind (find_from_root ''/sys'' 4 k3) (\<lambda>Sys.
           obind (Some (RegisterChildVNode Sys mbootadr k3)) (\<lambda>k4. Some (Inr (es1, s2\<lparr>hw := h\<rparr>, k4))))))))))"

lemma repr_no_loop: "repr s u \<Longrightarrow> root_of u \<notin> root_of ` set (children u)"
proof (induction u)
  case (VTree a ts)
  show ?case
  proof
    assume "root_of (VTree a ts) \<in> root_of ` set (children (VTree a ts))"
    then obtain c where c: "c \<in> set ts" "root_of c = a" by auto
    obtain us where us: "c = VTree a us" using c(2) by (cases c) auto
    have "repr s c" using VTree.prems c(1) by simp
    then have "map root_of us = map root_of ts" using chain_unique VTree.prems by (auto simp: us)
    then have "a \<in> root_of ` set us" using c by (metis image_eqI image_set)
    then show False using VTree.IH [OF c(1) \<open>repr s c\<close>] us by simp
  qed
qed

lemma GdtInit_total: "length (gdt s) = GDT_SIZE \<Longrightarrow> \<exists>s1. GdtInit gdt_at tss_at s = Inr s1"
  by (cases "gdt s = []") (simp_all add: GdtInit_def GdtSetEntry_def gdtSetTssEntry_def gdtTssInit_def GDT_SIZE_def Let_def)

text \<open>
  C24. Started by a multiboot2 loader, \<^verbatim>\<open>ArchInitialise\<close> of ia32 registers a node of the name
  \<^verbatim>\<open>mbi\<close> as the first child of \<^verbatim>\<open>/sys\<close>, before the children that were there; its
  driver data is the address of the loader's information. Started by anything else it panics first.
\<close>

theorem ArchInitialise32_mbi:
  assumes "length (gdt s) = GDT_SIZE" "repr k t" "root_of t = Root k" "\<forall>a \<in> set (nodes_of t). regular (the_node k a)"
    and "lookup k t [''sys''] = Some u" "\<not> has_flag (Flags (the_node k (root_of u))) VFS_LINK"
    and "layout_ok k" "low_room k (Suc 0)"
    and "set (nodes_of t) \<inter> (\<lambda>i. page_addr k i + 16) ` {..<LOW_PAGES} \<subseteq> live_blocks k"
  shows "if magic = 0x36d76289
    then \<exists>es1 s1 k1 p. ArchInitialise32 B gdt_at tss_at idt_at D T magic mbi es s k = Some (Inr (es1, s1, k1)) \<and>
      FirstChild (the_node k1 (root_of u)) = p \<and> node_name (the_node k1 p) = ''mbi'' \<and> DriverData (the_node k1 p) = ucast mbi \<and>
      Next (the_node k1 p) = FirstChild (the_node k (root_of u)) \<and> p \<notin> set (nodes_of t)
    else ArchInitialise32 B gdt_at tss_at idt_at D T magic mbi es s k = Some (Inl (Panic PANIC_INCORRECT_BOOTLOADER))"
proof (cases "magic = 0x36d76289")
  case True
  let ?Fl = "VFS_READ OR VFS_WRITE OR VFS_SYSTEM"
  obtain s1 where g: "GdtInit gdt_at tss_at s = Inr s1" using GdtInit_total [OF assms(1)] by blast
  obtain es1 limit base s2 where i: "IdtInit32 B idt_at D T es s1 = (es1, limit, base, s2)"
    by (cases "IdtInit32 B idt_at D T es s1") auto
  obtain h where h: "TimerInit32 B 100 (hw s2) = Inr h" by (simp add: TimerInit32_def Let_def)
  define k1 where "k1 = k\<lparr>tx := tx k @ '' [Debug] MBI at 0x'' @ num_text 16 (unat mbi) @ [CHR 0x0A]\<rparr>"
  have pr: "SerialPrint kput ('' [Debug] MBI at 0x%x'' @ [CHR 0x0A, NUL]) [VaInt mbi] k = Some (Inr k1)"
    by (subst kernel_prints [where t = "'' [Debug] MBI at 0x'' @ num_text 16 (unat mbi) @ [CHR 0x0A]"])
      (simp_all add: directive_text_def k1_def)
  have eq: "layout_ok k1 = layout_ok k" "low_room k1 = low_room k" "page_addr k1 = page_addr k" "live_blocks k1 = live_blocks k"
    "nodes k1 = nodes k" "Root k1 = Root k"
    by (simp_all add: k1_def layout_ok_def low_room_def page_addr_def page_used_def live_blocks_def small_block_def fun_eq_iff)
  obtain p k2 where new: "NewVNode ?Fl k1 = Inr (p, k2\<lparr>nodes := (nodes k1)(p \<mapsto> new_node ?Fl)\<rparr>)"
    and p: "p \<noteq> NULL" "p \<notin> set (nodes_of t)" and r: "Root k2 = Root k1"
    using new_node_beside [of k1 0 t ?Fl] assms(7-9) unfolding eq by blast
  define n where "n = (new_node ?Fl)\<lparr>DriverData := ucast mbi, Name := \<lparr>VNodeString.Name = ''mbi'' @ [NUL], Length = 3\<rparr>\<rparr>"
  define k3 where "k3 = k2\<lparr>nodes := (nodes k)(p \<mapsto> n)\<rparr>"
  have named: "set_node p (\<lambda>n. n\<lparr>DriverData := ucast mbi, Name := \<lparr>VNodeString.Name = ''mbi'' @ [NUL], Length = 3\<rparr>\<rparr>)
      (k2\<lparr>nodes := (nodes k1)(p \<mapsto> new_node ?Fl)\<rparr>) = Inr k3"
    using p by (simp add: set_node_def node_def k3_def n_def eq)
  have same: "nodes k3 a = nodes k a" if "a \<in> set (nodes_of t)" for a using that p by (auto simp: k3_def)
  have there: "repr k3 t" "root_of t = Root k3" "\<forall>a \<in> set (nodes_of t). regular (the_node k3 a)" "lookup k3 t [''sys''] = Some u"
    using repr_cong [of t k3 k] lookup_cong [of t k3 k] same assms(2-5) r eq by (simp_all add: k3_def)
  have w: "list_all plain_word (components ''/sys'')" "components ''/sys'' = [''sys'']"
    by (simp_all add: components_def pieces_Cons plain_word_def special_words_def)
  let ?P = "root_of u"
  have u: "repr k u" "set (nodes_of u) \<subseteq> set (nodes_of t)" using lookup_repr [OF assms(5,2)] by auto
  then have P: "?P \<in> set (nodes_of t)" using root_in_nodes_of [of u] by blast
  then have Pk: "the_node k3 ?P = the_node k ?P" "is_node k3 ?P" using same [OF P] repr_root [OF u(1)] by (simp_all add: is_node_def)
  have find: "find_from_root ''/sys'' 4 k3 = Some (Inr ?P)"
    using find_from_root_tree [OF there(1,2,3) w(1), unfolded w(2)] there(4) assms(6) Pk by (simp add: eval_nat_numeral)
  let ?h = "FirstChild (the_node k ?P)"
  obtain a ts where at: "u = VTree a ts" by (cases u)
  have hc: "?h = NULL \<or> (\<exists>c \<in> set ts. ?h = root_of c)" using u(1) by (cases ts) (auto simp: at)
  have hk: "?h \<noteq> NULL \<longrightarrow> ?h \<in> set (nodes_of t) \<and> is_node k3 ?h"
  proof
    assume "?h \<noteq> NULL"
    then obtain c where c: "c \<in> set ts" "?h = root_of c" using hc by blast
    then have "repr k c" "?h \<in> set (nodes_of u)" using u(1) by (auto simp: at intro: bexI [of _ c])
    then have "?h \<in> set (nodes_of t)" "is_node k ?h" using u(2) repr_root c(2) by auto
    then show "?h \<in> set (nodes_of t) \<and> is_node k3 ?h" using same by (simp add: is_node_def)
  qed
  have ne: "?h \<notin> {?P, p}" using hk p hc repr_no_loop [OF u(1)] Pk(2) by (auto simp: at is_node_def)
  have pk: "is_node k3 p" "the_node k3 p = n" "?P \<noteq> p" using p P by (auto simp: k3_def is_node_def)
  have "\<exists>k4. RegisterChildVNode ?P p k3 = Inr k4 \<and> FirstChild (the_node k4 ?P) = p \<and> the_node k4 p = n\<lparr>Next := ?h\<rparr>"
    using RegisterChildVNode_Inr [OF Pk(2) pk(1) pk(3), of ?h] Pk(1) ne hk pk by auto
  then obtain k4 where k4: "RegisterChildVNode ?P p k3 = Inr k4" "FirstChild (the_node k4 ?P) = p" "the_node k4 p = n\<lparr>Next := ?h\<rparr>"
    by blast
  have "ArchInitialise32 B gdt_at tss_at idt_at D T magic mbi es s k = Some (Inr (es1, s2\<lparr>hw := h\<rparr>, k4))"
    using True g i h pr new named find k4(1) by (simp add: ArchInitialise32_def)
  then show ?thesis using True k4 p(2) by (auto simp: n_def node_name_def)
qed (simp add: ArchInitialise32_def)

theorem ArchInitialise32_mbi_witness:
  "\<exists>es1 s1 k1. ArchInitialise32 pic_bus 0x1000 0x2000 0x3000 0x4000 0x5000 0x36d76289 0x9500 []
      \<lparr>hw = (\<lparr>vector = 0, mask = 0, expects = 0\<rparr>, \<lparr>vector = 0, mask = 0, expects = 0\<rparr>), interrupts = True,
       gdt = replicate GDT_SIZE (descriptor 0 0 0 0), tss = \<lparr>esp0 = 0, ss0 = 0\<rparr>, gdtp = \<lparr>gdt_limit = 0, gdt_base = 0\<rparr>,
       lgdt = None, task_register = None\<rparr> two_dirs = Some (Inr (es1, s1, k1)) \<and>
     DriverData (the_node k1 (FirstChild (the_node k1 0x3000))) = 0x9500"
proof -
  have g: "length (gdt \<lparr>hw = (\<lparr>vector = 0, mask = 0, expects = 0\<rparr>, \<lparr>vector = 0, mask = 0, expects = 0\<rparr>), interrupts = True,
       gdt = replicate GDT_SIZE (descriptor 0 0 0 0), tss = \<lparr>esp0 = 0, ss0 = 0\<rparr>, gdtp = \<lparr>gdt_limit = 0, gdt_base = 0\<rparr>,
       lgdt = None, task_register = None\<rparr>) = GDT_SIZE" by simp
  from ArchInitialise32_mbi [OF g two_dirs_tree(1) _ two_dirs_tree(2,4) _ two_dirs_pages(1,4) two_dirs_beside,
      of "0x36d76289" pic_bus "0x1000" "0x2000" "0x3000" "0x4000" "0x5000" "0x9500" "[]"]
  show ?thesis by (auto simp: two_dirs_tree(6) two_dirs_pages(5))
qed

end
