(* ===== verification/Console.thy ===== *)
theory Console
  imports Ports Printf
begin

text \<open>
  The console of amd64, \<^verbatim>\<open>src/amd64/drivers/serial.c\<close>: the serial line at
  \<^verbatim>\<open>0x3F8\<close>, the VGA text screen that shows what it sends, and the keyboard that is read
  beside it. The hardware behind the ports is the parameter \<open>bus\<close> of \<open>Ports\<close>; the locale
  \<open>serial_hardware\<close> states what the code relies on of it.

  \<open>VGA i\<close> is the byte at \<^verbatim>\<open>VGA_TEXT_BUFFER + i\<close>: of all memory, so that an access outside
  the screen would show. \<open>paper\<close> is the reference: an endless sheet of rows of 80 cells, of
  which the screen shows the last 25.
\<close>

section \<open>State\<close>

record 'h console =
  hw :: 'h
  X :: int
  Y :: int
  W :: int
  H :: int
  VGA :: "int \<Rightarrow> u8"
  type :: bool
  shift_pressed :: int

definition KEYBOARD_STATUS_PORT :: u16 where "KEYBOARD_STATUS_PORT = 0x64"
definition KEYBOARD_DATA_PORT :: u16 where "KEYBOARD_DATA_PORT = 0x60"
definition SERIAL_PORT :: u16 where "SERIAL_PORT = 0x3F8"
definition SERIAL_IER :: u16 where "SERIAL_IER = SERIAL_PORT + 1"
definition SERIAL_LCR :: u16 where "SERIAL_LCR = SERIAL_PORT + 3"
definition SERIAL_LSR :: u16 where "SERIAL_LSR = SERIAL_PORT + 5"
definition SERIAL_MCR :: u16 where "SERIAL_MCR = SERIAL_PORT + 4"

definition port_in :: "'h bus \<Rightarrow> u16 \<Rightarrow> 'h console \<Rightarrow> u8 \<times> 'h console" where
  "port_in B port st = (let (v, h) = inb B port (hw st) in (v, st\<lparr>hw := h\<rparr>))"

definition port_out :: "'h bus \<Rightarrow> u16 \<Rightarrow> u8 \<Rightarrow> 'h console \<Rightarrow> 'h console" where
  "port_out B port v st = st\<lparr>hw := outb B port v (hw st)\<rparr>"

section \<open>The screen\<close>

text \<open>One row of \<^verbatim>\<open>Scroll\<close>: the cells of row \<open>y\<close> from column \<open>x\<close> on, to the row above.\<close>

function scroll_row :: "int \<Rightarrow> int \<Rightarrow> int \<Rightarrow> (int \<Rightarrow> u8) \<Rightarrow> int \<Rightarrow> u8" where
  "scroll_row w y x vga =
     (if x < w
      then let from0 = (y * w + x) * 2; to = ((y - 1) * w + x) * 2;
               vga1 = vga(to := vga from0)
           in scroll_row w y (x + 1) (vga1(to + 1 := vga1 (from0 + 1)))
      else vga)"
  by auto
termination by (relation "measure (\<lambda>(w, y, x, v). nat (w - x))") auto

function scroll_rows :: "int \<Rightarrow> int \<Rightarrow> int \<Rightarrow> (int \<Rightarrow> u8) \<Rightarrow> int \<Rightarrow> u8" where
  "scroll_rows w h y vga = (if y < h then scroll_rows w h (y + 1) (scroll_row w y 0 vga) else vga)"
  by auto
termination by (relation "measure (\<lambda>(w, h, y, v). nat (h - y))") auto

function blank_row :: "int \<Rightarrow> int \<Rightarrow> int \<Rightarrow> (int \<Rightarrow> u8) \<Rightarrow> int \<Rightarrow> u8" where
  "blank_row w y x vga =
     (if x < w
      then let i = (y * w + x) * 2 in blank_row w y (x + 1) (vga(i := 0x20, i + 1 := 0x1e))
      else vga)"
  by auto
termination by (relation "measure (\<lambda>(w, y, x, v). nat (w - x))") auto

declare scroll_row.simps [simp del] scroll_rows.simps [simp del] blank_row.simps [simp del]

definition Scroll :: "'h console \<Rightarrow> 'h console" where
  "Scroll st = st\<lparr>VGA := blank_row (W st) (H st - 1) 0 (scroll_rows (W st) (H st) 1 (VGA st)), Y := H st - 1\<rparr>"

definition VGAPutCharacter :: "char \<Rightarrow> 'h console \<Rightarrow> 'h console" where
  "VGAPutCharacter Chr st =
     (if Chr = CHR 0x0D then st\<lparr>X := 0\<rparr>
      else if Chr = CHR 0x0A then
        let st1 = st\<lparr>Y := Y st + 1, X := 0\<rparr> in if H st1 \<le> Y st1 then Scroll st1 else st1
      else
        let i = (Y st * W st + X st) * 2;
            st1 = st\<lparr>VGA := (VGA st)(i := byte_of Chr, i + 1 := 0x1e), X := X st + 1\<rparr>
        in if W st1 \<le> X st1
           then let st2 = st1\<lparr>X := 0, Y := Y st1 + 1\<rparr> in if H st2 \<le> Y st2 then Scroll st2 else st2
           else st1)"

section \<open>The serial line\<close>

text \<open>The words \<^verbatim>\<open>0x1E00\<close> that \<^verbatim>\<open>SerialInit\<close> fills the screen with.\<close>

function fill_screen :: "int \<Rightarrow> (int \<Rightarrow> u8) \<Rightarrow> int \<Rightarrow> u8" where
  "fill_screen i vga = (if i < 80 * 25 then fill_screen (i + 1) (vga(2 * i := 0, 2 * i + 1 := 0x1e)) else vga)"
  by auto
termination by (relation "measure (\<lambda>(i, v). nat (80 * 25 - i))") auto

declare fill_screen.simps [simp del]

definition SerialInit :: "'h bus \<Rightarrow> 'h console \<Rightarrow> 'h console" where
  "SerialInit B st =
     (let st1 = port_out B SERIAL_IER 0x00 st;
          st2 = port_out B SERIAL_LCR 0x80 st1;
          st3 = port_out B SERIAL_PORT 0x03 st2;
          st4 = port_out B SERIAL_IER 0x00 st3;
          st5 = port_out B SERIAL_LCR 0x03 st4;
          st6 = port_out B (SERIAL_PORT + 2) 0xC7 st5;
          st7 = port_out B SERIAL_MCR 0x0B st6
      in st7\<lparr>VGA := fill_screen 0 (VGA st7)\<rparr>)"

partial_function (option) SerialWaitForTransmit :: "'h bus \<Rightarrow> 'h console \<Rightarrow> 'h console option" where
  "SerialWaitForTransmit B st =
     (let (v, st1) = port_in B SERIAL_LSR st
      in if v AND 0x20 = 0 then SerialWaitForTransmit B st1 else Some st1)"

definition SerialCanRead :: "'h bus \<Rightarrow> 'h console \<Rightarrow> bool \<times> 'h console" where
  "SerialCanRead B st = (let (v, st1) = port_in B (SERIAL_PORT + 5) st in (v AND 0x01 \<noteq> 0, st1))"

definition PS2CanRead :: "'h bus \<Rightarrow> 'h console \<Rightarrow> bool \<times> 'h console" where
  "PS2CanRead B st = (let (status, st1) = port_in B KEYBOARD_STATUS_PORT st in (status AND 0x01 \<noteq> 0, st1))"

text \<open>The loop of \<^verbatim>\<open>SerialWaitForInput\<close>: the keyboard is asked only when the line has nothing.\<close>

partial_function (option) wait_input :: "'h bus \<Rightarrow> 'h console \<Rightarrow> 'h console option" where
  "wait_input B st =
     (let (serial, st1) = SerialCanRead B st
      in if serial then Some st1
         else let (key, st2) = PS2CanRead B st1 in if key then Some st2 else wait_input B st2)"

definition SerialWaitForInput :: "'h bus \<Rightarrow> 'h console \<Rightarrow> 'h console option" where
  "SerialWaitForInput B st =
     Option.bind (wait_input B st) (\<lambda>st1. let (serial, st2) = SerialCanRead B st1 in Some (st2\<lparr>type := serial\<rparr>))"

definition SerialPut :: "'h bus \<Rightarrow> char \<Rightarrow> 'h console \<Rightarrow> 'h console option" where
  "SerialPut B c st =
     Option.bind (SerialWaitForTransmit B st) (\<lambda>st1. Some (VGAPutCharacter c (port_out B SERIAL_PORT (byte_of c) st1)))"

section \<open>The keyboard\<close>

definition keyboard_map :: "u16 list" where
  "keyboard_map =
     [0, 27, 49, 50, 51, 52, 53, 54, 55, 56, 57, 48, 45, 61, 8, 9, 113, 119, 101, 114,
      116, 121, 117, 105, 111, 112, 91, 93, 10, 2, 97, 115, 100, 102, 103, 104, 106, 107, 108, 59,
      39, 96, 0, 35, 122, 120, 99, 118, 98, 110, 109, 44, 46, 47, 1, 42, 1, 32, 2, 0,
      0, 0, 0, 0, 0, 0, 0, 0, 0, 7, 11, 13, 107, 75, 45, 104, 53, 108, 43, 26,
      106, 74, 25, 127, 10, 1, 92, 0, 0] @ replicate 167 0"

definition keyboard_map_shifted :: "u16 list" where
  "keyboard_map_shifted =
     [0, 27, 33, 34, 92, 36, 37, 94, 38, 42, 40, 41, 95, 43, 8, 9, 81, 87, 69, 82,
      84, 89, 85, 73, 79, 80, 123, 125, 10, 2, 65, 83, 68, 70, 71, 72, 74, 75, 76, 58,
      64, 96, 0, 35, 90, 88, 67, 86, 66, 78, 77, 60, 62, 63, 1, 42, 1, 32, 2, 0,
      0, 0, 0, 0, 0, 0, 0, 0, 0, 0, 47, 55, 56, 57, 45, 52, 53, 54, 43, 49,
      50, 51, 48, 46, 10, 1, 92, 0, 0] @ replicate 167 0"

partial_function (option) wait_key :: "'h bus \<Rightarrow> 'h console \<Rightarrow> 'h console option" where
  "wait_key B st =
     (let (status, st1) = port_in B KEYBOARD_STATUS_PORT st
      in if status AND 0x01 = 0 then wait_key B st1 else Some st1)"

partial_function (option) PS2Getch :: "'h bus \<Rightarrow> 'h console \<Rightarrow> (u16 \<times> 'h console) option" where
  "PS2Getch B st =
     Option.bind (wait_key B st) (\<lambda>st1.
       let (scancode, st2) = port_in B KEYBOARD_DATA_PORT st1
       in if scancode = 0x2A then PS2Getch B (st2\<lparr>shift_pressed := 1\<rparr>)
          else if scancode = 0xAA then PS2Getch B (st2\<lparr>shift_pressed := 0\<rparr>)
          else if scancode AND 0x80 \<noteq> 0 then PS2Getch B st2
          else Some ((if shift_pressed st2 \<noteq> 0 then keyboard_map_shifted else keyboard_map) ! unat scancode, st2))"

definition SerialRead :: "'h bus \<Rightarrow> 'h console \<Rightarrow> (char \<times> 'h console) option" where
  "SerialRead B st =
     Option.bind (SerialWaitForInput B st) (\<lambda>st1.
       if type st1 then let (v, st2) = port_in B SERIAL_PORT st1 in Some (char_of_byte v, st2)
       else Option.bind (PS2Getch B st1) (\<lambda>(v, st2). Some (char_of_byte (ucast v), st2)))"

section \<open>Scrolling\<close>

lemma scroll_row_closed:
  assumes "0 \<le> x" "x \<le> w"
  shows "scroll_row w y x vga i =
     (if 2 * ((y - 1) * w + x) \<le> i \<and> i < 2 * ((y - 1) * w + w) then vga (i + 2 * w) else vga i)"
  using assms
proof (induction "nat (w - x)" arbitrary: x vga)
  case 0
  then have "x = w" by simp
  then show ?case by (subst scroll_row.simps) auto
next
  case (Suc n)
  define a where "a = (y - 1) * w"
  have a: "y * w = a + w" by (simp add: a_def algebra_simps)
  let ?vga = "(vga((a + x) * 2 := vga ((a + w + x) * 2)))((a + x) * 2 + 1 := (vga((a + x) * 2 := vga ((a + w + x) * 2))) ((a + w + x) * 2 + 1))"
  have x: "x < w" "n = nat (w - (x + 1))" "0 \<le> x + 1" "x + 1 \<le> w" using Suc.hyps(2) Suc.prems by auto
  have "scroll_row w y x vga i = scroll_row w y (x + 1) ?vga i"
    using x(1) by (subst scroll_row.simps) (simp add: Let_def a a_def [symmetric])
  also have "\<dots> = (if 2 * (a + (x + 1)) \<le> i \<and> i < 2 * (a + w) then ?vga (i + 2 * w) else ?vga i)"
    using Suc.hyps(1) [OF x(2,3,4), of ?vga] by (simp add: a_def)
  also have "\<dots> = (if 2 * (a + x) \<le> i \<and> i < 2 * (a + w) then vga (i + 2 * w) else vga i)"
  proof -
    have "(a + x) * 2 + 2 * w = (a + w + x) * 2" by simp
    moreover have "i = (a + x) * 2 \<or> i = (a + x) * 2 + 1 \<or> i < 2 * (a + x) \<or> 2 * (a + (x + 1)) \<le> i" by presburger
    ultimately show ?thesis using x(1) Suc.prems by (auto simp: algebra_simps)
  qed
  finally show ?case by (simp add: a_def)
qed

lemma scroll_rows_closed:
  assumes "0 < w" "1 \<le> y" "y \<le> h"
  shows "scroll_rows w h y vga i =
     (if 2 * ((y - 1) * w) \<le> i \<and> i < 2 * ((h - 1) * w) then vga (i + 2 * w) else vga i)"
  using assms(2,3)
proof (induction "nat (h - y)" arbitrary: y vga)
  case 0
  then have "y = h" by simp
  then show ?case by (subst scroll_rows.simps) auto
next
  case (Suc n)
  have y: "y < h" "n = nat (h - (y + 1))" "1 \<le> y + 1" "y + 1 \<le> h" using Suc.hyps(2) Suc.prems by auto
  define a where "a = (y - 1) * w"
  have a: "y * w = a + w" by (simp add: a_def algebra_simps)
  have le: "a + w \<le> (h - 1) * w" using mult_right_mono [of y "h - 1" w] y(1) assms(1) by (simp add: a)
  have "scroll_rows w h y vga i = scroll_rows w h (y + 1) (scroll_row w y 0 vga) i"
    using y(1) by (subst scroll_rows.simps) simp
  also have "\<dots> = (if 2 * (a + w) \<le> i \<and> i < 2 * ((h - 1) * w) then scroll_row w y 0 vga (i + 2 * w) else scroll_row w y 0 vga i)"
    using Suc.hyps(1) [OF y(2,3,4)] by (simp add: a)
  also have "\<dots> = (if 2 * a \<le> i \<and> i < 2 * ((h - 1) * w) then vga (i + 2 * w) else vga i)"
    using assms(1) le by (auto simp add: scroll_row_closed a_def [symmetric])
  finally show ?case by (simp add: a_def)
qed

lemma blank_row_closed:
  assumes "0 \<le> x" "x \<le> w"
  shows "blank_row w y x vga i =
     (if 2 * (y * w + x) \<le> i \<and> i < 2 * (y * w + w) then if even i then 0x20 else 0x1e else vga i)"
  using assms
proof (induction "nat (w - x)" arbitrary: x vga)
  case 0
  then have "x = w" by simp
  then show ?case by (subst blank_row.simps) auto
next
  case (Suc n)
  have x: "x < w" "n = nat (w - (x + 1))" "0 \<le> x + 1" "x + 1 \<le> w" using Suc.hyps(2) Suc.prems by auto
  let ?k = "(y * w + x) * 2"
  have "blank_row w y x vga i = blank_row w y (x + 1) (vga(?k := 0x20, ?k + 1 := 0x1e)) i"
    using x(1) by (subst blank_row.simps) (simp add: Let_def)
  moreover have "i = ?k \<or> i = ?k + 1 \<or> i < 2 * (y * w + x) \<or> 2 * (y * w + (x + 1)) \<le> i" by presburger
  ultimately show ?case using Suc.hyps(1) [OF x(2,3,4), of "vga(?k := 0x20, ?k + 1 := 0x1e)"] x(1) by auto
qed

lemma fill_screen_closed:
  "0 \<le> n \<Longrightarrow> n \<le> 2000 \<Longrightarrow> fill_screen n vga i = (if 2 * n \<le> i \<and> i < 4000 then if even i then 0 else 0x1e else vga i)"
proof (induction "nat (2000 - n)" arbitrary: n vga)
  case 0
  then show ?case by (subst fill_screen.simps) auto
next
  case (Suc m)
  have n: "n < 2000" "m = nat (2000 - (n + 1))" "0 \<le> n + 1" "n + 1 \<le> 2000" using Suc.hyps(2) Suc.prems by auto
  have "fill_screen n vga i = fill_screen (n + 1) (vga(2 * n := 0, 2 * n + 1 := 0x1e)) i"
    using n(1) by (subst fill_screen.simps) simp
  moreover have "i = 2 * n \<or> i = 2 * n + 1 \<or> i < 2 * n \<or> 2 * (n + 1) \<le> i" by presburger
  ultimately show ?case using Suc.hyps(1) [OF n(2,3,4), of "vga(2 * n := 0, 2 * n + 1 := 0x1e)"] n(1) by auto
qed

section \<open>The screen as a window on a sheet of paper\<close>

text \<open>Cells are a character and its colours. The cells below the cursor are blank.\<close>

record paper =
  cells :: "nat \<Rightarrow> nat \<Rightarrow> u8 \<times> u8"
  row :: nat
  col :: nat

definition paper_put :: "char \<Rightarrow> paper \<Rightarrow> paper" where
  "paper_put c p =
     (if c = CHR 0x0D then p\<lparr>col := 0\<rparr>
      else if c = CHR 0x0A then p\<lparr>row := row p + 1, col := 0\<rparr>
      else let p1 = p\<lparr>cells := (cells p)(row p := (cells p (row p))(col p := (byte_of c, 0x1e)))\<rparr>
        in if 80 \<le> col p + 1 then p1\<lparr>row := row p + 1, col := 0\<rparr> else p1\<lparr>col := col p + 1\<rparr>)"

definition screen :: "paper \<Rightarrow> (int \<Rightarrow> u8) \<Rightarrow> bool" where
  "screen p vga \<longleftrightarrow> (\<forall>y < 25. \<forall>x < 80.
     (vga (2 * (80 * int y + int x)), vga (2 * (80 * int y + int x) + 1)) = cells p (row p - 24 + y) x)"

definition fresh_below :: "paper \<Rightarrow> bool" where
  "fresh_below p \<longleftrightarrow> (\<forall>r x. 25 \<le> r \<and> row p < r \<longrightarrow> cells p r x = (0x20, 0x1e))"

definition displays :: "paper \<Rightarrow> 'h console \<Rightarrow> bool" where
  "displays p st \<longleftrightarrow> W st = 80 \<and> H st = 25 \<and> X st = int (col p) \<and> col p < 80 \<and>
     Y st = int (row p - (row p - 24)) \<and> screen p (VGA st) \<and> fresh_below p"

lemma Scroll_cells:
  assumes "W st = 80" "H st = 25"
  shows "VGA (Scroll st) i =
     (if 0 \<le> i \<and> i < 3840 then VGA st (i + 160) else if 3840 \<le> i \<and> i < 4000 then if even i then 0x20 else 0x1e else VGA st i)"
  using assms by (simp add: Scroll_def scroll_rows_closed blank_row_closed)

lemma Scroll_fields [simp]: "W (Scroll st) = W st" "H (Scroll st) = H st" "X (Scroll st) = X st" "Y (Scroll st) = H st - 1"
    "hw (Scroll st) = hw st" "shift_pressed (Scroll st) = shift_pressed st" "type (Scroll st) = type st"
  by (simp_all add: Scroll_def)

text \<open>The cursor on a new row, which is one below the screen when the screen is full.\<close>

lemma new_row_displays:
  assumes "W st = 80" "H st = 25" "X st = 0" "Y st = int (row p - (row p - 24)) + 1" "screen p (VGA st)" "fresh_below p"
  shows "displays (p\<lparr>row := row p + 1, col := 0\<rparr>) (if H st \<le> Y st then Scroll st else st)"
proof (cases "row p < 24")
  case True
  then show ?thesis using assms by (simp add: displays_def screen_def fresh_below_def)
next
  case False
  then have top: "row p + 1 - 24 = row p - 24 + 1" by simp
  have "screen (p\<lparr>row := row p + 1, col := 0\<rparr>) (VGA (Scroll st))"
    unfolding screen_def
  proof (intro allI impI)
    fix y x :: nat assume "y < 25" "x < 80"
    show "(VGA (Scroll st) (2 * (80 * int y + int x)), VGA (Scroll st) (2 * (80 * int y + int x) + 1)) =
        cells (p\<lparr>row := row p + 1, col := 0\<rparr>) (row (p\<lparr>row := row p + 1, col := 0\<rparr>) - 24 + y) x"
    proof (cases "y = 24")
      case True
      have "cells p (row p + 1) x = (0x20, 0x1e)" using assms(6) False by (simp add: fresh_below_def)
      then show ?thesis using True False \<open>x < 80\<close> assms(1,2) by (simp add: Scroll_cells)
    next
      case below: False
      then have "y + 1 < 25" using \<open>y < 25\<close> by simp
      then have "(VGA st (2 * (80 * int (y + 1) + int x)), VGA st (2 * (80 * int (y + 1) + int x) + 1)) = cells p (row p - 24 + (y + 1)) x"
        using assms(5) \<open>x < 80\<close> unfolding screen_def by blast
      moreover have "int y \<le> 23" "int x \<le> 79" using \<open>y + 1 < 25\<close> \<open>x < 80\<close> by simp_all
      then have "2 * (80 * int y + int x) < 3840" "2 * (80 * int y + int x) + 1 < 3840" by simp_all
      ultimately show ?thesis using assms(1,2) top by (simp add: Scroll_cells algebra_simps)
    qed
  qed
  then show ?thesis using assms False by (simp add: displays_def fresh_below_def)
qed

lemma cell_index:
  assumes "x < 80" "x' < 80"
  shows "80 * int y + int x = 80 * int y' + int x' \<longleftrightarrow> y = y' \<and> x = x'"
proof
  assume "80 * int y + int x = 80 * int y' + int x'"
  then have "80 * y + x = 80 * y' + x'" by linarith
  moreover from this have "(80 * y + x) div 80 = (80 * y' + x') div 80" by simp
  then have "y = y'" using assms by simp
  ultimately show "y = y' \<and> x = x'" by simp
qed simp

lemma put_cell_screen:
  assumes "screen p vga" "col p < 80"
  shows "screen (p\<lparr>cells := (cells p)(row p := (cells p (row p))(col p := (b, a)))\<rparr>)
     (vga(2 * (80 * int (row p - (row p - 24)) + int (col p)) := b, 2 * (80 * int (row p - (row p - 24)) + int (col p)) + 1 := a))"
  unfolding screen_def
proof (intro allI impI)
  fix y x :: nat assume yx: "y < 25" "x < 80"
  let ?Y = "row p - (row p - 24)"
  have old: "(vga (2 * (80 * int y + int x)), vga (2 * (80 * int y + int x) + 1)) = cells p (row p - 24 + y) x"
    using assms(1) yx unfolding screen_def by blast
  have same: "80 * int y + int x = 80 * int ?Y + int (col p) \<longleftrightarrow> y = ?Y \<and> x = col p"
    using yx(2) assms(2) by (rule cell_index)
  have r: "row p - 24 + y = row p \<longleftrightarrow> y = ?Y" by linarith
  show "((vga(2 * (80 * int ?Y + int (col p)) := b, 2 * (80 * int ?Y + int (col p)) + 1 := a)) (2 * (80 * int y + int x)),
      (vga(2 * (80 * int ?Y + int (col p)) := b, 2 * (80 * int ?Y + int (col p)) + 1 := a)) (2 * (80 * int y + int x) + 1)) =
      cells (p\<lparr>cells := (cells p)(row p := (cells p (row p))(col p := (b, a)))\<rparr>)
        (row (p\<lparr>cells := (cells p)(row p := (cells p (row p))(col p := (b, a)))\<rparr>) - 24 + y) x"
  proof (cases "80 * int y + int x = 80 * int ?Y + int (col p)")
    case True
    then show ?thesis using same r by simp
  next
    case False
    have p1: "2 * a \<noteq> 2 * b + 1" "2 * a + 1 \<noteq> 2 * b" for a b :: int by presburger+
    have p2: "2 * (80 * int y + int x) \<noteq> 2 * (80 * int ?Y + int (col p))" "2 * (80 * int y + int x) + 1 \<noteq> 2 * (80 * int ?Y + int (col p)) + 1"
      using False by simp_all
    have c: "\<not> (row p - 24 + y = row p \<and> x = col p)" using False same r by blast
    have "cells (p\<lparr>cells := (cells p)(row p := (cells p (row p))(col p := (b, a)))\<rparr>) (row p - 24 + y) x = cells p (row p - 24 + y) x"
      using c by auto
    then have "cells (p\<lparr>cells := (cells p)(row p := (cells p (row p))(col p := (b, a)))\<rparr>)
        (row (p\<lparr>cells := (cells p)(row p := (cells p (row p))(col p := (b, a)))\<rparr>) - 24 + y) x = cells p (row p - 24 + y) x" by simp
    with old show ?thesis by (simp only: fun_upd_apply p1 p2 if_False)
  qed
qed

lemma VGAPutCharacter_displays:
  assumes "displays p st"
  shows "displays (paper_put c p) (VGAPutCharacter c st)"
proof -
  note d = assms [unfolded displays_def]
  consider "c = CHR 0x0D" | "c = CHR 0x0A" | "c \<noteq> CHR 0x0D" "c \<noteq> CHR 0x0A" by blast
  then show ?thesis
  proof cases
    case 1
    then show ?thesis using d by (simp add: displays_def paper_put_def VGAPutCharacter_def screen_def fresh_below_def)
  next
    case 2
    let ?st = "st\<lparr>Y := Y st + 1, X := 0\<rparr>"
    have "VGAPutCharacter c st = (if H ?st \<le> Y ?st then Scroll ?st else ?st)" "paper_put c p = p\<lparr>row := row p + 1, col := 0\<rparr>"
      using 2 by (simp_all add: VGAPutCharacter_def paper_put_def Let_def)
    moreover have "displays (p\<lparr>row := row p + 1, col := 0\<rparr>) (if H ?st \<le> Y ?st then Scroll ?st else ?st)"
      using d by (intro new_row_displays) simp_all
    ultimately show ?thesis by (simp only:)
  next
    case 3
    let ?p = "p\<lparr>cells := (cells p)(row p := (cells p (row p))(col p := (byte_of c, 0x1e)))\<rparr>"
    let ?i = "2 * (80 * int (row p - (row p - 24)) + int (col p))"
    let ?v = "(VGA st)(?i := byte_of c, ?i + 1 := 0x1e)"
    have i: "(Y st * W st + X st) * 2 = ?i" using d by simp
    have s: "screen ?p ?v" using put_cell_screen d by blast
    have f: "fresh_below ?p" using d by (simp add: fresh_below_def)
    show ?thesis
    proof (cases "80 \<le> col p + 1")
      case True
      let ?st = "st\<lparr>VGA := ?v, X := 0, Y := Y st + 1\<rparr>"
      have "VGAPutCharacter c st = (if H ?st \<le> Y ?st then Scroll ?st else ?st)" "paper_put c p = ?p\<lparr>row := row ?p + 1, col := 0\<rparr>"
        using 3 True d unfolding VGAPutCharacter_def Let_def i paper_put_def by simp_all
      moreover have "displays (?p\<lparr>row := row ?p + 1, col := 0\<rparr>) (if H ?st \<le> Y ?st then Scroll ?st else ?st)"
        using d s f by (intro new_row_displays) simp_all
      ultimately show ?thesis by (simp only:)
    next
      case False
      then show ?thesis
        using s f d 3 unfolding paper_put_def VGAPutCharacter_def Let_def i displays_def
        by (simp add: screen_def fresh_below_def)
    qed
  qed
qed

section \<open>What the screen relies on\<close>

definition cursor_ok :: "'h console \<Rightarrow> bool" where
  "cursor_ok st \<longleftrightarrow> W st = 80 \<and> H st = 25 \<and> 0 \<le> X st \<and> X st < 80 \<and> 0 \<le> Y st \<and> Y st < 25"

lemma VGAPutCharacter_cursor: "cursor_ok st \<Longrightarrow> cursor_ok (VGAPutCharacter c st)"
  by (auto simp: cursor_ok_def VGAPutCharacter_def Let_def)

lemma VGAPutCharacter_frame:
  assumes "cursor_ok st" "i < 0 \<or> 4000 \<le> i"
  shows "VGA (VGAPutCharacter c st) i = VGA st i"
proof -
  define k where "k = (Y st * W st + X st) * 2"
  have "0 \<le> k" "k + 1 < 4000" using assms(1) by (simp_all add: cursor_ok_def k_def)
  then have n: "i \<noteq> k" "i \<noteq> k + 1" using assms(2) by linarith+
  have sc: "VGA (Scroll st1) i = VGA st1 i" if "W st1 = W st" "H st1 = H st" for st1 :: "'a console"
    using that assms by (auto simp: cursor_ok_def Scroll_cells)
  show ?thesis unfolding VGAPutCharacter_def Let_def k_def [symmetric] by (simp add: sc n)
qed

text \<open>
  C19. Whatever is written, the cursor stays inside the screen of 80 by 25 cells and no byte
  outside the 4000 of the text buffer changes.
\<close>

theorem VGAPutCharacter_type:
  "cursor_ok st \<Longrightarrow> cursor_ok (fold VGAPutCharacter t st) \<and>
     (\<forall>i. i \<notin> {0..<4000} \<longrightarrow> VGA (fold VGAPutCharacter t st) i = VGA st i)"
proof (induction t arbitrary: st)
  case (Cons c t)
  from Cons.IH [OF VGAPutCharacter_cursor [OF Cons.prems, of c]] show ?case
    using VGAPutCharacter_frame [OF Cons.prems] by auto
qed simp

definition blank_console :: "'h \<Rightarrow> 'h console" where
  "blank_console h = \<lparr>hw = h, X = 0, Y = 0, W = 80, H = 25, VGA = (\<lambda>i. 0), type = False, shift_pressed = 0\<rparr>"

theorem VGAPutCharacter_type_witness:
  "VGA (fold VGAPutCharacter (replicate 5000 (CHR ''x'')) (blank_console ())) 4000 = 0"
  using VGAPutCharacter_type [of "blank_console ()" "replicate 5000 (CHR ''x'')"]
  by (simp add: cursor_ok_def blank_console_def)

lemma VGAPutCharacter_hw [simp]: "VGAPutCharacter c (st\<lparr>hw := h\<rparr>) = (VGAPutCharacter c st)\<lparr>hw := h\<rparr>"
  by (simp add: VGAPutCharacter_def Scroll_def Let_def)

lemma displays_hw [simp]: "displays p (st\<lparr>hw := h\<rparr>) = displays p st"
  by (simp add: displays_def)

lemma fold_displays: "displays p st \<Longrightarrow> displays (fold paper_put t p) (fold VGAPutCharacter t st)"
  by (induction t arbitrary: p st) (simp_all add: VGAPutCharacter_displays)

text \<open>The sheet before anything is written: the bytes of \<^verbatim>\<open>SerialInit\<close>, blanks below.\<close>

definition blank_paper :: paper where
  "blank_paper = \<lparr>cells = (\<lambda>r x. if r < 25 then (0, 0x1e) else (0x20, 0x1e)), row = 0, col = 0\<rparr>"

lemma SerialInit_displays: "X st = 0 \<Longrightarrow> Y st = 0 \<Longrightarrow> W st = 80 \<Longrightarrow> H st = 25 \<Longrightarrow> displays blank_paper (SerialInit B st)"
  by (auto simp: displays_def blank_paper_def SerialInit_def port_out_def Let_def screen_def fresh_below_def fill_screen_closed)

section \<open>The hardware\<close>

text \<open>
  The serial line needs \<open>busy\<close> looks at its status before it takes a byte; \<open>line_out\<close> is what
  it has sent, \<open>line_in\<close> and \<open>keys\<close> what is there to be read.
\<close>

locale serial_hardware =
  fixes B :: "'h bus"
    and busy :: "'h \<Rightarrow> nat"
    and line_out :: "'h \<Rightarrow> u8 list"
    and line_in :: "'h \<Rightarrow> u8 list"
    and keys :: "'h \<Rightarrow> u8 list"
  assumes status: "\<exists>v h'. inb B 0x3FD h = (v, h') \<and> bit v 5 = (busy h = 0) \<and> bit v 0 = (line_in h \<noteq> []) \<and>
      busy h' = busy h - 1 \<and> line_out h' = line_out h \<and> line_in h' = line_in h \<and> keys h' = keys h"
    and receive: "line_in h = b # bs \<Longrightarrow>
      \<exists>h'. inb B 0x3F8 h = (b, h') \<and> line_in h' = bs \<and> line_out h' = line_out h \<and> keys h' = keys h"
    and transmit: "busy h = 0 \<Longrightarrow> line_out (outb B 0x3F8 v h) = line_out h @ [v] \<and>
      line_in (outb B 0x3F8 v h) = line_in h \<and> keys (outb B 0x3F8 v h) = keys h"
    and key_status: "\<exists>v h'. inb B 0x64 h = (v, h') \<and> bit v 0 = (keys h \<noteq> []) \<and>
      line_out h' = line_out h \<and> line_in h' = line_in h \<and> keys h' = keys h"
    and key_data: "keys h = c # cs \<Longrightarrow>
      \<exists>h'. inb B 0x60 h = (c, h') \<and> keys h' = cs \<and> line_out h' = line_out h \<and> line_in h' = line_in h"

lemma line_status_bits:
  "(v AND 0x20 = 0) = (\<not> bit v 5)" "(v AND 0x01 = 0) = (\<not> bit v 0)" "(v AND 1 = 0) = (\<not> bit v 0)"
  "(v AND 0x80 = 0) = (\<not> bit v 7)" for v :: u8
proof -
  have p: "(0x20 :: u8) = 2 ^ 5" "(0x80 :: u8) = 2 ^ 7" by simp_all
  show "(v AND 0x20 = 0) = (\<not> bit v 5)" "(v AND 0x80 = 0) = (\<not> bit v 7)" by (simp_all only: p and_exp_eq_0_iff_not_bit)
  show "(v AND 0x01 = 0) = (\<not> bit v 0)" "(v AND 1 = 0) = (\<not> bit v 0)"
    by (simp_all add: and_one_eq bit_0 even_iff_mod_2_eq_zero)
qed

lemmas serial_ports = SERIAL_PORT_def SERIAL_LSR_def KEYBOARD_STATUS_PORT_def KEYBOARD_DATA_PORT_def

text \<open>The key a sequence of scan codes begins with, the shift state after it, and the rest.\<close>

fun first_key :: "int \<Rightarrow> u8 list \<Rightarrow> (u16 \<times> int \<times> u8 list) option" where
  "first_key sh [] = None"
| "first_key sh (c # cs) =
     (if c = 0x2A then first_key 1 cs
      else if c = 0xAA then first_key 0 cs
      else if bit c 7 then first_key sh cs
      else Some ((if sh \<noteq> 0 then keyboard_map_shifted else keyboard_map) ! unat c, sh, cs))"

context serial_hardware
begin

abbreviation same_io :: "'h \<Rightarrow> 'h \<Rightarrow> bool" where
  "same_io h h' \<equiv> line_out h' = line_out h \<and> line_in h' = line_in h \<and> keys h' = keys h"

lemma waited: "\<exists>h. SerialWaitForTransmit B st = Some (st\<lparr>hw := h\<rparr>) \<and> same_io (hw st) h \<and> busy h = 0"
proof (induction "busy (hw st)" arbitrary: st)
  case 0
  obtain v h where "inb B 0x3FD (hw st) = (v, h)" "bit v 5" "same_io (hw st) h" "busy h = 0"
    using status [of "hw st"] 0 by auto
  then show ?case
    by (intro exI [of _ h]) (subst SerialWaitForTransmit.simps, simp add: port_in_def serial_ports line_status_bits)
next
  case (Suc n)
  obtain v h where h: "inb B 0x3FD (hw st) = (v, h)" "\<not> bit v 5" "same_io (hw st) h" "busy h = n"
    using status [of "hw st"] Suc.hyps(2) [symmetric] by auto
  from Suc.hyps(1) [of "st\<lparr>hw := h\<rparr>"] h obtain h2 where "SerialWaitForTransmit B (st\<lparr>hw := h\<rparr>) = Some (st\<lparr>hw := h2\<rparr>)"
    "same_io h h2" "busy h2 = 0" by auto
  with h show ?case
    by (intro exI [of _ h2]) (subst SerialWaitForTransmit.simps, simp add: port_in_def serial_ports line_status_bits)
qed

lemma put_effect:
  "\<exists>h. SerialPut B c st = Some ((VGAPutCharacter c st)\<lparr>hw := h\<rparr>) \<and> line_out h = line_out (hw st) @ [byte_of c] \<and>
     line_in h = line_in (hw st) \<and> keys h = keys (hw st)"
proof -
  obtain h where "SerialWaitForTransmit B st = Some (st\<lparr>hw := h\<rparr>)" "same_io (hw st) h" "busy h = 0"
    using waited [of st] by blast
  with transmit [of h "byte_of c"] show ?thesis
    by (intro exI [of _ "outb B 0x3F8 (byte_of c) h"]) (simp add: SerialPut_def port_out_def serial_ports)
qed

lemma put_string_effect:
  "\<exists>h. put_string (SerialPut B) t st = Some ((fold VGAPutCharacter t st)\<lparr>hw := h\<rparr>) \<and>
     line_out h = line_out (hw st) @ map byte_of t \<and> line_in h = line_in (hw st) \<and> keys h = keys (hw st)"
proof (induction t arbitrary: st)
  case Nil
  have "st = st\<lparr>hw := hw st\<rparr>" by simp
  then show ?case by (metis append_Nil2 fold_simps(1) list.map(1) put_string.simps(1))
next
  case (Cons c t)
  obtain h where h: "SerialPut B c st = Some ((VGAPutCharacter c st)\<lparr>hw := h\<rparr>)" "line_out h = line_out (hw st) @ [byte_of c]"
    "line_in h = line_in (hw st)" "keys h = keys (hw st)" using put_effect [of c st] by blast
  have f: "fold VGAPutCharacter t (st1\<lparr>hw := h1\<rparr>) = (fold VGAPutCharacter t st1)\<lparr>hw := h1\<rparr>" for st1 :: "'h console" and h1
    by (induction t arbitrary: st1) simp_all
  from Cons.IH [of "(VGAPutCharacter c st)\<lparr>hw := h\<rparr>"] h show ?case by (auto simp: f)
qed

end

sublocale serial_hardware \<subseteq> line: serial_port "SerialPut B" "\<lambda>st. True" "\<lambda>st. map char_of_byte (line_out (hw st))"
proof
  fix st :: "'h console" and c
  obtain h where "SerialPut B c st = Some ((VGAPutCharacter c st)\<lparr>hw := h\<rparr>)" "line_out h = line_out (hw st) @ [byte_of c]"
    using put_effect [of c st] by blast
  then show "\<exists>st'. SerialPut B c st = Some st' \<and> True \<and> map char_of_byte (line_out (hw st')) = map char_of_byte (line_out (hw st)) @ [c]"
    by simp
qed

section \<open>Printing on the console\<close>

text \<open>
  C18. What \<^verbatim>\<open>SerialPrint\<close> writes on the console of amd64 appears twice: the line has sent
  the bytes of the text after those before, and the screen shows the last 25 rows of the sheet
  with the text written on it from the cursor on, wrapped at column 80. The line takes every byte, and
  nothing that waits to be read is lost.
\<close>

theorem SerialPrint_on_console:
  assumes "serial_hardware B busy line_out line_in keys" "render fmt args = Some t" "displays p st"
  shows "\<exists>st'. SerialPrint (SerialPut B) fmt args st = Some (Inr st') \<and> displays (fold paper_put t p) st' \<and>
     line_out (hw st') = line_out (hw st) @ map byte_of t \<and> line_in (hw st') = line_in (hw st) \<and> keys (hw st') = keys (hw st)"
proof -
  from serial_hardware.put_string_effect [OF assms(1), of t st] obtain h where
    h: "put_string (SerialPut B) t st = Some ((fold VGAPutCharacter t st)\<lparr>hw := h\<rparr>)"
      "line_out h = line_out (hw st) @ map byte_of t" "line_in h = line_in (hw st)" "keys h = keys (hw st)" by blast
  have "SerialPrint (SerialPut B) fmt args st = Some (Inr ((fold VGAPutCharacter t st)\<lparr>hw := h\<rparr>))"
    using assms(2) h(1) by (simp add: SerialPrint_def print_loop_text)
  with h fold_displays [OF assms(3), of t] show ?thesis by simp
qed

text \<open>
  A line and a keyboard: the looks at the status that are left, the bytes sent, those received and the
  scan codes.
\<close>

type_synonym com1 = "nat \<times> u8 list \<times> u8 list \<times> u8 list"

definition com1_bus :: "com1 bus" where
  "com1_bus = \<lparr>
     inb = (\<lambda>p (n, out, inn, ks).
       if p = 0x3FD then (of_bool (n = 0) * 0x20 + of_bool (inn \<noteq> []), (n - 1, out, inn, ks))
       else if p = 0x3F8 then (hd (inn @ [0]), (n, out, tl inn, ks))
       else if p = 0x64 then (of_bool (ks \<noteq> []), (n, out, inn, ks))
       else if p = 0x60 then (hd (ks @ [0]), (n, out, inn, tl ks))
       else (0, (n, out, inn, ks))),
     outb = (\<lambda>p v (n, out, inn, ks). if p = 0x3F8 then (3, out @ [v], inn, ks) else (n, out, inn, ks)),
     inw = (\<lambda>p h. (0, h)), outw = (\<lambda>p v h. h), inl = (\<lambda>p h. (0, h)), outl = (\<lambda>p v h. h), delay = (\<lambda>n h. h)\<rparr>"

interpretation com1: serial_hardware com1_bus fst "\<lambda>h. fst (snd h)" "\<lambda>h. fst (snd (snd h))" "\<lambda>h. snd (snd (snd h))"
proof unfold_locales
  have p: "bit v 5 = (v AND 0x20 \<noteq> 0)" "bit v 0 = (v AND 1 \<noteq> 0)" for v :: u8 using line_status_bits by blast+
  have b: "bit (0x21 :: u8) 5" "bit (0x20 :: u8) 5" "\<not> bit (0x20 :: u8) 0" "\<not> bit (1 :: u8) 5" "bit (0x21 :: u8) 0"
    unfolding p by simp_all
  fix h :: com1
  obtain n out inn ks where h: "h = (n, out, inn, ks)" by (metis surj_pair)
  show "\<exists>v h'. inb com1_bus 0x3FD h = (v, h') \<and> bit v 5 = (fst h = 0) \<and> bit v 0 = (fst (snd (snd h)) \<noteq> []) \<and> fst h' = fst h - 1 \<and>
      fst (snd h') = fst (snd h) \<and> fst (snd (snd h')) = fst (snd (snd h)) \<and> snd (snd (snd h')) = snd (snd (snd h))"
    using b by (cases n; cases inn) (simp_all add: h com1_bus_def)
  show "\<exists>v h'. inb com1_bus 0x64 h = (v, h') \<and> bit v 0 = (snd (snd (snd h)) \<noteq> []) \<and>
      fst (snd h') = fst (snd h) \<and> fst (snd (snd h')) = fst (snd (snd h)) \<and> snd (snd (snd h')) = snd (snd (snd h))"
    by (cases ks) (simp_all add: h com1_bus_def)
  fix b bs
  show "fst (snd (snd h)) = b # bs \<Longrightarrow> \<exists>h'. inb com1_bus 0x3F8 h = (b, h') \<and> fst (snd (snd h')) = bs \<and>
      fst (snd h') = fst (snd h) \<and> snd (snd (snd h')) = snd (snd (snd h))"
    by (simp add: h com1_bus_def)
  show "snd (snd (snd h)) = b # bs \<Longrightarrow> \<exists>h'. inb com1_bus 0x60 h = (b, h') \<and> snd (snd (snd h')) = bs \<and>
      fst (snd h') = fst (snd h) \<and> fst (snd (snd h')) = fst (snd (snd h))"
    by (simp add: h com1_bus_def)
  show "fst h = 0 \<Longrightarrow> fst (snd (outb com1_bus 0x3F8 b h)) = fst (snd h) @ [b] \<and>
      fst (snd (snd (outb com1_bus 0x3F8 b h))) = fst (snd (snd h)) \<and> snd (snd (snd (outb com1_bus 0x3F8 b h))) = snd (snd (snd h))"
    by (simp add: h com1_bus_def)
qed

theorem SerialPrint_on_console_witness:
  "\<exists>st'. SerialPrint (SerialPut com1_bus) (''%s=%d'' @ [NUL]) [VaPtr (Some (''x'' @ [NUL])), VaInt 0xFFFFFFF6]
       (SerialInit com1_bus (blank_console (0, [], [], []))) = Some (Inr st') \<and>
     fst (snd (hw st')) = [3, 0x78, 0x3D, 0x2D, 0x31, 0x30]"
proof -
  have d: "displays blank_paper (SerialInit com1_bus (blank_console (0, [], [], [])))"
    by (rule SerialInit_displays) (simp_all add: blank_console_def)
  have i: "int_text (sint (0xFFFFFFF6 :: u32)) = ''-10''"
    by (simp add: int_text_def num_text.simps [of 10] hex_digits_def)
  have r: "render (''%s=%d'' @ [NUL]) [VaPtr (Some (''x'' @ [NUL])), VaInt 0xFFFFFFF6] = Some ''x=-10''"
    using i by (simp add: directive_text_def INT_MIN_def)
  have h: "hw (SerialInit com1_bus (blank_console (0, [], [], []))) = (3, [3], [], [])"
    by (simp add: SerialInit_def port_out_def Let_def com1_bus_def blank_console_def SERIAL_PORT_def SERIAL_IER_def
        SERIAL_LCR_def SERIAL_MCR_def)
  from SerialPrint_on_console [OF com1.serial_hardware_axioms r d] h show ?thesis
    by (auto simp: byte_of_def)
qed

section \<open>Reading\<close>

lemma VGA_hw_only: "st\<lparr>hw := h\<rparr>\<lparr>hw := h'\<rparr> = st\<lparr>hw := h'\<rparr>" for st :: "'h console"
  by simp

context serial_hardware
begin

lemma can_read: "\<exists>h. SerialCanRead B st = (line_in (hw st) \<noteq> [], st\<lparr>hw := h\<rparr>) \<and> same_io (hw st) h"
proof -
  obtain v h where "inb B 0x3FD (hw st) = (v, h)" "bit v 0 = (line_in (hw st) \<noteq> [])" "same_io (hw st) h"
    using status [of "hw st"] by blast
  then show ?thesis by (intro exI [of _ h]) (simp add: SerialCanRead_def port_in_def serial_ports line_status_bits)
qed

lemma key_waits: "\<exists>h. PS2CanRead B st = (keys (hw st) \<noteq> [], st\<lparr>hw := h\<rparr>) \<and> same_io (hw st) h"
proof -
  obtain v h where "inb B 0x64 (hw st) = (v, h)" "bit v 0 = (keys (hw st) \<noteq> [])" "same_io (hw st) h"
    using key_status [of "hw st"] by blast
  then show ?thesis by (intro exI [of _ h]) (simp add: PS2CanRead_def port_in_def serial_ports line_status_bits)
qed

lemma wait_input_ready:
  assumes "line_in (hw st) \<noteq> [] \<or> keys (hw st) \<noteq> []"
  shows "\<exists>h. SerialWaitForInput B st = Some (st\<lparr>hw := h, type := line_in (hw st) \<noteq> []\<rparr>) \<and> same_io (hw st) h"
proof -
  obtain h1 where 1: "SerialCanRead B st = (line_in (hw st) \<noteq> [], st\<lparr>hw := h1\<rparr>)" "same_io (hw st) h1"
    using can_read [of st] by blast
  obtain h2 where 2: "PS2CanRead B (st\<lparr>hw := h1\<rparr>) = (keys h1 \<noteq> [], st\<lparr>hw := h2\<rparr>)" "same_io h1 h2"
    using key_waits [of "st\<lparr>hw := h1\<rparr>"] by auto
  have "\<exists>h. wait_input B st = Some (st\<lparr>hw := h\<rparr>) \<and> same_io (hw st) h"
    using 1 2 assms by (auto simp: wait_input.simps [of B st])
  then obtain h where h: "wait_input B st = Some (st\<lparr>hw := h\<rparr>)" "same_io (hw st) h" by blast
  obtain h3 where "SerialCanRead B (st\<lparr>hw := h\<rparr>) = (line_in h \<noteq> [], st\<lparr>hw := h3\<rparr>)" "same_io h h3"
    using can_read [of "st\<lparr>hw := h\<rparr>"] by auto
  then show ?thesis using h by (intro exI [of _ h3]) (simp add: SerialWaitForInput_def)
qed

lemma fetched:
  assumes "keys (hw st) = c # cs"
  shows "\<exists>h. Option.bind (wait_key B st) (\<lambda>st1. Some (port_in B KEYBOARD_DATA_PORT st1)) = Some (c, st\<lparr>hw := h\<rparr>) \<and>
     keys h = cs \<and> line_out h = line_out (hw st) \<and> line_in h = line_in (hw st)"
proof -
  obtain v h1 where 1: "inb B 0x64 (hw st) = (v, h1)" "bit v 0" "same_io (hw st) h1"
    using key_status [of "hw st"] assms by auto
  then obtain h2 where 2: "inb B 0x60 h1 = (c, h2)" "keys h2 = cs" "line_out h2 = line_out h1" "line_in h2 = line_in h1"
    using key_data [of h1 c cs] assms by auto
  have "wait_key B st = Some (st\<lparr>hw := h1\<rparr>)"
    using 1 by (subst wait_key.simps) (simp add: port_in_def serial_ports line_status_bits)
  then show ?thesis using 1 2 by (intro exI [of _ h2]) (simp add: port_in_def serial_ports)
qed

lemma getch_first_key:
  "first_key (shift_pressed st) (keys (hw st)) = Some (k, sh, cs) \<Longrightarrow>
     \<exists>h. PS2Getch B st = Some (k, st\<lparr>hw := h, shift_pressed := sh\<rparr>) \<and> keys h = cs \<and>
       line_out h = line_out (hw st) \<and> line_in h = line_in (hw st)"
proof (induction "keys (hw st)" arbitrary: st)
  case Nil
  from Nil.prems show ?case unfolding Nil.hyps [symmetric] by simp
next
  case (Cons c rest)
  obtain h where h: "Option.bind (wait_key B st) (\<lambda>st1. Some (port_in B KEYBOARD_DATA_PORT st1)) = Some (c, st\<lparr>hw := h\<rparr>)"
    "keys h = rest" "line_out h = line_out (hw st)" "line_in h = line_in (hw st)"
    using fetched [OF Cons.hyps(2) [symmetric]] by blast
  then obtain st1 where st1: "wait_key B st = Some st1" "port_in B KEYBOARD_DATA_PORT st1 = (c, st\<lparr>hw := h\<rparr>)"
    by (auto split: bind_splits)
  note turn = PS2Getch.simps [of B st] st1 line_status_bits
  note p = Cons.prems [unfolded Cons.hyps(2) [symmetric]]
  consider "c = 0x2A" | "c = 0xAA" | "bit c 7" "c \<noteq> 0x2A" "c \<noteq> 0xAA" | "\<not> bit c 7" "c \<noteq> 0x2A" "c \<noteq> 0xAA" by blast
  then show ?case
  proof cases
    case 1
    with Cons.hyps(1) [of "st\<lparr>hw := h, shift_pressed := 1\<rparr>"] h p show ?thesis by (auto simp: turn)
  next
    case 2
    with Cons.hyps(1) [of "st\<lparr>hw := h, shift_pressed := 0\<rparr>"] h p show ?thesis by (auto simp: turn)
  next
    case 3
    with Cons.hyps(1) [of "st\<lparr>hw := h\<rparr>"] h p show ?thesis by (auto simp: turn)
  next
    case 4
    then have e: "k = (if shift_pressed st \<noteq> 0 then keyboard_map_shifted else keyboard_map) ! unat c" "sh = shift_pressed st" "cs = rest"
      using p by auto
    have "st\<lparr>hw := h\<rparr> = st\<lparr>hw := h, shift_pressed := shift_pressed st\<rparr>" by simp
    with 4 h show ?thesis unfolding e by (intro exI [of _ h]) (simp add: turn)
  qed
qed

end

text \<open>
  \<^verbatim>\<open>SerialRead\<close> takes the next byte of the serial line when there is one, and only
  otherwise a key: the first code that is neither a shift key nor a key's release, in the case the shift codes
  before it leave. What is not consumed stays to be read.
\<close>

theorem SerialRead_source:
  assumes "serial_hardware B busy line_out line_in keys"
    and "line_in (hw st) \<noteq> [] \<or> first_key (shift_pressed st) (keys (hw st)) = Some (k, sh, cs)"
  shows "\<exists>c st'. SerialRead B st = Some (c, st') \<and> VGA st' = VGA st \<and> line_out (hw st') = line_out (hw st) \<and>
     (if line_in (hw st) \<noteq> []
      then c = char_of_byte (hd (line_in (hw st))) \<and> line_in (hw st') = tl (line_in (hw st)) \<and> keys (hw st') = keys (hw st)
      else c = char_of_byte (ucast k) \<and> shift_pressed st' = sh \<and> keys (hw st') = cs)"
proof -
  have ready: "line_in (hw st) \<noteq> [] \<or> keys (hw st) \<noteq> []" using assms(2) by (cases "keys (hw st)") auto
  from serial_hardware.wait_input_ready [OF assms(1) ready] obtain h where
    h: "SerialWaitForInput B st = Some (st\<lparr>hw := h, type := line_in (hw st) \<noteq> []\<rparr>)"
      "line_out h = line_out (hw st)" "line_in h = line_in (hw st)" "keys h = keys (hw st)" by blast
  show ?thesis
  proof (cases "line_in (hw st)")
    case (Cons b bs)
    with serial_hardware.receive [OF assms(1), of h b bs] h(3) obtain h' where
      "inb B 0x3F8 h = (b, h')" "line_in h' = bs" "line_out h' = line_out h" "keys h' = keys h" by auto
    then show ?thesis using Cons h by (simp add: SerialRead_def port_in_def serial_ports)
  next
    case Nil
    let ?st1 = "st\<lparr>hw := h, type := False\<rparr>"
    have "first_key (shift_pressed ?st1) (keys (hw ?st1)) = Some (k, sh, cs)" using assms(2) Nil h by simp
    from serial_hardware.getch_first_key [OF assms(1) this] obtain h' where
      "PS2Getch B ?st1 = Some (k, ?st1\<lparr>hw := h', shift_pressed := sh\<rparr>)" "keys h' = cs" "line_out h' = line_out h" by auto
    then show ?thesis using Nil h by (simp add: SerialRead_def)
  qed
qed

theorem SerialRead_source_witness:
  "\<exists>st'. SerialRead com1_bus (blank_console (0, [], [], [0x9E, 0x2A, 0x1E, 0x9E])) = Some (CHR ''A'', st') \<and>
     snd (snd (snd (hw st'))) = [0x9E]"
proof -
  have b: "bit (0x9E :: u8) 7" "\<not> bit (0x1E :: u8) 7"
  proof -
    have "bit v 7 = (v AND 0x80 \<noteq> 0)" for v :: u8 using line_status_bits by blast
    then show "bit (0x9E :: u8) 7" "\<not> bit (0x1E :: u8) 7" by simp_all
  qed
  have k: "first_key 0 [0x9E, 0x2A, 0x1E, 0x9E] = Some (65, 1, [0x9E])"
    using b by (simp add: keyboard_map_shifted_def)
  have c: "char_of_byte (ucast (65 :: u16)) = CHR ''A''" by (simp add: char_of_byte_def char_of_def bit_iff_odd)
  show ?thesis
    using SerialRead_source [OF com1.serial_hardware_axioms, of "blank_console (0, [], [], [0x9E, 0x2A, 0x1E, 0x9E])" 65 1 "[0x9E]"] k c
    by (auto simp: blank_console_def)
qed

end
