(* ===== verification/Serials.thy ===== *)
theory Serials
  imports Console
begin

text \<open>
  The serial lines of the other architectures: \<^verbatim>\<open>src/ia32/drivers/serial.c\<close> (ports),
  \<^verbatim>\<open>src/riscv/drivers/serial.c\<close> (the same registers in memory) and
  \<^verbatim>\<open>src/arm32/drivers/serial.c\<close> (a PL011). The state is the hardware's only. That of ia32
  is the line of amd64's console without its screen, that of riscv the one of ia32 at other
  addresses; the PL011 has a locale of its own for what is relied on.
\<close>

section \<open>ia32\<close>

definition ia32_SerialInit :: "'h bus \<Rightarrow> 'h \<Rightarrow> 'h" where
  "ia32_SerialInit B h =
     (let h1 = outb B SERIAL_IER 0x00 h;
          h2 = outb B SERIAL_LCR 0x80 h1;
          h3 = outb B SERIAL_PORT 0x03 h2;
          h4 = outb B SERIAL_IER 0x00 h3;
          h5 = outb B SERIAL_LCR 0x03 h4;
          h6 = outb B (SERIAL_PORT + 2) 0xC7 h5
      in outb B SERIAL_MCR 0x0B h6)"

partial_function (option) ia32_SerialWaitForTransmit :: "'h bus \<Rightarrow> 'h \<Rightarrow> 'h option" where
  "ia32_SerialWaitForTransmit B h =
     (let (v, h1) = inb B SERIAL_LSR h
      in if v AND 0x20 = 0 then ia32_SerialWaitForTransmit B h1 else Some h1)"

definition ia32_SerialCanRead :: "'h bus \<Rightarrow> 'h \<Rightarrow> bool \<times> 'h" where
  "ia32_SerialCanRead B h = (let (v, h1) = inb B (SERIAL_PORT + 5) h in (v AND 0x01 \<noteq> 0, h1))"

text \<open>\<^verbatim>\<open>ArchPause\<close> halts until an interrupt: what becomes of the hardware meanwhile is an argument.\<close>

partial_function (option) ia32_SerialWaitForInput :: "'h bus \<Rightarrow> ('h \<Rightarrow> 'h) \<Rightarrow> 'h \<Rightarrow> 'h option" where
  "ia32_SerialWaitForInput B ArchPause h =
     (let (ready, h1) = ia32_SerialCanRead B h
      in if ready then Some h1 else ia32_SerialWaitForInput B ArchPause (ArchPause h1))"

definition ia32_SerialPut :: "'h bus \<Rightarrow> char \<Rightarrow> 'h \<Rightarrow> 'h option" where
  "ia32_SerialPut B c h =
     Option.bind (ia32_SerialWaitForTransmit B h) (\<lambda>h1. Some (outb B SERIAL_PORT (byte_of c) h1))"

definition ia32_SerialRead :: "'h bus \<Rightarrow> ('h \<Rightarrow> 'h) \<Rightarrow> 'h \<Rightarrow> (char \<times> 'h) option" where
  "ia32_SerialRead B ArchPause h =
     Option.bind (ia32_SerialWaitForInput B ArchPause h) (\<lambda>h1.
       let (v, h2) = inb B SERIAL_PORT h1 in Some (char_of_byte v, h2))"

section \<open>riscv\<close>

text \<open>
  Registers at addresses of width \<open>'a\<close>: \<^verbatim>\<open>inb\<close> and \<^verbatim>\<open>outb\<close> of
  \<^verbatim>\<open>src/riscv/io.h\<close> are byte loads and stores there.
\<close>

record ('a, 'h) mmio =
  load8 :: "'a \<Rightarrow> 'h \<Rightarrow> u8 \<times> 'h"
  store8 :: "'a \<Rightarrow> u8 \<Rightarrow> 'h \<Rightarrow> 'h"
  load32 :: "'a \<Rightarrow> 'h \<Rightarrow> u32 \<times> 'h"
  store32 :: "'a \<Rightarrow> u32 \<Rightarrow> 'h \<Rightarrow> 'h"

definition riscv_inb :: "(u64, 'h) mmio \<Rightarrow> u64 \<Rightarrow> 'h \<Rightarrow> u8 \<times> 'h" where
  "riscv_inb M port h = load8 M port h"

definition riscv_outb :: "(u64, 'h) mmio \<Rightarrow> u64 \<Rightarrow> u8 \<Rightarrow> 'h \<Rightarrow> 'h" where
  "riscv_outb M port v h = store8 M port v h"

definition UART_PORT :: u64 where "UART_PORT = 0x10000000"
definition UART_IER :: u64 where "UART_IER = UART_PORT + 1"
definition UART_LCR :: u64 where "UART_LCR = UART_PORT + 3"
definition UART_LSR :: u64 where "UART_LSR = UART_PORT + 5"
definition UART_MCR :: u64 where "UART_MCR = UART_PORT + 4"

definition riscv_SerialInit :: "(u64, 'h) mmio \<Rightarrow> 'h \<Rightarrow> 'h" where
  "riscv_SerialInit M h =
     (let h1 = riscv_outb M UART_IER 0x00 h;
          h2 = riscv_outb M UART_LCR 0x80 h1;
          h3 = riscv_outb M UART_PORT 0x03 h2;
          h4 = riscv_outb M UART_IER 0x00 h3;
          h5 = riscv_outb M UART_LCR 0x03 h4;
          h6 = riscv_outb M (UART_PORT + 2) 0xC7 h5
      in riscv_outb M UART_MCR 0x0B h6)"

partial_function (option) riscv_SerialWaitForTransmit :: "(u64, 'h) mmio \<Rightarrow> 'h \<Rightarrow> 'h option" where
  "riscv_SerialWaitForTransmit M h =
     (let (v, h1) = riscv_inb M UART_LSR h
      in if v AND 0x20 = 0 then riscv_SerialWaitForTransmit M h1 else Some h1)"

definition riscv_SerialCanRead :: "(u64, 'h) mmio \<Rightarrow> 'h \<Rightarrow> bool \<times> 'h" where
  "riscv_SerialCanRead M h = (let (v, h1) = riscv_inb M (UART_PORT + 5) h in (v AND 0x01 \<noteq> 0, h1))"

partial_function (option) riscv_SerialWaitForInput :: "(u64, 'h) mmio \<Rightarrow> 'h \<Rightarrow> 'h option" where
  "riscv_SerialWaitForInput M h =
     (let (ready, h1) = riscv_SerialCanRead M h in if ready then Some h1 else riscv_SerialWaitForInput M h1)"

definition riscv_SerialPut :: "(u64, 'h) mmio \<Rightarrow> char \<Rightarrow> 'h \<Rightarrow> 'h option" where
  "riscv_SerialPut M c h =
     Option.bind (riscv_SerialWaitForTransmit M h) (\<lambda>h1. Some (riscv_outb M UART_PORT (byte_of c) h1))"

definition riscv_SerialRead :: "(u64, 'h) mmio \<Rightarrow> 'h \<Rightarrow> (char \<times> 'h) option" where
  "riscv_SerialRead M h =
     Option.bind (riscv_SerialWaitForInput M h) (\<lambda>h1.
       let (v, h2) = riscv_inb M UART_PORT h1 in Some (char_of_byte v, h2))"

section \<open>arm32\<close>

definition PL011_BASE :: u32 where "PL011_BASE = 0x1c090000"
definition PL011_DR :: u32 where "PL011_DR = PL011_BASE + 0x00"
definition PL011_FR :: u32 where "PL011_FR = PL011_BASE + 0x18"
definition PL011_IBRD :: u32 where "PL011_IBRD = PL011_BASE + 0x24"
definition PL011_FBRD :: u32 where "PL011_FBRD = PL011_BASE + 0x28"
definition PL011_LCR_H :: u32 where "PL011_LCR_H = PL011_BASE + 0x2C"
definition PL011_CR :: u32 where "PL011_CR = PL011_BASE + 0x30"
definition PL011_IMSC :: u32 where "PL011_IMSC = PL011_BASE + 0x38"
definition PL011_FR_TXFF :: u32 where "PL011_FR_TXFF = push_bit 5 1"
definition PL011_FR_RXFE :: u32 where "PL011_FR_RXFE = push_bit 4 1"

definition arm32_SerialInit :: "(u32, 'h) mmio \<Rightarrow> 'h \<Rightarrow> 'h" where
  "arm32_SerialInit M h =
     (let h1 = store32 M PL011_CR 0x00 h;
          h2 = store32 M PL011_IBRD 26 h1;
          h3 = store32 M PL011_FBRD 3 h2;
          h4 = store32 M PL011_LCR_H (push_bit 5 0x3 OR push_bit 4 1) h3;
          h5 = store32 M PL011_IMSC 0x00 h4
      in store32 M PL011_CR (push_bit 0 1 OR push_bit 8 1 OR push_bit 9 1) h5)"

partial_function (option) arm32_SerialWaitForTransmit :: "(u32, 'h) mmio \<Rightarrow> 'h \<Rightarrow> 'h option" where
  "arm32_SerialWaitForTransmit M h =
     (let (v, h1) = load32 M PL011_FR h
      in if v AND PL011_FR_TXFF \<noteq> 0 then arm32_SerialWaitForTransmit M h1 else Some h1)"

definition arm32_SerialCanRead :: "(u32, 'h) mmio \<Rightarrow> 'h \<Rightarrow> bool \<times> 'h" where
  "arm32_SerialCanRead M h = (let (v, h1) = load32 M PL011_FR h in (v AND PL011_FR_RXFE = 0, h1))"

partial_function (option) arm32_SerialWaitForInput :: "(u32, 'h) mmio \<Rightarrow> 'h \<Rightarrow> 'h option" where
  "arm32_SerialWaitForInput M h =
     (let (ready, h1) = arm32_SerialCanRead M h in if ready then Some h1 else arm32_SerialWaitForInput M h1)"

text \<open>\<^verbatim>\<open>char\<close> is unsigned on ARM.\<close>

definition arm32_SerialPut :: "(u32, 'h) mmio \<Rightarrow> char \<Rightarrow> 'h \<Rightarrow> 'h option" where
  "arm32_SerialPut M c h =
     Option.bind (arm32_SerialWaitForTransmit M h) (\<lambda>h1. Some (store32 M PL011_DR (ucast (byte_of c)) h1))"

definition arm32_SerialRead :: "(u32, 'h) mmio \<Rightarrow> 'h \<Rightarrow> (char \<times> 'h) option" where
  "arm32_SerialRead M h =
     Option.bind (arm32_SerialWaitForInput M h) (\<lambda>h1.
       let (v, h2) = load32 M PL011_DR h1 in Some (char_of_byte (ucast (v AND 0xFF)), h2))"

section \<open>One line, three architectures\<close>

lemma amd64_waits:
  fixes st :: "'h console"
  assumes "SerialWaitForTransmit B st = Some st'"
  shows "ia32_SerialWaitForTransmit B (hw st) = Some (hw st') \<and> st' = st\<lparr>hw := hw st'\<rparr>"
proof (rule SerialWaitForTransmit.raw_induct [where P = "\<lambda>B st st'.
    ia32_SerialWaitForTransmit B (hw st) = Some (hw st') \<and> st' = st\<lparr>hw := hw st'\<rparr>", OF _ assms])
  fix f and B :: "'h bus" and st st' :: "'h console"
  assume ih: "\<And>B st st'. f B st = Some st' \<Longrightarrow> ia32_SerialWaitForTransmit B (hw st) = Some (hw st') \<and> st' = st\<lparr>hw := hw st'\<rparr>"
    and body: "(let (v, st1) = port_in B SERIAL_LSR st in if v AND 0x20 = 0 then f B st1 else Some st1) = Some st'"
  obtain v h where i: "inb B SERIAL_LSR (hw st) = (v, h)" by force
  show "ia32_SerialWaitForTransmit B (hw st) = Some (hw st') \<and> st' = st\<lparr>hw := hw st'\<rparr>"
  proof (cases "v AND 0x20 = 0")
    case True
    with ih [of B "st\<lparr>hw := h\<rparr>" st'] body i
    have "ia32_SerialWaitForTransmit B h = Some (hw st')" "st' = st\<lparr>hw := hw st'\<rparr>" by (auto simp: port_in_def)
    then show ?thesis using i True by (subst ia32_SerialWaitForTransmit.simps) simp
  next
    case False
    then show ?thesis using body i by (subst ia32_SerialWaitForTransmit.simps) (auto simp: port_in_def)
  qed
qed

lemma ia32_waits:
  fixes st :: "'h console"
  assumes "ia32_SerialWaitForTransmit B h = Some h'"
  shows "SerialWaitForTransmit B (st\<lparr>hw := h\<rparr>) = Some (st\<lparr>hw := h'\<rparr>)"
proof (rule ia32_SerialWaitForTransmit.raw_induct [where P = "\<lambda>B h h'.
    SerialWaitForTransmit B (st\<lparr>hw := h\<rparr>) = Some (st\<lparr>hw := h'\<rparr>)", OF _ assms])
  fix f and B :: "'h bus" and h h'
  assume ih: "\<And>B h h'. f B h = Some h' \<Longrightarrow> SerialWaitForTransmit B (st\<lparr>hw := h\<rparr>) = Some (st\<lparr>hw := h'\<rparr>)"
    and body: "(let (v, h1) = inb B SERIAL_LSR h in if v AND 0x20 = 0 then f B h1 else Some h1) = Some h'"
  obtain v h1 where i: "inb B SERIAL_LSR h = (v, h1)" by force
  with ih body show "SerialWaitForTransmit B (st\<lparr>hw := h\<rparr>) = Some (st\<lparr>hw := h'\<rparr>)"
    by (subst SerialWaitForTransmit.simps) (auto simp: port_in_def split: if_splits)
qed

text \<open>
  \<^verbatim>\<open>SerialPut\<close> of amd64 is the one of ia32 on the same ports, with the character on
  the screen beside it: both send the same byte after the same wait, and neither returns where the other does not.
\<close>

theorem SerialPut_amd64_ia32:
  "SerialPut B c st = map_option (\<lambda>h. (VGAPutCharacter c st)\<lparr>hw := h\<rparr>) (ia32_SerialPut B c (hw st))"
proof (cases "ia32_SerialWaitForTransmit B (hw st)")
  case None
  then have "SerialWaitForTransmit B st = None"
    using amd64_waits [of B st] by (cases "SerialWaitForTransmit B st") auto
  then show ?thesis using None by (simp add: SerialPut_def ia32_SerialPut_def)
next
  case (Some h)
  with ia32_waits [of B "hw st" h st] have "SerialWaitForTransmit B st = Some (st\<lparr>hw := h\<rparr>)" by simp
  then show ?thesis using Some by (simp add: SerialPut_def ia32_SerialPut_def port_out_def)
qed

text \<open>The registers of riscv as ports: port \<^verbatim>\<open>0x3F8\<close> is the first of them.\<close>

definition uart_ports :: "(u64, 'h) mmio \<Rightarrow> 'h bus" where
  "uart_ports M = \<lparr>
     inb = (\<lambda>p. load8 M (UART_PORT + ucast (p - SERIAL_PORT))), outb = (\<lambda>p. store8 M (UART_PORT + ucast (p - SERIAL_PORT))),
     inw = (\<lambda>p h. (0, h)), outw = (\<lambda>p v h. h), inl = (\<lambda>p h. (0, h)), outl = (\<lambda>p v h. h), delay = (\<lambda>n h. h)\<rparr>"

lemma uart_registers:
  "inb (uart_ports M) SERIAL_LSR = riscv_inb M UART_LSR" "inb (uart_ports M) (SERIAL_PORT + 5) = riscv_inb M (UART_PORT + 5)"
  "inb (uart_ports M) SERIAL_PORT = riscv_inb M UART_PORT" "outb (uart_ports M) SERIAL_PORT = riscv_outb M UART_PORT"
  "outb (uart_ports M) SERIAL_IER = riscv_outb M UART_IER" "outb (uart_ports M) SERIAL_LCR = riscv_outb M UART_LCR"
  "outb (uart_ports M) SERIAL_MCR = riscv_outb M UART_MCR" "outb (uart_ports M) (SERIAL_PORT + 2) = riscv_outb M (UART_PORT + 2)"
  by (simp_all add: uart_ports_def riscv_inb_def riscv_outb_def SERIAL_LSR_def SERIAL_PORT_def SERIAL_IER_def SERIAL_LCR_def
      SERIAL_MCR_def UART_LSR_def UART_PORT_def UART_IER_def UART_LCR_def UART_MCR_def fun_eq_iff)

lemma riscv_waits: "riscv_SerialWaitForTransmit M h = ia32_SerialWaitForTransmit (uart_ports M) h"
proof -
  have l: "ia32_SerialWaitForTransmit (uart_ports M) h = Some h'" if "riscv_SerialWaitForTransmit M h = Some h'" for h'
  proof (rule riscv_SerialWaitForTransmit.raw_induct [where P = "\<lambda>M h h'.
      ia32_SerialWaitForTransmit (uart_ports M) h = Some h'", OF _ that])
    fix f and M :: "(u64, 'h) mmio" and h h'
    assume "\<And>M h h'. f M h = Some h' \<Longrightarrow> ia32_SerialWaitForTransmit (uart_ports M) h = Some h'"
      "(let (v, h1) = riscv_inb M UART_LSR h in if v AND 0x20 = 0 then f M h1 else Some h1) = Some h'"
    then show "ia32_SerialWaitForTransmit (uart_ports M) h = Some h'"
      by (subst ia32_SerialWaitForTransmit.simps) (auto simp: uart_registers split: if_splits prod.splits)
  qed
  have r: "\<forall>N. uart_ports M = uart_ports N \<longrightarrow> riscv_SerialWaitForTransmit N h = Some h'"
    if "ia32_SerialWaitForTransmit (uart_ports M) h = Some h'" for h'
  proof (rule ia32_SerialWaitForTransmit.raw_induct [where P = "\<lambda>B h h'.
      \<forall>N. B = uart_ports N \<longrightarrow> riscv_SerialWaitForTransmit N h = Some h'", OF _ that])
    fix f and B :: "'h bus" and h h'
    assume ih: "\<And>B h h'. f B h = Some h' \<Longrightarrow> \<forall>N. B = uart_ports N \<longrightarrow> riscv_SerialWaitForTransmit N h = Some h'"
      and body: "(let (v, h1) = inb B SERIAL_LSR h in if v AND 0x20 = 0 then f B h1 else Some h1) = Some h'"
    show "\<forall>N. B = uart_ports N \<longrightarrow> riscv_SerialWaitForTransmit N h = Some h'"
    proof (intro allI impI)
      fix N :: "(u64, 'h) mmio" assume "B = uart_ports N"
      with ih body show "riscv_SerialWaitForTransmit N h = Some h'"
        by (subst riscv_SerialWaitForTransmit.simps) (auto simp: uart_registers split: if_splits prod.splits)
    qed
  qed
  show ?thesis using l r by (metis not_None_eq)
qed

text \<open>
  The serial line of riscv is the one of ia32 at other addresses: initialised with the same
  values in the same order and waited for in the same way.
\<close>

theorem riscv_serial_is_ia32:
  "riscv_SerialInit M h = ia32_SerialInit (uart_ports M) h \<and> riscv_SerialPut M c h = ia32_SerialPut (uart_ports M) c h \<and>
     riscv_SerialCanRead M h = ia32_SerialCanRead (uart_ports M) h"
  by (simp add: riscv_SerialInit_def ia32_SerialInit_def riscv_SerialPut_def ia32_SerialPut_def riscv_waits
      riscv_SerialCanRead_def ia32_SerialCanRead_def uart_registers)

section \<open>The PL011\<close>

text \<open>\<open>full\<close> is how many looks at the flags find the transmitter full.\<close>

locale pl011 =
  fixes M :: "(u32, 'h) mmio"
    and full :: "'h \<Rightarrow> nat"
    and line_out :: "'h \<Rightarrow> u8 list"
    and line_in :: "'h \<Rightarrow> u8 list"
  assumes flags: "\<exists>v h'. load32 M 0x1c090018 h = (v, h') \<and> bit v 5 = (full h \<noteq> 0) \<and> bit v 4 = (line_in h = []) \<and>
      full h' = full h - 1 \<and> line_out h' = line_out h \<and> line_in h' = line_in h"
    and data_in: "line_in h = b # bs \<Longrightarrow>
      \<exists>v h'. load32 M 0x1c090000 h = (v, h') \<and> take_bit 8 v = ucast b \<and> line_in h' = bs \<and> line_out h' = line_out h"
    and data_out: "full h = 0 \<Longrightarrow> line_out (store32 M 0x1c090000 v h) = line_out h @ [ucast v] \<and>
      line_in (store32 M 0x1c090000 v h) = line_in h"

lemma pl011_flags: "(v AND PL011_FR_TXFF = 0) = (\<not> bit v 5)" "(v AND PL011_FR_RXFE = 0) = (\<not> bit v 4)"
proof -
  have p: "PL011_FR_TXFF = 2 ^ 5" "PL011_FR_RXFE = 2 ^ 4" by (simp_all add: PL011_FR_TXFF_def PL011_FR_RXFE_def push_bit_eq_mult)
  show "(v AND PL011_FR_TXFF = 0) = (\<not> bit v 5)" "(v AND PL011_FR_RXFE = 0) = (\<not> bit v 4)"
    by (simp_all only: p and_exp_eq_0_iff_not_bit)
qed

lemma ucast_u8_u32 [simp]: "ucast (ucast b :: u32) = (b :: u8)"
  by (rule bit_word_eqI) (auto simp: bit_unsigned_iff)

lemma pl011_registers: "PL011_FR = 0x1c090018" "PL011_DR = 0x1c090000"
  by (simp_all add: PL011_FR_def PL011_DR_def PL011_BASE_def)

context pl011
begin

lemma pl011_waited:
  "\<exists>h'. arm32_SerialWaitForTransmit M h = Some h' \<and> full h' = 0 \<and> line_out h' = line_out h \<and> line_in h' = line_in h"
proof (induction "full h" arbitrary: h)
  case 0
  then show ?case using flags [of h] by (subst arm32_SerialWaitForTransmit.simps) (auto simp: pl011_registers pl011_flags)
next
  case (Suc n)
  obtain v h1 where h1: "load32 M 0x1c090018 h = (v, h1)" "bit v 5" "full h1 = n" "line_out h1 = line_out h" "line_in h1 = line_in h"
    using flags [of h] Suc.hyps(2) [symmetric] by auto
  with Suc.hyps(1) [of h1] show ?case
    by (subst arm32_SerialWaitForTransmit.simps) (auto simp: pl011_registers pl011_flags)
qed

lemma pl011_put:
  "\<exists>h'. arm32_SerialPut M c h = Some h' \<and> line_out h' = line_out h @ [byte_of c] \<and> line_in h' = line_in h"
proof -
  obtain h1 where "arm32_SerialWaitForTransmit M h = Some h1" "full h1 = 0" "line_out h1 = line_out h" "line_in h1 = line_in h"
    using pl011_waited [of h] by blast
  with data_out [of h1 "ucast (byte_of c)"] show ?thesis by (simp add: arm32_SerialPut_def pl011_registers)
qed

lemma pl011_read:
  assumes "line_in h = b # bs"
  shows "\<exists>h'. arm32_SerialRead M h = Some (char_of_byte b, h') \<and> line_in h' = bs \<and> line_out h' = line_out h"
proof -
  obtain v h1 where 1: "load32 M 0x1c090018 h = (v, h1)" "\<not> bit v 4" "line_in h1 = b # bs" "line_out h1 = line_out h"
    using flags [of h] assms by auto
  obtain w h2 where 2: "load32 M 0x1c090000 h1 = (w, h2)" "take_bit 8 w = ucast b" "line_in h2 = bs" "line_out h2 = line_out h1"
    using data_in [OF 1(3)] by blast
  have m: "w AND 0xFF = take_bit 8 w" by (simp add: take_bit_eq_mask mask_eq_exp_minus_1)
  have "(ucast (ucast b :: u32) :: u8) = b" by simp
  then have u: "(ucast (w AND 0xFF) :: u8) = b" by (simp only: m 2(2))
  have "arm32_SerialWaitForInput M h = Some h1"
    using 1 by (subst arm32_SerialWaitForInput.simps) (simp add: arm32_SerialCanRead_def pl011_registers pl011_flags)
  then show ?thesis using 1 2 u by (simp add: arm32_SerialRead_def pl011_registers)
qed

end

sublocale pl011 \<subseteq> arm: serial_port "arm32_SerialPut M" "\<lambda>h. True" "\<lambda>h. map char_of_byte (line_out h)"
proof
  fix h and c
  show "\<exists>h'. arm32_SerialPut M c h = Some h' \<and> True \<and> map char_of_byte (line_out h') = map char_of_byte (line_out h) @ [c]"
    using pl011_put [of c h] by auto
qed

text \<open>A transmitter that is full for two looks after every byte.\<close>

type_synonym uart = "nat \<times> u8 list \<times> u8 list"

definition virt_uart :: "(u32, uart) mmio" where
  "virt_uart = \<lparr>
     load8 = (\<lambda>a h. (0, h)), store8 = (\<lambda>a v h. h),
     load32 = (\<lambda>a (n, out, inn).
       if a = 0x1c090018 then (of_bool (n \<noteq> 0) * 0x20 + of_bool (inn = []) * 0x10, (n - 1, out, inn))
       else if a = 0x1c090000 then (ucast (hd (inn @ [0])), (n, out, tl inn))
       else (0, (n, out, inn))),
     store32 = (\<lambda>a v (n, out, inn). if a = 0x1c090000 then (2, out @ [ucast v], inn) else (n, out, inn))\<rparr>"

interpretation virt: pl011 virt_uart fst "\<lambda>h. fst (snd h)" "\<lambda>h. snd (snd h)"
proof unfold_locales
  have p: "bit v 5 = (v AND PL011_FR_TXFF \<noteq> 0)" "bit v 4 = (v AND PL011_FR_RXFE \<noteq> 0)" for v using pl011_flags by blast+
  have b: "bit (0x20 :: u32) 5" "\<not> bit (0x20 :: u32) 4" "bit (0x30 :: u32) 5" "bit (0x30 :: u32) 4"
    "\<not> bit (0x10 :: u32) 5" "bit (0x10 :: u32) 4"
    unfolding p by (simp_all add: PL011_FR_TXFF_def PL011_FR_RXFE_def push_bit_eq_mult)
  fix h :: uart and b :: u8 and bs and v
  obtain n out inn where h: "h = (n, out, inn)" by (metis surj_pair)
  show "\<exists>v h'. load32 virt_uart 0x1c090018 h = (v, h') \<and> bit v 5 = (fst h \<noteq> 0) \<and> bit v 4 = (snd (snd h) = []) \<and>
      fst h' = fst h - 1 \<and> fst (snd h') = fst (snd h) \<and> snd (snd h') = snd (snd h)"
    using b by (cases n; cases inn) (simp_all add: h virt_uart_def)
  have t: "take_bit 8 (ucast b :: u32) = ucast b"
  proof (rule bit_word_eqI)
    fix k
    have "bit b k \<Longrightarrow> k < 8" using bit_imp_le_length [of b k] by simp
    then show "bit (take_bit 8 (ucast b :: u32)) k = bit (ucast b :: u32) k" by (auto simp: bit_take_bit_iff bit_unsigned_iff)
  qed
  show "snd (snd h) = b # bs \<Longrightarrow> \<exists>v h'. load32 virt_uart 0x1c090000 h = (v, h') \<and> take_bit 8 v = ucast b \<and>
      snd (snd h') = bs \<and> fst (snd h') = fst (snd h)"
    using t by (simp add: h virt_uart_def)
  show "fst h = 0 \<Longrightarrow> fst (snd (store32 virt_uart 0x1c090000 v h)) = fst (snd h) @ [ucast v] \<and>
      snd (snd (store32 virt_uart 0x1c090000 v h)) = snd (snd h)"
    by (simp add: h virt_uart_def)
qed

text \<open>
  On arm32 \<^verbatim>\<open>SerialPrint\<close> sends exactly the bytes of its text however long the
  transmitter stays full, and loses no byte received meanwhile: \<^verbatim>\<open>SerialRead\<close> then
  returns the first of them.
\<close>

theorem arm32_print_then_read:
  assumes "pl011 M full line_out line_in" "render fmt args = Some t" "line_in h = b # bs"
  shows "\<exists>h1 h2. SerialPrint (arm32_SerialPut M) fmt args h = Some (Inr h1) \<and> line_out h1 = line_out h @ map byte_of t \<and>
     arm32_SerialRead M h1 = Some (char_of_byte b, h2) \<and> line_in h2 = bs \<and> line_out h2 = line_out h1"
proof -
  have "\<exists>h1. put_string (arm32_SerialPut M) t h = Some h1 \<and> line_out h1 = line_out h @ map byte_of t \<and> line_in h1 = line_in h"
  proof (induction t arbitrary: h)
    case (Cons c t)
    obtain h1 where "arm32_SerialPut M c h = Some h1" "line_out h1 = line_out h @ [byte_of c]" "line_in h1 = line_in h"
      using pl011.pl011_put [OF assms(1), of c h] by blast
    with Cons.IH [of h1] show ?case by auto
  qed simp
  then obtain h1 where h1: "put_string (arm32_SerialPut M) t h = Some h1" "line_out h1 = line_out h @ map byte_of t" "line_in h1 = b # bs"
    using assms(3) by auto
  from pl011.pl011_read [OF assms(1) h1(3)] h1 assms(2) show ?thesis
    by (auto simp: SerialPrint_def print_loop_text)
qed

theorem arm32_print_then_read_witness:
  "\<exists>h1 h2. SerialPrint (arm32_SerialPut virt_uart) (''%x'' @ [NUL]) [VaInt 0xAB] (2, [], [0x79]) = Some (Inr h1) \<and>
     fst (snd h1) = [0x61, 0x62] \<and> arm32_SerialRead virt_uart h1 = Some (CHR ''y'', h2)"
proof -
  have "num_text 16 171 = ''ab''" by (simp add: num_text.simps [of 16] hex_digits_def)
  then have r: "render (''%x'' @ [NUL]) [VaInt 0xAB] = Some ''ab''" by (simp add: directive_text_def)
  have c: "char_of_byte 0x79 = CHR ''y''" "map byte_of ''ab'' = [0x61, 0x62]"
    by (simp_all add: char_of_byte_def char_of_def bit_iff_odd byte_of_def)
  show ?thesis
    using arm32_print_then_read [OF virt.pl011_axioms r, of "(2, [], [0x79])" "0x79" "[]"] unfolding c by auto
qed

end
