(* ===== verification/Boards.thy ===== *)
theory Boards
  imports Serials
begin

text \<open>
  \<^verbatim>\<open>arch.c\<close> and \<^verbatim>\<open>sched/trap.h\<close> of arm32 and riscv, and
  \<^verbatim>\<open>EnableNextProcess\<close> of all four architectures: how the timer's interrupt is set up, let
  through and acknowledged. Device registers are reached through the records of \<open>Serials\<close> and
  \<open>Ports\<close>; \<open>virt_gic\<close> is the documented behaviour of the interrupt controller and the timer.
\<close>

section \<open>arm32\<close>

definition GIC_DIST_BASE :: u32 where "GIC_DIST_BASE = 0x2C001000"
definition GIC_CPU_BASE :: u32 where "GIC_CPU_BASE = 0x2C002000"
definition GICD_CTLR :: u32 where "GICD_CTLR = GIC_DIST_BASE + 0x000"
definition GICD_ISENABLER1 :: u32 where "GICD_ISENABLER1 = GIC_DIST_BASE + 0x104"
definition GICC_CTLR :: u32 where "GICC_CTLR = GIC_CPU_BASE + 0x000"
definition GICC_PMR :: u32 where "GICC_PMR = GIC_CPU_BASE + 0x004"
definition GICC_IAR :: u32 where "GICC_IAR = GIC_CPU_BASE + 0x00C"
definition GICC_EOIR :: u32 where "GICC_EOIR = GIC_CPU_BASE + 0x010"
definition TIMER_BASE :: u32 where "TIMER_BASE = 0x10011000"
definition TIMER_LOAD :: u32 where "TIMER_LOAD = TIMER_BASE + 0x00"
definition TIMER_CTRL :: u32 where "TIMER_CTRL = TIMER_BASE + 0x08"
definition TIMER_INTCLR :: u32 where "TIMER_INTCLR = TIMER_BASE + 0x0C"

lemmas gic_registers = GIC_DIST_BASE_def GIC_CPU_BASE_def GICD_CTLR_def GICD_ISENABLER1_def GICC_CTLR_def GICC_PMR_def
  GICC_IAR_def GICC_EOIR_def TIMER_BASE_def TIMER_LOAD_def TIMER_CTRL_def TIMER_INTCLR_def

definition InitGIC :: "(u32, 'h) mmio \<Rightarrow> 'h \<Rightarrow> 'h" where
  "InitGIC M h =
     (let h1 = store32 M GICD_CTLR 1 h;
          (v, h2) = load32 M GICD_ISENABLER1 h1;
          h3 = store32 M GICD_ISENABLER1 (v OR push_bit (34 - 32) 1) h2;
          h4 = store32 M GICC_PMR 0xFF h3
      in store32 M GICC_CTLR 1 h4)"

definition InitTimer :: "(u32, 'h) mmio \<Rightarrow> 'h \<Rightarrow> 'h" where
  "InitTimer M h =
     (let h1 = InitGIC M (InitGIC M h);
          h2 = store32 M TIMER_LOAD 1000000 h1
      in store32 M TIMER_CTRL (push_bit 7 1 OR push_bit 6 1 OR push_bit 5 1 OR push_bit 1 1) h2)"

text \<open>The processor: the address of the vectors and the mask of interrupts.\<close>

record 'h arm =
  adev :: 'h
  vbar :: u32
  irq_masked :: bool

definition arm32_InitTraps :: "u32 \<Rightarrow> 'h arm \<Rightarrow> 'h arm" where
  "arm32_InitTraps TrapVector s = s\<lparr>vbar := TrapVector, irq_masked := False\<rparr>"

definition arm32_ArchInitialise :: "(u32, 'h) mmio \<Rightarrow> u32 \<Rightarrow> u32 \<Rightarrow> u32 \<Rightarrow> 'h arm \<Rightarrow> 'h arm" where
  "arm32_ArchInitialise M TrapVector a b s =
     (let s1 = arm32_InitTraps TrapVector s in s1\<lparr>adev := InitTimer M (adev s1)\<rparr>)"

definition arm32_LoadModules :: "u32 \<Rightarrow> u32 \<Rightarrow> 'h arm \<Rightarrow> 'h arm" where "arm32_LoadModules a b s = s"
definition arm32_ArchCli :: "'h arm \<Rightarrow> 'h arm" where "arm32_ArchCli s = s\<lparr>irq_masked := True\<rparr>"
definition arm32_ArchSti :: "'h arm \<Rightarrow> 'h arm" where "arm32_ArchSti s = s\<lparr>irq_masked := False\<rparr>"

definition arm32_ArchIdentify :: string where
  "arm32_ArchIdentify = '' [Info] ISA: Arm32,Arm/v7, CPU: cortex-a15'' @ [CHR 0x0A, NUL]"

definition arm32_EnableNextProcess :: "(u32, 'h) mmio \<Rightarrow> 'h \<Rightarrow> 'h" where
  "arm32_EnableNextProcess M h =
     (let h1 = store32 M TIMER_INTCLR 1 h; (irq, h2) = load32 M GICC_IAR h1 in store32 M GICC_EOIR irq h2)"

section \<open>riscv\<close>

text \<open>Doubleword accesses to devices, and the control registers the code uses.\<close>

record 'h mmio64 =
  load_d :: "u64 \<Rightarrow> 'h \<Rightarrow> u64 \<times> 'h"
  store_d :: "u64 \<Rightarrow> u64 \<Rightarrow> 'h \<Rightarrow> 'h"

record riscv =
  mtvec :: u64
  mie :: u64
  mstatus :: u64

definition riscv_InitTraps :: "u64 \<Rightarrow> riscv \<Rightarrow> riscv" where
  "riscv_InitTraps TrapVector s = s\<lparr>mtvec := TrapVector\<rparr>"

definition riscv_ArchInitialise :: "u64 \<Rightarrow> u32 \<Rightarrow> u32 \<Rightarrow> riscv \<Rightarrow> riscv" where
  "riscv_ArchInitialise TrapVector a b s = riscv_InitTraps TrapVector s"

definition riscv_LoadModules :: "u32 \<Rightarrow> u32 \<Rightarrow> riscv \<Rightarrow> riscv" where "riscv_LoadModules a b s = s"

definition riscv_ArchIdentify :: string where
  "riscv_ArchIdentify = '' [Info] ISA: RISCV, CPU: Generic'' @ [CHR 0x0A, NUL]"

definition riscv_ArchCli :: "riscv \<Rightarrow> riscv" where
  "riscv_ArchCli s = s\<lparr>mie := mie s AND NOT (push_bit 7 1), mstatus := mstatus s AND NOT 0x8\<rparr>"

definition riscv_ArchSti :: "riscv \<Rightarrow> riscv" where
  "riscv_ArchSti s = s\<lparr>mie := mie s OR push_bit 7 1, mstatus := mstatus s OR 0x8\<rparr>"

definition CLINT_BASE :: u64 where "CLINT_BASE = 0x02000000"
definition CLINT_MTIMECMP :: u64 where "CLINT_MTIMECMP = CLINT_BASE + 0x4000"
definition CLINT_MTIME :: u64 where "CLINT_MTIME = CLINT_BASE + 0xBFF8"
definition TIMER_INTERVAL :: u64 where "TIMER_INTERVAL = 800000"

definition riscv_EnableNextProcess :: "'h mmio64 \<Rightarrow> 'h \<Rightarrow> 'h" where
  "riscv_EnableNextProcess M h = (let (t, h1) = load_d M CLINT_MTIME h in store_d M CLINT_MTIMECMP (t + TIMER_INTERVAL) h1)"

section \<open>amd64 and ia32\<close>

definition amd64_EnableNextProcess :: "'h bus \<Rightarrow> 'h \<Rightarrow> 'h" where
  "amd64_EnableNextProcess B h = outb B 0x20 0x20 h"

definition ia32_EnableNextProcess :: "'h bus \<Rightarrow> 'h \<Rightarrow> 'h" where
  "ia32_EnableNextProcess B h = outb B 0x20 0x20 h"

section \<open>The interrupt of the arm32 timer\<close>

text \<open>
  A GIC of two blocks with the timer on line 34: reading \<^verbatim>\<open>IAR\<close> takes the pending interrupt, whose
  number or 1023 is the value, and writing its number to \<^verbatim>\<open>EOIR\<close> ends it; a 1 written to a set-enable
  register enables the line, a 0 does nothing.
\<close>

record gic =
  forwards :: bool
  enabled :: u32
  accepts :: bool
  priority_mask :: u32
  active :: "u32 option"
  timer_raised :: bool
  timer_load :: u32
  timer_control :: u32

definition gic_pending :: "gic \<Rightarrow> bool" where
  "gic_pending g \<longleftrightarrow> timer_raised g \<and> forwards g \<and> accepts g \<and> bit (enabled g) 2 \<and> active g = None"

definition virt_gic :: "(u32, gic) mmio" where
  "virt_gic = \<lparr>
     load8 = (\<lambda>a g. (0, g)), store8 = (\<lambda>a v g. g),
     load32 = (\<lambda>a g.
       if a = 0x2C001104 then (enabled g, g)
       else if a = 0x2C00200C then
         if gic_pending g then (34, g\<lparr>active := Some 34\<rparr>) else (1023, g)
       else (0, g)),
     store32 = (\<lambda>a v g.
       if a = 0x2C001000 then g\<lparr>forwards := bit v 0\<rparr>
       else if a = 0x2C001104 then g\<lparr>enabled := enabled g OR v\<rparr>
       else if a = 0x2C002000 then g\<lparr>accepts := bit v 0\<rparr>
       else if a = 0x2C002004 then g\<lparr>priority_mask := v\<rparr>
       else if a = 0x2C002010 then (if active g = Some v then g\<lparr>active := None\<rparr> else g)
       else if a = 0x10011000 then g\<lparr>timer_load := v\<rparr>
       else if a = 0x10011008 then g\<lparr>timer_control := v\<rparr>
       else if a = 0x1001100C then g\<lparr>timer_raised := False\<rparr>
       else g)\<rparr>"

text \<open>
  After \<^verbatim>\<open>ArchInitialise\<close> of arm32 the timer's interrupt reaches the processor whenever the timer
  has raised it: it comes every million ticks, all priorities pass, and interrupts are let through at
  once, before \<^verbatim>\<open>kmain\<close> has made any process to switch to. The other lines stay as they were.
\<close>

theorem arm32_timer_interrupt:
  assumes "active (adev s) = None"
  shows "let s1 = arm32_ArchInitialise virt_gic TrapVector a b s; g = adev s1 in
     \<not> irq_masked s1 \<and> vbar s1 = TrapVector \<and> timer_load g = 1000000 \<and> timer_control g = 0xE2 \<and> priority_mask g = 0xFF \<and>
     gic_pending g = timer_raised (adev s) \<and> (\<forall>n. n \<noteq> 2 \<longrightarrow> bit (enabled g) n = bit (enabled (adev s)) n)"
proof -
  have "(4 :: u32) = push_bit 2 1" by (simp add: push_bit_eq_mult)
  then have four: "bit (4 :: u32) n \<longleftrightarrow> n = 2" for n by (simp only: bit_push_bit_iff bit_1_iff) auto
  show ?thesis
    using assms four
    by (simp add: arm32_ArchInitialise_def arm32_InitTraps_def InitTimer_def InitGIC_def virt_gic_def gic_registers Let_def
        gic_pending_def bit_or_iff)
qed

lemma arm32_acknowledged:
  "active g = None \<Longrightarrow> arm32_EnableNextProcess virt_gic g = g\<lparr>timer_raised := False\<rparr>"
  by (simp add: arm32_EnableNextProcess_def virt_gic_def gic_registers gic_pending_def Let_def)

section \<open>The interrupt of the riscv timer\<close>

definition riscv_timer_taken :: "riscv \<Rightarrow> bool" where
  "riscv_timer_taken s \<longleftrightarrow> bit (mie s) 7 \<and> bit (mstatus s) 3"

text \<open>\<^verbatim>\<open>ArchSti\<close> lets the timer through, \<^verbatim>\<open>ArchCli\<close> does not, and neither
  touches another bit.\<close>

lemma riscv_timer_switch:
  "riscv_timer_taken (riscv_ArchSti s)" "\<not> riscv_timer_taken (riscv_ArchCli s)"
  "n \<noteq> 7 \<Longrightarrow> bit (mie (riscv_ArchCli s)) n = bit (mie s) n \<and> bit (mie (riscv_ArchSti s)) n = bit (mie s) n"
  "n \<noteq> 3 \<Longrightarrow> bit (mstatus (riscv_ArchCli s)) n = bit (mstatus s) n \<and> bit (mstatus (riscv_ArchSti s)) n = bit (mstatus s) n"
proof -
  have seven: "bit (push_bit 7 1 :: u64) n \<longleftrightarrow> n = 7" for n by (simp only: bit_push_bit_iff bit_1_iff) auto
  have "(0x8 :: u64) = push_bit 3 1" by (simp add: push_bit_eq_mult)
  then have three: "bit (0x8 :: u64) n \<longleftrightarrow> n = 3" for n by (simp only: bit_push_bit_iff bit_1_iff) auto
  have w: "bit (NOT v) n \<longleftrightarrow> n < 64 \<and> \<not> bit v n" for v :: u64 and n by (simp add: bit_not_iff)
  have f: "mie (riscv_ArchSti s) = mie s OR push_bit 7 1" "mstatus (riscv_ArchSti s) = mstatus s OR 0x8"
    "mie (riscv_ArchCli s) = mie s AND NOT (push_bit 7 1)" "mstatus (riscv_ArchCli s) = mstatus s AND NOT 0x8"
    by (simp_all add: riscv_ArchSti_def riscv_ArchCli_def)
  note bits = f bit_or_iff bit_and_iff w seven three
  show "riscv_timer_taken (riscv_ArchSti s)" "\<not> riscv_timer_taken (riscv_ArchCli s)"
    unfolding riscv_timer_taken_def bits by simp_all
  have l: "bit v n \<Longrightarrow> n < 64" for v :: u64 and n using bit_imp_le_length [of v n] by simp
  show "n \<noteq> 7 \<Longrightarrow> bit (mie (riscv_ArchCli s)) n = bit (mie s) n \<and> bit (mie (riscv_ArchSti s)) n = bit (mie s) n"
    unfolding bits using l by auto
  show "n \<noteq> 3 \<Longrightarrow> bit (mstatus (riscv_ArchCli s)) n = bit (mstatus s) n \<and> bit (mstatus (riscv_ArchSti s)) n = bit (mstatus s) n"
    unfolding bits using l by auto
qed

text \<open>A CLINT: the time, and the time from which on the interrupt is pending.\<close>

definition clint :: "(u64 \<times> u64) mmio64" where
  "clint = \<lparr>load_d = (\<lambda>a h. (if a = 0x0200BFF8 then fst h else snd h, h)),
     store_d = (\<lambda>a v h. if a = 0x02004000 then (fst h, v) else h)\<rparr>"

definition clint_pending :: "u64 \<times> u64 \<Rightarrow> bool" where
  "clint_pending h \<longleftrightarrow> snd h \<le> fst h"

text \<open>The next interrupt of the timer comes exactly \<^verbatim>\<open>TIMER_INTERVAL\<close> ticks after the last was
  acknowledged.\<close>

lemma riscv_next_interrupt:
  assumes "unat t + unat TIMER_INTERVAL < 2 ^ 64" "n \<le> unat TIMER_INTERVAL"
  shows "clint_pending (t + of_nat n, snd (riscv_EnableNextProcess clint (t, c))) \<longleftrightarrow> n = unat TIMER_INTERVAL"
proof -
  have e: "snd (riscv_EnableNextProcess clint (t, c)) = t + TIMER_INTERVAL"
    by (simp add: riscv_EnableNextProcess_def clint_def CLINT_MTIME_def CLINT_MTIMECMP_def CLINT_BASE_def)
  have i: "unat TIMER_INTERVAL = 800000" by (simp add: TIMER_INTERVAL_def)
  have u: "unat (t + of_nat k) = unat t + k" if "k \<le> 800000" for k
    using assms(1) that by (simp add: unat_word_ariths unat_of_nat i)
  have "TIMER_INTERVAL = of_nat 800000" by (simp add: TIMER_INTERVAL_def)
  then show ?thesis using u [of n] u [of 800000] assms(2) by (simp add: clint_pending_def e word_le_nat_alt i)
qed

end
