(* ===== verification/MmioPorts.thy ===== *)
theory MmioPorts
  imports Serials
begin

text \<open>
  \<^verbatim>\<open>io.h\<close> of ia32, riscv and arm32. The accessors of ia32 are the instructions of
  \<open>Ports\<close>; on the other two a port is an address of device memory, and the accesses of the record
  \<open>mmio\<close> are extended by those to halfwords. Pointers and counts are those of the byte memory.
\<close>

section \<open>ia32\<close>

definition ia32_insw :: "'h bus \<Rightarrow> u16 \<Rightarrow> addr \<Rightarrow> u32 \<Rightarrow> memory \<Rightarrow> 'h \<Rightarrow> memory \<times> 'h" where
  "ia32_insw B port a count m h = insw B port a (unat count) m h"

definition ia32_insl :: "'h bus \<Rightarrow> u16 \<Rightarrow> u32 \<Rightarrow> 'h \<Rightarrow> u8 list \<times> 'h" where
  "ia32_insl B port count h = insl B port (unat count) h"

definition ia32_outsw :: "'h bus \<Rightarrow> u16 \<Rightarrow> addr \<Rightarrow> u32 \<Rightarrow> memory \<Rightarrow> 'h \<Rightarrow> 'h" where
  "ia32_outsw B port a n m h = outsw B port a (unat n) m h"

section \<open>riscv\<close>

record 'h mmio16 = "(u64, 'h) mmio" +
  load16 :: "u64 \<Rightarrow> 'h \<Rightarrow> u16 \<times> 'h"
  store16 :: "u64 \<Rightarrow> u16 \<Rightarrow> 'h \<Rightarrow> 'h"

text \<open>\<^verbatim>\<open>lh\<close> extends the sign; the C code keeps all 64 bits.\<close>

definition riscv_inw :: "'h mmio16 \<Rightarrow> u64 \<Rightarrow> 'h \<Rightarrow> u64 \<times> 'h" where
  "riscv_inw M port h = (let (w, h1) = load16 M port h in (scast w, h1))"

definition riscv_outw :: "'h mmio16 \<Rightarrow> u64 \<Rightarrow> u64 \<Rightarrow> 'h \<Rightarrow> 'h" where
  "riscv_outw M port v h = store16 M port (ucast v) h"

definition riscv_inl :: "'h mmio16 \<Rightarrow> u64 \<Rightarrow> 'h \<Rightarrow> u32 \<times> 'h" where
  "riscv_inl M port h = load32 M port h"

definition riscv_outl :: "'h mmio16 \<Rightarrow> u64 \<Rightarrow> u32 \<Rightarrow> 'h \<Rightarrow> 'h" where
  "riscv_outl M port v h = store32 M port v h"

fun riscv_insl :: "'h mmio16 \<Rightarrow> u64 \<Rightarrow> addr \<Rightarrow> nat \<Rightarrow> memory \<Rightarrow> 'h \<Rightarrow> memory \<times> 'h" where
  "riscv_insl M port a 0 m h = (m, h)"
| "riscv_insl M port a (Suc n) m h =
     (let (w, h1) = riscv_inl M port h in riscv_insl M port (a + 4) n (store_bytes m a (le_split 4 w)) h1)"

fun riscv_insw :: "'h mmio16 \<Rightarrow> u64 \<Rightarrow> addr \<Rightarrow> nat \<Rightarrow> memory \<Rightarrow> 'h \<Rightarrow> memory \<times> 'h" where
  "riscv_insw M port a 0 m h = (m, h)"
| "riscv_insw M port a (Suc n) m h =
     (let (w, h1) = riscv_inw M port h in riscv_insw M port (a + 8) n (store_bytes m a (le_split 8 w)) h1)"

fun riscv_outsw :: "'h mmio16 \<Rightarrow> u64 \<Rightarrow> addr \<Rightarrow> nat \<Rightarrow> memory \<Rightarrow> 'h \<Rightarrow> 'h" where
  "riscv_outsw M port a 0 m h = h"
| "riscv_outsw M port a (Suc n) m h = riscv_outsw M port (a + 8) n m (riscv_outw M port (load64 m a) h)"

section \<open>arm32\<close>

text \<open>Every accessor is a load or store of a word, of which the narrow ones use the low part.\<close>

definition arm32_inb :: "(u32, 'h) mmio \<Rightarrow> u32 \<Rightarrow> 'h \<Rightarrow> u8 \<times> 'h" where
  "arm32_inb M port h = (let (w, h1) = load32 M port h in (ucast w, h1))"

definition arm32_outb :: "(u32, 'h) mmio \<Rightarrow> u32 \<Rightarrow> u8 \<Rightarrow> 'h \<Rightarrow> 'h" where
  "arm32_outb M port v h = store32 M port (ucast v) h"

definition arm32_inw :: "(u32, 'h) mmio \<Rightarrow> u32 \<Rightarrow> 'h \<Rightarrow> u16 \<times> 'h" where
  "arm32_inw M port h = (let (w, h1) = load32 M port h in (ucast w, h1))"

definition arm32_outw :: "(u32, 'h) mmio \<Rightarrow> u32 \<Rightarrow> u16 \<Rightarrow> 'h \<Rightarrow> 'h" where
  "arm32_outw M port v h = store32 M port (ucast v) h"

definition arm32_inl :: "(u32, 'h) mmio \<Rightarrow> u32 \<Rightarrow> 'h \<Rightarrow> u32 \<times> 'h" where
  "arm32_inl M port h = load32 M port h"

definition arm32_outl :: "(u32, 'h) mmio \<Rightarrow> u32 \<Rightarrow> u32 \<Rightarrow> 'h \<Rightarrow> 'h" where
  "arm32_outl M port v h = store32 M port v h"

fun arm32_insl :: "(u32, 'h) mmio \<Rightarrow> u32 \<Rightarrow> addr \<Rightarrow> nat \<Rightarrow> memory \<Rightarrow> 'h \<Rightarrow> memory \<times> 'h" where
  "arm32_insl M port a 0 m h = (m, h)"
| "arm32_insl M port a (Suc n) m h =
     (let (w, h1) = arm32_inl M port h in arm32_insl M port (a + 4) n (store_bytes m a (le_split 4 w)) h1)"

fun arm32_insw :: "(u32, 'h) mmio \<Rightarrow> u32 \<Rightarrow> addr \<Rightarrow> nat \<Rightarrow> memory \<Rightarrow> 'h \<Rightarrow> memory \<times> 'h" where
  "arm32_insw M port a 0 m h = (m, h)"
| "arm32_insw M port a (Suc n) m h =
     (let (w, h1) = arm32_inw M port h in arm32_insw M port (a + 2) n (store_bytes m a (le_split 2 w)) h1)"

fun arm32_outsw :: "(u32, 'h) mmio \<Rightarrow> u32 \<Rightarrow> addr \<Rightarrow> nat \<Rightarrow> memory \<Rightarrow> 'h \<Rightarrow> 'h" where
  "arm32_outsw M port a 0 m h = h"
| "arm32_outsw M port a (Suc n) m h = arm32_outsw M port (a + 2) n m (arm32_outw M port (le_join (load_bytes m a 2)) h)"

section \<open>Where the words go\<close>

text \<open>
  Reading \<open>n\<close> items one after the other: what an accessor of each architecture is given as \<open>read\<close>.
\<close>

fun items :: "('h \<Rightarrow> 'w \<times> 'h) \<Rightarrow> nat \<Rightarrow> 'h \<Rightarrow> 'w list \<times> 'h" where
  "items read 0 h = ([], h)"
| "items read (Suc n) h = (let (w, h1) = read h; (ws, h2) = items read n h1 in (w # ws, h2))"

lemma length_items [simp]: "length (fst (items read n h)) = n"
  by (induction n arbitrary: h) (auto simp: Let_def split: prod.split, metis fst_conv)

lemma stored_in_turn:
  assumes "\<And>m a h. f a 0 m h = (m, h)" "0 < k"
    and "\<And>n m a h. f a (Suc n) m h = (let (w, h1) = read h in f (a + of_nat k) n (store_bytes m a (le_split k (w :: 'w::len word))) h1)"
  shows "k * n \<le> 2 ^ 64 \<Longrightarrow> f a n m h = (store_bytes m a (concat (map (le_split k) (fst (items read n h)))), snd (items read n h))"
proof (induction n arbitrary: a m h)
  case 0
  then show ?case by (simp add: assms(1) store_bytes_def)
next
  case (Suc n)
  have l: "length (concat (map (le_split k) (ws :: 'w word list))) = k * length ws" for ws by (induction ws) simp_all
  obtain w h1 where r: "read h = (w, h1)" by (cases "read h")
  obtain ws h2 where i: "items read n h1 = (ws, h2)" by (cases "items read n h1")
  have "length ws = n" using length_items [of read n h1] i by simp
  then have "length (le_split k w) + length (concat (map (le_split k) ws)) \<le> 2 ^ 64"
    using Suc.prems by (simp add: l)
  from store_bytes_append [OF this, of m a] show ?case
    using Suc.IH [where h = h1 and a = "a + of_nat k" and m = "store_bytes m a (le_split k w)"] Suc.prems r i by (simp add: assms(3))
qed

text \<open>
  arm32 stores the words it reads one behind the other, as \<^verbatim>\<open>rep insw\<close> does on the
  processors with ports.
\<close>

theorem insw_packed:
  assumes "2 * n \<le> 2 ^ 64"
  shows "arm32_insw M port a n m h =
      (store_bytes m a (concat (map (le_split 2) (fst (items (arm32_inw M port) n h)))), snd (items (arm32_inw M port) n h))"
    "insw B io a n m g =
      (store_bytes m a (concat (map (le_split 2) (fst (items (inw B io) n g)))), snd (items (inw B io) n g))"
  using stored_in_turn [where f = "arm32_insw M port" and k = 2 and read = "arm32_inw M port"] assms
    stored_in_turn [where f = "insw B io" and k = 2 and read = "inw B io"]
  by simp_all

text \<open>
  riscv spreads them: each word takes eight bytes, its two and six of its sign, so that \<open>n\<close>
  words overwrite \<open>8 n\<close> bytes of a buffer of \<open>2 n\<close>.
\<close>

theorem riscv_insw_spread:
  assumes "8 * n \<le> 2 ^ 64"
  shows "riscv_insw M port a n m h =
      (store_bytes m a (concat (map (\<lambda>w. le_split 8 (scast w :: u64)) (fst (items (load16 M port) n h)))),
       snd (items (load16 M port) n h))"
proof -
  have i: "items (riscv_inw M port) n h = (map scast (fst (items (load16 M port) n h)), snd (items (load16 M port) n h))" for n h
    by (induction n arbitrary: h) (simp_all add: riscv_inw_def Let_def split: prod.split)
  show ?thesis
    using stored_in_turn [where f = "riscv_insw M port" and k = 8 and read = "riscv_inw M port"] assms i
    by (simp add: comp_def)
qed

end
