(* ===== verification/BlockStore.thy ===== *)
theory BlockStore
  imports PageAlloc
begin

text \<open>
  What the allocator is for its clients: a store of separate byte arrays. The steps of a client are
  an allocation of a block that fits a page, a write inside a block it has, and \<^verbatim>\<open>kfree\<close> of one;
  the abstract state \<open>objects\<close> gives each block its bytes.
\<close>

section \<open>A new block is clear\<close>

text \<open>The bytes of a block just allocated are 0.\<close>

lemma page_overlap:
  assumes "layout_ok s" "i < LOW_PAGES" "j < LOW_PAGES" "in_page s i a" "in_page s j a"
  shows "i = j"
proof (rule ccontr)
  define n where "n = unat (a - page_addr s i)"
  assume "i \<noteq> j"
  moreover have "n < PAGE_SIZE" using assms(4) by (simp add: in_page_def n_def)
  moreover have "a = page_addr s i + of_nat n" by (simp add: n_def)
  ultimately show False using in_page_other [OF assms(1-3), of n] assms(5) by simp
qed

lemma kalloc_rest_clear:
  "layout_ok s \<Longrightarrow> i \<le> n \<Longrightarrow> consecutive s (b + i) (n - i) \<Longrightarrow> kalloc_rest Base n i s = Inr s' \<Longrightarrow>
     b + i \<le> k \<Longrightarrow> k < b + n \<Longrightarrow> in_page s k a \<Longrightarrow> mem s' a = 0"
proof (induction Base n i s rule: kalloc_rest.induct)
  case (1 Base n i s)
  have less: "i < n" using "1.prems"(5,6) by simp
  let ?s = "(set_page (b + i) s)\<lparr>mem := zero_page s (b + i)\<rparr>"
  have low: "b + i < LOW_PAGES" "k < LOW_PAGES" using less "1.prems"(3,6) by (auto simp: consecutive_def)
  have alloc: "AllocatePage s = Inr (page_addr s (b + i), ?s)"
    using "1.prems"(1,3) less low by (intro AllocatePage_low consecutive_first_free) auto
  have null: "page_addr s (b + i) \<noteq> NULL" using "1.prems"(1) low by simp
  have c: "consecutive ?s (b + Suc i) (n - Suc i)" using "1.prems"(3) less by (auto simp: consecutive_def less_Suc_eq)
  have r: "kalloc_rest Base n (Suc i) ?s = Inr s'"
    using "1.prems"(4) less alloc null by (simp add: kalloc_rest.simps [of Base n i s])
  show ?case
  proof (cases "k = b + i")
    case False
    then show ?thesis
      using "1.IH" [OF less, where xa = ?s] alloc null c r "1.prems"(1,5-7) less by simp
  next
    case True
    from kalloc_rest_consecutive [of ?s "Suc i" n b Base] c r "1.prems"(1) less
    have ext: "extends ?s s' {b + Suc i..<b + n}" by auto
    have "\<not> in_page ?s j a" if "j \<in> {b + Suc i..<b + n}" for j
      using page_overlap [OF "1.prems"(1), of k j a] low that "1.prems"(3,7) True by (auto simp: consecutive_def)
    then have "mem s' a = mem ?s a" using ext by (simp add: extends_def)
    then show ?thesis using "1.prems"(7) True by (simp add: zero_page_def)
  qed
qed

lemma kalloc_clear_page:
  assumes "layout_ok s" "Size \<noteq> 0" "consecutive s b n" "n = pages_for (Size + 16)" "0 < n" "kalloc Size s = Inr (p, s')"
    and "b \<le> k" "k < b + n" "in_page s k a" "16 \<le> unat (a - page_addr s b)"
  shows "mem s' a = 0"
proof -
  let ?p = "page_addr s b"
  have b: "b < LOW_PAGES" "k < LOW_PAGES" using assms(3,5,8) by (auto simp: consecutive_def)
  let ?s1 = "(set_page b s)\<lparr>mem := zero_page s b\<rparr>"
  let ?s2 = "?s1\<lparr>mem := store64 (store64 (zero_page s b) ?p (Size + 16)) (?p + 8) NULL\<rparr>"
  have alloc: "AllocatePage s = Inr (?p, ?s1)"
    using assms(1,3,5) b by (intro AllocatePage_low consecutive_first_free) auto
  have rest: "kalloc_rest ?p n 1 ?s2 = Inr s'"
    using assms(1,2,4,6) b alloc by (auto simp: kalloc_def Let_def sizeof_BlockHeader_def result_simps)
  have c: "consecutive ?s2 (b + 1) (n - 1)" using assms(3,5) by (auto simp: consecutive_def less_Suc_eq)
  show ?thesis
  proof (cases "k = b")
    case False
    then show ?thesis using kalloc_rest_clear [of ?s2 1 n b ?p s' k a] assms(1,5,7-9) c rest by simp
  next
    case True
    from kalloc_rest_consecutive [of ?s2 1 n b ?p] c rest assms(1,5)
    have ext: "extends ?s2 s' {b + 1..<b + n}" by auto
    have "\<not> in_page ?s2 j a" if "j \<in> {b + 1..<b + n}" for j
      using page_overlap [OF assms(1), of k j a] that assms(3,9) b True by (auto simp: consecutive_def)
    then have "mem s' a = mem ?s2 a" using ext by (simp add: extends_def)
    moreover have "unat (a - ?p - 8) = unat (a - ?p) - 8"
      by (subst unat_sub) (use assms(10) in \<open>simp_all add: word_le_nat_alt\<close>)
    then have "8 \<le> unat (a - (?p + 8))" using assms(10) by (simp add: diff_diff_eq)
    then have "mem ?s2 a = zero_page s b a" using assms(10) by (simp add: store64_other)
    ultimately show ?thesis using assms(9) True by (simp add: zero_page_def)
  qed
qed

lemma kalloc_clear:
  assumes "layout_ok s" "Size \<noteq> 0" "unat Size + 4111 < 2 ^ 64" "consecutive s b n" "n = pages_for (Size + 16)"
    and "kalloc Size s = Inr (p, s')" "j < unat Size"
  shows "mem s' (page_addr s b + 16 + of_nat j) = 0" "\<exists>k. b \<le> k \<and> k < b + n \<and> in_page s k (page_addr s b + 16 + of_nat j)"
proof -
  have T: "unat (Size + 16) = unat Size + 16"
    using unat_addr_add [of Size 16] assms(3) by simp
  then have n: "n = (unat Size + 4111) div 4096" using assms(3,5) pages_for_nat [of "Size + 16"] by simp
  let ?q = "(16 + j) div 4096" and ?r = "(16 + j) mod 4096"
  have q: "?q < n" unfolding n using assms(7) by (simp add: less_eq_div_iff_mult_less_eq Suc_le_eq [symmetric])
  have a: "page_addr s b + 16 + of_nat j = page_addr s (b + ?q) + of_nat ?r" (is "?a = _")
  proof -
    have "(of_nat (?q * 4096 + ?r) :: addr) = of_nat (16 + j)" by (simp only: div_mult_mod_eq)
    then have e: "of_nat ?q * 4096 + of_nat ?r = (16 + of_nat j :: addr)" by (simp only: of_nat_add of_nat_mult of_nat_numeral)
    have "page_addr s (b + ?q) + of_nat ?r = page_addr s b + of_nat ?q * 4096 + of_nat ?r"
      using page_addr_add [of s b ?q] by (simp add: PAGE_SIZE_def)
    then show ?thesis unfolding add.assoc e by simp
  qed
  have "unat (of_nat ?r :: addr) = ?r" by (rule unat_of_nat_addr) (simp add: less_trans [OF mod_less_divisor])
  then have inp: "in_page s (b + ?q) ?a" by (simp add: a in_page_def PAGE_SIZE_def del: of_nat_mod)
  have "16 + j < 2 ^ 64" using assms(3,7) by simp
  then have "unat (?a - page_addr s b) = 16 + j"
    using unat_of_nat_addr [of "16 + j"] by simp
  then show "mem s' ?a = 0"
    using kalloc_clear_page [OF assms(1,2,4,5) _ assms(6) _ _ inp] q by simp
  show "\<exists>k. b \<le> k \<and> k < b + n \<and> in_page s k ?a" using inp q by (intro exI [of _ "b + ?q"]) simp
qed

section \<open>Clients\<close>

type_synonym objects = "addr \<Rightarrow> u8 list option"

text \<open>
  Allocations are of blocks that fit a page with their header, as long as a page of the lower half is
  free; beyond, the addresses overflow (\<open>AllocatePage_upper_half\<close>).
\<close>

inductive client_step :: "'a pgalloc_scheme \<times> objects \<Rightarrow> 'a pgalloc_scheme \<times> objects \<Rightarrow> bool" where
  alloc: "small_size Size \<Longrightarrow> low_room s 1 \<Longrightarrow> kalloc Size s = Inr (p, s') \<Longrightarrow>
    client_step (s, Obj) (s', Obj(p \<mapsto> replicate (unat Size) 0))"
| put: "Obj p = Some bs \<Longrightarrow> off + length cs \<le> length bs \<Longrightarrow>
    client_step (s, Obj) (s\<lparr>mem := store_bytes (mem s) (p + of_nat off) cs\<rparr>,
      Obj(p \<mapsto> take off bs @ cs @ drop (off + length cs) bs))"
| free: "Obj p = Some bs \<Longrightarrow> kfree p s = Inr s' \<Longrightarrow> client_step (s, Obj) (s', Obj(p := None))"

inductive_cases client_stepE: "client_step c c'"

inductive client_run :: "'a pgalloc_scheme \<times> objects \<Rightarrow> 'a pgalloc_scheme \<times> objects \<Rightarrow> bool" where
  start: "client_run c c"
| more: "client_run c d \<Longrightarrow> client_step d e \<Longrightarrow> client_run c e"

text \<open>What is kept: every object is a live block of a page and has in memory the bytes it should have.\<close>

definition stored :: "'a pgalloc_scheme \<Rightarrow> objects \<Rightarrow> bool" where
  "stored s Obj \<longleftrightarrow> layout_ok s \<and>
     (\<forall>p bs. Obj p = Some bs \<longrightarrow> p \<in> live_blocks s \<and> length bs + 16 \<le> PAGE_SIZE \<and> load_bytes (mem s) p (length bs) = bs)"

lemma live_page:
  assumes "p \<in> live_blocks s"
  obtains i where "i < LOW_PAGES" "page_used s i" "p = page_addr s i + 16" "small_block s i"
  using assms by (auto simp: live_blocks_def small_block_def)

lemma payload_in_page:
  assumes "layout_ok s" "i < LOW_PAGES" "j + 16 < PAGE_SIZE"
  shows "in_page s i (page_addr s i + 16 + of_nat j)" "16 \<le> unat (page_addr s i + 16 + of_nat j - page_addr s i)"
proof -
  have "unat (of_nat (16 + j) :: addr) = 16 + j" using assms(3) by (intro unat_of_nat_addr) (simp add: PAGE_SIZE_def)
  moreover have "page_addr s i + 16 + of_nat j - page_addr s i = of_nat (16 + j)" by simp
  ultimately have "unat (page_addr s i + 16 + of_nat j - page_addr s i) = 16 + j" by (simp only:)
  then show "in_page s i (page_addr s i + 16 + of_nat j)" "16 \<le> unat (page_addr s i + 16 + of_nat j - page_addr s i)"
    using assms(3) by (simp_all add: in_page_def)
qed

text \<open>A store inside the payload of a page's block changes neither headers nor other pages.\<close>

lemma store_in_payload:
  assumes "layout_ok s" "i < LOW_PAGES" "off + length cs + 16 \<le> PAGE_SIZE"
    and "\<not> in_page s i a \<or> unat (a - page_addr s i) < 16"
  shows "store_bytes m (page_addr s i + 16 + of_nat off) cs a = m a"
proof (rule ccontr)
  define k where "k = unat (a - (page_addr s i + 16 + of_nat off))"
  assume "store_bytes m (page_addr s i + 16 + of_nat off) cs a \<noteq> m a"
  then have k: "k < length cs" by (auto simp: store_bytes_def k_def split: if_splits)
  have "a = page_addr s i + 16 + of_nat off + of_nat k" by (simp add: k_def)
  then have "a = page_addr s i + 16 + of_nat (off + k)" by simp
  moreover have "off + k + 16 < PAGE_SIZE" using k assms(3) by simp
  ultimately show False using payload_in_page [OF assms(1,2), of "off + k"] assms(4) by auto
qed

lemma load_spliced:
  assumes "load_bytes m p n = bs" "off + length cs \<le> n" "n < 2 ^ 64"
  shows "load_bytes (store_bytes m (p + of_nat off) cs) p n = take off bs @ cs @ drop (off + length cs) bs"
proof (rule nth_equalityI)
  have l: "length bs = n" using assms(1) by auto
  then show "length (load_bytes (store_bytes m (p + of_nat off) cs) p n) = length (take off bs @ cs @ drop (off + length cs) bs)"
    using assms(2) by simp
  fix j assume "j < length (load_bytes (store_bytes m (p + of_nat off) cs) p n)"
  then have j: "j < n" by simp
  then have b: "bs ! j = m (p + of_nat j)" using assms(1) by (auto simp: load_bytes_def)
  let ?k = "unat (p + of_nat j - (p + of_nat off))"
  have hit: "?k < length cs \<longleftrightarrow> off \<le> j \<and> j < off + length cs"
  proof
    assume k: "?k < length cs"
    have "(of_nat j :: addr) = of_nat (off + ?k)" by simp
    then have "unat (of_nat j :: addr) = unat (of_nat (off + ?k) :: addr)" by (simp only:)
    then have "j = off + ?k" using j k assms(2,3) by (simp only: unat_of_nat_addr)
    then show "off \<le> j \<and> j < off + length cs" using k by simp
  next
    assume "off \<le> j \<and> j < off + length cs"
    then have "p + of_nat j - (p + of_nat off) = of_nat (j - off)" by (simp add: of_nat_diff)
    then show "?k < length cs" using \<open>off \<le> j \<and> j < off + length cs\<close> j assms(3) by (simp only: unat_of_nat_addr) auto
  qed
  have at: "?k = j - off" if "off \<le> j"
  proof -
    have "p + of_nat j - (p + of_nat off) = of_nat (j - off)" using that by (simp add: of_nat_diff)
    then show ?thesis using j assms(3) by (simp only: unat_of_nat_addr)
  qed
  show "load_bytes (store_bytes m (p + of_nat off) cs) p n ! j = (take off bs @ cs @ drop (off + length cs) bs) ! j"
    using j b hit at l assms(2) by (auto simp: load_bytes_def store_bytes_def nth_append min_def)
qed

lemma stored_alloc:
  assumes "stored s Obj" "small_size Size" "low_room s 1" "kalloc Size s = Inr (p, s')"
  shows "stored s' (Obj(p \<mapsto> replicate (unat Size) 0))" "p \<notin> dom Obj"
proof -
  have l: "layout_ok s" and room: "low_room s (Suc 0)" using assms(1,3) by (simp_all add: stored_def)
  note a = kblk.alloc_Inr [OF l room assms(2,4)]
  show "p \<notin> dom Obj" using a assms(1) by (auto simp: stored_def)
  obtain i where i: "p = page_addr s i + 16" "first_free s i" "i < LOW_PAGES" "extends s s' {i}"
    using kalloc_small [OF l room assms(2)] assms(4) by auto
  have one: "1 = pages_for (Size + 16)"
    using assms(2) unat_addr_add [of Size 16] by (simp add: pages_for_single small_size_def PAGE_SIZE_def)
  have S: "Size \<noteq> 0" "unat Size + 4111 < 2 ^ 64" using assms(2) by (auto simp: small_size_def PAGE_SIZE_def)
  have "consecutive s i 1" using i(2,3) by (auto simp: consecutive_def first_free_def less_Suc_eq_le le_antisym)
  from kalloc_clear(1) [OF l S this one assms(4)] have "mem s' (p + of_nat j) = 0" if "j < unat Size" for j
    using that i(1) by simp
  then have new: "load_bytes (mem s') p (unat Size) = replicate (unat Size) 0"
    by (intro nth_equalityI) (simp_all add: load_bytes_def)
  have old: "load_bytes (mem s') q (length bs) = bs" if q: "Obj q = Some bs" for q bs
  proof -
    have b: "q \<in> live_blocks s" "length bs + 16 \<le> PAGE_SIZE" "load_bytes (mem s) q (length bs) = bs"
      using assms(1) q by (auto simp: stored_def)
    obtain j where j: "j < LOW_PAGES" "page_used s j" "q = page_addr s j + 16" using live_page [OF b(1)] by metis
    have "mem s' (q + of_nat n) = mem s (q + of_nat n)" if "n < length bs" for n
    proof -
      have "in_page s j (q + of_nat n)" using payload_in_page(1) [OF l j(1), of n] that b(2) j(3) by simp
      then have "\<not> in_page s i (q + of_nat n)"
        using page_overlap [OF l j(1) i(3)] j(2) i(2) by (auto simp: first_free_def)
      then show ?thesis using i(4) by (simp add: extends_def)
    qed
    then have "load_bytes (mem s') q (length bs) = load_bytes (mem s) q (length bs)" by (simp add: load_bytes_def)
    then show ?thesis using b(3) by simp
  qed
  show "stored s' (Obj(p \<mapsto> replicate (unat Size) 0))"
    using a old new assms(1,2) by (auto simp: stored_def small_size_def)
qed

lemma stored_put:
  assumes "stored s Obj" "Obj p = Some bs" "off + length cs \<le> length bs"
  shows "stored (s\<lparr>mem := store_bytes (mem s) (p + of_nat off) cs\<rparr>) (Obj(p \<mapsto> take off bs @ cs @ drop (off + length cs) bs))"
    (is "stored ?s ?Obj")
proof -
  have l: "layout_ok s" and b: "p \<in> live_blocks s" "length bs + 16 \<le> PAGE_SIZE" "load_bytes (mem s) p (length bs) = bs"
    using assms(1,2) by (auto simp: stored_def)
  obtain i where i: "i < LOW_PAGES" "p = page_addr s i + 16" using live_page [OF b(1)] by metis
  have size: "off + length cs + 16 \<le> PAGE_SIZE" using assms(3) b(2) by simp
  note same = store_in_payload [OF l i(1) size, of _ "mem s", folded i(2)]
  have "load64 (mem ?s) (page_addr s j) = load64 (mem s) (page_addr s j)" if "j < LOW_PAGES" for j
  proof (rule load64_cong)
    fix k :: nat assume k: "k < 8"
    show "mem ?s (page_addr s j + of_nat k) = mem s (page_addr s j + of_nat k)"
      using same [of "page_addr s j + of_nat k"] in_page_other [OF l that i(1), of k] k
      by (cases "j = i") (auto simp: unat_of_nat_addr PAGE_SIZE_def)
  qed
  then have live: "live_blocks ?s = live_blocks s" by (auto simp: live_blocks_def small_block_def)
  have other: "load_bytes (mem ?s) q (length ds) = ds" if q: "Obj q = Some ds" "q \<noteq> p" for q ds
  proof -
    have d: "q \<in> live_blocks s" "length ds + 16 \<le> PAGE_SIZE" "load_bytes (mem s) q (length ds) = ds"
      using assms(1) q by (auto simp: stored_def)
    obtain j where j: "j < LOW_PAGES" "q = page_addr s j + 16" using live_page [OF d(1)] by metis
    then have "j \<noteq> i" using q(2) i(2) by auto
    then have "mem ?s (q + of_nat n) = mem s (q + of_nat n)" if "n < length ds" for n
      using same [of "q + of_nat n"] payload_in_page(1) [OF l j(1), of n] that d(2) j(2) page_overlap [OF l j(1) i(1)] by auto
    then have "load_bytes (mem ?s) q (length ds) = load_bytes (mem s) q (length ds)" by (simp add: load_bytes_def)
    then show ?thesis using d(3) by simp
  qed
  have "length bs < 2 ^ 64" using b(2) by (simp add: PAGE_SIZE_def)
  then have "load_bytes (mem ?s) p (length bs) = take off bs @ cs @ drop (off + length cs) bs"
    using load_spliced [OF b(3) assms(3)] by simp
  moreover have "length (take off bs @ cs @ drop (off + length cs) bs) = length bs" using assms(3) by simp
  ultimately show ?thesis using l live other b(1,2) assms(1) by (auto simp: stored_def)
qed

lemma stored_free:
  assumes "stored s Obj" "Obj p = Some bs" "kfree p s = Inr s'"
  shows "stored s' (Obj(p := None))"
proof -
  have "layout_ok s" "p \<in> live_blocks s" using assms(1,2) by (auto simp: stored_def)
  note f = kblk.free_Inr [OF this assms(3)] kfree_frame [OF assms(3)]
  then show ?thesis using assms(1) by (auto simp: stored_def)
qed

lemma stored_run:
  assumes "client_run c d" "stored (fst c) (snd c)"
  shows "stored (fst d) (snd d)"
  using assms
proof (induction rule: client_run.induct)
  case (more c d e)
  then have "stored (fst d) (snd d)" by blast
  with more.hyps(2) show ?case
  proof (cases rule: client_step.cases)
    case (alloc Size s p s' Obj)
    with \<open>stored (fst d) (snd d)\<close> show ?thesis using stored_alloc(1) [of s Obj Size p s'] by (simp only: fst_conv snd_conv)
  next
    case (put Obj p bs off cs s)
    with \<open>stored (fst d) (snd d)\<close> show ?thesis using stored_put [of s Obj p bs off cs] by (simp only: fst_conv snd_conv)
  next
    case (free Obj p bs s s')
    with \<open>stored (fst d) (snd d)\<close> show ?thesis using stored_free [of s Obj p bs s'] by (simp only: fst_conv snd_conv)
  qed
qed simp

text \<open>Two blocks in use have no byte in common.\<close>

lemma stored_apart:
  assumes "stored s Obj" "Obj p = Some bs" "Obj q = Some cs" "p \<noteq> q" "m < length bs" "n < length cs"
  shows "p + of_nat m \<noteq> q + of_nat n"
proof
  assume e: "p + of_nat m = q + of_nat n"
  have l: "layout_ok s" and b: "p \<in> live_blocks s" "q \<in> live_blocks s" "length bs + 16 \<le> PAGE_SIZE" "length cs + 16 \<le> PAGE_SIZE"
    using assms(1-3) by (auto simp: stored_def)
  obtain i j where i: "i < LOW_PAGES" "p = page_addr s i + 16" and j: "j < LOW_PAGES" "q = page_addr s j + 16"
    using live_page [OF b(1)] live_page [OF b(2)] by metis
  have "in_page s i (p + of_nat m)" "in_page s j (q + of_nat n)"
    using payload_in_page(1) [OF l i(1), of m] payload_in_page(1) [OF l j(1), of n] i(2) j(2) b(3,4) assms(5,6) by simp_all
  then have "i = j" using page_overlap [OF l i(1) j(1)] e by simp
  then show False using assms(4) i(2) j(2) by simp
qed

section \<open>The property\<close>



end
