(* ===== verification/PciFile.thy ===== *)
theory PciFile
  imports RootPath KernelPrint Pci BlockStore
begin

text \<open>
  \<^verbatim>\<open>Init\<close> of \<^verbatim>\<open>src/modules/pci/main.c\<close>: the table of the devices is a block of
  the allocator, shown through a node below \<^verbatim>\<open>/dev\<close>. Here the table of \<open>Pci\<close> is laid out in
  the byte memory as the compiler lays out \<^verbatim>\<open>PCI\<close>; the padding of an entry, whose content C
  leaves open, is 0.

  The node's functions are the module's \<^verbatim>\<open>PCIReadFunction\<close> and
  \<^verbatim>\<open>PCIWriteFunction\<close> and none of the kernel's; \<open>pci_nodes\<close> are the nodes that have them.
\<close>

section \<open>The table in memory\<close>

definition dev_bytes :: "PCIDEV \<Rightarrow> u8 list" where
  "dev_bytes D =
     [bus_no D, slot_no D, func_no D, 0] @ le_split 2 (vendor_id D) @ le_split 2 (device_id D) @
     [class_id D, subclass_id D, prog_if D, revision D, header_type D, irq_line D, 0, 0] @
     concat (map (le_split 4) (bar D))"

definition table_bytes :: "PCI \<Rightarrow> u8 list" where
  "table_bytes P = concat (map dev_bytes (Dev P)) @ le_split 4 (Count P)"

definition dev_of :: "u8 list \<Rightarrow> PCIDEV" where
  "dev_of bs =
     \<lparr>bus_no = bs ! 0, slot_no = bs ! 1, func_no = bs ! 2, vendor_id = le_join (take 2 (drop 4 bs)),
      device_id = le_join (take 2 (drop 6 bs)), class_id = bs ! 8, subclass_id = bs ! 9, prog_if = bs ! 10,
      revision = bs ! 11, header_type = bs ! 12, irq_line = bs ! 13,
      bar = map (\<lambda>i. le_join (take 4 (drop (16 + 4 * i) bs))) [0..<6]\<rparr>"

definition table_of :: "u8 list \<Rightarrow> PCI" where
  "table_of bs =
     \<lparr>Dev = map (\<lambda>i. dev_of (take 40 (drop (40 * i) bs))) [0..<MAX_DEVICES], Count = le_join (take 4 (drop 5120 bs))\<rparr>"

definition full_device :: "PCIDEV \<Rightarrow> bool" where
  "full_device D \<longleftrightarrow> length (bar D) = 6"

lemma length_dev_bytes: "full_device D \<Longrightarrow> length (dev_bytes D) = 40"
proof -
  have "length (concat (map (le_split 4) (vs :: u32 list))) = 4 * length vs" for vs by (induction vs) simp_all
  then show "full_device D \<Longrightarrow> length (dev_bytes D) = 40" by (simp add: dev_bytes_def full_device_def)
qed

lemma dev_of_bytes: "full_device D \<Longrightarrow> dev_of (dev_bytes D) = D"
proof -
  assume "full_device D"
  then obtain b0 b1 b2 b3 b4 b5 where b: "bar D = [b0, b1, b2, b3, b4, b5]"
    by (auto simp: full_device_def eval_nat_numeral length_Suc_conv)
  have four: "le_join (le_split (Suc (Suc (Suc (Suc 0)))) w) = (w :: u32)" for w by (rule le_join_split) simp
  have s2: "\<exists>x y. le_split 2 w = [x, y]" for w :: u16 by (simp add: le_split_def upt_rec)
  obtain v0 v1 where v: "le_split 2 (vendor_id D) = [v0, v1]" using s2 by blast
  obtain d0 d1 where d: "le_split 2 (device_id D) = [d0, d1]" using s2 by blast
  have j: "le_join [v0, v1] = vendor_id D" "le_join [d0, d1] = device_id D"
    using le_join_split [of 2 "vendor_id D"] le_join_split [of 2 "device_id D"] v d by simp_all
  have e: "[0..<6] = [0, 1, 2, 3, 4, 5 :: nat]" by (simp add: upt_rec)
  show ?thesis
    using b v d j by (cases D) (simp add: dev_of_def dev_bytes_def e four eval_nat_numeral)
qed

lemma length_devices: "\<forall>D \<in> set Ds. full_device D \<Longrightarrow> length (concat (map dev_bytes Ds)) = 40 * length Ds"
  by (induction Ds) (simp_all add: length_dev_bytes)

lemma device_slice:
  "\<forall>D \<in> set Ds. full_device D \<Longrightarrow> i < length Ds \<Longrightarrow> take 40 (drop (40 * i) (concat (map dev_bytes Ds) @ bs)) = dev_bytes (Ds ! i)"
proof (induction Ds arbitrary: i)
  case (Cons D Ds)
  then show ?case by (cases i) (simp_all add: length_dev_bytes drop_append)
qed simp

text \<open>The table is read back as it was written.\<close>

lemma table_of_bytes:
  assumes "length (Dev P) = MAX_DEVICES" "\<forall>D \<in> set (Dev P). full_device D"
  shows "table_of (table_bytes P) = P" "length (table_bytes P) = 5124"
proof -
  have l: "length (concat (map dev_bytes (Dev P))) = 5120"
    using length_devices [OF assms(2)] assms(1) by (simp add: MAX_DEVICES_def)
  then show "length (table_bytes P) = 5124" by (simp add: table_bytes_def)
  have "map (\<lambda>i. dev_of (take 40 (drop (40 * i) (table_bytes P)))) [0..<MAX_DEVICES] = Dev P"
  proof (rule nth_equalityI)
    fix i assume "i < length (map (\<lambda>i. dev_of (take 40 (drop (40 * i) (table_bytes P)))) [0..<MAX_DEVICES])"
    then have i: "i < length (Dev P)" using assms(1) by simp
    then have "dev_of (dev_bytes (Dev P ! i)) = Dev P ! i" using assms(2) by (simp add: dev_of_bytes)
    then show "map (\<lambda>i. dev_of (take 40 (drop (40 * i) (table_bytes P)))) [0..<MAX_DEVICES] ! i = Dev P ! i"
      using device_slice [OF assms(2) i] i assms(1) by (simp add: table_bytes_def)
  qed (simp add: assms(1))
  moreover have "le_join (take 4 (drop 5120 (table_bytes P))) = Count P"
    by (simp add: table_bytes_def l le_join_split)
  ultimately show "table_of (table_bytes P) = P" by (simp add: table_of_def)
qed

section \<open>Loading the module\<close>

record 'h pci_kernel =
  bus_hw :: 'h
  kern :: kernel
  pci_nodes :: "addr list"

text \<open>What the scan prints ends up on the kernel's serial line; \<^verbatim>\<open>"%x"\<close> shows the low 32
  bits of the table's address.\<close>

definition Init :: "'h bus \<Rightarrow> 'h pci_kernel \<Rightarrow> (u32 \<times> 'h pci_kernel) outcome" where
  "Init B st =
     obind (Some (kalloc sizeof_PCI (kern st))) (\<lambda>(P, s1).
     obind (find_from_root ''dev'' 3 s1) (\<lambda>DevFile.
     if DevFile = NULL then Some (Inr (- 1, st\<lparr>kern := s1\<rparr>))
     else
       obind (Some (NewVNode (VFS_READ OR VFS_WRITE) s1)) (\<lambda>(F, s2).
       obind (Some (set_node F (\<lambda>n. n\<lparr>Name := \<lparr>VNodeString.Name = ''pci'' @ [NUL], Length = 3\<rparr>, DriverData := P\<rparr>) s2)) (\<lambda>s3.
       obind (Some (RegisterChildVNode DevFile F s3)) (\<lambda>s4.
       obind (Some (PCIEnumeratePci B (num_text 16 (unat (ucast P :: u32)))
           \<lparr>hw = bus_hw st, Pci = table_of (load_bytes (mem s4) P 5124), console = []\<rparr>)) (\<lambda>e.
       Some (Inr (Count (Pci e),
         \<lparr>bus_hw = hw e, kern = s4\<lparr>mem := store_bytes (mem s4) P (table_bytes (Pci e)), tx := tx s4 @ console e\<rparr>,
          pci_nodes = F # pci_nodes st\<rparr>))))))))"

section \<open>What the file shows\<close>

lemma dir_at_cong:
  assumes "\<And>a. a \<in> insert P (set xs) \<Longrightarrow> nodes s' a = nodes s a"
  shows "dir_at P s' xs = dir_at P s xs"
proof -
  have "chain s' q ys = chain s q ys" if "set ys \<subseteq> set xs" for q ys
    using that assms by (induction ys arbitrary: q) (auto simp: is_node_def)
  moreover have "linked s' NULL xs = linked s NULL xs" using assms by (intro linked_cong) simp
  ultimately show ?thesis using assms by (simp add: dir_at_def is_node_def)
qed

definition zero_device :: PCIDEV where
  "zero_device = dev_of (replicate 40 0)"

lemma table_of_zeros: "table_of (replicate 5124 0) = \<lparr>Dev = replicate MAX_DEVICES zero_device, Count = 0\<rparr>"
proof -
  have "dev_of (take 40 (drop (40 * i) (replicate 5124 0))) = zero_device" if "i < MAX_DEVICES" for i
  proof -
    have "40 \<le> 5124 - 40 * i" using that by (simp add: MAX_DEVICES_def)
    then have "min 40 (5124 - 40 * i) = 40" by (rule min.absorb1)
    then show ?thesis unfolding zero_device_def drop_replicate take_replicate by (simp only:)
  qed
  then have "map (\<lambda>i. dev_of (take 40 (drop (40 * i) (replicate 5124 0)))) [0..<MAX_DEVICES] = replicate MAX_DEVICES zero_device"
    by (intro nth_equalityI) simp_all
  moreover have "le_join (replicate 4 (0 :: u8)) = (0 :: u32)" by (simp add: eval_nat_numeral)
  ultimately show ?thesis unfolding table_of_def drop_replicate take_replicate by simp
qed

lemma all_devices_full: "D \<in> set (all_devices cfg) \<Longrightarrow> full_device D"
  by (auto simp: all_devices_def slot_devices_def full_device_def device_at_def simp del: upt.simps upt_rec_numeral)

text \<open>The table \<^verbatim>\<open>Init\<close> leaves: the devices found, and the rest still clear.\<close>

definition device_table :: "(u32 \<Rightarrow> u32) \<Rightarrow> PCI" where
  "device_table cfg =
     \<lparr>Dev = all_devices cfg @ replicate (MAX_DEVICES - length (all_devices cfg)) zero_device,
      Count = of_nat (length (all_devices cfg))\<rparr>"

lemma scan_from_zero:
  assumes "config_space B cfg" "length (all_devices cfg) \<le> MAX_DEVICES"
  shows "\<exists>e. PCIEnumeratePci B table \<lparr>hw = h, Pci = table_of (replicate 5124 0), console = []\<rparr> = Inr e \<and>
    Pci e = device_table cfg"
proof -
  let ?st = "\<lparr>hw = h, Pci = table_of (replicate 5124 0), console = []\<rparr>"
  have st: "length (Dev (Pci ?st)) = MAX_DEVICES" "Count (Pci ?st) = 0" by (simp_all add: table_of_zeros)
  from scan_finds [OF assms(1) st, of table] assms(2)
  obtain e where e: "PCIEnumeratePci B table ?st = Inr e" "Count (Pci e) = of_nat (length (all_devices cfg))"
    "Dev (Pci e) = all_devices cfg @ drop (length (all_devices cfg)) (Dev (Pci ?st))" by auto
  then show ?thesis by (auto simp: device_table_def table_of_zeros)
qed

lemma device_table_ok:
  assumes "length (all_devices cfg) \<le> MAX_DEVICES"
  shows "table_of (table_bytes (device_table cfg)) = device_table cfg" "length (table_bytes (device_table cfg)) = 5124"
proof -
  have "full_device zero_device" by (simp add: zero_device_def full_device_def dev_of_def)
  then have f: "\<forall>D \<in> set (Dev (device_table cfg)). full_device D" by (auto simp: device_table_def all_devices_full)
  have l: "length (Dev (device_table cfg)) = MAX_DEVICES" using assms by (simp add: device_table_def)
  show "table_of (table_bytes (device_table cfg)) = device_table cfg" "length (table_bytes (device_table cfg)) = 5124"
    using table_of_bytes [OF l f] .
qed

lemma PCI_block:
  assumes "layout_ok s" "consecutive s b 2" "low_room s 3"
  shows "\<exists>s1. kalloc sizeof_PCI s = Inr (page_addr s b + 16, s1) \<and> extends s s1 {b, Suc b} \<and> low_room s1 (Suc 0) \<and>
    page_addr s b + 16 \<noteq> NULL"
proof -
  have two: "2 = pages_for (sizeof_PCI + 16)" by (subst pages_for_nat) (simp_all add: sizeof_PCI_def)
  have S: "sizeof_PCI \<noteq> 0" "unat sizeof_PCI + 4111 < 2 ^ 64" by (simp_all add: sizeof_PCI_def)
  have r: "{b..<b + 2} = {b, Suc b}" by auto
  from kalloc_consecutive [OF assms(1) S assms(2) two] r
  obtain s1 where s1: "kalloc sizeof_PCI s = Inr (page_addr s b + 16, s1)" "extends s s1 {b, Suc b}" by auto
  let ?F = "{i. i < LOW_PAGES \<and> \<not> page_used s i}"
  have "{i. i < LOW_PAGES \<and> \<not> page_used s1 i} = ?F - {b, Suc b}" using s1(2) by (auto simp: extends_def)
  moreover have "card ?F - card {b, Suc b} \<le> card (?F - {b, Suc b})" by (rule diff_card_le_card_Diff) simp
  moreover have "3 \<le> card ?F" using assms(3) by (simp add: low_room_def)
  ultimately have "low_room s1 (Suc 0)" by (simp add: low_room_def)
  moreover have "b < LOW_PAGES" using assms(2) by (simp add: consecutive_def)
  then have "unat (page_addr s b + of_nat 16) = unat (MemoryStart s) + 4096 * b + 16"
    using assms(1) by (intro unat_in_page) (simp_all add: PAGE_SIZE_def)
  then have "unat (page_addr s b + 16) \<noteq> 0" by simp
  then have "page_addr s b + 16 \<noteq> NULL" by (rule contrapos_nn) (simp only: unsigned_0)
  ultimately show ?thesis using s1 by blast
qed

text \<open>The block is still clear after the node has been made: the node has a page of its own.\<close>

lemma PCI_block_clear:
  assumes "layout_ok s" "consecutive s b 2" "kalloc sizeof_PCI s = Inr (p, s1)" "extends s s1 {b, Suc b}"
    and "first_free s1 i" "i < LOW_PAGES" "extends s1 s2 {i}"
  shows "load_bytes (mem s2) (page_addr s b + 16) 5124 = replicate 5124 0"
proof (rule nth_equalityI)
  fix j assume "j < length (load_bytes (mem s2) (page_addr s b + 16) 5124)"
  then have j: "j < unat sizeof_PCI" by (simp add: sizeof_PCI_def)
  have two: "2 = pages_for (sizeof_PCI + 16)" by (subst pages_for_nat) (simp_all add: sizeof_PCI_def)
  have S: "sizeof_PCI \<noteq> 0" "unat sizeof_PCI + 4111 < 2 ^ 64" by (simp_all add: sizeof_PCI_def)
  let ?a = "page_addr s b + 16 + of_nat j"
  note clear = kalloc_clear [OF assms(1) S assms(2) two assms(3) j]
  obtain k where k: "b \<le> k" "k < b + 2" "in_page s k ?a" using clear(2) by blast
  then have "k \<in> {b, Suc b}" by auto
  then have "k < LOW_PAGES" "page_used s1 k" using assms(2,4) by (auto simp: consecutive_def extends_def)
  then have "\<not> in_page s1 i ?a"
    using page_overlap [OF assms(1) _ assms(6) k(3)] extends_in_page [OF assms(4)] assms(5) by (auto simp: first_free_def)
  then have "mem s2 ?a = 0" using assms(7) clear(1) by (simp add: extends_def)
  then show "load_bytes (mem s2) (page_addr s b + 16) 5124 ! j = replicate 5124 0 ! j"
    using j by (simp add: load_bytes_def sizeof_PCI_def)
qed simp

text \<open>What entering a node leaves of the others: all but the links to the new one.\<close>

definition same_but_links :: "addr \<Rightarrow> addr \<Rightarrow> kernel \<Rightarrow> kernel \<Rightarrow> bool" where
  "same_but_links d p s s' \<longleftrightarrow> Root s' = Root s \<and>
     (\<forall>x. x \<noteq> p \<longrightarrow> is_node s' x = is_node s x \<and> Next (the_node s' x) = Next (the_node s x) \<and>
        VNode.Name (the_node s' x) = VNode.Name (the_node s x) \<and> Flags (the_node s' x) = Flags (the_node s x) \<and>
        (x \<noteq> d \<longrightarrow> FirstChild (the_node s' x) = FirstChild (the_node s x)))"

text \<open>Entering the node: the directory has it in front, and it keeps what it points to.\<close>

lemma register_named:
  assumes "dir_at d s xs" "is_node s p" "p \<noteq> d" "p \<notin> set xs" "Previous (the_node s p) = NULL" "name_ok (the_node s p)"
  shows "\<exists>s'. RegisterChildVNode d p s = Inr s' \<and> dir_at d s' (p # xs) \<and> mem s' = mem s \<and> same_but_links d p s s' \<and>
    node_name (the_node s' p) = node_name (the_node s p) \<and> DriverData (the_node s' p) = DriverData (the_node s p) \<and>
    Flags (the_node s' p) = Flags (the_node s p)"
proof -
  have f: "fresh_for d s p xs" using assms by (simp add: fresh_for_def)
  have d: "d \<noteq> p" "is_node s d" using assms(1,3) by (simp_all add: dir_at_def)
  have h: "FirstChild (the_node s d) = NULL \<or> is_node s (FirstChild (the_node s d))"
    using assms(1) by (cases xs) (auto simp: dir_at_def)
  have c: "d \<notin> set xs" "distinct xs" "chain s (FirstChild (the_node s d)) xs" "linked s NULL xs"
    using assms(1) by (simp_all add: dir_at_def)
  from RegisterChildVNode_front [OF d(2) assms(2) d(1) c(1) assms(4) c(2-4)]
  obtain s' where s': "RegisterChildVNode d p s = Inr s'" "nodes s' p = Some ((the_node s p)\<lparr>Next := FirstChild (the_node s d)\<rparr>)"
    "nodes s' d = Some ((the_node s d)\<lparr>FirstChild := p\<rparr>)" "Root s' = Root s" "pgalloc.truncate s' = pgalloc.truncate s"
    and other: "\<forall>x. x \<notin> {d, p} \<longrightarrow> nodes s' x = (if x \<noteq> NULL \<and> x = FirstChild (the_node s d)
        then Some ((the_node s x)\<lparr>Previous := p\<rparr>) else nodes s x)"
    by blast
  have "is_node s' x = is_node s x \<and> Next (the_node s' x) = Next (the_node s x) \<and>
        VNode.Name (the_node s' x) = VNode.Name (the_node s x) \<and> Flags (the_node s' x) = Flags (the_node s x) \<and>
        (x \<noteq> d \<longrightarrow> FirstChild (the_node s' x) = FirstChild (the_node s x))" if "x \<noteq> p" for x
  proof (cases "x = d")
    case True
    then show ?thesis using s'(3) d(2) by (simp add: is_node_def)
  next
    case False
    then have "nodes s' x = (if x \<noteq> NULL \<and> x = FirstChild (the_node s d) then Some ((the_node s x)\<lparr>Previous := p\<rparr>) else nodes s x)"
      using other that by simp
    then show ?thesis using h by (cases "x = FirstChild (the_node s d)") (auto simp: is_node_def)
  qed
  then have "same_but_links d p s s'" using s'(4) by (simp add: same_but_links_def)
  moreover have "mem s' = mem s" using s'(5) by (simp add: pgalloc.defs)
  ultimately show ?thesis using RegisterChildVNode_dir [OF assms(1) f] s'(1,2) by auto
qed

text \<open>A tree of regular nodes in which \<^verbatim>\<open>/dev\<close> is the directory \<open>d\<close> with the children \<open>us\<close>.\<close>

definition dev_dir :: "kernel \<Rightarrow> vtree \<Rightarrow> addr \<Rightarrow> vtree list \<Rightarrow> bool" where
  "dev_dir s t d us \<longleftrightarrow> repr s t \<and> root_of t = Root s \<and> (\<forall>a \<in> set (nodes_of t). regular (the_node s a)) \<and>
     lookup s t [''dev''] = Some (VTree d us) \<and> \<not> has_flag (Flags (the_node s d)) VFS_LINK \<and> dir_at d s (map root_of us)"

lemma dev_dir_nodes: "dev_dir s t d us \<Longrightarrow> insert d (set (map root_of us)) \<subseteq> set (nodes_of t)"
  using lookup_repr [of s t "[''dev'']" "VTree d us"] root_in_nodes_of by (fastforce simp: dev_dir_def)

lemma dev_dir_cong:
  assumes "dev_dir s t d us" "\<And>a. a \<in> set (nodes_of t) \<Longrightarrow> nodes s' a = nodes s a" "Root s' = Root s"
  shows "dev_dir s' t d us"
proof -
  have "dir_at d s' (map root_of us)"
    using assms(1,2) dir_at_cong [of d "map root_of us" s' s] dev_dir_nodes [OF assms(1)] by (auto simp: dev_dir_def)
  then show ?thesis
    using assms repr_cong [of t s' s] lookup_cong [of t s' s] dev_dir_nodes [OF assms(1)] by (auto simp: dev_dir_def)
qed

lemma dev_found: "dev_dir s t d us \<Longrightarrow> find_from_root ''dev'' 3 s = Some (Inr d)"
proof -
  assume d: "dev_dir s t d us"
  have w: "list_all plain_word (components ''dev'')" "components ''dev'' = [''dev'']"
    by (simp_all add: components_word plain_word_def special_words_def)
  show ?thesis using find_from_root_tree [OF _ _ _ w(1), unfolded w(2), of s t] d
    by (simp add: dev_dir_def eval_nat_numeral)
qed

text \<open>The new node is found under the directory's name and its own.\<close>

lemma found_below_dev:
  assumes "dev_dir s (VTree r ts) d us" "p \<notin> set (nodes_of (VTree r ts))"
    and "same_but_links d p s k" "find_step ''pci'' d k = Some (Inr p)" "is_node k p" "\<not> has_flag (Flags (the_node k p)) VFS_LINK"
  shows "find_from_root ''/dev/pci'' 8 k = Some (Inr p)"
proof -
  have tree: "repr s (VTree r ts)" "r = Root s" "\<forall>a \<in> set (nodes_of (VTree r ts)). regular (the_node s a)"
    "lookup s (VTree r ts) [''dev''] = Some (VTree d us)" "dir_at d s (map root_of us)"
    using assms(1) [unfolded dev_dir_def vtree.sel] by blast+
  have r: "is_node s r" "chain s (FirstChild (the_node s r)) (map root_of ts)" using tree(1) by simp_all
  obtain u where u: "find (\<lambda>t. node_name (the_node s (root_of t)) = ''dev'') ts = Some u" "u = VTree d us"
    using tree by (auto split: option.splits)
  then have "d \<in> set (map root_of ts)" using find_Some_in [OF u(1)] by force
  moreover have "chain s (FirstChild (the_node s d)) (map root_of us)" "d \<notin> set (map root_of us)"
    using tree by (simp_all add: dir_at_def)
  ultimately have rd: "r \<noteq> d" using chain_unique [OF r(2), of "map root_of us"] by metis
  have sub: "set (map root_of ts) \<subseteq> set (nodes_of (VTree r ts))" by (auto intro: bexI)
  then have out: "p \<notin> set (map root_of ts)" "p \<noteq> r" using assms(2) by auto
  note same = assms(3) [unfolded same_but_links_def, THEN conjunct2, rule_format]
  have k: "is_node k r" "FirstChild (the_node k r) = FirstChild (the_node s r)" "Flags (the_node k r) = Flags (the_node s r)"
    using same [of r] out(2) rd r(1) by auto
  have n: "is_node k x \<and> Next (the_node k x) = Next (the_node s x) \<and> VNode.Name (the_node k x) = VNode.Name (the_node s x)"
    if "x \<in> set (map root_of ts)" for x
    using same [of x] that out(1) chain_nodes [OF r(2) that] by auto
  have ch: "chain k (FirstChild (the_node k r)) (map root_of ts)"
    using k(2) n chain_unchanged [of "map root_of ts" k s, OF _ r(2)] by (auto simp: is_node_def)
  have names: "name_ok (the_node k x)" "node_name (the_node k x) = node_name (the_node s x)" if "x \<in> set (map root_of ts)" for x
    using n [OF that] tree sub that by (auto simp: regular_def name_ok_def node_name_def)
  have w: "plain_word ''dev''" "components ''/dev/pci'' = [''dev'', ''pci'']"
    by (simp_all add: components_def pieces_Cons plain_word_def special_words_def)
  have "find (\<lambda>x. node_name (the_node k x) = ''dev'') (map root_of ts) = find (\<lambda>x. node_name (the_node s x) = ''dev'') (map root_of ts)"
    using names(2) by (intro find_cong) simp_all
  then have "find_child ''dev'' (FirstChild (the_node k r)) k = Some (Inr d)"
    using find_child_chain [OF ch names(1), of "''dev''"] u by (auto simp: find_map_root)
  moreover have "\<not> has_flag (Flags (the_node k r)) VFS_ONDISK" using k(3) tree by (simp add: regular_def)
  ultimately have dev: "find_step ''dev'' r k = Some (Inr d)" using find_step_plain [OF w(1) k(1)] by simp
  have root: "Root k = r" "r \<noteq> NULL" using tree assms(3) k(1) by (auto simp: same_but_links_def is_node_def)
  have "d \<noteq> NULL" "p \<noteq> NULL" using tree assms(5) by (auto simp: dir_at_def is_node_def)
  then show ?thesis
    using find_resolve [of "Root k" k 8 "''/dev/pci'' @ [NUL]" "''/dev/pci''"] root dev assms(4,5,6) k(1) w(2)
    by (simp add: find_from_root_def RootVNode_def call_RelativeFind_def start_of_def trailing_check_def follow_link_def
        split: VNodeFindFunction.split)
qed

text \<open>Making the node and entering it, up to the scan.\<close>

definition pci_node :: "addr \<Rightarrow> VNode" where
  "pci_node P = (new_node (VFS_READ OR VFS_WRITE))\<lparr>Name := \<lparr>VNodeString.Name = ''pci'' @ [NUL], Length = 3\<rparr>, DriverData := P\<rparr>"

lemma pci_node_simps:
  "node_name (pci_node P) = ''pci''" "name_ok (pci_node P)" "Previous (pci_node P) = NULL" "DriverData (pci_node P) = P"
  "\<not> has_flag (Flags (pci_node P)) VFS_LINK"
  by (simp_all add: pci_node_def node_name_def name_ok_def new_node_def default_node_def zero_node_def
      has_flag_def VFS_LINK_def VFS_READ_def VFS_WRITE_def)

lemma enter_pci:
  assumes "dev_dir s t d ts" "layout_ok s" "low_room s (Suc 0)"
    and "\<forall>k < LOW_PAGES. \<not> page_used s k \<longrightarrow> page_addr s k + 16 \<notin> set (nodes_of t)"
  shows "\<exists>p i s1 s2 s3 s4. NewVNode (VFS_READ OR VFS_WRITE) s = Inr (p, s2) \<and>
     set_node p (\<lambda>n. n\<lparr>Name := \<lparr>VNodeString.Name = ''pci'' @ [NUL], Length = 3\<rparr>, DriverData := P\<rparr>) s2 = Inr s3 \<and>
     RegisterChildVNode d p s3 = Inr s4 \<and> first_free s i \<and> i < LOW_PAGES \<and> extends s s1 {i} \<and> mem s4 = mem s1 \<and>
     p \<notin> set (nodes_of t) \<and> dev_dir s3 t d ts \<and> dir_at d s4 (p # map root_of ts) \<and> same_but_links d p s3 s4 \<and>
     node_name (the_node s4 p) = ''pci'' \<and> DriverData (the_node s4 p) = P \<and> \<not> has_flag (Flags (the_node s4 p)) VFS_LINK"
proof -
  let ?Fl = "VFS_READ OR VFS_WRITE"
  obtain p s1 where new: "NewVNode ?Fl s = Inr (p, s1\<lparr>nodes := (nodes s)(p \<mapsto> new_node ?Fl)\<rparr>)"
    and a: "kalloc sizeof_VNode s = Inr (p, s1)" and p: "p \<noteq> NULL" using NewVNode_Inr [OF assms(2,3)] by blast
  obtain i where i: "p = page_addr s i + 16" "first_free s i" "i < LOW_PAGES" "extends s s1 {i}"
    using kalloc_small [OF assms(2,3) small_VNode] a by auto
  then have out: "p \<notin> set (nodes_of t)" using assms(4) by (auto simp: first_free_def)
  then have fresh: "p \<noteq> d" "p \<notin> set (map root_of ts)" using dev_dir_nodes [OF assms(1)] by auto
  define s3 where "s3 = s1\<lparr>nodes := (nodes s)(p \<mapsto> pci_node P)\<rparr>"
  have named: "set_node p (\<lambda>n. n\<lparr>Name := \<lparr>VNodeString.Name = ''pci'' @ [NUL], Length = 3\<rparr>, DriverData := P\<rparr>)
      (s1\<lparr>nodes := (nodes s)(p \<mapsto> new_node ?Fl)\<rparr>) = Inr s3"
    using p by (simp add: set_node_def node_def s3_def pci_node_def)
  have n: "nodes s3 p = Some (pci_node P)" "is_node s3 p" using p by (simp_all add: s3_def is_node_def)
  have "dev_dir s3 t d ts"
    using assms(1) by (rule dev_dir_cong) (use out kalloc_kernel_frame(2) [OF a] in \<open>auto simp: s3_def\<close>)
  moreover from this obtain s4 where "RegisterChildVNode d p s3 = Inr s4" "dir_at d s4 (p # map root_of ts)"
      "mem s4 = mem s1" "node_name (the_node s4 p) = ''pci''" "DriverData (the_node s4 p) = P"
      "\<not> has_flag (Flags (the_node s4 p)) VFS_LINK" "same_but_links d p s3 s4"
    using register_named [of d s3 "map root_of ts" p] fresh n by (auto simp: dev_dir_def pci_node_simps s3_def)
  ultimately show ?thesis using new named i out by blast
qed

lemma pci_found:
  assumes "dev_dir s t d ts" "p \<notin> set (nodes_of t)" "dir_at d k (p # map root_of ts)" "same_but_links d p s k"
    and "node_name (the_node k p) = ''pci''" "\<not> has_flag (Flags (the_node k p)) VFS_LINK"
  shows "find_from_root ''/dev/pci'' 8 k = Some (Inr p)" "is_node k p"
proof -
  have "plain_word ''pci''" by (simp add: plain_word_def special_words_def)
  then have step: "find_step ''pci'' d k = Some (Inr p)" and np: "is_node k p"
    using child_dir.look_ok [OF assms(3)] assms(3,5) by (auto simp: dir_at_def)
  show "is_node k p" by (rule np)
  obtain r us where t: "t = VTree r us" by (cases t)
  show "find_from_root ''/dev/pci'' 8 k = Some (Inr p)"
    using found_below_dev [OF assms(1,2) [unfolded t] assms(4) step np assms(6)] .
qed

lemma Init_table:
  assumes "config_space B cfg" "length (all_devices cfg) \<le> MAX_DEVICES" "dev_dir (kern st) t d ts"
    and "layout_ok (kern st)" "consecutive (kern st) b 2" "low_room (kern st) 3"
    and "\<forall>k < LOW_PAGES. \<not> page_used (kern st) k \<longrightarrow> page_addr (kern st) k + 16 \<notin> set (nodes_of t)"
  shows "\<exists>f st'. Init B st = Some (Inr (of_nat (length (all_devices cfg)), st')) \<and>
     find_from_root ''/dev/pci'' 8 (kern st') = Some (Inr f) \<and> is_node (kern st') f \<and> f \<in> set (pci_nodes st') \<and>
     DriverData (the_node (kern st') f) \<noteq> NULL \<and>
     table_of (load_bytes (mem (kern st')) (DriverData (the_node (kern st') f)) 5124) = device_table cfg"
proof -
  let ?s = "kern st" and ?P = "page_addr (kern st) b + 16"
  obtain s1 where a: "kalloc sizeof_PCI ?s = Inr (?P, s1)" and x1: "extends ?s s1 {b, Suc b}" and room: "low_room s1 (Suc 0)"
    and P: "?P \<noteq> NULL" using PCI_block [OF assms(4-6)] by blast
  have l1: "layout_ok s1" using extends_layout_ok [OF x1] assms(4) by simp
  have d1: "dev_dir s1 t d ts" using assms(3) by (rule dev_dir_cong) (simp_all add: kalloc_kernel_frame [OF a])
  then have d: "d \<noteq> NULL" by (auto simp: dev_dir_def dir_at_def is_node_def)
  have "\<forall>k < LOW_PAGES. \<not> page_used s1 k \<longrightarrow> page_addr s1 k + 16 \<notin> set (nodes_of t)"
    using assms(7) x1 extends_page_addr [OF x1] by (simp add: extends_def)
  from enter_pci [OF d1 l1 room this, of ?P] obtain p i m1 s2 s3 s4 where
    new: "NewVNode (VFS_READ OR VFS_WRITE) s1 = Inr (p, s2)"
      "set_node p (\<lambda>n. n\<lparr>Name := \<lparr>VNodeString.Name = ''pci'' @ [NUL], Length = 3\<rparr>, DriverData := ?P\<rparr>) s2 = Inr s3"
      "RegisterChildVNode d p s3 = Inr s4"
    and i: "first_free s1 i" "i < LOW_PAGES" "extends s1 m1 {i}" "mem s4 = mem m1"
    and tree: "dev_dir s3 t d ts" "p \<notin> set (nodes_of t)" "dir_at d s4 (p # map root_of ts)" "same_but_links d p s3 s4"
      "node_name (the_node s4 p) = ''pci''" "\<not> has_flag (Flags (the_node s4 p)) VFS_LINK"
    and data: "DriverData (the_node s4 p) = ?P" by blast
  have clear: "load_bytes (mem s4) ?P 5124 = replicate 5124 0"
    using PCI_block_clear [OF assms(4,5) a x1 i(1-3)] by (simp add: i(4))
  obtain e where e: "PCIEnumeratePci B (num_text 16 (unat (ucast ?P :: u32)))
      \<lparr>hw = bus_hw st, Pci = table_of (replicate 5124 0), console = []\<rparr> = Inr e" "Pci e = device_table cfg"
    using scan_from_zero [OF assms(1,2)] by blast
  define k where "k = s4\<lparr>mem := store_bytes (mem s4) ?P (table_bytes (Pci e)), tx := tx s4 @ console e\<rparr>"
  have run: "Init B st = Some (Inr (of_nat (length (all_devices cfg)), \<lparr>bus_hw = hw e, kern = k, pci_nodes = p # pci_nodes st\<rparr>))"
    using a dev_found [OF d1] d new clear e by (simp add: Init_def k_def device_table_def)
  have k: "nodes k = nodes s4" "Root k = Root s4" by (simp_all add: k_def)
  then have "dir_at d k (p # map root_of ts)" "same_but_links d p s3 k" "DriverData (the_node k p) = ?P"
    using tree data dir_at_cong [of d "p # map root_of ts" k s4] by (simp_all add: same_but_links_def is_node_def)
  moreover have "load_bytes (mem k) ?P 5124 = table_bytes (device_table cfg)"
    using load_store_same [of "table_bytes (device_table cfg)" "mem s4" ?P] device_table_ok(2) [OF assms(2)] e(2)
    by (simp add: k_def)
  ultimately show ?thesis
    using run pci_found [OF tree(1,2)] tree(5,6) k(1) P device_table_ok(1) [OF assms(2)]
    by (intro exI [of _ p] exI conjI) (assumption | simp)+
qed

text \<open>
  C30. Loading the PCI module scans the buses and leaves below \<^verbatim>\<open>/dev\<close> a node \<^verbatim>\<open>pci\<close>
  whose data is the table of exactly the devices that answer, followed by clear entries; the number
  of them is the result.
\<close>

theorem Init_shows_devices:
  assumes "config_space B cfg" "length (all_devices cfg) \<le> MAX_DEVICES" "dev_dir (kern st) t d ts"
    and "layout_ok (kern st)" "consecutive (kern st) b 2" "low_room (kern st) 3"
    and "\<forall>k < LOW_PAGES. \<not> page_used (kern st) k \<longrightarrow> page_addr (kern st) k + 16 \<notin> set (nodes_of t)"
  shows "\<exists>f st'. Init B st = Some (Inr (of_nat (length (all_devices cfg)), st')) \<and>
     find_from_root ''/dev/pci'' 8 (kern st') = Some (Inr f) \<and> f \<in> set (pci_nodes st') \<and>
     table_of (load_bytes (mem (kern st')) (DriverData (the_node (kern st') f)) 5124) = device_table cfg"
  using Init_table [OF assms] by blast

definition example_pci :: "unit pci_kernel" where
  "example_pci = \<lparr>bus_hw = (), kern = two_dirs, pci_nodes = []\<rparr>"

lemma two_dirs_out: "page_addr two_dirs k + 16 \<notin> set (nodes_of (VTree 0x1000 [VTree 0x2000 [], VTree 0x3000 []]))" if "k < LOW_PAGES"
proof -
  have "page_addr two_dirs = page_addr root_only" by (simp add: fun_eq_iff two_dirs_pages del: root_only_pages)
  then have "page_addr two_dirs k + 16 \<in> (\<lambda>i. page_addr root_only i + 16) ` {..<LOW_PAGES}" using that by simp
  then show ?thesis
    using low_no_page [of "0x1000"] low_no_page [of "0x2000"] low_no_page [of "0x3000"] by (auto simp del: root_only_pages)
qed

lemma example_pci_ready:
  "config_space open_bus (\<lambda>a. 0xFFFFFFFF)"
  "dev_dir (kern example_pci) (VTree 0x1000 [VTree 0x2000 [], VTree 0x3000 []]) 0x2000 []"
  "layout_ok (kern example_pci)" "consecutive (kern example_pci) 0 2" "low_room (kern example_pci) 3"
  "\<forall>k < LOW_PAGES. \<not> page_used (kern example_pci) k \<longrightarrow>
     page_addr (kern example_pci) k + 16 \<notin> set (nodes_of (VTree 0x1000 [VTree 0x2000 [], VTree 0x3000 []]))"
proof -
  let ?t = "VTree 0x1000 [VTree 0x2000 [], VTree 0x3000 []]"
  have k: "kern example_pci = two_dirs" by (simp add: example_pci_def)
  have c: "config_space open_bus (\<lambda>a. 0xFFFFFFFF)" by (simp add: config_space_def open_bus_def)
  have u: "\<not> page_used two_dirs i" for i by (simp add: page_used_def two_dirs_def root_only_def pgalloc.defs fresh_pages_def)
  have n: "nodes two_dirs 0x2000 = Some (zero_node\<lparr>Name := \<lparr>VNodeString.Name = ''dev'', Length = 3\<rparr>, Next := 0x3000\<rparr>)"
    by (simp add: two_dirs_def)
  have d: "dir_at 0x2000 two_dirs (map root_of [])" "\<not> has_flag (Flags (the_node two_dirs 0x2000)) VFS_LINK"
    by (simp_all add: dir_at_def is_node_def n zero_node_def has_flag_def)
  have r: "dev_dir two_dirs ?t 0x2000 []" using two_dirs_tree d by (simp add: dev_dir_def two_dirs_pages)
  have s: "consecutive two_dirs 0 2" "low_room two_dirs 3" by (simp_all add: consecutive_def low_room_def u LOW_PAGES_def)
  have o: "\<forall>k < LOW_PAGES. \<not> page_used two_dirs k \<longrightarrow> page_addr two_dirs k + 16 \<notin> set (nodes_of ?t)"
    using two_dirs_out by blast
  show "config_space open_bus (\<lambda>a. 0xFFFFFFFF)" by (rule c)
  show "dev_dir (kern example_pci) ?t 0x2000 []" unfolding k by (rule r)
  show "layout_ok (kern example_pci)" "consecutive (kern example_pci) 0 2" "low_room (kern example_pci) 3"
    unfolding k by (rule two_dirs_pages(1) s)+
  show "\<forall>k < LOW_PAGES. \<not> page_used (kern example_pci) k \<longrightarrow> page_addr (kern example_pci) k + 16 \<notin> set (nodes_of ?t)"
    unfolding k by (rule o)
qed

theorem Init_shows_devices_witness:
  "\<exists>f st'. Init open_bus example_pci = Some (Inr (0, st')) \<and> find_from_root ''/dev/pci'' 8 (kern st') = Some (Inr f)"
  using Init_shows_devices [OF example_pci_ready(1) _ example_pci_ready(2-6)] by (auto simp: empty_config)

end
