(* ===== verification/IdeLoad.thy ===== *)
theory IdeLoad
  imports PciFile Ide
begin

text \<open>
  \<^verbatim>\<open>Init\<close> of \<^verbatim>\<open>src/modules/ide/main.c\<close> as the kernel sees it: the table of the PCI
  module is found through the node \<^verbatim>\<open>/dev/pci\<close>, every IDE controller in it is set up (\<open>Ide\<close>), and
  each drive detected gets a node below \<^verbatim>\<open>/dev\<close>. The controllers' state and the kernel's do not
  touch each other, so the nodes are made here once the controllers are done; \<open>drive_nodes\<close> are the nodes
  made, with their drives. \<open>dev_addr i\<close> is the address of \<^verbatim>\<open>IDEState.IDEDev[i]\<close>.
\<close>

record 'h ide_kernel =
  ide :: "'h ide"
  kern :: kernel
  drive_nodes :: "(addr \<times> nat) list"

text \<open>The name is written to a block of its own; what follows it in the block is clear.\<close>

definition register_drive :: "(nat \<Rightarrow> addr) \<Rightarrow> string \<times> nat \<Rightarrow> kernel \<Rightarrow> (addr \<times> kernel) outcome" where
  "register_drive dev_addr e k =
     obind (Some (NewVNode (VFS_READ OR VFS_WRITE) k)) (\<lambda>(Drv, k1).
     obind (Some (kalloc 3 k1)) (\<lambda>(nm, k2).
     obind (Some (set_node Drv (\<lambda>n. n\<lparr>Name := \<lparr>VNodeString.Name = fst e @ [NUL], Length = 3\<rparr>, DriverData := dev_addr (snd e)\<rparr>) k2)) (\<lambda>k3.
     let k4 = k3\<lparr>mem := store_bytes (mem k3) nm (map byte_of (fst e))\<rparr> in
     obind (find_from_root ''/dev'' 4 k4) (\<lambda>d.
     obind (Some (RegisterChildVNode d Drv k4)) (\<lambda>k5. Some (Inr (Drv, k5)))))))"

fun register_drives :: "(nat \<Rightarrow> addr) \<Rightarrow> (string \<times> nat) list \<Rightarrow> kernel \<Rightarrow> ((addr \<times> nat) list \<times> kernel) outcome" where
  "register_drives dev_addr [] k = Some (Inr ([], k))"
| "register_drives dev_addr (e # es) k =
     obind (register_drive dev_addr e k) (\<lambda>(Drv, k1).
     obind (register_drives dev_addr es k1) (\<lambda>(ds, k2). Some (Inr ((Drv, snd e) # ds, k2))))"

definition Init :: "'h bus \<Rightarrow> (nat \<Rightarrow> addr) \<Rightarrow> 'h ide_kernel \<Rightarrow> (u32 \<times> 'h ide_kernel) outcome" where
  "Init B dev_addr st =
     obind (find_from_root ''/dev/pci'' 8 (kern st)) (\<lambda>P.
     if P = NULL then
       Some (Inr (- 1, st\<lparr>kern := (kern st)\<lparr>tx := tx (kern st) @ '' [Error] IDE Module could not find PCI'' @ [CHR 0x0D, CHR 0x0A]\<rparr>\<rparr>))
     else
       obind (Some (node P (kern st))) (\<lambda>n.
       obind (Some (PanicIfNull (DriverData n))) (\<lambda>_.
       let table = table_of (load_bytes (mem (kern st)) (DriverData n) 5124);
           i = Ide.Init B table ((ide st)\<lparr>console := [], created := []\<rparr>)
       in obind (register_drives dev_addr (created i) ((kern st)\<lparr>tx := tx (kern st) @ console i\<rparr>)) (\<lambda>(ds, k).
          Some (Inr (0, st\<lparr>ide := i, kern := k, drive_nodes := drive_nodes st @ ds\<rparr>))))))"

section \<open>Which controllers are set up\<close>

definition ide_controller :: "PCIDEV \<Rightarrow> bool" where
  "ide_controller d \<longleftrightarrow> class_id d = 0x01 \<and> subclass_id d = 0x01"

text \<open>Setting up the controller of one entry.\<close>

definition set_up :: "'h bus \<Rightarrow> PCIDEV \<Rightarrow> 'h ide \<Rightarrow> 'h ide" where
  "set_up B d i = IDEInitialise B (Ide.SerialPrint ('' [Info] IDE Device found'' @ [CHR 0x0D, CHR 0x0A]) (i\<lparr>ide.Dev := Some d\<rparr>))"

lemma init_controllers_fold:
  "\<forall>i \<in> set is. i < MAX_DEVICES \<Longrightarrow>
     init_controllers B P is st = fold (set_up B) (filter ide_controller (map (\<lambda>i. PCI.Dev P ! i) is)) st"
proof (induction "is" arbitrary: st)
  case (Cons i "is")
  then show ?case
    by (simp add: ide_controller_def IDEFind_def PCIGetOriginalDevice_def set_up_def Let_def)
qed simp

lemma Init_device_table:
  assumes "length (all_devices cfg) \<le> MAX_DEVICES"
  shows "Ide.Init B (device_table cfg) i = fold (set_up B) (filter ide_controller (all_devices cfg)) i"
proof -
  let ?n = "length (all_devices cfg)"
  have "?n < 2 ^ 32" using assms by (simp add: MAX_DEVICES_def)
  then have c: "unat (Count (device_table cfg)) = ?n" by (simp add: device_table_def unat_of_nat)
  have "map (\<lambda>i. PCI.Dev (device_table cfg) ! i) [0..<?n] = all_devices cfg"
    by (rule nth_equalityI) (simp_all add: device_table_def nth_append)
  then show ?thesis
    using init_controllers_fold [of "[0..<?n]" B "device_table cfg" i] assms by (simp add: Ide.Init_def c)
qed



end
