(* ===== verification/FatProbe.thy ===== *)
theory FatProbe
  imports Fat RootPath KernelPrint
begin

text \<open>
  \<^verbatim>\<open>Init\<close> of \<^verbatim>\<open>src/modules/fat/main.c\<close>: every device below \<^verbatim>\<open>/dev\<close> but
  the terminal is read, and what looks like a boot sector is mounted and described.

  The read functions of the devices belong to other modules: \<open>probe x bs w\<close> is a call of node \<open>x\<close>'s
  with the buffer \<open>bs\<close>, its result the value returned and the buffer then, and \<open>drive_at x\<close> the drive
  behind the node, whose state includes the node's \<^verbatim>\<open>FileOffset\<close>.
\<close>

record 'd fat_world =
  disks :: 'd
  kern :: kernel

type_synonym 'd probe = "addr \<Rightarrow> u8 list \<Rightarrow> 'd fat_world \<Rightarrow> ((u32 \<times> u8 list) \<times> 'd fat_world) outcome"

definition FAT_BOOT_SECTOR_SIGN :: u16 where "FAT_BOOT_SECTOR_SIGN = 0xAA55"

definition fat_number :: "FATType \<Rightarrow> u32" where
  "fat_number ty = (case ty of FAT_UNKNOWN \<Rightarrow> 0 | FAT_12 \<Rightarrow> 1 | FAT_16 \<Rightarrow> 2 | FAT_32 \<Rightarrow> 3)"

definition is_tty0 :: "VNode \<Rightarrow> bool" where
  "is_tty0 n \<longleftrightarrow> Length (VNode.Name n) = 4 \<and> take 4 (VNodeString.Name (VNode.Name n)) = ''tty0''"

definition newline :: string where "newline = [CHR 0x0D, CHR 0x0A]"

definition put_number :: "string \<Rightarrow> u32 result \<Rightarrow> kernel \<Rightarrow> kernel outcome" where
  "put_number label r k =
     obind (Some r) (\<lambda>v. SerialPrint kput (''        fat.'' @ label @ ''%d'' @ newline @ [NUL]) [VaInt v] k)"

text \<open>What \<^verbatim>\<open>Init\<close> prints about the volume of a node.\<close>

definition describe :: "addr \<Rightarrow> FATVolume \<Rightarrow> kernel \<Rightarrow> kernel outcome" where
  "describe Node vol k =
     obind (SerialPrint kput (newline @ ''-- FAT-XX TEST FOR DRIVE @%p --'' @ newline @ [NUL]) [VaInt (ucast Node)] k) (\<lambda>k1.
     obind (put_number ''type                '' (rbind (FatIdentify vol) (\<lambda>ty. Inr (fat_number ty))) k1) (\<lambda>k2.
     obind (put_number ''total-sect          '' (Inr (FatTotalSectors vol)) k2) (\<lambda>k3.
     obind (put_number ''size                '' (Inr (FatSize vol)) k3) (\<lambda>k4.
     obind (put_number ''root-size           '' (FatRootDirSize vol) k4) (\<lambda>k5.
     obind (put_number ''first-dat           '' (FatFirstData vol) k5) (\<lambda>k6.
     obind (put_number ''first-fat           '' (Inr (FatFirstFat vol)) k6) (\<lambda>k7.
     obind (put_number ''data-cnt            '' (FatDataCount vol) k7) (\<lambda>k8.
     obind (put_number ''cluster-cnt         '' (FatClusterCount vol) k8) (\<lambda>k9.
     obind (put_number ''first-root          '' (FatFirstRoot vol) k9) (\<lambda>k10.
     obind (put_number ''root-clust          '' (Inr (FatRootCluster vol)) k10) (\<lambda>k11.
     put_number ''ssize  '' (Inr (ucast (BytesPerSector (Boot vol)))) k11)))))))))))"

definition mount_and_describe :: "(addr \<Rightarrow> 'd drive) \<Rightarrow> addr \<Rightarrow> 'd fat_world \<Rightarrow> 'd fat_world outcome" where
  "mount_and_describe drive_at Node w =
     obind (Some (node Node (kern w))) (\<lambda>n.
     obind (SerialPrint kput ('' [FAT] Found potential FAT device: %s'' @ newline @ [NUL])
       [VaPtr (Some (VNodeString.Name (VNode.Name n)))] (kern w)) (\<lambda>k.
     obind (FatMount (drive_at Node) (disks w)) (\<lambda>(vol, d).
     obind (describe Node vol k) (\<lambda>k1. Some (Inr (w\<lparr>disks := d, kern := k1\<rparr>))))))"

text \<open>One device: \<^verbatim>\<open>bs\<close> is the buffer the devices before have left.\<close>

definition try_device ::
  "'d probe \<Rightarrow> (addr \<Rightarrow> 'd drive) \<Rightarrow> addr \<Rightarrow> u8 list \<Rightarrow> 'd fat_world \<Rightarrow> (u8 list \<times> 'd fat_world) outcome" where
  "try_device probe drive_at Node bs w =
     obind (probe Node bs w) (\<lambda>((result, bs1), w1).
     obind (Some (get16 bs1 510)) (\<lambda>Magic.
       if result = 1 \<and> Magic = FAT_BOOT_SECTOR_SIGN
       then obind (mount_and_describe drive_at Node w1) (\<lambda>w2. Some (Inr (bs1, w2)))
       else Some (Inr (bs1, w1))))"

partial_function (option) device_loop ::
  "'d probe \<Rightarrow> (addr \<Rightarrow> 'd drive) \<Rightarrow> addr \<Rightarrow> u8 list \<Rightarrow> 'd fat_world \<Rightarrow> (u8 list \<times> 'd fat_world) outcome" where
  "device_loop probe drive_at Node bs w =
     (if Node = NULL then Some (Inr (bs, w))
      else
        obind (Some (node Node (kern w))) (\<lambda>n.
          if is_tty0 n then device_loop probe drive_at (Next n) bs w
          else
            obind (try_device probe drive_at Node bs w) (\<lambda>(bs1, w1).
            obind (Some (node Node (kern w1))) (\<lambda>n1. device_loop probe drive_at (Next n1) bs1 w1))))"

definition Init :: "'d probe \<Rightarrow> (addr \<Rightarrow> 'd drive) \<Rightarrow> 'd fat_world \<Rightarrow> (u32 \<times> 'd fat_world) outcome" where
  "Init probe drive_at w =
     obind (find_from_root ''/mnt'' 4 (kern w)) (\<lambda>Mnt.
     obind (find_from_root ''/dev'' 4 (kern w)) (\<lambda>dev_dir.
     obind (Some (node dev_dir (kern w))) (\<lambda>d.
     obind (device_loop probe drive_at (FirstChild d) (replicate 512 0) w) (\<lambda>(bs, w1). Some (Inr (0, w1))))))"

section \<open>The devices in turn\<close>

text \<open>The reference: the devices as a list.\<close>

fun try_all ::
  "'d probe \<Rightarrow> (addr \<Rightarrow> 'd drive) \<Rightarrow> addr list \<Rightarrow> u8 list \<Rightarrow> 'd fat_world \<Rightarrow> (u8 list \<times> 'd fat_world) outcome" where
  "try_all probe drive_at [] bs w = Some (Inr (bs, w))"
| "try_all probe drive_at (x # xs) bs w =
     obind (try_device probe drive_at x bs w) (\<lambda>(bs1, w1). try_all probe drive_at xs bs1 w1)"

text \<open>A device driver does not rewire the tree while it is read.\<close>

definition keeps_tree :: "'d probe \<Rightarrow> bool" where
  "keeps_tree probe \<longleftrightarrow> (\<forall>x bs w r w'. probe x bs w = Some (Inr (r, w')) \<longrightarrow>
     (\<forall>a. is_node (kern w') a = is_node (kern w) a \<and> Next (the_node (kern w') a) = Next (the_node (kern w) a) \<and>
        VNode.Name (the_node (kern w') a) = VNode.Name (the_node (kern w) a)))"

text \<open>A device whose reads fill the buffer with one byte is one.\<close>

lemma constant_probe_keeps_tree: "keeps_tree (\<lambda>x bs w. Some (Inr ((0, map (\<lambda>_. c) bs), w)))"
  by (simp add: keeps_tree_def)

definition same_links :: "kernel \<Rightarrow> kernel \<Rightarrow> bool" where
  "same_links k k' \<longleftrightarrow> (\<forall>a. is_node k' a = is_node k a \<and> Next (the_node k' a) = Next (the_node k a) \<and>
     VNode.Name (the_node k' a) = VNode.Name (the_node k a))"

lemma print_keeps: "SerialPrint kput fmt args k = Some (Inr k') \<Longrightarrow> nodes k' = nodes k"
proof -
  assume p: "SerialPrint kput fmt args k = Some (Inr k')"
  then obtain t where "render (drop 0 fmt) args = Some t"
    using print_loop_bad [of 0 fmt args kput k k'] by (cases "render (drop 0 fmt) args") (auto simp: SerialPrint_def)
  then show ?thesis using kernel_prints [of fmt args t k] p by auto
qed

lemma describe_keeps: "describe x vol k = Some (Inr k') \<Longrightarrow> nodes k' = nodes k"
proof -
  have n: "put_number l r k = Some (Inr k') \<Longrightarrow> nodes k' = nodes k" for l r k k'
    by (cases r) (auto simp: put_number_def dest: print_keeps)
  show "describe x vol k = Some (Inr k') \<Longrightarrow> nodes k' = nodes k"
    unfolding describe_def obind_Inr_iff by (auto dest!: n print_keeps)
qed

lemma mount_keeps: "mount_and_describe drive_at x w = Some (Inr w') \<Longrightarrow> nodes (kern w') = nodes (kern w)"
  by (auto simp: mount_and_describe_def obind_Inr_iff dest!: describe_keeps print_keeps)

lemma same_links_nodes: "nodes k' = nodes k \<Longrightarrow> same_links k k'"
  by (simp add: same_links_def is_node_def)

lemma same_links_trans: "same_links a b \<Longrightarrow> same_links b c \<Longrightarrow> same_links a c"
  by (simp add: same_links_def)

lemma try_device_keeps:
  assumes "keeps_tree probe" "try_device probe drive_at x bs w = Some (Inr (bs', w'))"
  shows "same_links (kern w) (kern w')"
proof -
  from assms(2) obtain r b1 w1 m where p: "probe x bs w = Some (Inr ((r, b1), w1))" "get16 b1 510 = Inr m"
    and e: "w' = w1 \<or> mount_and_describe drive_at x w1 = Some (Inr w')"
    by (auto simp: try_device_def obind_Inr_iff split: if_splits)
  have "same_links (kern w) (kern w1)" using assms(1) p(1) by (simp add: keeps_tree_def same_links_def)
  moreover have "same_links (kern w1) (kern w')"
    using e mount_keeps [of drive_at x w1 w'] by (auto intro: same_links_nodes)
  ultimately show ?thesis by (rule same_links_trans)
qed

lemma chain_links: "same_links k k' \<Longrightarrow> chain k p xs \<Longrightarrow> chain k' p xs"
  by (induction xs arbitrary: p) (simp_all add: same_links_def)

lemma device_loop_all:
  assumes "keeps_tree probe"
  shows "chain (kern w) p xs \<Longrightarrow> device_loop probe drive_at p bs w =
     try_all probe drive_at (filter (\<lambda>x. \<not> is_tty0 (the_node (kern w) x)) xs) bs w"
proof (induction xs arbitrary: p bs w)
  case Nil
  then show ?case by (subst device_loop.simps) simp
next
  case (Cons x xs)
  then have x: "p = x" "x \<noteq> NULL" "is_node (kern w) x" by (auto simp: is_node_def)
  show ?case
  proof (cases "is_tty0 (the_node (kern w) x)")
    case True
    then show ?thesis using Cons x by (subst device_loop.simps) simp
  next
    case False
    have step: "obind (Some (node x (kern w1))) (\<lambda>n1. device_loop probe drive_at (Next n1) bs1 w1) =
        try_all probe drive_at (filter (\<lambda>x. \<not> is_tty0 (the_node (kern w) x)) xs) bs1 w1"
      if "try_device probe drive_at x bs w = Some (Inr (bs1, w1))" for bs1 w1
    proof -
      have l: "same_links (kern w) (kern w1)" using try_device_keeps [OF assms that] .
      then have "is_node (kern w1) x" "Next (the_node (kern w1) x) = Next (the_node (kern w) x)"
        "is_tty0 (the_node (kern w1) y) = is_tty0 (the_node (kern w) y)" for y
        using x(3) by (simp_all add: same_links_def is_tty0_def)
      moreover have "chain (kern w1) (Next (the_node (kern w) x)) xs" using chain_links [OF l] Cons.prems x(1) by simp
      ultimately show ?thesis using Cons.IH [of w1 "Next (the_node (kern w) x)" bs1] by simp
    qed
    have "device_loop probe drive_at x bs w = obind (try_device probe drive_at x bs w)
        (\<lambda>(bs1, w1). obind (Some (node x (kern w1))) (\<lambda>n1. device_loop probe drive_at (Next n1) bs1 w1))"
      using x False by (subst device_loop.simps) simp
    also have "\<dots> = obind (try_device probe drive_at x bs w)
        (\<lambda>(bs1, w1). try_all probe drive_at (filter (\<lambda>x. \<not> is_tty0 (the_node (kern w) x)) xs) bs1 w1)"
      using step by (cases "try_device probe drive_at x bs w" rule: option.exhaust) (auto simp: obind_def split: sum.split)
    finally show ?thesis using x(1) False by simp
  qed
qed

text \<open>
  Loading the FAT module tries the devices below \<^verbatim>\<open>/dev\<close> in their order, each once and the
  terminal not at all, and returns 0 once every one of them has answered.
\<close>

theorem Init_tries_devices:
  assumes "keeps_tree probe" "repr (kern w) t" "root_of t = Root (kern w)"
    and "\<forall>a \<in> set (nodes_of t). regular (the_node (kern w) a)" "lookup (kern w) t [''mnt''] \<noteq> None"
    and "lookup (kern w) t [''dev''] = Some (VTree d ts)" "\<not> has_flag (VNode.Flags (the_node (kern w) d)) VFS_LINK"
  shows "Init probe drive_at w =
     obind (try_all probe drive_at (filter (\<lambda>x. \<not> is_tty0 (the_node (kern w) x)) (map root_of ts)) (replicate 512 0) w)
       (\<lambda>(bs, w1). Some (Inr (0, w1)))"
proof -
  have w: "list_all plain_word (components ''/dev'')" "components ''/dev'' = [''dev'']"
    "list_all plain_word (components ''/mnt'')" "components ''/mnt'' = [''mnt'']"
    by (simp_all add: components_def pieces_Cons plain_word_def special_words_def)
  obtain Mnt where "find_from_root ''/mnt'' 4 (kern w) = Some (Inr Mnt)"
    using find_from_root_tree [OF assms(2-4) w(3), unfolded w(4)] assms(5) by (auto simp: eval_nat_numeral)
  moreover have "find_from_root ''/dev'' 4 (kern w) = Some (Inr d)"
    using find_from_root_tree [OF assms(2-4) w(1), unfolded w(2)] assms(6,7) by (simp add: eval_nat_numeral)
  moreover have "repr (kern w) (VTree d ts)" using lookup_repr [OF assms(6,2)] by blast
  then have "is_node (kern w) d" "chain (kern w) (FirstChild (the_node (kern w) d)) (map root_of ts)" by simp_all
  ultimately show ?thesis using device_loop_all [OF assms(1)] by (simp add: Init_def)
qed

end
