(* ===== verification/Hello.thy ===== *)
theory Hello
  imports Sched KernelPrint
begin

text \<open>
  The module \<^verbatim>\<open>src/modules/hello/main.c\<close>: it creates a process that prints 64 lines and
  ends itself. \<open>HelloAddress\<close> is where the loader has put the function \<^verbatim>\<open>Hello\<close>.
  \<^verbatim>\<open>ArchSti\<close> has no counterpart in the state.
\<close>

definition greeting :: string where
  "greeting = '' [Proc] Hello, World! x%d'' @ [CHR 0x0D, CHR 0x0A, NUL]"

function hello_loop :: "nat \<Rightarrow> kernel \<Rightarrow> kernel outcome" where
  "hello_loop i s =
     (if i < 64 then obind (SerialPrint kput greeting [VaInt (of_nat i)] s) (hello_loop (i + 1)) else Some (Inr s))"
  by auto
termination by (relation "measure (\<lambda>(i, s). 64 - i)") auto

declare hello_loop.simps [simp del]

definition Hello :: "kernel \<Rightarrow> kernel outcome" where
  "Hello s = obind (hello_loop 0 s) SchedulerExit"

text \<open>The pointers are cut to 32 bits before they are stored in the registers.\<close>

definition initial_state :: "addr \<Rightarrow> addr \<Rightarrow> u64 list" where
  "initial_state stack HelloAddress =
     (replicate 24 0)[4 := ucast (ucast (stack + 4 * 1020) :: u32), 8 := ucast (ucast HelloAddress :: u32),
       9 := 0x08, 10 := 0x10, 11 := 0x10, 12 := 0x10, 13 := 0x10, 14 := 0x10, 15 := 0x3202]"

definition Init :: "addr \<Rightarrow> kernel \<Rightarrow> (u32 \<times> kernel) outcome" where
  "Init HelloAddress s =
     obind (Some (kalloc (1024 * 4) s)) (\<lambda>(stack, s1).
     obind (SchedulerCreateProc (initial_state stack HelloAddress) s1) (\<lambda>(New, s2). Some (Inr (0, s2))))"

definition greetings :: "nat \<Rightarrow> nat \<Rightarrow> string" where
  "greetings i n = concat (map (\<lambda>k. '' [Proc] Hello, World! x'' @ num_text 10 k @ [CHR 0x0D, CHR 0x0A]) [i..<n])"

lemma hello_loop_prints: "i \<le> 64 \<Longrightarrow> hello_loop i s = Some (Inr (s\<lparr>tx := tx s @ greetings i 64\<rparr>))"
proof (induction "64 - i" arbitrary: i s)
  case 0
  then show ?case by (subst hello_loop.simps) (simp add: greetings_def)
next
  case (Suc m)
  then have i: "i < 64" by simp
  have "sint (of_nat i :: u32) = int i"
    using i int_word_sint [where 'a = 32, of "int i"] by simp
  moreover have "(of_nat i :: u32) \<noteq> INT_MIN"
  proof
    assume "(of_nat i :: u32) = INT_MIN"
    then have "unat (of_nat i :: u32) = 2 ^ 31" by (simp add: INT_MIN_def)
    then show False using i by (simp add: unat_of_nat)
  qed
  ultimately have "render greeting [VaInt (of_nat i)] =
      Some ('' [Proc] Hello, World! x'' @ num_text 10 i @ [CHR 0x0D, CHR 0x0A])"
    by (simp add: greeting_def directive_text_def int_text_def)
  then have "hello_loop i s = hello_loop (i + 1)
      (s\<lparr>tx := tx s @ '' [Proc] Hello, World! x'' @ num_text 10 i @ [CHR 0x0D, CHR 0x0A]\<rparr>)"
    using i kernel_prints by (subst hello_loop.simps) simp
  also have "\<dots> = Some (Inr (s\<lparr>tx := tx s @ greetings i 64\<rparr>))"
  proof -
    have "[i..<64] = i # [i + 1..<64]" using i by (simp add: upt_rec)
    then have "greetings i 64 = '' [Proc] Hello, World! x'' @ num_text 10 i @ [CHR 0x0D, CHR 0x0A] @ greetings (i + 1) 64"
      by (simp add: greetings_def)
    moreover have "m = 64 - (i + 1)" "i + 1 \<le> 64" using Suc.hyps(2) i by simp_all
    ultimately show ?thesis using Suc.hyps(1) [of "i + 1"] by simp
  qed
  finally show ?case .
qed

text \<open>The process prints its 64 lines, numbered from 0, and then ends itself.\<close>

theorem Hello_prints: "Hello s = SchedulerExit (s\<lparr>tx := tx s @ greetings 0 64\<rparr>)"
  by (simp add: Hello_def hello_loop_prints)

text \<open>
  A stack in the first 4 GiB is used from 16 bytes below its end on; one beyond is not what the process
  gets.
\<close>

theorem stack_pointer:
  "initial_state stack HelloAddress ! 4 = stack + 4080 \<longleftrightarrow> unat (stack + 4080) < 2 ^ 32"
proof -
  have "initial_state stack HelloAddress ! 4 = ucast (ucast (stack + 4080) :: u32)" by (simp add: initial_state_def)
  moreover have "unat (ucast (ucast w :: u32) :: u64) = unat w mod 2 ^ 32" for w :: u64
    by (simp add: unsigned_ucast_eq take_bit_eq_mod unat_mod)
  ultimately show ?thesis by (auto simp: word_unat_eq_iff mod_eq_self_iff_div_eq_0)
qed

end
